(* ===== verification/Prelude.thy ===== *)
theory Prelude
  imports Main "HOL-Library.Word"
begin

text \<open>
  The vocabulary the component theories share: Go errors with \<open>%w\<close> wrapping and
  \<open>errors.Is\<close>, the three ways a Go call can end (a value, an error, a panic), contexts,
  64-bit signed integers, \<open>utils.FirstError\<close>, and the generic list lemmas (lists kept
  strictly sorted by a key, as the stores keep their streams by version).
\<close>

named_theorems outcome_simps \<open>equations of the outcome combinators\<close>
named_theorems keyed_sorted \<open>facts on lists strictly sorted by a key\<close>

section \<open>Errors\<close>

text \<open>
  The sentinels of \<^verbatim>\<open>models/errors.go\<close>, in the order of the source, and the two errors a
  done \<open>context.Context\<close> reports.
\<close>

datatype sentinel =
    ErrNotFound
  | ErrValidation
  | ErrPipelineFailed
  | ErrQueueFull
  | ErrShuttingDown
  | ErrAlreadyShuttingDown
  | ErrContextCancelled
  | ErrBusClosed
  | ErrNilHandler
  | ErrEmptyPattern
  | ErrMissingEventStore
  | ErrMissingSnapshotStore
  | ErrForgetFailed
  | ErrDispatcherClosed
  | ErrDuplicateReceipt
  | ErrSyncProjection
  | ErrHandlerPanic
  | ErrHandlerTimeout
  | ErrFallbackUnsupported
  | ErrDeliveryParked
  | ErrForgetInProgress
  | ErrSendWaitFromHandler
  | ErrForgetFromHandler
  | CtxCanceled
  | CtxDeadlineExceeded

text \<open>
  An error value: a sentinel, an error of code outside the library (only its text is known),
  the result of \<open>fmt.Errorf\<close> with its literal text and its \<open>%w\<close> operands in order, and a
  \<open>SubscriberError\<close>. \<open>errors.Join\<close> is an \<open>Errorf\<close> of its operands, one per line.
\<close>

datatype goerr =
    Sentinel sentinel
  | OtherErr string
  | Errorf "frag list"
  | SubscriberErr string goerr
and frag =
    Lit string
  | Wrap goerr

text \<open>\<open>errors.Is (err, target)\<close> for a sentinel target walks the whole tree of wrapped errors.\<close>

fun errorsIs :: "goerr \<Rightarrow> sentinel \<Rightarrow> bool"
  and fragIs :: "frag \<Rightarrow> sentinel \<Rightarrow> bool"
where
  "errorsIs (Sentinel s) t = (s = t)"
| "errorsIs (OtherErr _) t = False"
| "errorsIs (Errorf fs) t = list_ex (\<lambda>f. fragIs f t) fs"
| "errorsIs (SubscriberErr _ e) t = errorsIs e t"
| "fragIs (Lit _) t = False"
| "fragIs (Wrap e) t = errorsIs e t"

fun sentinelText :: "sentinel \<Rightarrow> string" where
  "sentinelText ErrNotFound = ''asynx: aggregate not found''"
| "sentinelText ErrValidation = ''asynx: validation failed''"
| "sentinelText ErrPipelineFailed = ''asynx: pipeline failed''"
| "sentinelText ErrQueueFull = ''asynx: queue full''"
| "sentinelText ErrShuttingDown = ''asynx: shutting down''"
| "sentinelText ErrAlreadyShuttingDown = ''asynx: already shutting down''"
| "sentinelText ErrContextCancelled = ''asynx: context cancelled''"
| "sentinelText ErrBusClosed = ''asynx: bus closed''"
| "sentinelText ErrNilHandler = ''asynx: handler is nil''"
| "sentinelText ErrEmptyPattern = ''asynx: pattern is empty''"
| "sentinelText ErrMissingEventStore = ''asynx: event store is required''"
| "sentinelText ErrMissingSnapshotStore = ''asynx: snapshot store is required''"
| "sentinelText ErrForgetFailed = ''asynx: forget failed''"
| "sentinelText ErrDispatcherClosed = ''asynx: dispatcher closed''"
| "sentinelText ErrDuplicateReceipt = ''asynx: duplicate command receipt''"
| "sentinelText ErrSyncProjection = ''asynx: sync projection failed''"
| "sentinelText ErrHandlerPanic = ''asynx: durable handler panicked''"
| "sentinelText ErrHandlerTimeout = ''asynx: durable handler timed out''"
| "sentinelText ErrFallbackUnsupported = ''asynx: durable subscribers do not support WithFallback''"
| "sentinelText ErrDeliveryParked = ''asynx: durable delivery parked''"
| "sentinelText ErrForgetInProgress = ''asynx: aggregate is being forgotten''"
| "sentinelText ErrSendWaitFromHandler = ''asynx: a handler cannot SendWait to the aggregate it is handling''"
| "sentinelText ErrForgetFromHandler = ''asynx: a handler cannot forget the aggregate it is handling''"
| "sentinelText CtxCanceled = ''context canceled''"
| "sentinelText CtxDeadlineExceeded = ''context deadline exceeded''"

text \<open>\<open>err.Error()\<close>, the text of an error.\<close>

fun errText :: "goerr \<Rightarrow> string"
  and fragText :: "frag \<Rightarrow> string"
where
  "errText (Sentinel s) = sentinelText s"
| "errText (OtherErr t) = t"
| "errText (Errorf fs) = concat (map fragText fs)"
| "errText (SubscriberErr n e) = ''subscriber '' @ n @ '': '' @ errText e"
| "fragText (Lit t) = t"
| "fragText (Wrap e) = errText e"

text \<open>Decimal text of a number, as \<open>%d\<close> prints it.\<close>

fun showNat :: "nat \<Rightarrow> string" where
  "showNat n = (if n < 10 then [char_of (48 + n)] else showNat (n div 10) @ [char_of (48 + n mod 10)])"

declare showNat.simps [simp del]

definition showInt :: "int \<Rightarrow> string" where
  "showInt n = (if n < 0 then CHR ''-'' # showNat (nat (- n)) else showNat (nat n))"

text \<open>
  \<open>%v\<close> of a \<open>time.Duration\<close>, in nanoseconds: the fraction without trailing zeros, and below a
  second a smaller unit (the micro sign is two bytes of UTF-8).
\<close>

definition fracText :: "nat \<Rightarrow> nat \<Rightarrow> string" where
  "fracText v prec =
     (let digits = map (\<lambda>k. v div 10 ^ (prec - Suc k) mod 10) [0..<prec];
          kept = rev (dropWhile (\<lambda>x. x = 0) (rev digits))
      in if kept = [] then [] else CHR ''.'' # map (\<lambda>x. char_of (48 + x)) kept)"

definition showDuration :: "int \<Rightarrow> string" where
  "showDuration d =
     (let u = nat \<bar>d\<bar>;
          unit = (\<lambda>prec name. showNat (u div 10 ^ prec) @ fracText u prec @ name);
          secs = u div 10 ^ 9;
          body = (if u = 0 then ''0s''
                  else if u < 10 ^ 3 then unit 0 ''ns''
                  else if u < 10 ^ 6 then unit 3 [char_of (194 :: nat), char_of (181 :: nat), CHR ''s'']
                  else if u < 10 ^ 9 then unit 6 ''ms''
                  else (if secs \<ge> 3600 then showNat (secs div 3600) @ ''h'' else [])
                    @ (if secs \<ge> 60 then showNat (secs div 60 mod 60) @ ''m'' else [])
                    @ showNat (secs mod 60) @ fracText u 9 @ ''s'')
      in if d < 0 then CHR ''-'' # body else body)"

text \<open>The two shapes the source builds most: \<open>"%w: %w"\<close> and \<open>"%w: %s"\<close>.\<close>

definition wrapErr :: "sentinel \<Rightarrow> goerr \<Rightarrow> goerr" where
  "wrapErr s e = Errorf [Wrap (Sentinel s), Lit '': '', Wrap e]"

definition wrapText :: "sentinel \<Rightarrow> string \<Rightarrow> goerr" where
  "wrapText s t = Errorf [Wrap (Sentinel s), Lit '': '', Lit t]"

lemma errorsIs_wrapErr [simp]: "errorsIs (wrapErr s e) t \<longleftrightarrow> s = t \<or> errorsIs e t"
  by (simp add: wrapErr_def)

lemma errorsIs_wrapText [simp]: "errorsIs (wrapText s u) t \<longleftrightarrow> s = t"
  by (simp add: wrapText_def)

lemma wrapErr_not_Sentinel [simp]: "wrapErr s e \<noteq> Sentinel t" "Sentinel t \<noteq> wrapErr s e"
  by (simp_all add: wrapErr_def)

text \<open>\<open>errors.Join\<close>: nil errors are dropped; joining none is nil.\<close>

fun joinFrags :: "goerr list \<Rightarrow> frag list" where
  "joinFrags [] = []"
| "joinFrags [e] = [Wrap e]"
| "joinFrags (e # es) = Wrap e # Lit (''\<newline>'') # joinFrags es"

definition errorsJoin :: "goerr option list \<Rightarrow> goerr option" where
  "errorsJoin es = (case List.map_filter id es of [] \<Rightarrow> None | ds \<Rightarrow> Some (Errorf (joinFrags ds)))"

lemma list_ex_joinFrags: "list_ex (\<lambda>f. fragIs f t) (joinFrags es) = (\<exists>e \<in> set es. errorsIs e t)"
  by (induction es rule: joinFrags.induct) auto

lemma errorsJoin_None_iff: "errorsJoin es = None \<longleftrightarrow> set es \<subseteq> {None}"
  by (induction es) (auto simp: errorsJoin_def map_filter_simps split: list.splits option.splits)

section \<open>How a call ends\<close>

datatype 'a outcome = Ok 'a | Fail goerr | Panic string

fun isOk :: "'a outcome \<Rightarrow> bool" where
  "isOk (Ok _) = True"
| "isOk (Fail _) = False"
| "isOk (Panic _) = False"

fun bindO :: "'a outcome \<Rightarrow> ('a \<Rightarrow> 'b outcome) \<Rightarrow> 'b outcome" where
  "bindO (Ok x) f = f x"
| "bindO (Fail e) f = Fail e"
| "bindO (Panic p) f = Panic p"

lemma bindO_eq_Ok: "bindO r f = Ok y \<longleftrightarrow> (\<exists>x. r = Ok x \<and> f x = Ok y)"
  by (cases r) auto

text \<open>Giving up with the outcome of a sub-call: the value type changes, the failure stays.\<close>

fun failAs :: "'a outcome \<Rightarrow> 'b outcome" where
  "failAs (Ok _) = Panic ''unreachable''"
| "failAs (Fail e) = Fail e"
| "failAs (Panic p) = Panic p"

section \<open>Contexts\<close>

text \<open>
  A \<open>context.Context\<close> as a call sees it: the error \<open>ctx.Err()\<close> returns, and the aggregate
  whose handler the context belongs to (the value under the dispatcher's \<open>inHandlerKey\<close>).
\<close>

record ctx =
  ctxErr :: "goerr option"
  ctxHandler :: "string option"

definition background :: ctx where
  "background = \<lparr>ctxErr = None, ctxHandler = None\<rparr>"

definition withoutCancel :: "ctx \<Rightarrow> ctx" where
  "withoutCancel c = c\<lparr>ctxErr := None\<rparr>"

lemma withoutCancel_simps [simp]:
  "ctxErr (withoutCancel c) = None" "ctxHandler (withoutCancel c) = ctxHandler c"
  by (simp_all add: withoutCancel_def)

lemma background_simps [simp]: "ctxErr background = None" "ctxHandler background = None"
  by (simp_all add: background_def)

section \<open>Machine integers\<close>

text \<open>Go's \<open>int64\<close>: two's complement, arithmetic wraps around.\<close>

definition i64 :: "int \<Rightarrow> int" where
  "i64 x = (x + 2 ^ 63) mod 2 ^ 64 - 2 ^ 63"

definition maxInt64 :: int where
  "maxInt64 = 2 ^ 63 - 1"

lemma i64_range: "- (2 ^ 63) \<le> i64 x \<and> i64 x \<le> maxInt64"
  unfolding i64_def maxInt64_def by (simp add: pos_mod_bound)

lemma i64_id: "- (2 ^ 63) \<le> x \<Longrightarrow> x \<le> maxInt64 \<Longrightarrow> i64 x = x"
  unfolding i64_def maxInt64_def by simp

lemma i64_max_wraps: "i64 (maxInt64 + 1) = - (2 ^ 63)"
  by (simp add: i64_def maxInt64_def)

section \<open>First error\<close>

text \<open>
  \<open>utils.FirstError\<close>: \<open>try\<close> runs on each item in order, threading the state it changes, and
  the first error stops the run.
\<close>

fun firstError :: "('e \<Rightarrow> 's \<Rightarrow> goerr option \<times> 's) \<Rightarrow> 'e list \<Rightarrow> 's \<Rightarrow> goerr option \<times> 's" where
  "firstError try [] s = (None, s)"
| "firstError try (x # xs) s =
     (case try x s of
        (Some e, s') \<Rightarrow> (Some e, s')
      | (None, s') \<Rightarrow> firstError try xs s')"

lemma firstError_invariant:
  assumes "\<And>x s. x \<in> set xs \<Longrightarrow> P s \<Longrightarrow> P (snd (try x s))" and "P s"
  shows "P (snd (firstError try xs s))"
  using assms
proof (induction xs arbitrary: s)
  case Nil
  then show ?case by simp
next
  case (Cons x xs)
  obtain r s' where r: "try x s = (r, s')" by fastforce
  have "P s'" using Cons.prems(1)[of x s] Cons.prems(2) r by simp
  then show ?case using Cons r by (cases r) auto
qed

lemma firstError_all_None:
  assumes "\<And>x s. x \<in> set xs \<Longrightarrow> fst (try x s) = None"
  shows "firstError try xs s = (None, fold (\<lambda>x s. snd (try x s)) xs s)"
  using assms
proof (induction xs arbitrary: s)
  case Nil
  then show ?case by simp
next
  case (Cons x xs)
  then have "try x s = (None, snd (try x s))" by (metis list.set_intros(1) prod.collapse)
  moreover have "firstError try xs s' = (None, fold (\<lambda>x s. snd (try x s)) xs s')" for s'
    using Cons by simp
  ultimately show ?case
    by (metis (no_types, lifting) firstError.simps(2) fold_simps(2) old.prod.case option.case(1))
qed

section \<open>Lists strictly sorted by a key\<close>

definition sortedBy :: "('a \<Rightarrow> int) \<Rightarrow> 'a list \<Rightarrow> bool" where
  "sortedBy k xs \<longleftrightarrow> sorted_wrt (<) (map k xs)"

lemma sortedBy_Nil [simp, keyed_sorted]: "sortedBy k []"
  by (simp add: sortedBy_def)

lemma sortedBy_Cons [keyed_sorted]:
  "sortedBy k (x # xs) \<longleftrightarrow> (\<forall>y \<in> set xs. k x < k y) \<and> sortedBy k xs"
  by (auto simp: sortedBy_def)

lemma sortedBy_append [keyed_sorted]:
  "sortedBy k (xs @ ys) \<longleftrightarrow>
     sortedBy k xs \<and> sortedBy k ys \<and> (\<forall>x \<in> set xs. \<forall>y \<in> set ys. k x < k y)"
  by (auto simp: sortedBy_def sorted_wrt_append)

lemma sortedBy_filter: "sortedBy k xs \<Longrightarrow> sortedBy k (filter P xs)"
  by (simp add: sortedBy_def sorted_wrt_map sorted_wrt_filter)

lemma sortedBy_distinct: "sortedBy k xs \<Longrightarrow> distinct (map k xs)"
  unfolding sortedBy_def using strict_sorted_iff by blast

text \<open>
  The reference position of a key: the number of entries with a smaller key. The in-memory
  store finds it by binary search.
\<close>

definition posBy :: "('a \<Rightarrow> int) \<Rightarrow> int \<Rightarrow> 'a list \<Rightarrow> nat" where
  "posBy k v xs = length (takeWhile (\<lambda>x. k x < v) xs)"

lemma posBy_le: "posBy k v xs \<le> length xs"
  by (simp add: posBy_def length_takeWhile_le)

lemma posBy_simps [simp]:
  "posBy k v [] = 0"
  "posBy k v (x # xs) = (if k x < v then Suc (posBy k v xs) else 0)"
  by (simp_all add: posBy_def)

lemma sortedBy_drop_posBy:
  "sortedBy k xs \<Longrightarrow> drop (posBy k v xs) xs = filter (\<lambda>x. v \<le> k x) xs"
proof (induction xs)
  case Nil
  then show ?case by simp
next
  case (Cons x xs)
  show ?case
  proof (cases "k x < v")
    case True
    with Cons show ?thesis by (simp add: sortedBy_Cons)
  next
    case False
    with Cons.prems have "\<forall>y \<in> set (x # xs). v \<le> k y" by (fastforce simp: sortedBy_Cons)
    with False show ?thesis by simp
  qed
qed

lemma sortedBy_take_posBy:
  "sortedBy k xs \<Longrightarrow> take (posBy k v xs) xs = filter (\<lambda>x. k x < v) xs"
proof (induction xs)
  case Nil
  then show ?case by simp
next
  case (Cons x xs)
  show ?case
  proof (cases "k x < v")
    case True
    with Cons show ?thesis by (simp add: sortedBy_Cons)
  next
    case False
    with Cons.prems have "\<forall>y \<in> set (x # xs). \<not> k y < v" by (fastforce simp: sortedBy_Cons)
    with False show ?thesis by simp
  qed
qed

lemma sortedBy_nth_posBy:
  assumes "sortedBy k xs"
  shows "(posBy k v xs < length xs \<and> k (xs ! posBy k v xs) = v) \<longleftrightarrow> v \<in> k ` set xs"
  using assms
proof (induction xs)
  case Nil
  then show ?case by simp
next
  case (Cons x xs)
  then have IH: "(posBy k v xs < length xs \<and> k (xs ! posBy k v xs) = v) = (v \<in> k ` set xs)"
    and gt: "\<forall>y \<in> set xs. k x < k y" by (simp_all add: sortedBy_Cons)
  show ?case
  proof (cases "k x < v")
    case True
    with IH show ?thesis by auto
  next
    case False
    with gt have "v \<notin> k ` set xs" by fastforce
    with False show ?thesis by auto
  qed
qed

text \<open>Inserting at the position of the key keeps the list sorted when the key is new.\<close>

definition insertBy :: "('a \<Rightarrow> int) \<Rightarrow> 'a \<Rightarrow> 'a list \<Rightarrow> 'a list" where
  "insertBy k x xs = filter (\<lambda>y. k y < k x) xs @ x # filter (\<lambda>y. k x \<le> k y) xs"

lemma sortedBy_insertBy:
  assumes "sortedBy k xs" "k x \<notin> k ` set xs"
  shows "sortedBy k (insertBy k x xs)"
proof -
  have "\<forall>y \<in> set xs. k x \<le> k y \<longrightarrow> k x < k y" using assms(2) by fastforce
  then show ?thesis
    using assms(1) by (auto simp: insertBy_def sortedBy_append sortedBy_Cons sortedBy_filter)
qed

lemma set_insertBy: "set (insertBy k x xs) = insert x (set xs)"
  by (auto simp: insertBy_def)

lemma insertBy_last:
  assumes "\<forall>y \<in> set xs. k y < k x"
  shows "insertBy k x xs = xs @ [x]"
proof -
  have "filter (\<lambda>y. k y < k x) xs = xs" using assms by simp
  moreover have "filter (\<lambda>y. k x \<le> k y) xs = []" using assms by (auto simp: filter_empty_conv)
  ultimately show ?thesis by (simp add: insertBy_def)
qed

lemma filter_insertBy:
  "k x \<notin> k ` set xs \<Longrightarrow> sortedBy k xs \<Longrightarrow> filter (\<lambda>y. k y \<noteq> k x) (insertBy k x xs) = xs"
proof (induction xs)
  case Nil
  then show ?case by (simp add: insertBy_def)
next
  case (Cons y ys)
  then have ne: "k y \<noteq> k x" and "\<forall>z \<in> set ys. k z \<noteq> k x" by (simp, metis insertI2 rev_image_eqI list.simps(15))
  then have all: "filter (\<lambda>z. k z \<noteq> k x) (y # ys) = y # ys" by (simp add: filter_id_conv)
  show ?case
  proof (cases "k y < k x")
    case True
    with Cons ne show ?thesis by (simp add: insertBy_def sortedBy_Cons)
  next
    case False
    with Cons.prems ne have "\<forall>z \<in> set (y # ys). k x \<le> k z \<and> \<not> k z < k x"
      by (fastforce simp: sortedBy_Cons)
    then have "insertBy k x (y # ys) = x # y # ys"
      by (auto simp: insertBy_def filter_id_conv filter_empty_conv not_less)
    with all show ?thesis by simp
  qed
qed

text \<open>Versions \<open>1, 2, \<dots>, n\<close>: what a stream that is only ever appended to holds.\<close>

definition contiguous :: "('a \<Rightarrow> int) \<Rightarrow> 'a list \<Rightarrow> bool" where
  "contiguous k xs \<longleftrightarrow> map k xs = map int [1..<Suc (length xs)]"

lemma contiguous_Nil [simp]: "contiguous k []"
  by (simp add: contiguous_def)

lemma contiguous_snoc:
  "contiguous k (xs @ [x]) \<longleftrightarrow> contiguous k xs \<and> k x = int (length xs) + 1"
  by (auto simp: contiguous_def)

lemma contiguous_nth: "contiguous k xs \<Longrightarrow> i < length xs \<Longrightarrow> k (xs ! i) = int i + 1"
proof -
  assume "contiguous k xs" and i: "i < length xs"
  then have "map k xs ! i = map int [1..<Suc (length xs)] ! i" by (simp add: contiguous_def)
  with i show ?thesis by (simp del: upt_Suc)
qed

lemma contiguous_bounds: "contiguous k xs \<Longrightarrow> x \<in> set xs \<Longrightarrow> 1 \<le> k x \<and> k x \<le> int (length xs)"
  by (auto simp: in_set_conv_nth contiguous_nth)

lemma contiguous_sortedBy: "contiguous k xs \<Longrightarrow> sortedBy k xs"
proof (induction xs rule: rev_induct)
  case Nil
  then show ?case by simp
next
  case (snoc x xs)
  then show ?case
    by (fastforce simp: contiguous_snoc sortedBy_append sortedBy_Cons dest: contiguous_bounds)
qed

lemma contiguous_filter: "contiguous k xs \<Longrightarrow> filter (\<lambda>x. int n + 1 \<le> k x) xs = drop n xs"
proof (induction xs rule: rev_induct)
  case Nil
  then show ?case by simp
next
  case (snoc x xs)
  then show ?case by (auto simp: contiguous_snoc)
qed

end
