(* ===== verification/Json.thy ===== *)
theory Json
  imports Prelude
begin

text \<open>
  What the event store puts in its blobs. Blobs are byte slices that hold JSON; the model
  keeps them at the level of JSON values (an object is the list of its members, white space
  and key order are not represented), beside the empty slice and bytes that are not JSON.

  \<open>encoding/json\<close> on the two structs of \<^verbatim>\<open>internal/eventstore/models\<close> is modelled field by
  field: a missing or null member leaves the field's zero value, a member of the wrong type
  is an error. Only documents the code writes itself are meant: strings are valid UTF-8, times are in
  the form \<open>MarshalJSON\<close> gives them, and keys are spelt as the struct tags and occur once, so neither the
  replacement of invalid bytes nor the case-insensitive match of keys comes up. The user's aggregate type and the two third-party packages
  (\<open>wI2L/jsondiff\<close>, \<open>evanphx/json-patch\<close>) are the parameters of a \<open>codec\<close>.
\<close>

datatype json =
    JNull
  | JBool bool
  | JInt int
  | JFloat string
  | JStr string
  | JArr "json list"
  | JObj "(string \<times> json) list"

datatype blob = Empty | Json json | Malformed string

definition jsonErr :: "string \<Rightarrow> 'a outcome" where
  "jsonErr what = Fail (OtherErr (''json: '' @ what))"

section \<open>Timestamps\<close>

text \<open>
  \<open>time.Time\<close> travels as RFC 3339 text; decoding checks the shape and the ranges.
\<close>

definition digitVal :: "char \<Rightarrow> nat option" where
  "digitVal c = (let n = of_char c in if 48 \<le> n \<and> n \<le> 57 then Some (n - 48) else None)"

fun natOf :: "nat \<Rightarrow> string \<Rightarrow> nat option" where
  "natOf acc [] = Some acc"
| "natOf acc (c # cs) = (case digitVal c of None \<Rightarrow> None | Some d \<Rightarrow> natOf (10 * acc + d) cs)"

definition field :: "nat \<Rightarrow> nat \<Rightarrow> string \<Rightarrow> nat option" where
  "field i n s = (if i + n \<le> length s then natOf 0 (take n (drop i s)) else None)"

definition daysIn :: "nat \<Rightarrow> nat \<Rightarrow> nat" where
  "daysIn y m =
     (if m = 2 then (if y mod 4 = 0 \<and> (y mod 100 \<noteq> 0 \<or> y mod 400 = 0) then 29 else 28)
      else if m \<in> {4, 6, 9, 11} then 30 else 31)"

definition within :: "nat option \<Rightarrow> nat \<Rightarrow> nat \<Rightarrow> bool" where
  "within n lo hi = (case n of None \<Rightarrow> False | Some k \<Rightarrow> lo \<le> k \<and> k \<le> hi)"

definition zoneOk :: "string \<Rightarrow> bool" where
  "zoneOk z \<longleftrightarrow> z = ''Z'' \<or>
     (length z = 6 \<and> (z ! 0 = CHR ''+'' \<or> z ! 0 = CHR ''-'') \<and> z ! 3 = CHR '':'' \<and>
      within (field 1 2 z) 0 23 \<and> within (field 4 2 z) 0 59)"

definition fractionOk :: "string \<Rightarrow> bool" where
  "fractionOk r = (case r of
       [] \<Rightarrow> False
     | c # cs \<Rightarrow>
         if c = CHR ''.''
         then (let ds = takeWhile (\<lambda>d. digitVal d \<noteq> None) cs
               in ds \<noteq> [] \<and> zoneOk (drop (length ds) cs))
         else zoneOk r)"

definition timeOk :: "string \<Rightarrow> bool" where
  "timeOk s \<longleftrightarrow> 20 \<le> length s \<and>
     s ! 4 = CHR ''-'' \<and> s ! 7 = CHR ''-'' \<and> s ! 10 = CHR ''T'' \<and>
     s ! 13 = CHR '':'' \<and> s ! 16 = CHR '':'' \<and>
     (case (field 0 4 s, field 5 2 s) of
        (Some y, Some m) \<Rightarrow> 1 \<le> m \<and> m \<le> 12 \<and> within (field 8 2 s) 1 (daysIn y m)
      | _ \<Rightarrow> False) \<and>
     within (field 11 2 s) 0 23 \<and> within (field 14 2 s) 0 59 \<and> within (field 17 2 s) 0 59 \<and>
     fractionOk (drop 19 s)"

definition zeroTime :: string where
  "zeroTime = ''0001-01-01T00:00:00Z''"

section \<open>Decoding members\<close>

definition getString :: "json option \<Rightarrow> string outcome" where
  "getString j = (case j of None \<Rightarrow> Ok '''' | Some JNull \<Rightarrow> Ok ''''
     | Some (JStr s) \<Rightarrow> Ok s | Some _ \<Rightarrow> jsonErr ''cannot unmarshal into string'')"

definition getInt64 :: "json option \<Rightarrow> int outcome" where
  "getInt64 j = (case j of None \<Rightarrow> Ok 0 | Some JNull \<Rightarrow> Ok 0
     | Some (JInt n) \<Rightarrow> if i64 n = n then Ok n else jsonErr ''number out of range''
     | Some _ \<Rightarrow> jsonErr ''cannot unmarshal into int64'')"

definition getTime :: "json option \<Rightarrow> string outcome" where
  "getTime j = (case j of None \<Rightarrow> Ok zeroTime | Some JNull \<Rightarrow> Ok zeroTime
     | Some (JStr s) \<Rightarrow> if timeOk s then Ok s else jsonErr ''parsing time''
     | Some _ \<Rightarrow> jsonErr ''Time.UnmarshalJSON: input is not a JSON string'')"

definition getRaw :: "json option \<Rightarrow> blob" where
  "getRaw j = (case j of None \<Rightarrow> Empty | Some v \<Rightarrow> Json v)"

section \<open>The storage structs\<close>

record internal_event =
  ieID :: string
  ieEventName :: string
  ieVersion :: int
  ieSchemaVersion :: int
  ieOccurredAt :: string
  iePatches :: blob

text \<open>A nil \<open>json.RawMessage\<close> is encoded as null; bytes that are not JSON fail the encoding.\<close>

definition marshalEvent :: "internal_event \<Rightarrow> blob outcome" where
  "marshalEvent e =
     (let rest = (\<lambda>p. Ok (Json (JObj
            [(''id'', JStr (ieID e)), (''event_name'', JStr (ieEventName e)),
             (''version'', JInt (ieVersion e)), (''schema_version'', JInt (ieSchemaVersion e)),
             (''occurred_at'', JStr (ieOccurredAt e)), (''patches'', p)])))
      in case iePatches e of
           Empty \<Rightarrow> rest JNull
         | Json p \<Rightarrow> rest p
         | Malformed _ \<Rightarrow> jsonErr ''error calling MarshalJSON for type json.RawMessage'')"

definition unmarshalEvent :: "blob \<Rightarrow> internal_event outcome" where
  "unmarshalEvent b =
     (case b of
        Empty \<Rightarrow> jsonErr ''unexpected end of JSON input''
      | Malformed _ \<Rightarrow> jsonErr ''invalid character''
      | Json JNull \<Rightarrow> Ok \<lparr>ieID = '''', ieEventName = '''', ieVersion = 0, ieSchemaVersion = 0,
                        ieOccurredAt = zeroTime, iePatches = Empty\<rparr>
      | Json (JObj ms) \<Rightarrow>
          bindO (getString (map_of ms ''id'')) (\<lambda>i.
          bindO (getString (map_of ms ''event_name'')) (\<lambda>n.
          bindO (getInt64 (map_of ms ''version'')) (\<lambda>v.
          bindO (getInt64 (map_of ms ''schema_version'')) (\<lambda>sv.
          bindO (getTime (map_of ms ''occurred_at'')) (\<lambda>t.
          Ok \<lparr>ieID = i, ieEventName = n, ieVersion = v, ieSchemaVersion = sv,
              ieOccurredAt = t, iePatches = getRaw (map_of ms ''patches'')\<rparr>)))))
      | Json _ \<Rightarrow> jsonErr ''cannot unmarshal into InternalEvent'')"

text \<open>
  What \<open>json.Marshal\<close>, \<open>jsondiff.Compare\<close> (with the encoding of its patch) and
  \<open>jsonpatch.DecodePatch\<close> followed by \<open>Apply\<close> do for the user's aggregate type.
\<close>

record 't codec =
  marshalT :: "'t \<Rightarrow> json outcome"
  unmarshalT :: "json \<Rightarrow> 't outcome"
  compareT :: "'t \<Rightarrow> 't \<Rightarrow> json outcome"
  applyPatch :: "json \<Rightarrow> json \<Rightarrow> json outcome"

record 't snapshot_blob =
  sbVersion :: int
  sbSchemaVersion :: int
  sbState :: 't

definition marshalSnapshot :: "'t codec \<Rightarrow> 't snapshot_blob \<Rightarrow> blob outcome" where
  "marshalSnapshot cd s =
     bindO (marshalT cd (sbState s)) (\<lambda>j.
       Ok (Json (JObj [(''version'', JInt (sbVersion s)),
                       (''schema_version'', JInt (sbSchemaVersion s)), (''state'', j)])))"

definition unmarshalSnapshot :: "'t codec \<Rightarrow> 't \<Rightarrow> blob \<Rightarrow> 't snapshot_blob outcome" where
  "unmarshalSnapshot cd zero b =
     (case b of
        Empty \<Rightarrow> jsonErr ''unexpected end of JSON input''
      | Malformed _ \<Rightarrow> jsonErr ''invalid character''
      | Json JNull \<Rightarrow> Ok \<lparr>sbVersion = 0, sbSchemaVersion = 0, sbState = zero\<rparr>
      | Json (JObj ms) \<Rightarrow>
          bindO (getInt64 (map_of ms ''version'')) (\<lambda>v.
          bindO (getInt64 (map_of ms ''schema_version'')) (\<lambda>sv.
          bindO (case map_of ms ''state'' of None \<Rightarrow> Ok zero | Some j \<Rightarrow> unmarshalT cd j) (\<lambda>st.
          Ok \<lparr>sbVersion = v, sbSchemaVersion = sv, sbState = st\<rparr>)))
      | Json _ \<Rightarrow> jsonErr ''cannot unmarshal into SnapshotBlob'')"

section \<open>Round trips\<close>

text \<open>
  The law the code relies on for its aggregate type: a value survives a JSON round trip, and
  applying the difference of two values to the first gives the second. A difference that is
  null or empty means the two have the same JSON.
\<close>

definition noPatch :: "blob \<Rightarrow> bool" where
  "noPatch p \<longleftrightarrow> p = Empty \<or> p = Json JNull \<or> p = Json (JArr [])"

definition codecOk :: "'t codec \<Rightarrow> bool" where
  "codecOk cd \<longleftrightarrow>
     (\<forall>x j. marshalT cd x = Ok j \<longrightarrow> unmarshalT cd j = Ok x) \<and>
     (\<forall>a b p. compareT cd a b = Ok p \<longrightarrow>
        (\<exists>ja jb. marshalT cd a = Ok ja \<and> marshalT cd b = Ok jb \<and>
          (if noPatch (Json p) then jb = ja else applyPatch cd p ja = Ok jb)))"

lemma codecOk_roundtrip: "codecOk cd \<Longrightarrow> marshalT cd x = Ok j \<Longrightarrow> unmarshalT cd j = Ok x"
  by (simp add: codecOk_def)

lemma codecOk_compare:
  "codecOk cd \<Longrightarrow> compareT cd a b = Ok p \<Longrightarrow>
     \<exists>ja jb. marshalT cd a = Ok ja \<and> marshalT cd b = Ok jb \<and>
       (if noPatch (Json p) then jb = ja else applyPatch cd p ja = Ok jb)"
  by (simp add: codecOk_def)

lemma unmarshal_marshalEvent:
  assumes "marshalEvent e = Ok b" "timeOk (ieOccurredAt e)"
    "i64 (ieVersion e) = ieVersion e" "i64 (ieSchemaVersion e) = ieSchemaVersion e"
  shows "unmarshalEvent b = Ok (e\<lparr>iePatches := (if iePatches e = Empty then Json JNull else iePatches e)\<rparr>)"
  using assms
  by (cases "iePatches e")
    (auto simp: marshalEvent_def unmarshalEvent_def getString_def getInt64_def getTime_def
      getRaw_def jsonErr_def)

lemma unmarshal_marshalSnapshot:
  assumes "codecOk cd" "marshalSnapshot cd s = Ok b"
    "i64 (sbVersion s) = sbVersion s" "i64 (sbSchemaVersion s) = sbSchemaVersion s"
  shows "unmarshalSnapshot cd zero b = Ok s"
  using assms
  by (auto simp: marshalSnapshot_def unmarshalSnapshot_def getInt64_def bindO_eq_Ok
      codecOk_roundtrip)

end
