(* ===== verification/Store_Interface.thy ===== *)
theory Store_Interface
  imports Json
begin

text \<open>
  \<^verbatim>\<open>models/store.go\<close> and \<^verbatim>\<open>models/snapshot_store.go\<close>: the interfaces of the durable backend as
  records of operations (a Go interface value), the abstract contents they promise to
  maintain, and the contract every backend owes its clients as locales. Clients are defined
  over the records, so one model of the event store runs on any backend; the in-memory
  store interprets the locales.
\<close>

section \<open>Records of the interface\<close>

record receipt =
  rAccepted :: bool
  rAggregateID :: string
  rEventID :: string
  rVersion :: int
  rRejection :: string

record delivery =
  dAggregateID :: string
  dVersion :: int

text \<open>
  The write side: every method joins the open transaction \<open>'tx\<close>. \<open>Native\<close> only hands out
  the driver's handle and is not represented.
\<close>

record 'tx tx_ops =
  txAppend :: "ctx \<Rightarrow> string \<Rightarrow> int \<Rightarrow> blob \<Rightarrow> 'tx \<Rightarrow> unit outcome \<times> 'tx"
  txDeleteStream :: "ctx \<Rightarrow> string \<Rightarrow> 'tx \<Rightarrow> unit outcome \<times> 'tx"
  txDropDeliveries :: "ctx \<Rightarrow> string \<Rightarrow> 'tx \<Rightarrow> unit outcome \<times> 'tx"
  txPutReceipt :: "ctx \<Rightarrow> string \<Rightarrow> receipt \<Rightarrow> 'tx \<Rightarrow> unit outcome \<times> 'tx"
  txEnqueueDelivery :: "ctx \<Rightarrow> string \<Rightarrow> int \<Rightarrow> 'tx \<Rightarrow> unit outcome \<times> 'tx"

text \<open>
  The store: reads, acknowledgements, and the three ends of \<open>Atomically\<close> (open, commit,
  roll back).
\<close>

record ('tx, 's) store_ops = "'tx tx_ops" +
  stReadFrom :: "ctx \<Rightarrow> string \<Rightarrow> int \<Rightarrow> 's \<Rightarrow> blob list outcome"
  stReadRange :: "ctx \<Rightarrow> string \<Rightarrow> int \<Rightarrow> int \<Rightarrow> 's \<Rightarrow> blob list outcome"
  stGetReceipt :: "ctx \<Rightarrow> string \<Rightarrow> 's \<Rightarrow> receipt option outcome"
  stPendingDeliveries :: "ctx \<Rightarrow> int \<Rightarrow> 's \<Rightarrow> delivery list outcome"
  stAckDelivery :: "ctx \<Rightarrow> string \<Rightarrow> int \<Rightarrow> 's \<Rightarrow> unit outcome \<times> 's"
  stBegin :: "ctx \<Rightarrow> 's \<Rightarrow> 'tx outcome"
  stCommit :: "'tx \<Rightarrow> goerr option \<times> 's"
  stRollback :: "'tx \<Rightarrow> 's"

text \<open>
  \<open>Atomically\<close>: the function's error (or panic) rolls back everything it wrote, its success
  commits.
\<close>

definition atomically ::
  "('tx, 's) store_ops \<Rightarrow> ctx \<Rightarrow> ('tx \<Rightarrow> 'a outcome \<times> 'tx) \<Rightarrow> 's \<Rightarrow> 'a outcome \<times> 's" where
  "atomically S c fn s =
     (case stBegin S c s of
        Ok t \<Rightarrow>
          (case fn t of
             (Ok x, t') \<Rightarrow>
               (case stCommit S t' of
                  (None, s') \<Rightarrow> (Ok x, s')
                | (Some e, s') \<Rightarrow> (Fail e, s'))
           | (Fail e, t') \<Rightarrow> (Fail e, stRollback S t')
           | (Panic p, t') \<Rightarrow> (Panic p, stRollback S t'))
      | Fail e \<Rightarrow> (Fail e, s)
      | Panic p \<Rightarrow> (Panic p, s))"

text \<open>Sequencing inside a transaction.\<close>

definition thenTx ::
  "('tx \<Rightarrow> 'a outcome \<times> 'tx) \<Rightarrow> ('a \<Rightarrow> 'tx \<Rightarrow> 'b outcome \<times> 'tx) \<Rightarrow> 'tx \<Rightarrow> 'b outcome \<times> 'tx" where
  "thenTx f g t = (case f t of
       (Ok x, t') \<Rightarrow> g x t'
     | (Fail e, t') \<Rightarrow> (Fail e, t')
     | (Panic p, t') \<Rightarrow> (Panic p, t'))"

record 'p snapshot_ops =
  snPut :: "ctx \<Rightarrow> string \<Rightarrow> int \<Rightarrow> blob \<Rightarrow> 'p \<Rightarrow> unit outcome \<times> 'p"
  snGet :: "ctx \<Rightarrow> string \<Rightarrow> 'p \<Rightarrow> blob option outcome"
  snDelete :: "ctx \<Rightarrow> string \<Rightarrow> 'p \<Rightarrow> unit outcome \<times> 'p"

section \<open>The abstract contents\<close>

text \<open>
  What the interface's comments talk about: streams as entries in version order, receipts by
  command id, pending deliveries in enqueue order.
\<close>

record contents =
  ctStreams :: "string \<Rightarrow> (int \<times> blob) list"
  ctReceipts :: "string \<Rightarrow> receipt option"
  ctDeliveries :: "delivery list"

definition ctAppend :: "string \<Rightarrow> int \<Rightarrow> blob \<Rightarrow> contents \<Rightarrow> contents" where
  "ctAppend sid v d a =
     a\<lparr>ctStreams := (ctStreams a)(sid := insertBy fst (v, d) (ctStreams a sid))\<rparr>"

definition ctDeleteStream :: "string \<Rightarrow> contents \<Rightarrow> contents" where
  "ctDeleteStream sid a = a\<lparr>ctStreams := (ctStreams a)(sid := [])\<rparr>"

definition ctDropDeliveries :: "string \<Rightarrow> contents \<Rightarrow> contents" where
  "ctDropDeliveries agg a = a\<lparr>ctDeliveries := filter (\<lambda>d. dAggregateID d \<noteq> agg) (ctDeliveries a)\<rparr>"

definition ctPutReceipt :: "string \<Rightarrow> receipt \<Rightarrow> contents \<Rightarrow> contents" where
  "ctPutReceipt cid r a = a\<lparr>ctReceipts := (ctReceipts a)(cid \<mapsto> r)\<rparr>"

definition ctEnqueueDelivery :: "string \<Rightarrow> int \<Rightarrow> contents \<Rightarrow> contents" where
  "ctEnqueueDelivery agg v a =
     a\<lparr>ctDeliveries := ctDeliveries a @ [\<lparr>dAggregateID = agg, dVersion = v\<rparr>]\<rparr>"

definition ctAck :: "string \<Rightarrow> int \<Rightarrow> contents \<Rightarrow> contents" where
  "ctAck agg v a =
     a\<lparr>ctDeliveries := remove1 \<lparr>dAggregateID = agg, dVersion = v\<rparr> (ctDeliveries a)\<rparr>"

lemmas contents_defs =
  ctAppend_def ctDeleteStream_def ctDropDeliveries_def ctPutReceipt_def ctEnqueueDelivery_def
  ctAck_def

definition versionsOf :: "contents \<Rightarrow> string \<Rightarrow> int set" where
  "versionsOf a sid = fst ` set (ctStreams a sid)"

section \<open>The contract of a store\<close>

text \<open>
  \<open>view\<close> and \<open>tview\<close> are the contents of a store and of an open transaction, \<open>base\<close> the
  contents the transaction started from. An operation that fails changes nothing.
\<close>

locale store_contract =
  fixes S :: "('tx, 's) store_ops"
    and view :: "'s \<Rightarrow> contents"
    and tview :: "'tx \<Rightarrow> contents"
    and base :: "'tx \<Rightarrow> contents"
    and sinv :: "'s \<Rightarrow> bool"
    and tinv :: "'tx \<Rightarrow> bool"
  assumes stream_sorted: "sinv s \<Longrightarrow> sortedBy fst (ctStreams (view s) sid)"
    and begin_spec: "sinv s \<Longrightarrow> stBegin S c s = Ok t \<Longrightarrow>
          tinv t \<and> tview t = view s \<and> base t = view s"
    and commit_ok: "tinv t \<Longrightarrow> stCommit S t = (None, s') \<Longrightarrow> sinv s' \<and> view s' = tview t"
    and commit_fail: "tinv t \<Longrightarrow> stCommit S t = (Some e, s') \<Longrightarrow> sinv s' \<and> view s' = base t"
    and rollback_spec: "tinv t \<Longrightarrow> sinv (stRollback S t) \<and> view (stRollback S t) = base t"
    and append_ok: "tinv t \<Longrightarrow> txAppend S c sid v d t = (Ok u, t') \<Longrightarrow>
          v \<notin> versionsOf (tview t) sid \<and> tview t' = ctAppend sid v d (tview t)"
    and append_fail: "tinv t \<Longrightarrow> txAppend S c sid v d t = (r, t') \<Longrightarrow> \<not> isOk r \<Longrightarrow>
          tview t' = tview t"
    and append_frame: "tinv t \<Longrightarrow> txAppend S c sid v d t = (r, t') \<Longrightarrow>
          tinv t' \<and> base t' = base t"
    and deleteStream_spec: "tinv t \<Longrightarrow> txDeleteStream S c sid t = (r, t') \<Longrightarrow>
          tinv t' \<and> base t' = base t \<and>
          tview t' = (if isOk r then ctDeleteStream sid (tview t) else tview t)"
    and dropDeliveries_spec: "tinv t \<Longrightarrow> txDropDeliveries S c agg t = (r, t') \<Longrightarrow>
          tinv t' \<and> base t' = base t \<and>
          tview t' = (if isOk r then ctDropDeliveries agg (tview t) else tview t)"
    and putReceipt_spec: "tinv t \<Longrightarrow> txPutReceipt S c cid rc t = (r, t') \<Longrightarrow>
          tinv t' \<and> base t' = base t \<and>
          tview t' = (if isOk r then ctPutReceipt cid rc (tview t) else tview t)"
    and putReceipt_dup: "tinv t \<Longrightarrow> ctReceipts (tview t) cid \<noteq> None \<Longrightarrow>
          \<not> isOk (fst (txPutReceipt S c cid rc t))"
    and enqueueDelivery_spec: "tinv t \<Longrightarrow> txEnqueueDelivery S c agg v t = (r, t') \<Longrightarrow>
          tinv t' \<and> base t' = base t \<and>
          tview t' = (if isOk r then ctEnqueueDelivery agg v (tview t) else tview t)"
    and readFrom_spec: "sinv s \<Longrightarrow> stReadFrom S c sid v s = Ok bs \<Longrightarrow>
          bs = map snd (filter (\<lambda>e. v \<le> fst e) (ctStreams (view s) sid))"
    and readRange_spec: "sinv s \<Longrightarrow> stReadRange S c sid v n s = Ok bs \<Longrightarrow>
          bs = take (nat n) (map snd (filter (\<lambda>e. v \<le> fst e) (ctStreams (view s) sid)))"
    and getReceipt_spec: "sinv s \<Longrightarrow> stGetReceipt S c cid s = Ok ro \<Longrightarrow>
          ro = ctReceipts (view s) cid"
    and pending_spec: "sinv s \<Longrightarrow> stPendingDeliveries S c n s = Ok ds \<Longrightarrow>
          ds = take (nat n) (ctDeliveries (view s))"
    and ack_spec: "sinv s \<Longrightarrow> stAckDelivery S c agg v s = (r, s') \<Longrightarrow>
          sinv s' \<and> view s' = (if isOk r then ctAck agg v (view s) else view s)"
begin

text \<open>
  A function is a fit body for a transaction when all it does to the transaction goes
  through the operations above: it keeps the invariant and the base.
\<close>

definition txSafe :: "('tx \<Rightarrow> 'a outcome \<times> 'tx) \<Rightarrow> bool" where
  "txSafe f \<longleftrightarrow> (\<forall>t. tinv t \<longrightarrow> tinv (snd (f t)) \<and> base (snd (f t)) = base t)"

lemma txSafeD: "txSafe f \<Longrightarrow> tinv t \<Longrightarrow> f t = (r, t') \<Longrightarrow> tinv t' \<and> base t' = base t"
  by (metis snd_conv txSafe_def)

lemma txSafe_const [simp]: "txSafe (\<lambda>t. (r, t))"
  by (simp add: txSafe_def)

lemma txSafe_ops:
  "txSafe (txAppend S c sid v d)"
  "txSafe (txDeleteStream S c sid)"
  "txSafe (txDropDeliveries S c agg)"
  "txSafe (txPutReceipt S c cid rc)"
  "txSafe (txEnqueueDelivery S c agg v)"
  unfolding txSafe_def
  by (metis append_frame deleteStream_spec dropDeliveries_spec putReceipt_spec
      enqueueDelivery_spec prod.collapse)+

lemma txSafe_then:
  assumes "txSafe f" and "\<And>x. txSafe (g x)"
  shows "txSafe (thenTx f g)"
  unfolding txSafe_def
proof (intro allI impI)
  fix t assume t: "tinv t"
  obtain r t' where f: "f t = (r, t')" by fastforce
  have t': "tinv t'" "base t' = base t" using txSafeD[OF assms(1) t f] by auto
  show "tinv (snd (thenTx f g t)) \<and> base (snd (thenTx f g t)) = base t"
  proof (cases r)
    case (Ok x)
    with f t' assms(2)[of x] show ?thesis by (simp add: thenTx_def txSafe_def)
  qed (use f t' in \<open>auto simp: thenTx_def\<close>)
qed

text \<open>
  The all-or-nothing law: on success the store holds what the body built from the old
  contents, on any failure it holds the old contents.
\<close>

lemma atomically_Ok:
  assumes "sinv s" "txSafe fn" "atomically S c fn s = (Ok x, s')"
  obtains t t' where "tinv t" "tview t = view s" "fn t = (Ok x, t')" "tinv t'"
    "sinv s'" "view s' = tview t'"
proof -
  obtain t where t: "stBegin S c s = Ok t"
    using assms(3) by (cases "stBegin S c s") (auto simp: atomically_def)
  note b = begin_spec[OF assms(1) t]
  obtain r t' where f: "fn t = (r, t')" by fastforce
  have t': "tinv t'" using txSafeD[OF assms(2) _ f] b by simp
  have r: "r = Ok x" and com: "stCommit S t' = (None, s')"
    using assms(3) t f
    by (auto simp: atomically_def split: outcome.splits prod.splits option.splits)
  show thesis using that[of t t'] b f r t' commit_ok[OF t' com] by simp
qed

lemma atomically_not_Ok:
  assumes "sinv s" "txSafe fn" "atomically S c fn s = (r, s')" "\<not> isOk r"
  shows "sinv s' \<and> view s' = view s"
proof (cases "stBegin S c s")
  case (Ok t)
  note b = begin_spec[OF assms(1) Ok]
  obtain q t' where f: "fn t = (q, t')" by fastforce
  have t': "tinv t'" "base t' = view s" using txSafeD[OF assms(2) _ f] b by auto
  obtain ce s'' where com: "stCommit S t' = (ce, s'')" by fastforce
  show ?thesis
  proof (cases "isOk q")
    case True
    then obtain x where q: "q = Ok x" by (cases q) auto
    obtain e where "ce = Some e" "s' = s''"
      using assms(3,4) Ok f q com by (cases ce) (auto simp: atomically_def)
    with commit_fail[OF t'(1)] com t'(2) show ?thesis by simp
  next
    case False
    then have "s' = stRollback S t'"
      using assms(3) Ok f by (cases q) (auto simp: atomically_def)
    with rollback_spec[OF t'(1)] t'(2) show ?thesis by simp
  qed
qed (use assms in \<open>auto simp: atomically_def\<close>)

lemma atomically_sinv:
  assumes "sinv s" "txSafe fn" "atomically S c fn s = (r, s')"
  shows "sinv s'"
proof (cases "isOk r")
  case True
  then obtain x where "r = Ok x" by (cases r) auto
  with atomically_Ok[OF assms(1,2)] assms(3) show ?thesis by blast
next
  case False
  with atomically_not_Ok[OF assms] show ?thesis by blast
qed

end

section \<open>The contract of a snapshot store\<close>

text \<open>
  One cell per aggregate. A successful \<open>Put\<close> may keep the cell it finds (the optional
  monotonicity guard); no operation touches another aggregate's cell.
\<close>

locale snapshot_contract =
  fixes P :: "'p snapshot_ops"
    and cell :: "'p \<Rightarrow> string \<Rightarrow> blob option"
  assumes get_spec: "snGet P c agg p = Ok bo \<Longrightarrow> bo = cell p agg"
    and put_other: "snPut P c agg v d p = (r, p') \<Longrightarrow> agg2 \<noteq> agg \<Longrightarrow> cell p' agg2 = cell p agg2"
    and put_cell: "snPut P c agg v d p = (r, p') \<Longrightarrow>
          cell p' agg = Some d \<or> cell p' agg = cell p agg"
    and delete_spec: "snDelete P c agg p = (r, p') \<Longrightarrow>
          cell p' = (if isOk r then (cell p)(agg := None) else cell p)"

end
