(* ===== verification/Event_Store.thy ===== *)
theory Event_Store
  imports Store_Interface
begin

text \<open>
  \<^verbatim>\<open>internal/eventstore\<close>: the replayer (upcasting and patch application), the reader (warm
  path from a snapshot, cold path from event 1, guarded auto-snapshots), the writer (diff,
  append, snapshot) and the \<open>EventStore\<close> facade that loads, validates and appends in one
  transaction. Definitions only; \<open>Event_Store_Correct\<close> has their theory.
\<close>

section \<open>Data\<close>

record 't event =
  evID :: string
  evAggregateID :: string
  evEventName :: string
  evVersion :: int
  evSchemaVersion :: int
  evOccurredAt :: string
  evAggregate :: 't
  evPreviousAggregate :: 't

text \<open>
  A command's five methods, and the id it carries when it also implements
  \<open>IdempotentCommand\<close>. \<open>Validate\<close> and \<open>EmitEvent\<close> take nil for an aggregate that has never
  existed; the contract asks that they be pure, and a method that panics breaks it: that is not modelled.
\<close>

record 't command =
  cmdAggregateID :: string
  cmdEventName :: string
  cmdShouldSnapshot :: bool
  cmdValidate :: "'t option \<Rightarrow> goerr option"
  cmdEmitEvent :: "'t option \<Rightarrow> 't"
  cmdCommandID :: "string option"

text \<open>An upcaster maps the patch bytes of one schema version to the next.\<close>

type_synonym upcaster = "ctx \<Rightarrow> string \<Rightarrow> blob \<Rightarrow> blob outcome"

text \<open>
  The configured event store: the fields \<open>New\<close> distributes over the reader, the writer and
  the replayer. \<open>esGuard\<close> is the snapshot guard, which runs its function exactly when the
  aggregate's command lock is free; \<open>esOnCorruption\<close> says whether the hook is set.
\<close>

record ('tx, 's, 'p, 't) es =
  esStore :: "('tx, 's) store_ops"
  esSnaps :: "'p snapshot_ops"
  esCodec :: "'t codec"
  esUpcasters :: "int \<Rightarrow> upcaster option"
  esSchema :: int
  esZero :: 't
  esOnCorruption :: bool
  esGuard :: "(string \<Rightarrow> bool) option"

definition esNew ::
  "('tx, 's) store_ops \<Rightarrow> 'p snapshot_ops \<Rightarrow> 't codec \<Rightarrow> (int \<Rightarrow> upcaster option) \<Rightarrow> int \<Rightarrow> 't \<Rightarrow> bool
     \<Rightarrow> ('tx, 's, 'p, 't) es" where
  "esNew S P cd ups schema zero hook =
     \<lparr>esStore = S, esSnaps = P, esCodec = cd, esUpcasters = ups, esSchema = schema,
      esZero = zero, esOnCorruption = hook, esGuard = None\<rparr>"

definition guardAutoSnapshots :: "(string \<Rightarrow> bool) \<Rightarrow> ('tx, 's, 'p, 't) es \<Rightarrow> ('tx, 's, 'p, 't) es" where
  "guardAutoSnapshots g es = es\<lparr>esGuard := Some g\<rparr>"

text \<open>The stores' state, and the errors the corruption hook was called with.\<close>

record ('s, 'p) db =
  dbStore :: 's
  dbSnaps :: 'p
  dbCorrupt :: "goerr list"

definition streamName :: "string \<Rightarrow> string" where
  "streamName agg = ''events:'' @ agg"

section \<open>Replayer\<close>

text \<open>
  The upcaster chain from schema version \<open>v\<close> to the current one. A missing upcaster skips
  its step without raising the event's schema version.
\<close>

function upcastFrom ::
  "('tx, 's, 'p, 't) es \<Rightarrow> ctx \<Rightarrow> int \<Rightarrow> internal_event \<Rightarrow> internal_event outcome" where
  "upcastFrom es c v e =
     (if v < esSchema es
      then (case esUpcasters es v of
              None \<Rightarrow> upcastFrom es c (v + 1) e
            | Some up \<Rightarrow>
                (case up c (ieEventName e) (iePatches e) of
                   Ok p \<Rightarrow> upcastFrom es c (v + 1) (e\<lparr>iePatches := p, ieSchemaVersion := v + 1\<rparr>)
                 | Fail err \<Rightarrow> Fail (Errorf [Lit ''eventstore: upcaster '', Lit (showInt v), Lit '' failed: '', Wrap err])
                 | Panic p \<Rightarrow> Panic p))
      else Ok e)"
  by pat_completeness auto
termination
  by (relation "measure (\<lambda>(es, c, v, e). nat (esSchema es - v))") auto

declare upcastFrom.simps [simp del]

definition upcastInternalEvent ::
  "('tx, 's, 'p, 't) es \<Rightarrow> ctx \<Rightarrow> internal_event \<Rightarrow> internal_event outcome" where
  "upcastInternalEvent es c e = upcastFrom es c (ieSchemaVersion e) e"

definition applyPatchesToJSON :: "'t codec \<Rightarrow> json \<Rightarrow> blob \<Rightarrow> json outcome" where
  "applyPatchesToJSON cd state patches =
     (if noPatch patches then Ok state
      else case patches of
             Json p \<Rightarrow> applyPatch cd p state
           | _ \<Rightarrow> jsonErr ''invalid character'')"

record 't hydrate_result =
  hrState :: 't
  hrDidUpcast :: bool
  hrLastVersion :: int

text \<open>The loop of \<open>Hydrate\<close>: state JSON, whether an event was upcast, the last version.\<close>

fun hydrateLoop ::
  "('tx, 's, 'p, 't) es \<Rightarrow> ctx \<Rightarrow> internal_event list \<Rightarrow> json \<Rightarrow> bool \<Rightarrow> int
     \<Rightarrow> (json \<times> bool \<times> int) outcome" where
  "hydrateLoop es c [] j up lv = Ok (j, up, lv)"
| "hydrateLoop es c (e # es') j up lv =
     bindO (upcastInternalEvent es c e) (\<lambda>e'.
     bindO (applyPatchesToJSON (esCodec es) j (iePatches e')) (\<lambda>j'.
       hydrateLoop es c es' j' (up \<or> ieSchemaVersion e < esSchema es) (ieVersion e)))"

definition hydrate ::
  "('tx, 's, 'p, 't) es \<Rightarrow> ctx \<Rightarrow> 't \<Rightarrow> internal_event list \<Rightarrow> 't hydrate_result outcome" where
  "hydrate es c seed events =
     (if length events = 0
      then Ok \<lparr>hrState = seed, hrDidUpcast = False, hrLastVersion = 0\<rparr>
      else bindO (marshalT (esCodec es) seed) (\<lambda>j.
           bindO (hydrateLoop es c events j False 0) (\<lambda>(j', up, lv).
           bindO (unmarshalT (esCodec es) j') (\<lambda>x.
             Ok \<lparr>hrState = x, hrDidUpcast = up, hrLastVersion = (if up then lv else 0)\<rparr>))))"

text \<open>
  \<open>Replay\<close> calls \<open>fn\<close> on the events in the requested range; \<open>fn\<close> changes the caller's own
  state \<open>'x\<close>. The position in the stream counts as the version.
\<close>

fun replayLoop ::
  "('tx, 's, 'p, 't) es \<Rightarrow> ctx \<Rightarrow> string \<Rightarrow> int \<Rightarrow> int \<Rightarrow> ('t event \<Rightarrow> 'x \<Rightarrow> 'x)
     \<Rightarrow> blob list \<Rightarrow> json \<Rightarrow> 't \<Rightarrow> int \<Rightarrow> 'x \<Rightarrow> unit outcome \<times> 'x" where
  "replayLoop es c agg fromV toV fn [] curJ prev curV x = (Ok (), x)"
| "replayLoop es c agg fromV toV fn (b # bs) curJ prev curV x =
     (case bindO (unmarshalEvent b) (\<lambda>e.
           bindO (upcastInternalEvent es c e) (\<lambda>e'.
           bindO (applyPatchesToJSON (esCodec es) curJ (iePatches e')) (\<lambda>j.
           bindO (unmarshalT (esCodec es) j) (\<lambda>cur. Ok (e', j, cur))))) of
        Ok (e', j, cur) \<Rightarrow>
          (let x' = (if curV \<ge> fromV \<and> (toV = 0 \<or> curV \<le> toV)
                     then fn \<lparr>evID = ieID e', evAggregateID = agg, evEventName = ieEventName e',
                              evVersion = ieVersion e', evSchemaVersion = ieSchemaVersion e',
                              evOccurredAt = ieOccurredAt e', evAggregate = cur,
                              evPreviousAggregate = prev\<rparr> x
                     else x);
               curV' = i64 (curV + 1)
           in if toV > 0 \<and> curV' > toV then (Ok (), x')
              else replayLoop es c agg fromV toV fn bs j cur curV' x')
      | Fail err \<Rightarrow> (Fail err, x)
      | Panic p \<Rightarrow> (Panic p, x))"

definition replay ::
  "('tx, 's, 'p, 't) es \<Rightarrow> ctx \<Rightarrow> string \<Rightarrow> int \<Rightarrow> int \<Rightarrow> ('t event \<Rightarrow> 'x \<Rightarrow> 'x) \<Rightarrow> 's \<Rightarrow> 'x
     \<Rightarrow> unit outcome \<times> 'x" where
  "replay es c agg fromV toV fn s x =
     (case stReadFrom (esStore es) c (streamName agg) 1 s of
        Ok blobs \<Rightarrow>
          (if length blobs = 0 then (Ok (), x)
           else case marshalT (esCodec es) (esZero es) of
                  Ok j \<Rightarrow> replayLoop es c agg fromV toV fn blobs j (esZero es) 1 x
                | Fail e \<Rightarrow> (Fail e, x)
                | Panic p \<Rightarrow> (Panic p, x))
      | Fail e \<Rightarrow> (Fail e, x)
      | Panic p \<Rightarrow> (Panic p, x))"

section \<open>Reader\<close>

fun deserializeEvents :: "blob list \<Rightarrow> internal_event list outcome" where
  "deserializeEvents [] = Ok []"
| "deserializeEvents (b # bs) =
     bindO (unmarshalEvent b) (\<lambda>e. bindO (deserializeEvents bs) (\<lambda>es. Ok (e # es)))"

definition streamHolds :: "('tx, 's, 'p, 't) es \<Rightarrow> ctx \<Rightarrow> string \<Rightarrow> int \<Rightarrow> string \<Rightarrow> 's \<Rightarrow> bool" where
  "streamHolds es c agg version eventID s =
     (case stReadRange (esStore es) c (streamName agg) version 1 s of
        Ok blobs \<Rightarrow>
          (if length blobs \<noteq> 1 then False
           else case deserializeEvents blobs of
                  Ok (e # _) \<Rightarrow> ieVersion e = version \<and> ieID e = eventID
                | _ \<Rightarrow> False)
      | _ \<Rightarrow> False)"

definition writeAutoSnapshot ::
  "('tx, 's, 'p, 't) es \<Rightarrow> ctx \<Rightarrow> string \<Rightarrow> int \<Rightarrow> 't \<Rightarrow> 'p \<Rightarrow> unit outcome \<times> 'p" where
  "writeAutoSnapshot es c agg version st p =
     (case marshalSnapshot (esCodec es) \<lparr>sbVersion = version, sbSchemaVersion = esSchema es, sbState = st\<rparr> of
        Ok b \<Rightarrow> snPut (esSnaps es) c agg version b p
      | Fail e \<Rightarrow> (Fail e, p)
      | Panic q \<Rightarrow> (Panic q, p))"

text \<open>The result of the write is dropped; only the snapshot store changes.\<close>

definition saveUpcasted ::
  "('tx, 's, 'p, 't) es \<Rightarrow> ctx \<Rightarrow> string \<Rightarrow> bool \<Rightarrow> 't hydrate_result \<Rightarrow> string
     \<Rightarrow> ('s, 'p) db \<Rightarrow> ('s, 'p) db" where
  "saveUpcasted es c agg lockHeld res lastID d =
     (let save = (\<lambda>d. d\<lparr>dbSnaps := snd (writeAutoSnapshot es c agg (hrLastVersion res) (hrState res) (dbSnaps d))\<rparr>);
          saveIfStreamUnchanged = (\<lambda>d.
            if streamHolds es c agg (hrLastVersion res) lastID (dbStore d) then save d else d)
      in if lockHeld then save d
         else case esGuard es of
                None \<Rightarrow> saveIfStreamUnchanged d
              | Some free \<Rightarrow> if free agg then saveIfStreamUnchanged d else d)"

definition coldPath ::
  "('tx, 's, 'p, 't) es \<Rightarrow> ctx \<Rightarrow> string \<Rightarrow> bool \<Rightarrow> ('s, 'p) db \<Rightarrow> ('t \<times> int) outcome \<times> ('s, 'p) db" where
  "coldPath es c agg lockHeld d =
     (case stReadFrom (esStore es) c (streamName agg) 1 (dbStore d) of
        Ok blobs \<Rightarrow>
          (if length blobs = 0 then (Fail (Sentinel ErrNotFound), d)
           else case deserializeEvents blobs of
                  Ok events \<Rightarrow>
                    (case hydrate es c (esZero es) events of
                       Ok res \<Rightarrow>
                         (let d' = (if hrDidUpcast res
                                    then saveUpcasted es c agg lockHeld res (ieID (last events)) d
                                    else d)
                          in (Ok (hrState res, ieVersion (last events)), d'))
                     | Fail e \<Rightarrow> (Fail e, d)
                     | Panic p \<Rightarrow> (Panic p, d))
                | Fail e \<Rightarrow> (Fail e, d)
                | Panic p \<Rightarrow> (Panic p, d))
      | Fail e \<Rightarrow> (Fail e, d)
      | Panic p \<Rightarrow> (Panic p, d))"

definition load ::
  "('tx, 's, 'p, 't) es \<Rightarrow> ctx \<Rightarrow> string \<Rightarrow> bool \<Rightarrow> ('s, 'p) db \<Rightarrow> ('t \<times> int) outcome \<times> ('s, 'p) db" where
  "load es c agg lockHeld d =
     (case snGet (esSnaps es) c agg (dbSnaps d) of
        Ok None \<Rightarrow> coldPath es c agg lockHeld d
      | Ok (Some snapBlob) \<Rightarrow>
          (case unmarshalSnapshot (esCodec es) (esZero es) snapBlob of
             Ok snap \<Rightarrow>
               (case bindO (stReadFrom (esStore es) c (streamName agg) (i64 (sbVersion snap + 1)) (dbStore d))
                       deserializeEvents of
                  Ok events \<Rightarrow>
                    (case hydrate es c (sbState snap) events of
                       Ok res \<Rightarrow>
                         (let v = (if length events > 0 then ieVersion (last events) else sbVersion snap);
                              d' = (if hrDidUpcast res
                                    then saveUpcasted es c agg lockHeld res (ieID (last events)) d
                                    else d)
                          in (Ok (hrState res, v), d'))
                     | Fail e \<Rightarrow> (Fail e, d)
                     | Panic p \<Rightarrow> (Panic p, d))
                | Fail e \<Rightarrow> (Fail e, d)
                | Panic p \<Rightarrow> (Panic p, d))
           | Fail e \<Rightarrow>
               coldPath es c agg lockHeld
                 (if esOnCorruption es then d\<lparr>dbCorrupt := dbCorrupt d @ [e]\<rparr> else d)
           | Panic p \<Rightarrow> (Panic p, d))
      | Fail e \<Rightarrow> (Fail e, d)
      | Panic p \<Rightarrow> (Panic p, d))"

definition readerGet ::
  "('tx, 's, 'p, 't) es \<Rightarrow> ctx \<Rightarrow> string \<Rightarrow> ('s, 'p) db \<Rightarrow> 't outcome \<times> ('s, 'p) db" where
  "readerGet es c agg d =
     (case load es c agg False d of (r, d') \<Rightarrow> (bindO r (\<lambda>(st, _). Ok st), d'))"

definition readerLoad ::
  "('tx, 's, 'p, 't) es \<Rightarrow> ctx \<Rightarrow> string \<Rightarrow> ('s, 'p) db \<Rightarrow> ('t \<times> int) outcome \<times> ('s, 'p) db" where
  "readerLoad es c agg d = load es c agg True d"

definition readerExists :: "('tx, 's, 'p, 't) es \<Rightarrow> ctx \<Rightarrow> string \<Rightarrow> 's \<Rightarrow> bool outcome" where
  "readerExists es c agg s =
     bindO (stReadRange (esStore es) c (streamName agg) 1 1 s) (\<lambda>bs. Ok (length bs > 0))"

definition readerPreload ::
  "('tx, 's, 'p, 't) es \<Rightarrow> ctx \<Rightarrow> string \<Rightarrow> ('s, 'p) db \<Rightarrow> unit outcome \<times> ('s, 'p) db" where
  "readerPreload es c agg d =
     (case readerGet es c agg d of
        (Ok _, d') \<Rightarrow> (Ok (), d')
      | (Fail e, d') \<Rightarrow> (if errorsIs e ErrNotFound then Ok () else Fail e, d')
      | (Panic p, d') \<Rightarrow> (Panic p, d'))"

section \<open>Writer\<close>

text \<open>
  \<open>AppendTx\<close>. The fresh event id and the current time are inputs.
\<close>

definition appendTx ::
  "('tx, 's, 'p, 't) es \<Rightarrow> ctx \<Rightarrow> string \<Rightarrow> string \<Rightarrow> string \<Rightarrow> string \<Rightarrow> int \<Rightarrow> 't \<Rightarrow> 't \<Rightarrow> 'tx
     \<Rightarrow> 't event outcome \<times> 'tx" where
  "appendTx es c newID now agg eventName expected prev new tx =
     (let version = i64 (expected + 1) in
      case compareT (esCodec es) prev new of
        Ok patch \<Rightarrow>
          (case marshalEvent \<lparr>ieID = newID, ieEventName = eventName, ieVersion = version,
                  ieSchemaVersion = esSchema es, ieOccurredAt = now, iePatches = Json patch\<rparr> of
             Ok evtJSON \<Rightarrow>
               (case txAppend (esStore es) c (streamName agg) version evtJSON tx of
                  (Ok _, tx') \<Rightarrow>
                    (Ok \<lparr>evID = newID, evAggregateID = agg, evEventName = eventName,
                         evVersion = version, evSchemaVersion = esSchema es, evOccurredAt = now,
                         evAggregate = new, evPreviousAggregate = prev\<rparr>, tx')
                | (Fail e, tx') \<Rightarrow> (Fail e, tx')
                | (Panic p, tx') \<Rightarrow> (Panic p, tx'))
           | Fail e \<Rightarrow> (Fail e, tx)
           | Panic p \<Rightarrow> (Panic p, tx))
      | Fail e \<Rightarrow> (Fail e, tx)
      | Panic p \<Rightarrow> (Panic p, tx))"

definition writeSnapshot ::
  "('tx, 's, 'p, 't) es \<Rightarrow> ctx \<Rightarrow> string \<Rightarrow> int \<Rightarrow> 't \<Rightarrow> 'p \<Rightarrow> unit outcome \<times> 'p" where
  "writeSnapshot es c agg version st p =
     (case marshalSnapshot (esCodec es) \<lparr>sbVersion = version, sbSchemaVersion = esSchema es, sbState = st\<rparr> of
        Ok b \<Rightarrow> snPut (esSnaps es) c agg version b p
      | Fail e \<Rightarrow> (Fail e, p)
      | Panic q \<Rightarrow> (Panic q, p))"

definition esSnapshot ::
  "('tx, 's, 'p, 't) es \<Rightarrow> ctx \<Rightarrow> 't event \<Rightarrow> ('s, 'p) db \<Rightarrow> unit outcome \<times> ('s, 'p) db" where
  "esSnapshot es c ev d =
     (case writeSnapshot es c (evAggregateID ev) (evVersion ev) (evAggregate ev) (dbSnaps d) of
        (r, p') \<Rightarrow> (r, d\<lparr>dbSnaps := p'\<rparr>))"

text \<open>\<open>Writer.Write\<close>, which the command executor does not use.\<close>

definition writerWrite ::
  "('tx, 's, 'p, 't) es \<Rightarrow> ctx \<Rightarrow> string \<Rightarrow> string \<Rightarrow> string \<Rightarrow> string \<Rightarrow> int \<Rightarrow> 't \<Rightarrow> 't \<Rightarrow> bool
     \<Rightarrow> ('s, 'p) db \<Rightarrow> 't event outcome \<times> ('s, 'p) db" where
  "writerWrite es c newID now agg eventName expected prev new shouldSnapshot d =
     (case atomically (esStore es) c (appendTx es c newID now agg eventName expected prev new) (dbStore d) of
        (Ok ev, s') \<Rightarrow>
          (let d' = d\<lparr>dbStore := s'\<rparr>
           in if shouldSnapshot
              then (case esSnapshot es c ev d' of
                      (Ok _, d'') \<Rightarrow> (Ok ev, d'')
                    | (Fail e, d'') \<Rightarrow> (Fail e, d'')
                    | (Panic p, d'') \<Rightarrow> (Panic p, d''))
              else (Ok ev, d'))
      | (Fail e, s') \<Rightarrow> (Fail e, d\<lparr>dbStore := s'\<rparr>)
      | (Panic p, s') \<Rightarrow> (Panic p, d\<lparr>dbStore := s'\<rparr>))"

section \<open>The event store\<close>

type_synonym ('tx, 't) tx_hook = "ctx \<Rightarrow> 't event \<Rightarrow> 'tx \<Rightarrow> unit outcome \<times> 'tx"

text \<open>The transaction's body: append, then the hook when there is one.\<close>

definition writeBody ::
  "('tx, 's, 'p, 't) es \<Rightarrow> ctx \<Rightarrow> string \<Rightarrow> string \<Rightarrow> 't command \<Rightarrow> int \<Rightarrow> 't \<Rightarrow> 't
     \<Rightarrow> ('tx, 't) tx_hook option \<Rightarrow> 'tx \<Rightarrow> 't event outcome \<times> 'tx" where
  "writeBody es c newID now cmd loadedVersion prev new hook =
     thenTx (appendTx es c newID now (cmdAggregateID cmd) (cmdEventName cmd) loadedVersion prev new)
       (\<lambda>ev. case hook of
          None \<Rightarrow> (\<lambda>t. (Ok ev, t))
        | Some h \<Rightarrow> thenTx (h c ev) (\<lambda>_ t. (Ok ev, t)))"

definition writeTx ::
  "('tx, 's, 'p, 't) es \<Rightarrow> ctx \<Rightarrow> string \<Rightarrow> string \<Rightarrow> 't command \<Rightarrow> ('tx, 't) tx_hook option
     \<Rightarrow> ('s, 'p) db \<Rightarrow> 't event outcome \<times> ('s, 'p) db" where
  "writeTx es c newID now cmd hook d =
     (case readerLoad es c (cmdAggregateID cmd) d of
        (r, d1) \<Rightarrow>
          (let go = (\<lambda>current loadedVersion.
               case cmdValidate cmd current of
                 Some e \<Rightarrow> (Fail e, d1)
               | None \<Rightarrow>
                   (let new = cmdEmitEvent cmd current;
                        prev = (case current of None \<Rightarrow> esZero es | Some x \<Rightarrow> x)
                    in case atomically (esStore es) c
                              (writeBody es c newID now cmd loadedVersion prev new hook) (dbStore d1) of
                         (w, s') \<Rightarrow> (w, d1\<lparr>dbStore := s'\<rparr>)))
           in case r of
                Ok (current, loadedVersion) \<Rightarrow> go (Some current) loadedVersion
              | Fail e \<Rightarrow> if e = Sentinel ErrNotFound then go None 0 else (Fail e, d1)
              | Panic p \<Rightarrow> (Panic p, d1)))"

definition esWrite ::
  "('tx, 's, 'p, 't) es \<Rightarrow> ctx \<Rightarrow> string \<Rightarrow> string \<Rightarrow> 't command \<Rightarrow> ('s, 'p) db
     \<Rightarrow> 't event outcome \<times> ('s, 'p) db" where
  "esWrite es c newID now cmd d =
     (case writeTx es c newID now cmd None d of
        (Ok ev, d') \<Rightarrow>
          (if cmdShouldSnapshot cmd
           then (case esSnapshot es c ev d' of
                   (Ok _, d'') \<Rightarrow> (Ok ev, d'')
                 | (Fail e, d'') \<Rightarrow> (Fail e, d'')
                 | (Panic p, d'') \<Rightarrow> (Panic p, d''))
           else (Ok ev, d'))
      | (Fail e, d') \<Rightarrow> (Fail e, d')
      | (Panic p, d') \<Rightarrow> (Panic p, d'))"

definition deleteSnapshot ::
  "('tx, 's, 'p, 't) es \<Rightarrow> ctx \<Rightarrow> string \<Rightarrow> ('s, 'p) db \<Rightarrow> unit outcome \<times> ('s, 'p) db" where
  "deleteSnapshot es c agg d =
     (case snDelete (esSnaps es) c agg (dbSnaps d) of (r, p') \<Rightarrow> (r, d\<lparr>dbSnaps := p'\<rparr>))"

definition esDelete ::
  "('tx, 's, 'p, 't) es \<Rightarrow> ctx \<Rightarrow> string \<Rightarrow> ('s, 'p) db \<Rightarrow> unit outcome \<times> ('s, 'p) db" where
  "esDelete es c agg d =
     (case atomically (esStore es) c (txDeleteStream (esStore es) c (streamName agg)) (dbStore d) of
        (Ok _, s') \<Rightarrow> deleteSnapshot es c agg (d\<lparr>dbStore := s'\<rparr>)
      | (Fail e, s') \<Rightarrow> (Fail e, d\<lparr>dbStore := s'\<rparr>)
      | (Panic p, s') \<Rightarrow> (Panic p, d\<lparr>dbStore := s'\<rparr>))"

end
