(* ===== verification/Dispatcher_Interface.thy ===== *)
theory Dispatcher_Interface
  imports Event_Store
begin

text \<open>
  \<^verbatim>\<open>models/dispatcher.go\<close> and the types its methods carry. The interface is a record of
  operations over the dispatcher's state \<open>'d\<close>, so the command executor, the recovery and
  the facade are defined over any dispatcher; the in-memory one is modelled separately.

  The \<open>Ack\<close> closure of a request always acknowledges one entry of the delivery log, so it
  is kept as that entry; a ticket is an identity whose channels and results are read from
  the dispatcher's state.
\<close>

datatype dispatch_kind = DispatchEvent | DispatchRedelivery | DispatchTombstone

type_synonym ack = "(string \<times> int) option"

record 't dispatch_request =
  rqEvent :: "'t event"
  rqAck :: ack
  rqKind :: dispatch_kind

definition forgetEventName :: string where
  "forgetEventName = ''asynx.aggregate.forget''"

record delivery_status =
  dsParked :: bool
  dsGeneration :: "64 word"
  dsCause :: "goerr option"
  dsUndelivered :: "int list"

type_synonym ticket = nat

text \<open>\<open>tkFinal = False\<close> is a ticket whose \<open>Final\<close> channel is nil: the zero \<open>Ticket\<close>.\<close>

record ticket_state =
  tkSettled :: bool
  tkFinal :: bool
  tkErr :: "goerr option"
  tkUnrun :: "goerr option"

record ('t, 'd) dispatcher_ops =
  dpEnqueue :: "ctx \<Rightarrow> 't dispatch_request \<Rightarrow> 'd \<Rightarrow> ticket outcome \<times> 'd"
  dpTicketFor :: "string \<Rightarrow> int \<Rightarrow> 'd \<Rightarrow> ticket option"
  dpTicket :: "ticket \<Rightarrow> 'd \<Rightarrow> ticket_state"
  dpUnrun :: "string \<Rightarrow> int \<Rightarrow> 'd \<Rightarrow> goerr option"
  dpPark :: "string \<Rightarrow> goerr option \<Rightarrow> int list \<Rightarrow> 'd \<Rightarrow> 'd"
  dpSupersede :: "string \<Rightarrow> 'd \<Rightarrow> 'd"
  dpParks :: "'d \<Rightarrow> (string \<times> 64 word) list"
  dpResumeUndelivered :: "string \<Rightarrow> 64 word \<Rightarrow> 'd \<Rightarrow> (bool \<times> int list) \<times> 'd"
  dpInspect :: "string \<Rightarrow> 'd \<Rightarrow> delivery_status"
  dpInHandler :: "ctx \<Rightarrow> string \<Rightarrow> 'd \<Rightarrow> bool"
  dpInterrupt :: "'d \<Rightarrow> 'd"
  dpInterrupted :: "'d \<Rightarrow> bool"

end
