(* ===== verification/Exec.thy ===== *)
theory Exec
  imports Dispatcher_Interface
begin

text \<open>
  \<^verbatim>\<open>internal/processor/exec\<close> and \<^verbatim>\<open>internal/commands\<close>: the command executor. Definitions only;
  \<open>Exec_Correct\<close> has their theory.

  Everything between taking an aggregate's lock and releasing it is one state transformer;
  the lock's own protocol is in \<open>Keyed_Lock\<close>. \<open>Forget\<close> holds the lock twice, so it is two
  transformers with other commands in between. What \<open>Lock\<close> answered (nil or the context's
  error) is an argument of each. The fresh event id and the clock are arguments too.
\<close>

section \<open>Configuration and state\<close>

text \<open>
  A projection's function writes its own tables through the transaction's native handle, so
  it is a transformer of the transaction.
\<close>

record ('tx, 't) sync_projection =
  spMatch :: "string \<Rightarrow> bool"
  spFn :: "ctx \<Rightarrow> 't event \<Rightarrow> 'tx \<Rightarrow> goerr option \<times> 'tx"

record ('tx, 's, 'p, 't, 'd) executor =
  xEs :: "('tx, 's, 'p, 't) es"
  xDispatcher :: "('t, 'd) dispatcher_ops option"
  xSyncs :: "('tx, 't) sync_projection list"
  xDurableMatch :: "(string \<Rightarrow> bool) option"
  xOnSnapshotError :: bool

record ('s, 'p, 't, 'd) exec_state =
  xDb :: "('s, 'p) db"
  xDisp :: 'd
  xForgetting :: "string set"
  xSnapshotErrors :: "('t event \<times> goerr) list"

text \<open>
  The fence of \<open>Forget\<close>, each operation under its own mutex; raising it says whether it was down.
\<close>

definition isForgetting :: "string \<Rightarrow> ('s, 'p, 't, 'd) exec_state \<Rightarrow> bool" where
  [simp]: "isForgetting agg st \<longleftrightarrow> agg \<in> xForgetting st"

definition setForgetting :: "string \<Rightarrow> ('s, 'p, 't, 'd) exec_state \<Rightarrow> bool \<times> ('s, 'p, 't, 'd) exec_state" where
  [simp]: "setForgetting agg st =
     (if agg \<in> xForgetting st then (False, st) else (True, st\<lparr>xForgetting := insert agg (xForgetting st)\<rparr>))"

definition clearForgetting :: "string \<Rightarrow> ('s, 'p, 't, 'd) exec_state \<Rightarrow> ('s, 'p, 't, 'd) exec_state" where
  [simp]: "clearForgetting agg st = st\<lparr>xForgetting := xForgetting st - {agg}\<rparr>"

text \<open>The options of \<open>New\<close>, applied in order.\<close>

datatype ('tx, 't) exec_opt =
    WithSyncProjections "('tx, 't) sync_projection list"
  | WithDurableDelivery "(string \<Rightarrow> bool) option"
  | WithSnapshotErrorHandler bool

fun applyExecOpt :: "('tx, 't) exec_opt \<Rightarrow> ('tx, 's, 'p, 't, 'd) executor \<Rightarrow> ('tx, 's, 'p, 't, 'd) executor" where
  "applyExecOpt (WithSyncProjections ps) x = x\<lparr>xSyncs := ps\<rparr>"
| "applyExecOpt (WithDurableDelivery m) x = x\<lparr>xDurableMatch := m\<rparr>"
| "applyExecOpt (WithSnapshotErrorHandler b) x = x\<lparr>xOnSnapshotError := b\<rparr>"

definition newExecutor ::
  "('tx, 's, 'p, 't) es \<Rightarrow> ('t, 'd) dispatcher_ops option \<Rightarrow> ('tx, 't) exec_opt list
     \<Rightarrow> ('tx, 's, 'p, 't, 'd) executor" where
  "newExecutor es d opts =
     fold applyExecOpt opts
       \<lparr>xEs = es, xDispatcher = d, xSyncs = [], xDurableMatch = None, xOnSnapshotError = False\<rparr>"

text \<open>The zero value of \<open>Event[T]\<close>.\<close>

definition zeroEvent :: "('tx, 's, 'p, 't) es \<Rightarrow> 't event" where
  "zeroEvent es =
     \<lparr>evID = '''', evAggregateID = '''', evEventName = '''', evVersion = 0, evSchemaVersion = 0,
      evOccurredAt = zeroTime, evAggregate = esZero es, evPreviousAggregate = esZero es\<rparr>"

text \<open>A \<open>Wait\<close> closure is one of two shapes, over the event it reports on.\<close>

datatype 't wait = WaitOn ticket "'t event" | UnrunWait goerr "'t event"

text \<open>The three results of the pipeline: the event, the wait (or nil), the error (or nil).\<close>

type_synonym 't answer = "'t event \<times> 't wait option \<times> goerr option"

section \<open>Delivery and projections\<close>

definition isDurable :: "('tx, 's, 'p, 't, 'd) executor \<Rightarrow> string \<Rightarrow> bool" where
  "isDurable x eventName \<longleftrightarrow>
     (case xDurableMatch x of
        None \<Rightarrow> False
      | Some match \<Rightarrow> xDispatcher x \<noteq> None \<and> match eventName)"

definition ackFor :: "('tx, 's, 'p, 't, 'd) executor \<Rightarrow> 't event \<Rightarrow> ack" where
  "ackFor x ev = (if \<not> isDurable x (evEventName ev) then None else Some (evAggregateID ev, evVersion ev))"

definition runSyncProjections ::
  "('tx, 's, 'p, 't, 'd) executor \<Rightarrow> ('tx, 't) tx_hook" where
  "runSyncProjections x c ev t =
     (case firstError (\<lambda>p t. if \<not> spMatch p (evEventName ev) then (None, t) else spFn p c ev t)
             (xSyncs x) t of
        (Some e, t') \<Rightarrow> (Fail (wrapErr ErrSyncProjection e), t')
      | (None, t') \<Rightarrow> (Ok (), t'))"

definition putAcceptedReceipt :: "('tx, 's) store_ops \<Rightarrow> string \<Rightarrow> ('tx, 't) tx_hook" where
  "putAcceptedReceipt S commandID c ev t =
     (if commandID = '''' then (Ok (), t)
      else txPutReceipt S c commandID
             \<lparr>rAccepted = True, rAggregateID = evAggregateID ev, rEventID = evID ev,
              rVersion = evVersion ev, rRejection = ''''\<rparr> t)"

definition txHook ::
  "('tx, 's, 'p, 't, 'd) executor \<Rightarrow> string \<Rightarrow> ('tx, 't) tx_hook option" where
  "txHook x commandID =
     (if length (xSyncs x) = 0 \<and> xDurableMatch x = None \<and> commandID = '''' then None
      else Some (\<lambda>c ev.
        thenTx (runSyncProjections x c ev) (\<lambda>_.
        thenTx (putAcceptedReceipt (esStore (xEs x)) commandID c ev) (\<lambda>_.
          if isDurable x (evEventName ev)
          then txEnqueueDelivery (esStore (xEs x)) c (evAggregateID ev) (evVersion ev)
          else (\<lambda>t. (Ok (), t))))))"

definition snapshotIfDue ::
  "('tx, 's, 'p, 't, 'd) executor \<Rightarrow> ctx \<Rightarrow> 't command \<Rightarrow> 't event
     \<Rightarrow> ('s, 'p, 't, 'd) exec_state \<Rightarrow> unit outcome \<times> ('s, 'p, 't, 'd) exec_state" where
  "snapshotIfDue x c cmd ev st =
     (if \<not> cmdShouldSnapshot cmd then (Ok (), st)
      else case esSnapshot (xEs x) c ev (xDb st) of
             (Ok _, d') \<Rightarrow> (Ok (), st\<lparr>xDb := d'\<rparr>)
           | (Fail e, d') \<Rightarrow>
               (Ok (), st\<lparr>xDb := d',
                  xSnapshotErrors := (if xOnSnapshotError x then xSnapshotErrors st @ [(ev, e)]
                                      else xSnapshotErrors st)\<rparr>)
           | (Panic p, d') \<Rightarrow> (Panic p, st\<lparr>xDb := d'\<rparr>))"

definition waitOn :: "ticket \<Rightarrow> 't event \<Rightarrow> 't wait" where
  "waitOn t ev = WaitOn t ev"

definition unrunWait :: "goerr option \<Rightarrow> 't event \<Rightarrow> 't wait option" where
  "unrunWait unrun ev = (case unrun of None \<Rightarrow> None | Some e \<Rightarrow> Some (UnrunWait e ev))"

definition enqueueEvent ::
  "('tx, 's, 'p, 't, 'd) executor \<Rightarrow> ctx \<Rightarrow> 't event \<Rightarrow> 'd \<Rightarrow> 't wait option outcome \<times> 'd" where
  "enqueueEvent x c ev d =
     (case xDispatcher x of
        None \<Rightarrow> (Ok None, d)
      | Some D \<Rightarrow>
          (case dpEnqueue D c \<lparr>rqEvent = ev, rqAck = ackFor x ev, rqKind = DispatchEvent\<rparr> d of
             (Ok t, d') \<Rightarrow> (Ok (Some (waitOn t ev)), d')
           | (Fail e, d') \<Rightarrow> (Fail e, d')
           | (Panic p, d') \<Rightarrow> (Panic p, d')))"

definition parkIfDurable ::
  "('tx, 's, 'p, 't, 'd) executor \<Rightarrow> 't event \<Rightarrow> goerr \<Rightarrow> 'd \<Rightarrow> 'd" where
  "parkIfDurable x ev cause d =
     (if \<not> isDurable x (evEventName ev) then d
      else case xDispatcher x of
             None \<Rightarrow> d
           | Some D \<Rightarrow> dpPark D (evAggregateID ev) (Some cause) [] d)"

definition waitForAnswered ::
  "('tx, 's, 'p, 't, 'd) executor \<Rightarrow> 't event \<Rightarrow> goerr option \<Rightarrow> 'd \<Rightarrow> 't wait option" where
  "waitForAnswered x ev answer d =
     (case xDispatcher x of
        None \<Rightarrow> None
      | Some D \<Rightarrow>
          (if answer \<noteq> None then None
           else case dpTicketFor D (evAggregateID ev) (evVersion ev) d of
                  Some t \<Rightarrow> Some (waitOn t ev)
                | None \<Rightarrow> unrunWait (dpUnrun D (evAggregateID ev) (evVersion ev) d) ev))"

text \<open>
  Running a \<open>Wait\<close>. The \<open>select\<close> may take either channel that is ready; the argument says
  whether it took the context's (with its error) or \<open>Settled\<close>.
\<close>

definition pendingErr :: "goerr \<Rightarrow> 't event \<Rightarrow> goerr" where
  "pendingErr e ev = Errorf [Wrap e, Lit '': event '', Lit (evAggregateID ev),
     Lit '' v'', Lit (showInt (evVersion ev)), Lit '' is pending, no handler ran'']"

definition settledOutcome :: "ticket_state \<Rightarrow> 't event \<Rightarrow> goerr option" where
  "settledOutcome t ev = map_option (\<lambda>e. pendingErr e ev) (tkUnrun t)"

fun runWait ::
  "('t, 'd) dispatcher_ops \<Rightarrow> goerr option \<Rightarrow> 't wait \<Rightarrow> 'd \<Rightarrow> goerr option" where
  "runWait D done (UnrunWait e ev) d = Some (pendingErr e ev)"
| "runWait D None (WaitOn t ev) d = settledOutcome (dpTicket D t d) ev"
| "runWait D (Some cerr) (WaitOn t ev) d =
     Some (Errorf [Wrap (Sentinel ErrContextCancelled), Lit '': waiting for handlers: '', Wrap cerr])"

section \<open>Idempotency\<close>

definition idempotencyKey :: "'t command \<Rightarrow> string" where
  "idempotencyKey cmd = (case cmdCommandID cmd of Some i \<Rightarrow> i | None \<Rightarrow> '''')"

text \<open>
  \<open>(event, handled, err)\<close>; a panic of the store or of the codec ends the call instead.
\<close>

definition answerFromReceipt ::
  "('tx, 's, 'p, 't, 'd) executor \<Rightarrow> ctx \<Rightarrow> string \<Rightarrow> 's \<Rightarrow> ('t event \<times> bool \<times> goerr option) outcome" where
  "answerFromReceipt x c commandID s =
     (let es = xEs x; none = zeroEvent es in
      case stGetReceipt (esStore es) c commandID s of
        Fail e \<Rightarrow> Ok (none, True, Some (wrapErr ErrPipelineFailed e))
      | Panic p \<Rightarrow> Panic p
      | Ok None \<Rightarrow> Ok (none, False, None)
      | Ok (Some rc) \<Rightarrow>
          (if \<not> rAccepted rc then Ok (none, True, Some (wrapText ErrValidation (rRejection rc)))
           else let ev0 = none\<lparr>evID := rEventID rc, evAggregateID := rAggregateID rc, evVersion := rVersion rc\<rparr>
                in case replay es c (rAggregateID rc) (rVersion rc) (rVersion rc)
                          (\<lambda>evt ev. if evVersion evt = rVersion rc \<and> evID evt = rEventID rc then evt else ev)
                          s ev0 of
                     (Ok _, ev) \<Rightarrow> Ok (ev, True, None)
                   | (Fail e, ev) \<Rightarrow>
                       Ok (ev, True, Some (Errorf [Wrap (Sentinel ErrPipelineFailed),
                             Lit '': reading the event of command '', Lit commandID, Lit '': '', Wrap e]))
                   | (Panic p, _) \<Rightarrow> Panic p))"

definition answerRetry ::
  "('tx, 's, 'p, 't, 'd) executor \<Rightarrow> ctx \<Rightarrow> string \<Rightarrow> 's \<Rightarrow> ('t event \<times> bool \<times> goerr option) outcome" where
  "answerRetry x c commandID s =
     (if commandID = '''' then Ok (zeroEvent (xEs x), False, None)
      else answerFromReceipt x c commandID s)"

definition recordRejection ::
  "('tx, 's, 'p, 't, 'd) executor \<Rightarrow> ctx \<Rightarrow> string \<Rightarrow> goerr \<Rightarrow> 's \<Rightarrow> unit outcome \<times> 's" where
  "recordRejection x c commandID cause s =
     atomically (esStore (xEs x)) c
       (txPutReceipt (esStore (xEs x)) c commandID
          \<lparr>rAccepted = False, rAggregateID = '''', rEventID = '''', rVersion = 0,
           rRejection = errText cause\<rparr>) s"

definition validationFailed ::
  "('tx, 's, 'p, 't, 'd) executor \<Rightarrow> ctx \<Rightarrow> string \<Rightarrow> goerr \<Rightarrow> 's
     \<Rightarrow> ('t event \<times> bool \<times> goerr option) outcome \<times> 's" where
  "validationFailed x c commandID rejection s =
     (if commandID = '''' then (Ok (zeroEvent (xEs x), False, Some rejection), s)
      else case recordRejection x c commandID rejection s of
             (Ok _, s') \<Rightarrow> (Ok (zeroEvent (xEs x), False, Some rejection), s')
           | (Panic p, s') \<Rightarrow> (Panic p, s')
           | (Fail recErr, s') \<Rightarrow>
               (let failed = (Ok (zeroEvent (xEs x), False,
                      Some (Errorf [Wrap (Sentinel ErrPipelineFailed), Lit '': recording rejection: '', Wrap recErr])), s')
                in if errorsIs recErr ErrDuplicateReceipt
                   then (case answerFromReceipt x c commandID s' of
                           Ok (ev, handled, aerr) \<Rightarrow> if handled then (Ok (ev, True, aerr), s') else failed
                         | Fail e \<Rightarrow> (Fail e, s')
                         | Panic p \<Rightarrow> (Panic p, s'))
                   else failed))"

definition writeFailed ::
  "('tx, 's, 'p, 't, 'd) executor \<Rightarrow> ctx \<Rightarrow> string \<Rightarrow> goerr \<Rightarrow> 's
     \<Rightarrow> ('t event \<times> bool \<times> goerr option) outcome \<times> 's" where
  "writeFailed x c commandID err s =
     (let failed = (Ok (zeroEvent (xEs x), False, Some (wrapErr ErrPipelineFailed err)), s)
      in if errorsIs err ErrSyncProjection then failed
         else if commandID \<noteq> '''' \<and> errorsIs err ErrDuplicateReceipt
         then (case answerFromReceipt x c commandID s of
                 Ok (ev, handled, aerr) \<Rightarrow> if handled then (Ok (ev, True, aerr), s) else failed
               | Fail e \<Rightarrow> (Fail e, s)
               | Panic p \<Rightarrow> (Panic p, s))
         else if errorsIs err ErrValidation then validationFailed x c commandID err s
         else failed)"

definition failedWrite ::
  "('tx, 's, 'p, 't, 'd) executor \<Rightarrow> ctx \<Rightarrow> string \<Rightarrow> goerr \<Rightarrow> ('s, 'p, 't, 'd) exec_state
     \<Rightarrow> 't answer outcome \<times> ('s, 'p, 't, 'd) exec_state" where
  "failedWrite x c commandID cause st =
     (case writeFailed x c commandID cause (dbStore (xDb st)) of
        (r, s') \<Rightarrow>
          (let st' = st\<lparr>xDb := (xDb st)\<lparr>dbStore := s'\<rparr>\<rparr>
           in case r of
                Ok (ev, handled, err) \<Rightarrow>
                  (if handled then (Ok (ev, waitForAnswered x ev err (xDisp st'), err), st')
                   else (Ok (zeroEvent (xEs x), None, err), st'))
              | Fail e \<Rightarrow> (Fail e, st')
              | Panic p \<Rightarrow> (Panic p, st')))"

section \<open>The pipeline\<close>

text \<open>\<open>run\<close>: the caller holds the aggregate's lock.\<close>

definition run ::
  "('tx, 's, 'p, 't, 'd) executor \<Rightarrow> ctx \<Rightarrow> string \<Rightarrow> string \<Rightarrow> 't command \<Rightarrow> ('s, 'p, 't, 'd) exec_state
     \<Rightarrow> 't answer outcome \<times> ('s, 'p, 't, 'd) exec_state" where
  "run x c newID now cmd st =
     (let commandID = idempotencyKey cmd in
      case answerRetry x c commandID (dbStore (xDb st)) of
        Fail e \<Rightarrow> (Fail e, st)
      | Panic p \<Rightarrow> (Panic p, st)
      | Ok (ev0, handled, err0) \<Rightarrow>
          (if handled then (Ok (ev0, waitForAnswered x ev0 err0 (xDisp st), err0), st)
           else case writeTx (xEs x) c newID now cmd (txHook x commandID) (xDb st) of
                  (Fail e, d') \<Rightarrow> failedWrite x c commandID e (st\<lparr>xDb := d'\<rparr>)
                | (Panic p, d') \<Rightarrow> (Panic p, st\<lparr>xDb := d'\<rparr>)
                | (Ok ev, d') \<Rightarrow>
                    (case snapshotIfDue x c cmd ev (st\<lparr>xDb := d'\<rparr>) of
                       (Fail e, st') \<Rightarrow> (Fail e, st')
                     | (Panic p, st') \<Rightarrow> (Panic p, st')
                     | (Ok _, st') \<Rightarrow>
                         (case enqueueEvent x c ev (xDisp st') of
                            (Ok w, disp) \<Rightarrow> (Ok (ev, w, None), st'\<lparr>xDisp := disp\<rparr>)
                          | (Panic p, disp) \<Rightarrow> (Panic p, st'\<lparr>xDisp := disp\<rparr>)
                          | (Fail e, disp) \<Rightarrow>
                              (Ok (ev, None, Some (wrapErr ErrPipelineFailed e)),
                               st'\<lparr>xDisp := parkIfDurable x ev e disp\<rparr>)))))"

definition executeAsync ::
  "('tx, 's, 'p, 't, 'd) executor \<Rightarrow> goerr option \<Rightarrow> ctx \<Rightarrow> string \<Rightarrow> string \<Rightarrow> 't command
     \<Rightarrow> ('s, 'p, 't, 'd) exec_state \<Rightarrow> 't answer outcome \<times> ('s, 'p, 't, 'd) exec_state" where
  "executeAsync x lockErr c newID now cmd st =
     (case lockErr of
        Some e \<Rightarrow> (Ok (zeroEvent (xEs x), None, Some (wrapErr ErrContextCancelled e)), st)
      | None \<Rightarrow>
          (if isForgetting (cmdAggregateID cmd) st
           then (Ok (zeroEvent (xEs x), None,
                   Some (wrapText ErrForgetInProgress (cmdAggregateID cmd))), st)
           else run x c newID now cmd st))"

text \<open>
  \<open>Execute\<close> waits for the handlers after the lock is released: between the two the
  dispatcher moves on, which the function \<open>later\<close> stands for.
\<close>

definition execute ::
  "('tx, 's, 'p, 't, 'd) executor \<Rightarrow> goerr option \<Rightarrow> goerr option \<Rightarrow> ('d \<Rightarrow> 'd) \<Rightarrow> ctx \<Rightarrow> string \<Rightarrow> string
     \<Rightarrow> 't command \<Rightarrow> bool \<Rightarrow> ('s, 'p, 't, 'd) exec_state
     \<Rightarrow> ('t event \<times> goerr option) outcome \<times> ('s, 'p, 't, 'd) exec_state" where
  "execute x lockErr done later c newID now cmd waitHandlers st =
     (case executeAsync x lockErr c newID now cmd st of
        (Fail e, st') \<Rightarrow> (Fail e, st')
      | (Panic p, st') \<Rightarrow> (Panic p, st')
      | (Ok (ev, w, err), st') \<Rightarrow>
          (if err \<noteq> None then (Ok (ev, err), st')
           else case (w, xDispatcher x) of
                  (Some w', Some D) \<Rightarrow>
                    (if waitHandlers
                     then (let st'' = st'\<lparr>xDisp := later (xDisp st')\<rparr>
                           in (Ok (ev, runWait D done w' (xDisp st'')), st''))
                     else (Ok (ev, None), st'))
                | _ \<Rightarrow> (Ok (ev, None), st')))"

text \<open>A sequence of calls, in the order they take their locks.\<close>

record 't call =
  clLock :: "goerr option"
  clCtx :: ctx
  clNewID :: string
  clNow :: string
  clCmd :: "'t command"

fun executeAll ::
  "('tx, 's, 'p, 't, 'd) executor \<Rightarrow> 't call list \<Rightarrow> ('s, 'p, 't, 'd) exec_state \<Rightarrow> ('s, 'p, 't, 'd) exec_state" where
  "executeAll x [] st = st"
| "executeAll x (cl # cls) st =
     executeAll x cls (snd (executeAsync x (clLock cl) (clCtx cl) (clNewID cl) (clNow cl) (clCmd cl) st))"

section \<open>Forget\<close>

text \<open>
  \<open>ForgetCommand\<close>: \<open>Validate\<close> remembers the current state for \<open>EmitEvent\<close>. The event store
  always calls the two with the same state, so the remembered one is the argument.
\<close>

definition forgetCommand :: "'t \<Rightarrow> string \<Rightarrow> 't command" where
  "forgetCommand zero agg =
     \<lparr>cmdAggregateID = agg, cmdEventName = forgetEventName, cmdShouldSnapshot = False,
      cmdValidate = (\<lambda>cur. case cur of
          None \<Rightarrow> Some (Errorf [Wrap (Sentinel ErrValidation), Lit '': aggregate '', Lit agg, Lit '' not found''])
        | Some _ \<Rightarrow> None),
      cmdEmitEvent = (\<lambda>cur. case cur of None \<Rightarrow> zero | Some x \<Rightarrow> x),
      cmdCommandID = None\<rparr>"

definition supersedeDeliveries :: "('tx, 's) store_ops \<Rightarrow> ('tx, 't) tx_hook" where
  "supersedeDeliveries S c ev =
     thenTx (txDropDeliveries S c (evAggregateID ev)) (\<lambda>_.
       txEnqueueDelivery S c (evAggregateID ev) (evVersion ev))"

definition supersedeDeliveriesIfLogged ::
  "('tx, 's, 'p, 't, 'd) executor \<Rightarrow> ('tx, 't) tx_hook" where
  "supersedeDeliveriesIfLogged x c ev =
     (if \<not> (xDurableMatch x \<noteq> None \<and> xDispatcher x \<noteq> None) then (\<lambda>t. (Ok (), t))
      else supersedeDeliveries (esStore (xEs x)) c ev)"

definition tombstoneHook :: "('tx, 's, 'p, 't, 'd) executor \<Rightarrow> ('tx, 't) tx_hook" where
  "tombstoneHook x c ev =
     thenTx (supersedeDeliveriesIfLogged x c ev) (\<lambda>_. runSyncProjections x c ev)"

definition isPlainValidation :: "goerr \<Rightarrow> bool" where
  "isPlainValidation e \<longleftrightarrow> errorsIs e ErrValidation \<and> \<not> errorsIs e ErrSyncProjection"

definition tombstoneWriteError :: "goerr \<Rightarrow> goerr" where
  "tombstoneWriteError e = (if isPlainValidation e then e else wrapErr ErrPipelineFailed e)"

text \<open>The ticket of the tombstone; without a dispatcher the zero ticket, here \<open>None\<close>.\<close>

definition commitTombstone ::
  "('tx, 's, 'p, 't, 'd) executor \<Rightarrow> ctx \<Rightarrow> string \<Rightarrow> string \<Rightarrow> string \<Rightarrow> ('s, 'p, 't, 'd) exec_state
     \<Rightarrow> ticket option outcome \<times> ('s, 'p, 't, 'd) exec_state" where
  "commitTombstone x c newID now agg st =
     (case writeTx (xEs x) c newID now (forgetCommand (esZero (xEs x)) agg) (Some (tombstoneHook x)) (xDb st) of
        (Fail e, d') \<Rightarrow> (Fail (tombstoneWriteError e), st\<lparr>xDb := d'\<rparr>)
      | (Panic p, d') \<Rightarrow> (Panic p, st\<lparr>xDb := d'\<rparr>)
      | (Ok ev, d') \<Rightarrow>
          (case xDispatcher x of
             None \<Rightarrow> (Ok None, st\<lparr>xDb := d'\<rparr>)
           | Some D \<Rightarrow>
               (case dpEnqueue D c \<lparr>rqEvent = ev, rqAck = Some (evAggregateID ev, evVersion ev),
                          rqKind = DispatchTombstone\<rparr> (dpSupersede D agg (xDisp st)) of
                  (Ok t, disp) \<Rightarrow> (Ok (Some t), st\<lparr>xDb := d', xDisp := disp\<rparr>)
                | (Fail e, disp) \<Rightarrow>
                    (Fail (wrapErr ErrPipelineFailed e),
                     st\<lparr>xDb := d', xDisp := dpPark D agg (Some e) [] disp\<rparr>)
                | (Panic p, disp) \<Rightarrow> (Panic p, st\<lparr>xDb := d', xDisp := disp\<rparr>))))"

text \<open>The fence is not lifted when the commit panics: nothing clears the mark then.\<close>

definition writeTombstone ::
  "('tx, 's, 'p, 't, 'd) executor \<Rightarrow> goerr option \<Rightarrow> ctx \<Rightarrow> string \<Rightarrow> string \<Rightarrow> string
     \<Rightarrow> ('s, 'p, 't, 'd) exec_state \<Rightarrow> ticket option outcome \<times> ('s, 'p, 't, 'd) exec_state" where
  "writeTombstone x lockErr c newID now agg st =
     (case lockErr of
        Some e \<Rightarrow> (Fail (wrapErr ErrContextCancelled e), st)
      | None \<Rightarrow>
          (case setForgetting agg st of
             (False, st1) \<Rightarrow> (Fail (wrapText ErrForgetInProgress agg), st1)
           | (True, st1) \<Rightarrow>
               (case commitTombstone x c newID now agg st1 of
                  (Ok t, st') \<Rightarrow> (Ok t, st')
                | (Fail e, st') \<Rightarrow> (Fail e, clearForgetting agg st')
                | (Panic p, st') \<Rightarrow> (Panic p, st'))))"

text \<open>Which case of the \<open>select\<close> in \<open>waitFinal\<close> fires.\<close>

datatype final_event = FinalClosed | CtxDone goerr | InterruptedClosed

definition interruptedWait :: "ticket_state \<Rightarrow> goerr option" where
  "interruptedWait t =
     (if tkFinal t then None
      else Some (Errorf [Wrap (Sentinel ErrForgetFailed), Lit '': waiting for handlers: '',
                         Wrap (Sentinel ErrShuttingDown)]))"

fun waitFinal :: "final_event \<Rightarrow> ticket_state \<Rightarrow> goerr option" where
  "waitFinal FinalClosed t = None"
| "waitFinal (CtxDone e) t =
     Some (Errorf [Wrap (Sentinel ErrForgetFailed), Lit '': waiting for handlers: '', Wrap e])"
| "waitFinal InterruptedClosed t = interruptedWait t"

definition awaitTombstone :: "final_event \<Rightarrow> ticket_state option \<Rightarrow> goerr option" where
  "awaitTombstone fe t =
     (case t of
        None \<Rightarrow> None
      | Some ts \<Rightarrow>
          (case waitFinal fe ts of
             Some e \<Rightarrow> Some e
           | None \<Rightarrow>
               map_option (\<lambda>e. Errorf [Wrap (Sentinel ErrForgetFailed), Lit '': tombstone delivery: '', Wrap e])
                 (tkErr ts)))"

definition erase ::
  "('tx, 's, 'p, 't, 'd) executor \<Rightarrow> goerr option \<Rightarrow> ctx \<Rightarrow> string
     \<Rightarrow> ('s, 'p, 't, 'd) exec_state \<Rightarrow> unit outcome \<times> ('s, 'p, 't, 'd) exec_state" where
  "erase x lockErr c agg st =
     (case lockErr of
        Some e \<Rightarrow> (Fail (wrapErr ErrForgetFailed e), st)
      | None \<Rightarrow>
          (case deleteSnapshot (xEs x) c agg (xDb st) of
             (Fail e, d') \<Rightarrow> (Fail (wrapErr ErrForgetFailed e), st\<lparr>xDb := d'\<rparr>)
           | (Panic p, d') \<Rightarrow> (Panic p, st\<lparr>xDb := d'\<rparr>)
           | (Ok _, d') \<Rightarrow>
               (case atomically (esStore (xEs x)) c
                       (thenTx (txDeleteStream (esStore (xEs x)) c (''events:'' @ agg)) (\<lambda>_.
                          txDropDeliveries (esStore (xEs x)) c agg)) (dbStore d') of
                  (Fail e, s') \<Rightarrow> (Fail (wrapErr ErrForgetFailed e), st\<lparr>xDb := d'\<lparr>dbStore := s'\<rparr>\<rparr>)
                | (Panic p, s') \<Rightarrow> (Panic p, st\<lparr>xDb := d'\<lparr>dbStore := s'\<rparr>\<rparr>)
                | (Ok _, s') \<Rightarrow>
                    (Ok (), clearForgetting agg (st\<lparr>xDb := d'\<lparr>dbStore := s'\<rparr>\<rparr>)))))"

text \<open>The deferred function: a failed \<open>Forget\<close> parks the aggregate and lifts the fence.\<close>

definition forgetFailed ::
  "('tx, 's, 'p, 't, 'd) executor \<Rightarrow> string \<Rightarrow> goerr \<Rightarrow> ('s, 'p, 't, 'd) exec_state
     \<Rightarrow> ('s, 'p, 't, 'd) exec_state" where
  "forgetFailed x agg e st =
     clearForgetting agg
       (st\<lparr>xDisp := (case xDispatcher x of None \<Rightarrow> xDisp st | Some D \<Rightarrow> dpPark D agg (Some e) [] (xDisp st))\<rparr>)"

text \<open>
  \<open>Forget\<close> in two parts: up to the tombstone, and from the end of the wait on. Commands run
  between the two on the state the first part returned.
\<close>

definition forgetBegin ::
  "('tx, 's, 'p, 't, 'd) executor \<Rightarrow> goerr option \<Rightarrow> ctx \<Rightarrow> string \<Rightarrow> string \<Rightarrow> string
     \<Rightarrow> ('s, 'p, 't, 'd) exec_state \<Rightarrow> ticket option outcome \<times> ('s, 'p, 't, 'd) exec_state" where
  "forgetBegin x lockErr c newID now agg st =
     (if (case xDispatcher x of None \<Rightarrow> False | Some D \<Rightarrow> dpInHandler D c agg (xDisp st))
      then (Fail (wrapText ErrForgetFromHandler agg), st)
      else writeTombstone x lockErr c newID now agg st)"

definition forgetFinish ::
  "('tx, 's, 'p, 't, 'd) executor \<Rightarrow> goerr option \<Rightarrow> final_event \<Rightarrow> ctx \<Rightarrow> string \<Rightarrow> ticket option
     \<Rightarrow> ('s, 'p, 't, 'd) exec_state \<Rightarrow> unit outcome \<times> ('s, 'p, 't, 'd) exec_state" where
  "forgetFinish x lockErr fe c agg tk st =
     (let ts = (case (tk, xDispatcher x) of
                  (Some t, Some D) \<Rightarrow> Some (dpTicket D t (xDisp st))
                | _ \<Rightarrow> None)
      in case awaitTombstone fe ts of
           Some e \<Rightarrow> (Fail e, forgetFailed x agg e st)
         | None \<Rightarrow>
             (case erase x lockErr (withoutCancel c) agg st of
                (Ok _, st') \<Rightarrow> (Ok (), st')
              | (Fail e, st') \<Rightarrow> (Fail e, forgetFailed x agg e st')
              | (Panic p, st') \<Rightarrow> (Panic p, st')))"

end
