(* ===== verification/Memory_Store.thy ===== *)
theory Memory_Store
  imports Store_Interface
begin

text \<open>
  \<^verbatim>\<open>store/memory.go\<close> and \<^verbatim>\<open>store/snapshot_memory.go\<close>, the in-memory backends. Transactions
  apply their writes at once and keep an undo log; streams are slices in version order,
  searched by bisection. The two mutexes serialise the operations, so each operation is one
  step on the state. The theory shows that rolling back restores every stream, receipt and
  delivery whatever the transaction did, that the bisection finds the reference position,
  and that both backends meet their contracts.
\<close>

section \<open>The standard library's slices\<close>

text \<open>\<open>slices.BinarySearchFunc\<close>: the loop, then the test of the element it stopped at.\<close>

function bsearchLoop :: "('a \<Rightarrow> int) \<Rightarrow> 'a list \<Rightarrow> int \<Rightarrow> nat \<Rightarrow> nat \<Rightarrow> nat" where
  "bsearchLoop k xs v i j =
     (if i < j
      then (let h = (i + j) div 2
            in if k (xs ! h) < v then bsearchLoop k xs v (h + 1) j else bsearchLoop k xs v i h)
      else i)"
  by pat_completeness auto
termination
  by (relation "measure (\<lambda>(k, xs, v, i, j). j - i)") auto

declare bsearchLoop.simps [simp del]

definition binarySearch :: "('a \<Rightarrow> int) \<Rightarrow> 'a list \<Rightarrow> int \<Rightarrow> nat \<times> bool" where
  "binarySearch k xs v =
     (let i = bsearchLoop k xs v 0 (length xs)
      in (i, i < length xs \<and> k (xs ! i) = v))"

definition sliceInsert :: "'a list \<Rightarrow> nat \<Rightarrow> 'a \<Rightarrow> 'a list" where
  "sliceInsert xs i x = take i xs @ x # drop i xs"

definition sliceDelete :: "'a list \<Rightarrow> nat \<Rightarrow> 'a list" where
  "sliceDelete xs i = take i xs @ drop (Suc i) xs"

section \<open>State\<close>

record entry =
  enVersion :: int
  enData :: blob

record memory =
  mStreams :: "string \<Rightarrow> entry list option"
  mReceipts :: "string \<Rightarrow> receipt option"
  mDeliveries :: "delivery list"
  mErrOn :: "string \<Rightarrow> goerr option"

definition newMemory :: memory where
  "newMemory = \<lparr>mStreams = Map.empty, mReceipts = Map.empty, mDeliveries = [], mErrOn = Map.empty\<rparr>"

text \<open>
  \<open>SetError\<close> schedules an error for the next \<open>Append\<close>. It takes a real error here: a nil one, which
  makes the next \<open>Append\<close> answer nil without appending, is no use of this test helper.
\<close>

definition setError :: "string \<Rightarrow> goerr \<Rightarrow> memory \<Rightarrow> memory" where
  "setError sid e s = s\<lparr>mErrOn := (mErrOn s)(sid \<mapsto> e)\<rparr>"

text \<open>Reading a missing map key gives a nil slice, which is an empty stream.\<close>

definition streamOf :: "memory \<Rightarrow> string \<Rightarrow> entry list" where
  "streamOf s sid = (case mStreams s sid of None \<Rightarrow> [] | Some es \<Rightarrow> es)"

text \<open>The undo log holds closures in the source; each is one of four shapes.\<close>

datatype undo =
    UndoAppend string int
  | UndoDeleteStream string "entry list"
  | UndoDeliveries "delivery list"
  | UndoPutReceipt string

record memory_tx =
  mtStore :: memory
  mtUndo :: "undo list"

section \<open>Operations\<close>

definition removeEntry :: "string \<Rightarrow> int \<Rightarrow> memory \<Rightarrow> memory" where
  "removeEntry sid v s =
     (let cur = streamOf s sid;
          (i, found) = binarySearch enVersion cur v
      in if \<not> found then s
         else s\<lparr>mStreams := (mStreams s)(sid \<mapsto> sliceDelete cur i)\<rparr>)"

fun applyUndo :: "undo \<Rightarrow> memory \<Rightarrow> memory" where
  "applyUndo (UndoAppend sid v) s = removeEntry sid v s"
| "applyUndo (UndoDeleteStream sid old) s = s\<lparr>mStreams := (mStreams s)(sid \<mapsto> old)\<rparr>"
| "applyUndo (UndoDeliveries old) s = s\<lparr>mDeliveries := old\<rparr>"
| "applyUndo (UndoPutReceipt cid) s = s\<lparr>mReceipts := (mReceipts s)(cid := None)\<rparr>"

definition memRollback :: "memory_tx \<Rightarrow> memory" where
  "memRollback t = fold applyUndo (rev (mtUndo t)) (mtStore t)"

definition memBegin :: "ctx \<Rightarrow> memory \<Rightarrow> memory_tx outcome" where
  "memBegin c s = (case ctxErr c of Some e \<Rightarrow> Fail e | None \<Rightarrow> Ok \<lparr>mtStore = s, mtUndo = []\<rparr>)"

definition memCommit :: "memory_tx \<Rightarrow> goerr option \<times> memory" where
  "memCommit t = (None, mtStore t)"

definition memAppend :: "ctx \<Rightarrow> string \<Rightarrow> int \<Rightarrow> blob \<Rightarrow> memory_tx \<Rightarrow> unit outcome \<times> memory_tx" where
  "memAppend c sid v d t =
     (case ctxErr c of
        Some e \<Rightarrow> (Fail e, t)
      | None \<Rightarrow>
          (let s = mtStore t in
           case mErrOn s sid of
             Some e \<Rightarrow> (Fail e, t\<lparr>mtStore := s\<lparr>mErrOn := (mErrOn s)(sid := None)\<rparr>\<rparr>)
           | None \<Rightarrow>
               (let entries = streamOf s sid;
                    (idx, found) = binarySearch enVersion entries v
                in if found
                   then (Fail (wrapText ErrPipelineFailed (''version conflict ('' @ sid @ '', v'' @ showInt v @ '')'')), t)
                   else (Ok (),
                     t\<lparr>mtStore := s\<lparr>mStreams := (mStreams s)(sid \<mapsto>
                            sliceInsert entries idx \<lparr>enVersion = v, enData = d\<rparr>)\<rparr>,
                        mtUndo := mtUndo t @ [UndoAppend sid v]\<rparr>))))"

definition memDeleteStream :: "ctx \<Rightarrow> string \<Rightarrow> memory_tx \<Rightarrow> unit outcome \<times> memory_tx" where
  "memDeleteStream c sid t =
     (case ctxErr c of
        Some e \<Rightarrow> (Fail e, t)
      | None \<Rightarrow>
          (let s = mtStore t; t' = t\<lparr>mtStore := s\<lparr>mStreams := (mStreams s)(sid := None)\<rparr>\<rparr>
           in (Ok (), case mStreams s sid of
                 None \<Rightarrow> t'
               | Some old \<Rightarrow> t'\<lparr>mtUndo := mtUndo t @ [UndoDeleteStream sid old]\<rparr>)))"

definition memDropDeliveries :: "ctx \<Rightarrow> string \<Rightarrow> memory_tx \<Rightarrow> unit outcome \<times> memory_tx" where
  "memDropDeliveries c agg t =
     (case ctxErr c of
        Some e \<Rightarrow> (Fail e, t)
      | None \<Rightarrow>
          (let s = mtStore t; old = mDeliveries s
           in (Ok (), t\<lparr>mtStore := s\<lparr>mDeliveries := filter (\<lambda>d. \<not> dAggregateID d = agg) old\<rparr>,
                        mtUndo := mtUndo t @ [UndoDeliveries old]\<rparr>)))"

definition memPutReceipt :: "ctx \<Rightarrow> string \<Rightarrow> receipt \<Rightarrow> memory_tx \<Rightarrow> unit outcome \<times> memory_tx" where
  "memPutReceipt c cid r t =
     (case ctxErr c of
        Some e \<Rightarrow> (Fail e, t)
      | None \<Rightarrow>
          (let s = mtStore t in
           case mReceipts s cid of
             Some _ \<Rightarrow> (Fail (wrapText ErrDuplicateReceipt cid), t)
           | None \<Rightarrow> (Ok (), t\<lparr>mtStore := s\<lparr>mReceipts := (mReceipts s)(cid \<mapsto> r)\<rparr>,
                             mtUndo := mtUndo t @ [UndoPutReceipt cid]\<rparr>)))"

definition memEnqueueDelivery :: "ctx \<Rightarrow> string \<Rightarrow> int \<Rightarrow> memory_tx \<Rightarrow> unit outcome \<times> memory_tx" where
  "memEnqueueDelivery c agg v t =
     (case ctxErr c of
        Some e \<Rightarrow> (Fail e, t)
      | None \<Rightarrow>
          (let s = mtStore t; old = mDeliveries s
           in (Ok (), t\<lparr>mtStore := s\<lparr>mDeliveries := old @ [\<lparr>dAggregateID = agg, dVersion = v\<rparr>]\<rparr>,
                        mtUndo := mtUndo t @ [UndoDeliveries old]\<rparr>)))"

definition entriesFrom :: "string \<Rightarrow> int \<Rightarrow> memory \<Rightarrow> entry list" where
  "entriesFrom sid v s =
     (let entries = streamOf s sid
      in if length entries = 0 then []
         else drop (fst (binarySearch enVersion entries v)) entries)"

definition toBlobs :: "entry list \<Rightarrow> blob list" where
  "toBlobs es = map enData es"

definition memReadFrom :: "ctx \<Rightarrow> string \<Rightarrow> int \<Rightarrow> memory \<Rightarrow> blob list outcome" where
  "memReadFrom c sid v s =
     (case ctxErr c of Some e \<Rightarrow> Fail e | None \<Rightarrow> Ok (toBlobs (entriesFrom sid v s)))"

text \<open>Slicing \<open>entries[:count]\<close> with a negative count panics.\<close>

definition memReadRange :: "ctx \<Rightarrow> string \<Rightarrow> int \<Rightarrow> int \<Rightarrow> memory \<Rightarrow> blob list outcome" where
  "memReadRange c sid v count s =
     (case ctxErr c of
        Some e \<Rightarrow> Fail e
      | None \<Rightarrow>
          (let entries = entriesFrom sid v s
           in if int (length entries) > count
              then (if count < 0 then Panic ''slice bounds out of range''
                    else Ok (toBlobs (take (nat count) entries)))
              else Ok (toBlobs entries)))"

definition memGetReceipt :: "ctx \<Rightarrow> string \<Rightarrow> memory \<Rightarrow> receipt option outcome" where
  "memGetReceipt c cid s = (case ctxErr c of Some e \<Rightarrow> Fail e | None \<Rightarrow> Ok (mReceipts s cid))"

definition memPendingDeliveries :: "ctx \<Rightarrow> int \<Rightarrow> memory \<Rightarrow> delivery list outcome" where
  "memPendingDeliveries c limit s =
     (case ctxErr c of
        Some e \<Rightarrow> Fail e
      | None \<Rightarrow>
          (let n = min limit (int (length (mDeliveries s)))
           in if n < 0 then Panic ''slice bounds out of range''
              else Ok (take (nat n) (mDeliveries s))))"

text \<open>The first entry equal to the target is deleted, if there is one.\<close>

definition memAckDelivery :: "ctx \<Rightarrow> string \<Rightarrow> int \<Rightarrow> memory \<Rightarrow> unit outcome \<times> memory" where
  "memAckDelivery c agg v s =
     (case ctxErr c of
        Some e \<Rightarrow> (Fail e, s)
      | None \<Rightarrow>
          (let target = \<lparr>dAggregateID = agg, dVersion = v\<rparr>
           in (Ok (), s\<lparr>mDeliveries := remove1 target (mDeliveries s)\<rparr>)))"

definition memoryStore :: "(memory_tx, memory) store_ops" where
  "memoryStore =
     \<lparr>txAppend = memAppend, txDeleteStream = memDeleteStream,
      txDropDeliveries = memDropDeliveries, txPutReceipt = memPutReceipt,
      txEnqueueDelivery = memEnqueueDelivery, stReadFrom = memReadFrom,
      stReadRange = memReadRange, stGetReceipt = memGetReceipt,
      stPendingDeliveries = memPendingDeliveries, stAckDelivery = memAckDelivery,
      stBegin = memBegin, stCommit = memCommit, stRollback = memRollback\<rparr>"

text \<open>The helpers that write in a transaction of their own.\<close>

definition memAppendOne :: "ctx \<Rightarrow> string \<Rightarrow> int \<Rightarrow> blob \<Rightarrow> memory \<Rightarrow> unit outcome \<times> memory" where
  "memAppendOne c sid v d = atomically memoryStore c (txAppend memoryStore c sid v d)"

definition memDelete :: "ctx \<Rightarrow> string \<Rightarrow> memory \<Rightarrow> unit outcome \<times> memory" where
  "memDelete c sid = atomically memoryStore c (txDeleteStream memoryStore c sid)"

section \<open>The snapshot store\<close>

record snapshot_memory =
  smSnaps :: "string \<Rightarrow> blob option"
  smErrOn :: "string \<Rightarrow> goerr option"

definition newSnapshots :: snapshot_memory where
  "newSnapshots = \<lparr>smSnaps = Map.empty, smErrOn = Map.empty\<rparr>"

text \<open>The same helper for \<open>Put\<close>, with a real error.\<close>

definition snapSetError :: "string \<Rightarrow> goerr \<Rightarrow> snapshot_memory \<Rightarrow> snapshot_memory" where
  "snapSetError agg e p = p\<lparr>smErrOn := (smErrOn p)(agg \<mapsto> e)\<rparr>"

definition snapPut :: "ctx \<Rightarrow> string \<Rightarrow> int \<Rightarrow> blob \<Rightarrow> snapshot_memory \<Rightarrow> unit outcome \<times> snapshot_memory" where
  "snapPut c agg v d p =
     (case ctxErr c of
        Some e \<Rightarrow> (Fail e, p)
      | None \<Rightarrow>
          (case smErrOn p agg of
             Some e \<Rightarrow> (Fail e, p\<lparr>smErrOn := (smErrOn p)(agg := None)\<rparr>)
           | None \<Rightarrow> (Ok (), p\<lparr>smSnaps := (smSnaps p)(agg \<mapsto> d)\<rparr>)))"

definition snapGet :: "ctx \<Rightarrow> string \<Rightarrow> snapshot_memory \<Rightarrow> blob option outcome" where
  "snapGet c agg p = (case ctxErr c of Some e \<Rightarrow> Fail e | None \<Rightarrow> Ok (smSnaps p agg))"

definition snapDelete :: "ctx \<Rightarrow> string \<Rightarrow> snapshot_memory \<Rightarrow> unit outcome \<times> snapshot_memory" where
  "snapDelete c agg p =
     (case ctxErr c of
        Some e \<Rightarrow> (Fail e, p)
      | None \<Rightarrow> (Ok (), p\<lparr>smSnaps := (smSnaps p)(agg := None)\<rparr>))"

definition snapshotMemory :: "snapshot_memory snapshot_ops" where
  "snapshotMemory = \<lparr>snPut = snapPut, snGet = snapGet, snDelete = snapDelete\<rparr>"

section \<open>Bisection\<close>

lemma sortedBy_mono_nth:
  "sortedBy k xs \<Longrightarrow> i < j \<Longrightarrow> j < length xs \<Longrightarrow> k (xs ! i) < k (xs ! j)"
  by (auto simp: sortedBy_def sorted_wrt_iff_nth_less)

lemma posBy_le_iff:
  assumes "sortedBy k xs" "h < length xs"
  shows "k (xs ! h) < v \<longleftrightarrow> h < posBy k v xs"
  using assms
proof (induction xs arbitrary: h)
  case Nil
  then show ?case by simp
next
  case (Cons x xs)
  show ?case
  proof (cases h)
    case 0
    then show ?thesis by simp
  next
    case (Suc h')
    with Cons have "k (xs ! h') < v \<longleftrightarrow> h' < posBy k v xs" by (simp add: sortedBy_Cons)
    moreover have "k x < k (xs ! h')" using Cons.prems Suc by (simp add: sortedBy_Cons)
    ultimately show ?thesis using Suc by auto
  qed
qed

lemma bsearchLoop_posBy:
  assumes "sortedBy k xs" "i \<le> posBy k v xs" "posBy k v xs \<le> j" "j \<le> length xs"
  shows "bsearchLoop k xs v i j = posBy k v xs"
  using assms
proof (induction k xs v i j rule: bsearchLoop.induct)
  case (1 k xs v i j)
  show ?case
  proof (cases "i < j")
    case True
    let ?h = "(i + j) div 2"
    have h: "?h < length xs" "i \<le> ?h" "?h < j" using True 1(6) by auto
    note iff = posBy_le_iff[OF 1(3) h(1), of v]
    show ?thesis
    proof (cases "k (xs ! ?h) < v")
      case True
      with 1 \<open>i < j\<close> iff show ?thesis by (simp add: bsearchLoop.simps[of k xs v i j] Let_def)
    next
      case False
      with 1 \<open>i < j\<close> iff h show ?thesis by (simp add: bsearchLoop.simps[of k xs v i j] Let_def)
    qed
  next
    case False
    with 1 show ?thesis by (simp add: bsearchLoop.simps[of k xs v i j])
  qed
qed

lemma binarySearch_eq:
  "sortedBy k xs \<Longrightarrow> binarySearch k xs v = (posBy k v xs, v \<in> k ` set xs)"
  by (simp add: binarySearch_def bsearchLoop_posBy posBy_le sortedBy_nth_posBy)

lemma sliceInsert_posBy:
  "sortedBy k xs \<Longrightarrow> sliceInsert xs (posBy k (k x) xs) x = insertBy k x xs"
  by (simp add: sliceInsert_def insertBy_def sortedBy_take_posBy sortedBy_drop_posBy)

lemma sliceDelete_posBy:
  assumes "sortedBy k xs" "v \<in> k ` set xs"
  shows "sliceDelete xs (posBy k v xs) = filter (\<lambda>x. k x \<noteq> v) xs"
proof -
  let ?i = "posBy k v xs"
  have i: "?i < length xs" "k (xs ! ?i) = v" using sortedBy_nth_posBy[OF assms(1)] assms(2) by auto
  have ge: "filter (\<lambda>x. v \<le> k x) xs = xs ! ?i # drop (Suc ?i) xs"
    using sortedBy_drop_posBy[OF assms(1), of v] i(1) by (simp add: Cons_nth_drop_Suc)
  have tl: "\<forall>y \<in> set (drop (Suc ?i) xs). k y \<noteq> v"
    using sortedBy_filter[OF assms(1), of "\<lambda>x. v \<le> k x"] i(2) ge by (auto simp: sortedBy_Cons)
  have "filter (\<lambda>x. k x \<noteq> v) xs = filter (\<lambda>x. k x \<noteq> v) (take ?i xs @ drop ?i xs)" by simp
  also have "\<dots> = take ?i xs @ filter (\<lambda>x. k x \<noteq> v) (xs ! ?i # drop (Suc ?i) xs)"
    using i(1) sortedBy_take_posBy[OF assms(1), of v]
    by (simp only: filter_append Cons_nth_drop_Suc) (auto intro: filter_cong)
  also have "\<dots> = sliceDelete xs ?i" using i(2) tl by (simp add: sliceDelete_def filter_id_conv)
  finally show ?thesis by simp
qed

section \<open>The abstract contents of the in-memory store\<close>

definition pairOf :: "entry \<Rightarrow> int \<times> blob" where
  "pairOf e = (enVersion e, enData e)"

definition memView :: "memory \<Rightarrow> contents" where
  "memView s = \<lparr>ctStreams = (\<lambda>sid. map pairOf (streamOf s sid)),
                ctReceipts = mReceipts s, ctDeliveries = mDeliveries s\<rparr>"

definition memInv :: "memory \<Rightarrow> bool" where
  "memInv s \<longleftrightarrow> (\<forall>sid. sortedBy enVersion (streamOf s sid))"

definition memTxInv :: "memory_tx \<Rightarrow> bool" where
  "memTxInv t \<longleftrightarrow> memInv (mtStore t) \<and> memInv (memRollback t)"

definition memTxView :: "memory_tx \<Rightarrow> contents" where
  "memTxView t = memView (mtStore t)"

definition memTxBase :: "memory_tx \<Rightarrow> contents" where
  "memTxBase t = memView (memRollback t)"

lemma inj_pairOf: "inj pairOf"
  by (rule injI) (simp add: pairOf_def)

lemma fst_pairOf [simp]: "fst (pairOf e) = enVersion e" and snd_pairOf [simp]: "snd (pairOf e) = enData e"
  by (simp_all add: pairOf_def)

lemma fst_comp_pairOf [simp]: "fst \<circ> pairOf = enVersion" "snd \<circ> pairOf = enData"
  by auto

lemma sortedBy_pairOf [simp]: "sortedBy fst (map pairOf es) = sortedBy enVersion es"
  by (simp add: sortedBy_def)

lemma memView_eq_iff:
  "memView s = memView s' \<longleftrightarrow>
     streamOf s = streamOf s' \<and> mReceipts s = mReceipts s' \<and> mDeliveries s = mDeliveries s'"
  by (simp add: memView_def fun_eq_iff inj_map_eq_map[OF inj_pairOf])

lemma memInv_view: "memView s = memView s' \<Longrightarrow> memInv s = memInv s'"
  by (simp add: memView_eq_iff memInv_def)

lemma streamOf_upd [simp]:
  "streamOf (s\<lparr>mStreams := (mStreams s)(sid \<mapsto> es)\<rparr>) = (streamOf s)(sid := es)"
  "streamOf (s\<lparr>mStreams := (mStreams s)(sid := None)\<rparr>) = (streamOf s)(sid := [])"
  "streamOf (s\<lparr>mReceipts := rs\<rparr>) = streamOf s"
  "streamOf (s\<lparr>mDeliveries := ds\<rparr>) = streamOf s"
  "streamOf (s\<lparr>mErrOn := eo\<rparr>) = streamOf s"
  by (auto simp: streamOf_def fun_eq_iff)

text \<open>An undo step depends on the abstract contents only, so rolling back does too.\<close>

lemma applyUndo_view: "memView s = memView s' \<Longrightarrow> memView (applyUndo u s) = memView (applyUndo u s')"
  by (cases u) (auto simp: memView_eq_iff removeEntry_def Let_def split: prod.splits)

lemma fold_applyUndo_view:
  "memView s = memView s' \<Longrightarrow> memView (fold applyUndo us s) = memView (fold applyUndo us s')"
proof (induction us arbitrary: s s')
  case (Cons u us)
  from Cons.IH[OF applyUndo_view[OF Cons.prems, of u]] show ?case by simp
qed simp

text \<open>
  The key step: if undoing the newest entry brings back the contents from before the
  operation, rolling back after the operation and before it agree.
\<close>

lemma rollback_snoc:
  assumes "memView (applyUndo u s') = memView s"
  shows "memView (memRollback \<lparr>mtStore = s', mtUndo = us @ [u]\<rparr>) =
         memView (memRollback \<lparr>mtStore = s, mtUndo = us\<rparr>)"
  using fold_applyUndo_view[OF assms, of "rev us"] by (simp add: memRollback_def)

lemma tx_update_base:
  assumes "memTxInv t" "memView (applyUndo u s') = memView (mtStore t)" "memInv s'"
  shows "memTxInv (t\<lparr>mtStore := s', mtUndo := mtUndo t @ [u]\<rparr>) \<and>
         memTxBase (t\<lparr>mtStore := s', mtUndo := mtUndo t @ [u]\<rparr>) = memTxBase t"
proof -
  have "memView (memRollback (t\<lparr>mtStore := s', mtUndo := mtUndo t @ [u]\<rparr>)) = memView (memRollback t)"
    using rollback_snoc[OF assms(2), of "mtUndo t"] by (cases t) (simp add: memRollback_def)
  with memInv_view[OF this] assms(1,3) show ?thesis by (simp add: memTxInv_def memTxBase_def)
qed

lemma tx_same_base:
  assumes "memTxInv t" "memView s' = memView (mtStore t)"
  shows "memTxInv (t\<lparr>mtStore := s'\<rparr>) \<and> memTxBase (t\<lparr>mtStore := s'\<rparr>) = memTxBase t"
proof -
  have "memView (memRollback (t\<lparr>mtStore := s'\<rparr>)) = memView (memRollback t)"
    using fold_applyUndo_view[OF assms(2), of "rev (mtUndo t)"] by (simp add: memRollback_def)
  with memInv_view[OF this] memInv_view[OF assms(2)] assms(1) show ?thesis
    by (simp add: memTxInv_def memTxBase_def)
qed

section \<open>The in-memory stores meet their contracts\<close>

lemma memView_insert:
  assumes "memInv s"
  shows "memView (s\<lparr>mStreams := (mStreams s)(sid \<mapsto>
           insertBy enVersion \<lparr>enVersion = v, enData = d\<rparr> (streamOf s sid))\<rparr>) =
         ctAppend sid v d (memView s)"
  by (simp add: memView_def ctAppend_def fun_eq_iff insertBy_def filter_map o_def pairOf_def)

lemma memAppend_spec:
  assumes t: "memTxInv t" and r: "memAppend c sid v d t = (r, t')"
  shows "memTxInv t' \<and> memTxBase t' = memTxBase t \<and>
    (if isOk r then v \<notin> versionsOf (memTxView t) sid \<and> memTxView t' = ctAppend sid v d (memTxView t)
     else memTxView t' = memTxView t)"
proof -
  let ?s = "mtStore t" and ?e = "\<lparr>enVersion = v, enData = d\<rparr>"
  let ?es = "streamOf ?s sid"
  have inv: "memInv ?s" using t by (simp add: memTxInv_def)
  then have so: "sortedBy enVersion ?es" by (simp add: memInv_def)
  note bs = binarySearch_eq[OF so, of v]
  consider (ctx) e where "ctxErr c = Some e" | (inj) e where "ctxErr c = None" "mErrOn ?s sid = Some e"
    | (dup) "ctxErr c = None" "mErrOn ?s sid = None" "v \<in> enVersion ` set ?es"
    | (new) "ctxErr c = None" "mErrOn ?s sid = None" "v \<notin> enVersion ` set ?es"
    by (cases "ctxErr c"; cases "mErrOn ?s sid") auto
  then show ?thesis
  proof cases
    case inj
    with r tx_same_base[OF t, of "?s\<lparr>mErrOn := (mErrOn ?s)(sid := None)\<rparr>"] show ?thesis
      by (auto simp: memAppend_def memView_eq_iff memTxView_def Let_def)
  next
    case new
    let ?s' = "?s\<lparr>mStreams := (mStreams ?s)(sid \<mapsto> insertBy enVersion ?e ?es)\<rparr>"
    have r': "r = Ok ()" "t' = t\<lparr>mtStore := ?s', mtUndo := mtUndo t @ [UndoAppend sid v]\<rparr>"
      using r new bs sliceInsert_posBy[OF so, of ?e] by (auto simp: memAppend_def Let_def)
    have so': "sortedBy enVersion (insertBy enVersion ?e ?es)"
      using sortedBy_insertBy[OF so] new by simp
    have "memView (removeEntry sid v ?s') = memView ?s"
      using binarySearch_eq[OF so', of v] sliceDelete_posBy[OF so', of v] new
        filter_insertBy[of enVersion ?e ?es] so
      by (auto simp: removeEntry_def memView_eq_iff set_insertBy)
    moreover have "memInv ?s'" using inv so' by (simp add: memInv_def)
    ultimately show ?thesis
      using tx_update_base[OF t, of "UndoAppend sid v" ?s'] r' new memView_insert[OF inv, of sid v d]
      by (simp add: memTxView_def versionsOf_def) (simp add: memView_def image_image)
  qed (use r t bs in \<open>auto simp: memAppend_def Let_def\<close>)
qed

lemma memDeleteStream_spec:
  assumes t: "memTxInv t" and r: "memDeleteStream c sid t = (r, t')"
  shows "memTxInv t' \<and> memTxBase t' = memTxBase t \<and>
    memTxView t' = (if isOk r then ctDeleteStream sid (memTxView t) else memTxView t)"
proof (cases "ctxErr c")
  case None
  let ?s = "mtStore t"
  let ?s' = "?s\<lparr>mStreams := (mStreams ?s)(sid := None)\<rparr>"
  have inv: "memInv ?s'" using t by (simp add: memTxInv_def memInv_def)
  have v: "memView ?s' = ctDeleteStream sid (memView ?s)"
    by (simp add: memView_def ctDeleteStream_def fun_eq_iff)
  show ?thesis
  proof (cases "mStreams ?s sid")
    case None
    then have "memView ?s' = memView ?s"
      by (simp add: memView_eq_iff fun_eq_iff) (simp add: streamOf_def)
    with None v r \<open>ctxErr c = None\<close> tx_same_base[OF t] show ?thesis
      by (auto simp: memDeleteStream_def memTxView_def Let_def)
  next
    case (Some old)
    then have "memView (applyUndo (UndoDeleteStream sid old) ?s') = memView ?s"
      by (simp add: memView_eq_iff fun_eq_iff) (simp add: streamOf_def)
    from tx_update_base[OF t this inv] Some v r \<open>ctxErr c = None\<close> show ?thesis
      by (auto simp: memDeleteStream_def memTxView_def Let_def)
  qed
qed (use t r in \<open>auto simp: memDeleteStream_def\<close>)

lemma memDeliveries_spec:
  assumes t: "memTxInv t"
  shows "let t' = t\<lparr>mtStore := (mtStore t)\<lparr>mDeliveries := ds\<rparr>,
                   mtUndo := mtUndo t @ [UndoDeliveries (mDeliveries (mtStore t))]\<rparr>
         in memTxInv t' \<and> memTxBase t' = memTxBase t \<and>
            memTxView t' = (memTxView t)\<lparr>ctDeliveries := ds\<rparr>"
proof -
  let ?s' = "(mtStore t)\<lparr>mDeliveries := ds\<rparr>"
  have "memView (applyUndo (UndoDeliveries (mDeliveries (mtStore t))) ?s') = memView (mtStore t)"
    by (simp add: memView_eq_iff)
  moreover have "memInv ?s'" using t by (simp add: memTxInv_def memInv_def)
  ultimately show ?thesis
    using tx_update_base[OF t] by (simp add: memTxView_def memView_def)
qed

lemma memDropDeliveries_spec:
  assumes t: "memTxInv t" and r: "memDropDeliveries c agg t = (r, t')"
  shows "memTxInv t' \<and> memTxBase t' = memTxBase t \<and>
    memTxView t' = (if isOk r then ctDropDeliveries agg (memTxView t) else memTxView t)"
  using memDeliveries_spec[OF t, of "filter (\<lambda>d. \<not> dAggregateID d = agg) (mDeliveries (mtStore t))"] t r
  by (cases "ctxErr c")
    (auto simp: memDropDeliveries_def ctDropDeliveries_def Let_def memTxView_def memView_def)

lemma memEnqueueDelivery_spec:
  assumes t: "memTxInv t" and r: "memEnqueueDelivery c agg v t = (r, t')"
  shows "memTxInv t' \<and> memTxBase t' = memTxBase t \<and>
    memTxView t' = (if isOk r then ctEnqueueDelivery agg v (memTxView t) else memTxView t)"
  using memDeliveries_spec[OF t, of "mDeliveries (mtStore t) @ [\<lparr>dAggregateID = agg, dVersion = v\<rparr>]"] t r
  by (cases "ctxErr c")
    (auto simp: memEnqueueDelivery_def ctEnqueueDelivery_def Let_def memTxView_def memView_def)

lemma memPutReceipt_spec:
  assumes t: "memTxInv t" and r: "memPutReceipt c cid rc t = (r, t')"
  shows "memTxInv t' \<and> memTxBase t' = memTxBase t \<and>
    memTxView t' = (if isOk r then ctPutReceipt cid rc (memTxView t) else memTxView t)"
proof (cases "ctxErr c = None \<and> mReceipts (mtStore t) cid = None")
  case True
  let ?s = "mtStore t"
  let ?s' = "?s\<lparr>mReceipts := (mReceipts ?s)(cid \<mapsto> rc)\<rparr>"
  have "memView (applyUndo (UndoPutReceipt cid) ?s') = memView ?s"
    using True by (auto simp: memView_eq_iff fun_eq_iff)
  moreover have "memInv ?s'" using t by (simp add: memTxInv_def memInv_def)
  moreover have "memView ?s' = ctPutReceipt cid rc (memView ?s)"
    by (simp add: memView_def ctPutReceipt_def)
  ultimately show ?thesis
    using tx_update_base[OF t] r True by (auto simp: memPutReceipt_def memTxView_def Let_def)
qed (use t r in \<open>auto simp: memPutReceipt_def Let_def split: option.splits\<close>)

lemma entriesFrom_eq:
  "memInv s \<Longrightarrow> entriesFrom sid v s = filter (\<lambda>e. v \<le> enVersion e) (streamOf s sid)"
  by (auto simp: entriesFrom_def memInv_def binarySearch_eq sortedBy_drop_posBy Let_def)

lemma toBlobs_eq:
  "memInv s \<Longrightarrow> toBlobs (entriesFrom sid v s) =
     map snd (filter (\<lambda>e. v \<le> fst e) (ctStreams (memView s) sid))"
  by (simp add: toBlobs_def entriesFrom_eq memView_def filter_map o_def)

lemma memReadRange_eq:
  assumes "memInv s" "memReadRange c sid v n s = Ok bs"
  shows "bs = take (nat n) (map snd (filter (\<lambda>e. v \<le> fst e) (ctStreams (memView s) sid)))"
proof -
  let ?es = "entriesFrom sid v s"
  have "bs = toBlobs (take (nat n) ?es)"
    using assms(2) by (auto simp: memReadRange_def Let_def split: option.splits if_splits)
  then show ?thesis by (simp only: toBlobs_eq[OF assms(1), symmetric] toBlobs_def take_map)
qed

lemma memoryStore_simps [simp]:
  "txAppend memoryStore = memAppend" "txDeleteStream memoryStore = memDeleteStream"
  "txDropDeliveries memoryStore = memDropDeliveries" "txPutReceipt memoryStore = memPutReceipt"
  "txEnqueueDelivery memoryStore = memEnqueueDelivery" "stReadFrom memoryStore = memReadFrom"
  "stReadRange memoryStore = memReadRange" "stGetReceipt memoryStore = memGetReceipt"
  "stPendingDeliveries memoryStore = memPendingDeliveries"
  "stAckDelivery memoryStore = memAckDelivery" "stBegin memoryStore = memBegin"
  "stCommit memoryStore = memCommit" "stRollback memoryStore = memRollback"
  by (simp_all add: memoryStore_def)

lemma snapshotMemory_simps [simp]:
  "snPut snapshotMemory = snapPut" "snGet snapshotMemory = snapGet" "snDelete snapshotMemory = snapDelete"
  by (simp_all add: snapshotMemory_def)

lemma memPending_eq:
  "memPendingDeliveries c n s = Ok ds \<Longrightarrow> ds = take (nat n) (ctDeliveries (memView s))"
  by (auto simp: memPendingDeliveries_def memView_def Let_def min_def split: option.splits if_splits)

lemma memAck_spec:
  "memInv s \<Longrightarrow> memAckDelivery c agg v s = (r, s') \<Longrightarrow>
     memInv s' \<and> memView s' = (if isOk r then ctAck agg v (memView s) else memView s)"
  by (auto simp: memAckDelivery_def memInv_def memView_def ctAck_def split: option.splits)

interpretation mem: store_contract memoryStore memView memTxView memTxBase memInv memTxInv
proof (standard, goal_cases)
  case (1 s sid)
  then show ?case by (simp add: memView_def memInv_def)
next
  case (2 s c t)
  then show ?case
    by (auto simp: memBegin_def memTxInv_def memTxView_def memTxBase_def memRollback_def
        split: option.splits)
next
  case (3 t s')
  then show ?case by (simp add: memCommit_def memTxInv_def memTxView_def)
next
  case (4 t e s')
  then show ?case by (simp add: memCommit_def)
next
  case (5 t)
  then show ?case by (simp add: memTxInv_def memTxBase_def)
next
  case (6 t c sid v d u t')
  from memAppend_spec[OF 6(1)] 6(2) show ?case by fastforce
next
  case (7 t c sid v d r t')
  from memAppend_spec[OF 7(1)] 7(2,3) show ?case by fastforce
next
  case (8 t c sid v d r t')
  from memAppend_spec[OF 8(1)] 8(2) show ?case by fastforce
next
  case (9 t c sid r t')
  from memDeleteStream_spec[OF 9(1)] 9(2) show ?case by simp
next
  case (10 t c agg r t')
  from memDropDeliveries_spec[OF 10(1)] 10(2) show ?case by simp
next
  case (11 t c cid rc r t')
  from memPutReceipt_spec[OF 11(1)] 11(2) show ?case by simp
next
  case (12 t cid c rc)
  then show ?case
    by (auto simp: memTxView_def memView_def memPutReceipt_def Let_def split: option.splits)
next
  case (13 t c agg v r t')
  from memEnqueueDelivery_spec[OF 13(1)] 13(2) show ?case by simp
next
  case (14 s c sid v bs)
  then show ?case by (simp add: memReadFrom_def toBlobs_eq split: option.splits)
next
  case (15 s c sid v n bs)
  then show ?case using memReadRange_eq by simp
next
  case (16 s c cid ro)
  then show ?case by (auto simp: memGetReceipt_def memView_def split: option.splits)
next
  case (17 s c n ds)
  then show ?case using memPending_eq by simp
next
  case (18 s c agg v r s')
  then show ?case using memAck_spec by simp
qed

interpretation snap: snapshot_contract snapshotMemory smSnaps
  by unfold_locales
    (auto simp: snapGet_def snapPut_def snapDelete_def split: option.splits if_splits)

end
