(* ===== verification/Recovery.thy ===== *)
theory Recovery
  imports Exec Memory_Store "HOL-Library.Char_ord" "HOL-Library.List_Lexorder"
begin

text \<open>
  \<^verbatim>\<open>internal/processor/processor_recovery.go\<close> and \<^verbatim>\<open>internal/processor/backlog_enqueuer.go\<close>: the
  scan of the delivery log in growing prefixes, the redelivery of an aggregate's backlog by one
  replay of its stream, \<open>Recover\<close> for a process that starts, and \<open>Paused\<close>, \<open>Inspect\<close> and
  \<open>Resume\<close> for parked aggregates. The operations are over any store and any dispatcher; as
  other goroutines run meanwhile, each read of the log may find another state of the store, and
  the dispatcher and the store may have moved on between two aggregates.
\<close>

section \<open>Scanning the delivery log\<close>

text \<open>
  The unseen entries of a prefix, and what has been seen after it: an entry is kept the first
  time only.
\<close>

fun unseenOf :: "delivery list \<Rightarrow> delivery set \<Rightarrow> delivery list \<times> delivery set" where
  "unseenOf [] seen = ([], seen)"
| "unseenOf (d # ds) seen =
     (let (rest, seen') = unseenOf ds (insert d seen)
      in (if d \<in> seen then rest else d # rest, seen'))"

definition visitUnseen ::
  "delivery list \<Rightarrow> delivery set \<Rightarrow> (delivery \<Rightarrow> 'x \<Rightarrow> goerr option \<times> 'x) \<Rightarrow> 'x
     \<Rightarrow> goerr option \<times> delivery set \<times> 'x" where
  "visitUnseen pending seen visit x =
     (let (unseen, seen') = unseenOf pending seen;
          (err, x') = firstError visit unseen x
      in (err, seen', x'))"

definition recoveryErr :: "goerr \<Rightarrow> goerr" where
  "recoveryErr e = Errorf [Lit ''asynx: recovery: '', Wrap e]"

text \<open>
  \<open>scanFrom\<close>: the recursion ends when a read returns less than it asked for. \<open>states k\<close> is the
  store at the \<open>k\<close>-th read. \<open>None\<close> is a recursion deeper than the fuel; the limit is an
  \<open>int\<close> and doubling it wraps around.
\<close>

fun scanFrom ::
  "nat \<Rightarrow> ('tx, 's) store_ops \<Rightarrow> ctx \<Rightarrow> (nat \<Rightarrow> 's) \<Rightarrow> nat \<Rightarrow> int \<Rightarrow> delivery set
     \<Rightarrow> (delivery \<Rightarrow> 'x \<Rightarrow> goerr option \<times> 'x) \<Rightarrow> 'x \<Rightarrow> (unit outcome \<times> 'x) option" where
  "scanFrom 0 S c states k limit seen visit x = None"
| "scanFrom (Suc fuel) S c states k limit seen visit x =
     (case stPendingDeliveries S c limit (states k) of
        Fail e \<Rightarrow> Some (Fail (recoveryErr e), x)
      | Panic p \<Rightarrow> Some (Panic p, x)
      | Ok pending \<Rightarrow>
          (case visitUnseen pending seen visit x of
             (Some e, seen', x') \<Rightarrow> Some (Fail (recoveryErr e), x')
           | (None, seen', x') \<Rightarrow>
               if int (length pending) < limit then Some (Ok (), x')
               else scanFrom fuel S c states (Suc k) (i64 (limit * 2)) seen' visit x'))"

definition scanPending ::
  "nat \<Rightarrow> ('tx, 's) store_ops \<Rightarrow> ctx \<Rightarrow> (nat \<Rightarrow> 's) \<Rightarrow> int
     \<Rightarrow> (delivery \<Rightarrow> 'x \<Rightarrow> goerr option \<times> 'x) \<Rightarrow> 'x \<Rightarrow> (unit outcome \<times> 'x) option" where
  "scanPending fuel S c states batch visit x = scanFrom fuel S c states 0 batch {} visit x"

text \<open>The entries by aggregate, and the aggregates by first appearance.\<close>

record backlogs =
  bkOf :: "string \<rightharpoonup> delivery list"
  bkOrder :: "string list"

definition noBacklogs :: backlogs where
  "noBacklogs = \<lparr>bkOf = Map.empty, bkOrder = []\<rparr>"

definition addDelivery :: "(string \<Rightarrow> bool) \<Rightarrow> delivery \<Rightarrow> backlogs \<Rightarrow> goerr option \<times> backlogs" where
  "addDelivery want d b =
     (let agg = dAggregateID d in
      if \<not> want agg then (None, b)
      else (let b1 = (if bkOf b agg = None then b\<lparr>bkOrder := bkOrder b @ [agg]\<rparr> else b);
                old = (case bkOf b agg of None \<Rightarrow> [] | Some ds \<Rightarrow> ds)
            in (None, b1\<lparr>bkOf := (bkOf b)(agg \<mapsto> old @ [d])\<rparr>)))"

definition pendingByAggregate ::
  "nat \<Rightarrow> ('tx, 's) store_ops \<Rightarrow> ctx \<Rightarrow> (nat \<Rightarrow> 's) \<Rightarrow> int \<Rightarrow> (string \<Rightarrow> bool)
     \<Rightarrow> (unit outcome \<times> backlogs) option" where
  "pendingByAggregate fuel S c states batch want =
     scanPending fuel S c states batch (addDelivery want) noBacklogs"

definition backlogOf :: "backlogs \<Rightarrow> string \<Rightarrow> delivery list" where
  "backlogOf b agg = (case bkOf b agg of None \<Rightarrow> [] | Some ds \<Rightarrow> ds)"

section \<open>Redelivery\<close>

text \<open>
  \<open>backlogEnqueuer\<close>: the dispatcher it enqueues on, the versions not found yet and the first
  error. A panic of the dispatcher ends the replay.
\<close>

record 'd backlog_enqueuer =
  beDisp :: 'd
  beVanished :: "int set"
  beErr :: "goerr option"
  bePanic :: "string option"

definition enqueueOne ::
  "('t, 'd) dispatcher_ops \<Rightarrow> ctx \<Rightarrow> string \<Rightarrow> 't event \<Rightarrow> 'd backlog_enqueuer \<Rightarrow> 'd backlog_enqueuer" where
  "enqueueOne D c agg evt e =
     (if bePanic e \<noteq> None \<or> evVersion evt \<notin> beVanished e \<or> beErr e \<noteq> None then e
      else case dpEnqueue D c \<lparr>rqEvent = evt, rqAck = Some (agg, evVersion evt), rqKind = DispatchRedelivery\<rparr>
                  (beDisp e) of
             (Ok _, d) \<Rightarrow> e\<lparr>beDisp := d, beVanished := beVanished e - {evVersion evt}\<rparr>
           | (Fail err, d) \<Rightarrow> e\<lparr>beDisp := d, beErr := Some err\<rparr>
           | (Panic p, d) \<Rightarrow> e\<lparr>beDisp := d, bePanic := Some p\<rparr>)"

definition okErr :: "'a outcome \<Rightarrow> goerr option" where
  "okErr r = (case r of Fail e \<Rightarrow> Some e | _ \<Rightarrow> None)"

text \<open>The versions that were not found, and the joined errors of the replay and the enqueuer.\<close>

definition enqueueBacklog ::
  "('tx, 's, 'p, 't, 'd) executor \<Rightarrow> ('t, 'd) dispatcher_ops \<Rightarrow> ctx \<Rightarrow> string \<Rightarrow> delivery list \<Rightarrow> 's \<Rightarrow> 'd
     \<Rightarrow> (int set \<times> goerr option) outcome \<times> 'd" where
  "enqueueBacklog x D c agg backlog s disp =
     (let versions = map dVersion backlog;
          (r, e) = replay (xEs x) c agg (fold min versions (hd versions)) (fold max versions (hd versions))
                     (enqueueOne D c agg) s
                     \<lparr>beDisp = disp, beVanished = set versions, beErr = None, bePanic = None\<rparr>
      in (case (bePanic e, r) of
            (Some p, _) \<Rightarrow> Panic p
          | (None, Panic p) \<Rightarrow> Panic p
          | (None, _) \<Rightarrow> Ok (beVanished e, errorsJoin [okErr r, beErr e]),
          beDisp e))"

fun ackVanished ::
  "('tx, 's) store_ops \<Rightarrow> ctx \<Rightarrow> string \<Rightarrow> int set \<Rightarrow> delivery list \<Rightarrow> 's \<Rightarrow> unit outcome \<times> 's" where
  "ackVanished S c agg vanished [] s = (Ok (), s)"
| "ackVanished S c agg vanished (d # ds) s =
     (if dVersion d \<notin> vanished then ackVanished S c agg vanished ds s
      else case stAckDelivery S c agg (dVersion d) s of
             (Ok _, s') \<Rightarrow> ackVanished S c agg vanished ds s'
           | (r, s') \<Rightarrow> (r, s'))"

text \<open>
  \<open>redeliver\<close>: the versions not enqueued, ascending, and the error. The recovery works on the
  executor's state and on the reports to the publish error handler.
\<close>

record ('s, 'p, 't, 'd) recovery_state = "('s, 'p, 't, 'd) exec_state" +
  rvReports :: "(string \<times> int \<times> goerr) list"

definition setStore :: "'s \<Rightarrow> ('s, 'p, 't, 'd) recovery_state \<Rightarrow> ('s, 'p, 't, 'd) recovery_state" where
  "setStore s st = st\<lparr>xDb := (xDb st)\<lparr>dbStore := s\<rparr>\<rparr>"

definition redeliver ::
  "('tx, 's, 'p, 't, 'd) executor \<Rightarrow> ('t, 'd) dispatcher_ops \<Rightarrow> ctx \<Rightarrow> string \<Rightarrow> delivery list
     \<Rightarrow> ('s, 'p, 't, 'd) recovery_state \<Rightarrow> (int list \<times> goerr option) outcome \<times> ('s, 'p, 't, 'd) recovery_state" where
  "redeliver x D c agg backlog st =
     (if backlog = [] then (Ok ([], None), st)
      else case enqueueBacklog x D c agg backlog (dbStore (xDb st)) (xDisp st) of
             (Panic p, d) \<Rightarrow> (Panic p, st\<lparr>xDisp := d\<rparr>)
           | (Fail e, d) \<Rightarrow> (Fail e, st\<lparr>xDisp := d\<rparr>)
           | (Ok (vanished, Some err), d) \<Rightarrow> (Ok (sorted_list_of_set vanished, Some err), st\<lparr>xDisp := d\<rparr>)
           | (Ok (vanished, None), d) \<Rightarrow>
               (case ackVanished (esStore (xEs x)) c agg vanished backlog (dbStore (xDb st)) of
                  (Panic p, s') \<Rightarrow> (Panic p, setStore s' (st\<lparr>xDisp := d\<rparr>))
                | (r, s') \<Rightarrow> (Ok ([], okErr r), setStore s' (st\<lparr>xDisp := d\<rparr>))))"

section \<open>Recover\<close>

definition recoveryMustStop :: "goerr option \<Rightarrow> goerr \<Rightarrow> bool" where
  "recoveryMustStop cerr e \<longleftrightarrow> cerr \<noteq> None \<or> errorsIs e ErrDispatcherClosed"

definition reportPublishError ::
  "bool \<Rightarrow> string \<Rightarrow> int \<Rightarrow> goerr \<Rightarrow> ('s, 'p, 't, 'd) recovery_state \<Rightarrow> ('s, 'p, 't, 'd) recovery_state" where
  "reportPublishError handler agg v e st =
     (if \<not> handler then st else st\<lparr>rvReports := rvReports st @ [(agg, v, e)]\<rparr>)"

text \<open>\<open>cerr\<close> is what \<open>ctx.Err\<close> answers once the redelivery has failed.\<close>

definition recoverAggregate ::
  "('tx, 's, 'p, 't, 'd) executor \<Rightarrow> ('t, 'd) dispatcher_ops \<Rightarrow> bool \<Rightarrow> ctx \<Rightarrow> goerr option \<Rightarrow> string
     \<Rightarrow> delivery list \<Rightarrow> ('s, 'p, 't, 'd) recovery_state
     \<Rightarrow> goerr option outcome \<times> ('s, 'p, 't, 'd) recovery_state" where
  "recoverAggregate x D handler c cerr agg backlog st =
     (case redeliver x D c agg backlog st of
        (Panic p, st') \<Rightarrow> (Panic p, st')
      | (Fail e, st') \<Rightarrow> (Fail e, st')
      | (Ok (undelivered, None), st') \<Rightarrow> (Ok None, st')
      | (Ok (undelivered, Some err), st') \<Rightarrow>
          if recoveryMustStop cerr err then (Ok (Some (recoveryErr err)), st')
          else (Ok None,
                reportPublishError handler agg (dVersion (hd backlog))
                  (Errorf [Lit ''recovery: '', Wrap err])
                  (st'\<lparr>xDisp := dpPark D agg (Some err) undelivered (xDisp st')\<rparr>)))"

text \<open>What other goroutines did before the next aggregate, and what the context says after it.\<close>

record ('s, 'p, 't, 'd) meanwhile =
  mwOthers :: "string \<Rightarrow> ('s, 'p, 't, 'd) recovery_state \<Rightarrow> ('s, 'p, 't, 'd) recovery_state"
  mwCtxErr :: "string \<Rightarrow> goerr option"

fun recoverAll ::
  "('tx, 's, 'p, 't, 'd) executor \<Rightarrow> ('t, 'd) dispatcher_ops \<Rightarrow> bool \<Rightarrow> ctx \<Rightarrow> ('s, 'p, 't, 'd) meanwhile
     \<Rightarrow> backlogs \<Rightarrow> string list \<Rightarrow> ('s, 'p, 't, 'd) recovery_state
     \<Rightarrow> goerr option outcome \<times> ('s, 'p, 't, 'd) recovery_state" where
  "recoverAll x D handler c mw b [] st = (Ok None, st)"
| "recoverAll x D handler c mw b (agg # aggs) st =
     (case recoverAggregate x D handler c (mwCtxErr mw agg) agg (backlogOf b agg) (mwOthers mw agg st) of
        (Ok None, st') \<Rightarrow> recoverAll x D handler c mw b aggs st'
      | (r, st') \<Rightarrow> (r, st'))"

definition recoverProc ::
  "nat \<Rightarrow> ('tx, 's, 'p, 't, 'd) executor \<Rightarrow> bool \<Rightarrow> ctx \<Rightarrow> (nat \<Rightarrow> 's) \<Rightarrow> ('s, 'p, 't, 'd) meanwhile \<Rightarrow> int
     \<Rightarrow> ('s, 'p, 't, 'd) recovery_state \<Rightarrow> (goerr option outcome \<times> ('s, 'p, 't, 'd) recovery_state) option" where
  "recoverProc fuel x handler c states mw batch st =
     (case xDispatcher x of
        None \<Rightarrow> Some (Ok None, st)
      | Some D \<Rightarrow>
          (case pendingByAggregate fuel (esStore (xEs x)) c states (if batch \<le> 0 then 100 else batch) (\<lambda>_. True) of
             None \<Rightarrow> None
           | Some (Panic p, b) \<Rightarrow> Some (Panic p, st)
           | Some (Fail e, b) \<Rightarrow> Some (Ok (Some e), st)
           | Some (Ok _, b) \<Rightarrow> Some (recoverAll x D handler c mw b (bkOrder b) st)))"

section \<open>Resume\<close>

definition paused :: "('tx, 's, 'p, 't, 'd) executor \<Rightarrow> 'd \<Rightarrow> string list" where
  "paused x d = (case xDispatcher x of None \<Rightarrow> [] | Some D \<Rightarrow> sort (map fst (dpParks D d)))"

definition inspect :: "('tx, 's, 'p, 't, 'd) executor \<Rightarrow> string \<Rightarrow> 'd \<Rightarrow> delivery_status" where
  "inspect x agg d =
     (case xDispatcher x of
        None \<Rightarrow> \<lparr>dsParked = False, dsGeneration = 0, dsCause = None, dsUndelivered = []\<rparr>
      | Some D \<Rightarrow> dpInspect D agg d)"

definition withUndelivered :: "string \<Rightarrow> delivery list \<Rightarrow> int list \<Rightarrow> delivery list" where
  "withUndelivered agg scanned undelivered =
     scanned @ map (\<lambda>v. \<lparr>dAggregateID = agg, dVersion = v\<rparr>) undelivered"

text \<open>\<open>slices.BinarySearch\<close> on the remaining versions, which are ascending.\<close>

definition stillUndelivered :: "int list \<Rightarrow> int list \<Rightarrow> int list" where
  "stillUndelivered undelivered remaining =
     filter (\<lambda>v. snd (binarySearch (\<lambda>x. x) remaining v)) undelivered"

text \<open>\<open>WithLock\<close>: what \<open>Lock\<close> answered is an argument.\<close>

definition withLock :: "goerr option \<Rightarrow> ('st \<Rightarrow> goerr option outcome \<times> 'st) \<Rightarrow> 'st \<Rightarrow> goerr option outcome \<times> 'st" where
  "withLock lockErr fn st =
     (case lockErr of
        Some e \<Rightarrow> (Ok (Some (wrapErr ErrContextCancelled e)), st)
      | None \<Rightarrow> fn st)"

definition resumeAggregate ::
  "('tx, 's, 'p, 't, 'd) executor \<Rightarrow> ('t, 'd) dispatcher_ops \<Rightarrow> ctx \<Rightarrow> goerr option \<Rightarrow> string \<Rightarrow> 64 word
     \<Rightarrow> delivery list \<Rightarrow> ('s, 'p, 't, 'd) recovery_state
     \<Rightarrow> goerr option outcome \<times> ('s, 'p, 't, 'd) recovery_state" where
  "resumeAggregate x D c lockErr agg park scanned =
     withLock lockErr (\<lambda>st.
       case dpResumeUndelivered D agg park (xDisp st) of
         ((lifted, undelivered), d) \<Rightarrow>
           (let st1 = st\<lparr>xDisp := d\<rparr> in
            if \<not> lifted then (Ok None, st1)
            else case redeliver x D c agg (withUndelivered agg scanned undelivered) st1 of
                   (Panic p, st2) \<Rightarrow> (Panic p, st2)
                 | (Fail e, st2) \<Rightarrow> (Fail e, st2)
                 | (Ok (remaining, None), st2) \<Rightarrow> (Ok None, st2)
                 | (Ok (remaining, Some err), st2) \<Rightarrow>
                     (Ok (Some (Errorf [Lit ''asynx: resume '', Lit agg, Lit '': '', Wrap err])),
                      st2\<lparr>xDisp := dpPark D agg (Some err) (stillUndelivered undelivered remaining) (xDisp st2)\<rparr>)))"

text \<open>The loop of \<open>Resume\<close>: it stops after the aggregate at which the context is found done.\<close>

fun resumeAll ::
  "('tx, 's, 'p, 't, 'd) executor \<Rightarrow> ('t, 'd) dispatcher_ops \<Rightarrow> ctx \<Rightarrow> ('s, 'p, 't, 'd) meanwhile
     \<Rightarrow> (string \<Rightarrow> goerr option) \<Rightarrow> (string \<Rightarrow> 64 word option) \<Rightarrow> backlogs \<Rightarrow> string list
     \<Rightarrow> ('s, 'p, 't, 'd) recovery_state \<Rightarrow> goerr option list outcome \<times> ('s, 'p, 't, 'd) recovery_state" where
  "resumeAll x D c mw lockErrs parks b [] st = (Ok [], st)"
| "resumeAll x D c mw lockErrs parks b (agg # aggs) st =
     (case resumeAggregate x D c (lockErrs agg) agg (case parks agg of None \<Rightarrow> 0 | Some g \<Rightarrow> g)
             (backlogOf b agg) (mwOthers mw agg st) of
        (Panic p, st') \<Rightarrow> (Panic p, st')
      | (Fail e, st') \<Rightarrow> (Fail e, st')
      | (Ok err, st') \<Rightarrow>
          if mwCtxErr mw agg \<noteq> None then (Ok [err], st')
          else (case resumeAll x D c mw lockErrs parks b aggs st' of
                  (Ok errs, st'') \<Rightarrow> (Ok (err # errs), st'')
                | (r, st'') \<Rightarrow> (r, st'')))"

definition resume ::
  "nat \<Rightarrow> ('tx, 's, 'p, 't, 'd) executor \<Rightarrow> ctx \<Rightarrow> (nat \<Rightarrow> 's) \<Rightarrow> ('s, 'p, 't, 'd) meanwhile
     \<Rightarrow> (string \<Rightarrow> goerr option) \<Rightarrow> int \<Rightarrow> ('s, 'p, 't, 'd) recovery_state
     \<Rightarrow> (goerr option outcome \<times> ('s, 'p, 't, 'd) recovery_state) option" where
  "resume fuel x c states mw lockErrs batch st =
     (case xDispatcher x of
        None \<Rightarrow> Some (Ok None, st)
      | Some D \<Rightarrow>
          (let parks = dpParks D (xDisp st);
               halted = sort (map fst parks)
           in if halted = [] then Some (Ok None, st)
              else case pendingByAggregate fuel (esStore (xEs x)) c states (if batch \<le> 0 then 100 else batch)
                          (\<lambda>agg. agg \<in> set halted) of
                     None \<Rightarrow> None
                   | Some (Panic p, b) \<Rightarrow> Some (Panic p, st)
                   | Some (Fail e, b) \<Rightarrow> Some (Ok (Some e), st)
                   | Some (Ok _, b) \<Rightarrow>
                       Some (case resumeAll x D c mw lockErrs (map_of parks) b halted st of
                               (Ok errs, st') \<Rightarrow> (Ok (errorsJoin errs), st')
                             | (Fail e, st') \<Rightarrow> (Fail e, st')
                             | (Panic p, st') \<Rightarrow> (Panic p, st'))))"

end
