(* ===== verification/Registry.thy ===== *)
theory Registry
  imports Dispatcher_Interface "HOL-Library.AList"
begin

text \<open>
  \<^verbatim>\<open>internal/bus/dispatcher\<close> with its \<^verbatim>\<open>internal/aggregates\<close> (the registry of queues and
  parks), \<^verbatim>\<open>internal/jobs\<close> and \<^verbatim>\<open>internal/tracker\<close>: the state the in-memory dispatcher keeps
  under its one mutex, and every operation on it as one state transformer, which is what
  holding the mutex throughout makes it. Definitions only; \<open>Registry_Correct\<close> has their theory.

  Jobs and channels live in heaps and are passed by identity, as the pointers and channels of
  the source are. Closing a channel that is closed already panics in Go; the model records it
  in \<open>dFault\<close>, so that never doing so is a theorem.
\<close>

section \<open>State\<close>

text \<open>
  \<open>dispatchJob\<close>: \<open>jDone\<close> and \<open>jFinal\<close> say whether the two channels are closed (each
  \<open>sync.Once\<close> closes one), \<open>jTracked\<close> whether the tracker has set its completion callback.
\<close>

record 't job =
  jEvent :: "'t event"
  jCtx :: ctx
  jAck :: ack
  jForget :: bool
  jSkipLive :: bool
  jDone :: bool
  jUnrun :: "goerr option"
  jFinal :: bool
  jErr :: "goerr option"
  jCancelled :: bool
  jTracked :: bool

type_synonym job_id = nat
type_synonym chan = nat

text \<open>
  One aggregate's record. The wake channel has capacity 1 and belongs to the record's current
  worker: what is kept is whether it holds a signal. The undelivered versions are a Go map.
\<close>

record agg_record =
  rcJobs :: "job_id list"
  rcWorker :: bool
  rcWake :: bool
  rcHalt :: chan
  rcParked :: bool
  rcGeneration :: "64 word"
  rcCause :: "goerr option"
  rcUndelivered :: "(int \<times> goerr) list"

record 't disp =
  dRecords :: "(string \<times> agg_record) list"
  dGeneration :: "64 word"
  dClosed :: bool
  dJobs :: "job_id \<Rightarrow> 't job option"
  dNextJob :: job_id
  dClosedChans :: "chan set"
  dNextChan :: chan
  dInflight :: "job_id set"
  dTickets :: "((string \<times> int) \<times> job_id) list"
  dSpawned :: "string list"
  dStopped :: bool
  dQuit :: bool
  dBaseCancelled :: bool
  dFault :: bool

definition newDispatcher :: "'t disp" where
  "newDispatcher =
     \<lparr>dRecords = [], dGeneration = 0, dClosed = False, dJobs = Map.empty, dNextJob = 0,
      dClosedChans = {}, dNextChan = 0, dInflight = {}, dTickets = [], dSpawned = [],
      dStopped = False, dQuit = False, dBaseCancelled = False, dFault = False\<rparr>"

section \<open>Channels, records and jobs\<close>

definition getRec :: "string \<Rightarrow> 't disp \<Rightarrow> agg_record option" where
  "getRec agg d = map_of (dRecords d) agg"

definition putRec :: "string \<Rightarrow> agg_record \<Rightarrow> 't disp \<Rightarrow> 't disp" where
  "putRec agg rec d = d\<lparr>dRecords := AList.update agg rec (dRecords d)\<rparr>"

definition delRec :: "string \<Rightarrow> 't disp \<Rightarrow> 't disp" where
  "delRec agg d = d\<lparr>dRecords := AList.delete agg (dRecords d)\<rparr>"

definition makeChan :: "'t disp \<Rightarrow> chan \<times> 't disp" where
  "makeChan d = (dNextChan d, d\<lparr>dNextChan := Suc (dNextChan d)\<rparr>)"

definition closeChan :: "chan \<Rightarrow> 't disp \<Rightarrow> 't disp" where
  "closeChan ch d =
     (if ch \<in> dClosedChans d then d\<lparr>dFault := True\<rparr>
      else d\<lparr>dClosedChans := insert ch (dClosedChans d)\<rparr>)"

definition isClosedChan :: "chan \<Rightarrow> 't disp \<Rightarrow> bool" where
  "isClosedChan ch d \<longleftrightarrow> ch \<in> dClosedChans d"

definition isForget :: "'t dispatch_request \<Rightarrow> bool" where
  "isForget rq \<longleftrightarrow>
     (if rqKind rq = DispatchTombstone then True
      else rqKind rq = DispatchRedelivery \<and> evEventName (rqEvent rq) = forgetEventName)"

definition jobNew :: "ctx \<Rightarrow> 't dispatch_request \<Rightarrow> 't job" where
  "jobNew c rq =
     \<lparr>jEvent = rqEvent rq, jCtx = c, jAck = rqAck rq, jForget = isForget rq,
      jSkipLive = (rqKind rq = DispatchRedelivery), jDone = False, jUnrun = None,
      jFinal = False, jErr = None, jCancelled = False, jTracked = False\<rparr>"

definition jobAgg :: "'t job \<Rightarrow> string" where
  "jobAgg j = evAggregateID (jEvent j)"

definition jobVersion :: "'t job \<Rightarrow> int" where
  "jobVersion j = evVersion (jEvent j)"

definition jobAcked :: "'t job \<Rightarrow> bool" where
  "jobAcked j \<longleftrightarrow> jAck j \<noteq> None"

definition jobDurable :: "'t job \<Rightarrow> bool" where
  "jobDurable j \<longleftrightarrow> jAck j \<noteq> None \<or> jForget j"

definition setJob :: "job_id \<Rightarrow> 't job \<Rightarrow> 't disp \<Rightarrow> 't disp" where
  "setJob i j d = d\<lparr>dJobs := (dJobs d)(i \<mapsto> j)\<rparr>"

definition acked :: "job_id \<Rightarrow> 't disp \<Rightarrow> bool" where
  "acked i d = (case dJobs d i of None \<Rightarrow> False | Some j \<Rightarrow> jobAcked j)"

definition versionOf :: "job_id \<Rightarrow> 't disp \<Rightarrow> int" where
  "versionOf i d = (case dJobs d i of None \<Rightarrow> 0 | Some j \<Rightarrow> jobVersion j)"

text \<open>The two idempotent transitions of a job; a second one is a no-op.\<close>

definition markSettled :: "job_id \<Rightarrow> 't disp \<Rightarrow> 't disp" where
  "markSettled i d =
     (case dJobs d i of
        None \<Rightarrow> d
      | Some j \<Rightarrow> if jDone j then d else setJob i (j\<lparr>jDone := True\<rparr>) d)"

definition markUnrun :: "job_id \<Rightarrow> goerr \<Rightarrow> 't disp \<Rightarrow> 't disp" where
  "markUnrun i e d =
     (case dJobs d i of
        None \<Rightarrow> d
      | Some j \<Rightarrow> if jDone j then d else setJob i (j\<lparr>jDone := True, jUnrun := Some e\<rparr>) d)"

text \<open>The tracker's completion callback: the job leaves, and never the job that replaced it.\<close>

definition untrack :: "job_id \<Rightarrow> 't job \<Rightarrow> 't disp \<Rightarrow> 't disp" where
  "untrack i j d =
     (let key = (jobAgg j, jobVersion j);
          d' = d\<lparr>dInflight := dInflight d - {i}\<rparr>
      in if map_of (dTickets d') key = Some i then d'\<lparr>dTickets := AList.delete key (dTickets d')\<rparr> else d')"

definition complete :: "job_id \<Rightarrow> goerr option \<Rightarrow> 't disp \<Rightarrow> 't disp" where
  "complete i e d =
     (case dJobs d i of
        None \<Rightarrow> d
      | Some j \<Rightarrow>
          if jFinal j then d
          else (let d' = setJob i (j\<lparr>jErr := e, jCancelled := True, jFinal := True\<rparr>) d
                in if jTracked j then untrack i j d' else d'))"

definition track :: "job_id \<Rightarrow> 't disp \<Rightarrow> 't disp" where
  "track i d =
     (case dJobs d i of
        None \<Rightarrow> d
      | Some j \<Rightarrow>
          (setJob i (j\<lparr>jTracked := True\<rparr>) d)
            \<lparr>dInflight := insert i (dInflight d),
             dTickets := AList.update (jobAgg j, jobVersion j) i (dTickets d)\<rparr>)"

definition trackerFor :: "string \<Rightarrow> int \<Rightarrow> 't disp \<Rightarrow> job_id option" where
  "trackerFor agg v d = map_of (dTickets d) (agg, v)"

section \<open>The registry\<close>

definition parkedErr :: goerr where
  "parkedErr = Sentinel ErrDeliveryParked"

definition recordOf :: "string \<Rightarrow> 't disp \<Rightarrow> agg_record \<times> 't disp" where
  "recordOf agg d =
     (case getRec agg d of
        Some rec \<Rightarrow> (rec, d)
      | None \<Rightarrow>
          (let (ch, d1) = makeChan d;
               rec = \<lparr>rcJobs = [], rcWorker = False, rcWake = False, rcHalt = ch, rcParked = False,
                      rcGeneration = 0, rcCause = None, rcUndelivered = []\<rparr>
           in (rec, putRec agg rec d1)))"

definition markParkedUnrun :: "string \<Rightarrow> job_id \<Rightarrow> 't disp \<Rightarrow> 't disp" where
  "markParkedUnrun agg i d =
     (let d1 = markUnrun i parkedErr d in
      case getRec agg d1 of
        None \<Rightarrow> d1
      | Some rec \<Rightarrow> putRec agg (rec\<lparr>rcUndelivered := AList.update (versionOf i d) parkedErr (rcUndelivered rec)\<rparr>) d1)"

definition discardIfEmpty :: "string \<Rightarrow> 't disp \<Rightarrow> 't disp" where
  "discardIfEmpty agg d =
     (case getRec agg d of
        None \<Rightarrow> d
      | Some rec \<Rightarrow>
          if rcWorker rec \<or> length (rcJobs rec) > 0 \<or> rcParked rec \<or> length (rcUndelivered rec) > 0 then d
          else delRec agg d)"

text \<open>\<open>keepLive\<close>, over the queue: what carries an \<open>Ack\<close> leaves it, recorded and completed.\<close>

definition keepLive :: "string \<Rightarrow> job_id \<Rightarrow> job_id list \<times> 't disp \<Rightarrow> job_id list \<times> 't disp" where
  "keepLive agg i kd =
     (case kd of (kept, d) \<Rightarrow>
        if \<not> acked i d then (kept @ [i], d)
        else (kept, complete i (Some parkedErr) (markParkedUnrun agg i d)))"

definition regPark :: "string \<Rightarrow> goerr option \<Rightarrow> 't disp \<Rightarrow> 't disp" where
  "regPark agg cause d =
     (let (rec0, d1) = recordOf agg d;
          rec = (if rcCause rec0 = None then rec0\<lparr>rcCause := cause\<rparr> else rec0)
      in if rcParked rec then putRec agg rec d1
         else let gen = dGeneration d1 + 1;
                  rec' = rec\<lparr>rcParked := True, rcGeneration := gen\<rparr>;
                  d2 = closeChan (rcHalt rec') ((putRec agg rec' d1)\<lparr>dGeneration := gen\<rparr>);
                  (kept, d3) = fold (keepLive agg) (rcJobs rec') ([], d2)
              in case getRec agg d3 of
                   None \<Rightarrow> d3
                 | Some rec3 \<Rightarrow> putRec agg (rec3\<lparr>rcJobs := kept\<rparr>) d3)"

definition regLift :: "string \<Rightarrow> 't disp \<Rightarrow> 't disp" where
  "regLift agg d =
     (case getRec agg d of
        None \<Rightarrow> d
      | Some rec \<Rightarrow>
          (let (ch, d1) = makeChan d
           in discardIfEmpty agg
                (putRec agg (rec\<lparr>rcParked := False, rcGeneration := 0, rcCause := None,
                                 rcUndelivered := [], rcHalt := ch\<rparr>) d1)))"

text \<open>\<open>ensureWorker\<close>: fresh channels for a fresh worker, which the \<open>Spawn\<close> hook starts.\<close>

definition ensureWorker :: "string \<Rightarrow> agg_record \<Rightarrow> 't disp \<Rightarrow> bool \<times> 't disp" where
  "ensureWorker agg rec d =
     (if rcWorker rec then (False, d)
      else let (ch, d1) = makeChan d
           in (True, (putRec agg (rec\<lparr>rcWorker := True, rcWake := False, rcHalt := ch\<rparr>) d1)
                       \<lparr>dSpawned := agg # dSpawned d1\<rparr>))"

record admission =
  adSpawned :: bool
  adParked :: bool

definition regEnqueueLocked :: "job_id \<Rightarrow> 't disp \<Rightarrow> admission outcome \<times> 't disp" where
  "regEnqueueLocked i d =
     (if dClosed d then (Fail (Sentinel ErrDispatcherClosed), d)
      else case dJobs d i of
             None \<Rightarrow> (Panic ''nil job'', d)
           | Some job \<Rightarrow>
               (let agg = jobAgg job;
                    parked = (case getRec agg d of None \<Rightarrow> False | Some rec \<Rightarrow> rcParked rec)
                in if parked \<and> jobAcked job
                   then (Ok \<lparr>adSpawned = False, adParked = True\<rparr>, markParkedUnrun agg i d)
                   else let (rec, d1) = recordOf agg d;
                            (spawned, d2) = ensureWorker agg rec d1;
                            d3 = track i d2
                        in (Ok \<lparr>adSpawned = spawned, adParked = False\<rparr>,
                            case getRec agg d3 of
                              None \<Rightarrow> d3
                            | Some rec3 \<Rightarrow> putRec agg (rec3\<lparr>rcJobs := rcJobs rec3 @ [i], rcWake := True\<rparr>) d3)))"

text \<open>
  \<open>Complete\<close> of a refused job comes after the critical section, but touches only a job that no other
  goroutine has yet, so the two are one step.
\<close>

definition regEnqueue :: "job_id \<Rightarrow> 't disp \<Rightarrow> admission outcome \<times> 't disp" where
  "regEnqueue i d =
     (case regEnqueueLocked i d of
        (Ok ad, d') \<Rightarrow> (Ok ad, if adParked ad then complete i (Some parkedErr) d' else d')
      | (Fail e, d') \<Rightarrow> (Fail e, d')
      | (Panic p, d') \<Rightarrow> (Panic p, d'))"

definition regPop :: "string \<Rightarrow> 't disp \<Rightarrow> (job_id \<times> chan) option \<times> 't disp" where
  "regPop agg d =
     (case getRec agg d of
        None \<Rightarrow> (None, d)
      | Some rec \<Rightarrow>
          (case rcJobs rec of
             [] \<Rightarrow> (None, d)
           | i # is \<Rightarrow> (Some (i, rcHalt rec), putRec agg (rec\<lparr>rcJobs := is\<rparr>) d)))"

definition regRetire :: "string \<Rightarrow> 't disp \<Rightarrow> bool \<times> 't disp" where
  "regRetire agg d =
     (case getRec agg d of
        None \<Rightarrow> (True, d)
      | Some rec \<Rightarrow>
          if length (rcJobs rec) > 0 then (False, d)
          else (True, discardIfEmpty agg (putRec agg (rec\<lparr>rcWorker := False\<rparr>) d)))"

definition regParkVersions :: "string \<Rightarrow> goerr option \<Rightarrow> int list \<Rightarrow> 't disp \<Rightarrow> 't disp" where
  "regParkVersions agg cause undelivered d =
     (let d1 = regPark agg cause d in
      case getRec agg d1 of
        None \<Rightarrow> d1
      | Some rec \<Rightarrow>
          putRec agg (rec\<lparr>rcUndelivered :=
            fold (\<lambda>v m. AList.update v parkedErr m) undelivered (rcUndelivered rec)\<rparr>) d1)"

definition regParkIfCurrent :: "string \<Rightarrow> chan \<Rightarrow> bool \<Rightarrow> goerr option \<Rightarrow> 't disp \<Rightarrow> bool \<times> 't disp" where
  "regParkIfCurrent agg halt durable cause d =
     (if \<not> durable then (False, d)
      else if isClosedChan halt d then (False, d)
      else (True, regPark agg cause d))"

definition regSettleIfParked :: "string \<Rightarrow> chan \<Rightarrow> job_id \<Rightarrow> 't disp \<Rightarrow> bool \<times> 't disp" where
  "regSettleIfParked agg halt i d =
     (if (case getRec agg d of None \<Rightarrow> False | Some rec \<Rightarrow> rcParked rec)
      then (True, markParkedUnrun agg i d)
      else if \<not> isClosedChan halt d then (False, d)
      else (True, markUnrun i parkedErr d))"

definition undeliveredOf :: "agg_record \<Rightarrow> int list" where
  "undeliveredOf rec = sort (map fst (rcUndelivered rec))"

definition regLiftGeneration :: "string \<Rightarrow> 64 word \<Rightarrow> 't disp \<Rightarrow> (bool \<times> int list) \<times> 't disp" where
  "regLiftGeneration agg gen d =
     (case getRec agg d of
        None \<Rightarrow> ((False, []), d)
      | Some rec \<Rightarrow>
          if \<not> (rcParked rec \<and> rcGeneration rec = gen) then ((False, []), d)
          else ((True, undeliveredOf rec), regLift agg d))"

definition regSupersede :: "string \<Rightarrow> 't disp \<Rightarrow> 't disp" where
  "regSupersede agg d = regLift agg (regPark agg None d)"

definition regParks :: "'t disp \<Rightarrow> (string \<times> 64 word) list" where
  "regParks d = List.map_filter (\<lambda>(agg, rec). if rcParked rec then Some (agg, rcGeneration rec) else None) (dRecords d)"

definition zeroStatus :: delivery_status where
  "zeroStatus = \<lparr>dsParked = False, dsGeneration = 0, dsCause = None, dsUndelivered = []\<rparr>"

definition regInspect :: "string \<Rightarrow> 't disp \<Rightarrow> delivery_status" where
  "regInspect agg d =
     (case getRec agg d of
        None \<Rightarrow> zeroStatus
      | Some rec \<Rightarrow>
          if \<not> rcParked rec then zeroStatus
          else \<lparr>dsParked = True, dsGeneration = rcGeneration rec, dsCause = rcCause rec,
                dsUndelivered = undeliveredOf rec\<rparr>)"

definition regUnrun :: "string \<Rightarrow> int \<Rightarrow> 't disp \<Rightarrow> goerr option" where
  "regUnrun agg v d =
     (case getRec agg d of None \<Rightarrow> None | Some rec \<Rightarrow> map_of (rcUndelivered rec) v)"

definition regClose :: "'t disp \<Rightarrow> bool \<times> 't disp" where
  "regClose d = (\<not> dClosed d, d\<lparr>dClosed := True\<rparr>)"

section \<open>The dispatcher\<close>

text \<open>
  \<open>newJob\<close> allocates; the job's context is the caller's without its cancellation, marked
  with the aggregate. A refused request releases the context and gives no ticket.
\<close>

definition release :: "job_id \<Rightarrow> 't disp \<Rightarrow> 't disp" where
  "release i d = (case dJobs d i of None \<Rightarrow> d | Some j \<Rightarrow> setJob i (j\<lparr>jCancelled := True\<rparr>) d)"

definition dispEnqueue :: "ctx \<Rightarrow> 't dispatch_request \<Rightarrow> 't disp \<Rightarrow> ticket outcome \<times> 't disp" where
  "dispEnqueue c rq d =
     (let i = dNextJob d;
          jc = (withoutCancel c)\<lparr>ctxHandler := Some (evAggregateID (rqEvent rq))\<rparr>;
          d1 = (setJob i (jobNew jc rq) d)\<lparr>dNextJob := Suc i\<rparr>
      in case regEnqueue i d1 of
           (Ok _, d2) \<Rightarrow> (Ok i, d2)
         | (Fail e, d2) \<Rightarrow> (Fail e, release i d2)
         | (Panic p, d2) \<Rightarrow> (Panic p, d2))"

definition dispTicket :: "ticket \<Rightarrow> 't disp \<Rightarrow> ticket_state" where
  "dispTicket i d =
     (case dJobs d i of
        None \<Rightarrow> \<lparr>tkSettled = False, tkFinal = False, tkErr = None, tkUnrun = None\<rparr>
      | Some j \<Rightarrow> \<lparr>tkSettled = jDone j, tkFinal = jFinal j, tkErr = jErr j, tkUnrun = jUnrun j\<rparr>)"

definition dispInHandler :: "ctx \<Rightarrow> string \<Rightarrow> 't disp \<Rightarrow> bool" where
  "dispInHandler c agg d \<longleftrightarrow> ctxHandler c = Some agg"

definition dispInterrupt :: "'t disp \<Rightarrow> 't disp" where
  "dispInterrupt d = d\<lparr>dQuit := True\<rparr>"

text \<open>
  \<open>Close\<close>: \<open>drained\<close> says whether the workers finished before the context's end. Closing the registry and
  stopping the workers are one step: between the two the registry already refuses every job, and a worker
  that retires there has nothing queued.
\<close>

definition dispClose :: "bool \<Rightarrow> goerr \<Rightarrow> 't disp \<Rightarrow> goerr option \<times> 't disp" where
  "dispClose drained cerr d =
     (let (first, d1) = regClose d;
          d2 = (if first then d1\<lparr>dStopped := True\<rparr> else d1);
          d3 = dispInterrupt d2
      in if drained then (None, d3) else (Some cerr, d3\<lparr>dBaseCancelled := True\<rparr>))"

text \<open>\<open>WaitIdle\<close> returns once every job tracked when it was called has completed.\<close>

definition idleSince :: "'t disp \<Rightarrow> 't disp \<Rightarrow> bool" where
  "idleSince d0 d \<longleftrightarrow> (\<forall>i \<in> dInflight d0. tkFinal (dispTicket i d))"

definition memDispatcher :: "('t, 't disp) dispatcher_ops" where
  "memDispatcher =
     \<lparr>dpEnqueue = dispEnqueue, dpTicketFor = trackerFor, dpTicket = dispTicket,
      dpUnrun = regUnrun, dpPark = regParkVersions, dpSupersede = regSupersede,
      dpParks = regParks, dpResumeUndelivered = regLiftGeneration, dpInspect = regInspect,
      dpInHandler = dispInHandler, dpInterrupt = dispInterrupt, dpInterrupted = dQuit\<rparr>"

end
