(* ===== verification/Delivery.thy ===== *)
theory Delivery
  imports Registry
begin

text \<open>
  \<^verbatim>\<open>internal/bus/dispatcher/internal/delivery\<close>, \<^verbatim>\<open>reporter\<close> and \<^verbatim>\<open>workers\<close>: what a worker does
  with a job it popped. The worker runs outside the registry's mutex, so between two of its
  registry operations other goroutines change the dispatcher's state. Everything it does not
  decide itself is in an \<open>environment\<close>: the operations the others carry out, what the bus and
  the store answer, which ready channel a \<open>select\<close> takes. The environment, like the handlers,
  is asked by the instant, a counter of the world that every turn of the others advances.
\<close>

section \<open>Configuration, environment and log\<close>

datatype handler_result = HReturn "goerr option" | HPanic string

text \<open>
  \<open>dsHandler\<close> is told the instant it is called at, as its answers differ between calls;
  \<open>dsSlow\<close> says at which instants it outlives its timeout.
\<close>

record 't durable_sub =
  dsName :: string
  dsMatch :: "string \<Rightarrow> bool"
  dsHandler :: "nat \<Rightarrow> ctx \<Rightarrow> 't event \<Rightarrow> handler_result"
  dsTimeout :: int
  dsSlow :: "nat \<Rightarrow> bool"

record 't dispatcher_config =
  cfBus :: bool
  cfDurableSubs :: "'t durable_sub list"
  cfOnPublishError :: bool
  cfOnDeliveryError :: bool
  cfOnPanic :: bool
  cfDeadLetter :: "(ctx \<Rightarrow> 't event \<Rightarrow> goerr option \<Rightarrow> handler_result) option"
  cfRetryInitial :: int
  cfRetryMax :: int
  cfMaxAttempts :: int

datatype wait_choice = TakeInterrupted | TakeHalt | TakeTimer

text \<open>What another goroutine may do to the dispatcher: each is one critical section.\<close>

datatype 't disp_op =
    OpEnqueue ctx "'t dispatch_request"
  | OpPark string "goerr option" "int list"
  | OpSupersede string
  | OpResume string "64 word"
  | OpInterrupt
  | OpClose bool goerr
  | OpPop string
  | OpRetire string
  | OpParkIfCurrent string chan bool "goerr option"
  | OpSettleIfParked string chan job_id
  | OpSettle job_id
  | OpComplete job_id "goerr option"

fun applyOp :: "'t disp_op \<Rightarrow> 't disp \<Rightarrow> 't disp" where
  "applyOp (OpEnqueue c rq) d = snd (dispEnqueue c rq d)"
| "applyOp (OpPark agg cause vs) d = regParkVersions agg cause vs d"
| "applyOp (OpSupersede agg) d = regSupersede agg d"
| "applyOp (OpResume agg gen) d = snd (regLiftGeneration agg gen d)"
| "applyOp OpInterrupt d = dispInterrupt d"
| "applyOp (OpClose drained cerr) d = snd (dispClose drained cerr d)"
| "applyOp (OpPop agg) d = snd (regPop agg d)"
| "applyOp (OpRetire agg) d = snd (regRetire agg d)"
| "applyOp (OpParkIfCurrent agg halt durable cause) d = snd (regParkIfCurrent agg halt durable cause d)"
| "applyOp (OpSettleIfParked agg halt i) d = snd (regSettleIfParked agg halt i d)"
| "applyOp (OpSettle i) d = markSettled i d"
| "applyOp (OpComplete i e) d = complete i e d"

record 't environment =
  enOthers :: "nat \<Rightarrow> 't disp_op list"
  enChoice :: "nat \<Rightarrow> wait_choice"
  enPublish :: "nat \<Rightarrow> handler_result"
  enAck :: "nat \<Rightarrow> ctx \<Rightarrow> string \<times> int \<Rightarrow> handler_result"

text \<open>What the outside world saw: reports, handler calls, publishes and acks, in order.\<close>

datatype report = RepPublishError goerr | RepDeliveryError goerr int | RepPanic string

datatype 't log_entry =
    Reported job_id report
  | Called job_id "'t durable_sub" int "goerr option"
  | Published job_id
  | DeadLettered job_id
  | Acknowledged job_id "string \<times> int" handler_result

record 't world =
  wDisp :: "'t disp"
  wTick :: nat
  wLog :: "'t log_entry list"

definition logged :: "'t log_entry \<Rightarrow> 't world \<Rightarrow> 't world" where
  "logged x w = w\<lparr>wLog := wLog w @ [x]\<rparr>"

text \<open>A turn of the other goroutines.\<close>

definition others :: "'t environment \<Rightarrow> 't world \<Rightarrow> 't world" where
  "others en w = w\<lparr>wDisp := fold applyOp (enOthers en (wTick w)) (wDisp w), wTick := Suc (wTick w)\<rparr>"

section \<open>Reporter\<close>

text \<open>A handler that panics is swallowed, so a report changes nothing but the log.\<close>

definition publishError :: "'t dispatcher_config \<Rightarrow> job_id \<Rightarrow> goerr \<Rightarrow> 't world \<Rightarrow> 't world" where
  "publishError cf i e w =
     (if \<not> cfOnPublishError cf then w else logged (Reported i (RepPublishError e)) w)"

definition deliveryError :: "'t dispatcher_config \<Rightarrow> job_id \<Rightarrow> goerr \<Rightarrow> int \<Rightarrow> 't world \<Rightarrow> 't world" where
  "deliveryError cf i e n w =
     (if \<not> cfOnDeliveryError cf then w else logged (Reported i (RepDeliveryError e n)) w)"

definition reportPanic :: "'t dispatcher_config \<Rightarrow> job_id \<Rightarrow> string \<Rightarrow> 't world \<Rightarrow> 't world" where
  "reportPanic cf i p w =
     (if \<not> cfOnPanic cf then w else logged (Reported i (RepPanic p)) w)"

section \<open>One attempt\<close>

definition panicErr :: "string \<Rightarrow> goerr" where
  "panicErr p = wrapText ErrHandlerPanic p"

definition callRecovering ::
  "'t dispatcher_config \<Rightarrow> 't environment \<Rightarrow> job_id \<Rightarrow> 't job \<Rightarrow> 't durable_sub \<Rightarrow> int \<Rightarrow> 't world
     \<Rightarrow> goerr option \<times> 't world" where
  "callRecovering cf en i j sub n w =
     (let (r, w1) = (case dsHandler sub (wTick w) (jCtx j) (jEvent j) of
             HReturn e \<Rightarrow> (e, w)
           | HPanic p \<Rightarrow> (Some (panicErr p), reportPanic cf i p w))
      in (r, others en (logged (Called i sub n r) w1)))"

definition reportTimeout ::
  "'t dispatcher_config \<Rightarrow> job_id \<Rightarrow> 't durable_sub \<Rightarrow> int \<Rightarrow> 't world \<Rightarrow> 't world" where
  "reportTimeout cf i sub n w =
     deliveryError cf i
       (SubscriberErr (dsName sub)
          (Errorf [Wrap (Sentinel ErrHandlerTimeout), Lit ('' after '' @ showDuration (dsTimeout sub))])) n w"

text \<open>A slow handler is reported as timed out, and still waited for.\<close>

definition runDurable ::
  "'t dispatcher_config \<Rightarrow> 't environment \<Rightarrow> job_id \<Rightarrow> 't job \<Rightarrow> 't durable_sub \<Rightarrow> int \<Rightarrow> 't world
     \<Rightarrow> goerr option \<times> 't world" where
  "runDurable cf en i j sub n w =
     (if dsTimeout sub \<le> 0 then callRecovering cf en i j sub n w
      else if \<not> dsSlow sub (wTick w) then callRecovering cf en i j sub n w
      else callRecovering cf en i j sub n (reportTimeout cf i sub n w))"

definition trySub ::
  "'t dispatcher_config \<Rightarrow> 't environment \<Rightarrow> job_id \<Rightarrow> 't job \<Rightarrow> int \<Rightarrow> 't durable_sub
     \<Rightarrow> 't durable_sub list \<times> goerr list \<times> 't world \<Rightarrow> 't durable_sub list \<times> goerr list \<times> 't world" where
  "trySub cf en i j n sub acc =
     (case acc of (failed, errs, w) \<Rightarrow>
        case runDurable cf en i j sub n w of
          (None, w1) \<Rightarrow> (failed, errs, w1)
        | (Some e, w1) \<Rightarrow>
            (let failure = SubscriberErr (dsName sub) e
             in (failed @ [sub], errs @ [failure], deliveryError cf i failure n w1)))"

definition attemptAll ::
  "'t dispatcher_config \<Rightarrow> 't environment \<Rightarrow> job_id \<Rightarrow> 't job \<Rightarrow> 't durable_sub list \<Rightarrow> int \<Rightarrow> 't world
     \<Rightarrow> 't durable_sub list \<times> goerr option \<times> 't world" where
  "attemptAll cf en i j pending n w =
     (case fold (trySub cf en i j n) pending ([], [], w) of
        (failed, errs, w1) \<Rightarrow> (failed, errorsJoin (map Some errs), w1))"

section \<open>Giving up and waiting\<close>

definition parkThenReport ::
  "'t environment \<Rightarrow> string \<Rightarrow> chan \<Rightarrow> 't job \<Rightarrow> goerr \<Rightarrow> ('t world \<Rightarrow> 't world) \<Rightarrow> 't world \<Rightarrow> 't world" where
  "parkThenReport en agg halt j cause report w =
     (let w1 = others en w
      in report (w1\<lparr>wDisp := snd (regParkIfCurrent agg halt (jobAcked j) (Some cause) (wDisp w1))\<rparr>))"

definition deadLetters :: "'t dispatcher_config \<Rightarrow> 't job \<Rightarrow> bool" where
  "deadLetters cf j \<longleftrightarrow> (if cfDeadLetter cf = None then False else jobAcked j \<and> \<not> jForget j)"

definition callDeadLetter ::
  "'t dispatcher_config \<Rightarrow> 't job \<Rightarrow> goerr option \<Rightarrow> goerr option" where
  "callDeadLetter cf j lastE =
     (case cfDeadLetter cf of
        None \<Rightarrow> None
      | Some h \<Rightarrow> (case h (jCtx j) (jEvent j) lastE of HReturn e \<Rightarrow> e | HPanic p \<Rightarrow> Some (panicErr p)))"

definition attemptsText :: "int \<Rightarrow> string" where
  "attemptsText n = '' after '' @ showInt n @ '' attempts: ''"

text \<open>The last error is never nil when the attempts ran out, as some subscriber failed.\<close>

definition lastErr :: "goerr option \<Rightarrow> goerr" where
  "lastErr lastE = (case lastE of Some e \<Rightarrow> e | None \<Rightarrow> OtherErr ''%!w(<nil>)'')"

definition deadLettered ::
  "'t dispatcher_config \<Rightarrow> job_id \<Rightarrow> 't job \<Rightarrow> goerr option \<Rightarrow> int \<Rightarrow> 't world \<Rightarrow> bool \<times> 't world" where
  "deadLettered cf i j lastE n w =
     (if \<not> deadLetters cf j then (False, w)
      else case callDeadLetter cf j lastE of
             Some e \<Rightarrow> (False, deliveryError cf i (Errorf [Lit ''dead-letter handler: '', Wrap e]) n w)
           | None \<Rightarrow>
               (True, deliveryError cf i
                  (Errorf [Lit ''dead-lettered'', Lit (attemptsText n), Wrap (lastErr lastE)]) n
                  (logged (DeadLettered i) w)))"

definition giveUp ::
  "'t dispatcher_config \<Rightarrow> 't environment \<Rightarrow> string \<Rightarrow> chan \<Rightarrow> job_id \<Rightarrow> 't job \<Rightarrow> goerr option \<Rightarrow> int \<Rightarrow> 't world
     \<Rightarrow> goerr option \<times> 't world" where
  "giveUp cf en agg halt i j lastE n w =
     (if isClosedChan halt (wDisp w) then (Some parkedErr, w)
      else case deadLettered cf i j lastE n w of
             (True, w1) \<Rightarrow> (None, w1)
           | (False, w1) \<Rightarrow>
               (let parked = Errorf [Wrap (Sentinel ErrDeliveryParked), Lit (attemptsText n), Wrap (lastErr lastE)]
                in (Some parked, parkThenReport en agg halt j parked (deliveryError cf i parked n) w1)))"

definition backoffEnded :: "'t job \<Rightarrow> chan \<Rightarrow> 't disp \<Rightarrow> goerr option" where
  "backoffEnded j halt d = (if jobAcked j \<and> isClosedChan halt d then Some parkedErr else None)"

text \<open>
  The wait before a retry: the other goroutines run, then \<open>select\<close> takes one of the channels
  that are ready. The timer is always ready in the end.
\<close>

definition waitRetry ::
  "'t environment \<Rightarrow> string \<Rightarrow> chan \<Rightarrow> 't job \<Rightarrow> 't world \<Rightarrow> goerr option \<times> 't world" where
  "waitRetry en agg halt j w =
     (let ch = enChoice en (wTick w); w1 = others en w; d = wDisp w1
      in if ch = TakeInterrupted \<and> dQuit d
         then (Some (Sentinel ErrDispatcherClosed),
               parkThenReport en agg halt j (Sentinel ErrDispatcherClosed) (\<lambda>w. w) w1)
         else if ch = TakeHalt \<and> isClosedChan halt d then (Some parkedErr, w1)
         else (backoffEnded j halt d, w1))"

text \<open>The delay: jittered over its upper half; \<open>r\<close> is the random number below \<open>half + 1\<close>.\<close>

definition jittered :: "int \<Rightarrow> int \<Rightarrow> int" where
  "jittered delay r = (let half = (if delay < 0 then - ((- delay) div 2) else delay div 2) in if half \<le> 0 then delay else i64 (half + r))"

definition nextBackoff :: "'t dispatcher_config \<Rightarrow> int \<Rightarrow> int" where
  "nextBackoff cf backoff = min (i64 (backoff * 2)) (cfRetryMax cf)"

section \<open>The delivery\<close>

definition settleAfterFirst :: "job_id \<Rightarrow> int \<Rightarrow> 't world \<Rightarrow> 't world" where
  "settleAfterFirst i n w = (if n \<noteq> 1 then w else w\<lparr>wDisp := markSettled i (wDisp w)\<rparr>)"

function retryLoop ::
  "'t dispatcher_config \<Rightarrow> 't environment \<Rightarrow> string \<Rightarrow> chan \<Rightarrow> job_id \<Rightarrow> 't job \<Rightarrow> 't durable_sub list \<Rightarrow> int
     \<Rightarrow> int \<Rightarrow> 't world \<Rightarrow> goerr option \<times> 't world" where
  "retryLoop cf en agg halt i j pending n backoff w =
     (case attemptAll cf en i j pending n w of
        (failed, lastE, w1) \<Rightarrow>
          (let w2 = settleAfterFirst i n w1
           in if length failed = 0 then (None, w2)
              else if n \<ge> cfMaxAttempts cf then giveUp cf en agg halt i j lastE n w2
              else case waitRetry en agg halt j w2 of
                     (Some e, w3) \<Rightarrow> (Some e, w3)
                   | (None, w3) \<Rightarrow> retryLoop cf en agg halt i j failed (n + 1) (nextBackoff cf backoff) w3))"
  by pat_completeness auto
termination
  by (relation "measure (\<lambda>(cf, en, agg, halt, i, j, pending, n, backoff, w). nat (cfMaxAttempts cf - n))") auto

declare retryLoop.simps [simp del]

definition subscribersFor :: "'t dispatcher_config \<Rightarrow> 't job \<Rightarrow> 't durable_sub list" where
  "subscribersFor cf j =
     filter (\<lambda>sub. \<not> (\<not> jForget j \<and> \<not> dsMatch sub (evEventName (jEvent j)))) (cfDurableSubs cf)"

definition deliver ::
  "'t dispatcher_config \<Rightarrow> 't environment \<Rightarrow> string \<Rightarrow> chan \<Rightarrow> job_id \<Rightarrow> 't job \<Rightarrow> 't world
     \<Rightarrow> goerr option \<times> 't world" where
  "deliver cf en agg halt i j w =
     (let pending = subscribersFor cf j
      in if jobAcked j \<and> isClosedChan halt (wDisp w) then (Some parkedErr, w)
         else if length pending = 0 then (None, w)
         else retryLoop cf en agg halt i j pending 1 (cfRetryInitial cf) w)"

section \<open>Workers\<close>

definition heldByPark :: "string \<Rightarrow> chan \<Rightarrow> job_id \<Rightarrow> 't job \<Rightarrow> 't world \<Rightarrow> bool \<times> 't world" where
  "heldByPark agg halt i j w =
     (if \<not> jobAcked j then (False, w)
      else case regSettleIfParked agg halt i (wDisp w) of (b, d') \<Rightarrow> (b, w\<lparr>wDisp := d'\<rparr>))"

text \<open>A panic of the bus is an error of the publish.\<close>

definition publishLive :: "'t dispatcher_config \<Rightarrow> 't environment \<Rightarrow> job_id \<Rightarrow> 't job \<Rightarrow> 't world \<Rightarrow> 't world" where
  "publishLive cf en i j w =
     (if \<not> cfBus cf \<or> jSkipLive j then w
      else let w1 = others en (logged (Published i) w)
           in case enPublish en (wTick w) of
                HReturn None \<Rightarrow> w1
              | HReturn (Some e) \<Rightarrow> publishError cf i e w1
              | HPanic p \<Rightarrow> publishError cf i (OtherErr (''asynx: bus panic: '' @ p)) w1)"

definition ackJob ::
  "'t dispatcher_config \<Rightarrow> 't environment \<Rightarrow> string \<Rightarrow> chan \<Rightarrow> job_id \<Rightarrow> 't job \<Rightarrow> 't world \<Rightarrow> unit outcome \<times> 't world" where
  "ackJob cf en agg halt i j w =
     (case jAck j of
        None \<Rightarrow> (Ok (), w)
      | Some key \<Rightarrow>
          (let r = enAck en (wTick w) (jCtx j) key;
               w1 = logged (Acknowledged i key r) w
           in case r of
                HReturn None \<Rightarrow> (Ok (), w1)
              | HReturn (Some e) \<Rightarrow> (Fail e, parkThenReport en agg halt j e (publishError cf i e) w1)
              | HPanic p \<Rightarrow> (Panic p, w1)))"

definition deliverJob ::
  "'t dispatcher_config \<Rightarrow> 't environment \<Rightarrow> string \<Rightarrow> chan \<Rightarrow> job_id \<Rightarrow> 't job \<Rightarrow> 't world \<Rightarrow> unit outcome \<times> 't world" where
  "deliverJob cf en agg halt i j w =
     (case heldByPark agg halt i j w of
        (True, w1) \<Rightarrow> (Fail parkedErr, w1)
      | (False, w1) \<Rightarrow>
          (let w2 = publishLive cf en i j w1
           in if \<not> jobDurable j then (Ok (), w2)
              else case deliver cf en agg halt i j w2 of
                     (Some e, w3) \<Rightarrow> (Fail e, w3)
                   | (None, w3) \<Rightarrow> ackJob cf en agg halt i j w3))"

definition recoverDispatcherPanic ::
  "'t dispatcher_config \<Rightarrow> job_id \<Rightarrow> unit outcome \<times> 't world \<Rightarrow> goerr option \<times> 't world" where
  "recoverDispatcherPanic cf i rw =
     (case rw of
        (Ok _, w) \<Rightarrow> (None, w)
      | (Fail e, w) \<Rightarrow> (Some e, w)
      | (Panic p, w) \<Rightarrow>
          (let err = OtherErr (''asynx: dispatcher panic: '' @ p) in (Some err, publishError cf i err w)))"

definition finishJob :: "'t environment \<Rightarrow> job_id \<Rightarrow> goerr option \<Rightarrow> 't world \<Rightarrow> 't world" where
  "finishJob en i r w =
     (let w1 = others en w;
          w2 = others en (w1\<lparr>wDisp := markSettled i (wDisp w1)\<rparr>)
      in w2\<lparr>wDisp := complete i r (wDisp w2)\<rparr>)"

definition handleJob ::
  "'t dispatcher_config \<Rightarrow> 't environment \<Rightarrow> string \<Rightarrow> chan \<Rightarrow> job_id \<Rightarrow> 't world \<Rightarrow> 't world" where
  "handleJob cf en agg halt i w =
     (case dJobs (wDisp w) i of
        None \<Rightarrow> w
      | Some j \<Rightarrow> (case recoverDispatcherPanic cf i (deliverJob cf en agg halt i j (others en w)) of
                     (r, w1) \<Rightarrow> finishJob en i r w1))"

definition workerNext ::
  "'t dispatcher_config \<Rightarrow> 't environment \<Rightarrow> string \<Rightarrow> 't world \<Rightarrow> bool \<times> 't world" where
  "workerNext cf en agg w =
     (case regPop agg (wDisp w) of
        (None, d') \<Rightarrow> (False, w\<lparr>wDisp := d'\<rparr>)
      | (Some (i, halt), d') \<Rightarrow> (True, handleJob cf en agg halt i (w\<lparr>wDisp := d'\<rparr>)))"

text \<open>
  \<open>drain\<close> runs until the queue is empty; producers may keep it filled, so it takes fuel.
\<close>

fun drain :: "nat \<Rightarrow> 't dispatcher_config \<Rightarrow> 't environment \<Rightarrow> string \<Rightarrow> 't world \<Rightarrow> 't world option" where
  "drain 0 cf en agg w = None"
| "drain (Suc k) cf en agg w =
     (case workerNext cf en agg w of
        (False, w') \<Rightarrow> Some w'
      | (True, w') \<Rightarrow> drain k cf en agg w')"

text \<open>Which channel \<open>await\<close>'s \<open>select\<close> took; the result says whether the worker exits.\<close>

datatype await_choice = AwaitWake | AwaitStop | AwaitIdle

definition await ::
  "nat \<Rightarrow> 't dispatcher_config \<Rightarrow> 't environment \<Rightarrow> await_choice \<Rightarrow> string \<Rightarrow> 't world \<Rightarrow> (bool \<times> 't world) option" where
  "await k cf en ch agg w =
     (case ch of
        AwaitWake \<Rightarrow>
          Some (False, case getRec agg (wDisp w) of
                         None \<Rightarrow> w
                       | Some rec \<Rightarrow> w\<lparr>wDisp := putRec agg (rec\<lparr>rcWake := False\<rparr>) (wDisp w)\<rparr>)
      | AwaitStop \<Rightarrow> (case drain k cf en agg w of None \<Rightarrow> None | Some w' \<Rightarrow> Some (True, w'))
      | AwaitIdle \<Rightarrow> (case regRetire agg (wDisp w) of (b, d') \<Rightarrow> Some (b, w\<lparr>wDisp := d'\<rparr>)))"

definition workerCycle ::
  "nat \<Rightarrow> 't dispatcher_config \<Rightarrow> 't environment \<Rightarrow> await_choice \<Rightarrow> string \<Rightarrow> 't world \<Rightarrow> (bool \<times> 't world) option" where
  "workerCycle k cf en ch agg w =
     (case drain k cf en agg w of
        None \<Rightarrow> None
      | Some w1 \<Rightarrow>
          (case await k cf en ch agg w1 of
             None \<Rightarrow> None
           | Some (ended, w2) \<Rightarrow> Some (\<not> ended, w2)))"

end
