(* ===== verification/Node.thy ===== *)
theory Node
  imports Recovery Delivery
begin

text \<open>
  A whole node: the command executor, the store, the dispatcher's workers and the recovery, put
  together the way \<^verbatim>\<open>builder.go\<close> wires them. The operations of the components are the
  steps; a crash is a step too, after which a new processor starts on the same store.

  A worker's run is one step at the instant of its acknowledgement: everything before it happens
  in memory only, so what other goroutines do to the dispatcher meanwhile is in the run's
  environment, and what they do to the store is a step of its own before. A command whose
  enqueue falls into such a run is a \<open>commit\<close>, its enqueue one of the environment's operations.
\<close>

section \<open>State\<close>

text \<open>
  Beside the state of the processor, three things no component keeps: who has handled which event
  with success, which events the dead-letter handler accepted, and which aggregates somebody has
  asked to forget.
\<close>

record 't node =
  ndState :: "(memory, snapshot_memory, 't, 't disp) recovery_state"
  ndHandled :: "('t durable_sub \<times> 't event) list"
  ndDead :: "'t event list"
  ndForgotten :: "string set"

text \<open>The executor's part of the state.\<close>

definition execPart :: "('s, 'p, 't, 'd) recovery_state \<Rightarrow> ('s, 'p, 't, 'd) exec_state" where
  "execPart st = \<lparr>xDb = xDb st, xDisp = xDisp st, xForgetting = xForgetting st, xSnapshotErrors = xSnapshotErrors st\<rparr>"

definition setExec :: "('s, 'p, 't, 'd) exec_state \<Rightarrow> ('s, 'p, 't, 'd) recovery_state \<Rightarrow> ('s, 'p, 't, 'd) recovery_state" where
  "setExec e st = st\<lparr>xDb := xDb e, xDisp := xDisp e, xForgetting := xForgetting e, xSnapshotErrors := xSnapshotErrors e\<rparr>"

definition startNode :: "'t node" where
  "startNode =
     \<lparr>ndState = \<lparr>xDb = \<lparr>dbStore = newMemory, dbSnaps = newSnapshots, dbCorrupt = []\<rparr>,
                 xDisp = newDispatcher, xForgetting = {}, xSnapshotErrors = [], rvReports = []\<rparr>,
      ndHandled = [], ndDead = [], ndForgotten = {}\<rparr>"

text \<open>What is left when the process dies: the store and the snapshots.\<close>

definition crashed :: "'t node \<Rightarrow> 't node" where
  "crashed n = n\<lparr>ndState := \<lparr>xDb = xDb (ndState n), xDisp = newDispatcher, xForgetting = {},
                            xSnapshotErrors = [], rvReports = []\<rparr>\<rparr>"

text \<open>The events a replay of an aggregate's stream enumerates.\<close>

definition replayed :: "('tx, 's, 'p, 't, 'd) executor \<Rightarrow> 's \<Rightarrow> string \<Rightarrow> 't event list" where
  "replayed x s agg = snd (replay (xEs x) background agg 1 0 (\<lambda>e es. es @ [e]) s [])"

definition streamLength :: "string \<Rightarrow> (memory, 'p) db \<Rightarrow> nat" where
  "streamLength agg d = length (streamOf (dbStore d) (streamName agg))"

section \<open>A worker's run\<close>

text \<open>The acknowledgement of a job is answered by the node's own store.\<close>

definition storeAck :: "('tx, 's) store_ops \<Rightarrow> 's \<Rightarrow> ctx \<Rightarrow> string \<times> int \<Rightarrow> handler_result" where
  "storeAck S s c key =
     (case stAckDelivery S c (fst key) (snd key) s of
        (Ok _, s') \<Rightarrow> HReturn None
      | (Fail e, s') \<Rightarrow> HReturn (Some e)
      | (Panic p, s') \<Rightarrow> HPanic p)"

definition ackedStore :: "('tx, 's) store_ops \<Rightarrow> ctx \<Rightarrow> 't log_entry list \<Rightarrow> 's \<Rightarrow> 's" where
  "ackedStore S c new s =
     fold (\<lambda>x s. case x of Acknowledged i key r \<Rightarrow> snd (stAckDelivery S c (fst key) (snd key) s) | _ \<Rightarrow> s) new s"

definition successes :: "'t event \<Rightarrow> 't log_entry list \<Rightarrow> ('t durable_sub \<times> 't event) list" where
  "successes e new = List.map_filter (\<lambda>x. case x of Called i s k None \<Rightarrow> Some (s, e) | _ \<Rightarrow> None) new"

definition deaths :: "'t event \<Rightarrow> 't log_entry list \<Rightarrow> 't event list" where
  "deaths e new = List.map_filter (\<lambda>x. case x of DeadLettered i \<Rightarrow> Some e | _ \<Rightarrow> None) new"

text \<open>
  The other goroutines enqueue only what the executor and the recovery enqueue: an event of the
  aggregate's stream, under its own key. (An aggregate that is being forgotten may have lost
  its stream by the time the run ends.)
\<close>

definition requestOk ::
  "(memory_tx, memory, snapshot_memory, 't, 't disp) executor \<Rightarrow> 't node \<Rightarrow> 't dispatch_request \<Rightarrow> bool" where
  "requestOk x n rq \<longleftrightarrow>
     (let ev = rqEvent rq; agg = evAggregateID ev in
      rqAck rq = None \<or>
      rqAck rq = Some (agg, evVersion ev) \<and>
        (agg \<in> ndForgotten n \<or> ev \<in> set (replayed x (dbStore (xDb (ndState n))) agg)))"

fun opOk ::
  "(memory_tx, memory, snapshot_memory, 't, 't disp) executor \<Rightarrow> 't node \<Rightarrow> 't disp_op \<Rightarrow> bool" where
  "opOk x n (OpEnqueue c rq) = requestOk x n rq"
| "opOk x n _ = True"

definition ranJob ::
  "(memory_tx, memory, snapshot_memory, 't, 't disp) executor \<Rightarrow> 't dispatcher_config \<Rightarrow> 't environment \<Rightarrow> nat
     \<Rightarrow> string \<Rightarrow> chan \<Rightarrow> job_id \<Rightarrow> 't job \<Rightarrow> 't disp \<Rightarrow> 't node \<Rightarrow> 't node" where
  "ranJob x cf en t agg halt i j d n =
     (let st = ndState n; S = esStore (xEs x); s = dbStore (xDb st);
          w = handleJob cf (en\<lparr>enAck := \<lambda>_. storeAck S s\<rparr>) agg halt i \<lparr>wDisp = d, wTick = t, wLog = []\<rparr>
      in n\<lparr>ndState := setStore (ackedStore S (jCtx j) (wLog w) s) (st\<lparr>xDisp := wDisp w\<rparr>),
           ndHandled := ndHandled n @ successes (jEvent j) (wLog w),
           ndDead := ndDead n @ deaths (jEvent j) (wLog w)\<rparr>)"

section \<open>Steps\<close>

inductive node_step ::
  "(memory_tx, memory, snapshot_memory, 't, 't disp) executor \<Rightarrow> 't dispatcher_config \<Rightarrow> 't node \<Rightarrow> 't node \<Rightarrow> bool"
  for x :: "(memory_tx, memory, snapshot_memory, 't, 't disp) executor" and cf :: "'t dispatcher_config" where
  command:
    "executeAsync x lk c i now cmd (execPart (ndState n)) = (r, e') \<Longrightarrow> timeOk now \<Longrightarrow>
     int (streamLength (cmdAggregateID cmd) (xDb (ndState n))) + 1 < maxInt64 \<Longrightarrow>
     node_step x cf n (n\<lparr>ndState := setExec e' (ndState n)\<rparr>)"
| commit:
    "executeAsync x lk c i now cmd (execPart (ndState n)) = (r, e') \<Longrightarrow> timeOk now \<Longrightarrow>
     int (streamLength (cmdAggregateID cmd) (xDb (ndState n))) + 1 < maxInt64 \<Longrightarrow>
     node_step x cf n (n\<lparr>ndState := setExec (e'\<lparr>xDisp := xDisp (ndState n)\<rparr>) (ndState n)\<rparr>)"
| forget:
    "forgetBegin x lk c i now agg (execPart (ndState n)) = (r, e') \<Longrightarrow> timeOk now \<Longrightarrow>
     int (streamLength agg (xDb (ndState n))) + 1 < maxInt64 \<Longrightarrow>
     node_step x cf n (n\<lparr>ndState := setExec e' (ndState n), ndForgotten := insert agg (ndForgotten n)\<rparr>)"
| erase:
    "agg \<in> xForgetting (ndState n) \<Longrightarrow>
     forgetFinish x lk fe c agg tk (execPart (ndState n)) = (r, e') \<Longrightarrow>
     node_step x cf n (n\<lparr>ndState := setExec e' (ndState n)\<rparr>)"
| work:
    "regPop agg (xDisp (ndState n)) = (Some (i, halt), d) \<Longrightarrow> dJobs d i = Some j \<Longrightarrow>
     (\<And>k. list_all (opOk x n) (enOthers en k)) \<Longrightarrow>
     node_step x cf n (ranJob x cf en t agg halt i j d n)"
| meanwhile:
    "list_all (opOk x n) ops \<Longrightarrow>
     node_step x cf n (n\<lparr>ndState := (ndState n)\<lparr>xDisp := fold applyOp ops (xDisp (ndState n))\<rparr>\<rparr>)"
| recover:
    "recoverAggregate x memDispatcher handler c cerr agg backlog (ndState n) = (r, st') \<Longrightarrow>
     node_step x cf n (n\<lparr>ndState := st'\<rparr>)"
| resume:
    "resumeAggregate x memDispatcher c lk agg park scanned (ndState n) = (r', st') \<Longrightarrow>
     node_step x cf n (n\<lparr>ndState := st'\<rparr>)"
| crash: "node_step x cf n (crashed n)"

inductive node_reachable ::
  "(memory_tx, memory, snapshot_memory, 't, 't disp) executor \<Rightarrow> 't dispatcher_config \<Rightarrow> 't node \<Rightarrow> bool"
  for x :: "(memory_tx, memory, snapshot_memory, 't, 't disp) executor" and cf :: "'t dispatcher_config" where
  start: "node_reachable x cf startNode"
| step: "node_reachable x cf n \<Longrightarrow> node_step x cf n n' \<Longrightarrow> node_reachable x cf n'"

text \<open>
  The promise of durable delivery: the event waits in the delivery log, or every subscriber
  whose pattern it matches has handled it, or the dead-letter handler has taken it.
\<close>

definition promised :: "'t dispatcher_config \<Rightarrow> 't node \<Rightarrow> 't event \<Rightarrow> bool" where
  "promised cf n e \<longleftrightarrow>
     \<lparr>dAggregateID = evAggregateID e, dVersion = evVersion e\<rparr> \<in> set (mDeliveries (dbStore (xDb (ndState n)))) \<or>
     e \<in> set (ndDead n) \<or>
     (\<forall>s \<in> set (cfDurableSubs cf). dsMatch s (evEventName e) \<longrightarrow> (s, e) \<in> set (ndHandled n))"

end
