(* ===== verification/Registry_Correct.thy ===== *)
theory Registry_Correct
  imports Registry
begin

text \<open>
  The registry's invariant and that every operation keeps it, the park state table of the
  package's documentation, and what callers rely on: order, generations, tickets.
\<close>

section \<open>Frame lemmas\<close>

lemma getRec_putRec [simp]: "getRec a (putRec b r d) = (if a = b then Some r else getRec a d)"
  by (simp add: getRec_def putRec_def update_conv')

lemma getRec_delRec [simp]: "getRec a (delRec b d) = (if a = b then None else getRec a d)"
  by (simp add: getRec_def delRec_def delete_conv')

lemma putRec_sel [simp]:
  "dGeneration (putRec b r d) = dGeneration d" "dClosed (putRec b r d) = dClosed d"
  "dJobs (putRec b r d) = dJobs d" "dNextJob (putRec b r d) = dNextJob d"
  "dClosedChans (putRec b r d) = dClosedChans d" "dNextChan (putRec b r d) = dNextChan d"
  "dInflight (putRec b r d) = dInflight d" "dTickets (putRec b r d) = dTickets d"
  "dSpawned (putRec b r d) = dSpawned d" "dFault (putRec b r d) = dFault d"
  "dQuit (putRec b r d) = dQuit d"
  by (simp_all add: putRec_def)

lemma delRec_sel [simp]:
  "dGeneration (delRec b d) = dGeneration d" "dClosed (delRec b d) = dClosed d"
  "dJobs (delRec b d) = dJobs d" "dNextJob (delRec b d) = dNextJob d"
  "dClosedChans (delRec b d) = dClosedChans d" "dNextChan (delRec b d) = dNextChan d"
  "dInflight (delRec b d) = dInflight d" "dTickets (delRec b d) = dTickets d"
  "dSpawned (delRec b d) = dSpawned d" "dFault (delRec b d) = dFault d" "dQuit (delRec b d) = dQuit d"
  by (simp_all add: delRec_def)

lemma getRec_upd [simp]:
  "getRec a (d\<lparr>dGeneration := g\<rparr>) = getRec a d" "getRec a (d\<lparr>dClosed := cl\<rparr>) = getRec a d"
  "getRec a (d\<lparr>dJobs := js\<rparr>) = getRec a d" "getRec a (d\<lparr>dNextJob := n\<rparr>) = getRec a d"
  "getRec a (d\<lparr>dClosedChans := cs\<rparr>) = getRec a d" "getRec a (d\<lparr>dNextChan := n\<rparr>) = getRec a d"
  "getRec a (d\<lparr>dInflight := ifl\<rparr>) = getRec a d" "getRec a (d\<lparr>dTickets := ts\<rparr>) = getRec a d"
  "getRec a (d\<lparr>dSpawned := sp\<rparr>) = getRec a d" "getRec a (d\<lparr>dFault := f\<rparr>) = getRec a d"
  "getRec a (d\<lparr>dStopped := f\<rparr>) = getRec a d" "getRec a (d\<lparr>dQuit := f\<rparr>) = getRec a d"
  "getRec a (d\<lparr>dBaseCancelled := f\<rparr>) = getRec a d"
  by (simp_all add: getRec_def)

lemma getRec_setJob [simp]: "getRec a (setJob i j d) = getRec a d"
  by (simp add: setJob_def)

lemma setJob_sel [simp]:
  "dGeneration (setJob i j d) = dGeneration d" "dClosed (setJob i j d) = dClosed d"
  "dJobs (setJob i j d) = (dJobs d)(i \<mapsto> j)" "dNextJob (setJob i j d) = dNextJob d"
  "dClosedChans (setJob i j d) = dClosedChans d" "dNextChan (setJob i j d) = dNextChan d"
  "dInflight (setJob i j d) = dInflight d" "dTickets (setJob i j d) = dTickets d"
  "dRecords (setJob i j d) = dRecords d"
  "dSpawned (setJob i j d) = dSpawned d" "dFault (setJob i j d) = dFault d" "dQuit (setJob i j d) = dQuit d"
  by (simp_all add: setJob_def)

text \<open>What an operation on one job's completion state leaves alone.\<close>

definition jobsOnly :: "'t disp \<Rightarrow> 't disp \<Rightarrow> bool" where
  "jobsOnly d d' \<longleftrightarrow> dRecords d' = dRecords d \<and> dGeneration d' = dGeneration d \<and> dClosed d' = dClosed d \<and>
     dNextJob d' = dNextJob d \<and> dClosedChans d' = dClosedChans d \<and> dNextChan d' = dNextChan d \<and>
     dSpawned d' = dSpawned d \<and> dFault d' = dFault d \<and> dQuit d' = dQuit d"

lemma jobsOnly_refl [simp]: "jobsOnly d d"
  by (simp add: jobsOnly_def)

lemma jobsOnly_trans: "jobsOnly d d' \<Longrightarrow> jobsOnly d' d'' \<Longrightarrow> jobsOnly d d''"
  by (simp add: jobsOnly_def)

lemma jobsOnly_setJob [simp]: "jobsOnly d (setJob i j d)"
  by (simp add: jobsOnly_def setJob_def)

lemma jobsOnly_ops [simp]:
  "jobsOnly d (markSettled i d)" "jobsOnly d (markUnrun i e d)" "jobsOnly d (complete i r d)"
  "jobsOnly d (track i d)" "jobsOnly d (release i d)"
  by (auto simp: jobsOnly_def markSettled_def markUnrun_def complete_def track_def release_def untrack_def
      setJob_def Let_def split: option.splits)

lemma jobsOnly_getRec: "jobsOnly d d' \<Longrightarrow> getRec a d' = getRec a d"
  by (simp add: jobsOnly_def getRec_def)

lemmas jobsOnlyD = jobsOnly_def[THEN iffD1]

text \<open>The identity of a job (aggregate, version, ack) never changes.\<close>

definition ident :: "'t disp \<Rightarrow> job_id \<Rightarrow> ('t event \<times> ack \<times> bool) option" where
  "ident d i = map_option (\<lambda>j. (jEvent j, jAck j, jForget j)) (dJobs d i)"

definition sameIds :: "'t disp \<Rightarrow> 't disp \<Rightarrow> bool" where
  "sameIds d d' \<longleftrightarrow> ident d' = ident d"

lemma ident_putRec [simp]: "ident (putRec a r d) = ident d"
  by (simp add: ident_def fun_eq_iff)

lemma sameIds_refl [simp]: "sameIds d d"
  by (simp add: sameIds_def)

lemma sameIds_trans: "sameIds d d' \<Longrightarrow> sameIds d' d'' \<Longrightarrow> sameIds d d''"
  by (simp add: sameIds_def)

lemma sameIds_ops [simp]:
  "sameIds d (markSettled i d)" "sameIds d (markUnrun i e d)" "sameIds d (complete i r d)"
  "sameIds d (track i d)" "sameIds d (release i d)"
  by (auto simp: sameIds_def ident_def markSettled_def markUnrun_def complete_def track_def release_def
      untrack_def setJob_def Let_def fun_eq_iff split: option.splits)

lemma acked_ident: "acked i d = (case ident d i of None \<Rightarrow> False | Some (e, a, f) \<Rightarrow> a \<noteq> None)"
  by (auto simp: acked_def ident_def jobAcked_def split: option.splits)

lemma version_ident: "versionOf i d = (case ident d i of None \<Rightarrow> 0 | Some (e, a, f) \<Rightarrow> evVersion e)"
  by (auto simp: versionOf_def ident_def jobVersion_def split: option.splits)

lemma sameIds_acked: "sameIds d d' \<Longrightarrow> acked i d' = acked i d"
  by (simp add: sameIds_def acked_ident)

lemma sameIds_version: "sameIds d d' \<Longrightarrow> versionOf i d' = versionOf i d"
  by (simp add: sameIds_def version_ident)

lemma sameIds_dom: "sameIds d d' \<Longrightarrow> dJobs d' i = None \<longleftrightarrow> dJobs d i = None"
proof -
  assume "sameIds d d'"
  then have "ident d' i = ident d i" by (simp add: sameIds_def)
  then show ?thesis by (auto simp: ident_def)
qed

section \<open>The invariant\<close>

text \<open>
  A running aggregate's halt channel is open and its record remembers no park; a queue has a
  worker; a record has a worker or a park, never neither; a parked aggregate's queue holds
  no durable job; a queued job is this aggregate's, unsettled, unfinished and tracked.
\<close>

definition queuedOk :: "'t disp \<Rightarrow> string \<Rightarrow> job_id \<Rightarrow> bool" where
  "queuedOk d agg i \<longleftrightarrow>
     (\<exists>j. dJobs d i = Some j \<and> jobAgg j = agg \<and> \<not> jDone j \<and> \<not> jFinal j \<and> jTracked j)"

definition undOk :: "(int \<times> goerr) list \<Rightarrow> bool" where
  "undOk u \<longleftrightarrow> distinct (map fst u) \<and> (\<forall>v e. (v, e) \<in> set u \<longrightarrow> e = parkedErr)"

lemma undOk_Nil [simp]: "undOk []"
  by (simp add: undOk_def)

lemma in_update: "x \<in> set (AList.update k v al) \<Longrightarrow> x = (k, v) \<or> x \<in> set al"
  by (induction al) (auto split: if_splits)

lemma undOk_update: "undOk u \<Longrightarrow> undOk (AList.update v parkedErr u)"
  by (auto simp: undOk_def distinct_update dest: in_update)

lemma undOk_fold: "undOk u \<Longrightarrow> undOk (fold (\<lambda>v. AList.update v parkedErr) vs u)"
  by (induction vs arbitrary: u) (auto simp: undOk_update)

lemma fold_update_keys: "fst ` set (fold (\<lambda>v. AList.update v e) vs u) = set vs \<union> fst ` set u"
  by (induction vs arbitrary: u) (auto simp: dom_update)

definition recOk :: "'t disp \<Rightarrow> string \<Rightarrow> agg_record \<Rightarrow> bool" where
  "recOk d agg rec \<longleftrightarrow>
     (\<not> rcParked rec \<longrightarrow> rcHalt rec \<notin> dClosedChans d \<and> rcUndelivered rec = [] \<and> rcGeneration rec = 0 \<and> rcCause rec = None) \<and>
     rcHalt rec < dNextChan d \<and>
     (rcJobs rec \<noteq> [] \<longrightarrow> rcWorker rec) \<and> (rcWorker rec \<or> rcParked rec) \<and>
     (rcParked rec \<longrightarrow> (\<forall>i \<in> set (rcJobs rec). \<not> acked i d)) \<and>
     (\<forall>i \<in> set (rcJobs rec). queuedOk d agg i) \<and> distinct (rcJobs rec) \<and>
     undOk (rcUndelivered rec)"

definition inFlight :: "'t disp \<Rightarrow> job_id \<Rightarrow> bool" where
  "inFlight d i \<longleftrightarrow> (case dJobs d i of None \<Rightarrow> False | Some j \<Rightarrow> jTracked j \<and> \<not> jFinal j)"

definition keyOf :: "'t disp \<Rightarrow> job_id \<Rightarrow> (string \<times> int) option" where
  "keyOf d i = map_option (\<lambda>j. (jobAgg j, jobVersion j)) (dJobs d i)"

definition trackInv :: "'t disp \<Rightarrow> bool" where
  "trackInv d \<longleftrightarrow> (\<forall>i. i \<in> dInflight d \<longleftrightarrow> inFlight d i) \<and>
     (\<forall>key i. map_of (dTickets d) key = Some i \<longrightarrow> inFlight d i \<and> keyOf d i = Some key)"

lemma trackInvI:
  assumes "\<And>i. i \<in> dInflight d \<longleftrightarrow> inFlight d i"
    and "\<And>key i. map_of (dTickets d) key = Some i \<Longrightarrow> inFlight d i \<and> keyOf d i = Some key"
  shows "trackInv d"
  using assms unfolding trackInv_def by blast

lemma trackInvD:
  assumes "trackInv d"
  shows "i \<in> dInflight d \<longleftrightarrow> inFlight d i"
    and "map_of (dTickets d) key = Some i \<Longrightarrow> inFlight d i \<and> keyOf d i = Some key"
  using assms unfolding trackInv_def by blast+

lemma sameIds_keyOf:
  fixes d d' :: "'t disp"
  shows "sameIds d d' \<Longrightarrow> keyOf d' = keyOf d"
proof -
  have "keyOf d = (\<lambda>i. map_option (\<lambda>(e, a, f). (evAggregateID e, evVersion e)) (ident d i))" for d :: "'t disp"
    by (auto simp: keyOf_def ident_def jobAgg_def jobVersion_def option.map_comp o_def)
  then show "sameIds d d' \<Longrightarrow> keyOf d' = keyOf d" by (simp add: sameIds_def)
qed

definition dispInv :: "'t disp \<Rightarrow> bool" where
  "dispInv d \<longleftrightarrow>
     (\<forall>agg rec. getRec agg d = Some rec \<longrightarrow> recOk d agg rec) \<and> \<not> dFault d \<and>
     (\<forall>a b r s. getRec a d = Some r \<longrightarrow> getRec b d = Some s \<longrightarrow> rcHalt r = rcHalt s \<longrightarrow> a = b) \<and>
     (\<forall>ch \<in> dClosedChans d. ch < dNextChan d) \<and> (\<forall>i j. dJobs d i = Some j \<longrightarrow> i < dNextJob d) \<and>
     distinct (map fst (dRecords d)) \<and> trackInv d"

lemma dispInv_rec: "dispInv d \<Longrightarrow> getRec agg d = Some rec \<Longrightarrow> recOk d agg rec"
  by (simp add: dispInv_def)

lemma newDispatcher_inv: "dispInv newDispatcher"
  by (simp add: dispInv_def newDispatcher_def getRec_def trackInv_def inFlight_def)

lemma distinct_records [simp]:
  "distinct (map fst (dRecords d)) \<Longrightarrow> distinct (map fst (dRecords (putRec a r d)))"
  "distinct (map fst (dRecords d)) \<Longrightarrow> distinct (map fst (dRecords (delRec a d)))"
  by (simp_all add: putRec_def delRec_def distinct_update distinct_delete)

text \<open>A change of the job heap keeps a record in order when the queued jobs stay as they were.\<close>

lemma recOk_jobs:
  assumes "recOk d agg rec" "sameIds d d'" "dClosedChans d' = dClosedChans d" "dNextChan d' = dNextChan d"
    and "\<And>i. i \<in> set (rcJobs rec) \<Longrightarrow> dJobs d' i = dJobs d i"
  shows "recOk d' agg rec"
  using assms sameIds_acked[OF assms(2)] by (auto simp: recOk_def queuedOk_def)

lemma queued_in_one:
  assumes "dispInv d" "getRec a d = Some r" "getRec b d = Some s" "i \<in> set (rcJobs r)" "i \<in> set (rcJobs s)"
  shows "a = b"
  using dispInv_rec[OF assms(1,2)] dispInv_rec[OF assms(1,3)] assms(4,5)
  by (fastforce simp: recOk_def queuedOk_def)

definition unqueued :: "job_id \<Rightarrow> 't disp \<Rightarrow> bool" where
  "unqueued i d \<longleftrightarrow> (\<forall>agg rec. getRec agg d = Some rec \<longrightarrow> i \<notin> set (rcJobs rec))"

lemma inFlight_ops:
  "inFlight (markUnrun i e d) k = inFlight d k" "inFlight (markSettled i d) k = inFlight d k"
  "inFlight (complete i r d) k = (inFlight d k \<and> k \<noteq> i)"
  by (auto simp: inFlight_def markUnrun_def markSettled_def complete_def untrack_def Let_def split: option.splits)

lemma trackInv_mark: "trackInv d \<Longrightarrow> trackInv (markUnrun i e d)" "trackInv d \<Longrightarrow> trackInv (markSettled i d)"
proof -
  have "dInflight (markUnrun i e d) = dInflight d" "dTickets (markUnrun i e d) = dTickets d"
    "dInflight (markSettled i d) = dInflight d" "dTickets (markSettled i d) = dTickets d"
    by (auto simp: markUnrun_def markSettled_def split: option.splits)
  then show "trackInv d \<Longrightarrow> trackInv (markUnrun i e d)" "trackInv d \<Longrightarrow> trackInv (markSettled i d)"
    using sameIds_keyOf[OF sameIds_ops(1), of i d] sameIds_keyOf[OF sameIds_ops(2), of i e d]
    unfolding trackInv_def by (simp_all only: inFlight_ops) blast+
qed

lemma trackInv_release: "trackInv d \<Longrightarrow> trackInv (release i d)"
proof -
  have "inFlight (release i d) k = inFlight d k" for k by (auto simp: release_def inFlight_def split: option.splits)
  moreover have "dInflight (release i d) = dInflight d" "dTickets (release i d) = dTickets d"
    by (auto simp: release_def split: option.splits)
  moreover have "keyOf (release i d) = keyOf d" by (rule sameIds_keyOf) simp
  ultimately show "trackInv d \<Longrightarrow> trackInv (release i d)" by (simp add: trackInv_def)
qed

lemma trackInv_complete:
  assumes "trackInv d"
  shows "trackInv (complete i e d)"
proof -
  have K: "keyOf (complete i e d) = keyOf d" by (rule sameIds_keyOf) simp
  have I: "dInflight (complete i e d) = dInflight d - {i}"
    using trackInvD(1)[OF assms, of i] by (auto simp: inFlight_def complete_def untrack_def Let_def split: option.splits)
  have T: "inFlight d k \<and> k \<noteq> i \<and> keyOf d k = Some key" if t: "map_of (dTickets (complete i e d)) key = Some k" for key k
  proof -
    have sub: "map_of (dTickets d) key = Some k"
      using t by (auto simp: complete_def untrack_def Let_def delete_conv' split: option.splits if_splits)
    then have f: "inFlight d k" "keyOf d k = Some key" using trackInvD(2)[OF assms] by blast+
    have "k \<noteq> i"
    proof
      assume "k = i"
      with f obtain j where j: "dJobs d i = Some j" "jTracked j" "\<not> jFinal j" "key = (jobAgg j, jobVersion j)"
        by (auto simp: inFlight_def keyOf_def split: option.splits)
      with t sub \<open>k = i\<close> show False by (simp add: complete_def untrack_def Let_def delete_conv')
    qed
    with f show ?thesis by simp
  qed
  show ?thesis
    by (rule trackInvI) (use trackInvD(1)[OF assms] I T K in \<open>auto simp: inFlight_ops\<close>)
qed

lemma trackInv_putRec [simp]: "trackInv (putRec a r d) = trackInv d" "trackInv (delRec a d) = trackInv d"
  by (simp_all add: trackInv_def inFlight_def keyOf_def)

text \<open>Settling or completing a job that is in no queue keeps the invariant.\<close>

lemma job_op_inv:
  assumes "dispInv d" "jobsOnly d d'" "sameIds d d'" "trackInv d'" "unqueued i d"
    and "\<And>k. k \<noteq> i \<Longrightarrow> dJobs d' k = dJobs d k"
  shows "dispInv d'"
proof -
  have D: "dRecords d' = dRecords d" "dNextJob d' = dNextJob d" "dClosedChans d' = dClosedChans d"
    "dNextChan d' = dNextChan d" "dFault d' = dFault d" using assms(2) by (auto simp: jobsOnly_def)
  have "recOk d' agg rec" if "getRec agg d' = Some rec" for agg rec
  proof (rule recOk_jobs[OF _ assms(3) D(3,4)])
    have g: "getRec agg d = Some rec" using that jobsOnly_getRec[OF assms(2)] by simp
    then show "recOk d agg rec" by (rule dispInv_rec[OF assms(1)])
    show "dJobs d' k = dJobs d k" if "k \<in> set (rcJobs rec)" for k
      using that assms(5,6) g unfolding unqueued_def by metis
  qed
  moreover have "k < dNextJob d" if "dJobs d' k = Some j" for k j
    using assms(1) sameIds_dom[OF assms(3), of k] that unfolding dispInv_def by auto
  ultimately show ?thesis using assms(1,4) D jobsOnly_getRec[OF assms(2)] by (auto simp: dispInv_def)
qed

lemma settle_complete_inv:
  assumes "dispInv d" "unqueued i d"
  shows "dispInv (markSettled i d)" "dispInv (markUnrun i e d)" "dispInv (complete i r d)"
proof -
  have o: "k \<noteq> i \<Longrightarrow> dJobs (markSettled i d) k = dJobs d k \<and> dJobs (markUnrun i e d) k = dJobs d k \<and>
      dJobs (complete i r d) k = dJobs d k" for k
    by (auto simp: markSettled_def markUnrun_def complete_def untrack_def Let_def split: option.splits)
  have t: "trackInv d" using assms(1) by (simp add: dispInv_def)
  show "dispInv (markSettled i d)" by (rule job_op_inv[OF assms(1) _ _ _ assms(2)]) (use o t in \<open>simp_all add: trackInv_mark\<close>)
  show "dispInv (markUnrun i e d)" by (rule job_op_inv[OF assms(1) _ _ _ assms(2)]) (use o t in \<open>simp_all add: trackInv_mark\<close>)
  show "dispInv (complete i r d)" by (rule job_op_inv[OF assms(1) _ _ _ assms(2)]) (use o t in \<open>simp_all add: trackInv_complete\<close>)
qed

section \<open>Records\<close>

lemma recOk_cong:
  assumes "recOk d agg rec" "dClosedChans d' = dClosedChans d" "dNextChan d \<le> dNextChan d'" "dJobs d' = dJobs d"
  shows "recOk d' agg rec"
  using assms by (auto simp: recOk_def queuedOk_def acked_def)

lemma putRec_inv:
  assumes "dispInv d" "recOk d agg rec"
    and "\<And>b s. b \<noteq> agg \<Longrightarrow> getRec b d = Some s \<Longrightarrow> rcHalt s \<noteq> rcHalt rec"
  shows "dispInv (putRec agg rec d)"
proof -
  have "recOk (putRec agg rec d) b r" if "getRec b (putRec agg rec d) = Some r" for b r
    by (rule recOk_cong[of d]) (use that assms(1,2) in \<open>auto simp: dispInv_def split: if_splits\<close>)
  with assms(1,3) show ?thesis by (auto simp: dispInv_def) metis+
qed

lemma putRec_same_halt_inv:
  assumes "dispInv d" "getRec agg d = Some old" "recOk d agg rec" "rcHalt rec = rcHalt old"
  shows "dispInv (putRec agg rec d)"
  by (rule putRec_inv[OF assms(1,3)]) (use assms(1,2,4) in \<open>auto simp: dispInv_def\<close>)

lemma delRec_inv: "dispInv d \<Longrightarrow> dispInv (delRec agg d)"
proof -
  assume d: "dispInv d"
  have "recOk (delRec agg d) b r" if "getRec b (delRec agg d) = Some r" for b r
    by (rule recOk_cong[of d]) (use that d in \<open>auto simp: dispInv_def split: if_splits\<close>)
  with d show ?thesis by (auto simp: dispInv_def split: if_splits)
qed

lemma trackInv_cong:
  assumes "dJobs d' = dJobs d" "dInflight d' = dInflight d" "dTickets d' = dTickets d"
  shows "trackInv d' = trackInv d"
  using assms by (simp add: trackInv_def inFlight_def keyOf_def)

lemma dispInv_cong:
  assumes "dRecords d' = dRecords d" "dJobs d' = dJobs d" "dClosedChans d' = dClosedChans d"
    "dNextChan d' = dNextChan d" "dFault d' = dFault d" "dNextJob d' = dNextJob d"
    "dInflight d' = dInflight d" "dTickets d' = dTickets d"
  shows "dispInv d' = dispInv d"
proof -
  have g: "getRec a d' = getRec a d" for a using assms(1) by (simp add: getRec_def)
  have "recOk d' a r = recOk d a r" for a r using assms(2-4) by (simp add: recOk_def queuedOk_def acked_def)
  with g trackInv_cong[OF assms(2,7,8)] assms(1-6) show ?thesis by (simp add: dispInv_def)
qed

lemma makeChan_inv:
  assumes "dispInv d" "makeChan d = (ch, d')"
  shows "dispInv d'" "ch < dNextChan d'" "ch \<notin> dClosedChans d'" "getRec b d' = Some s \<Longrightarrow> rcHalt s \<noteq> ch"
    and "dJobs d' = dJobs d" "getRec b d' = getRec b d" "dClosedChans d' = dClosedChans d" "dGeneration d' = dGeneration d"
    and "dSpawned d' = dSpawned d" "dNextJob d' = dNextJob d"
proof -
  have d': "d' = d\<lparr>dNextChan := Suc (dNextChan d)\<rparr>" "ch = dNextChan d" using assms(2) by (auto simp: makeChan_def)
  have r: "recOk d' b r" if "getRec b d' = Some r" for b r
    by (rule recOk_cong[of d]) (use that assms(1) d' in \<open>auto simp: dispInv_def\<close>)
  have t: "trackInv d' = trackInv d" by (rule trackInv_cong) (simp_all add: d')
  show "dispInv d'" using r assms(1) t by (auto simp: dispInv_def d')
  show "ch < dNextChan d'" "ch \<notin> dClosedChans d'" using d' assms(1) by (auto simp: dispInv_def)
  show "rcHalt s \<noteq> ch" if "getRec b d' = Some s"
    using dispInv_rec[OF assms(1), of b s] that d' by (auto simp: recOk_def)
  show "dJobs d' = dJobs d" "getRec b d' = getRec b d" "dClosedChans d' = dClosedChans d" "dGeneration d' = dGeneration d"
    "dSpawned d' = dSpawned d" "dNextJob d' = dNextJob d"
    using d' by simp_all
qed

lemma discardIfEmpty_inv: "dispInv d \<Longrightarrow> dispInv (discardIfEmpty agg d)"
  by (auto simp: discardIfEmpty_def delRec_inv split: option.splits)

text \<open>
  A record that has neither worker nor park is removed at once: while it is there the
  invariant does not hold, so the record and its removal are one step.
\<close>

lemma put_discard_inv:
  assumes "dispInv d" "rcWorker rec \<or> rcParked rec \<Longrightarrow> recOk d agg rec" "rcJobs rec \<noteq> [] \<Longrightarrow> rcWorker rec"
    and "rcUndelivered rec \<noteq> [] \<Longrightarrow> rcParked rec"
    and "\<And>b s. b \<noteq> agg \<Longrightarrow> getRec b d = Some s \<Longrightarrow> rcHalt s \<noteq> rcHalt rec"
  shows "dispInv (discardIfEmpty agg (putRec agg rec d))"
proof (cases "rcWorker rec \<or> rcParked rec")
  case True
  show ?thesis by (rule discardIfEmpty_inv, rule putRec_inv[OF assms(1) assms(2)[OF True]]) (rule assms(5))
next
  case False
  then have "discardIfEmpty agg (putRec agg rec d) = delRec agg (putRec agg rec d)"
    using assms(3,4) by (auto simp: discardIfEmpty_def)
  also have "\<dots> = delRec agg d" by (simp add: delRec_def putRec_def delete_update_same)
  finally show ?thesis using delRec_inv[OF assms(1)] by simp
qed

section \<open>Queueing\<close>

lemma regPop_inv:
  assumes "dispInv d" "regPop agg d = (r, d')"
  shows "dispInv d'" "r = Some (i, halt) \<Longrightarrow> unqueued i d' \<and> queuedOk d' agg i"
proof -
  have "dispInv d' \<and> (\<forall>i halt. r = Some (i, halt) \<longrightarrow> unqueued i d' \<and> queuedOk d' agg i)"
  proof (cases "getRec agg d")
    case None
    with assms show ?thesis by (simp add: regPop_def)
  next
    case (Some rec)
    show ?thesis
    proof (cases "rcJobs rec")
      case Nil
      with assms Some show ?thesis by (simp add: regPop_def)
    next
      case (Cons k ks)
      have ok: "recOk d agg rec" using dispInv_rec[OF assms(1) Some] .
      have d': "d' = putRec agg (rec\<lparr>rcJobs := ks\<rparr>) d" "r = Some (k, rcHalt rec)"
        using assms(2) Some Cons by (auto simp: regPop_def)
      have "recOk d agg (rec\<lparr>rcJobs := ks\<rparr>)" using ok Cons by (auto simp: recOk_def)
      then have "dispInv d'" unfolding d' by (rule putRec_same_halt_inv[OF assms(1) Some]) simp
      moreover have "unqueued k d'"
      proof -
        have "k \<notin> set (rcJobs s)" if "b \<noteq> agg" "getRec b d = Some s" for b s
          using queued_in_one[OF assms(1) Some that(2), of k] that(1) Cons by auto
        moreover have "k \<notin> set ks" using ok Cons by (auto simp: recOk_def)
        ultimately show ?thesis using d'(1) by (auto simp: unqueued_def split: if_splits)
      qed
      moreover have "queuedOk d' agg k" using ok Cons d'(1) by (auto simp: recOk_def queuedOk_def)
      ultimately show ?thesis using d'(2) by simp
    qed
  qed
  then show "dispInv d'" "r = Some (i, halt) \<Longrightarrow> unqueued i d' \<and> queuedOk d' agg i" by auto
qed

lemma regRetire_inv: "dispInv d \<Longrightarrow> dispInv (snd (regRetire agg d))"
proof (cases "getRec agg d")
  case (Some rec)
  assume d: "dispInv d"
  have ok: "recOk d agg rec" using dispInv_rec[OF d Some] .
  show ?thesis
  proof (cases "rcJobs rec = []")
    case True
    have "dispInv (discardIfEmpty agg (putRec agg (rec\<lparr>rcWorker := False\<rparr>) d))"
      by (rule put_discard_inv[OF d]) (use ok True d Some in \<open>auto simp: recOk_def dispInv_def\<close>)
    with Some True show ?thesis by (simp add: regRetire_def)
  qed (use d Some in \<open>simp add: regRetire_def\<close>)
qed (simp add: regRetire_def)

text \<open>The record an enqueue or a park works on.\<close>

lemma recordOf_spec:
  assumes "dispInv d" "recordOf agg d = (rec, d')"
  shows "getRec agg d' = Some rec" "dJobs d' = dJobs d" "dClosedChans d' = dClosedChans d"
    "dGeneration d' = dGeneration d" "b \<noteq> agg \<Longrightarrow> getRec b d' = getRec b d" "dSpawned d' = dSpawned d"
    "getRec agg d = Some old \<Longrightarrow> rec = old \<and> d' = d"
    "getRec agg d = None \<Longrightarrow> rcJobs rec = [] \<and> \<not> rcWorker rec \<and> \<not> rcParked rec \<and>
       rcUndelivered rec = [] \<and> rcGeneration rec = 0 \<and> rcCause rec = None \<and> d' = putRec agg rec (snd (makeChan d)) \<and>
       rcHalt rec = dNextChan d"
    "dFault d' = dFault d" "dNextJob d' = dNextJob d" "dInflight d' = dInflight d" "dTickets d' = dTickets d"
  using assms by (auto simp: recordOf_def makeChan_def Let_def split: option.splits)

lemma track_spec:
  assumes "trackInv d" "dJobs d i = Some j" "\<not> jFinal j"
  shows "trackInv (track i d)" "dJobs (track i d) = (dJobs d)(i \<mapsto> j\<lparr>jTracked := True\<rparr>)"
proof -
  show jt: "dJobs (track i d) = (dJobs d)(i \<mapsto> j\<lparr>jTracked := True\<rparr>)" using assms(2) by (simp add: track_def)
  have I: "dInflight (track i d) = insert i (dInflight d)"
    "dTickets (track i d) = AList.update (jobAgg j, jobVersion j) i (dTickets d)"
    using assms(2) by (simp_all add: track_def)
  have F: "inFlight (track i d) k = (k = i \<or> inFlight d k)" for k
    using assms(2,3) by (auto simp: inFlight_def jt)
  have K: "keyOf (track i d) = keyOf d" by (rule sameIds_keyOf) simp
  show "trackInv (track i d)"
  proof (rule trackInvI)
    show "k \<in> dInflight (track i d) \<longleftrightarrow> inFlight (track i d) k" for k
      using trackInvD(1)[OF assms(1)] by (simp add: I F)
    show "inFlight (track i d) k \<and> keyOf (track i d) k = Some key"
      if "map_of (dTickets (track i d)) key = Some k" for key k
      using that trackInvD(2)[OF assms(1), of key k] assms(2)
      by (auto simp: I F K update_conv' keyOf_def split: if_splits)
  qed
qed

text \<open>Giving the aggregate a worker with fresh channels.\<close>

lemma ensureWorker_spec:
  assumes "dispInv d" "recordOf agg d = (rec, d1)" "ensureWorker agg rec d1 = (sp, d2)"
  obtains rec2 where "getRec agg d2 = Some rec2" "dispInv d2" "rcWorker rec2" "rcJobs rec2 = rcJobs rec"
    "rcParked rec2 = rcParked rec" "rcGeneration rec2 = rcGeneration rec" "rcUndelivered rec2 = rcUndelivered rec"
    "rcCause rec2 = rcCause rec" "dJobs d2 = dJobs d" "\<And>b. b \<noteq> agg \<Longrightarrow> getRec b d2 = getRec b d"
    "dClosed d2 = dClosed d" "dNextJob d2 = dNextJob d" "dGeneration d2 = dGeneration d"
    "dClosedChans d2 = dClosedChans d" "sp = (\<not> rcWorker rec)"
proof -
  note R = recordOf_spec[OF assms(1,2)]
  show thesis
  proof (cases "rcWorker rec")
    case True
    then have "getRec agg d \<noteq> None" using R(8) by auto
    then have "d1 = d" using R(7) by auto
    with True assms(1,3) R that[of rec] show thesis by (simp add: ensureWorker_def)
  next
    case False
    obtain ch d1' where mc: "makeChan d1 = (ch, d1')" by fastforce
    let ?rec2 = "rec\<lparr>rcWorker := True, rcWake := False, rcHalt := ch\<rparr>"
    have d2: "d2 = (putRec agg ?rec2 d1')\<lparr>dSpawned := agg # dSpawned d1'\<rparr>" "sp"
      using assms(3) False mc by (auto simp: ensureWorker_def)
    define d0 where "d0 = d\<lparr>dNextChan := dNextChan d1\<rparr>"
    have n: "dNextChan d \<le> dNextChan d1"
      using R(7,8) by (cases "getRec agg d") (auto simp: makeChan_def)
    have d0: "dispInv d0"
    proof -
      have "recOk d0 b r" if "getRec b d0 = Some r" for b r
        by (rule recOk_cong[of d]) (use that assms(1) n in \<open>auto simp: d0_def dispInv_def\<close>)
      moreover have "trackInv d0 = trackInv d" by (rule trackInv_cong) (simp_all add: d0_def)
      ultimately show ?thesis using assms(1) n by (auto simp: dispInv_def d0_def)
    qed
    obtain d0' where mc0: "makeChan d0 = (ch, d0')" using mc by (auto simp: makeChan_def d0_def)
    note M = makeChan_inv[OF d0 mc0]
    have ok: "recOk d0' agg ?rec2"
    proof (cases "getRec agg d")
      case (Some old)
      then have "rec = old" using R(7) by simp
      moreover have "recOk d0' agg old" using dispInv_rec[OF M(1), of agg old] Some M(6) by (simp add: d0_def)
      ultimately show ?thesis using M(2,3) by (auto simp: recOk_def)
    next
      case None
      with R(8) M(2,3) show ?thesis by (auto simp: recOk_def)
    qed
    have inv0: "dispInv (putRec agg ?rec2 d0')" by (rule putRec_inv[OF M(1) ok]) (use M(4) in auto)
    have eq: "putRec agg ?rec2 d1' = putRec agg ?rec2 d0'"
    proof (cases "getRec agg d")
      case (Some old)
      then have "d1 = d" using R(7) by simp
      then show ?thesis using mc mc0 by (auto simp: makeChan_def d0_def)
    next
      case None
      then have "d1 = putRec agg rec (d\<lparr>dNextChan := Suc (dNextChan d)\<rparr>)" using R(8) by (simp add: makeChan_def)
      then show ?thesis using mc mc0 by (auto simp: makeChan_def d0_def putRec_def update_last)
    qed
    have "dispInv d2 = dispInv (putRec agg ?rec2 d0')" by (rule dispInv_cong) (simp_all add: d2(1) eq)
    then have "dispInv d2" using inv0 by simp
    moreover have "dClosed d1' = dClosed d" "dNextJob d1' = dNextJob d" "dJobs d1' = dJobs d" "dGeneration d1' = dGeneration d"
      "dClosedChans d1' = dClosedChans d" "\<And>b. b \<noteq> agg \<Longrightarrow> getRec b d1' = getRec b d"
      using mc assms(2) R(5) by (auto simp: makeChan_def recordOf_def Let_def split: option.splits)
    ultimately show thesis using that[of ?rec2] d2 False by auto
  qed
qed

text \<open>Enqueueing a job that is in no queue yet.\<close>

lemma regEnqueueLocked_queues:
  assumes "dispInv d" "dJobs d i = Some j" "\<not> jDone j" "\<not> jFinal j" "unqueued i d"
    and "\<not> dClosed d" "\<not> ((case getRec (jobAgg j) d of None \<Rightarrow> False | Some rec \<Rightarrow> rcParked rec) \<and> jobAcked j)"
    and "regEnqueueLocked i d = (r, d')"
  obtains rec2 where "dispInv d'" "getRec (jobAgg j) d' = Some rec2" "isOk r" "rcWorker rec2" "rcWake rec2"
    "rcJobs rec2 = (case getRec (jobAgg j) d of None \<Rightarrow> [] | Some rec \<Rightarrow> rcJobs rec) @ [i]"
    "rcParked rec2 = (case getRec (jobAgg j) d of None \<Rightarrow> False | Some rec \<Rightarrow> rcParked rec)"
    "\<And>b. b \<noteq> jobAgg j \<Longrightarrow> getRec b d' = getRec b d"
    "trackerFor (jobAgg j) (jobVersion j) d' = Some i" "r = Ok \<lparr>adSpawned = (case getRec (jobAgg j) d of None \<Rightarrow> True | Some rec \<Rightarrow> \<not> rcWorker rec), adParked = False\<rparr>"
proof -
  let ?agg = "jobAgg j"
  obtain rec d1 where ro: "recordOf ?agg d = (rec, d1)" by fastforce
  obtain sp d2 where ew: "ensureWorker ?agg rec d1 = (sp, d2)" by fastforce
  note R = recordOf_spec[OF assms(1) ro]
  obtain rec2 where E: "getRec ?agg d2 = Some rec2" "dispInv d2" "rcWorker rec2" "rcJobs rec2 = rcJobs rec"
    "rcParked rec2 = rcParked rec" "dJobs d2 = dJobs d" "\<forall>b. b \<noteq> ?agg \<longrightarrow> getRec b d2 = getRec b d" "sp = (\<not> rcWorker rec)"
    by (rule ensureWorker_spec[OF assms(1) ro ew]) blast
  have rec: "rcJobs rec = (case getRec ?agg d of None \<Rightarrow> [] | Some rec \<Rightarrow> rcJobs rec)"
    "rcParked rec = (case getRec ?agg d of None \<Rightarrow> False | Some rec \<Rightarrow> rcParked rec)"
    "rcWorker rec = (case getRec ?agg d of None \<Rightarrow> False | Some rec \<Rightarrow> rcWorker rec)"
    using R(7,8) by (auto split: option.splits)
  let ?rec3 = "rec2\<lparr>rcJobs := rcJobs rec2 @ [i], rcWake := True\<rparr>"
  have d': "d' = putRec ?agg ?rec3 (track i d2)" "r = Ok \<lparr>adSpawned = sp, adParked = False\<rparr>"
    using assms(2,6-8) ro ew E(1) jobsOnly_getRec[OF jobsOnly_ops(4), of ?agg i d2]
    by (auto simp: regEnqueueLocked_def Let_def split: option.splits)
  have unq: "i \<notin> set (rcJobs s)" if "getRec b d2 = Some s" for b s
    using that E(1,4,7) assms(5) rec(1) by (cases "b = ?agg") (auto simp: unqueued_def split: option.splits)
  have tr: "trackInv (track i d2)" "dJobs (track i d2) = (dJobs d2)(i \<mapsto> j\<lparr>jTracked := True\<rparr>)"
    using track_spec[of d2 i j] E(2,6) assms(2,4) by (auto simp: dispInv_def)
  have it: "dispInv (track i d2)"
    by (rule job_op_inv[OF E(2)]) (use tr unq in \<open>auto simp: unqueued_def\<close>)
  have g: "getRec ?agg (track i d2) = Some rec2" using E(1) jobsOnly_getRec[OF jobsOnly_ops(4)] by metis
  have ok: "recOk (track i d2) ?agg ?rec3"
  proof -
    have "recOk (track i d2) ?agg rec2" by (rule dispInv_rec[OF it g])
    moreover have "queuedOk (track i d2) ?agg i" using tr(2) assms(3,4) by (simp add: queuedOk_def jobAgg_def)
    moreover have "rcParked rec2 \<longrightarrow> \<not> acked i (track i d2)"
      using E(5) rec(2) assms(7) tr(2) by (auto simp: acked_def jobAcked_def)
    ultimately show ?thesis using unq[OF E(1)] E(3) by (auto simp: recOk_def)
  qed
  have inv: "dispInv d'" unfolding d'(1) by (rule putRec_same_halt_inv[OF it g ok]) simp
  have oth: "getRec b d' = getRec b d" if "b \<noteq> ?agg" for b
    using that d'(1) E(7) jobsOnly_getRec[OF jobsOnly_ops(4)] by (metis getRec_putRec)
  have tk: "trackerFor ?agg (jobVersion j) d' = Some i"
    using E(6) assms(2) by (simp add: d'(1) trackerFor_def track_def update_conv')
  show thesis
    by (rule that[of ?rec3, OF inv]) (use d' E rec oth tk in \<open>auto split: option.splits\<close>)
qed

lemma regEnqueue_inv:
  assumes "dispInv d" "dJobs d i = Some j" "\<not> jDone j" "\<not> jFinal j" "unqueued i d" "regEnqueue i d = (r, d')"
  shows "dispInv d'"
proof -
  obtain q d1 where e: "regEnqueueLocked i d = (q, d1)" by fastforce
  show ?thesis
  proof (cases "dClosed d")
    case True
    with e assms(1,6) show ?thesis by (auto simp: regEnqueue_def regEnqueueLocked_def)
  next
    case opn: False
    show ?thesis
    proof (cases "(case getRec (jobAgg j) d of None \<Rightarrow> False | Some rec \<Rightarrow> rcParked rec) \<and> jobAcked j")
      case False
      obtain rec2 where "dispInv d1" "q = Ok \<lparr>adSpawned = (case getRec (jobAgg j) d of None \<Rightarrow> True | Some rec \<Rightarrow> \<not> rcWorker rec), adParked = False\<rparr>"
        by (rule regEnqueueLocked_queues[OF assms(1-5) opn False e])
      with e assms(6) show ?thesis by (auto simp: regEnqueue_def)
    next
      case True
      then obtain rec where rec: "getRec (jobAgg j) d = Some rec" "rcParked rec" by (auto split: option.splits)
      let ?d1 = "markParkedUnrun (jobAgg j) i d"
      have d': "d' = complete i (Some parkedErr) ?d1"
        using assms(2,6) True opn rec by (simp add: regEnqueue_def regEnqueueLocked_def)
      have mu: "dispInv (markUnrun i parkedErr d)" by (rule settle_complete_inv(2)[OF assms(1,5)])
      have g: "getRec b (markUnrun i parkedErr d) = getRec b d" for b
        using jobsOnly_getRec[OF jobsOnly_ops(2)] .
      let ?rec' = "rec\<lparr>rcUndelivered := AList.update (versionOf i d) parkedErr (rcUndelivered rec)\<rparr>"
      have d1: "?d1 = putRec (jobAgg j) ?rec' (markUnrun i parkedErr d)"
        using rec(1) g by (simp add: markParkedUnrun_def)
      have rok: "recOk (markUnrun i parkedErr d) (jobAgg j) rec" using dispInv_rec[OF mu] g rec(1) by simp
      then have rok': "recOk (markUnrun i parkedErr d) (jobAgg j) ?rec'"
        using rec(2) by (auto simp: recOk_def undOk_update)
      have "dispInv ?d1" unfolding d1 by (rule putRec_same_halt_inv[OF mu _ rok']) (use g rec in auto)
      moreover have "unqueued i ?d1" using assms(5) rec(1) g by (auto simp: unqueued_def d1 split: if_splits)
      ultimately show ?thesis unfolding d' by (rule settle_complete_inv(3))
    qed
  qed
qed

section \<open>Parking\<close>

text \<open>What parking does to the queue: it keeps what carries no ack, in order, and the rest is recorded, settled and completed.\<close>

definition dropped :: "'t job \<Rightarrow> 't job" where
  "dropped j = j\<lparr>jDone := True, jUnrun := Some parkedErr, jErr := Some parkedErr, jCancelled := True, jFinal := True\<rparr>"

definition restSame :: "'t disp \<Rightarrow> 't disp \<Rightarrow> bool" where
  "restSame d d' \<longleftrightarrow> dGeneration d' = dGeneration d \<and> dClosed d' = dClosed d \<and> dNextJob d' = dNextJob d \<and>
     dClosedChans d' = dClosedChans d \<and> dNextChan d' = dNextChan d \<and> dSpawned d' = dSpawned d \<and>
     dFault d' = dFault d \<and> dQuit d' = dQuit d \<and> (distinct (map fst (dRecords d)) \<longrightarrow> distinct (map fst (dRecords d')))"

lemma drop_acked:
  assumes "getRec agg d = Some rec" "queuedOk d agg i" "trackInv d"
  defines "d' \<equiv> complete i (Some parkedErr) (markParkedUnrun agg i d)"
  shows "getRec b d' = (if b = agg then Some (rec\<lparr>rcUndelivered := AList.update (versionOf i d) parkedErr (rcUndelivered rec)\<rparr>) else getRec b d)"
    and "sameIds d d'" "trackInv d'" "restSame d d'"
    and "dJobs d' k = (if k = i then map_option dropped (dJobs d i) else dJobs d k)"
proof -
  obtain j where j: "dJobs d i = Some j" "\<not> jDone j" "\<not> jFinal j" "jTracked j"
    using assms(2) by (auto simp: queuedOk_def)
  let ?rec = "rec\<lparr>rcUndelivered := AList.update (versionOf i d) parkedErr (rcUndelivered rec)\<rparr>"
  let ?d1 = "putRec agg ?rec (markUnrun i parkedErr d)"
  have d1: "markParkedUnrun agg i d = ?d1"
    using assms(1) jobsOnly_getRec[OF jobsOnly_ops(2), of agg i parkedErr d] by (simp add: markParkedUnrun_def)
  show "getRec b d' = (if b = agg then Some ?rec else getRec b d)"
    unfolding d'_def d1 using jobsOnly_getRec[OF jobsOnly_ops(3), of b i "Some parkedErr" ?d1]
      jobsOnly_getRec[OF jobsOnly_ops(2), of b i parkedErr d] by simp
  have "sameIds d ?d1" using sameIds_ops(2)[of d i parkedErr] by (simp add: sameIds_def ident_def fun_eq_iff)
  then show "sameIds d d'" unfolding d'_def d1 using sameIds_trans sameIds_ops(3) by blast
  show "trackInv d'" unfolding d'_def d1
    by (rule trackInv_complete) (use trackInv_mark(1)[OF assms(3)] in simp)
  have "jobsOnly (putRec agg ?rec (markUnrun i parkedErr d)) d'" unfolding d'_def d1 by simp
  moreover have "jobsOnly d (markUnrun i parkedErr d)" by simp
  ultimately show "restSame d d'"
    unfolding jobsOnly_def restSame_def using distinct_records(1)[of "markUnrun i parkedErr d" agg ?rec] by simp
  show "dJobs d' k = (if k = i then map_option dropped (dJobs d i) else dJobs d k)"
    using j unfolding d'_def d1
    by (auto simp: complete_def markUnrun_def untrack_def dropped_def Let_def)
qed

lemma restSame_refl [simp]: "restSame d d"
  by (simp add: restSame_def)

lemma restSame_trans: "restSame d d' \<Longrightarrow> restSame d' d'' \<Longrightarrow> restSame d d''"
  by (simp add: restSame_def)

lemma keepLive_pair:
  "keepLive agg i (kept, d) = (if \<not> acked i d then (kept @ [i], d)
     else (kept, complete i (Some parkedErr) (markParkedUnrun agg i d)))"
  by (simp add: keepLive_def)

lemma keepLive_fold:
  assumes "getRec agg d = Some rec" "\<forall>i \<in> set is. queuedOk d agg i" "distinct is" "trackInv d"
    and "fold (keepLive agg) is (kept, d) = (kept', d')"
  shows "kept' = kept @ filter (\<lambda>i. \<not> acked i d) is \<and> sameIds d d' \<and> trackInv d' \<and> restSame d d' \<and>
    (\<forall>b. getRec b d' = (if b = agg then Some (rec\<lparr>rcUndelivered :=
        fold (\<lambda>v. AList.update v parkedErr) (map (\<lambda>i. versionOf i d) (filter (\<lambda>i. acked i d) is)) (rcUndelivered rec)\<rparr>) else getRec b d)) \<and>
    (\<forall>k. dJobs d' k = (if k \<in> set is \<and> acked k d then map_option dropped (dJobs d k) else dJobs d k))"
  using assms
proof (induction "is" arbitrary: d rec kept)
  case Nil
  then show ?case by auto
next
  case (Cons i "is")
  show ?case
  proof (cases "acked i d")
    case False
    then have f: "fold (keepLive agg) is (kept @ [i], d) = (kept', d')" using Cons.prems(5) by (simp add: keepLive_pair)
    from Cons.IH[OF Cons.prems(1) _ _ Cons.prems(4) f] Cons.prems(2,3) False show ?thesis by auto
  next
    case True
    define d1 where "d1 = complete i (Some parkedErr) (markParkedUnrun agg i d)"
    let ?rec1 = "rec\<lparr>rcUndelivered := AList.update (versionOf i d) parkedErr (rcUndelivered rec)\<rparr>"
    have q: "queuedOk d agg i" using Cons.prems(2) by simp
    note D = drop_acked[OF Cons.prems(1) q Cons.prems(4), folded d1_def]
    have f: "fold (keepLive agg) is (kept, d1) = (kept', d')"
      using Cons.prems(5) True by (simp add: keepLive_pair d1_def)
    have q1: "\<forall>k \<in> set is. queuedOk d1 agg k"
      using Cons.prems(2,3) D(5) by (auto simp: queuedOk_def)
    have "getRec agg d1 = Some ?rec1" using D(1) by simp
    from Cons.IH[OF this q1 _ D(3) f] Cons.prems(3)
    have IH: "kept' = kept @ filter (\<lambda>i. \<not> acked i d1) is \<and> sameIds d1 d' \<and> trackInv d' \<and> restSame d1 d' \<and>
      (\<forall>b. getRec b d' = (if b = agg then Some (?rec1\<lparr>rcUndelivered :=
          fold (\<lambda>v. AList.update v parkedErr) (map (\<lambda>i. versionOf i d1) (filter (\<lambda>i. acked i d1) is)) (rcUndelivered ?rec1)\<rparr>) else getRec b d1)) \<and>
      (\<forall>k. dJobs d' k = (if k \<in> set is \<and> acked k d1 then map_option dropped (dJobs d1 k) else dJobs d1 k))"
      by auto
    have a: "acked k d1 = acked k d" "versionOf k d1 = versionOf k d" for k
      using sameIds_acked[OF D(2)] sameIds_version[OF D(2)] by auto
    have "i \<notin> set is" using Cons.prems(3) by simp
    with IH True D(1,5) sameIds_trans[OF D(2), of d'] restSame_trans[OF D(4), of d'] show ?thesis
      unfolding a by auto
  qed
qed

text \<open>
  The effect of a park on a running aggregate, and on one that is parked already.
\<close>

lemma regPark_running:
  assumes "dispInv d" "\<And>old. getRec agg d = Some old \<Longrightarrow> \<not> rcParked old"
  defines "js \<equiv> (case getRec agg d of None \<Rightarrow> [] | Some old \<Rightarrow> rcJobs old)"
  obtains rec where "getRec agg (regPark agg cause d) = Some rec" "dispInv (regPark agg cause d)"
    "rcParked rec" "rcGeneration rec = dGeneration d + 1" "rcCause rec = cause"
    "rcJobs rec = filter (\<lambda>i. \<not> acked i d) js"
    "rcUndelivered rec = fold (\<lambda>v. AList.update v parkedErr) (map (\<lambda>i. versionOf i d) (filter (\<lambda>i. acked i d) js)) []"
    "rcWorker rec = (case getRec agg d of None \<Rightarrow> False | Some old \<Rightarrow> rcWorker old)"
    "\<And>b. b \<noteq> agg \<Longrightarrow> getRec b (regPark agg cause d) = getRec b d"
    "dGeneration (regPark agg cause d) = dGeneration d + 1" "sameIds d (regPark agg cause d)"
    "\<And>k. dJobs (regPark agg cause d) k = (if k \<in> set js \<and> acked k d then map_option dropped (dJobs d k) else dJobs d k)"
    "dClosedChans (regPark agg cause d) = insert (rcHalt rec) (dClosedChans d)"
proof -
  obtain rec0 d1 where ro: "recordOf agg d = (rec0, d1)" by fastforce
  note R = recordOf_spec[OF assms(1) ro]
  have rec0: "rcJobs rec0 = js" "\<not> rcParked rec0" "rcUndelivered rec0 = []" "rcCause rec0 = None"
    "rcWorker rec0 = (case getRec agg d of None \<Rightarrow> False | Some old \<Rightarrow> rcWorker old)"
    using R(7,8) assms(2) dispInv_rec[OF assms(1), of agg] by (auto simp: js_def recOk_def split: option.splits)
  have d1: "dispInv (d\<lparr>dNextChan := dNextChan d1\<rparr>)" "dNextChan d \<le> dNextChan d1"
    using R(7,8) makeChan_inv(1)[OF assms(1)] assms(1)
    by (cases "getRec agg d"; force simp: makeChan_def)+
  let ?g = "dGeneration d + 1"
  let ?rec1 = "rec0\<lparr>rcCause := cause, rcParked := True, rcGeneration := ?g\<rparr>"
  have halt: "rcHalt rec0 \<notin> dClosedChans d" "rcHalt rec0 < dNextChan d1"
    "\<And>b s. b \<noteq> agg \<Longrightarrow> getRec b d = Some s \<Longrightarrow> rcHalt s \<noteq> rcHalt rec0"
  proof -
    have "rcHalt rec0 \<notin> dClosedChans d \<and> rcHalt rec0 < dNextChan d1 \<and>
        (\<forall>b s. b \<noteq> agg \<longrightarrow> getRec b d = Some s \<longrightarrow> rcHalt s \<noteq> rcHalt rec0)"
    proof (cases "getRec agg d")
      case (Some old)
      then show ?thesis using R(7) dispInv_rec[OF assms(1) Some] assms(1,2) by (auto simp: recOk_def dispInv_def)
    next
      case None
      then have "rcHalt rec0 = dNextChan d" "dNextChan d1 = Suc (dNextChan d)" using R(8) by (auto simp: makeChan_def)
      then show ?thesis using assms(1) dispInv_rec[OF assms(1)] by (fastforce simp: dispInv_def recOk_def)
    qed
    then show "rcHalt rec0 \<notin> dClosedChans d" "rcHalt rec0 < dNextChan d1"
      "\<And>b s. b \<noteq> agg \<Longrightarrow> getRec b d = Some s \<Longrightarrow> rcHalt s \<noteq> rcHalt rec0" by auto
  qed
  define d2 where "d2 = closeChan (rcHalt rec0) ((putRec agg ?rec1 d1)\<lparr>dGeneration := ?g\<rparr>)"
  have d2: "getRec b d2 = (if b = agg then Some ?rec1 else getRec b d)" "dJobs d2 = dJobs d"
      "dClosedChans d2 = insert (rcHalt rec0) (dClosedChans d)" "dNextChan d2 = dNextChan d1"
      "dGeneration d2 = ?g" "dFault d2 = dFault d" "dNextJob d2 = dNextJob d" "dInflight d2 = dInflight d"
      "dTickets d2 = dTickets d" "dRecords d2 = AList.update agg ?rec1 (dRecords d1)" for b
    using halt(1) R(1-5,9-12) by (auto simp: d2_def closeChan_def getRec_def putRec_def update_conv' split: if_splits)
  have dist1: "distinct (map fst (dRecords d1))"
    using ro assms(1) by (auto simp: recordOf_def makeChan_def Let_def dispInv_def split: option.splits)
  have old: "\<forall>i \<in> set js. queuedOk d2 agg i" "distinct js" "js \<noteq> [] \<longrightarrow> rcWorker rec0"
    using dispInv_rec[OF assms(1), of agg] rec0(5) d2(2)
    by (auto simp: js_def recOk_def queuedOk_def split: option.splits)
  have t2: "trackInv d2" using trackInv_cong[of d2 d] d2 assms(1) by (simp add: dispInv_def)
  obtain kept d3 where f: "fold (keepLive agg) js ([], d2) = (kept, d3)" by fastforce
  have a2: "acked i d2 = acked i d" "versionOf i d2 = versionOf i d" for i
    using d2(2) by (simp_all add: acked_def versionOf_def)
  let ?U = "fold (\<lambda>v. AList.update v parkedErr) (map (\<lambda>i. versionOf i d) (filter (\<lambda>i. acked i d) js)) []"
  have rec1: "getRec agg d2 = Some ?rec1" using d2(1) by simp
  note K = keepLive_fold[OF rec1 old(1,2) t2 f]
  let ?rec4 = "?rec1\<lparr>rcUndelivered := ?U, rcJobs := filter (\<lambda>i. \<not> acked i d) js\<rparr>"
  have K': "kept = filter (\<lambda>i. \<not> acked i d) js" "sameIds d2 d3" "trackInv d3" "restSame d2 d3"
    "getRec agg d3 = Some (?rec1\<lparr>rcUndelivered := ?U\<rparr>)" "\<And>b. b \<noteq> agg \<Longrightarrow> getRec b d3 = getRec b d"
    "\<And>k. dJobs d3 k = (if k \<in> set js \<and> acked k d then map_option dropped (dJobs d k) else dJobs d k)"
    using K d2(1,2) rec0(3) unfolding a2 by auto
  have pk: "regPark agg cause d = putRec agg ?rec4 d3"
    using ro rec0(1,2,4) f K'(1,5) R(4)
    by (simp add: regPark_def Let_def d2_def[symmetric] rec0(1))
  have F: "dClosedChans d3 = insert (rcHalt rec0) (dClosedChans d)" "dNextChan d3 = dNextChan d1" "dGeneration d3 = ?g"
    "dFault d3 = dFault d" "dNextJob d3 = dNextJob d" "distinct (map fst (dRecords d3))"
    using K'(4) d2 dist1 by (auto simp: restSame_def distinct_update)
  have "ident d2 = ident d" using d2(2) by (simp add: ident_def fun_eq_iff)
  then have ids: "sameIds d d3" using K'(2) by (simp add: sameIds_def)
  have r4: "recOk d3 agg ?rec4"
    using old(1,2,3) halt(2) F(1,2) K'(7) d2(2) sameIds_acked[OF ids]
    by (auto simp: recOk_def queuedOk_def undOk_fold)
  have rb: "recOk d3 b r" if b: "b \<noteq> agg" "getRec b d = Some r" for b r
  proof -
    have ok: "recOk d b r" by (rule dispInv_rec[OF assms(1) b(2)])
    have "dJobs d3 i = dJobs d i" if "i \<in> set (rcJobs r)" for i
    proof -
      have "i \<notin> set js"
      proof
        assume "i \<in> set js"
        then obtain o' where "getRec agg d = Some o'" "i \<in> set (rcJobs o')"
          by (cases "getRec agg d") (auto simp: js_def)
        with queued_in_one[OF assms(1) b(2)] that b(1) show False by blast
      qed
      with K'(7) show ?thesis by simp
    qed
    with ok halt(3)[OF b] d1(2) F(1,2) sameIds_acked[OF ids] show ?thesis by (auto simp: recOk_def queuedOk_def)
  qed
  have "dispInv (putRec agg ?rec4 d3)"
    unfolding dispInv_def
  proof (intro conjI allI impI ballI)
    show "recOk (putRec agg ?rec4 d3) b r" if "getRec b (putRec agg ?rec4 d3) = Some r" for b r
      by (rule recOk_cong[of d3]) (use that r4 rb K'(6) in \<open>auto split: if_splits\<close>)
    show "\<not> dFault (putRec agg ?rec4 d3)" using F(4) assms(1) by (simp add: dispInv_def)
    show "a = b" if "getRec a (putRec agg ?rec4 d3) = Some r" "getRec b (putRec agg ?rec4 d3) = Some s" "rcHalt r = rcHalt s" for a b r s
      using that K'(6) halt(3) assms(1) by (auto simp: dispInv_def split: if_splits) metis+
    show "ch < dNextChan (putRec agg ?rec4 d3)" if "ch \<in> dClosedChans (putRec agg ?rec4 d3)" for ch
      using that F(1,2) halt(2) d1(2) assms(1) by (auto simp: dispInv_def)
    show "i < dNextJob (putRec agg ?rec4 d3)" if "dJobs (putRec agg ?rec4 d3) i = Some j" for i j
      using that F(5) K'(7)[of i] assms(1) by (auto simp: dispInv_def split: if_splits)
    show "distinct (map fst (dRecords (putRec agg ?rec4 d3)))" using F(6) by simp
    show "trackInv (putRec agg ?rec4 d3)" using K'(3) by simp
  qed
  moreover have "sameIds d (putRec agg ?rec4 d3)" using ids by (simp add: sameIds_def)
  ultimately show thesis
    by (intro that[of ?rec4, unfolded pk]) (use F K' rec0(5) in simp_all)
qed

lemma regPark_parked:
  assumes "getRec agg d = Some rec" "rcParked rec"
  shows "regPark agg cause d = putRec agg (if rcCause rec = None then rec\<lparr>rcCause := cause\<rparr> else rec) d"
  using assms by (simp add: regPark_def recordOf_def Let_def)

lemma regPark_inv:
  assumes "dispInv d"
  shows "dispInv (regPark agg cause d) \<and> (\<exists>rec. getRec agg (regPark agg cause d) = Some rec \<and> rcParked rec)"
proof (cases "\<exists>rec. getRec agg d = Some rec \<and> rcParked rec")
  case True
  then obtain rec where r: "getRec agg d = Some rec" "rcParked rec" by blast
  have "recOk d agg (if rcCause rec = None then rec\<lparr>rcCause := cause\<rparr> else rec)"
    using dispInv_rec[OF assms r(1)] r(2) by (auto simp: recOk_def)
  then have "dispInv (regPark agg cause d)"
    unfolding regPark_parked[OF r] by (intro putRec_same_halt_inv[OF assms r(1)]) auto
  with r show ?thesis by (auto simp: regPark_parked[OF r])
next
  case False
  then have "\<And>old. getRec agg d = Some old \<Longrightarrow> \<not> rcParked old" by blast
  then show ?thesis by (rule regPark_running[OF assms, where cause = cause]) blast+
qed

lemma regParkVersions_inv:
  assumes "dispInv d"
  shows "dispInv (regParkVersions agg cause vs d)"
proof -
  obtain rec where r: "dispInv (regPark agg cause d)" "getRec agg (regPark agg cause d) = Some rec" "rcParked rec"
    using regPark_inv[OF assms] by blast
  let ?rec = "rec\<lparr>rcUndelivered := fold (\<lambda>v m. AList.update v parkedErr m) vs (rcUndelivered rec)\<rparr>"
  have "recOk (regPark agg cause d) agg ?rec"
    using dispInv_rec[OF r(1,2)] r(3) by (auto simp: recOk_def undOk_fold)
  then show ?thesis
    using r(2) by (simp add: regParkVersions_def Let_def) (intro putRec_same_halt_inv[OF r(1,2)], auto)
qed

lemma regParkIfCurrent_inv: "dispInv d \<Longrightarrow> dispInv (snd (regParkIfCurrent agg halt du cause d))"
  by (simp add: regParkIfCurrent_def regPark_inv)

lemma regLift_inv:
  assumes "dispInv d"
  shows "dispInv (regLift agg d)"
proof (cases "getRec agg d")
  case (Some rec)
  obtain ch d1 where mc: "makeChan d = (ch, d1)" by fastforce
  note M = makeChan_inv[OF assms mc]
  have ok: "recOk d1 agg rec" using dispInv_rec[OF M(1), of agg rec] M(6) Some by simp
  let ?rec = "rec\<lparr>rcParked := False, rcGeneration := 0, rcCause := None, rcUndelivered := [], rcHalt := ch\<rparr>"
  have "dispInv (discardIfEmpty agg (putRec agg ?rec d1))"
    by (rule put_discard_inv[OF M(1)]) (use ok M(2,3,4) in \<open>auto simp: recOk_def\<close>)
  with Some mc show ?thesis by (simp add: regLift_def)
qed (use assms in \<open>simp add: regLift_def\<close>)

lemma regLiftGeneration_inv: "dispInv d \<Longrightarrow> dispInv (snd (regLiftGeneration agg gen d))"
  by (simp add: regLiftGeneration_def regLift_inv split: option.split)

lemma regSupersede_inv: "dispInv d \<Longrightarrow> dispInv (regSupersede agg d)"
  by (simp add: regSupersede_def regLift_inv regPark_inv)

lemma markParkedUnrun_inv:
  assumes "dispInv d" "unqueued i d" "getRec agg d = Some rec" "rcParked rec"
  shows "dispInv (markParkedUnrun agg i d)"
proof -
  have mu: "dispInv (markUnrun i parkedErr d)" by (rule settle_complete_inv(2)[OF assms(1,2)])
  have g: "getRec agg (markUnrun i parkedErr d) = Some rec" using jobsOnly_getRec[OF jobsOnly_ops(2)] assms(3) by metis
  have "recOk (markUnrun i parkedErr d) agg (rec\<lparr>rcUndelivered := AList.update (versionOf i d) parkedErr (rcUndelivered rec)\<rparr>)"
    using dispInv_rec[OF mu g] assms(4) by (auto simp: recOk_def undOk_update)
  then show ?thesis
    using g by (simp add: markParkedUnrun_def Let_def) (intro putRec_same_halt_inv[OF mu g], auto)
qed

lemma regSettleIfParked_inv:
  assumes "dispInv d" "unqueued i d"
  shows "dispInv (snd (regSettleIfParked agg halt i d))"
  using markParkedUnrun_inv[OF assms] settle_complete_inv(2)[OF assms] assms(1)
  by (auto simp: regSettleIfParked_def split: option.split)

lemma dispEnqueue_inv:
  assumes "dispInv d"
  shows "dispInv (snd (dispEnqueue c rq d))"
proof -
  let ?i = "dNextJob d"
  let ?j = "jobNew ((withoutCancel c)\<lparr>ctxHandler := Some (evAggregateID (rqEvent rq))\<rparr>) rq"
  let ?d1 = "(setJob ?i ?j d)\<lparr>dNextJob := Suc ?i\<rparr>"
  have new: "dJobs d ?i = None" using assms by (fastforce simp: dispInv_def)
  have nq: "?i \<notin> set (rcJobs rec)" if "getRec b d = Some rec" for b rec
    using dispInv_rec[OF assms that] new by (auto simp: recOk_def queuedOk_def)
  have rec: "recOk ?d1 b r" if "getRec b d = Some r" for b r
    using dispInv_rec[OF assms that] nq[OF that] by (auto simp: recOk_def queuedOk_def acked_def)
  have t: "trackInv ?d1"
  proof (rule trackInvI)
    have T: "trackInv d" using assms by (simp add: dispInv_def)
    have F: "inFlight ?d1 k = inFlight d k" for k using new by (auto simp: inFlight_def jobNew_def)
    show "k \<in> dInflight ?d1 \<longleftrightarrow> inFlight ?d1 k" for k using trackInvD(1)[OF T] F by simp
    show "inFlight ?d1 k \<and> keyOf ?d1 k = Some key" if "map_of (dTickets ?d1) key = Some k" for k key
      using trackInvD(2)[OF T, of key k] that F new by (auto simp: keyOf_def inFlight_def)
  qed
  have inv1: "dispInv ?d1" using assms rec t by (auto simp: dispInv_def less_Suc_eq)
  have unq: "unqueued ?i ?d1" using nq by (auto simp: unqueued_def)
  obtain r d2 where e: "regEnqueue ?i ?d1 = (r, d2)" by fastforce
  have d2: "dispInv d2" by (rule regEnqueue_inv[OF inv1 _ _ _ unq e]) (auto simp: jobNew_def)
  have closed: "d2 = ?d1" if "r = Fail er" for er
    using e that by (auto simp: regEnqueue_def regEnqueueLocked_def Let_def split: if_splits outcome.splits prod.splits)
  have "dispInv (release ?i ?d1)"
    by (rule job_op_inv[OF inv1 _ _ trackInv_release[OF t] unq]) (simp, simp, simp add: release_def)
  with e d2 closed show ?thesis by (cases r) (auto simp: dispEnqueue_def Let_def)
qed

lemma dispClose_inv: "dispInv d \<Longrightarrow> dispInv (snd (dispClose dr e d))" "dispInv d \<Longrightarrow> dispInv (dispInterrupt d)"
proof -
  have "dispInv (snd (dispClose dr e d)) = dispInv d"
    by (rule dispInv_cong) (simp_all add: dispClose_def regClose_def dispInterrupt_def Let_def)
  then show "dispInv d \<Longrightarrow> dispInv (snd (dispClose dr e d))" by simp
  have "dispInv (dispInterrupt d) = dispInv d" by (rule dispInv_cong) (simp_all add: dispInterrupt_def)
  then show "dispInv d \<Longrightarrow> dispInv (dispInterrupt d)" by simp
qed

end
