(* ===== verification/Delivery_Correct.thy ===== *)
theory Delivery_Correct
  imports Delivery Registry_Correct
begin

text \<open>
  Theory of the delivery: what a worker's run over one job keeps of the dispatcher's state
  whatever the other goroutines do meanwhile, and what it leaves in the log.
\<close>

section \<open>Frames\<close>

lemmas report_defs = publishError_def deliveryError_def reportPanic_def reportTimeout_def logged_def

lemma wDisp_reports [simp]:
  "wDisp (logged x w) = wDisp w" "wDisp (publishError cf i e w) = wDisp w"
  "wDisp (deliveryError cf i e n w) = wDisp w" "wDisp (reportPanic cf i p w) = wDisp w"
  "wDisp (reportTimeout cf i sub n w) = wDisp w"
  by (simp_all add: report_defs)

lemma wTick_reports [simp]:
  "wTick (logged x w) = wTick w" "wTick (publishError cf i e w) = wTick w"
  "wTick (deliveryError cf i e n w) = wTick w" "wTick (reportPanic cf i p w) = wTick w"
  "wTick (reportTimeout cf i sub n w) = wTick w"
  by (simp_all add: report_defs)

section \<open>What the run of a job keeps of the dispatcher\<close>

text \<open>
  The critical sections of one run: a predicate that the other goroutines' turns and the
  worker's own critical sections keep holds at the end of the run.
\<close>

locale delivery_run =
  fixes en :: "'t environment" and agg :: string and halt :: chan and i :: job_id
    and P :: "'t disp \<Rightarrow> bool"
  assumes P_others: "P d \<Longrightarrow> P (fold applyOp (enOthers en t) d)"
    and P_settle: "P d \<Longrightarrow> P (markSettled i d)"
    and P_settleIfParked: "P d \<Longrightarrow> P (snd (regSettleIfParked agg halt i d))"
    and P_park: "P d \<Longrightarrow> P (snd (regParkIfCurrent agg halt b (Some c) d))"
begin

lemma P_othersTurn [simp, intro]: "P (wDisp w) \<Longrightarrow> P (wDisp (others en w))"
  by (simp add: others_def P_others)

lemma P_callRecovering: "P (wDisp w) \<Longrightarrow> P (wDisp (snd (callRecovering cf en i j sub n w)))"
  by (auto simp: callRecovering_def split: handler_result.splits)

lemma P_runDurable: "P (wDisp w) \<Longrightarrow> P (wDisp (snd (runDurable cf en i j sub n w)))"
  by (auto simp: runDurable_def intro!: P_callRecovering)

lemma P_trySub:
  "P (wDisp (snd (snd acc))) \<Longrightarrow> P (wDisp (snd (snd (trySub cf en i j n sub acc))))"
  using P_runDurable [of "snd (snd acc)" cf j sub n]
  by (auto simp: trySub_def Let_def split: prod.splits option.splits)

lemma P_trySubs:
  "P (wDisp (snd (snd acc))) \<Longrightarrow> P (wDisp (snd (snd (fold (trySub cf en i j n) subs acc))))"
proof (induction subs arbitrary: acc)
  case (Cons sub subs)
  then show ?case by (metis fold_simps(2) P_trySub)
qed simp

lemma P_attemptAll: "P (wDisp w) \<Longrightarrow> P (wDisp (snd (snd (attemptAll cf en i j subs n w))))"
  using P_trySubs [of "([], [], w)" cf j n subs] by (auto simp: attemptAll_def split: prod.splits)

lemma P_parkThenReport:
  assumes "P (wDisp w)" and "\<And>w. wDisp (report w) = wDisp w"
  shows "P (wDisp (parkThenReport en agg halt j cause report w))"
  using assms by (simp add: parkThenReport_def Let_def P_park P_othersTurn)

lemma P_giveUp: "P (wDisp w) \<Longrightarrow> P (wDisp (snd (giveUp cf en agg halt i j e n w)))"
  by (auto simp: giveUp_def deadLettered_def Let_def intro!: P_parkThenReport
      split: prod.splits bool.splits option.splits)

lemma P_waitRetry: "P (wDisp w) \<Longrightarrow> P (wDisp (snd (waitRetry en agg halt j w)))"
  by (auto simp: waitRetry_def Let_def intro!: P_parkThenReport)

lemma P_settleAfterFirst: "P (wDisp w) \<Longrightarrow> P (wDisp (settleAfterFirst i n w))"
  by (simp add: settleAfterFirst_def P_settle)

lemma P_retryLoop: "P (wDisp w) \<Longrightarrow> P (wDisp (snd (retryLoop cf en agg halt i j subs n b w)))"
proof (induction "nat (cfMaxAttempts cf - n)" arbitrary: subs n b w rule: less_induct)
  case less
  obtain failed e w1 where at: "attemptAll cf en i j subs n w = (failed, e, w1)"
    by (metis prod_cases3)
  obtain r w3 where wt: "waitRetry en agg halt j (settleAfterFirst i n w1) = (r, w3)"
    by fastforce
  have P1: "P (wDisp (settleAfterFirst i n w1))"
    using P_attemptAll [OF less.prems, of cf j subs n] by (simp add: at P_settleAfterFirst)
  have "P (wDisp w3)"
    using P_waitRetry [OF P1, of j] by (simp add: wt)
  then show ?case
    by (subst retryLoop.simps)
      (auto simp: at wt Let_def P1 P_giveUp intro!: less.hyps split: option.splits)
qed

lemma P_deliver: "P (wDisp w) \<Longrightarrow> P (wDisp (snd (deliver cf en agg halt i j w)))"
  by (simp add: deliver_def Let_def P_retryLoop)

lemma P_heldByPark: "P (wDisp w) \<Longrightarrow> P (wDisp (snd (heldByPark agg halt i j w)))"
  using P_settleIfParked [of "wDisp w"] by (auto simp: heldByPark_def split: prod.splits)

lemma P_publishLive: "P (wDisp w) \<Longrightarrow> P (wDisp (publishLive cf en i j w))"
  by (auto simp: publishLive_def Let_def split: handler_result.splits option.splits)

lemma P_ackJob: "P (wDisp w) \<Longrightarrow> P (wDisp (snd (ackJob cf en agg halt i j w)))"
  by (auto simp: ackJob_def Let_def intro!: P_parkThenReport split: handler_result.splits option.splits)

lemma P_deliverJob:
  assumes "P (wDisp w)" shows "P (wDisp (snd (deliverJob cf en agg halt i j w)))"
proof -
  obtain held w1 where h: "heldByPark agg halt i j w = (held, w1)" by fastforce
  obtain r w3 where dl: "deliver cf en agg halt i j (publishLive cf en i j w1) = (r, w3)" by fastforce
  have P1: "P (wDisp w1)" using P_heldByPark [OF assms, of j] by (simp add: h)
  then have P2: "P (wDisp (publishLive cf en i j w1))" by (rule P_publishLive)
  then have "P (wDisp w3)" using P_deliver [OF P2, of cf j] by (simp add: dl)
  then show ?thesis
    by (auto simp: deliverJob_def h dl Let_def P1 P2 P_ackJob split: bool.splits option.splits)
qed

lemma wDisp_recover [simp]:
  "wDisp (snd (recoverDispatcherPanic cf i rw)) = wDisp (snd rw)"
  by (auto simp: recoverDispatcherPanic_def Let_def split: prod.splits outcome.splits)

text \<open>The run ends with the job's completion, whatever happened before it.\<close>

lemma P_finishJob:
  assumes "P (wDisp w)" and "\<And>d. P d \<Longrightarrow> Q (complete i r d)"
  shows "Q (wDisp (finishJob en i r w))"
  using assms by (simp add: finishJob_def Let_def P_settle P_othersTurn)

lemma P_handleJob:
  assumes "P (wDisp w)" and "dJobs (wDisp w) i \<noteq> None" and "\<And>d r. P d \<Longrightarrow> Q (complete i r d)"
  shows "Q (wDisp (handleJob cf en agg halt i w))"
proof -
  obtain j where j: "dJobs (wDisp w) i = Some j" using assms(2) by auto
  define rw where "rw = recoverDispatcherPanic cf i (deliverJob cf en agg halt i j (others en w))"
  have "P (wDisp (snd rw))"
    using assms(1) by (simp add: rw_def P_deliverJob P_othersTurn)
  then have "Q (wDisp (finishJob en i (fst rw) (snd rw)))"
    by (rule P_finishJob) (rule assms(3))
  moreover have "handleJob cf en agg halt i w = finishJob en i (fst rw) (snd rw)"
    by (simp add: handleJob_def j rw_def case_prod_beta)
  ultimately show ?thesis by simp
qed

end

section \<open>The dispatcher only moves forward\<close>

text \<open>
  A closed channel stays closed, an interrupt stays, and a job keeps what it was created with
  and, once settled or final, the answer it then gave.
\<close>

definition jobFollows :: "'t job \<Rightarrow> 't job \<Rightarrow> bool" where
  "jobFollows j j' \<longleftrightarrow> jEvent j' = jEvent j \<and> jCtx j' = jCtx j \<and> jAck j' = jAck j \<and> jForget j' = jForget j \<and>
     jSkipLive j' = jSkipLive j \<and> (jDone j \<longrightarrow> jDone j' \<and> jUnrun j' = jUnrun j) \<and>
     (jFinal j \<longrightarrow> jFinal j' \<and> jErr j' = jErr j)"

definition follows :: "'t disp \<Rightarrow> 't disp \<Rightarrow> bool" where
  "follows d d' \<longleftrightarrow> dClosedChans d \<subseteq> dClosedChans d' \<and> dNextJob d \<le> dNextJob d' \<and> (dQuit d \<longrightarrow> dQuit d') \<and>
     (\<forall>i < dNextJob d. \<forall>j. dJobs d i = Some j \<longrightarrow> (\<exists>j'. dJobs d' i = Some j' \<and> jobFollows j j'))"

lemma jobFollows_refl [simp]: "jobFollows j j"
  by (simp add: jobFollows_def)

lemma jobFollows_trans: "jobFollows a b \<Longrightarrow> jobFollows b c \<Longrightarrow> jobFollows a c"
  by (simp add: jobFollows_def)

lemma follows_refl [simp]: "follows d d"
  by (simp add: follows_def)

lemma follows_trans [trans]:
  assumes "follows a b" "follows b c" shows "follows a c"
  using assms unfolding follows_def
  by (meson jobFollows_trans le_less_trans less_le_trans order_trans subset_trans)

lemma followsD:
  assumes "follows d d'"
  shows "ch \<in> dClosedChans d \<Longrightarrow> ch \<in> dClosedChans d'"
    and "dJobs d i = Some j \<Longrightarrow> i < dNextJob d \<Longrightarrow> \<exists>j'. dJobs d' i = Some j' \<and> jobFollows j j'"
    and "dNextJob d \<le> dNextJob d'"
  using assms unfolding follows_def by blast+

lemma follows_fold: "(\<And>x d. follows d (f x d)) \<Longrightarrow> follows d (fold f xs d)"
  by (induction xs arbitrary: d) (auto intro: follows_trans)

lemma follows_putRec [simp]: "follows d (putRec agg rec d)" "follows d (delRec agg d)"
  by (simp_all add: follows_def)

lemma follows_setJob:
  "dJobs d i = Some j \<Longrightarrow> jobFollows j j' \<Longrightarrow> follows d (setJob i j' d)"
  by (simp add: follows_def)

lemma follows_upd [simp]:
  "follows d (d\<lparr>dInflight := x\<rparr>)" "follows d (d\<lparr>dTickets := y\<rparr>)" "follows d (d\<lparr>dGeneration := g\<rparr>)"
  "follows d (d\<lparr>dSpawned := sp\<rparr>)" "follows d (d\<lparr>dNextChan := n\<rparr>)" "follows d (d\<lparr>dClosed := b\<rparr>)"
  "follows d (d\<lparr>dStopped := b\<rparr>)" "follows d (d\<lparr>dBaseCancelled := b\<rparr>)" "follows d (d\<lparr>dQuit := True\<rparr>)"
  by (simp_all add: follows_def)

lemma follows_mark [simp]: "follows d (markSettled i d)" "follows d (markUnrun i e d)"
  by (auto simp: markSettled_def markUnrun_def jobFollows_def intro!: follows_setJob split: option.splits)

lemma follows_untrack [simp]: "follows d (untrack i j d)"
  by (auto simp: untrack_def Let_def follows_def)

lemma follows_complete [simp]: "follows d (complete i r d)"
proof (cases "dJobs d i")
  case (Some j)
  have "\<not> jFinal j \<Longrightarrow> follows d (setJob i (j\<lparr>jErr := r, jCancelled := True, jFinal := True\<rparr>) d)"
    using Some by (intro follows_setJob) (auto simp: jobFollows_def)
  then show ?thesis
    by (auto simp: complete_def Some Let_def intro: follows_trans [OF _ follows_untrack])
qed (simp add: complete_def)

lemma follows_track [simp]: "follows d (track i d)"
  by (auto simp: track_def follows_def jobFollows_def split: option.splits)

lemma follows_release [simp]: "follows d (release i d)"
  by (auto simp: release_def jobFollows_def intro!: follows_setJob split: option.splits)

lemma follows_makeChan [simp]: "follows d (snd (makeChan d))"
  by (simp add: makeChan_def)

lemma follows_closeChan [simp]: "follows d (closeChan ch d)"
  by (auto simp: closeChan_def follows_def)

lemma follows_recordOf [simp]: "follows d (snd (recordOf agg d))"
  by (auto simp: recordOf_def makeChan_def Let_def follows_def split: option.splits)

lemma follows_markParkedUnrun [simp]: "follows d (markParkedUnrun agg i d)"
  by (auto simp: markParkedUnrun_def Let_def split: option.splits intro: follows_trans [OF _ follows_putRec(1)])

lemma follows_discardIfEmpty [simp]: "follows d (discardIfEmpty agg d)"
  by (simp add: discardIfEmpty_def split: option.splits)

lemma follows_keepLive: "follows (snd kd) (snd (keepLive agg i kd))"
  by (cases kd) (auto simp: keepLive_def intro: follows_trans [OF follows_markParkedUnrun follows_complete])

lemma follows_keepLives: "follows (snd kd) (snd (fold (keepLive agg) is kd))"
proof (induction "is" arbitrary: kd)
  case (Cons i js)
  then show ?case by (metis follows_keepLive follows_trans fold_simps(2))
qed simp

lemma follows_regPark [simp]: "follows d (regPark agg cause d)"
proof -
  obtain rec0 d1 where r: "recordOf agg d = (rec0, d1)" by fastforce
  define rec where "rec = (if rcCause rec0 = None then rec0\<lparr>rcCause := cause\<rparr> else rec0)"
  define d2 where "d2 = closeChan (rcHalt rec)
    ((putRec agg (rec\<lparr>rcParked := True, rcGeneration := dGeneration d1 + 1\<rparr>) d1)\<lparr>dGeneration := dGeneration d1 + 1\<rparr>)"
  obtain kept d3 where k: "fold (keepLive agg) (rcJobs rec) ([], d2) = (kept, d3)" by fastforce
  have d01: "follows d d1" using follows_recordOf [of d agg] by (simp add: r)
  have "follows d1 d2"
    unfolding d2_def
    by (rule follows_trans [OF _ follows_closeChan], rule follows_trans [OF _ follows_upd(3)]) simp
  also have "follows d2 d3"
    using follows_keepLives [of "([], d2)" agg "rcJobs rec"] by (simp add: k)
  finally have "follows d d3" using d01 follows_trans by blast
  then have "follows d (case getRec agg d3 of None \<Rightarrow> d3 | Some rec3 \<Rightarrow> putRec agg (rec3\<lparr>rcJobs := kept\<rparr>) d3)"
    by (auto split: option.splits intro: follows_trans [OF _ follows_putRec(1)])
  moreover have "follows d (putRec agg rec d1)"
    using d01 follows_putRec(1) follows_trans by blast
  ultimately show ?thesis
    by (simp add: regPark_def r Let_def rec_def [symmetric] d2_def [symmetric] k)
qed

lemma follows_regLift [simp]: "follows d (regLift agg d)"
proof (cases "getRec agg d")
  case (Some rec)
  obtain ch d1 where m: "makeChan d = (ch, d1)" by fastforce
  have "follows d d1" using follows_makeChan [of d] by (simp add: m)
  then show ?thesis
    by (simp add: regLift_def Some m) (meson follows_discardIfEmpty follows_putRec(1) follows_trans)
qed (simp add: regLift_def)

lemma follows_ensureWorker [simp]: "follows d (snd (ensureWorker agg rec d))"
  by (simp add: ensureWorker_def makeChan_def Let_def follows_def)

lemma follows_regEnqueueLocked [simp]: "follows d (snd (regEnqueueLocked i d))"
proof -
  have "follows d (track i (snd (ensureWorker (jobAgg job) rec (snd (recordOf (jobAgg job) d)))))" for job rec
    by (meson follows_ensureWorker follows_recordOf follows_track follows_trans)
  then show ?thesis
    by (auto simp: regEnqueueLocked_def Let_def case_prod_beta split: option.splits
        intro: follows_trans [OF _ follows_putRec(1)])
qed

lemma follows_regEnqueue [simp]: "follows d (snd (regEnqueue i d))"
proof -
  obtain r d1 where l: "regEnqueueLocked i d = (r, d1)" by fastforce
  have "follows d d1" using follows_regEnqueueLocked [of d i] unfolding l by simp
  then show ?thesis
    by (auto simp: regEnqueue_def l split: outcome.splits intro: follows_trans [OF _ follows_complete])
qed

lemma follows_dispEnqueue [simp]: "follows d (snd (dispEnqueue c rq d))"
proof -
  define d1 where "d1 = (setJob (dNextJob d) (jobNew ((withoutCancel c)\<lparr>ctxHandler := Some (evAggregateID (rqEvent rq))\<rparr>) rq) d)
      \<lparr>dNextJob := Suc (dNextJob d)\<rparr>"
  have "follows d d1" by (simp add: d1_def follows_def)
  then have "follows d (snd (regEnqueue (dNextJob d) d1))"
    using follows_regEnqueue follows_trans by blast
  then show ?thesis
    by (auto simp: dispEnqueue_def Let_def d1_def [symmetric] split: prod.splits outcome.splits
        intro: follows_trans [OF _ follows_release])
qed

lemma follows_regParkVersions [simp]: "follows d (regParkVersions agg cause vs d)"
  by (auto simp: regParkVersions_def Let_def split: option.splits intro: follows_trans [OF _ follows_putRec(1)])

lemma follows_applyOp [simp]: "follows d (applyOp op d)"
proof (cases op)
  case (OpSupersede agg)
  then show ?thesis by (simp add: regSupersede_def) (meson follows_regLift follows_regPark follows_trans)
next
  case (OpClose drained cerr)
  then show ?thesis by (auto simp: dispClose_def regClose_def dispInterrupt_def Let_def follows_def)
next
  case (OpRetire agg)
  then show ?thesis
    by (auto simp: regRetire_def split: option.splits intro: follows_trans [OF follows_putRec(1) follows_discardIfEmpty])
qed (auto simp: regLiftGeneration_def dispInterrupt_def regPop_def regParkIfCurrent_def regSettleIfParked_def
    split: option.splits list.splits)

lemma follows_others [simp]: "follows (wDisp w) (wDisp (others en w))"
  by (simp add: others_def follows_fold)

interpretation fwd: delivery_run en agg halt i "follows d0" for en :: "'t environment" and agg halt i d0
proof (unfold_locales)
  fix d :: "'t disp" and b c t
  assume d: "follows d0 d"
  show "follows d0 (fold applyOp (enOthers en t) d)"
    by (rule follows_trans [OF d], rule follows_fold) simp
  show "follows d0 (markSettled i d)"
    by (rule follows_trans [OF d]) simp
  show "follows d0 (snd (regSettleIfParked agg halt i d))"
    using follows_applyOp [of d "OpSettleIfParked agg halt i"] follows_trans [OF d] by simp
  show "follows d0 (snd (regParkIfCurrent agg halt b (Some c) d))"
    using follows_applyOp [of d "OpParkIfCurrent agg halt b (Some c)"] follows_trans [OF d] by simp
qed

lemma markSettled_done:
  "dJobs d i = Some j \<Longrightarrow> \<exists>j'. dJobs (markSettled i d) i = Some j' \<and> jDone j'"
  by (auto simp: markSettled_def)

lemma complete_final:
  assumes "dJobs d i = Some j"
  shows "\<exists>j'. dJobs (complete i r d) i = Some j' \<and> jFinal j' \<and> jDone j' = jDone j \<and>
      jUnrun j' = jUnrun j \<and> (if jFinal j then jErr j' = jErr j else jErr j' = r)"
  using assms by (auto simp: complete_def untrack_def Let_def)

text \<open>Whatever happened, a job that was handled is settled and final.\<close>

lemma finishJob_ends:
  assumes j: "dJobs (wDisp w) i = Some j" and i: "i < dNextJob (wDisp w)"
  shows "\<exists>j'. dJobs (wDisp (finishJob en i r w)) i = Some j' \<and> jDone j' \<and> jFinal j'"
proof -
  define w1 where "w1 = others en w"
  define w2 where "w2 = others en (w1\<lparr>wDisp := markSettled i (wDisp w1)\<rparr>)"
  have f1: "follows (wDisp w) (wDisp w1)" by (simp add: w1_def)
  then obtain j1 where j1: "dJobs (wDisp w1) i = Some j1" using followsD(2) [OF f1 j i] by auto
  then obtain j2 where j2: "dJobs (markSettled i (wDisp w1)) i = Some j2" "jDone j2"
    using markSettled_done by blast
  have f2: "follows (markSettled i (wDisp w1)) (wDisp w2)"
    using follows_others [of "w1\<lparr>wDisp := markSettled i (wDisp w1)\<rparr>" en] by (simp add: w2_def)
  have "i < dNextJob (markSettled i (wDisp w1))"
    using i followsD(3) [OF f1] followsD(3) [OF follows_mark(1) [of "wDisp w1" i]] by simp
  then obtain j3 where j3: "dJobs (wDisp w2) i = Some j3" "jDone j3"
    using followsD(2) [OF f2 j2(1)] j2(2) by (auto simp: jobFollows_def)
  have "wDisp (finishJob en i r w) = complete i r (wDisp w2)"
    by (simp add: finishJob_def Let_def w1_def w2_def)
  then show ?thesis using complete_final [OF j3(1), of r] j3(2) by auto
qed

lemma handleJob_finish:
  assumes "dJobs (wDisp w) i = Some j"
  shows "handleJob cf en agg halt i w =
    finishJob en i (fst (recoverDispatcherPanic cf i (deliverJob cf en agg halt i j (others en w))))
      (snd (recoverDispatcherPanic cf i (deliverJob cf en agg halt i j (others en w))))"
  by (simp add: handleJob_def assms case_prod_beta)

lemma handleJob_ends:
  assumes j: "dJobs (wDisp w) i = Some j" and i: "i < dNextJob (wDisp w)"
  shows "\<exists>j'. dJobs (wDisp (handleJob cf en agg halt i w)) i = Some j' \<and> jDone j' \<and> jFinal j' \<and> jobFollows j j'"
proof -
  define rw where "rw = recoverDispatcherPanic cf i (deliverJob cf en agg halt i j (others en w))"
  have f: "follows (wDisp w) (wDisp (snd rw))"
    by (simp add: rw_def fwd.wDisp_recover fwd.P_deliverJob)
  obtain j1 where j1: "dJobs (wDisp (snd rw)) i = Some j1" using followsD(2) [OF f j i] by auto
  have "i < dNextJob (wDisp (snd rw))" using i followsD(3) [OF f] by simp
  then have "\<exists>j'. dJobs (wDisp (finishJob en i (fst rw) (snd rw))) i = Some j' \<and> jDone j' \<and> jFinal j'"
    using finishJob_ends [OF j1] by blast
  moreover have h: "handleJob cf en agg halt i w = finishJob en i (fst rw) (snd rw)"
    unfolding rw_def by (rule handleJob_finish [OF j])
  moreover have fl: "follows (wDisp w) (wDisp (handleJob cf en agg halt i w))"
    by (rule fwd.P_handleJob) (auto simp: j intro: follows_trans [OF _ follows_complete])
  ultimately show ?thesis using followsD(2) [OF fl j i] by auto
qed

section \<open>What a delivery logs\<close>

fun callsOf :: "'t log_entry list \<Rightarrow> ('t durable_sub \<times> int \<times> goerr option) list" where
  "callsOf [] = []"
| "callsOf (Called i sub n r # xs) = (sub, n, r) # callsOf xs"
| "callsOf (x # xs) = callsOf xs"

fun isReport :: "'t log_entry \<Rightarrow> bool" where
  "isReport (Reported i r) = True"
| "isReport x = False"

fun isAck :: "'t log_entry \<Rightarrow> bool" where
  "isAck (Acknowledged i key r) = True"
| "isAck x = False"

fun isDead :: "'t log_entry \<Rightarrow> bool" where
  "isDead (DeadLettered i) = True"
| "isDead x = False"

fun isCall :: "'t log_entry \<Rightarrow> bool" where
  "isCall (Called i sub n r) = True"
| "isCall x = False"

lemma callsOf_append [simp]: "callsOf (xs @ ys) = callsOf xs @ callsOf ys"
  by (induction xs rule: callsOf.induct) auto

lemma callsOf_reports: "list_all isReport xs \<Longrightarrow> callsOf xs = []"
  by (induction xs rule: callsOf.induct) auto

text \<open>\<open>adds w w' new\<close>: the log grew by \<open>new\<close>.\<close>

definition adds :: "'t world \<Rightarrow> 't world \<Rightarrow> 't log_entry list \<Rightarrow> bool" where
  "adds w w' new \<longleftrightarrow> wLog w' = wLog w @ new"

lemma adds_refl [simp]: "adds w w []"
  by (simp add: adds_def)

lemma adds_trans: "adds a b xs \<Longrightarrow> adds b c ys \<Longrightarrow> adds a c (xs @ ys)"
  by (simp add: adds_def)

lemma adds_others [simp]: "adds w (others en w') new = adds w w' new"
  by (simp add: adds_def others_def)

lemma adds_wDisp [simp]: "adds w (w'\<lparr>wDisp := d\<rparr>) new = adds w w' new"
  "adds (w\<lparr>wDisp := d\<rparr>) w' new = adds w w' new"
  by (simp_all add: adds_def)

lemma adds_report:
  "\<exists>new. adds w (publishError cf i e w) new \<and> list_all isReport new"
  "\<exists>new. adds w (deliveryError cf i e n w) new \<and> list_all isReport new"
  "\<exists>new. adds w (reportPanic cf i p w) new \<and> list_all isReport new"
  "\<exists>new. adds w (reportTimeout cf i sub n w) new \<and> list_all isReport new"
  by (auto simp: adds_def report_defs)

end
