(* ===== verification/Delivery_Log.thy ===== *)
theory Delivery_Log
  imports Delivery_Correct
begin

text \<open>
  The log of a delivery: which subscribers were called in which attempt, and what has
  happened by the time an event is acknowledged, dead-lettered or given up.
\<close>

section \<open>One attempt\<close>

definition calling :: "'t log_entry list \<Rightarrow> ('t durable_sub \<times> int \<times> goerr option) list \<Rightarrow> bool" where
  "calling new cs \<longleftrightarrow> list_all (\<lambda>x. isReport x \<or> isCall x) new \<and> callsOf new = cs"

lemma calling_append: "calling xs cs \<Longrightarrow> calling ys ds \<Longrightarrow> calling (xs @ ys) (cs @ ds)"
  by (simp add: calling_def)

lemma calling_reports: "list_all isReport xs \<Longrightarrow> calling xs []"
  by (auto simp: calling_def callsOf_reports list_all_iff)

lemma adds_callRecovering:
  "callRecovering cf en i j sub n w = (r, w') \<Longrightarrow> \<exists>new. adds w w' new \<and> calling new [(sub, n, r)]"
  by (auto simp: callRecovering_def adds_def logged_def reportPanic_def others_def calling_def
      split: handler_result.splits if_splits)

lemma adds_runDurable:
  assumes "runDurable cf en i j sub n w = (r, w')"
  shows "\<exists>new. adds w w' new \<and> calling new [(sub, n, r)]"
proof (cases "dsTimeout sub \<le> 0 \<or> \<not> dsSlow sub (wTick w)")
  case True
  then show ?thesis using assms by (auto simp: runDurable_def intro: adds_callRecovering split: if_splits)
next
  case False
  then have c: "callRecovering cf en i j sub n (reportTimeout cf i sub n w) = (r, w')"
    using assms by (simp add: runDurable_def)
  obtain xs where "adds w (reportTimeout cf i sub n w) xs" "list_all isReport xs" using adds_report by blast
  moreover obtain ys where "adds (reportTimeout cf i sub n w) w' ys" "calling ys [(sub, n, r)]"
    using adds_callRecovering [OF c] by blast
  ultimately have "adds w w' (xs @ ys)" "calling (xs @ ys) ([] @ [(sub, n, r)])"
    using adds_trans calling_reports calling_append by blast+
  then show ?thesis by auto
qed

text \<open>The calls of one attempt over the pending subscribers, and who failed in it.\<close>

definition attemptRow :: "int \<Rightarrow> ('t durable_sub \<times> goerr option) list \<Rightarrow> ('t durable_sub \<times> int \<times> goerr option) list" where
  "attemptRow n row = map (\<lambda>(s, r). (s, n, r)) row"

definition failures :: "('t durable_sub \<times> goerr option) list \<Rightarrow> 't durable_sub list" where
  "failures row = map fst (filter (\<lambda>(s, r). r \<noteq> None) row)"

lemma adds_trySub:
  assumes "trySub cf en i j n sub (fs, es, w) = (fs', es', w')"
  shows "\<exists>r new. adds w w' new \<and> calling new (attemptRow n [(sub, r)]) \<and> fs' = fs @ failures [(sub, r)] \<and>
      es' = es @ (case r of None \<Rightarrow> [] | Some e \<Rightarrow> [SubscriberErr (dsName sub) e])"
proof -
  obtain r w1 where rd: "runDurable cf en i j sub n w = (r, w1)" by fastforce
  obtain xs where xs: "adds w w1 xs" "calling xs [(sub, n, r)]" using adds_runDurable [OF rd] by blast
  show ?thesis
  proof (cases r)
    case None
    then show ?thesis
      using assms xs by (intro exI [of _ r]) (auto simp: trySub_def rd attemptRow_def failures_def)
  next
    case (Some e)
    define f where "f = SubscriberErr (dsName sub) e"
    obtain ys where ys: "adds w1 (deliveryError cf i f n w1) ys" "list_all isReport ys"
      using adds_report by blast
    have "adds w (deliveryError cf i f n w1) (xs @ ys)" "calling (xs @ ys) ([(sub, n, r)] @ [])"
      using adds_trans [OF xs(1) ys(1)] calling_append [OF xs(2) calling_reports [OF ys(2)]] by auto
    then show ?thesis
      using assms by (intro exI [of _ r]) (auto simp: trySub_def rd Some Let_def attemptRow_def failures_def f_def)
  qed
qed

lemma attemptRow_iff [simp]: "(s, k, r) \<in> set (attemptRow n row) \<longleftrightarrow> k = n \<and> (s, r) \<in> set row"
  by (auto simp: attemptRow_def)

lemma attemptRow_Cons: "attemptRow n (x # row) = attemptRow n [x] @ attemptRow n row"
  by (simp add: attemptRow_def)

lemma failures_Cons: "failures (x # row) = failures [x] @ failures row"
  by (simp add: failures_def)

lemma adds_trySubs:
  assumes "fold (trySub cf en i j n) subs (fs, es, w) = (fs', es', w')"
  shows "\<exists>row new. adds w w' new \<and> map fst row = subs \<and> calling new (attemptRow n row) \<and> fs' = fs @ failures row \<and>
    length es' = length es + length (failures row)"
  using assms
proof (induction subs arbitrary: fs es w)
  case Nil
  then show ?case
    by (intro exI [of _ "[]"]) (auto simp: calling_def attemptRow_def failures_def)
next
  case (Cons sub subs)
  obtain fs1 es1 w1 where t: "trySub cf en i j n sub (fs, es, w) = (fs1, es1, w1)" by (metis prod_cases3)
  obtain r xs where r: "adds w w1 xs" "calling xs (attemptRow n [(sub, r)])" "fs1 = fs @ failures [(sub, r)]"
      "es1 = es @ (case r of None \<Rightarrow> [] | Some e \<Rightarrow> [SubscriberErr (dsName sub) e])"
    using adds_trySub [OF t] by blast
  obtain row ys where row: "adds w1 w' ys" "map fst row = subs" "calling ys (attemptRow n row)"
      "fs' = fs1 @ failures row" "length es' = length es1 + length (failures row)"
    using Cons.IH [of fs1 es1 w1] Cons.prems t by auto
  have "adds w w' (xs @ ys)" "calling (xs @ ys) (attemptRow n ((sub, r) # row))"
    using adds_trans [OF r(1) row(1)] calling_append [OF r(2) row(3)] by (auto simp: attemptRow_Cons [of n "(sub, r)" row])
  moreover have "fs' = fs @ failures ((sub, r) # row)"
    using r(3) row(4) by (simp add: failures_Cons [of "(sub, r)" row])
  moreover have "length es' = length es + length (failures ((sub, r) # row))"
    using r(4) row(5) by (auto simp: failures_def split: option.splits)
  ultimately show ?case
    using row(2) by (intro exI [of _ "(sub, r) # row"] exI [of _ "xs @ ys"]) simp
qed

lemma adds_attemptAll:
  assumes "attemptAll cf en i j pending n w = (failed, e, w')"
  shows "\<exists>row new. adds w w' new \<and> map fst row = pending \<and> calling new (attemptRow n row) \<and> failed = failures row"
proof -
  obtain errs where f: "fold (trySub cf en i j n) pending ([], [], w) = (failed, errs, w')"
    using assms by (auto simp: attemptAll_def split: prod.splits)
  show ?thesis using adds_trySubs [OF f] by auto
qed

section \<open>All attempts\<close>

text \<open>
  The calls of a delivery from attempt \<open>n\<close> on: a row per attempt, each over those that
  failed in the one before, and who is left in the end.
\<close>

inductive attempts ::
  "int \<Rightarrow> int \<Rightarrow> 't durable_sub list \<Rightarrow> ('t durable_sub \<times> int \<times> goerr option) list \<Rightarrow> 't durable_sub list \<Rightarrow> bool"
  for mx :: int where
  last_attempt: "map fst row = pending \<Longrightarrow> attempts mx n pending (attemptRow n row) (failures row)"
| next_attempt: "map fst row = pending \<Longrightarrow> n < mx \<Longrightarrow> failures row \<noteq> [] \<Longrightarrow>
     attempts mx (n + 1) (failures row) cs left \<Longrightarrow> attempts mx n pending (attemptRow n row @ cs) left"

lemma attempts_bounds:
  "attempts mx n pending cs left \<Longrightarrow> (s, k, r) \<in> set cs \<Longrightarrow> n \<le> k \<and> k \<le> max n mx"
  by (induction rule: attempts.induct) auto

lemma failures_sub: "set (failures row) \<subseteq> set (map fst row)"
  by (auto simp: failures_def)

lemma attempts_subs:
  "attempts mx n pending cs left \<Longrightarrow> (s, k, r) \<in> set cs \<Longrightarrow> s \<in> set pending"
proof (induction rule: attempts.induct)
  case (next_attempt row pending n cs left)
  then show ?case using failures_sub [of row] by force
qed force

lemma attempts_all_succeed:
  assumes "attempts mx n pending cs left" and "s \<in> set pending" and "s \<notin> set left"
  shows "\<exists>k. (s, k, None) \<in> set cs"
  using assms
proof (induction rule: attempts.induct)
  case (last_attempt row pending n)
  then obtain r where "(s, r) \<in> set row" by auto
  moreover have "r = None" using last_attempt(3) \<open>(s, r) \<in> set row\<close> by (force simp: failures_def)
  ultimately show ?case by auto
next
  case (next_attempt row pending n cs left)
  then show ?case
  proof (cases "s \<in> set (failures row)")
    case False
    obtain r where r: "(s, r) \<in> set row" using next_attempt.hyps(1) next_attempt.prems(1) by auto
    moreover have "r = None" using False r by (force simp: failures_def)
    ultimately show ?thesis by auto
  qed auto
qed

lemma failures_distinct: "distinct (map fst row) \<Longrightarrow> distinct (failures row)"
  by (simp add: failures_def distinct_map_filter)

text \<open>Who succeeded is not called again, and nobody is called twice in an attempt.\<close>

lemma row_none_not_failed:
  "distinct (map fst row) \<Longrightarrow> (s, None) \<in> set row \<Longrightarrow> s \<notin> set (failures row)"
  by (auto simp: failures_def) (metis eq_key_imp_eq_value option.distinct(1))

fun neverAgain :: "('t durable_sub \<times> int \<times> goerr option) list \<Rightarrow> bool" where
  "neverAgain [] \<longleftrightarrow> True"
| "neverAgain ((s, k, r) # cs) \<longleftrightarrow>
     (\<forall>(s', k', r') \<in> set cs. s' = s \<longrightarrow> k' \<noteq> k \<and> r \<noteq> None) \<and> neverAgain cs"

lemma neverAgain_append:
  "neverAgain (xs @ ys) \<longleftrightarrow> neverAgain xs \<and> neverAgain ys \<and>
     (\<forall>(s, k, r) \<in> set xs. \<forall>(s', k', r') \<in> set ys. s' = s \<longrightarrow> k' \<noteq> k \<and> r \<noteq> None)"
  by (induction xs rule: neverAgain.induct) auto

lemma neverAgain_row: "distinct (map fst row) \<Longrightarrow> neverAgain (attemptRow n row)"
  by (induction row) (force simp: attemptRow_def)+

lemma attempts_once:
  assumes "attempts mx n pending cs left" and "distinct pending"
  shows "neverAgain cs"
  using assms
proof (induction rule: attempts.induct)
  case (next_attempt row pending n cs left)
  have dist: "distinct (map fst row)" using next_attempt by simp
  have "k' \<noteq> n \<and> r \<noteq> None" if "(s, r) \<in> set row" "(s, k', r') \<in> set cs" for s r k' r'
  proof (cases r)
    case None
    then have "s \<notin> set (failures row)" using row_none_not_failed [OF dist] that by simp
    then show ?thesis using attempts_subs [OF next_attempt.hyps(4)] that by blast
  next
    case (Some e)
    then show ?thesis using attempts_bounds [OF next_attempt.hyps(4) that(2)] by simp
  qed
  then show ?case
    using next_attempt.IH neverAgain_row [OF dist] failures_distinct [OF dist]
    by (fastforce simp: neverAgain_append)
qed (simp add: neverAgain_row)

section \<open>The whole delivery\<close>

lemma adds_parkThenReport:
  assumes "\<And>w. \<exists>new. adds w (report w) new \<and> list_all isReport new"
  shows "\<exists>new. adds w (parkThenReport en agg halt j cause report w) new \<and> list_all isReport new"
proof -
  define w1 where "w1 = (others en w)\<lparr>wDisp := snd (regParkIfCurrent agg halt (jobAcked j) (Some cause) (wDisp (others en w)))\<rparr>"
  obtain new where "adds w1 (report w1) new" "list_all isReport new" using assms by blast
  moreover have "adds w w1 []" by (simp add: w1_def)
  ultimately have "adds w (report w1) new" using adds_trans [of w w1 "[]" "report w1" new] by simp
  then show ?thesis
    using \<open>list_all isReport new\<close> by (auto simp: parkThenReport_def Let_def w1_def)
qed

text \<open>Giving up runs nobody, and reports success only for an event that was dead-lettered.\<close>

lemma adds_giveUp:
  assumes "giveUp cf en agg halt i j e n w = (r, w')"
  shows "\<exists>new. adds w w' new \<and> list_all (\<lambda>x. isReport x \<or> x = DeadLettered i) new \<and>
     (r = None \<longleftrightarrow> DeadLettered i \<in> set new) \<and> (r = None \<longrightarrow> deadLetters cf j)"
proof (cases "isClosedChan halt (wDisp w)")
  case True
  then show ?thesis using assms by (auto simp: giveUp_def intro!: exI [of _ "[]"])
next
  case False
  obtain dead w1 where dl: "deadLettered cf i j e n w = (dead, w1)" by fastforce
  have "\<exists>new. adds w w1 new \<and> list_all (\<lambda>x. isReport x \<or> x = DeadLettered i) new \<and>
      (dead \<longleftrightarrow> DeadLettered i \<in> set new) \<and> (dead \<longrightarrow> deadLetters cf j)"
    using dl by (auto simp: deadLettered_def deliveryError_def logged_def adds_def split: if_splits option.splits)
  then obtain xs where xs: "adds w w1 xs" "list_all (\<lambda>x. isReport x \<or> x = DeadLettered i) xs"
      "dead \<longleftrightarrow> DeadLettered i \<in> set xs" "dead \<longrightarrow> deadLetters cf j" by blast
  show ?thesis
  proof (cases dead)
    case True
    then show ?thesis using assms xs by (auto simp: giveUp_def dl \<open>\<not> isClosedChan halt (wDisp w)\<close>)
  next
    case nd: False
    define parked where "parked = Errorf [Wrap (Sentinel ErrDeliveryParked), Lit (attemptsText n), Wrap (lastErr e)]"
    obtain ys where ys: "adds w1 (parkThenReport en agg halt j parked (deliveryError cf i parked n) w1) ys"
        "list_all isReport ys"
      using adds_parkThenReport [of "deliveryError cf i parked n"] adds_report(2) by blast
    have "DeadLettered i \<notin> set ys" using ys(2) by (auto simp: list_all_iff)
    moreover have "r = Some parked" "w' = parkThenReport en agg halt j parked (deliveryError cf i parked n) w1"
      using assms False nd by (auto simp: giveUp_def dl Let_def parked_def)
    ultimately show ?thesis
      using adds_trans [OF xs(1) ys(1)] xs ys(2) nd
      by (intro exI [of _ "xs @ ys"]) (auto simp: list_all_iff)
  qed
qed

lemma adds_waitRetry:
  "waitRetry en agg halt j w = (r, w') \<Longrightarrow> adds w w' []"
  by (auto simp: waitRetry_def parkThenReport_def Let_def split: if_splits)

definition delivering :: "job_id \<Rightarrow> 't log_entry list \<Rightarrow> bool" where
  "delivering i new \<longleftrightarrow> list_all (\<lambda>x. isReport x \<or> isCall x \<or> x = DeadLettered i) new"

lemma delivering_append [simp]: "delivering i (xs @ ys) \<longleftrightarrow> delivering i xs \<and> delivering i ys"
  by (simp add: delivering_def)

lemma delivering_calling: "calling new cs \<Longrightarrow> delivering i new \<and> DeadLettered i \<notin> set new"
  by (auto simp: calling_def delivering_def list_all_iff)

lemma entry_kinds:
  "isCall x \<Longrightarrow> \<not> isReport x" "isAck x \<Longrightarrow> \<not> isReport x \<and> \<not> isCall x"
  by (cases x; simp)+

lemma reports_no_ack: "list_all isReport xs \<Longrightarrow> Acknowledged i key r \<notin> set xs"
  by (induction xs) auto

lemma callsOf_none: "(\<forall>x \<in> set xs. \<not> isCall x) \<Longrightarrow> callsOf xs = []"
  by (induction xs rule: callsOf.induct) auto

text \<open>
  The outcome of a delivery that ran from attempt \<open>n\<close> over \<open>pending\<close>: success means that
  nobody is left, or that the event was dead-lettered.
\<close>

definition deliveryRan ::
  "'t dispatcher_config \<Rightarrow> job_id \<Rightarrow> 't job \<Rightarrow> int \<Rightarrow> 't durable_sub list \<Rightarrow> goerr option \<Rightarrow> 't log_entry list \<Rightarrow> bool" where
  "deliveryRan cf i j n pending r new \<longleftrightarrow> delivering i new \<and>
     (\<exists>left. attempts (cfMaxAttempts cf) n pending (callsOf new) left \<and>
        (r = None \<longrightarrow> left = [] \<or> DeadLettered i \<in> set new)) \<and>
     (DeadLettered i \<in> set new \<longrightarrow> deadLetters cf j)"

lemma settleAfterFirst_adds [simp]: "adds w (settleAfterFirst i n w') new = adds w w' new"
  by (simp add: settleAfterFirst_def)

lemma retryLoop_log:
  assumes "retryLoop cf en agg halt i j pending n b w = (r, w')"
  shows "\<exists>new. adds w w' new \<and> deliveryRan cf i j n pending r new"
  using assms
proof (induction "nat (cfMaxAttempts cf - n)" arbitrary: pending n b w rule: less_induct)
  case less
  obtain failed e w1 where at: "attemptAll cf en i j pending n w = (failed, e, w1)" by (metis prod_cases3)
  define w2 where "w2 = settleAfterFirst i n w1"
  obtain row xs where row: "adds w w2 xs" "map fst row = pending" "calling xs (attemptRow n row)" "failed = failures row"
    using adds_attemptAll [OF at] by (auto simp: w2_def)
  have xs: "delivering i xs" "DeadLettered i \<notin> set xs" "callsOf xs = attemptRow n row"
    using row(3) delivering_calling by (auto simp: calling_def)
  have fst: "attempts (cfMaxAttempts cf) n pending (attemptRow n row) failed"
    using row by (auto intro: last_attempt)
  consider "failed = []" | "failed \<noteq> []" "n \<ge> cfMaxAttempts cf" | "failed \<noteq> []" "n < cfMaxAttempts cf" by fastforce
  then show ?case
  proof cases
    case 1
    then have "r = None" "w' = w2" using less.prems by (subst (asm) retryLoop.simps, simp add: at w2_def)+
    then show ?thesis using row(1) xs fst 1 by (auto simp: deliveryRan_def)
  next
    case 2
    then have "giveUp cf en agg halt i j e n w2 = (r, w')"
      using less.prems by (subst (asm) retryLoop.simps, simp add: at w2_def)
    then obtain ys where ys: "adds w2 w' ys" "list_all (\<lambda>x. isReport x \<or> x = DeadLettered i) ys"
        "r = None \<longleftrightarrow> DeadLettered i \<in> set ys" "r = None \<longrightarrow> deadLetters cf j"
      using adds_giveUp by blast
    have "delivering i ys" "callsOf ys = []"
      using ys(2) by (auto simp: delivering_def list_all_iff dest: entry_kinds intro!: callsOf_none)
    then have "deliveryRan cf i j n pending r (xs @ ys)"
      using xs ys fst by (auto simp: deliveryRan_def)
    then show ?thesis using adds_trans [OF row(1) ys(1)] by blast
  next
    case 3
    obtain r3 w3 where wt: "waitRetry en agg halt j w2 = (r3, w3)" by fastforce
    have w3: "adds w w3 xs" using adds_trans [OF row(1) adds_waitRetry [OF wt]] by simp
    show ?thesis
    proof (cases r3)
      case (Some e')
      then have "r = Some e'" "w' = w3"
        using less.prems 3 wt by (subst (asm) retryLoop.simps, simp add: at w2_def)+
      then show ?thesis using w3 xs fst by (intro exI [of _ xs]) (auto simp: deliveryRan_def)
    next
      case None
      then have "retryLoop cf en agg halt i j failed (n + 1) (nextBackoff cf b) w3 = (r, w')"
        using less.prems 3 wt by (subst (asm) retryLoop.simps, simp add: at w2_def)
      then obtain ys where ys: "adds w3 w' ys" "deliveryRan cf i j (n + 1) failed r ys"
        using less.hyps [of "n + 1"] 3 by fastforce
      have "deliveryRan cf i j n pending r (xs @ ys)"
        using ys(2) xs row 3 by (auto simp: deliveryRan_def intro: next_attempt)
      then show ?thesis using adds_trans [OF w3 ys(1)] by blast
    qed
  qed
qed

lemma deliver_log:
  assumes "deliver cf en agg halt i j w = (r, w')"
  shows "\<exists>new. adds w w' new \<and>
    (deliveryRan cf i j 1 (subscribersFor cf j) r new \<or> new = [] \<and> r = Some parkedErr)"
proof (cases "jobAcked j \<and> isClosedChan halt (wDisp w) \<or> subscribersFor cf j = []")
  case True
  have "attempts (cfMaxAttempts cf) 1 [] [] []"
    using last_attempt [of "[]" "[]" "cfMaxAttempts cf" 1] by (simp add: attemptRow_def failures_def)
  then show ?thesis
    using assms True
    by (intro exI [of _ "[]"]) (auto simp: deliver_def Let_def deliveryRan_def delivering_def split: if_splits)
next
  case False
  then have "retryLoop cf en agg halt i j (subscribersFor cf j) 1 (cfRetryInitial cf) w = (r, w')"
    using assms by (auto simp: deliver_def Let_def split: if_splits)
  then show ?thesis using retryLoop_log by blast
qed

section \<open>The run of a job\<close>

lemma adds_publishLive:
  "\<exists>new. adds w (publishLive cf en i j w) new \<and> list_all (\<lambda>x. isReport x \<or> x = Published i) new"
proof (cases "\<not> cfBus cf \<or> jSkipLive j")
  case False
  define w1 where "w1 = others en (logged (Published i) w)"
  have w1: "adds w w1 [Published i]" by (simp add: w1_def) (simp add: adds_def logged_def)
  have "\<exists>ys. adds w1 (publishLive cf en i j w) ys \<and> list_all isReport ys"
    using False adds_report(1) [of w1]
    by (auto simp: publishLive_def Let_def w1_def [symmetric] split: handler_result.splits option.splits intro: exI [of _ "[]"])
  then obtain ys where ys: "adds w1 (publishLive cf en i j w) ys" "list_all isReport ys" by blast
  then have "list_all (\<lambda>x. isReport x \<or> x = Published i) ys" by (auto simp: list_all_iff)
  then show ?thesis using adds_trans [OF w1 ys(1)] by (intro exI [of _ "[Published i] @ ys"]) simp
qed (auto simp: publishLive_def intro!: exI [of _ "[]"])

text \<open>What follows a delivery in the log: reports, after at most one acknowledgement.\<close>

definition tailOk :: "job_id \<Rightarrow> 't job \<Rightarrow> 't log_entry list \<Rightarrow> bool" where
  "tailOk i j post \<longleftrightarrow> (\<exists>ack rep. post = ack @ rep \<and> list_all isReport rep \<and>
     (ack = [] \<or> (\<exists>key res. jAck j = Some key \<and> ack = [Acknowledged i key res])))"

lemma adds_ackJob:
  assumes "ackJob cf en agg halt i j w = (r, w')"
  shows "\<exists>post. adds w w' post \<and> tailOk i j post"
proof (cases "jAck j")
  case None
  then show ?thesis using assms by (auto simp: ackJob_def tailOk_def intro!: exI [of _ "[]"])
next
  case (Some key)
  define res where "res = enAck en (wTick w) (jCtx j) key"
  define w1 where "w1 = logged (Acknowledged i key res) w"
  have w1: "adds w w1 [Acknowledged i key res]" by (simp add: w1_def adds_def logged_def)
  have "\<exists>ys. adds w1 w' ys \<and> list_all isReport ys"
  proof (cases "\<exists>e. res = HReturn (Some e)")
    case True
    then obtain e where e: "res = HReturn (Some e)" by blast
    then have "w' = parkThenReport en agg halt j e (publishError cf i e) w1"
      using assms by (simp add: ackJob_def Some Let_def res_def [symmetric] w1_def e)
    then show ?thesis using adds_parkThenReport [of "publishError cf i e"] adds_report(1) by blast
  next
    case False
    then have "w' = w1"
      using assms by (auto simp: ackJob_def Some Let_def res_def [symmetric] w1_def
          split: handler_result.splits option.splits)
    then show ?thesis by (auto intro: exI [of _ "[]"])
  qed
  then obtain ys where ys: "adds w1 w' ys" "list_all isReport ys" by blast
  then show ?thesis
    using adds_trans [OF w1 ys(1)] Some unfolding tailOk_def by blast
qed

text \<open>
  The log of one job's run: the live publish, the delivery (nothing when the job is not
  durable or is held by a park), then at most one acknowledgement, of a delivery that succeeded.
\<close>

definition jobLog :: "'t dispatcher_config \<Rightarrow> job_id \<Rightarrow> 't job \<Rightarrow> 't log_entry list \<Rightarrow> bool" where
  "jobLog cf i j new \<longleftrightarrow> (\<exists>pub body post r. new = pub @ body @ post \<and>
     list_all (\<lambda>x. isReport x \<or> x = Published i) pub \<and> tailOk i j post \<and>
     (body = [] \<and> \<not> list_ex isAck post \<or>
      deliveryRan cf i j 1 (subscribersFor cf j) r body \<and> (r \<noteq> None \<longrightarrow> \<not> list_ex isAck post)))"

lemma jobLogI:
  assumes "list_all (\<lambda>x. isReport x \<or> x = Published i) pub" and "tailOk i j post"
    and "body = [] \<and> \<not> list_ex isAck post \<or>
      deliveryRan cf i j 1 (subscribersFor cf j) r body \<and> (r \<noteq> None \<longrightarrow> \<not> list_ex isAck post)"
  shows "jobLog cf i j (pub @ body @ post)"
  using assms unfolding jobLog_def by blast

lemma tailOk_Nil [simp]: "tailOk i j []"
  by (auto simp: tailOk_def)

lemma deliverJob_log:
  assumes "deliverJob cf en agg halt i j w = (r, w')"
  shows "\<exists>new. adds w w' new \<and> jobLog cf i j new"
proof -
  obtain held w1 where h: "heldByPark agg halt i j w = (held, w1)" by fastforce
  have w1: "adds w w1 []" using h by (auto simp: heldByPark_def split: if_splits prod.splits)
  define w2 where "w2 = publishLive cf en i j w1"
  obtain pub where pub: "adds w1 w2 pub" "list_all (\<lambda>x. isReport x \<or> x = Published i) pub"
    using adds_publishLive w2_def by blast
  have w2: "adds w w2 pub" using adds_trans [OF w1 pub(1)] by simp
  consider "held" | "\<not> held" "\<not> jobDurable j" | "\<not> held" "jobDurable j" by blast
  then show ?thesis
  proof cases
    case 1
    then have "w' = w1" using assms by (simp add: deliverJob_def h)
    then show ?thesis using w1 jobLogI [of i "[]" j "[]" "[]" cf None] by auto
  next
    case 2
    then have "w' = w2" using assms by (simp add: deliverJob_def h Let_def w2_def)
    then show ?thesis using w2 jobLogI [OF pub(2), of j "[]" "[]" cf None] by auto
  next
    case 3
    obtain r3 w3 where dl: "deliver cf en agg halt i j w2 = (r3, w3)" by fastforce
    obtain body where body: "adds w2 w3 body"
        "deliveryRan cf i j 1 (subscribersFor cf j) r3 body \<or> body = [] \<and> r3 = Some parkedErr"
      using deliver_log [OF dl] by blast
    have w3: "adds w w3 (pub @ body)" using adds_trans [OF w2 body(1)] .
    show ?thesis
    proof (cases r3)
      case (Some e)
      then have "w' = w3" using assms 3 by (simp add: deliverJob_def h Let_def w2_def [symmetric] dl)
      then show ?thesis using w3 jobLogI [OF pub(2), of j "[]" body cf r3] body(2) by auto
    next
      case None
      then have "ackJob cf en agg halt i j w3 = (r, w')"
        using assms 3 by (simp add: deliverJob_def h Let_def w2_def [symmetric] dl)
      then obtain post where post: "adds w3 w' post" "tailOk i j post" using adds_ackJob by blast
      then show ?thesis
        using adds_trans [OF w3 post(1)] jobLogI [OF pub(2) post(2), of body cf r3] body(2) None by auto
    qed
  qed
qed

lemma tailOk_report: "tailOk i j post \<Longrightarrow> list_all isReport rep \<Longrightarrow> tailOk i j (post @ rep)"
  unfolding tailOk_def by (metis append_assoc list_all_append)

lemma jobLog_report:
  assumes "jobLog cf i j new" and "list_all isReport rep" shows "jobLog cf i j (new @ rep)"
proof -
  have no: "list_ex isAck (post @ rep) = list_ex isAck post" for post
    using assms(2) entry_kinds(2) by (auto simp: list_ex_iff list_all_iff)
  obtain pub body post r where "new = pub @ body @ post" "list_all (\<lambda>x. isReport x \<or> x = Published i) pub"
      "tailOk i j post" "body = [] \<and> \<not> list_ex isAck post \<or>
      deliveryRan cf i j 1 (subscribersFor cf j) r body \<and> (r \<noteq> None \<longrightarrow> \<not> list_ex isAck post)"
    using assms(1) unfolding jobLog_def by blast
  then show ?thesis
    using jobLogI [of i pub j "post @ rep" body cf r] tailOk_report [OF _ assms(2)] unfolding no by simp
qed

lemma handleJob_log:
  assumes "dJobs (wDisp w) i = Some j"
  shows "\<exists>new. adds w (handleJob cf en agg halt i w) new \<and> jobLog cf i j new"
proof -
  obtain r w1 where dj: "deliverJob cf en agg halt i j (others en w) = (r, w1)" by fastforce
  obtain r2 w2 where rc: "recoverDispatcherPanic cf i (r, w1) = (r2, w2)" by fastforce
  obtain new where new: "adds (others en w) w1 new" "jobLog cf i j new" using deliverJob_log [OF dj] by blast
  obtain rep where rep: "adds w1 w2 rep" "list_all isReport rep"
    using rc adds_report(1) [of w1 cf i]
    by (cases r) (auto simp: recoverDispatcherPanic_def Let_def intro: that [of "[]"])
  have "adds (others en w) w2 (new @ rep)" using adds_trans [OF new(1) rep(1)] .
  then have "adds w w2 (new @ rep)" by (simp add: adds_def others_def)
  moreover have "handleJob cf en agg halt i w = finishJob en i r2 w2"
    by (simp add: handleJob_def assms dj rc)
  ultimately show ?thesis
    using jobLog_report [OF new(2) rep(2)] by (auto simp: finishJob_def Let_def)
qed

text \<open>What the log of a run says about calls and acknowledgements.\<close>

lemma jobLog_calls:
  assumes "jobLog cf i j new" and "distinct (cfDurableSubs cf)"
  shows "neverAgain (callsOf new)"
    and "(s, k, r) \<in> set (callsOf new) \<Longrightarrow> s \<in> set (subscribersFor cf j) \<and> 1 \<le> k \<and> k \<le> max 1 (cfMaxAttempts cf)"
proof -
  obtain pub body post r0 where b: "new = pub @ body @ post" "list_all (\<lambda>x. isReport x \<or> x = Published i) pub"
      "tailOk i j post" "body = [] \<or> deliveryRan cf i j 1 (subscribersFor cf j) r0 body"
    using assms(1) unfolding jobLog_def by blast
  have "callsOf pub = []" "callsOf post = []"
    using b(2,3) by (auto simp: tailOk_def list_all_iff dest: entry_kinds intro!: callsOf_none)
  then have cs: "callsOf new = callsOf body" by (simp add: b(1))
  have at: "callsOf new = [] \<or> (\<exists>left. attempts (cfMaxAttempts cf) 1 (subscribersFor cf j) (callsOf new) left)"
    using b(4) by (auto simp: cs deliveryRan_def)
  have "distinct (subscribersFor cf j)" using assms(2) by (simp add: subscribersFor_def)
  then show "neverAgain (callsOf new)" using at attempts_once by auto
  show "s \<in> set (subscribersFor cf j) \<and> 1 \<le> k \<and> k \<le> max 1 (cfMaxAttempts cf)" if "(s, k, r) \<in> set (callsOf new)"
    using at that attempts_subs attempts_bounds by fastforce
qed

lemma jobLog_ack:
  assumes "jobLog cf i j new" and "Acknowledged i key res \<in> set new"
  shows "\<exists>pre rep. new = pre @ Acknowledged i key res # rep \<and> \<not> list_ex isAck pre \<and> list_all isReport rep \<and>
     jAck j = Some key \<and>
     (DeadLettered i \<in> set pre \<or> (\<forall>s \<in> set (subscribersFor cf j). \<exists>k. (s, k, None) \<in> set (callsOf pre)))"
proof -
  obtain pub body post r where b: "new = pub @ body @ post" "list_all (\<lambda>x. isReport x \<or> x = Published i) pub"
      "tailOk i j post" and body: "body = [] \<and> \<not> list_ex isAck post \<or>
      deliveryRan cf i j 1 (subscribersFor cf j) r body \<and> (r \<noteq> None \<longrightarrow> \<not> list_ex isAck post)"
    using assms(1) unfolding jobLog_def by blast
  have nb: "\<not> list_ex isAck (pub @ body)"
    using b(2) body by (auto simp: list_all_iff list_ex_iff deliveryRan_def delivering_def dest: entry_kinds)
  then have inp: "Acknowledged i key res \<in> set post" using assms(2) b(1)
    by (auto simp: list_ex_iff dest: bspec [of _ _ "Acknowledged i key res"])
  then obtain rep where rep: "post = Acknowledged i key res # rep" "list_all isReport rep" "jAck j = Some key"
    using b(3) by (auto simp: tailOk_def reports_no_ack)
  then have rn: "deliveryRan cf i j 1 (subscribersFor cf j) None body" using body by auto
  have "\<exists>k. (s, k, None) \<in> set (callsOf (pub @ body))"
    if "DeadLettered i \<notin> set (pub @ body)" "s \<in> set (subscribersFor cf j)" for s
    using rn that attempts_all_succeed by (fastforce simp: deliveryRan_def)
  then show ?thesis
    using nb rep by (intro exI [of _ "pub @ body"] exI [of _ rep]) (auto simp: b(1))
qed

lemma jobLog_dead:
  assumes "jobLog cf i j new" and "DeadLettered i \<in> set new" shows "deadLetters cf j"
proof -
  have no: "list_all isReport rep \<Longrightarrow> DeadLettered i \<notin> set rep" for rep :: "'a log_entry list"
    by (induction rep) auto
  obtain pub body post r where b: "new = pub @ body @ post" "list_all (\<lambda>x. isReport x \<or> x = Published i) pub"
      "tailOk i j post" "body = [] \<or> deliveryRan cf i j 1 (subscribersFor cf j) r body"
    using assms(1) unfolding jobLog_def by blast
  have "DeadLettered i \<notin> set pub" using b(2) by (induction pub) auto
  moreover have "DeadLettered i \<notin> set post" using b(3) no by (auto simp: tailOk_def)
  ultimately show ?thesis using b(1,4) assms(2) by (auto simp: deliveryRan_def)
qed

end
