(* ===== verification/Event_Store_Correct.thy ===== *)
theory Event_Store_Correct
  imports Event_Store Memory_Store
begin

text \<open>
  The abstract meaning of an aggregate is its history: the list of states it went through.
  \<open>represents\<close> says when a stream and a snapshot cell hold a history; reading returns the
  last state of the history and its length whichever path the reader takes, and writing
  extends the history by one. The lemmas are proved once, over the contracts of the two
  stores, and interpreted on the in-memory ones.
\<close>

section \<open>Histories\<close>

text \<open>
  One event takes a state to the next: upcast to the current schema, its patches turn the
  one's JSON into the other's.
\<close>

definition evStep :: "('tx, 's, 'p, 't) es \<Rightarrow> 't \<Rightarrow> internal_event \<Rightarrow> 't \<Rightarrow> bool" where
  "evStep es x e y \<longleftrightarrow>
     (\<exists>jx jy. marshalT (esCodec es) x = Ok jx \<and> marshalT (esCodec es) y = Ok jy \<and>
       (\<forall>c. \<exists>e'. upcastInternalEvent es c e = Ok e' \<and>
          applyPatchesToJSON (esCodec es) jx (iePatches e') = Ok jy))"

fun evChain :: "('tx, 's, 'p, 't) es \<Rightarrow> 't \<Rightarrow> internal_event list \<Rightarrow> 't list \<Rightarrow> bool" where
  "evChain es x [] [] = True"
| "evChain es x (e # evs) (h # hs) = (evStep es x e h \<and> evChain es h evs hs)"
| "evChain es x _ _ = False"

definition snapshotOk :: "('tx, 's, 'p, 't) es \<Rightarrow> blob option \<Rightarrow> 't list \<Rightarrow> bool" where
  "snapshotOk es cl hs =
     (case cl of
        None \<Rightarrow> True
      | Some b \<Rightarrow>
          (case unmarshalSnapshot (esCodec es) (esZero es) b of
             Ok sn \<Rightarrow> 1 \<le> sbVersion sn \<and> sbVersion sn \<le> int (length hs) \<and>
                      sbState sn = hs ! nat (sbVersion sn - 1)
           | Fail _ \<Rightarrow> True
           | Panic _ \<Rightarrow> False))"

text \<open>
  A stream holds the history \<open>hs\<close>: versions \<open>1\<close> to \<open>n\<close>, each entry an event with its own
  version, and the events lead from the zero value through \<open>hs\<close>. The snapshot cell, if it
  can be decoded, is a state of the history at its version.
\<close>

definition represents ::
  "('tx, 's, 'p, 't) es \<Rightarrow> contents \<Rightarrow> (string \<Rightarrow> blob option) \<Rightarrow> string \<Rightarrow> 't list \<Rightarrow> bool" where
  "represents es a cl agg hs \<longleftrightarrow>
     (\<exists>evs. let st = ctStreams a (streamName agg) in
        contiguous fst st \<and> length st = length hs \<and> int (length hs) < maxInt64 \<and>
        deserializeEvents (map snd st) = Ok evs \<and> map ieVersion evs = map fst st \<and>
        evChain es (esZero es) evs hs) \<and>
     snapshotOk es (cl agg) hs"

lemma deserialize_append:
  "deserializeEvents (xs @ ys) = Ok evs \<longleftrightarrow>
     (\<exists>a b. deserializeEvents xs = Ok a \<and> deserializeEvents ys = Ok b \<and> evs = a @ b)"
proof (induction xs arbitrary: evs)
  case (Cons x xs)
  show ?case by (auto simp: bindO_eq_Ok Cons.IH)
qed simp

lemma deserialize_length: "deserializeEvents bs = Ok evs \<Longrightarrow> length evs = length bs"
  by (induction bs arbitrary: evs) (auto simp: bindO_eq_Ok)

lemma deserialize_drop:
  assumes "deserializeEvents bs = Ok evs"
  shows "deserializeEvents (drop n bs) = Ok (drop n evs)"
proof (cases "n \<le> length bs")
  case True
  from assms obtain a b where ab: "deserializeEvents (take n bs) = Ok a"
      "deserializeEvents (drop n bs) = Ok b" "evs = a @ b"
    using deserialize_append[of "take n bs" "drop n bs" evs] by auto
  with True deserialize_length[OF ab(1)] show ?thesis by simp
qed (use assms deserialize_length in auto)

lemma evChain_length: "evChain es x evs hs \<Longrightarrow> length evs = length hs"
  by (induction es x evs hs rule: evChain.induct) auto

lemma evChain_append:
  "evChain es x (evs @ [e]) (hs @ [h]) \<longleftrightarrow> evChain es x evs hs \<and> evStep es (last (x # hs)) e h"
proof (induction hs arbitrary: x evs)
  case Nil
  then show ?case by (cases evs; cases "tl evs") auto
next
  case (Cons h' hs)
  then show ?case by (cases evs; cases hs) auto
qed

lemma evChain_drop:
  "evChain es x evs hs \<Longrightarrow> n \<le> length hs \<Longrightarrow>
     evChain es (if n = 0 then x else hs ! (n - 1)) (drop n evs) (drop n hs)"
proof (induction es x evs hs arbitrary: n rule: evChain.induct)
  case (2 es x e evs h hs)
  show ?case
  proof (cases n)
    case (Suc m)
    with 2 have "evChain es (if m = 0 then h else hs ! (m - 1)) (drop m evs) (drop m hs)" by auto
    with Suc show ?thesis by (cases m) auto
  qed (use 2 in auto)
qed auto

section \<open>Replaying a history\<close>

lemma upcastFrom_current: "esSchema es \<le> v \<Longrightarrow> upcastFrom es c v e = Ok e"
  by (simp add: upcastFrom.simps)

lemma upcastFrom_version: "upcastFrom es c v e = Ok e' \<Longrightarrow> ieVersion e' = ieVersion e"
proof (induction es c v e rule: upcastFrom.induct)
  case (1 es c v e)
  then show ?case
    by (subst (asm) (3) upcastFrom.simps) (auto split: if_splits option.splits outcome.splits)
qed

lemma upcast_version: "upcastInternalEvent es c e = Ok e' \<Longrightarrow> ieVersion e' = ieVersion e"
  by (simp add: upcastInternalEvent_def upcastFrom_version)

lemma hydrateLoop_chain:
  assumes "evChain es x evs hs" "marshalT (esCodec es) x = Ok j"
  shows "\<exists>j'. hydrateLoop es c evs j up lv =
       Ok (j', up \<or> (\<exists>e \<in> set evs. ieSchemaVersion e < esSchema es), last (lv # map ieVersion evs)) \<and>
     marshalT (esCodec es) (last (x # hs)) = Ok j'"
  using assms
proof (induction es x evs hs arbitrary: j up lv rule: evChain.induct)
  case (2 es x e evs h hs)
  from "2.prems" obtain jy e' where s: "marshalT (esCodec es) h = Ok jy"
      "upcastInternalEvent es c e = Ok e'"
      "applyPatchesToJSON (esCodec es) j (iePatches e') = Ok jy"
    by (auto simp: evStep_def) (metis)
  obtain j' where j': "hydrateLoop es c evs jy (up \<or> ieSchemaVersion e < esSchema es) (ieVersion e) =
      Ok (j', (up \<or> ieSchemaVersion e < esSchema es) \<or> (\<exists>e \<in> set evs. ieSchemaVersion e < esSchema es),
          last (ieVersion e # map ieVersion evs))"
    and m: "marshalT (esCodec es) (last (h # hs)) = Ok j'"
    using "2.IH"[OF _ s(1), of "up \<or> ieSchemaVersion e < esSchema es" "ieVersion e"] "2.prems"(1) by auto
  then show ?case using s by auto
qed auto

lemma hydrate_chain:
  assumes "codecOk (esCodec es)" "evChain es x evs hs"
  shows "hydrate es c x evs = Ok
     \<lparr>hrState = last (x # hs),
      hrDidUpcast = (\<exists>e \<in> set evs. ieSchemaVersion e < esSchema es),
      hrLastVersion = (if \<exists>e \<in> set evs. ieSchemaVersion e < esSchema es
                       then ieVersion (last evs) else 0)\<rparr>"
proof (cases evs)
  case Nil
  with assms show ?thesis by (cases hs) (auto simp: hydrate_def)
next
  case (Cons e evs')
  then obtain j where j: "marshalT (esCodec es) x = Ok j"
    using assms(2) by (cases hs) (auto simp: evStep_def)
  obtain j' where "hydrateLoop es c evs j False 0 =
       Ok (j', False \<or> (\<exists>e \<in> set evs. ieSchemaVersion e < esSchema es), last (0 # map ieVersion evs))"
    and "marshalT (esCodec es) (last (x # hs)) = Ok j'"
    using hydrateLoop_chain[OF assms(2) j] by blast
  moreover have "last (0 # map ieVersion evs) = ieVersion (last evs)"
    using Cons by (simp add: last_map)
  ultimately show ?thesis
    using Cons j codecOk_roundtrip[OF assms(1)] by (auto simp: hydrate_def)
qed

text \<open>The events of a history as \<open>Replay\<close> hands them out.\<close>

definition storedEvent :: "string \<Rightarrow> 't \<Rightarrow> internal_event \<Rightarrow> 't \<Rightarrow> 't event" where
  "storedEvent agg x e y =
     \<lparr>evID = ieID e, evAggregateID = agg, evEventName = ieEventName e, evVersion = ieVersion e,
      evSchemaVersion = ieSchemaVersion e, evOccurredAt = ieOccurredAt e, evAggregate = y,
      evPreviousAggregate = x\<rparr>"

fun storedEvents ::
  "('tx, 's, 'p, 't) es \<Rightarrow> ctx \<Rightarrow> string \<Rightarrow> 't \<Rightarrow> internal_event list \<Rightarrow> 't list \<Rightarrow> 't event list" where
  "storedEvents es c agg x (e # evs) (h # hs) =
     storedEvent agg x (case upcastInternalEvent es c e of Ok e' \<Rightarrow> e' | _ \<Rightarrow> e) h # storedEvents es c agg h evs hs"
| "storedEvents es c agg x _ _ = []"

lemma storedEvents_maps:
  assumes "evChain es x evs hs"
  shows "map evAggregate (storedEvents es c agg x evs hs) = hs"
    and "map evPreviousAggregate (storedEvents es c agg x evs hs) = butlast (x # hs)"
    and "map evVersion (storedEvents es c agg x evs hs) = map ieVersion evs"
    and "\<forall>e \<in> set (storedEvents es c agg x evs hs). evAggregateID e = agg"
proof -
  have "map evAggregate (storedEvents es c agg x evs hs) = hs \<and>
      map evPreviousAggregate (storedEvents es c agg x evs hs) = butlast (x # hs) \<and>
      map evVersion (storedEvents es c agg x evs hs) = map ieVersion evs \<and>
      (\<forall>e \<in> set (storedEvents es c agg x evs hs). evAggregateID e = agg)"
    using assms
  proof (induction es x evs hs rule: evChain.induct)
    case (2 es x e evs h hs)
    then obtain e' where e': "upcastInternalEvent es c e = Ok e'" by (auto simp: evStep_def)
    with 2 upcast_version[OF e'] show ?case by (simp add: storedEvent_def)
  qed auto
  then show "map evAggregate (storedEvents es c agg x evs hs) = hs"
    "map evPreviousAggregate (storedEvents es c agg x evs hs) = butlast (x # hs)"
    "map evVersion (storedEvents es c agg x evs hs) = map ieVersion evs"
    "\<forall>e \<in> set (storedEvents es c agg x evs hs). evAggregateID e = agg" by blast+
qed

lemma storedEvents_snoc:
  "evChain es x evs hs \<Longrightarrow>
     storedEvents es c agg x (evs @ [e]) (hs @ [h]) =
       storedEvents es c agg x evs hs @
       [storedEvent agg (last (x # hs)) (case upcastInternalEvent es c e of Ok e' \<Rightarrow> e' | _ \<Rightarrow> e) h]"
  by (induction es x evs hs rule: evChain.induct) auto

section \<open>Extending a history\<close>

definition currentOf :: "'t list \<Rightarrow> 't option" where
  "currentOf hs = (if hs = [] then None else Some (last hs))"

text \<open>The event a command produces on an aggregate with history \<open>hs\<close>.\<close>

definition producedEvent ::
  "('tx, 's, 'p, 't) es \<Rightarrow> string \<Rightarrow> string \<Rightarrow> 't command \<Rightarrow> 't list \<Rightarrow> 't event" where
  "producedEvent es newID now cmd hs =
     \<lparr>evID = newID, evAggregateID = cmdAggregateID cmd, evEventName = cmdEventName cmd,
      evVersion = int (length hs) + 1, evSchemaVersion = esSchema es, evOccurredAt = now,
      evAggregate = cmdEmitEvent cmd (currentOf hs),
      evPreviousAggregate = last (esZero es # hs)\<rparr>"

text \<open>A stored blob that decodes to the event, at the current schema.\<close>

definition encodes :: "('tx, 's, 'p, 't) es \<Rightarrow> 't event \<Rightarrow> blob \<Rightarrow> bool" where
  "encodes es ev b \<longleftrightarrow> evSchemaVersion ev = esSchema es \<and>
     (\<exists>p. unmarshalEvent b = Ok \<lparr>ieID = evID ev, ieEventName = evEventName ev, ieVersion = evVersion ev,
            ieSchemaVersion = evSchemaVersion ev, ieOccurredAt = evOccurredAt ev, iePatches = p\<rparr>)"

lemma storedEvents_nth:
  "evChain es x evs hs \<Longrightarrow> n < length hs \<Longrightarrow>
     storedEvents es c agg x evs hs ! n =
       storedEvent agg ((x # hs) ! n) (case upcastInternalEvent es c (evs ! n) of Ok e' \<Rightarrow> e' | _ \<Rightarrow> evs ! n) (hs ! n)"
proof (induction es x evs hs arbitrary: n rule: evChain.induct)
  case (2 es x e evs h hs)
  then show ?case by (cases n) (auto split: outcome.split)
qed auto

lemma deserialize_nth:
  "deserializeEvents bs = Ok evs \<Longrightarrow> n < length bs \<Longrightarrow> unmarshalEvent (bs ! n) = Ok (evs ! n)"
proof (induction bs arbitrary: evs n)
  case (Cons b bs)
  then show ?case by (cases n) (auto simp: bindO_eq_Ok)
qed simp

lemma storedEvents_encodes:
  assumes "evChain es x evs hs" "deserializeEvents bs = Ok evs" "n < length hs" "encodes es ev (bs ! n)"
    "evAggregateID ev = agg" "evAggregate ev = hs ! n" "evPreviousAggregate ev = (x # hs) ! n"
  shows "storedEvents es c agg x evs hs ! n = ev"
proof -
  have "length bs = length hs" using evChain_length[OF assms(1)] deserialize_length[OF assms(2)] by simp
  then have "unmarshalEvent (bs ! n) = Ok (evs ! n)" using deserialize_nth[OF assms(2)] assms(3) by simp
  with assms(4) obtain p where "evs ! n = \<lparr>ieID = evID ev, ieEventName = evEventName ev, ieVersion = evVersion ev,
      ieSchemaVersion = esSchema es, ieOccurredAt = evOccurredAt ev, iePatches = p\<rparr>" "evSchemaVersion ev = esSchema es"
    by (auto simp: encodes_def)
  with storedEvents_nth[OF assms(1,3), of c agg] assms(5-7) show ?thesis
    by (simp add: upcastInternalEvent_def upcastFrom_current storedEvent_def)
qed

lemma streamName_inj [simp]: "streamName a = streamName b \<longleftrightarrow> a = b"
  by (simp add: streamName_def)

lemma snapshotOk_append: "snapshotOk es cl hs \<Longrightarrow> snapshotOk es cl (hs @ [x])"
  by (auto simp: snapshotOk_def nth_append split: option.splits outcome.splits)

lemma represents_other:
  assumes "ctStreams a' (streamName agg) = ctStreams a (streamName agg)" "cl' agg = cl agg"
  shows "represents es a' cl' agg hs = represents es a cl agg hs"
  using assms by (simp add: represents_def)

lemma evStep_written:
  assumes "codecOk (esCodec es)" "compareT (esCodec es) x y = Ok p"
    "ieSchemaVersion e = esSchema es" "iePatches e = Json p"
  shows "evStep es x e y"
proof -
  obtain jx jy where "marshalT (esCodec es) x = Ok jx" "marshalT (esCodec es) y = Ok jy"
      "if noPatch (Json p) then jy = jx else applyPatch (esCodec es) p jx = Ok jy"
    using codecOk_compare[OF assms(1,2)] by blast
  then show ?thesis
    using assms(3,4)
    by (auto simp: evStep_def upcastInternalEvent_def upcastFrom_current applyPatchesToJSON_def
        split: if_splits)
qed

lemma represents_append:
  assumes rep: "represents es a cl agg hs" and codec: "codecOk (esCodec es)"
    and schema: "i64 (esSchema es) = esSchema es" and now: "timeOk now"
    and small: "int (length hs) + 1 < maxInt64"
    and cmp: "compareT (esCodec es) (last (esZero es # hs)) y = Ok p"
    and b: "marshalEvent \<lparr>ieID = i, ieEventName = n, ieVersion = int (length hs) + 1,
              ieSchemaVersion = esSchema es, ieOccurredAt = now, iePatches = Json p\<rparr> = Ok b"
  shows "represents es (ctAppend (streamName agg) (int (length hs) + 1) b a) cl agg (hs @ [y])"
proof -
  let ?st = "ctStreams a (streamName agg)" and ?v = "int (length hs) + 1"
  let ?e = "\<lparr>ieID = i, ieEventName = n, ieVersion = ?v, ieSchemaVersion = esSchema es,
             ieOccurredAt = now, iePatches = Json p\<rparr>"
  from rep obtain evs where e: "contiguous fst ?st" "length ?st = length hs"
      "deserializeEvents (map snd ?st) = Ok evs" "map ieVersion evs = map fst ?st"
      "evChain es (esZero es) evs hs" and sn: "snapshotOk es (cl agg) hs"
    by (auto simp: represents_def Let_def)
  have "\<forall>x \<in> set ?st. fst x < ?v" using contiguous_bounds[OF e(1)] e(2) by fastforce
  then have ins: "insertBy fst (?v, b) ?st = ?st @ [(?v, b)]" by (simp add: insertBy_last)
  have "i64 ?v = ?v" using small by (simp add: i64_id)
  then have "unmarshalEvent b = Ok ?e"
    using unmarshal_marshalEvent[OF b] now schema by simp
  then have "deserializeEvents (map snd (?st @ [(?v, b)])) = Ok (evs @ [?e])"
    using e(3) by (simp add: deserialize_append)
  moreover have "evChain es (esZero es) (evs @ [?e]) (hs @ [y])"
    using e(5) evStep_written[OF codec cmp, of ?e] by (simp add: evChain_append)
  moreover have "contiguous fst (?st @ [(?v, b)])" using e(1,2) by (simp add: contiguous_snoc)
  ultimately show ?thesis
    using e(2,4) small snapshotOk_append[OF sn] ins
    by (auto simp: represents_def ctAppend_def Let_def)
qed

section \<open>Over the contracts\<close>

locale event_store_on =
  store_contract "esStore es" view tview base sinv tinv + snapshot_contract "esSnaps es" cell
  for es :: "('tx, 's, 'p, 't) es"
    and view :: "'s \<Rightarrow> contents" and tview :: "'tx \<Rightarrow> contents" and base :: "'tx \<Rightarrow> contents"
    and sinv :: "'s \<Rightarrow> bool" and tinv :: "'tx \<Rightarrow> bool"
    and cell :: "'p \<Rightarrow> string \<Rightarrow> blob option"
begin

text \<open>The database holds the history: the store's invariant and the representation.\<close>

definition holds :: "('s, 'p) db \<Rightarrow> string \<Rightarrow> 't list \<Rightarrow> bool" where
  "holds d agg hs \<longleftrightarrow>
     sinv (dbStore d) \<and> represents es (view (dbStore d)) (cell (dbSnaps d)) agg hs"

text \<open>A read may fail only if one of the store operations it makes fails.\<close>

definition readsFail :: "ctx \<Rightarrow> string \<Rightarrow> ('s, 'p) db \<Rightarrow> bool" where
  "readsFail c agg d \<longleftrightarrow>
     \<not> isOk (snGet (esSnaps es) c agg (dbSnaps d)) \<or>
     (\<exists>v. \<not> isOk (stReadFrom (esStore es) c (streamName agg) v (dbStore d)))"

definition loaded :: "'t list \<Rightarrow> ('t \<times> int) outcome" where
  "loaded hs = (if hs = [] then Fail (Sentinel ErrNotFound) else Ok (last hs, int (length hs)))"

definition onlyCell :: "string \<Rightarrow> ('s, 'p) db \<Rightarrow> ('s, 'p) db \<Rightarrow> bool" where
  "onlyCell agg d d' \<longleftrightarrow>
     dbStore d' = dbStore d \<and> (\<forall>b. b \<noteq> agg \<longrightarrow> cell (dbSnaps d') b = cell (dbSnaps d) b)"

lemma onlyCell_refl [simp]: "onlyCell agg d d" "onlyCell agg d (d\<lparr>dbCorrupt := es'\<rparr>)"
  by (simp_all add: onlyCell_def)

lemma onlyCell_trans: "onlyCell agg d d' \<Longrightarrow> onlyCell agg d' d'' \<Longrightarrow> onlyCell agg d d''"
  by (simp add: onlyCell_def)

lemma holds_corrupt [simp]: "holds (d\<lparr>dbCorrupt := x\<rparr>) agg hs = holds d agg hs"
  by (simp add: holds_def)

text \<open>Storing a snapshot of a state of the history keeps the representation.\<close>

lemma put_snapshot_holds:
  assumes "codecOk (esCodec es)" "i64 (esSchema es) = esSchema es" "holds d agg hs"
    and "1 \<le> v" "v \<le> int (length hs)" "x = hs ! nat (v - 1)"
    and "writeSnapshot es c agg v x (dbSnaps d) = (r, p')"
  shows "holds (d\<lparr>dbSnaps := p'\<rparr>) agg hs \<and> onlyCell agg d (d\<lparr>dbSnaps := p'\<rparr>)"
proof -
  let ?sn = "\<lparr>sbVersion = v, sbSchemaVersion = esSchema es, sbState = x\<rparr>"
  have v: "i64 v = v" using assms(3-5) by (intro i64_id) (auto simp: holds_def represents_def Let_def)
  have "p' = dbSnaps d \<or> (\<exists>b. marshalSnapshot (esCodec es) ?sn = Ok b \<and>
      snPut (esSnaps es) c agg v b (dbSnaps d) = (r, p'))"
    using assms(7) by (auto simp: writeSnapshot_def split: outcome.splits)
  then show ?thesis
  proof
    assume "p' = dbSnaps d" then show ?thesis using assms(3) by (simp add: onlyCell_def)
  next
    assume "\<exists>b. marshalSnapshot (esCodec es) ?sn = Ok b \<and>
      snPut (esSnaps es) c agg v b (dbSnaps d) = (r, p')"
    then obtain b where b: "marshalSnapshot (esCodec es) ?sn = Ok b"
      and put: "snPut (esSnaps es) c agg v b (dbSnaps d) = (r, p')" by blast
    have "unmarshalSnapshot (esCodec es) (esZero es) b = Ok ?sn"
      using unmarshal_marshalSnapshot[OF assms(1) b] v assms(2) by simp
    then have "snapshotOk es (Some b) hs" using assms(4-6) by (simp add: snapshotOk_def)
    then have "snapshotOk es (cell p' agg) hs"
      using put_cell[OF put] assms(3) by (auto simp: holds_def represents_def)
    then show ?thesis
      using assms(3) put_other[OF put] by (simp add: holds_def represents_def onlyCell_def)
  qed
qed

lemma writeAutoSnapshot_eq: "writeAutoSnapshot es c agg v x p = writeSnapshot es c agg v x p"
  by (simp add: writeAutoSnapshot_def writeSnapshot_def)

lemma saveUpcasted_holds:
  assumes "codecOk (esCodec es)" "i64 (esSchema es) = esSchema es" "holds d agg hs"
    and "hs \<noteq> []" "hrLastVersion res = int (length hs)" "hrState res = last hs"
  shows "holds (saveUpcasted es c agg lh res i d) agg hs \<and> onlyCell agg d (saveUpcasted es c agg lh res i d)"
proof -
  obtain r p' where w: "writeAutoSnapshot es c agg (hrLastVersion res) (hrState res) (dbSnaps d) = (r, p')"
    by fastforce
  have "1 \<le> hrLastVersion res" using assms(4,5) by (cases hs) auto
  moreover have "hrState res = hs ! nat (hrLastVersion res - 1)"
    using assms(4-6) by (cases hs rule: rev_cases) (auto simp: nth_append)
  ultimately have "holds (d\<lparr>dbSnaps := p'\<rparr>) agg hs \<and> onlyCell agg d (d\<lparr>dbSnaps := p'\<rparr>)"
    using put_snapshot_holds[OF assms(1-3), of "hrLastVersion res" "hrState res" c r p'] assms(5) w
    by (simp add: writeAutoSnapshot_eq)
  then show ?thesis using assms(3) w by (auto simp: saveUpcasted_def Let_def split: option.splits)
qed

text \<open>The events a history's stream decodes to, from any version on.\<close>

lemma holds_events:
  assumes "holds d agg hs"
  obtains evs where "length evs = length hs" "evChain es (esZero es) evs hs"
    "\<forall>i < length hs. ieVersion (evs ! i) = int i + 1"
    "\<And>k bs c v. stReadFrom (esStore es) c (streamName agg) v (dbStore d) = Ok bs \<Longrightarrow>
       v = int k + 1 \<Longrightarrow> deserializeEvents bs = Ok (drop k evs) \<and> length bs = length hs - k"
    "int (length hs) < maxInt64"
proof -
  let ?st = "ctStreams (view (dbStore d)) (streamName agg)"
  from assms obtain evs where e: "contiguous fst ?st" "length ?st = length hs"
      "int (length hs) < maxInt64" "deserializeEvents (map snd ?st) = Ok evs"
      "map ieVersion evs = map fst ?st" "evChain es (esZero es) evs hs" and inv: "sinv (dbStore d)"
    by (auto simp: holds_def represents_def Let_def)
  have len: "length evs = length hs" using evChain_length[OF e(6)] .
  have vs: "ieVersion (evs ! i) = int i + 1" if "i < length hs" for i
  proof -
    have "map ieVersion evs ! i = map fst ?st ! i" by (simp only: e(5))
    then show ?thesis using that len e(2) contiguous_nth[OF e(1)] by simp
  qed
  have rd: "deserializeEvents bs = Ok (drop k evs) \<and> length bs = length hs - k"
    if "stReadFrom (esStore es) c (streamName agg) v (dbStore d) = Ok bs" "v = int k + 1" for k bs c v
  proof -
    have "bs = map snd (drop k ?st)"
      using readFrom_spec[OF inv that(1)] contiguous_filter[OF e(1), of k] that(2) by simp
    then show ?thesis
      using deserialize_drop[OF e(4), of k] e(2) by (simp add: drop_map)
  qed
  show thesis by (rule that[OF len e(6) _ rd e(3)]) (use vs in auto)
qed

subsection \<open>Reading\<close>

text \<open>
  What a finished hydration gives the reader, when the stream's events from position \<open>k\<close> on
  were applied to the state at that position.
\<close>

lemma read_from:
  assumes "codecOk (esCodec es)" "i64 (esSchema es) = esSchema es" "holds d agg hs"
    and evs: "length evs = length hs" "evChain es (esZero es) evs hs"
      "\<forall>i < length hs. ieVersion (evs ! i) = int i + 1"
    and k: "k \<le> length hs" "hs \<noteq> []"
  obtains res where
    "hydrate es c (if k = 0 then esZero es else hs ! (k - 1)) (drop k evs) = Ok res"
    "hrState res = last hs"
    "k < length hs \<Longrightarrow> ieVersion (last (drop k evs)) = int (length hs)"
    "\<And>d' i. d' = (if hrDidUpcast res then saveUpcasted es c agg lh res i d else d) \<Longrightarrow>
       holds d' agg hs \<and> onlyCell agg d d'"
proof -
  let ?x = "if k = 0 then esZero es else hs ! (k - 1)"
  obtain res where hy: "hydrate es c ?x (drop k evs) = Ok res" "hrState res = last (?x # drop k hs)"
      "hrDidUpcast res = (\<exists>e \<in> set (drop k evs). ieSchemaVersion e < esSchema es)"
      "hrDidUpcast res \<Longrightarrow> hrLastVersion res = ieVersion (last (drop k evs))"
    using hydrate_chain[OF assms(1) evChain_drop[OF evs(2) k(1)], of c] by simp
  have st: "last (?x # drop k hs) = last hs"
    using k by (cases "k = length hs") (auto simp: last_conv_nth)
  have lv: "ieVersion (last (drop k evs)) = int (length hs)" if "k < length hs"
    using that evs(1,3) k(2) by (simp add: last_conv_nth of_nat_diff Suc_leI)
  have "holds d' agg hs \<and> onlyCell agg d d'"
    if d': "d' = (if hrDidUpcast res then saveUpcasted es c agg lh res i d else d)" for d' i
  proof (cases "hrDidUpcast res")
    case True
    then have "k < length hs" using hy(3) evs(1) by (cases "k < length evs") auto
    with lv hy(4)[OF True] have "hrLastVersion res = int (length hs)" by simp
    from saveUpcasted_holds[OF assms(1-3) k(2) this] hy(2) st d' True show ?thesis by simp
  qed (use d' assms(3) in simp)
  then show thesis using that[OF hy(1)] hy(2) st lv by simp
qed

lemma coldPath_spec:
  assumes "codecOk (esCodec es)" "i64 (esSchema es) = esSchema es" "holds d agg hs"
    and "coldPath es c agg lh d = (r, d')"
  shows "holds d' agg hs \<and> onlyCell agg d d' \<and>
    (r = loaded hs \<or> \<not> isOk r \<and> \<not> isOk (stReadFrom (esStore es) c (streamName agg) 1 (dbStore d)))"
proof (cases "stReadFrom (esStore es) c (streamName agg) 1 (dbStore d)")
  case (Ok bs)
  obtain evs where evs: "length evs = length hs" "evChain es (esZero es) evs hs"
      "\<forall>i < length hs. ieVersion (evs ! i) = int i + 1"
      "deserializeEvents bs = Ok evs" "length bs = length hs"
  proof (rule holds_events[OF assms(3)])
    fix evs
    assume "length evs = length hs" "evChain es (esZero es) evs hs"
      "\<forall>i < length hs. ieVersion (evs ! i) = int i + 1"
      and rd: "\<And>k bs c v. stReadFrom (esStore es) c (streamName agg) v (dbStore d) = Ok bs \<Longrightarrow>
        v = int k + 1 \<Longrightarrow> deserializeEvents bs = Ok (drop k evs) \<and> length bs = length hs - k"
    with that[of evs] rd[OF Ok, of 0] show thesis by simp
  qed
  show ?thesis
  proof (cases "hs = []")
    case True
    with assms(3,4) Ok evs(5) show ?thesis by (auto simp: coldPath_def loaded_def)
  next
    case False
    then have bs: "bs \<noteq> []" using evs(5) by auto
    obtain res where res: "hydrate es c (esZero es) evs = Ok res" "hrState res = last hs"
      "ieVersion (last evs) = int (length hs)"
      "\<And>d' i. d' = (if hrDidUpcast res then saveUpcasted es c agg lh res i d else d) \<Longrightarrow>
         holds d' agg hs \<and> onlyCell agg d d'"
      by (rule read_from[OF assms(1-3) evs(1-3) _ False, of 0 c lh]) (use False in simp_all)
    have "r = Ok (last hs, int (length hs))"
      "d' = (if hrDidUpcast res then saveUpcasted es c agg lh res (ieID (last evs)) d else d)"
      using assms(4) Ok bs evs(4) res(1-3) False by (auto simp: coldPath_def Let_def)
    with res(4) False show ?thesis by (auto simp: loaded_def)
  qed
qed (use assms in \<open>auto simp: coldPath_def\<close>)

lemma load_spec:
  assumes "codecOk (esCodec es)" "i64 (esSchema es) = esSchema es" "holds d agg hs"
    and "load es c agg lh d = (r, d')"
  shows "holds d' agg hs \<and> onlyCell agg d d' \<and> (r = loaded hs \<or> \<not> isOk r \<and> readsFail c agg d)"
proof -
  have cold: "holds d' agg hs \<and> onlyCell agg d d' \<and> (r = loaded hs \<or> \<not> isOk r \<and> readsFail c agg d)"
    if "coldPath es c agg lh (d\<lparr>dbCorrupt := q\<rparr>) = (r, d')" for q
    using coldPath_spec[OF assms(1,2) _ that, of hs] assms(3) onlyCell_trans[OF onlyCell_refl(2)]
    by (fastforce simp: readsFail_def)
  have cold0: "d = d\<lparr>dbCorrupt := dbCorrupt d\<rparr>" by simp
  show ?thesis
  proof (cases "snGet (esSnaps es) c agg (dbSnaps d)")
    case (Ok cl)
    then have cl: "cl = cell (dbSnaps d) agg" using get_spec by blast
    show ?thesis
    proof (cases cl)
      case None
      with assms(4) Ok cold[of "dbCorrupt d"] show ?thesis by (simp add: load_def)
    next
      case (Some b)
      have sok: "snapshotOk es (Some b) hs" using assms(3) cl Some by (simp add: holds_def represents_def)
      show ?thesis
      proof (cases "unmarshalSnapshot (esCodec es) (esZero es) b")
        case (Fail e)
        with assms(4) Ok Some cold[of "if esOnCorruption es then dbCorrupt d @ [e] else dbCorrupt d"]
        show ?thesis by (simp add: load_def split: if_splits)
      next
        case (Panic p)
        with sok show ?thesis by (simp add: snapshotOk_def)
      next
        case u: (Ok sn)
        define k where "k = nat (sbVersion sn)"
        have k: "sbVersion sn = int k" "1 \<le> k" "k \<le> length hs" "hs \<noteq> []" "sbState sn = hs ! (k - 1)"
          using sok u unfolding k_def by (auto simp: snapshotOk_def nat_diff_distrib)
        obtain evs where evs: "length evs = length hs" "evChain es (esZero es) evs hs"
            "\<forall>i < length hs. ieVersion (evs ! i) = int i + 1"
            "\<And>bs c v. stReadFrom (esStore es) c (streamName agg) v (dbStore d) = Ok bs \<Longrightarrow>
              v = int k + 1 \<Longrightarrow> deserializeEvents bs = Ok (drop k evs) \<and> length bs = length hs - k"
            "int (length hs) < maxInt64"
          by (rule holds_events[OF assms(3)]) blast
        have v: "i64 (sbVersion sn + 1) = int k + 1" using k evs(5) by (simp add: i64_id)
        obtain res where res: "hydrate es c (sbState sn) (drop k evs) = Ok res" "hrState res = last hs"
          "k < length hs \<Longrightarrow> ieVersion (last (drop k evs)) = int (length hs)"
          "\<And>d' i. d' = (if hrDidUpcast res then saveUpcasted es c agg lh res i d else d) \<Longrightarrow>
             holds d' agg hs \<and> onlyCell agg d d'"
          by (rule read_from[OF assms(1-3) evs(1-3) k(3,4), of c lh]) (use k in simp_all)
        let ?rd = "stReadFrom (esStore es) c (streamName agg) (i64 (sbVersion sn + 1)) (dbStore d)"
        show ?thesis
        proof (cases ?rd)
          case bs: (Ok bs)
          have des: "deserializeEvents bs = Ok (drop k evs)" using evs(4)[OF bs v] by simp
          have "(if length (drop k evs) > 0 then ieVersion (last (drop k evs)) else sbVersion sn) = int (length hs)"
            using res(3) k evs(1) by auto
          then have "r = Ok (last hs, int (length hs))"
            "d' = (if hrDidUpcast res then saveUpcasted es c agg lh res (ieID (last (drop k evs))) d else d)"
            using assms(4) Ok Some u bs des res(1,2) by (auto simp: load_def Let_def)
          with res(4) k(4) show ?thesis by (auto simp: loaded_def)
        qed (use assms Ok Some u in \<open>auto simp: load_def readsFail_def\<close>, (metis isOk.simps)+)
      qed
    qed
  qed (use assms in \<open>auto simp: load_def readsFail_def\<close>)
qed

lemma load_live:
  assumes "codecOk (esCodec es)" "i64 (esSchema es) = esSchema es" "holds d agg hs"
    and "load es c agg lh d = (r, d')"
    and "isOk (snGet (esSnaps es) c agg (dbSnaps d))"
    and "\<forall>v. isOk (stReadFrom (esStore es) c (streamName agg) v (dbStore d))"
  shows "r = loaded hs \<and> holds d' agg hs \<and> onlyCell agg d d'"
  using load_spec[OF assms(1-4)] assms(5,6) by (auto simp: readsFail_def)

subsection \<open>Writing\<close>

lemma appendTx_safe: "txSafe (appendTx es c i now agg n ex prev new)"
proof -
  have "appendTx es c i now agg n ex prev new t = (r, t') \<Longrightarrow> tinv t \<Longrightarrow> tinv t' \<and> base t' = base t" for t r t'
    using append_frame
    by (auto simp: appendTx_def Let_def split: outcome.splits prod.splits)
  then show ?thesis unfolding txSafe_def by (metis prod.collapse)
qed

lemma appendTx_Ok:
  assumes "tinv t" "appendTx es c i now agg n ex prev new t = (Ok ev, t')"
  obtains p b where "compareT (esCodec es) prev new = Ok p"
    "marshalEvent \<lparr>ieID = i, ieEventName = n, ieVersion = i64 (ex + 1),
       ieSchemaVersion = esSchema es, ieOccurredAt = now, iePatches = Json p\<rparr> = Ok b"
    "i64 (ex + 1) \<notin> versionsOf (tview t) (streamName agg)"
    "tview t' = ctAppend (streamName agg) (i64 (ex + 1)) b (tview t)" "tinv t'"
    "ev = \<lparr>evID = i, evAggregateID = agg, evEventName = n, evVersion = i64 (ex + 1),
       evSchemaVersion = esSchema es, evOccurredAt = now, evAggregate = new, evPreviousAggregate = prev\<rparr>"
  using assms append_ok append_frame
  by (auto simp: appendTx_def Let_def split: outcome.splits prod.splits)

definition hookSafe :: "('tx, 't) tx_hook option \<Rightarrow> bool" where
  "hookSafe hook \<longleftrightarrow> (\<forall>h c ev. hook = Some h \<longrightarrow> txSafe (h c ev))"

definition hookRan :: "('tx, 't) tx_hook option \<Rightarrow> ctx \<Rightarrow> 't event \<Rightarrow> 'tx \<Rightarrow> 'tx \<Rightarrow> bool" where
  "hookRan hook c ev t t' \<longleftrightarrow> (case hook of None \<Rightarrow> t' = t | Some h \<Rightarrow> h c ev t = (Ok (), t'))"

lemma writeBody_safe: "hookSafe hook \<Longrightarrow> txSafe (writeBody es c i now cmd v prev new hook)"
  unfolding writeBody_def
  by (rule txSafe_then[OF appendTx_safe]) (auto simp: hookSafe_def txSafe_then split: option.splits)

lemma writeBody_Ok:
  assumes "writeBody es c i now cmd v prev new hook t = (Ok ev, t')"
  obtains t1 where "appendTx es c i now (cmdAggregateID cmd) (cmdEventName cmd) v prev new t = (Ok ev, t1)"
    "hookRan hook c ev t1 t'"
  using assms
  by (auto simp: writeBody_def thenTx_def hookRan_def split: outcome.splits prod.splits option.splits)

text \<open>
  The two ways \<open>WriteTx\<close> ends: without opening a transaction, or with the transaction's
  result, the state and version it was opened with being the loaded ones.
\<close>

lemma writeTx_cases:
  assumes "writeTx es c i now cmd hook d = (r, d')" "load es c (cmdAggregateID cmd) True d = (q, d1)"
  obtains "d' = d1" "\<not> isOk r"
  | cur v s' where "q = Ok (the cur, v) \<and> cur \<noteq> None \<or> q = Fail (Sentinel ErrNotFound) \<and> cur = None \<and> v = 0"
      "cmdValidate cmd cur = None" "d' = d1\<lparr>dbStore := s'\<rparr>"
      "atomically (esStore es) c
         (writeBody es c i now cmd v (case cur of None \<Rightarrow> esZero es | Some x \<Rightarrow> x) (cmdEmitEvent cmd cur) hook)
         (dbStore d1) = (r, s')"
proof -
  have "d' = d1 \<and> \<not> isOk r \<or> (\<exists>cur v s'.
      (q = Ok (the cur, v) \<and> cur \<noteq> None \<or> q = Fail (Sentinel ErrNotFound) \<and> cur = None \<and> v = 0) \<and>
      cmdValidate cmd cur = None \<and> d' = d1\<lparr>dbStore := s'\<rparr> \<and>
      atomically (esStore es) c
         (writeBody es c i now cmd v (case cur of None \<Rightarrow> esZero es | Some x \<Rightarrow> x) (cmdEmitEvent cmd cur) hook)
         (dbStore d1) = (r, s'))"
  proof (cases q)
    case (Ok xv)
    obtain x v where "xv = (x, v)" by fastforce
    with Ok assms show ?thesis
      by (auto simp: writeTx_def readerLoad_def Let_def split: prod.splits option.splits intro!: exI[of _ "Some x"])
  qed (use assms in \<open>auto simp: writeTx_def readerLoad_def Let_def
      split: outcome.splits prod.splits option.splits if_splits\<close>)
  with that show thesis by blast
qed

lemma represents_versions:
  "represents es a cl agg hs \<Longrightarrow> versionsOf a (streamName agg) = int ` {1..length hs}"
proof -
  assume "represents es a cl agg hs"
  then have "set (map fst (ctStreams a (streamName agg))) = set (map int [1..<Suc (length hs)])"
    by (auto simp: represents_def Let_def contiguous_def simp del: upt_Suc)
  then show ?thesis by (auto simp: versionsOf_def)
qed

text \<open>Inside the transaction the append finds the history and extends it.\<close>

lemma append_extends:
  assumes "codecOk (esCodec es)" "i64 (esSchema es) = esSchema es" "timeOk now"
    and "represents es (tview t) cl agg hs" "int (length hs) + 1 < maxInt64" "tinv t"
    and "appendTx es c i now agg n (int (length hs)) (last (esZero es # hs)) new t = (Ok ev, t')"
  shows "\<exists>b. encodes es ev b \<and> tview t' = ctAppend (streamName agg) (evVersion ev) b (tview t)"
    and "represents es (tview t') cl agg (hs @ [new])" "tinv t'"
    and "ev = \<lparr>evID = i, evAggregateID = agg, evEventName = n, evVersion = int (length hs) + 1,
       evSchemaVersion = esSchema es, evOccurredAt = now, evAggregate = new,
       evPreviousAggregate = last (esZero es # hs)\<rparr>"
proof -
  have v: "i64 (int (length hs) + 1) = int (length hs) + 1" using assms(5) by (simp add: i64_id)
  obtain p b where a: "compareT (esCodec es) (last (esZero es # hs)) new = Ok p"
    "marshalEvent \<lparr>ieID = i, ieEventName = n, ieVersion = int (length hs) + 1,
       ieSchemaVersion = esSchema es, ieOccurredAt = now, iePatches = Json p\<rparr> = Ok b"
    "tview t' = ctAppend (streamName agg) (int (length hs) + 1) b (tview t)" and t': "tinv t'"
    and ev: "ev = \<lparr>evID = i, evAggregateID = agg, evEventName = n, evVersion = int (length hs) + 1,
       evSchemaVersion = esSchema es, evOccurredAt = now, evAggregate = new,
       evPreviousAggregate = last (esZero es # hs)\<rparr>"
    by (rule appendTx_Ok[OF assms(6,7)]) (simp add: v)
  from represents_append[OF assms(4,1,2,3,5) a(1,2)] a(3)
  show "represents es (tview t') cl agg (hs @ [new])" by simp
  have "encodes es ev b"
    using unmarshal_marshalEvent[OF a(2)] assms(2,3) v ev by (auto simp: encodes_def)
  then show "tinv t'" "\<exists>b. encodes es ev b \<and> tview t' = ctAppend (streamName agg) (evVersion ev) b (tview t)"
    using t' a(3) ev by auto
  show "ev = \<lparr>evID = i, evAggregateID = agg, evEventName = n, evVersion = int (length hs) + 1,
       evSchemaVersion = esSchema es, evOccurredAt = now, evAggregate = new,
       evPreviousAggregate = last (esZero es # hs)\<rparr>" by (rule ev)
qed

text \<open>
  A transaction opened for an aggregate that seems absent commits only if it is absent: its
  event has version 1, which a stored history already has.
\<close>

lemma append_at_one:
  assumes "represents es (tview t) cl agg hs" "tinv t"
    and "appendTx es c i now agg n 0 prev new t = (Ok ev, t')"
  shows "hs = []"
proof (rule ccontr)
  assume "hs \<noteq> []"
  then have "1 \<in> versionsOf (tview t) (streamName agg)"
    using represents_versions[OF assms(1)] by (force simp: Suc_le_eq)
  moreover have "i64 (0 + 1) = 1" by (simp add: i64_id maxInt64_def)
  ultimately show False by (rule_tac appendTx_Ok[OF assms(2,3)]) simp
qed

text \<open>
  The specification of a write. Whatever fails, the store's contents stay as they were; on
  success the command was valid for the last state, and between the append and the hook the
  transaction held the history extended by the new state.
\<close>

lemma writeTx_fails:
  assumes "codecOk (esCodec es)" "i64 (esSchema es) = esSchema es"
    and "holds d (cmdAggregateID cmd) hs" "hookSafe hook"
    and w: "writeTx es c i now cmd hook d = (r, d')" "\<not> isOk r"
  shows "view (dbStore d') = view (dbStore d) \<and> holds d' (cmdAggregateID cmd) hs"
proof -
  obtain q d1 where ld: "load es c (cmdAggregateID cmd) True d = (q, d1)" by fastforce
  note L = load_spec[OF assms(1-3) ld]
  from w(1) ld show ?thesis
  proof (cases rule: writeTx_cases)
    case 1
    with L show ?thesis by (simp add: onlyCell_def)
  next
    case (2 cur v s')
    from atomically_not_Ok[OF _ writeBody_safe[OF assms(4)] 2(4) w(2)] L 2(3)
    show ?thesis by (auto simp: holds_def onlyCell_def)
  qed
qed

lemma writeTx_frame:
  assumes "codecOk (esCodec es)" "i64 (esSchema es) = esSchema es"
    and "holds d (cmdAggregateID cmd) hs" "hookSafe hook"
    and w: "writeTx es c i now cmd hook d = (r, d')"
  shows "sinv (dbStore d')" "b \<noteq> cmdAggregateID cmd \<Longrightarrow> cell (dbSnaps d') b = cell (dbSnaps d) b"
proof -
  obtain q d1 where ld: "load es c (cmdAggregateID cmd) True d = (q, d1)" by fastforce
  note L = load_spec[OF assms(1-3) ld]
  have "sinv (dbStore d') \<and> (b \<noteq> cmdAggregateID cmd \<longrightarrow> cell (dbSnaps d') b = cell (dbSnaps d) b)"
    using w ld
  proof (cases rule: writeTx_cases)
    case 1
    with L show ?thesis by (auto simp: onlyCell_def holds_def)
  next
    case (2 cur v s')
    from atomically_sinv[OF _ writeBody_safe[OF assms(4)] 2(4)] L 2(3)
    show ?thesis by (auto simp: holds_def onlyCell_def)
  qed
  then show "sinv (dbStore d')" "b \<noteq> cmdAggregateID cmd \<Longrightarrow> cell (dbSnaps d') b = cell (dbSnaps d) b"
    by auto
qed

lemma writeTx_succeeds:
  assumes "codecOk (esCodec es)" "i64 (esSchema es) = esSchema es" "timeOk now"
    and "holds d (cmdAggregateID cmd) hs" "int (length hs) + 1 < maxInt64" "hookSafe hook"
    and w: "writeTx es c i now cmd hook d = (Ok ev, d')"
  obtains t t' b where "cmdValidate cmd (currentOf hs) = None" "ev = producedEvent es i now cmd hs"
    "encodes es ev b" "tview t = ctAppend (streamName (cmdAggregateID cmd)) (int (length hs) + 1) b (view (dbStore d))"
    "represents es (tview t) (cell (dbSnaps d')) (cmdAggregateID cmd) (hs @ [evAggregate ev])"
    "tinv t" "hookRan hook c ev t t'" "view (dbStore d') = tview t'"
proof -
  let ?agg = "cmdAggregateID cmd"
  obtain q d1 where ld: "load es c ?agg True d = (q, d1)" by fastforce
  note L = load_spec[OF assms(1,2,4) ld]
  have d1: "sinv (dbStore d)" "dbStore d1 = dbStore d"
    "represents es (view (dbStore d)) (cell (dbSnaps d1)) ?agg hs"
    using L by (auto simp: onlyCell_def holds_def)
  from w ld obtain cur v s' where
    q: "q = Ok (the cur, v) \<and> cur \<noteq> None \<or> q = Fail (Sentinel ErrNotFound) \<and> cur = None \<and> v = 0"
    and val: "cmdValidate cmd cur = None" and d': "d' = d1\<lparr>dbStore := s'\<rparr>"
    and at: "atomically (esStore es) c (writeBody es c i now cmd v
      (case cur of None \<Rightarrow> esZero es | Some x \<Rightarrow> x) (cmdEmitEvent cmd cur) hook) (dbStore d) = (Ok ev, s')"
    by (cases rule: writeTx_cases) (auto simp: d1(2))
  obtain t t' where t: "tinv t" "tview t = view (dbStore d)" "view s' = tview t'"
    and wb: "writeBody es c i now cmd v (case cur of None \<Rightarrow> esZero es | Some x \<Rightarrow> x) (cmdEmitEvent cmd cur) hook t = (Ok ev, t')"
    using atomically_Ok[OF d1(1) writeBody_safe[OF assms(6)] at] by metis
  obtain t1 where ap: "appendTx es c i now ?agg (cmdEventName cmd) v
      (case cur of None \<Rightarrow> esZero es | Some x \<Rightarrow> x) (cmdEmitEvent cmd cur) t = (Ok ev, t1)"
    and hk: "hookRan hook c ev t1 t'" by (rule writeBody_Ok[OF wb])
  have rep: "represents es (tview t) (cell (dbSnaps d1)) ?agg hs" using d1(3) t(2) by simp
  have cur: "cur = currentOf hs \<and> v = int (length hs)"
  proof (cases cur)
    case None
    with q ap append_at_one[OF rep t(1)] show ?thesis by (auto simp: currentOf_def)
  next
    case (Some x)
    with q L show ?thesis by (auto simp: currentOf_def loaded_def split: if_splits)
  qed
  then have "(case cur of None \<Rightarrow> esZero es | Some x \<Rightarrow> x) = last (esZero es # hs)"
    by (auto simp: currentOf_def)
  with cur ap have ap': "appendTx es c i now ?agg (cmdEventName cmd) (int (length hs))
      (last (esZero es # hs)) (cmdEmitEvent cmd (currentOf hs)) t = (Ok ev, t1)" by metis
  note E = append_extends[OF assms(1-3) rep assms(5) t(1) ap']
  from E(4) have ev: "ev = producedEvent es i now cmd hs" by (simp add: producedEvent_def)
  obtain b where "encodes es ev b" "tview t1 = ctAppend (streamName ?agg) (int (length hs) + 1) b (view (dbStore d))"
    using E(1,4) t(2) by auto
  with that[OF _ ev _ _ _ E(3) hk] val cur E(2) d' t(3) ev show thesis
    by (simp add: producedEvent_def)
qed

lemma hookSafe_None [simp]: "hookSafe None"
  by (simp add: hookSafe_def)

lemma writeTx_plain:
  assumes "codecOk (esCodec es)" "i64 (esSchema es) = esSchema es" "timeOk now"
    and "holds d (cmdAggregateID cmd) hs" "int (length hs) + 1 < maxInt64"
    and "writeTx es c i now cmd None d = (Ok ev, d')"
  shows "cmdValidate cmd (currentOf hs) = None \<and> ev = producedEvent es i now cmd hs \<and>
    holds d' (cmdAggregateID cmd) (hs @ [evAggregate ev])"
proof -
  have inv: "sinv (dbStore d')" using writeTx_frame(1)[OF assms(1,2,4) hookSafe_None assms(6)] .
  obtain t t' b where "cmdValidate cmd (currentOf hs) = None" "ev = producedEvent es i now cmd hs"
    "represents es (tview t) (cell (dbSnaps d')) (cmdAggregateID cmd) (hs @ [evAggregate ev])"
    "hookRan None c ev t t'" "view (dbStore d') = tview t'"
    by (rule writeTx_succeeds[OF assms(1-5) hookSafe_None assms(6)])
  with inv show ?thesis by (simp add: holds_def hookRan_def)
qed

subsection \<open>Snapshots, deletion and replay\<close>

lemma esSnapshot_holds:
  assumes "codecOk (esCodec es)" "i64 (esSchema es) = esSchema es" "holds d agg hs"
    and "evAggregateID ev = agg" "1 \<le> evVersion ev" "evVersion ev \<le> int (length hs)"
    and "evAggregate ev = hs ! nat (evVersion ev - 1)" "esSnapshot es c ev d = (r, d')"
  shows "holds d' agg hs \<and> onlyCell agg d d'"
  using put_snapshot_holds[OF assms(1-3,5-7)] assms(4,8)
  by (auto simp: esSnapshot_def split: prod.splits)

text \<open>\<open>Delete\<close> leaves neither stream nor snapshot, and touches no other aggregate.\<close>

lemma esDelete_spec:
  assumes "sinv (dbStore d)" "esDelete es c agg d = (r, d')"
  shows "sinv (dbStore d')"
    and "isOk r \<Longrightarrow> holds d' agg []"
    and "b \<noteq> agg \<Longrightarrow> holds d b hs \<Longrightarrow> holds d' b hs"
    and "ctReceipts (view (dbStore d')) = ctReceipts (view (dbStore d))"
    and "ctDeliveries (view (dbStore d')) = ctDeliveries (view (dbStore d))"
proof -
  let ?a = "view (dbStore d)"
  obtain q s' where at: "atomically (esStore es) c (txDeleteStream (esStore es) c (streamName agg)) (dbStore d) = (q, s')"
    by fastforce
  have s': "sinv s'" using atomically_sinv[OF assms(1) txSafe_ops(2) at] .
  have vw: "view s' = (if isOk q then ctDeleteStream (streamName agg) ?a else ?a)"
  proof (cases "isOk q")
    case True
    then obtain u where "q = Ok u" by (cases q) auto
    from atomically_Ok[OF assms(1) txSafe_ops(2) at[unfolded this]] True deleteStream_spec
    show ?thesis by (metis isOk.simps(1))
  qed (use atomically_not_Ok[OF assms(1) txSafe_ops(2) at] in auto)
  obtain p where d': "dbStore d' = s'" "dbSnaps d' = p"
    and p: "p = dbSnaps d \<and> \<not> isOk q \<and> \<not> isOk r \<or> isOk q \<and> snDelete (esSnaps es) c agg (dbSnaps d) = (r, p)"
    using assms(2) at
    by (auto simp: esDelete_def deleteSnapshot_def split: outcome.splits prod.splits)
  have cl: "cell p = (if isOk q \<and> isOk r then (cell (dbSnaps d))(agg := None) else cell (dbSnaps d))"
    using p delete_spec by auto
  show "sinv (dbStore d')" using s' d' by simp
  show "isOk r \<Longrightarrow> holds d' agg []"
    using s' d' p vw cl
    by (auto simp: holds_def represents_def ctDeleteStream_def snapshotOk_def maxInt64_def)
  show "b \<noteq> agg \<Longrightarrow> holds d b hs \<Longrightarrow> holds d' b hs"
    using s' d' vw cl by (auto simp: holds_def represents_def ctDeleteStream_def)
  show "ctReceipts (view (dbStore d')) = ctReceipts ?a" "ctDeliveries (view (dbStore d')) = ctDeliveries ?a"
    using d' vw by (auto simp: ctDeleteStream_def)
qed

text \<open>
  Replay calls its function on the requested part of the history, in order. \<open>storedEvents\<close>
  are the events it would call it on if every version were requested.
\<close>

lemma replayLoop_chain:
  assumes "codecOk (esCodec es)" "evChain es x evs hs" "marshalT (esCodec es) x = Ok j"
    and "deserializeEvents bs = Ok evs" "map ieVersion evs = map int [n..<n + length hs]"
    and "int (n + length hs) \<le> maxInt64"
  shows "replayLoop es c agg fromV toV fn bs j x (int n) w =
    (Ok (), fold fn (filter (\<lambda>e. fromV \<le> evVersion e \<and> (toV = 0 \<or> evVersion e \<le> toV))
                       (storedEvents es c agg x evs hs)) w)"
  using assms(2-6)
proof (induction bs arbitrary: x evs hs j n w)
  case Nil
  then have "evs = [] \<and> hs = []" by (cases hs) auto
  then show ?case by simp
next
  case (Cons b bs)
  from Cons.prems(1,3) obtain e evs' h hs' where e: "evs = e # evs'" "hs = h # hs'"
      "unmarshalEvent b = Ok e" "deserializeEvents bs = Ok evs'" "evStep es x e h" "evChain es h evs' hs'"
    by (cases hs) (auto simp: bindO_eq_Ok)
  from e(5) Cons.prems(2) obtain jy e' where s: "marshalT (esCodec es) h = Ok jy"
      "upcastInternalEvent es c e = Ok e'" "applyPatchesToJSON (esCodec es) j (iePatches e') = Ok jy"
    by (auto simp: evStep_def) metis
  have vs: "ieVersion e = int n" "map ieVersion evs' = map int [Suc n..<Suc n + length hs']"
    using Cons.prems(4) e(1,2) by (auto simp: upt_conv_Cons simp del: upt_Suc)
  have ev': "ieVersion e' = int n" using upcast_version[OF s(2)] vs(1) by simp
  define ev where "ev = storedEvent agg x e' h"
  let ?all = "storedEvents es c agg h evs' hs'"
  let ?in = "\<lambda>e. fromV \<le> evVersion e \<and> (toV = 0 \<or> evVersion e \<le> toV)"
  let ?ok = "fromV \<le> int n \<and> (toV = 0 \<or> int n \<le> toV)"
  have n: "i64 (int n + 1) = int (Suc n)" using Cons.prems(5) e(2) by (simp add: i64_id)
  have IH: "replayLoop es c agg fromV toV fn bs jy h (int (Suc n)) w' =
        (Ok (), fold fn (filter ?in ?all) w')" for w'
    using Cons.IH[OF e(6) s(1) e(4) vs(2)] Cons.prems(5) e(2) by simp
  have stop: "filter ?in ?all = []" if "toV > 0" "int (Suc n) > toV"
  proof -
    have "map evVersion ?all = map int [Suc n..<Suc n + length hs']"
      using storedEvents_maps(3)[OF e(6)] vs(2) by simp
    then have "\<forall>v \<in> set (map evVersion ?all). int (Suc n) \<le> v" by auto
    with that show ?thesis by (fastforce simp: filter_empty_conv)
  qed
  have ex: "bindO (unmarshalEvent b) (\<lambda>e. bindO (upcastInternalEvent es c e) (\<lambda>e'.
      bindO (applyPatchesToJSON (esCodec es) j (iePatches e')) (\<lambda>j.
      bindO (unmarshalT (esCodec es) j) (\<lambda>cur. Ok (e', j, cur))))) = Ok (e', jy, h)"
    using e(3) s codecOk_roundtrip[OF assms(1) s(1)] by simp
  have "replayLoop es c agg fromV toV fn (b # bs) j x (int n) w =
      (if toV > 0 \<and> int (Suc n) > toV then (Ok (), if ?ok then fn ev w else w)
       else replayLoop es c agg fromV toV fn bs jy h (int (Suc n)) (if ?ok then fn ev w else w))"
    by (simp only: replayLoop.simps ex outcome.case prod.case ev' n Let_def ev_def storedEvent_def)
  also have "\<dots> = (Ok (), fold fn (filter ?in (ev # ?all)) w)"
    unfolding IH using stop ev' by (auto simp: ev_def storedEvent_def)
  finally show ?case using e(1,2) s(2) by (simp add: ev_def)
qed

lemma replay_spec:
  assumes "codecOk (esCodec es)" "holds d agg hs"
    and "isOk (stReadFrom (esStore es) c (streamName agg) 1 (dbStore d))"
    and "deserializeEvents (map snd (ctStreams (view (dbStore d)) (streamName agg))) = Ok evs"
  shows "replay es c agg fromV toV fn (dbStore d) w =
    (Ok (), fold fn (filter (\<lambda>e. fromV \<le> evVersion e \<and> (toV = 0 \<or> evVersion e \<le> toV))
                       (storedEvents es c agg (esZero es) evs hs)) w)"
proof -
  let ?st = "ctStreams (view (dbStore d)) (streamName agg)"
  obtain bs where bs: "stReadFrom (esStore es) c (streamName agg) 1 (dbStore d) = Ok bs"
    using assms(3) by (metis isOk.elims(2))
  from assms(2,4) have e: "contiguous fst ?st" "length ?st = length hs"
      "int (length hs) < maxInt64" "map ieVersion evs = map fst ?st" "evChain es (esZero es) evs hs"
      and inv: "sinv (dbStore d)"
    by (auto simp: holds_def represents_def Let_def)
  have bs': "bs = map snd ?st" using readFrom_spec[OF inv bs] contiguous_filter[OF e(1), of 0] by simp
  show ?thesis
  proof (cases "hs = []")
    case True
    with bs bs' e(2,5) show ?thesis by (cases evs) (auto simp: replay_def)
  next
    case False
    then obtain j where j: "marshalT (esCodec es) (esZero es) = Ok j"
      using e(5) by (cases hs; cases evs) (auto simp: evStep_def)
    have "map ieVersion evs = map int [1..<1 + length hs]"
      using e(1,2,4) by (simp add: contiguous_def)
    from replayLoop_chain[OF assms(1) e(5) j assms(4) this, of c agg fromV toV fn w] e(3) bs bs' j False e(2)
    show ?thesis by (simp add: replay_def)
  qed
qed

lemma holds_decodes:
  assumes "holds d agg hs"
  obtains evs where "deserializeEvents (map snd (ctStreams (view (dbStore d)) (streamName agg))) = Ok evs"
    "evChain es (esZero es) evs hs" "map ieVersion evs = map int [1..<Suc (length hs)]"
  using assms by (auto simp: holds_def represents_def Let_def contiguous_def)

end

section \<open>On the in-memory stores\<close>

definition memES ::
  "'t codec \<Rightarrow> (int \<Rightarrow> upcaster option) \<Rightarrow> int \<Rightarrow> 't \<Rightarrow> bool \<Rightarrow> (string \<Rightarrow> bool) option
     \<Rightarrow> (memory_tx, memory, snapshot_memory, 't) es" where
  "memES cd ups schema zero hook g =
     (let es = esNew memoryStore snapshotMemory cd ups schema zero hook
      in case g of None \<Rightarrow> es | Some f \<Rightarrow> guardAutoSnapshots f es)"

lemma memES_simps [simp]:
  "esStore (memES cd ups schema zero hook g) = memoryStore"
  "esSnaps (memES cd ups schema zero hook g) = snapshotMemory"
  "esCodec (memES cd ups schema zero hook g) = cd"
  "esUpcasters (memES cd ups schema zero hook g) = ups"
  "esSchema (memES cd ups schema zero hook g) = schema"
  "esZero (memES cd ups schema zero hook g) = zero"
  "esOnCorruption (memES cd ups schema zero hook g) = hook"
  "esGuard (memES cd ups schema zero hook g) = g"
  by (simp_all add: memES_def esNew_def guardAutoSnapshots_def Let_def split: option.split)

interpretation mes: event_store_on "memES cd ups schema zero hook g"
  memView memTxView memTxBase memInv memTxInv smSnaps
  for cd ups schema zero hook g
  by (simp add: event_store_on_def mem.store_contract_axioms snap.snapshot_contract_axioms)

end
