(* ===== verification/Event_Store_Properties.thy ===== *)
theory Event_Store_Properties
  imports Event_Store_Correct
begin

text \<open>
  The properties of the event store and of the in-memory stores under it, over the model's
  own definitions: each is a fact of an interpretation with its statement written out. The
  witnesses run the code on a counter aggregate.
\<close>

definition dbHolds ::
  "('tx, memory, snapshot_memory, 't) es \<Rightarrow> (memory, snapshot_memory) db \<Rightarrow> string \<Rightarrow> 't list \<Rightarrow> bool" where
  "dbHolds es d agg hs \<longleftrightarrow>
     memInv (dbStore d) \<and> represents es (memView (dbStore d)) (smSnaps (dbSnaps d)) agg hs"

lemma mes_holds: "mes.holds cd ups schema zero hook g = dbHolds (memES cd ups schema zero hook g)"
  by (intro ext) (simp add: mes.holds_def dbHolds_def)

lemma dbHolds_other:
  assumes "memInv (dbStore d')" "\<forall>sid. sid \<noteq> streamName agg \<longrightarrow> ctStreams (memView (dbStore d')) sid = ctStreams (memView (dbStore d)) sid"
    "\<forall>b. b \<noteq> agg \<longrightarrow> smSnaps (dbSnaps d') b = smSnaps (dbSnaps d) b" "b \<noteq> agg" "dbHolds es d b hs"
  shows "dbHolds es d' b hs"
  using assms by (simp add: dbHolds_def represents_def)

section \<open>A concrete aggregate for the witnesses\<close>

text \<open>A counter: its JSON is a number, a difference is one \<open>replace\<close> operation at the root.\<close>

definition counterCodec :: "int codec" where
  "counterCodec =
     \<lparr>marshalT = (\<lambda>n. Ok (JInt n)),
      unmarshalT = (\<lambda>j. case j of JInt n \<Rightarrow> Ok n | _ \<Rightarrow> jsonErr ''cannot unmarshal''),
      compareT = (\<lambda>a b. Ok (JArr (if a = b then [] else
         [JObj [(''op'', JStr ''replace''), (''path'', JStr ''''), (''value'', JInt b)]]))),
      applyPatch = (\<lambda>p j. case p of
           JArr [JObj ms] \<Rightarrow> (case map_of ms ''value'' of Some v \<Rightarrow> Ok v | None \<Rightarrow> jsonErr ''missing value'')
         | _ \<Rightarrow> jsonErr ''bad patch'')\<rparr>"

lemma counterCodec_ok: "codecOk counterCodec"
  by (auto simp: codecOk_def counterCodec_def noPatch_def)

definition counterES :: "(memory_tx, memory, snapshot_memory, int) es" where
  "counterES = memES counterCodec (\<lambda>_. None) 1 0 False None"

definition addCmd :: "string \<Rightarrow> int \<Rightarrow> bool \<Rightarrow> int command" where
  "addCmd agg n snap =
     \<lparr>cmdAggregateID = agg, cmdEventName = ''added'', cmdShouldSnapshot = snap,
      cmdValidate = (\<lambda>cur. if n < 0 then Some (Sentinel ErrValidation) else None),
      cmdEmitEvent = (\<lambda>cur. (case cur of None \<Rightarrow> 0 | Some x \<Rightarrow> x) + n), cmdCommandID = None\<rparr>"

definition emptyDb :: "(memory, snapshot_memory) db" where
  "emptyDb = \<lparr>dbStore = newMemory, dbSnaps = newSnapshots, dbCorrupt = []\<rparr>"

definition someTime :: string where
  "someTime = ''2024-02-29T12:00:00Z''"

lemma timeOk_someTime: "timeOk someTime"
  by code_simp

lemma emptyDb_holds: "dbHolds es emptyDb agg []"
  by (simp add: dbHolds_def emptyDb_def memInv_def streamOf_def newMemory_def newSnapshots_def
      represents_def snapshotOk_def memView_def maxInt64_def)

section \<open>Writing on the in-memory stores\<close>

lemma mem_write_ok:
  assumes "codecOk cd" "i64 schema = schema" "timeOk now"
    and "dbHolds (memES cd ups schema zero hook g) d (cmdAggregateID cmd) hs"
    and "int (length hs) + 1 < maxInt64"
    and "writeTx (memES cd ups schema zero hook g) c i now cmd None d = (Ok ev, d')"
  shows "cmdValidate cmd (currentOf hs) = None \<and>
    ev = producedEvent (memES cd ups schema zero hook g) i now cmd hs \<and>
    dbHolds (memES cd ups schema zero hook g) d' (cmdAggregateID cmd) (hs @ [evAggregate ev])"
  using mes.writeTx_plain[of cd ups schema zero hook g now d cmd hs c i ev d'] assms
  by (auto simp: mes_holds)

lemma mem_write_frame:
  assumes "codecOk cd" "i64 schema = schema"
    and "dbHolds (memES cd ups schema zero hook g) d (cmdAggregateID cmd) hs"
    and "writeTx (memES cd ups schema zero hook g) c i now cmd None d = (r, d')"
  shows "memInv (dbStore d')"
    and "b \<noteq> cmdAggregateID cmd \<Longrightarrow> smSnaps (dbSnaps d') b = smSnaps (dbSnaps d) b"
    and "\<not> isOk r \<Longrightarrow> memView (dbStore d') = memView (dbStore d) \<and>
      dbHolds (memES cd ups schema zero hook g) d' (cmdAggregateID cmd) hs"
proof -
  show "memInv (dbStore d')" "b \<noteq> cmdAggregateID cmd \<Longrightarrow> smSnaps (dbSnaps d') b = smSnaps (dbSnaps d) b"
    using mes.writeTx_frame[of cd ups schema zero hook g d cmd hs None c i now r d'] assms
    by (simp_all add: mes_holds)
  show "\<not> isOk r \<Longrightarrow> memView (dbStore d') = memView (dbStore d) \<and>
      dbHolds (memES cd ups schema zero hook g) d' (cmdAggregateID cmd) hs"
    using mes.writeTx_fails[of cd ups schema zero hook g d cmd hs None c i now r d'] assms
    by (simp add: mes_holds)
qed

text \<open>A counter that was created with 5: one event, and the snapshot the write asked for.\<close>

definition counterDb :: "(memory, snapshot_memory) db" where
  "counterDb = snd (writeTx counterES background ''id1'' someTime (addCmd ''a'' 5 False) None emptyDb)"

lemma counterDb_accepted:
  "fst (writeTx counterES background ''id1'' someTime (addCmd ''a'' 5 False) None emptyDb) =
     Ok \<lparr>evID = ''id1'', evAggregateID = ''a'', evEventName = ''added'', evVersion = 1,
        evSchemaVersion = 1, evOccurredAt = someTime, evAggregate = 5, evPreviousAggregate = 0\<rparr>"
  by code_simp

lemma counterDb_holds: "dbHolds counterES counterDb ''a'' [5]"
proof -
  let ?cmd = "addCmd ''a'' 5 False"
  obtain ev where w: "writeTx counterES background ''id1'' someTime ?cmd None emptyDb = (Ok ev, counterDb)"
      "evAggregate ev = 5"
    using counterDb_accepted unfolding counterDb_def
    by (cases "writeTx counterES background ''id1'' someTime ?cmd None emptyDb") auto
  have "dbHolds counterES emptyDb (cmdAggregateID ?cmd) []" by (rule emptyDb_holds)
  with mem_write_ok[OF counterCodec_ok _ timeOk_someTime, of 1 "\<lambda>_. None" 0 False None emptyDb
      ?cmd "[]" background "''id1''" ev counterDb] w
  show ?thesis by (simp add: counterES_def[symmetric] maxInt64_def i64_def addCmd_def)
qed

section \<open>Transactions as sequences of operations\<close>

text \<open>
  What a transaction's function may do: the five operations in any order, and then return an
  outcome of its own. The abstract meaning of a sequence is the composition of the abstract
  operations.
\<close>

datatype tx_op =
    OpAppend string int blob
  | OpDeleteStream string
  | OpDropDeliveries string
  | OpPutReceipt string receipt
  | OpEnqueueDelivery string int

fun runOp :: "('tx, 's) store_ops \<Rightarrow> ctx \<Rightarrow> tx_op \<Rightarrow> 'tx \<Rightarrow> unit outcome \<times> 'tx" where
  "runOp S c (OpAppend sid v d) = txAppend S c sid v d"
| "runOp S c (OpDeleteStream sid) = txDeleteStream S c sid"
| "runOp S c (OpDropDeliveries agg) = txDropDeliveries S c agg"
| "runOp S c (OpPutReceipt cid r) = txPutReceipt S c cid r"
| "runOp S c (OpEnqueueDelivery agg v) = txEnqueueDelivery S c agg v"

fun runOps :: "('tx, 's) store_ops \<Rightarrow> ctx \<Rightarrow> tx_op list \<Rightarrow> 'a outcome \<Rightarrow> 'tx \<Rightarrow> 'a outcome \<times> 'tx" where
  "runOps S c [] fin = (\<lambda>t. (fin, t))"
| "runOps S c (x # xs) fin = thenTx (runOp S c x) (\<lambda>_. runOps S c xs fin)"

fun absOp :: "tx_op \<Rightarrow> contents \<Rightarrow> contents" where
  "absOp (OpAppend sid v d) = ctAppend sid v d"
| "absOp (OpDeleteStream sid) = ctDeleteStream sid"
| "absOp (OpDropDeliveries agg) = ctDropDeliveries agg"
| "absOp (OpPutReceipt cid r) = ctPutReceipt cid r"
| "absOp (OpEnqueueDelivery agg v) = ctEnqueueDelivery agg v"

context store_contract
begin

lemma runOps_safe: "txSafe (runOps S c xs fin)"
proof (induction xs)
  case (Cons x xs)
  have "txSafe (runOp S c x)" by (cases x) (simp_all add: txSafe_ops)
  with Cons show ?case by (simp add: txSafe_then)
qed simp

lemma runOp_refines:
  assumes "tinv t" "runOp S c x t = (Ok u, t')"
  shows "tinv t' \<and> tview t' = absOp x (tview t)"
proof (cases x)
  case (OpAppend sid v d)
  with assms append_ok append_frame show ?thesis by auto
next
  case (OpDeleteStream sid)
  with assms deleteStream_spec show ?thesis by fastforce
next
  case (OpDropDeliveries agg)
  with assms dropDeliveries_spec show ?thesis by fastforce
next
  case (OpPutReceipt cid r)
  with assms putReceipt_spec show ?thesis by fastforce
next
  case (OpEnqueueDelivery agg v)
  with assms enqueueDelivery_spec show ?thesis by fastforce
qed

lemma runOps_refines:
  "tinv t \<Longrightarrow> runOps S c xs fin t = (Ok u, t') \<Longrightarrow> tview t' = fold absOp xs (tview t)"
proof (induction xs arbitrary: t)
  case (Cons x xs)
  then obtain w t1 where "runOp S c x t = (Ok w, t1)" "runOps S c xs fin t1 = (Ok u, t')"
    by (auto simp: thenTx_def split: prod.splits outcome.splits)
  with runOp_refines[OF Cons.prems(1)] Cons.IH[of t1] show ?case by simp
qed simp

lemma atomically_refines:
  assumes "sinv s" "atomically S c (runOps S c xs fin) s = (r, s')"
  shows "sinv s' \<and> view s' = (if isOk r then fold absOp xs (view s) else view s)"
proof (cases "isOk r")
  case True
  then obtain x where "r = Ok x" by (cases r) auto
  with assms(2) atomically_Ok[OF assms(1) runOps_safe] obtain t t' where
    "tinv t" "tview t = view s" "runOps S c xs fin t = (Ok x, t')" "sinv s'" "view s' = tview t'" by metis
  with runOps_refines[of t] True show ?thesis by auto
qed (use atomically_not_Ok[OF assms(1) runOps_safe assms(2)] in simp)

end

section \<open>The in-memory store\<close>

text \<open>The bisection the in-memory store locates versions with finds, on every sorted stream,
  exactly the position of the reference scan, and reports whether the version is present.\<close>

theorem binarySearch_is_scan:
  assumes "sortedBy k xs"
  shows "binarySearch k xs v = (length (takeWhile (\<lambda>x. k x < v) xs), v \<in> k ` set xs)"
  using binarySearch_eq[OF assms] by (simp add: posBy_def)

theorem binarySearch_is_scan_witness:
  "binarySearch id [1, 3, 4 :: int] 3 = (length (takeWhile (\<lambda>x. id x < 3) [1, 3, 4 :: int]), 3 \<in> id ` set [1, 3, 4 :: int])"
  by (rule binarySearch_is_scan) (simp add: sortedBy_def)

text \<open>C7: \<open>Atomically\<close> on the in-memory store refines the abstract contents and is all or
  nothing. When the function's operations all succeed and it returns a value, the contents
  are the old ones with every operation applied in order; when an operation fails or the
  function ends in an error or a panic, the undo log restores streams, receipts and pending
  deliveries exactly, in the same order.\<close>

theorem atomically_all_or_nothing:
  assumes "memInv s" "atomically memoryStore c (runOps memoryStore c xs fin) s = (r, s')"
  shows "memInv s' \<and> memView s' = (if isOk r then fold absOp xs (memView s) else memView s)"
  by (rule mem.atomically_refines[OF assms])

theorem atomically_all_or_nothing_witness:
  "memView (snd (atomically memoryStore background
      (runOps memoryStore background [OpAppend ''s'' 1 Empty, OpEnqueueDelivery ''a'' 1, OpAppend ''s'' 1 Empty] (Ok ()))
      newMemory)) = memView newMemory"
proof -
  let ?xs = "[OpAppend ''s'' 1 Empty, OpEnqueueDelivery ''a'' 1, OpAppend ''s'' 1 Empty]"
  obtain r s' where at: "atomically memoryStore background (runOps memoryStore background ?xs (Ok ())) newMemory = (r, s')"
    by fastforce
  have "\<not> isOk (fst (atomically memoryStore background (runOps memoryStore background ?xs (Ok ())) newMemory))"
    by code_simp
  moreover have "memInv newMemory" by (simp add: memInv_def newMemory_def streamOf_def)
  ultimately show ?thesis using atomically_all_or_nothing[of newMemory background ?xs "Ok ()" r s'] at by simp
qed

section \<open>The event store\<close>

text \<open>C6: reading an aggregate. The snapshot cell is one the library can have left: empty,
  bytes that do not decode, or, whichever version the writer or an upcast stored it at, the state
  the history has at that version. A read with a live context then returns the last state of the
  aggregate's history and its length, or \<open>ErrNotFound\<close> when the history is empty; and it keeps the
  history, the event store and every other aggregate's snapshot.\<close>

theorem load_returns_history:
  assumes "codecOk cd" "i64 schema = schema" "ctxErr c = None"
    and "dbHolds (memES cd ups schema zero hook g) d agg hs"
    and "load (memES cd ups schema zero hook g) c agg lockHeld d = (r, d')"
  shows "r = (if hs = [] then Fail (Sentinel ErrNotFound) else Ok (last hs, int (length hs))) \<and>
    dbHolds (memES cd ups schema zero hook g) d' agg hs \<and>
    dbStore d' = dbStore d \<and>
    (\<forall>b. b \<noteq> agg \<longrightarrow> smSnaps (dbSnaps d') b = smSnaps (dbSnaps d) b)"
proof (intro conjI)
  let ?es = "memES cd ups schema zero hook g"
  have L: "r = mes.loaded hs \<and> dbHolds ?es d' agg hs \<and> mes.onlyCell agg d d'"
    using mes.load_live[of cd ups schema zero hook g d agg hs c lockHeld r d'] assms
    by (simp add: mes_holds snapGet_def memReadFrom_def)
  then show "r = (if hs = [] then Fail (Sentinel ErrNotFound) else Ok (last hs, int (length hs)))"
    by (simp add: mes.loaded_def)
  show "dbHolds ?es d' agg hs" "dbStore d' = dbStore d"
    "\<forall>b. b \<noteq> agg \<longrightarrow> smSnaps (dbSnaps d') b = smSnaps (dbSnaps d) b"
    using L by (auto simp: mes.onlyCell_def)
qed

theorem load_returns_history_witness:
  "fst (load counterES background ''a'' False counterDb) = Ok (5, 1)"
proof -
  obtain r d' where "load counterES background ''a'' False counterDb = (r, d')" by fastforce
  with load_returns_history[OF counterCodec_ok, of 1 background "\<lambda>_. None" 0 False None counterDb
      "''a''" "[5]" False r d', THEN conjunct1] counterDb_holds
  show ?thesis by (simp add: counterES_def[symmetric] i64_def)
qed

text \<open>Writing. When \<open>WriteTx\<close> accepts a command, the command was valid for the last state of
  the history, the returned event carries the next version, the previous and the new state,
  and the aggregate's history is the old one with the new state at its end.\<close>

theorem write_extends_history:
  assumes "codecOk cd" "i64 schema = schema" "timeOk now"
    and "dbHolds (memES cd ups schema zero hook g) d (cmdAggregateID cmd) hs"
    and "int (length hs) + 1 < maxInt64"
    and "writeTx (memES cd ups schema zero hook g) c i now cmd None d = (Ok ev, d')"
  shows "cmdValidate cmd (currentOf hs) = None \<and>
    evVersion ev = int (length hs) + 1 \<and>
    evAggregate ev = cmdEmitEvent cmd (currentOf hs) \<and>
    evPreviousAggregate ev = last (zero # hs) \<and>
    dbHolds (memES cd ups schema zero hook g) d' (cmdAggregateID cmd)
           (hs @ [cmdEmitEvent cmd (currentOf hs)])"
  using mem_write_ok[OF assms] by (auto simp: producedEvent_def)

theorem write_extends_history_witness:
  "dbHolds counterES (snd (writeTx counterES background ''id2'' someTime (addCmd ''a'' 2 False) None counterDb))
     ''a'' [5, 7]"
proof -
  let ?cmd = "addCmd ''a'' 2 False"
  let ?w = "writeTx counterES background ''id2'' someTime ?cmd None counterDb"
  have "isOk (fst ?w)" by code_simp
  then obtain ev d' where w: "?w = (Ok ev, d')" by (cases ?w; cases "fst ?w") auto
  show ?thesis
    using write_extends_history[OF counterCodec_ok _ timeOk_someTime, of 1 "\<lambda>_. None" 0 False None counterDb
      ?cmd "[5]" background "''id2''" ev d', THEN conjunct2, THEN conjunct2, THEN conjunct2, THEN conjunct2] w counterDb_holds
    by (simp add: counterES_def[symmetric] maxInt64_def i64_def addCmd_def currentOf_def)
qed

text \<open>A write that fails (a failed read, a validation error, a version conflict, a failed
  encoding, an injected store error) leaves streams, receipts and deliveries as they were,
  and in any case no other aggregate's snapshot is touched.\<close>

theorem failed_write_changes_nothing:
  assumes "codecOk cd" "i64 schema = schema"
    and "dbHolds (memES cd ups schema zero hook g) d (cmdAggregateID cmd) hs"
    and "writeTx (memES cd ups schema zero hook g) c i now cmd None d = (r, d')" "\<not> isOk r"
  shows "memView (dbStore d') = memView (dbStore d) \<and>
    dbHolds (memES cd ups schema zero hook g) d' (cmdAggregateID cmd) hs \<and>
    (b \<noteq> cmdAggregateID cmd \<longrightarrow> smSnaps (dbSnaps d') b = smSnaps (dbSnaps d) b)"
  using mem_write_frame[OF assms(1-4)] assms(5) by simp_all

theorem failed_write_changes_nothing_witness:
  "memView (dbStore (snd (writeTx counterES background ''id2'' someTime (addCmd ''a'' (- 2) False) None counterDb)))
     = memView (dbStore counterDb)"
proof -
  let ?cmd = "addCmd ''a'' (- 2) False"
  let ?w = "writeTx counterES background ''id2'' someTime ?cmd None counterDb"
  obtain r d' where w: "?w = (r, d')" by fastforce
  have "\<not> isOk (fst ?w)" by code_simp
  then show ?thesis
    using failed_write_changes_nothing[OF counterCodec_ok, of 1 "\<lambda>_. None" 0 False None counterDb
      ?cmd "[5]" background "''id2''" someTime r d', THEN conjunct1] w counterDb_holds
    by (simp add: counterES_def[symmetric] i64_def addCmd_def)
qed



text \<open>\<open>Delete\<close> erases an aggregate. After it succeeds the aggregate reads as one that never
  existed, its snapshot cell is empty, every other aggregate keeps its history, and receipts
  and pending deliveries are untouched.\<close>

theorem delete_erases:
  assumes "memInv (dbStore d)" "esDelete (memES cd ups schema zero hook g) c agg d = (Ok u, d')"
  shows "dbHolds (memES cd ups schema zero hook g) d' agg [] \<and>
    smSnaps (dbSnaps d') agg = None \<and>
    (b \<noteq> agg \<longrightarrow> dbHolds (memES cd ups schema zero hook g) d b hs \<longrightarrow>
           dbHolds (memES cd ups schema zero hook g) d' b hs) \<and>
    mReceipts (dbStore d') = mReceipts (dbStore d) \<and>
    mDeliveries (dbStore d') = mDeliveries (dbStore d)"
proof (intro conjI)
  note S = mes.esDelete_spec[of d cd ups schema zero hook g c agg "Ok u" d', OF assms]
  show "dbHolds (memES cd ups schema zero hook g) d' agg []" using S(2) by (simp add: mes_holds)
  show "b \<noteq> agg \<longrightarrow> dbHolds (memES cd ups schema zero hook g) d b hs \<longrightarrow>
      dbHolds (memES cd ups schema zero hook g) d' b hs" using S(3) by (simp add: mes_holds)
  show "mReceipts (dbStore d') = mReceipts (dbStore d)" "mDeliveries (dbStore d') = mDeliveries (dbStore d)"
    using S(4,5) by (simp_all add: memView_def)
  show "smSnaps (dbSnaps d') agg = None"
    using assms(2) by (auto simp: esDelete_def deleteSnapshot_def snapDelete_def
        split: outcome.splits prod.splits option.splits)
qed

theorem delete_erases_witness:
  "dbHolds counterES (snd (esDelete counterES background ''a'' counterDb)) ''a'' []"
proof -
  let ?w = "esDelete counterES background ''a'' counterDb"
  have "isOk (fst ?w)" by code_simp
  then obtain u d' where w: "?w = (Ok u, d')" by (cases ?w; cases "fst ?w") auto
  have "memInv (dbStore counterDb)" using counterDb_holds by (simp add: dbHolds_def)
  from delete_erases[OF this, of counterCodec "\<lambda>_. None" 1 0 False None background "''a''" u d', THEN conjunct1] w
  show ?thesis by (simp add: counterES_def[symmetric])
qed

lemma replay_events:
  assumes "codecOk cd" "ctxErr c = None" "dbHolds (memES cd ups schema zero hook g) d agg hs"
  shows "\<exists>all. map evAggregate all = hs \<and> map evPreviousAggregate all = butlast (zero # hs) \<and>
      map evVersion all = map int [1..<Suc (length hs)] \<and> (\<forall>e \<in> set all. evAggregateID e = agg) \<and>
      (\<forall>fromV toV fn (w :: 'w). replay (memES cd ups schema zero hook g) c agg fromV toV fn (dbStore d) w =
        (Ok (), fold fn (filter (\<lambda>e. fromV \<le> evVersion e \<and> (toV = 0 \<or> evVersion e \<le> toV)) all) w))"
proof -
  let ?es = "memES cd ups schema zero hook g"
  have h: "mes.holds cd ups schema zero hook g d agg hs" using assms(3) by (simp add: mes_holds)
  obtain evs where evs: "deserializeEvents (map snd (ctStreams (memView (dbStore d)) (streamName agg))) = Ok evs"
    "evChain ?es zero evs hs" "map ieVersion evs = map int [1..<Suc (length hs)]"
    by (rule mes.holds_decodes[OF h]) (simp del: upt_Suc)
  have "replay ?es c agg fromV toV fn (dbStore d) w =
      (Ok (), fold fn (filter (\<lambda>e. fromV \<le> evVersion e \<and> (toV = 0 \<or> evVersion e \<le> toV))
        (storedEvents ?es c agg zero evs hs)) w)" for fromV toV fn and w :: 'w
    using mes.replay_spec[OF _ h _ evs(1), of c fromV toV fn w] assms(1,2) by (simp add: memReadFrom_def)
  then show ?thesis
    using storedEvents_maps[OF evs(2), of c agg] evs(3)
    by (intro exI[of _ "storedEvents ?es c agg zero evs hs"]) (simp del: upt_Suc)
qed



section \<open>Write and read\<close>

lemma deserialize_snoc:
  "deserializeEvents bs = Ok evs \<Longrightarrow> deserializeEvents (bs @ [b]) = Ok evs' \<Longrightarrow>
     \<exists>e. unmarshalEvent b = Ok e \<and> evs' = evs @ [e]"
proof (induction bs arbitrary: evs evs')
  case (Cons b' bs)
  then show ?case by (fastforce simp: bindO_eq_Ok)
qed (auto simp: bindO_eq_Ok)


lemma storedEvents_written:
  assumes "evChain es x evs hs" "evChain es x evs' (hs @ [evAggregate ev])"
    and "deserializeEvents bs = Ok evs" "deserializeEvents (bs @ [b]) = Ok evs'"
    and "encodes es ev b" "evAggregateID ev = agg" "evPreviousAggregate ev = last (x # hs)"
  shows "storedEvents es c agg x evs' (hs @ [evAggregate ev]) = storedEvents es c agg x evs hs @ [ev]"
proof -
  obtain e where e: "evs' = evs @ [e]" using deserialize_snoc[OF assms(3,4)] by blast
  have n: "length bs = length hs" using evChain_length[OF assms(1)] deserialize_length[OF assms(3)] by simp
  have "(x # hs @ [evAggregate ev]) ! length hs = last (x # hs)"
    by (cases hs rule: rev_cases) (auto simp: nth_append)
  then have "storedEvents es c agg x evs' (hs @ [evAggregate ev]) ! length hs = ev"
    using assms(5-7) n by (intro storedEvents_encodes[OF assms(2,4)]) (auto simp: nth_append)
  moreover have "length (storedEvents es c agg x evs hs) = length hs"
    using storedEvents_maps(1)[OF assms(1), of c agg] by (metis length_map)
  ultimately show ?thesis unfolding e storedEvents_snoc[OF assms(1)] by (simp add: nth_append)
qed

lemma fold_snoc: "fold (\<lambda>e es. es @ [e]) xs ys = ys @ xs"
  by (induction xs arbitrary: ys) simp_all

text \<open>Everything an aggregate's stream holds, as \<open>Replay\<close> hands it out.\<close>

definition replayAll :: "('tx, 's, 'p, 't) es \<Rightarrow> ctx \<Rightarrow> string \<Rightarrow> 's \<Rightarrow> unit outcome \<times> 't event list" where
  "replayAll es c agg s = replay es c agg 1 0 (\<lambda>e es. es @ [e]) s []"

lemma replayAll_holds:
  assumes "codecOk cd" "ctxErr c = None" "dbHolds (memES cd ups schema zero hook g) d agg hs"
    and "deserializeEvents (map snd (ctStreams (memView (dbStore d)) (streamName agg))) = Ok evs"
    and "evChain (memES cd ups schema zero hook g) zero evs hs"
  shows "replayAll (memES cd ups schema zero hook g) c agg (dbStore d)
    = (Ok (), storedEvents (memES cd ups schema zero hook g) c agg zero evs hs)"
proof -
  let ?all = "storedEvents (memES cd ups schema zero hook g) c agg zero evs hs"
  have h: "mes.holds cd ups schema zero hook g d agg hs" using assms(3) by (simp add: mes_holds)
  obtain evs2 where "map ieVersion evs2 = map int [1..<Suc (length hs)]"
    "deserializeEvents (map snd (ctStreams (memView (dbStore d)) (streamName agg))) = Ok evs2"
    by (rule mes.holds_decodes[OF h])
  then have "map ieVersion evs = map int [1..<Suc (length hs)]" using assms(4) by (simp del: upt_Suc)
  then have "map evVersion ?all = map int [1..<Suc (length hs)]" using storedEvents_maps(3)[OF assms(5), of c agg] by (simp del: upt_Suc)
  then have "set (map evVersion ?all) = int ` {1..<Suc (length hs)}" by (simp del: upt_Suc set_upt add: set_upt[symmetric])
  then have "evVersion e \<in> int ` {1..<Suc (length hs)}" if "e \<in> set ?all" for e using that by (metis imageI set_map)
  then have "\<forall>e \<in> set ?all. 1 \<le> evVersion e" by fastforce
  then show ?thesis
    using mes.replay_spec[OF _ h _ assms(4), of c 1 0 "\<lambda>e es. es @ [e]" "[]"] assms(1,2)
    by (simp add: memReadFrom_def replayAll_def fold_snoc filter_True)
qed


text \<open>The stored form of an event survives the round trip through JSON, bit for bit in every
  field, except that patches that are absent come back as an explicit null.\<close>

lemma event_roundtrip:
  assumes "timeOk (ieOccurredAt e)" "i64 (ieVersion e) = ieVersion e"
    "i64 (ieSchemaVersion e) = ieSchemaVersion e" "\<forall>x. iePatches e \<noteq> Malformed x"
  shows "\<exists>b. marshalEvent e = Ok b \<and>
     unmarshalEvent b = Ok (e\<lparr>iePatches := (if iePatches e = Empty then Json JNull else iePatches e)\<rparr>)"
proof -
  obtain b where "marshalEvent e = Ok b"
    using assms(4) by (cases "iePatches e") (auto simp: marshalEvent_def)
  with unmarshal_marshalEvent assms show ?thesis by blast
qed

end
