(* ===== verification/Recovery_Correct.thy ===== *)
theory Recovery_Correct
  imports Recovery Event_Store_Properties Registry "HOL-Library.Sublist"
begin

text \<open>
  The theory of the scan and of the redelivery: reading the log in doubling prefixes ends and
  visits each entry once, in enqueue order, although entries come and go between two reads;
  grouping keeps that order; and redelivering a backlog enqueues exactly the events it names, in
  version order, until the dispatcher refuses one.
\<close>

section \<open>Unseen entries\<close>

lemma unseenOf_seen: "snd (unseenOf ds seen) = seen \<union> set ds"
  by (induction ds arbitrary: seen) (auto simp: Let_def case_prod_beta)

lemma unseenOf_distinct: "distinct ds \<Longrightarrow> fst (unseenOf ds seen) = filter (\<lambda>d. d \<notin> seen) ds"
proof (induction ds arbitrary: seen)
  case (Cons d ds)
  have "fst (unseenOf ds (insert d seen)) = filter (\<lambda>e. e \<notin> insert d seen) ds"
    using Cons by simp
  also have "\<dots> = filter (\<lambda>e. e \<notin> seen) ds" using Cons.prems by (intro filter_cong) auto
  finally show ?case by (auto simp: Let_def split: prod.splits)
qed simp

text \<open>A visit that never fails, on the unseen entries.\<close>

lemma visitUnseen_ok:
  assumes "\<And>d x. fst (visit d x) = None"
  shows "visitUnseen pending seen visit x =
    (None, seen \<union> set pending, fold (\<lambda>d x. snd (visit d x)) (fst (unseenOf pending seen)) x)"
  using firstError_all_None[of "fst (unseenOf pending seen)" visit x] assms unseenOf_seen[of pending seen]
  by (simp add: visitUnseen_def case_prod_beta)

section \<open>A log that moves while it is read\<close>

text \<open>
  \<open>L\<close> is every entry of the log, in enqueue order, over the whole scan: at each read some of
  them have been enqueued, and of those some are still pending. An entry that is acknowledged
  does not come back.
\<close>

definition evolves :: "delivery list \<Rightarrow> (nat \<Rightarrow> delivery list) \<Rightarrow> bool" where
  "evolves L logs \<longleftrightarrow> distinct L \<and>
     (\<exists>alive n. (\<forall>k. logs k = filter (alive k) (take (n k) L))
        \<and> (\<forall>k d. alive (Suc k) d \<longrightarrow> alive k d) \<and> (\<forall>k. n k \<le> n (Suc k)))"

lemma take_filter_prefix: "\<exists>m \<le> length xs. take j (filter P xs) = filter P (take m xs)"
proof (induction xs arbitrary: j)
  case (Cons x xs)
  show ?case
  proof (cases "P x")
    case True
    show ?thesis
    proof (cases j)
      case 0
      then show ?thesis by (intro exI[of _ 0]) simp
    next
      case (Suc i)
      obtain m where "m \<le> length xs" "take i (filter P xs) = filter P (take m xs)" using Cons.IH by blast
      then show ?thesis using True Suc by (intro exI[of _ "Suc m"]) simp
    qed
  next
    case False
    obtain m where "m \<le> length xs" "take j (filter P xs) = filter P (take m xs)" using Cons.IH by blast
    then show ?thesis using False by (intro exI[of _ "Suc m"]) simp
  qed
qed simp

text \<open>
  What has been visited before the \<open>k\<close>-th read: a subsequence of a prefix of \<open>L\<close> that lacks no
  entry of that prefix that is still pending.
\<close>

definition coveredUpto :: "delivery list \<Rightarrow> (delivery \<Rightarrow> bool) \<Rightarrow> nat \<Rightarrow> delivery list \<Rightarrow> bool" where
  "coveredUpto L pend m vs \<longleftrightarrow> subseq vs (take m L) \<and> (\<forall>d \<in> set (take m L). pend d \<longrightarrow> d \<in> set vs)"

lemma covered_step:
  assumes dist: "distinct L" and cov: "coveredUpto L pend m vs"
    and read: "ds = filter pend (take m' L)"
  shows "coveredUpto L pend (max m m') (vs @ filter (\<lambda>d. d \<notin> set vs) ds)"
proof -
  have sub: "subseq vs (take m L)" and all: "\<And>d. d \<in> set (take m L) \<Longrightarrow> pend d \<Longrightarrow> d \<in> set vs"
    using cov by (auto simp: coveredUpto_def)
  have vs: "set vs \<subseteq> set (take m L)" using sub set_nths_subset by (fastforce simp: subseq_conv_nths)
  show ?thesis
  proof (cases "m' \<le> m")
    case True
    then have "set ds \<subseteq> set (take m L)" using set_take_subset_set_take[of m' m L] by (auto simp: read)
    then have "filter (\<lambda>d. d \<notin> set vs) ds = []" using all by (auto simp: read filter_empty_conv)
    then show ?thesis using cov True by (simp add: max_def)
  next
    case False
    have split: "take m' L = take m L @ drop m (take m' L)"
      using False by (metis append_take_drop_id min.absorb1 nat_le_linear take_take)
    have out: "d \<notin> set vs" if "d \<in> set (drop m (take m' L))" for d
    proof -
      have "distinct (take m' L)" using dist by simp
      then have "d \<notin> set (take m L)" using that by (subst (asm) split) auto
      then show ?thesis using vs by blast
    qed
    have "filter (\<lambda>d. d \<notin> set vs) ds = filter pend (drop m (take m' L))"
      unfolding read by (subst split) (use all out in \<open>auto simp: filter_empty_conv intro!: filter_cong\<close>)
    moreover have "subseq (vs @ filter pend (drop m (take m' L))) (take m' L)"
      by (subst split) (intro list_emb_append_mono sub subseq_filter_left)
    moreover have "\<forall>d \<in> set (take m' L). pend d \<longrightarrow> d \<in> set (vs @ filter pend (drop m (take m' L)))"
      using all by (subst split) auto
    ultimately show ?thesis using False by (simp add: coveredUpto_def max_def)
  qed
qed

lemma covered_later:
  "coveredUpto L pend m vs \<Longrightarrow> (\<And>d. pend' d \<Longrightarrow> pend d) \<Longrightarrow> coveredUpto L pend' m vs"
  by (auto simp: coveredUpto_def)

lemma covered_subseq: "coveredUpto L pend m vs \<Longrightarrow> subseq vs L"
  unfolding coveredUpto_def by (metis append_take_drop_id list_emb_prefix)

lemma doubled_limit:
  assumes "0 < limit" "limit < 2 ^ 62"
  shows "i64 (limit * 2) = limit * 2" "limit * 2 \<le> maxInt64"
  using assms i64_id[of "limit * 2"] by (simp_all add: maxInt64_def)

text \<open>
  The scan ends within the fuel the doubling leaves it, and what it visited besides the entries
  already seen completes them to a subsequence of \<open>L\<close> that has everything the last read found.
\<close>

lemma scanFrom_covers:
  assumes dist: "distinct L" and logs: "\<And>k. logs k = filter (alive k) (take (n k) L)"
    and anti: "\<And>k d. alive (Suc k) d \<Longrightarrow> alive k d"
    and reads: "\<And>k limit. 0 < limit \<Longrightarrow> stPendingDeliveries S c limit (states k) = Ok (take (nat limit) (logs k))"
    and short: "\<And>k. int (length (logs k)) < 2 ^ 62" and vis: "\<And>d x. fst (visit d x) = None"
    and limit: "0 < limit" "2 ^ 62 \<le> limit * 2 ^ f" and cov: "coveredUpto L (alive k) m vs"
  shows "\<exists>vs' j. scanFrom (Suc f) S c states k limit (set vs) visit x
        = Some (Ok (), fold (\<lambda>d x. snd (visit d x)) vs' x)
      \<and> subseq (vs @ vs') L \<and> set (logs (k + j)) \<subseteq> set (vs @ vs')
      \<and> (\<forall>d \<in> set vs'. \<exists>i. d \<in> set (logs i))"
  using limit cov
proof (induction f arbitrary: k limit m vs x)
  case (0 k limit m vs x)
  let ?pend = "take (nat limit) (logs k)" and ?new = "filter (\<lambda>d. d \<notin> set vs) (logs k)"
  have all: "?pend = logs k" "int (length (logs k)) < limit"
    using 0(2) short[of k] by (auto intro: take_all)
  have "distinct (logs k)" using dist by (simp add: logs)
  then have scan: "scanFrom (Suc 0) S c states k limit (set vs) visit x
      = Some (Ok (), fold (\<lambda>d x. snd (visit d x)) ?new x)"
    using reads[OF 0(1), of k] all visitUnseen_ok[of visit, OF vis] unseenOf_distinct by simp
  have "coveredUpto L (alive k) (max m (n k)) (vs @ ?new)"
    by (rule covered_step[OF dist 0(3) logs])
  then have "subseq (vs @ ?new) L" by (rule covered_subseq)
  then show ?case using scan by (intro exI[of _ ?new] exI[of _ 0]) auto
next
  case (Suc f k limit m vs x)
  let ?pend = "take (nat limit) (logs k)"
  let ?new = "filter (\<lambda>d. d \<notin> set vs) ?pend"
  obtain j where "?pend = filter (alive k) (take j (take (n k) L))"
    unfolding logs using take_filter_prefix by blast
  then have pend: "?pend = filter (alive k) (take (min j (n k)) L)" by simp
  have cov: "coveredUpto L (alive k) (max m (min j (n k))) (vs @ ?new)"
    by (rule covered_step[OF dist Suc.prems(3) pend])
  have dis: "distinct ?pend" using dist by (simp add: logs)
  have new: "fst (unseenOf ?pend (set vs)) = ?new" "set vs \<union> set ?pend = set (vs @ ?new)"
    using unseenOf_distinct[OF dis] by auto
  have step: "scanFrom (Suc (Suc f)) S c states k limit (set vs) visit x
      = (let x' = fold (\<lambda>d x. snd (visit d x)) ?new x
         in if int (length ?pend) < limit then Some (Ok (), x')
            else scanFrom (Suc f) S c states (Suc k) (i64 (limit * 2)) (set (vs @ ?new)) visit x')"
    using reads[OF Suc.prems(1), of k] visitUnseen_ok[of visit, OF vis] new
    by (simp del: scanFrom.simps add: scanFrom.simps(2)[of "Suc f"] Let_def)
  show ?case
  proof (cases "int (length ?pend) < limit")
    case True
    then have "?pend = logs k" using Suc.prems(1) by (cases "length (logs k) \<le> nat limit") auto
    moreover have "subseq (vs @ ?new) L" using cov by (rule covered_subseq)
    ultimately show ?thesis using step True by (intro exI[of _ ?new] exI[of _ 0]) (auto simp: Let_def)
  next
    case False
    have small: "limit < 2 ^ 62"
      using False short[of k] by (auto simp: not_less)
    note dbl = doubled_limit[OF Suc.prems(1) small]
    have "coveredUpto L (alive (Suc k)) (max m (min j (n k))) (vs @ ?new)"
      using covered_later[OF cov] anti by blast
    from Suc.IH[OF _ _ this, of "limit * 2" "fold (\<lambda>d x. snd (visit d x)) ?new x"]
    obtain vs' i where rest: "scanFrom (Suc f) S c states (Suc k) (limit * 2) (set (vs @ ?new)) visit
          (fold (\<lambda>d x. snd (visit d x)) ?new x)
          = Some (Ok (), fold (\<lambda>d x. snd (visit d x)) vs' (fold (\<lambda>d x. snd (visit d x)) ?new x))"
        "subseq ((vs @ ?new) @ vs') L" "set (logs (Suc k + i)) \<subseteq> set ((vs @ ?new) @ vs')"
        "\<forall>d \<in> set vs'. \<exists>i. d \<in> set (logs i)"
      using Suc.prems(1,2) by (auto simp: algebra_simps)
    have "d \<in> set (logs k)" if "d \<in> set ?new" for d using that in_set_takeD by fastforce
    then show ?thesis
      using step rest False dbl(1) by (intro exI[of _ "?new @ vs'"] exI[of _ "Suc i"]) (auto simp: Let_def)
  qed
qed

section \<open>Grouping\<close>

lemma addDelivery_ok: "fst (addDelivery want d b) = None"
  by (simp add: addDelivery_def Let_def)

abbreviation grouped :: "(string \<Rightarrow> bool) \<Rightarrow> delivery list \<Rightarrow> backlogs" where
  "grouped want vs \<equiv> fold (\<lambda>d b. snd (addDelivery want d b)) vs noBacklogs"

definition firsts :: "'a list \<Rightarrow> 'a list" where
  "firsts xs = rev (remdups (rev xs))"

lemma firsts_snoc: "firsts (xs @ [x]) = (if x \<in> set xs then firsts xs else firsts xs @ [x])"
  by (simp add: firsts_def)

lemma set_firsts [simp]: "set (firsts xs) = set xs" "distinct (firsts xs)"
  by (simp_all add: firsts_def)

lemma grouped_spec:
  "backlogOf (grouped want vs) agg = filter (\<lambda>d. want agg \<and> dAggregateID d = agg) vs
   \<and> (bkOf (grouped want vs) agg = None \<longleftrightarrow> agg \<notin> set (bkOrder (grouped want vs)))
   \<and> bkOrder (grouped want vs) = firsts (map dAggregateID (filter (\<lambda>d. want (dAggregateID d)) vs))"
proof (induction vs arbitrary: agg rule: rev_induct)
  case Nil
  then show ?case by (simp add: noBacklogs_def backlogOf_def firsts_def)
next
  case (snoc d vs)
  let ?g = "grouped want vs" and ?a = "dAggregateID d"
  have known: "bkOf ?g ?a = None \<longleftrightarrow> ?a \<notin> set (map dAggregateID (filter (\<lambda>d. want (dAggregateID d)) vs))"
    using snoc[of ?a] by simp
  show ?case
    using snoc[of agg] snoc[of ?a] known
    by (auto simp: addDelivery_def Let_def backlogOf_def firsts_snoc split: option.splits)
qed

section \<open>Redelivery\<close>

text \<open>
  The reference: events enqueued one after the other until one is refused; then the error and
  the events that were not enqueued.
\<close>

definition redeliveryOf :: "string \<Rightarrow> 't event \<Rightarrow> 't dispatch_request" where
  "redeliveryOf agg e = \<lparr>rqEvent = e, rqAck = Some (agg, evVersion e), rqKind = DispatchRedelivery\<rparr>"

fun enqueueSeq ::
  "('t, 'd) dispatcher_ops \<Rightarrow> ctx \<Rightarrow> string \<Rightarrow> 't event list \<Rightarrow> 'd \<Rightarrow> (goerr \<times> 't event list) option \<times> 'd" where
  "enqueueSeq D c agg [] d = (None, d)"
| "enqueueSeq D c agg (e # es) d =
     (case dpEnqueue D c (redeliveryOf agg e) d of
        (Fail err, d') \<Rightarrow> (Some (err, e # es), d')
      | (_, d') \<Rightarrow> enqueueSeq D c agg es d')"

definition noPanic :: "('t, 'd) dispatcher_ops \<Rightarrow> bool" where
  "noPanic D \<longleftrightarrow> (\<forall>c rq d p. fst (dpEnqueue D c rq d) \<noteq> Panic p)"

lemma enqueueOne_stopped: "beErr e \<noteq> None \<Longrightarrow> fold (enqueueOne D c agg) evs e = e"
  by (induction evs) (simp_all add: enqueueOne_def)

lemma fold_enqueueOne:
  assumes np: "noPanic D" and dist: "distinct (map evVersion evs)"
  shows "fold (enqueueOne D c agg) evs \<lparr>beDisp = d, beVanished = V, beErr = None, bePanic = None\<rparr> =
    (case enqueueSeq D c agg (filter (\<lambda>e. evVersion e \<in> V) evs) d of
       (None, d') \<Rightarrow> \<lparr>beDisp = d', beVanished = V - evVersion ` set evs, beErr = None, bePanic = None\<rparr>
     | (Some (err, rest), d') \<Rightarrow>
         \<lparr>beDisp = d', beVanished = (V - evVersion ` set evs) \<union> evVersion ` set rest,
          beErr = Some err, bePanic = None\<rparr>)"
  using dist
proof (induction evs arbitrary: d V)
  case Nil
  then show ?case by simp
next
  case (Cons e evs)
  have later: "filter (\<lambda>x. evVersion x \<in> V - {evVersion e}) evs = filter (\<lambda>x. evVersion x \<in> V) evs"
  proof (rule filter_cong)
    fix x assume "x \<in> set evs"
    then have "evVersion x \<in> evVersion ` set evs" by (rule imageI)
    then show "(evVersion x \<in> V - {evVersion e}) = (evVersion x \<in> V)" using Cons.prems by auto
  qed simp
  obtain r d' where r: "dpEnqueue D c (redeliveryOf agg e) d = (r, d')" by fastforce
  have noP: "r \<noteq> Panic p" for p using np r unfolding noPanic_def by (metis fst_conv)
  show ?case
  proof (cases "evVersion e \<in> V")
    case False
    then have "V - evVersion ` set evs = V - evVersion ` set (e # evs)" by auto
    then show ?thesis
      using Cons.IH[of d V] Cons.prems False by (simp add: enqueueOne_def split: prod.splits option.splits)
  next
    case wanted: True
    show ?thesis
    proof (cases r)
      case (Ok t)
      have one: "enqueueOne D c agg e \<lparr>beDisp = d, beVanished = V, beErr = None, bePanic = None\<rparr>
          = \<lparr>beDisp = d', beVanished = V - {evVersion e}, beErr = None, bePanic = None\<rparr>"
        using wanted r Ok by (simp add: enqueueOne_def redeliveryOf_def)
      have dist: "distinct (map evVersion evs)" using Cons.prems by simp
      have set: "V - evVersion ` set (e # evs) = V - {evVersion e} - evVersion ` set evs" by auto
      have seq: "enqueueSeq D c agg (filter (\<lambda>e. evVersion e \<in> V) (e # evs)) d
          = enqueueSeq D c agg (filter (\<lambda>e. evVersion e \<in> V) evs) d'" using wanted r Ok by simp
      show ?thesis
        unfolding seq set fold_Cons comp_apply one Cons.IH[OF dist, of d' "V - {evVersion e}", unfolded later] ..
    next
      case (Fail err)
      then have "enqueueOne D c agg e \<lparr>beDisp = d, beVanished = V, beErr = None, bePanic = None\<rparr>
          = \<lparr>beDisp = d', beVanished = V, beErr = Some err, bePanic = None\<rparr>"
        using wanted r by (simp add: enqueueOne_def redeliveryOf_def)
      then show ?thesis using wanted r Fail by (auto simp: enqueueOne_stopped)
    qed (use noP in simp)
  qed
qed

lemma fold_min_le: "(\<forall>v \<in> set vs. fold min vs a \<le> v) \<and> fold min vs a \<le> (a :: int)"
proof (induction vs arbitrary: a)
  case (Cons v vs)
  show ?case using Cons.IH[of "min v a"] by simp
qed simp

lemma fold_max_ge: "(\<forall>v \<in> set vs. v \<le> fold max vs a) \<and> (a :: int) \<le> fold max vs a"
proof (induction vs arbitrary: a)
  case (Cons v vs)
  show ?case using Cons.IH[of "max v a"] by simp
qed simp

text \<open>One replay enqueues what the backlog names of the history.\<close>

lemma enqueueBacklog_spec:
  fixes D :: "('t, 'd) dispatcher_ops"
  assumes np: "noPanic D" and b: "backlog \<noteq> []"
    and dist: "distinct (map evVersion evs)"
    and rep: "\<And>fromV toV fn (w :: 'd backlog_enqueuer). replay (xEs x) c agg fromV toV fn s w =
      (Ok (), fold fn (filter (\<lambda>e. fromV \<le> evVersion e \<and> (toV = 0 \<or> evVersion e \<le> toV)) evs) w)"
  shows "enqueueBacklog x D c agg backlog s d =
    (case enqueueSeq D c agg (filter (\<lambda>e. evVersion e \<in> dVersion ` set backlog) evs) d of
       (None, d') \<Rightarrow> (Ok (dVersion ` set backlog - evVersion ` set evs, None), d')
     | (Some (err, rest), d') \<Rightarrow>
         (Ok ((dVersion ` set backlog - evVersion ` set evs) \<union> evVersion ` set rest,
              errorsJoin [None, Some err]), d'))"
proof -
  let ?vs = "map dVersion backlog"
  let ?lo = "fold min ?vs (hd ?vs)" and ?hi = "fold max ?vs (hd ?vs)"
  let ?all = "filter (\<lambda>e. ?lo \<le> evVersion e \<and> (?hi = 0 \<or> evVersion e \<le> ?hi)) evs"
  have range: "?lo \<le> v \<and> v \<le> ?hi" if "v \<in> dVersion ` set backlog" for v
    using that fold_min_le[of ?vs "hd ?vs"] fold_max_ge[of ?vs "hd ?vs"] by auto
  then have same: "filter (\<lambda>e. evVersion e \<in> dVersion ` set backlog) ?all
      = filter (\<lambda>e. evVersion e \<in> dVersion ` set backlog) evs"
    by (auto simp: filter_filter intro!: filter_cong)
  have rest: "dVersion ` set backlog - evVersion ` set ?all = dVersion ` set backlog - evVersion ` set evs"
    using range by (auto simp: image_iff) (metis (no_types, lifting))+
  have "distinct (map evVersion ?all)" using dist by (simp add: distinct_map_filter)
  note f = fold_enqueueOne[OF np this, of c agg d "dVersion ` set backlog", unfolded same rest]
  show ?thesis
    unfolding enqueueBacklog_def Let_def rep case_prod_conv list.set_map f
    by (simp add: okErr_def errorsJoin_def map_filter_simps split: prod.splits option.splits)
qed

end
