(* ===== verification/Node_Jobs.thy ===== *)
theory Node_Jobs
  imports Node Delivery_Log Recovery_Correct
begin

text \<open>
  Where jobs come from: an enqueue creates one with the request's event and key, and no other
  operation of the dispatcher creates one or changes the identity of one.
\<close>

section \<open>The identity of jobs\<close>

lemma ident_same [simp]:
  "ident (markSettled i d) = ident d" "ident (markUnrun i e d) = ident d" "ident (complete i r d) = ident d"
  "ident (track i d) = ident d" "ident (release i d) = ident d" "ident (delRec agg d) = ident d"
  using sameIds_ops by (auto simp: sameIds_def delRec_def ident_def)

lemma ident_upd [simp]:
  "ident (d\<lparr>dInflight := a\<rparr>) = ident d" "ident (d\<lparr>dTickets := b\<rparr>) = ident d" "ident (d\<lparr>dGeneration := g\<rparr>) = ident d"
  "ident (d\<lparr>dSpawned := sp\<rparr>) = ident d" "ident (d\<lparr>dNextChan := m\<rparr>) = ident d" "ident (d\<lparr>dClosed := f\<rparr>) = ident d"
  "ident (d\<lparr>dStopped := f\<rparr>) = ident d" "ident (d\<lparr>dQuit := f\<rparr>) = ident d" "ident (d\<lparr>dBaseCancelled := f\<rparr>) = ident d"
  "ident (d\<lparr>dFault := f\<rparr>) = ident d" "ident (d\<lparr>dClosedChans := cs\<rparr>) = ident d" "ident (d\<lparr>dNextJob := k\<rparr>) = ident d"
  by (simp_all add: ident_def fun_eq_iff)

lemma ident_setJob: "ident (setJob i j d) = (ident d)(i \<mapsto> (jEvent j, jAck j, jForget j))"
  by (simp add: ident_def setJob_def fun_eq_iff)

lemma ident_registry [simp]:
  "ident (snd (makeChan d)) = ident d" "ident (closeChan ch d) = ident d" "ident (snd (recordOf agg d)) = ident d"
  "ident (markParkedUnrun agg i d) = ident d" "ident (discardIfEmpty agg d) = ident d"
  "ident (snd (keepLive agg i kd)) = ident (snd kd)" "ident (snd (ensureWorker agg rec d)) = ident d"
  by (auto simp: makeChan_def closeChan_def recordOf_def markParkedUnrun_def discardIfEmpty_def keepLive_def
      ensureWorker_def Let_def split: option.split prod.split)

lemma ident_keepLives [simp]: "ident (snd (fold (keepLive agg) is kd)) = ident (snd kd)"
  by (induction "is" arbitrary: kd) simp_all

lemma ident_regPark [simp]: "ident (regPark agg cause d) = ident d"
proof -
  obtain rec0 d1 where r: "recordOf agg d = (rec0, d1)" by fastforce
  have d1: "ident d1 = ident d" using ident_registry(3)[of agg d] by (simp only: r snd_conv)
  have "ident (snd (fold (keepLive agg) is ([], closeChan ch ((putRec agg rec d1)\<lparr>dGeneration := g\<rparr>)))) = ident d" for "is" ch rec g
    using d1 by simp
  then show ?thesis
    using d1 by (auto simp: regPark_def r Let_def case_prod_beta split: option.split)
qed

lemma ident_regLift [simp]: "ident (regLift agg d) = ident d"
  using ident_registry(1)[of d] by (auto simp: regLift_def Let_def case_prod_beta split: option.split)

lemma ident_park_ops [simp]:
  "ident (regParkVersions agg cause vs d) = ident d" "ident (regSupersede agg d) = ident d"
  "ident (snd (regParkIfCurrent agg halt b cause d)) = ident d" "ident (snd (regSettleIfParked agg halt i d)) = ident d"
  "ident (snd (regLiftGeneration agg gen d)) = ident d" "ident (snd (regPop agg d)) = ident d"
  "ident (snd (regRetire agg d)) = ident d" "ident (dispInterrupt d) = ident d" "ident (snd (dispClose dr ce d)) = ident d"
  by (auto simp: regParkVersions_def regSupersede_def regParkIfCurrent_def regSettleIfParked_def regLiftGeneration_def
      regPop_def regRetire_def dispInterrupt_def dispClose_def regClose_def Let_def split: option.split list.split)

lemma ident_regEnqueue [simp]: "ident (snd (regEnqueue i d)) = ident d"
proof -
  have "ident (snd (regEnqueueLocked i d)) = ident d"
    by (auto simp: regEnqueueLocked_def Let_def case_prod_beta split: option.split)
  then show ?thesis by (auto simp: regEnqueue_def split: outcome.split prod.split)
qed

lemma ident_dispEnqueue:
  "ident (snd (dispEnqueue c rq d)) = (ident d)(dNextJob d \<mapsto> (rqEvent rq, rqAck rq, isForget rq))"
proof -
  let ?d1 = "(setJob (dNextJob d) (jobNew ((withoutCancel c)\<lparr>ctxHandler := Some (evAggregateID (rqEvent rq))\<rparr>) rq) d)
      \<lparr>dNextJob := Suc (dNextJob d)\<rparr>"
  have "ident (snd (dispEnqueue c rq d)) = ident (snd (regEnqueue (dNextJob d) ?d1))"
    by (auto simp: dispEnqueue_def Let_def simp del: ident_regEnqueue split: outcome.split prod.split)
  then show ?thesis by (simp add: ident_setJob jobNew_def)
qed

section \<open>Every durable job is about a stored event\<close>

text \<open>
  \<open>F\<close> are the aggregates somebody asked to forget, \<open>E\<close> the events of every aggregate.
\<close>

definition keyed :: "string set \<Rightarrow> (string \<Rightarrow> 't event list) \<Rightarrow> 't event \<Rightarrow> ack \<Rightarrow> bool" where
  "keyed F E ev ack \<longleftrightarrow> ack = None \<or> ack = Some (evAggregateID ev, evVersion ev) \<and>
     (evAggregateID ev \<in> F \<or> ev \<in> set (E (evAggregateID ev)))"

definition jobsKeyed :: "string set \<Rightarrow> (string \<Rightarrow> 't event list) \<Rightarrow> 't disp \<Rightarrow> bool" where
  "jobsKeyed F E d \<longleftrightarrow> (\<forall>i ev ack f. ident d i = Some (ev, ack, f) \<longrightarrow> keyed F E ev ack)"

lemma jobsKeyed_cong: "ident d' = ident d \<Longrightarrow> jobsKeyed F E d' = jobsKeyed F E d"
  by (simp add: jobsKeyed_def)

lemma jobsKeyed_new [simp]: "jobsKeyed F E newDispatcher"
  by (simp add: jobsKeyed_def ident_def newDispatcher_def)

lemma jobsKeyed_mono:
  assumes "jobsKeyed F E d" "F \<subseteq> F'" "\<And>agg. agg \<notin> F' \<Longrightarrow> set (E agg) \<subseteq> set (E' agg)"
  shows "jobsKeyed F' E' d"
  using assms unfolding jobsKeyed_def keyed_def by (meson subsetD)

lemma jobsKeyed_enqueue:
  "jobsKeyed F E d \<Longrightarrow> keyed F E (rqEvent rq) (rqAck rq) \<Longrightarrow> jobsKeyed F E (snd (dispEnqueue c rq d))"
  by (auto simp: jobsKeyed_def ident_dispEnqueue)

lemma jobsKeyed_job: "jobsKeyed F E d \<Longrightarrow> dJobs d i = Some j \<Longrightarrow> keyed F E (jEvent j) (jAck j)"
  by (auto simp: jobsKeyed_def ident_def)

text \<open>What the other goroutines may enqueue.\<close>

fun opKeyed :: "string set \<Rightarrow> (string \<Rightarrow> 't event list) \<Rightarrow> 't disp_op \<Rightarrow> bool" where
  "opKeyed F E (OpEnqueue c rq) = keyed F E (rqEvent rq) (rqAck rq)"
| "opKeyed F E _ = True"

lemma jobsKeyed_op: "jobsKeyed F E d \<Longrightarrow> opKeyed F E op \<Longrightarrow> jobsKeyed F E (applyOp op d)"
  by (cases op) (simp_all add: jobsKeyed_enqueue cong: jobsKeyed_cong)

lemma jobsKeyed_ops: "jobsKeyed F E d \<Longrightarrow> list_all (opKeyed F E) ops \<Longrightarrow> jobsKeyed F E (fold applyOp ops d)"
  by (induction ops arbitrary: d) (simp_all add: jobsKeyed_op)

definition keyedRun :: "'t environment \<Rightarrow> string set \<Rightarrow> (string \<Rightarrow> 't event list) \<Rightarrow> 't disp \<Rightarrow> bool" where
  "keyedRun en F E d \<longleftrightarrow> jobsKeyed F E d \<and> (\<forall>k. list_all (opKeyed F E) (enOthers en k))"

interpretation krun: delivery_run en agg halt i "keyedRun en F E" for en :: "'t environment" and agg halt i F E
  by unfold_locales (auto simp: keyedRun_def jobsKeyed_ops cong: jobsKeyed_cong)

lemma jobsKeyed_handleJob:
  assumes "jobsKeyed F E (wDisp w)" "dJobs (wDisp w) i \<noteq> None" "\<And>k. list_all (opKeyed F E) (enOthers en k)"
  shows "jobsKeyed F E (wDisp (handleJob cf en agg halt i w))"
proof -
  have "keyedRun en F E (wDisp w)" using assms by (simp add: keyedRun_def)
  then show ?thesis
    by (rule krun.P_handleJob[where Q = "jobsKeyed F E"]) (use assms(2) in \<open>auto simp: keyedRun_def cong: jobsKeyed_cong\<close>)
qed

text \<open>A redelivery enqueues events of the stream under their own keys.\<close>

lemma jobsKeyed_enqueueSeq:
  assumes "jobsKeyed F E d" "set evs \<subseteq> set (E agg)" "\<And>e. e \<in> set (E agg) \<Longrightarrow> evAggregateID e = agg"
  shows "jobsKeyed F E (snd (enqueueSeq memDispatcher c agg evs d))"
  using assms(1,2)
proof (induction evs arbitrary: d)
  case (Cons e evs)
  have "keyed F E e (Some (agg, evVersion e))" using Cons.prems assms(3) by (auto simp: keyed_def)
  then have "jobsKeyed F E (snd (dispEnqueue c (redeliveryOf agg e) d))"
    using Cons.prems(1) by (intro jobsKeyed_enqueue) (simp_all add: redeliveryOf_def)
  then show ?case
    using Cons.IH Cons.prems(2) by (auto simp: memDispatcher_def split: outcome.split prod.split)
qed simp

end
