(* ===== verification/Delivery_Order.thy ===== *)
theory Delivery_Order
  imports Delivery_Log
begin

text \<open>
  Order of an aggregate's durable events: an event whose delivery ends without an
  acknowledgement leaves the halt channel it was popped with closed, whatever the other
  goroutines do, and behind a closed channel no durable job of the aggregate runs.
\<close>

section \<open>Other aggregates' records\<close>

lemma getRec_jobOps [simp]:
  "getRec a (markSettled i d) = getRec a d" "getRec a (markUnrun i e d) = getRec a d"
  "getRec a (complete i r d) = getRec a d" "getRec a (track i d) = getRec a d"
  "getRec a (release i d) = getRec a d"
  by (rule jobsOnly_getRec, simp)+

lemma getRec_makeChan [simp]: "getRec a (snd (makeChan d)) = getRec a d"
  by (simp add: makeChan_def)

lemma getRec_closeChan [simp]: "getRec a (closeChan ch d) = getRec a d"
  by (simp add: closeChan_def)

lemma getRec_recordOf_other: "a \<noteq> b \<Longrightarrow> getRec a (snd (recordOf b d)) = getRec a d"
  by (auto simp: recordOf_def makeChan_def Let_def split: option.splits)

lemma getRec_markParkedUnrun_other: "a \<noteq> b \<Longrightarrow> getRec a (markParkedUnrun b i d) = getRec a d"
  by (auto simp: markParkedUnrun_def Let_def split: option.splits)

lemma getRec_discard_other: "a \<noteq> b \<Longrightarrow> getRec a (discardIfEmpty b d) = getRec a d"
  by (auto simp: discardIfEmpty_def split: option.splits)

lemma getRec_keepLives_other: "a \<noteq> b \<Longrightarrow> getRec a (snd (fold (keepLive b) is kd)) = getRec a (snd kd)"
proof (induction "is" arbitrary: kd)
  case (Cons i js)
  have "getRec a (snd (keepLive b i kd)) = getRec a (snd kd)"
    using Cons.prems by (cases kd) (simp add: keepLive_def getRec_markParkedUnrun_other)
  then show ?case using Cons by simp
qed simp

lemma getRec_regPark_other:
  assumes "a \<noteq> b" shows "getRec a (regPark b cause d) = getRec a d"
proof -
  obtain rec0 d1 where r: "recordOf b d = (rec0, d1)" by fastforce
  have d1: "getRec a d1 = getRec a d" using getRec_recordOf_other [OF assms, of d] by (simp add: r)
  have k: "getRec a d3 = getRec a d'" if "fold (keepLive b) is ([], d') = (kept, d3)" for "is" d' kept d3
    using getRec_keepLives_other [OF assms, of "is" "([], d')"] by (simp add: that)
  show ?thesis
    using assms d1 by (auto simp: regPark_def r Let_def k split: prod.splits option.splits)
qed

lemma getRec_regLift_other: "a \<noteq> b \<Longrightarrow> getRec a (regLift b d) = getRec a d"
  by (simp add: regLift_def makeChan_def getRec_discard_other split: option.splits)

lemma getRec_ensureWorker_other: "a \<noteq> b \<Longrightarrow> getRec a (snd (ensureWorker b rec d)) = getRec a d"
  by (simp add: ensureWorker_def makeChan_def Let_def)

section \<open>The running worker's hold\<close>

text \<open>
  What holds from the moment a durable job is popped: its halt channel is closed, or it is
  still the channel of the aggregate's record, which has its worker and is not parked.
\<close>

definition holdsHalt :: "string \<Rightarrow> chan \<Rightarrow> 't disp \<Rightarrow> bool" where
  "holdsHalt agg halt d \<longleftrightarrow> isClosedChan halt d \<or>
     (\<exists>rec. getRec agg d = Some rec \<and> rcHalt rec = halt \<and> rcWorker rec \<and> \<not> rcParked rec)"

lemma holdsHalt_closed: "isClosedChan halt d \<Longrightarrow> follows d d' \<Longrightarrow> holdsHalt agg halt d'"
  by (auto simp: holdsHalt_def isClosedChan_def dest: followsD(1))

lemma holdsHalt_same:
  "holdsHalt agg halt d \<Longrightarrow> follows d d' \<Longrightarrow> getRec agg d' = getRec agg d \<Longrightarrow> holdsHalt agg halt d'"
  by (auto simp: holdsHalt_def isClosedChan_def dest: followsD(1))

lemma regPark_closes:
  assumes "getRec agg d = Some rec" "\<not> rcParked rec"
  shows "isClosedChan (rcHalt rec) (regPark agg cause d)"
proof -
  define rec1 where "rec1 = (if rcCause rec = None then rec\<lparr>rcCause := cause\<rparr> else rec)"
  define rec2 where "rec2 = rec1\<lparr>rcParked := True, rcGeneration := dGeneration d + 1\<rparr>"
  define d2 where "d2 = closeChan (rcHalt rec2) ((putRec agg rec2 d)\<lparr>dGeneration := dGeneration d + 1\<rparr>)"
  obtain kept d3 where k: "fold (keepLive agg) (rcJobs rec2) ([], d2) = (kept, d3)" by fastforce
  have "rcHalt rec \<in> dClosedChans d2"
    by (simp add: d2_def rec2_def rec1_def closeChan_def)
  then have "rcHalt rec \<in> dClosedChans d3"
    using follows_keepLives [of "([], d2)" agg "rcJobs rec2"] followsD(1) by (auto simp: k)
  moreover have "regPark agg cause d =
      (case getRec agg d3 of None \<Rightarrow> d3 | Some rec3 \<Rightarrow> putRec agg (rec3\<lparr>rcJobs := kept\<rparr>) d3)"
    using assms k by (simp add: regPark_def recordOf_def Let_def rec1_def rec2_def d2_def)
  ultimately show ?thesis by (simp add: isClosedChan_def split: option.splits)
qed

lemma holdsHalt_regPark:
  assumes "holdsHalt agg halt d" shows "isClosedChan halt (regPark agg cause d)"
  using assms regPark_closes [of agg d] followsD(1) [OF follows_regPark [of d agg cause]]
  by (auto simp: holdsHalt_def isClosedChan_def)

lemma holdsHalt_regPark_any:
  assumes "holdsHalt agg halt d" shows "holdsHalt agg halt (regPark b cause d)"
proof (cases "b = agg")
  case True
  then show ?thesis using holdsHalt_regPark [OF assms] by (simp add: holdsHalt_def)
next
  case False
  then show ?thesis using assms by (intro holdsHalt_same [OF assms]) (auto simp: getRec_regPark_other)
qed

lemma holdsHalt_putRec:
  assumes "holdsHalt agg halt d"
    and "\<And>old. b = agg \<Longrightarrow> getRec agg d = Some old \<Longrightarrow> \<not> rcParked old \<Longrightarrow> rcWorker old \<Longrightarrow>
      rcHalt rec = rcHalt old \<and> rcWorker rec \<and> \<not> rcParked rec"
  shows "holdsHalt agg halt (putRec b rec d)"
  using assms by (auto simp: holdsHalt_def isClosedChan_def)

lemma holdsHalt_markParkedUnrun:
  assumes "holdsHalt agg halt d" shows "holdsHalt agg halt (markParkedUnrun b i d)"
proof -
  have "holdsHalt agg halt (markUnrun i parkedErr d)" using assms by (auto intro: holdsHalt_same)
  then show ?thesis
    by (auto simp: markParkedUnrun_def Let_def split: option.splits intro!: holdsHalt_putRec)
qed

lemma holdsHalt_discard:
  assumes "holdsHalt agg halt d" shows "holdsHalt agg halt (discardIfEmpty b d)"
proof (cases "isClosedChan halt d")
  case True
  then show ?thesis by (rule holdsHalt_closed) simp
next
  case False
  then show ?thesis using assms by (auto simp: holdsHalt_def discardIfEmpty_def isClosedChan_def split: option.splits)
qed

lemma holdsHalt_enqueueLocked:
  assumes "holdsHalt agg halt d" shows "holdsHalt agg halt (snd (regEnqueueLocked i d))"
proof (cases "isClosedChan halt d")
  case True
  then show ?thesis by (rule holdsHalt_closed) simp
next
  case False
  then obtain rec where rec: "getRec agg d = Some rec" "rcHalt rec = halt" "rcWorker rec" "\<not> rcParked rec"
    using assms by (auto simp: holdsHalt_def)
  show ?thesis
  proof (cases "dClosed d \<or> dJobs d i = None")
    case True
    then show ?thesis using assms by (auto simp: regEnqueueLocked_def)
  next
    case nc: False
    then obtain job where job: "dJobs d i = Some job" "\<not> dClosed d" by auto
    show ?thesis
    proof (cases "jobAgg job = agg")
      case True
      then show ?thesis
        using rec job by (auto simp: regEnqueueLocked_def Let_def recordOf_def ensureWorker_def holdsHalt_def)
    next
      case False
      have "getRec agg (snd (regEnqueueLocked i d)) = getRec agg d"
        using False job
        by (auto simp: regEnqueueLocked_def Let_def case_prod_beta getRec_markParkedUnrun_other
            getRec_ensureWorker_other getRec_recordOf_other split: option.splits)
      then show ?thesis using assms by (intro holdsHalt_same [OF assms]) simp_all
    qed
  qed
qed

lemma holdsHalt_dispEnqueue:
  assumes "holdsHalt agg halt d" shows "holdsHalt agg halt (snd (dispEnqueue c rq d))"
proof -
  define d1 where "d1 = (setJob (dNextJob d) (jobNew ((withoutCancel c)\<lparr>ctxHandler := Some (evAggregateID (rqEvent rq))\<rparr>) rq) d)
      \<lparr>dNextJob := Suc (dNextJob d)\<rparr>"
  have "holdsHalt agg halt d1" using assms by (auto simp: d1_def holdsHalt_def isClosedChan_def)
  then have l: "holdsHalt agg halt (snd (regEnqueueLocked (dNextJob d) d1))" by (rule holdsHalt_enqueueLocked)
  have c: "holdsHalt agg halt d' \<Longrightarrow> holdsHalt agg halt (complete i r d')"
          "holdsHalt agg halt d' \<Longrightarrow> holdsHalt agg halt (release i d')" for d' :: "'a disp" and i r
    by (auto intro: holdsHalt_same)
  show ?thesis
    using l by (auto simp: dispEnqueue_def regEnqueue_def Let_def d1_def [symmetric] c split: prod.splits outcome.splits)
qed

lemma holdsHalt_lift:
  assumes "holdsHalt agg halt d" and "b = agg \<Longrightarrow> isClosedChan halt d"
  shows "holdsHalt agg halt (regLift b d)"
proof (cases "b = agg")
  case True
  then show ?thesis using assms by (auto intro: holdsHalt_closed)
next
  case False
  then show ?thesis using assms by (auto intro: holdsHalt_same simp: getRec_regLift_other)
qed

text \<open>Every operation keeps the hold; only the worker itself retires its record.\<close>

lemma holdsHalt_applyOp:
  assumes h: "holdsHalt agg halt d" and "op \<noteq> OpRetire agg"
  shows "holdsHalt agg halt (applyOp op d)"
proof (cases op)
  case (OpEnqueue c rq)
  then show ?thesis using h by (simp add: holdsHalt_dispEnqueue)
next
  case (OpPark b cause vs)
  have "holdsHalt agg halt (regPark b cause d)" using h by (rule holdsHalt_regPark_any)
  then show ?thesis
    by (auto simp: OpPark regParkVersions_def Let_def split: option.splits intro!: holdsHalt_putRec)
next
  case (OpSupersede b)
  have "holdsHalt agg halt (regPark b None d)" using h by (rule holdsHalt_regPark_any)
  then show ?thesis
    using holdsHalt_regPark [OF h] by (auto simp: OpSupersede regSupersede_def intro!: holdsHalt_lift)
next
  case (OpResume b gen)
  have "holdsHalt agg halt (regLift b d)" if "getRec b d = Some rec" "rcParked rec" for rec
    using that h by (intro holdsHalt_lift) (auto simp: holdsHalt_def)
  then show ?thesis using h by (auto simp: OpResume regLiftGeneration_def split: option.splits)
next
  case (OpClose drained cerr)
  then show ?thesis
    using h by (auto simp: dispClose_def regClose_def dispInterrupt_def Let_def holdsHalt_def isClosedChan_def)
next
  case (OpPop b)
  then show ?thesis using h by (auto simp: regPop_def split: option.splits list.splits intro!: holdsHalt_putRec)
next
  case (OpRetire b)
  then show ?thesis
    using h assms(2) by (auto simp: regRetire_def split: option.splits intro!: holdsHalt_discard holdsHalt_putRec)
next
  case (OpParkIfCurrent b ch durable cause)
  then show ?thesis using h by (simp add: regParkIfCurrent_def holdsHalt_regPark_any)
next
  case (OpSettleIfParked b ch i)
  then show ?thesis using h by (auto simp: regSettleIfParked_def holdsHalt_markParkedUnrun intro: holdsHalt_same)
qed (use h in \<open>auto simp: dispInterrupt_def intro: holdsHalt_same\<close>)

section \<open>What a run leaves behind\<close>

text \<open>The other goroutines while a worker runs: they never retire its own record.\<close>

definition fairOthers :: "'t environment \<Rightarrow> string \<Rightarrow> bool" where
  "fairOthers en agg \<longleftrightarrow> (\<forall>t. OpRetire agg \<notin> set (enOthers en t))"

definition holding :: "'t environment \<Rightarrow> string \<Rightarrow> chan \<Rightarrow> 't disp \<Rightarrow> bool" where
  "holding en agg halt d \<longleftrightarrow> fairOthers en agg \<and> holdsHalt agg halt d"

lemma holdsHalt_ops:
  "holdsHalt agg halt d \<Longrightarrow> OpRetire agg \<notin> set ops \<Longrightarrow> holdsHalt agg halt (fold applyOp ops d)"
  by (induction ops arbitrary: d) (auto simp: holdsHalt_applyOp)

interpretation hold: delivery_run en agg halt i "holding en agg halt" for en :: "'t environment" and agg halt i
proof (unfold_locales)
  fix d :: "'t disp" and b c t
  assume d: "holding en agg halt d"
  then show "holding en agg halt (fold applyOp (enOthers en t) d)"
    by (simp add: holding_def fairOthers_def holdsHalt_ops)
  show "holding en agg halt (markSettled i d)"
    using d holdsHalt_applyOp [of agg halt d "OpSettle i"] by (simp add: holding_def)
  show "holding en agg halt (snd (regSettleIfParked agg halt i d))"
    using d holdsHalt_applyOp [of agg halt d "OpSettleIfParked agg halt i"] by (simp add: holding_def)
  show "holding en agg halt (snd (regParkIfCurrent agg halt b (Some c) d))"
    using d holdsHalt_applyOp [of agg halt d "OpParkIfCurrent agg halt b (Some c)"] by (simp add: holding_def)
qed

text \<open>
  What a run that fails leaves behind, for any property \<open>Q\<close> that a closed halt channel gives, and that
  the two critical sections in which the worker meets a park establish.
\<close>

locale failed_run = delivery_run +
  fixes Q :: "'a disp \<Rightarrow> bool"
  assumes closed_leaves: "P d \<Longrightarrow> isClosedChan halt d \<Longrightarrow> Q d"
    and park_leaves: "P d \<Longrightarrow> Q (snd (regParkIfCurrent agg halt True (Some c) d))"
    and settle_leaves: "P d \<Longrightarrow> fst (regSettleIfParked agg halt i d) \<Longrightarrow> Q (snd (regSettleIfParked agg halt i d))"
begin

lemma parkThenReport_leaves:
  assumes "P (wDisp w)" "jobAcked j" "\<And>w. wDisp (report w) = wDisp w"
  shows "Q (wDisp (parkThenReport en agg halt j cause report w))"
  using park_leaves [OF P_othersTurn [OF assms(1)]] assms(2,3) by (simp add: parkThenReport_def Let_def)

lemma giveUp_leaves:
  assumes "P (wDisp w)" and "jobAcked j" and "giveUp cf en agg halt i j e n w = (Some r, w')"
  shows "Q (wDisp w')"
proof -
  obtain dead w1 where dl: "deadLettered cf i j e n w = (dead, w1)" by fastforce
  have "wDisp w1 = wDisp w" using dl by (auto simp: deadLettered_def split: if_splits option.splits)
  then show ?thesis
    using assms parkThenReport_leaves [of w1 j] closed_leaves
    by (auto simp: giveUp_def dl Let_def split: if_splits bool.splits)
qed

lemma waitRetry_leaves:
  assumes "P (wDisp w)" and "jobAcked j" and "waitRetry en agg halt j w = (Some r, w')"
  shows "Q (wDisp w')"
  using assms parkThenReport_leaves [of "others en w" j] P_othersTurn [OF assms(1)] closed_leaves
  by (auto simp: waitRetry_def backoffEnded_def Let_def split: if_splits)

lemma retryLoop_leaves:
  assumes "P (wDisp w)" and a: "jobAcked j" and "retryLoop cf en agg halt i j pending n b w = (Some r, w')"
  shows "Q (wDisp w')"
  using assms(1,3)
proof (induction "nat (cfMaxAttempts cf - n)" arbitrary: pending n b w rule: less_induct)
  case less
  obtain failed e w1 where at: "attemptAll cf en i j pending n w = (failed, e, w1)" by (metis prod_cases3)
  define w2 where "w2 = settleAfterFirst i n w1"
  have h2: "P (wDisp w2)"
    using P_attemptAll [OF less.prems(1), of cf j pending n] by (simp add: at w2_def P_settleAfterFirst)
  obtain r3 w3 where wt: "waitRetry en agg halt j w2 = (r3, w3)" by fastforce
  have h3: "P (wDisp w3)" using P_waitRetry [OF h2, of j] by (simp add: wt)
  have "failed \<noteq> []"
    using less.prems(2) by (subst (asm) retryLoop.simps) (auto simp: at)
  then consider "giveUp cf en agg halt i j e n w2 = (Some r, w')" | "waitRetry en agg halt j w2 = (Some r, w')"
    | "n < cfMaxAttempts cf" "retryLoop cf en agg halt i j failed (n + 1) (nextBackoff cf b) w3 = (Some r, w')"
    using less.prems(2)
    by (subst (asm) retryLoop.simps) (auto simp: at w2_def [symmetric] wt Let_def split: if_splits option.splits)
  then show ?case
  proof cases
    case 3
    then show ?thesis by (intro less.hyps [OF _ h3 3(2)]) simp
  qed (use giveUp_leaves [OF h2 a] waitRetry_leaves [OF h2 a] in auto)
qed

lemma deliver_leaves:
  assumes "P (wDisp w)" "jobAcked j" "deliver cf en agg halt i j w = (Some r, w')"
  shows "Q (wDisp w')"
  using assms retryLoop_leaves [OF assms(1,2)] closed_leaves by (auto simp: deliver_def Let_def split: if_splits)

lemma ackJob_leaves:
  assumes "P (wDisp w)" "jobAcked j" "ackJob cf en agg halt i j w = (Fail r, w')"
  shows "Q (wDisp w')"
  using assms parkThenReport_leaves [of _ j]
  by (auto simp: ackJob_def Let_def split: option.splits handler_result.splits)

lemma deliverJob_leaves:
  assumes h: "P (wDisp w)" and a: "jobAcked j" and d: "deliverJob cf en agg halt i j w = (Fail r, w')"
  shows "Q (wDisp w')"
proof -
  obtain held w1 where hp: "heldByPark agg halt i j w = (held, w1)" by fastforce
  define w2 where "w2 = publishLive cf en i j w1"
  have h1: "P (wDisp w1)" using P_heldByPark [OF h, of j] by (simp add: hp)
  then have h2: "P (wDisp w2)" unfolding w2_def by (rule P_publishLive)
  obtain r3 w3 where dl: "deliver cf en agg halt i j w2 = (r3, w3)" by fastforce
  have h3: "P (wDisp w3)" using P_deliver [OF h2, of cf j] by (simp add: dl)
  have c3: "Q (wDisp w3)" if "r3 = Some e" for e
    using deliver_leaves [OF h2 a, of cf e w3] dl that by simp
  show ?thesis
  proof (cases held)
    case True
    then show ?thesis using settle_leaves [OF h] hp d a by (auto simp: deliverJob_def heldByPark_def split: prod.splits)
  next
    case False
    then show ?thesis
      using d a c3 ackJob_leaves [OF h3 a]
      by (auto simp: deliverJob_def hp Let_def w2_def [symmetric] dl jobDurable_def jobAcked_def
          split: option.splits)
  qed
qed

end

interpretation closes: failed_run en agg halt i "holding en agg halt" "isClosedChan halt" for en :: "'t environment" and agg halt i
proof (unfold_locales)
  fix d :: "'t disp" and c
  assume d: "holding en agg halt d"
  show "isClosedChan halt (snd (regParkIfCurrent agg halt True (Some c) d))"
    using d holdsHalt_regPark [of agg halt d] by (simp add: regParkIfCurrent_def holding_def)
  assume "fst (regSettleIfParked agg halt i d)"
  then have "isClosedChan halt d"
    using d by (auto simp: regSettleIfParked_def holding_def holdsHalt_def split: if_splits option.splits)
  then show "isClosedChan halt (snd (regSettleIfParked agg halt i d))"
    using followsD(1) [OF fwd.P_settleIfParked [OF follows_refl, of d agg halt i]] by (auto simp: isClosedChan_def)
qed simp

lemma pop_holds:
  assumes "dispInv d" "regPop agg d = (Some (i, halt), d')" "acked i d"
  shows "holdsHalt agg halt d'"
proof -
  obtain rec js where r: "getRec agg d = Some rec" "rcJobs rec = i # js" "halt = rcHalt rec"
      "d' = putRec agg (rec\<lparr>rcJobs := js\<rparr>) d"
    using assms(2) by (auto simp: regPop_def split: option.splits list.splits)
  have "recOk d agg rec" using dispInv_rec [OF assms(1) r(1)] .
  then show ?thesis using r assms(3) by (auto simp: holdsHalt_def recOk_def)
qed

text \<open>Behind a closed halt channel a durable job runs nothing.\<close>

lemma closed_halt_runs_nothing:
  assumes "isClosedChan halt (wDisp w)" "jobAcked j"
  shows "\<exists>w'. deliverJob cf en agg halt i j w = (Fail parkedErr, w') \<and> wLog w' = wLog w"
  using assms by (auto simp: deliverJob_def heldByPark_def regSettleIfParked_def split: prod.splits)

end
