(* ===== verification/Dispatcher_System.thy ===== *)
theory Dispatcher_System
  imports Delivery_Order
begin

text \<open>
  The dispatcher as a system of goroutines: clients that enqueue, park, resume and close, and
  the workers, each between two of its critical sections in one of the states below. Every
  interleaving of the critical sections is a sequence of steps; what holds in every reachable
  state is proved by induction over them.
\<close>

section \<open>States and steps\<close>

text \<open>
  Where the goroutine of an aggregate's worker is: draining its queue (for the last time when
  it has seen the pool stopped), running a job it popped with its halt channel, or waiting in
  \<open>await\<close>.
\<close>

datatype worker_state = Draining bool | Running bool job_id chan | Awaiting

record 't system =
  syDisp :: "'t disp"
  syWorkers :: "string \<Rightarrow> worker_state option"

definition startSystem :: "'t system" where
  "startSystem = \<lparr>syDisp = newDispatcher, syWorkers = Map.empty\<rparr>"

text \<open>The \<open>Spawn\<close> hook: a goroutine for the aggregate the registry asked a worker for.\<close>

definition spawnWorker :: "'t disp \<Rightarrow> 't disp \<Rightarrow> (string \<Rightarrow> worker_state option) \<Rightarrow> (string \<Rightarrow> worker_state option)" where
  "spawnWorker d d' ws =
     (case dSpawned d' of
        [] \<Rightarrow> ws
      | agg # older \<Rightarrow> if older = dSpawned d then ws(agg \<mapsto> Draining False) else ws)"

fun isClientOp :: "'t disp_op \<Rightarrow> bool" where
  "isClientOp (OpPark agg cause vs) = True"
| "isClientOp (OpSupersede agg) = True"
| "isClientOp (OpResume agg gen) = True"
| "isClientOp OpInterrupt = True"
| "isClientOp (OpClose drained cerr) = True"
| "isClientOp op = False"

text \<open>The critical sections of a worker that runs job \<open>i\<close>, before it completes it.\<close>

fun isRunOp :: "string \<Rightarrow> job_id \<Rightarrow> chan \<Rightarrow> 't disp_op \<Rightarrow> bool" where
  "isRunOp agg i halt (OpSettle k) \<longleftrightarrow> k = i"
| "isRunOp agg i halt (OpSettleIfParked b ch k) \<longleftrightarrow> b = agg \<and> ch = halt \<and> k = i"
| "isRunOp agg i halt (OpParkIfCurrent b ch durable cause) \<longleftrightarrow> b = agg \<and> ch = halt"
| "isRunOp agg i halt op \<longleftrightarrow> False"

definition clearWake :: "string \<Rightarrow> 't disp \<Rightarrow> 't disp" where
  "clearWake agg d =
     (case getRec agg d of None \<Rightarrow> d | Some rec \<Rightarrow> putRec agg (rec\<lparr>rcWake := False\<rparr>) d)"

inductive sys_step :: "'t system \<Rightarrow> 't system \<Rightarrow> bool" where
  enqueue: "d' = snd (dispEnqueue c rq (syDisp s)) \<Longrightarrow>
     sys_step s (s\<lparr>syDisp := d', syWorkers := spawnWorker (syDisp s) d' (syWorkers s)\<rparr>)"
| client: "isClientOp op \<Longrightarrow> sys_step s (s\<lparr>syDisp := applyOp op (syDisp s)\<rparr>)"
| pop: "syWorkers s agg = Some (Draining ending) \<Longrightarrow> regPop agg (syDisp s) = (Some (i, halt), d') \<Longrightarrow>
     sys_step s (s\<lparr>syDisp := d', syWorkers := (syWorkers s)(agg \<mapsto> Running ending i halt)\<rparr>)"
| drained: "syWorkers s agg = Some (Draining False) \<Longrightarrow> regPop agg (syDisp s) = (None, d') \<Longrightarrow>
     sys_step s (s\<lparr>syDisp := d', syWorkers := (syWorkers s)(agg \<mapsto> Awaiting)\<rparr>)"
| exit: "syWorkers s agg = Some (Draining True) \<Longrightarrow> regPop agg (syDisp s) = (None, d') \<Longrightarrow>
     sys_step s (s\<lparr>syDisp := d', syWorkers := (syWorkers s)(agg := None)\<rparr>)"
| run: "syWorkers s agg = Some (Running ending i halt) \<Longrightarrow> isRunOp agg i halt op \<Longrightarrow>
     sys_step s (s\<lparr>syDisp := applyOp op (syDisp s)\<rparr>)"
| finish: "syWorkers s agg = Some (Running ending i halt) \<Longrightarrow>
     sys_step s (s\<lparr>syDisp := complete i r (syDisp s), syWorkers := (syWorkers s)(agg \<mapsto> Draining ending)\<rparr>)"
| wake: "syWorkers s agg = Some Awaiting \<Longrightarrow> getRec agg (syDisp s) = Some rec \<Longrightarrow> rcWake rec \<Longrightarrow>
     sys_step s (s\<lparr>syDisp := clearWake agg (syDisp s), syWorkers := (syWorkers s)(agg \<mapsto> Draining False)\<rparr>)"
| stop: "syWorkers s agg = Some Awaiting \<Longrightarrow> dStopped (syDisp s) \<Longrightarrow>
     sys_step s (s\<lparr>syWorkers := (syWorkers s)(agg \<mapsto> Draining True)\<rparr>)"
| retire: "syWorkers s agg = Some Awaiting \<Longrightarrow> regRetire agg (syDisp s) = (True, d') \<Longrightarrow>
     sys_step s (s\<lparr>syDisp := d', syWorkers := (syWorkers s)(agg := None)\<rparr>)"
| stay: "syWorkers s agg = Some Awaiting \<Longrightarrow> regRetire agg (syDisp s) = (False, d') \<Longrightarrow>
     sys_step s (s\<lparr>syDisp := d', syWorkers := (syWorkers s)(agg \<mapsto> Draining False)\<rparr>)"

inductive reachable :: "'t system \<Rightarrow> bool" where
  start: "reachable startSystem"
| step: "reachable s \<Longrightarrow> sys_step s s' \<Longrightarrow> reachable s'"

section \<open>Flags and records that an operation keeps\<close>

definition sameFlags :: "'t disp \<Rightarrow> 't disp \<Rightarrow> bool" where
  "sameFlags d d' \<longleftrightarrow> dClosed d' = dClosed d \<and> dStopped d' = dStopped d"

lemma sameFlags_refl [simp]: "sameFlags d d"
  by (simp add: sameFlags_def)

lemma sameFlags_trans: "sameFlags a b \<Longrightarrow> sameFlags b c \<Longrightarrow> sameFlags a c"
  by (simp add: sameFlags_def)

lemma sameFlags_basic [simp]:
  "sameFlags d (putRec agg rec d)" "sameFlags d (delRec agg d)" "sameFlags d (setJob i j d)"
  "sameFlags d (d\<lparr>dGeneration := g\<rparr>)" "sameFlags d (snd (makeChan d))" "sameFlags d (closeChan ch d)"
  "sameFlags d (d\<lparr>dSpawned := sp\<rparr>)" "sameFlags d (d\<lparr>dNextJob := n\<rparr>)"
  by (simp_all add: sameFlags_def putRec_def delRec_def setJob_def makeChan_def closeChan_def)

lemma sameFlags_jobOps [simp]:
  "sameFlags d (markSettled i d)" "sameFlags d (markUnrun i e d)" "sameFlags d (complete i r d)"
  "sameFlags d (track i d)" "sameFlags d (release i d)"
  by (auto simp: sameFlags_def markSettled_def markUnrun_def complete_def track_def release_def untrack_def
      setJob_def Let_def split: option.splits)

lemma sameFlags_markParkedUnrun [simp]: "sameFlags d (markParkedUnrun agg i d)"
  by (auto simp: markParkedUnrun_def Let_def split: option.splits
      intro: sameFlags_trans [OF sameFlags_jobOps(2) sameFlags_basic(1)])

lemma sameFlags_discard [simp]: "sameFlags d (discardIfEmpty agg d)"
  by (simp add: discardIfEmpty_def split: option.splits)

lemma sameFlags_keepLives: "sameFlags (snd kd) (snd (fold (keepLive agg) is kd))"
proof (induction "is" arbitrary: kd)
  case (Cons i js)
  have "sameFlags (snd kd) (snd (keepLive agg i kd))"
    by (cases kd) (auto simp: keepLive_def intro: sameFlags_trans [OF sameFlags_markParkedUnrun sameFlags_jobOps(3)])
  then show ?case using Cons sameFlags_trans by fastforce
qed simp

lemma sameFlags_recordOf [simp]: "sameFlags d (snd (recordOf agg d))"
  by (auto simp: recordOf_def makeChan_def Let_def sameFlags_def putRec_def split: option.splits)

text \<open>What a park keeps of its own aggregate's record.\<close>

definition sameWorker :: "agg_record \<Rightarrow> agg_record \<Rightarrow> bool" where
  "sameWorker r r' \<longleftrightarrow> rcWorker r' = rcWorker r \<and> rcWake r' = rcWake r"

lemma keepLives_worker:
  assumes "getRec agg (snd kd) = Some rec"
  shows "\<exists>rec'. getRec agg (snd (fold (keepLive agg) is kd)) = Some rec' \<and> sameWorker rec rec'"
  using assms
proof (induction "is" arbitrary: kd rec)
  case (Cons i js)
  have "\<exists>rec1. getRec agg (snd (keepLive agg i kd)) = Some rec1 \<and> sameWorker rec rec1"
    using Cons.prems by (cases kd) (auto simp: keepLive_def markParkedUnrun_def Let_def sameWorker_def)
  then obtain rec1 where r1: "getRec agg (snd (keepLive agg i kd)) = Some rec1" "sameWorker rec rec1" by blast
  then show ?case using Cons.IH [OF r1(1)] by (auto simp: sameWorker_def)
qed (simp add: sameWorker_def)

lemma regPark_frame:
  "sameFlags d (regPark agg cause d)"
  "getRec agg d = Some rec \<Longrightarrow> \<exists>rec'. getRec agg (regPark agg cause d) = Some rec' \<and> sameWorker rec rec'"
proof -
  obtain rec0 d1 where r: "recordOf agg d = (rec0, d1)" by fastforce
  define rec1 where "rec1 = (if rcCause rec0 = None then rec0\<lparr>rcCause := cause\<rparr> else rec0)"
  define rec2 where "rec2 = rec1\<lparr>rcParked := True, rcGeneration := dGeneration d1 + 1\<rparr>"
  define d2 where "d2 = closeChan (rcHalt rec2) ((putRec agg rec2 d1)\<lparr>dGeneration := dGeneration d1 + 1\<rparr>)"
  obtain kept d3 where k: "fold (keepLive agg) (rcJobs rec2) ([], d2) = (kept, d3)" by fastforce
  have p: "regPark agg cause d = (if rcParked rec1 then putRec agg rec1 d1 else
      (case getRec agg d3 of None \<Rightarrow> d3 | Some rec3 \<Rightarrow> putRec agg (rec3\<lparr>rcJobs := kept\<rparr>) d3))"
    using k by (simp add: regPark_def r Let_def rec1_def rec2_def d2_def)
  have f1: "sameFlags d d1" using sameFlags_recordOf [of d agg] by (simp add: r)
  have "sameFlags d1 d2" by (simp add: d2_def sameFlags_def closeChan_def putRec_def)
  moreover have "sameFlags d2 d3" using sameFlags_keepLives [of "([], d2)" agg "rcJobs rec2"] by (simp add: k)
  ultimately have f3: "sameFlags d d3" using f1 sameFlags_trans by blast
  show "sameFlags d (regPark agg cause d)"
    unfolding p using sameFlags_trans [OF f1 sameFlags_basic(1)] sameFlags_trans [OF f3 sameFlags_basic(1)] f3
    by (auto split: option.splits)
  assume "getRec agg d = Some rec"
  then have "sameWorker rec rec1" "sameWorker rec rec2"
    using r by (auto simp: recordOf_def rec1_def rec2_def sameWorker_def)
  moreover have "getRec agg d2 = Some rec2" by (simp add: d2_def)
  ultimately show "\<exists>rec'. getRec agg (regPark agg cause d) = Some rec' \<and> sameWorker rec rec'"
    unfolding p using keepLives_worker [of agg "([], d2)" rec2 "rcJobs rec2"] by (auto simp: k sameWorker_def)
qed

section \<open>What the operations keep of the workers and their jobs\<close>

definition queued :: "job_id \<Rightarrow> 't disp \<Rightarrow> bool" where
  "queued i d \<longleftrightarrow> (\<exists>agg rec. getRec agg d = Some rec \<and> i \<in> set (rcJobs rec))"

lemma queuedI: "getRec agg d = Some rec \<Longrightarrow> i \<in> set (rcJobs rec) \<Longrightarrow> queued i d"
  by (auto simp: queued_def)

lemma queuedE:
  assumes "queued i d" obtains agg rec where "getRec agg d = Some rec" "i \<in> set (rcJobs rec)"
  using assms by (auto simp: queued_def)

lemma unqueued_iff: "unqueued i d \<longleftrightarrow> \<not> queued i d"
  by (auto simp: unqueued_def queued_def)

definition liveJob :: "'t disp \<Rightarrow> job_id \<Rightarrow> string \<Rightarrow> bool" where
  "liveJob d i agg \<longleftrightarrow> (\<exists>j. dJobs d i = Some j \<and> jobAgg j = agg \<and> \<not> jFinal j)"

text \<open>
  The frame of an operation that is not the worker's own: workers stay and keep their wake
  signals, queues only shrink, a job that leaves a queue is finished, and a job that is in no
  queue is not finished.
\<close>

definition workerFrame :: "'t disp \<Rightarrow> 't disp \<Rightarrow> bool" where
  "workerFrame d d' \<longleftrightarrow>
     (\<forall>b rec. getRec b d = Some rec \<longrightarrow> rcWorker rec \<longrightarrow>
        (\<exists>rec'. getRec b d' = Some rec' \<and> sameWorker rec rec' \<and> set (rcJobs rec') \<subseteq> set (rcJobs rec))) \<and>
     (\<forall>b rec'. getRec b d' = Some rec' \<longrightarrow> rcWorker rec' \<longrightarrow> (\<exists>rec. getRec b d = Some rec \<and> rcWorker rec)) \<and>
     (\<forall>i. queued i d' \<longrightarrow> queued i d) \<and>
     (\<forall>i. queued i d \<longrightarrow> inFlight d' i \<longrightarrow> queued i d') \<and>
     (\<forall>i. inFlight d' i \<longrightarrow> inFlight d i) \<and>
     (\<forall>i a. \<not> queued i d \<longrightarrow> liveJob d i a \<longrightarrow> liveJob d' i a)"

lemma workerFrameI:
  assumes "\<And>b rec. getRec b d = Some rec \<Longrightarrow> rcWorker rec \<Longrightarrow>
        \<exists>rec'. getRec b d' = Some rec' \<and> sameWorker rec rec' \<and> set (rcJobs rec') \<subseteq> set (rcJobs rec)"
    and "\<And>b rec'. getRec b d' = Some rec' \<Longrightarrow> rcWorker rec' \<Longrightarrow> \<exists>rec. getRec b d = Some rec \<and> rcWorker rec"
    and "\<And>i. queued i d' \<Longrightarrow> queued i d" and "\<And>i. queued i d \<Longrightarrow> inFlight d' i \<Longrightarrow> queued i d'"
    and "\<And>i. inFlight d' i \<Longrightarrow> inFlight d i" and "\<And>i a. \<not> queued i d \<Longrightarrow> liveJob d i a \<Longrightarrow> liveJob d' i a"
  shows "workerFrame d d'"
  using assms unfolding workerFrame_def by blast

lemma workerFrameD:
  assumes "workerFrame d d'"
  shows "getRec b d = Some rec \<Longrightarrow> rcWorker rec \<Longrightarrow>
        \<exists>rec'. getRec b d' = Some rec' \<and> sameWorker rec rec' \<and> set (rcJobs rec') \<subseteq> set (rcJobs rec)"
    and "getRec b d' = Some rec' \<Longrightarrow> rcWorker rec' \<Longrightarrow> \<exists>rec. getRec b d = Some rec \<and> rcWorker rec"
    and "queued i d' \<Longrightarrow> queued i d" and "queued i d \<Longrightarrow> inFlight d' i \<Longrightarrow> queued i d'"
    and "inFlight d' i \<Longrightarrow> inFlight d i" and "\<not> queued i d \<Longrightarrow> liveJob d i a \<Longrightarrow> liveJob d' i a"
  using assms unfolding workerFrame_def by blast+

lemma sameWorker_refl [simp]: "sameWorker r r"
  by (simp add: sameWorker_def)

lemma workerFrame_refl [simp]: "workerFrame d d"
  by (rule workerFrameI) auto

lemma workerFrame_trans:
  assumes "workerFrame a b" "workerFrame b c" shows "workerFrame a c"
proof (rule workerFrameI)
  fix k rec assume "getRec k a = Some rec" "rcWorker rec"
  then obtain r1 where r1: "getRec k b = Some r1" "sameWorker rec r1" "set (rcJobs r1) \<subseteq> set (rcJobs rec)"
    using workerFrameD(1) [OF assms(1)] by blast
  moreover have "rcWorker r1" using r1(2) \<open>rcWorker rec\<close> by (simp add: sameWorker_def)
  ultimately obtain r2 where "getRec k c = Some r2" "sameWorker r1 r2" "set (rcJobs r2) \<subseteq> set (rcJobs r1)"
    using workerFrameD(1) [OF assms(2)] by blast
  then show "\<exists>rec'. getRec k c = Some rec' \<and> sameWorker rec rec' \<and> set (rcJobs rec') \<subseteq> set (rcJobs rec)"
    using r1 by (auto simp: sameWorker_def)
next
  show "\<exists>rec. getRec k a = Some rec \<and> rcWorker rec" if "getRec k c = Some r" "rcWorker r" for k r
    using that workerFrameD(2) [OF assms(1)] workerFrameD(2) [OF assms(2)] by blast
qed (use workerFrameD(3-6) [OF assms(1)] workerFrameD(3-6) [OF assms(2)] in blast)+

text \<open>A change of one record that keeps its worker, wake signal and queue.\<close>

lemma workerFrame_putRec:
  assumes "getRec agg d = Some rec" "sameWorker rec rec'" "rcJobs rec' = rcJobs rec"
  shows "workerFrame d (putRec agg rec' d)"
proof (rule workerFrameI)
  show "queued i d" if "queued i (putRec agg rec' d)" for i
    using that assms by (auto simp: queued_def split: if_splits)
  show "queued i (putRec agg rec' d)" if "queued i d" "inFlight (putRec agg rec' d) i" for i
    using that(1)
  proof (rule queuedE)
    fix b r assume "getRec b d = Some r" "i \<in> set (rcJobs r)"
    then show ?thesis using assms by (cases "b = agg") (auto intro: queuedI [of b])
  qed
qed (use assms in \<open>auto simp: sameWorker_def inFlight_def liveJob_def split: if_splits\<close>)

lemma workerFrame_noRec:
  assumes "getRec agg d = None" "\<not> rcWorker rec" "rcJobs rec = []"
  shows "workerFrame d (putRec agg rec d)"
proof (rule workerFrameI)
  show "queued i d" if "queued i (putRec agg rec d)" for i
    using that assms by (auto simp: queued_def split: if_splits)
  show "queued i (putRec agg rec d)" if "queued i d" "inFlight (putRec agg rec d) i" for i
    using that(1)
  proof (rule queuedE)
    fix b r assume "getRec b d = Some r" "i \<in> set (rcJobs r)"
    then show ?thesis using assms by (cases "b = agg") (auto intro: queuedI [of b])
  qed
qed (use assms in \<open>auto simp: sameWorker_def inFlight_def liveJob_def split: if_splits\<close>)

text \<open>A change of the state that records and jobs do not show.\<close>

lemma workerFrame_cong:
  assumes "\<And>b. getRec b d' = getRec b d" "dJobs d' = dJobs d"
  shows "workerFrame d d'"
  by (rule workerFrameI) (use assms in \<open>auto simp: queued_def inFlight_def liveJob_def\<close>)

lemma workerFrame_jobOps:
  "workerFrame d (markSettled i d)" "workerFrame d (markUnrun i e d)"
  by (rule workerFrameI; auto simp: queued_def inFlight_def liveJob_def markSettled_def markUnrun_def
      jobAgg_def split: option.splits if_splits)+

lemma workerFrame_discard:
  "workerFrame d (discardIfEmpty agg d)"
proof (cases "getRec agg d")
  case (Some rec)
  show ?thesis
  proof (cases "rcWorker rec \<or> rcJobs rec \<noteq> [] \<or> rcParked rec \<or> rcUndelivered rec \<noteq> []")
    case True
    then show ?thesis by (auto simp: discardIfEmpty_def Some)
  next
    case False
    then have "discardIfEmpty agg d = delRec agg d" by (simp add: discardIfEmpty_def Some)
    moreover have "workerFrame d (delRec agg d)"
    proof (rule workerFrameI)
      show "queued i d" if "queued i (delRec agg d)" for i
        using that by (auto simp: queued_def split: if_splits)
      show "queued i (delRec agg d)" if "queued i d" for i
        using that
      proof (rule queuedE)
        fix b r assume "getRec b d = Some r" "i \<in> set (rcJobs r)"
        then show ?thesis using False Some by (cases "b = agg") (auto intro: queuedI [of b])
      qed
    qed (use False Some in \<open>auto simp: inFlight_def liveJob_def split: if_splits\<close>)
    ultimately show ?thesis by simp
  qed
qed (simp add: discardIfEmpty_def)

lemma workerFrame_lift: "workerFrame d (regLift agg d)"
proof (cases "getRec agg d")
  case (Some rec)
  obtain ch d1 where m: "makeChan d = (ch, d1)" by fastforce
  then have "getRec agg d1 = Some rec" "workerFrame d d1"
    using Some by (auto simp: makeChan_def intro: workerFrame_cong)
  then have "workerFrame d (putRec agg (rec\<lparr>rcParked := False, rcGeneration := 0, rcCause := None,
      rcUndelivered := [], rcHalt := ch\<rparr>) d1)"
    by (intro workerFrame_trans [OF \<open>workerFrame d d1\<close>] workerFrame_putRec) (auto simp: sameWorker_def)
  then show ?thesis
    by (simp add: regLift_def Some m workerFrame_trans [OF _ workerFrame_discard])
qed (simp add: regLift_def)

lemma workerFrame_markParkedUnrun: "workerFrame d (markParkedUnrun agg i d)"
proof (cases "getRec agg d")
  case (Some rec)
  then show ?thesis
    by (auto simp: markParkedUnrun_def Let_def intro!: workerFrame_trans [OF workerFrame_jobOps(2) workerFrame_putRec]
        simp: sameWorker_def)
qed (simp add: markParkedUnrun_def workerFrame_jobOps)

lemma workerFrame_park_running:
  assumes "dispInv d" and np: "\<And>old. getRec agg d = Some old \<Longrightarrow> \<not> rcParked old"
  shows "workerFrame d (regPark agg cause d)"
proof -
  define js where "js = (case getRec agg d of None \<Rightarrow> [] | Some old \<Rightarrow> rcJobs old)"
  let ?d' = "regPark agg cause d"
  obtain rec where R: "getRec agg ?d' = Some rec" "rcJobs rec = filter (\<lambda>i. \<not> acked i d) js"
      "rcWorker rec = (case getRec agg d of None \<Rightarrow> False | Some old \<Rightarrow> rcWorker old)"
      "\<forall>b. b \<noteq> agg \<longrightarrow> getRec b ?d' = getRec b d"
      "\<forall>k. dJobs ?d' k = (if k \<in> set js \<and> acked k d then map_option dropped (dJobs d k) else dJobs d k)"
    by (rule regPark_running [where agg = agg and cause = cause, OF assms]) (auto simp: js_def)
  have jq: "i \<in> set js \<Longrightarrow> queued i d" for i
    by (cases "getRec agg d") (auto simp: js_def intro: queuedI)
  show ?thesis
  proof (rule workerFrameI)
    fix b old assume b: "getRec b d = Some old" "rcWorker old"
    show "\<exists>rec'. getRec b ?d' = Some rec' \<and> sameWorker old rec' \<and> set (rcJobs rec') \<subseteq> set (rcJobs old)"
    proof (cases "b = agg")
      case True
      then show ?thesis using b regPark_frame(2) [of agg d old cause] R(1,2) by (auto simp: js_def)
    qed (use b R(4) in auto)
  next
    fix b rec' assume b: "getRec b ?d' = Some rec'" "rcWorker rec'"
    show "\<exists>old. getRec b d = Some old \<and> rcWorker old"
      using b R by (cases "b = agg") (auto split: option.splits)
  next
    fix i assume "queued i ?d'"
    then show "queued i d"
    proof (rule queuedE)
      fix b r assume "getRec b ?d' = Some r" "i \<in> set (rcJobs r)"
      then show ?thesis using R jq by (cases "b = agg") (auto intro: queuedI)
    qed
  next
    fix i assume "queued i d" "inFlight ?d' i"
    from this(1) show "queued i ?d'"
    proof (rule queuedE)
      fix b r assume b: "getRec b d = Some r" "i \<in> set (rcJobs r)"
      show ?thesis
      proof (cases "b = agg")
        case True
        then have i: "i \<in> set js" using b by (simp add: js_def)
        have "\<not> acked i d"
          using \<open>inFlight ?d' i\<close> i R(5) by (auto simp: inFlight_def dropped_def split: option.splits)
        then show ?thesis using queuedI [OF R(1), of i] i by (simp add: R(2))
      qed (use b R(4) in \<open>auto intro: queuedI [of b]\<close>)
    qed
  next
    show "inFlight d i" if "inFlight ?d' i" for i
      using that R(5) by (auto simp: inFlight_def dropped_def split: option.splits if_splits)
    show "liveJob ?d' i a" if "\<not> queued i d" "liveJob d i a" for i a
      using that R(5) jq by (auto simp: liveJob_def)
  qed
qed

lemma workerFrame_park:
  assumes "dispInv d" shows "workerFrame d (regPark agg cause d)"
proof (cases "\<exists>rec. getRec agg d = Some rec \<and> rcParked rec")
  case True
  then obtain rec where r: "getRec agg d = Some rec" "rcParked rec" by blast
  show ?thesis unfolding regPark_parked [OF r]
    by (rule workerFrame_putRec [OF r(1)]) (auto simp: sameWorker_def)
next
  case False
  then show ?thesis by (intro workerFrame_park_running [OF assms]) auto
qed

lemma workerFrame_parkVersions:
  assumes "dispInv d" shows "workerFrame d (regParkVersions agg cause vs d)"
  using workerFrame_park [OF assms, of agg cause]
  by (auto simp: regParkVersions_def Let_def sameWorker_def split: option.splits
      intro!: workerFrame_trans [OF _ workerFrame_putRec])

lemma workerFrame_ops:
  assumes "dispInv d" and "isClientOp op \<or> isRunOp agg i halt op"
  shows "workerFrame d (applyOp op d)"
  using assms(2)
proof (cases op)
  case (OpSupersede b)
  then show ?thesis
    by (simp add: regSupersede_def workerFrame_trans [OF workerFrame_park [OF assms(1)] workerFrame_lift])
qed (auto simp: workerFrame_parkVersions [OF assms(1)] regLiftGeneration_def workerFrame_lift dispInterrupt_def
    dispClose_def regClose_def Let_def regParkIfCurrent_def workerFrame_park [OF assms(1)] regSettleIfParked_def
    workerFrame_markParkedUnrun workerFrame_jobOps split: option.splits intro!: workerFrame_cong)

lemma flags_ops:
  assumes "isClientOp op \<or> isRunOp agg i halt op"
  shows "dClosed d \<longrightarrow> dClosed (applyOp op d)"
    and "(dStopped d \<longrightarrow> dClosed d) \<Longrightarrow> dStopped (applyOp op d) \<Longrightarrow> dClosed (applyOp op d)"
proof -
  have lift: "sameFlags d (regLift b d)" for b and d :: "'t disp"
  proof (cases "getRec b d")
    case (Some rec)
    have "sameFlags d (putRec b r (snd (makeChan d)))" for r by (simp add: sameFlags_def putRec_def makeChan_def)
    then show ?thesis
      by (simp add: regLift_def Some case_prod_beta sameFlags_trans [OF _ sameFlags_discard])
  qed (simp add: regLift_def)
  have pv: "sameFlags d (regParkVersions b c vs d)" for b c vs
    using regPark_frame(1) [of d b c]
    by (auto simp: regParkVersions_def Let_def split: option.splits intro: sameFlags_trans)
  have "sameFlags d (applyOp op d) \<or> (\<exists>dr e. op = OpClose dr e)"
    using assms
    by (cases op) (auto simp: lift pv regSupersede_def regLiftGeneration_def dispInterrupt_def regParkIfCurrent_def
        regPark_frame(1) regSettleIfParked_def split: option.splits
        intro: sameFlags_trans [OF regPark_frame(1) lift] sameFlags_def [THEN iffD2])
  then show "dClosed d \<longrightarrow> dClosed (applyOp op d)"
    "(dStopped d \<longrightarrow> dClosed d) \<Longrightarrow> dStopped (applyOp op d) \<Longrightarrow> dClosed (applyOp op d)"
    by (auto simp: sameFlags_def dispClose_def regClose_def dispInterrupt_def Let_def split: if_splits)
qed

section \<open>What an enqueue does\<close>

lemma dSpawned_jobOps [simp]:
  "dSpawned (markSettled i d) = dSpawned d" "dSpawned (markUnrun i e d) = dSpawned d"
  "dSpawned (complete i r d) = dSpawned d" "dSpawned (track i d) = dSpawned d" "dSpawned (release i d) = dSpawned d"
  using jobsOnly_ops [of d i] by (simp_all add: jobsOnly_def)

definition enqueues :: "job_id \<Rightarrow> string \<Rightarrow> 't disp \<Rightarrow> 't disp \<Rightarrow> bool" where
  "enqueues i agg d d' \<longleftrightarrow> \<not> dClosed d \<and> sameFlags d d' \<and>
     (\<exists>rec. getRec agg d' = Some rec \<and> rcWorker rec \<and> rcWake rec \<and>
        rcJobs rec = (case getRec agg d of None \<Rightarrow> [] | Some old \<Rightarrow> rcJobs old) @ [i]) \<and>
     (\<forall>b. b \<noteq> agg \<longrightarrow> getRec b d' = getRec b d) \<and> (\<forall>k. k \<noteq> i \<longrightarrow> dJobs d' k = dJobs d k) \<and>
     dSpawned d' = (if (\<exists>old. getRec agg d = Some old \<and> rcWorker old) then dSpawned d else agg # dSpawned d)"

lemma regEnqueueLocked_effect:
  assumes j: "dJobs d i = Some j" and "\<not> dClosed d"
    and "\<not> ((case getRec (jobAgg j) d of None \<Rightarrow> False | Some rec \<Rightarrow> rcParked rec) \<and> jobAcked j)"
  shows "enqueues i (jobAgg j) d (snd (regEnqueueLocked i d))" "\<exists>ad. fst (regEnqueueLocked i d) = Ok ad \<and> \<not> adParked ad"
proof -
  let ?agg = "jobAgg j"
  obtain rec d1 where ro: "recordOf ?agg d = (rec, d1)" by fastforce
  obtain sp d2 where ew: "ensureWorker ?agg rec d1 = (sp, d2)" by fastforce
  have R: "getRec ?agg d1 = Some rec" "\<forall>b. b \<noteq> ?agg \<longrightarrow> getRec b d1 = getRec b d" "dJobs d1 = dJobs d" "dSpawned d1 = dSpawned d"
      "sameFlags d d1" "rcJobs rec = (case getRec ?agg d of None \<Rightarrow> [] | Some old \<Rightarrow> rcJobs old)"
      "rcWorker rec \<longleftrightarrow> (\<exists>old. getRec ?agg d = Some old \<and> rcWorker old)"
    using ro sameFlags_recordOf [of d ?agg] by (auto simp: recordOf_def makeChan_def Let_def split: option.splits)
  have E: "\<exists>rec2. getRec ?agg d2 = Some rec2 \<and> rcWorker rec2 \<and> rcJobs rec2 = rcJobs rec"
      "\<forall>b. b \<noteq> ?agg \<longrightarrow> getRec b d2 = getRec b d1" "dJobs d2 = dJobs d1"
      "dSpawned d2 = (if rcWorker rec then dSpawned d1 else ?agg # dSpawned d1)" "sameFlags d1 d2"
    using ew R(1) sameFlags_basic(1) [of "snd (makeChan d1)"]
    by (auto simp: ensureWorker_def makeChan_def Let_def sameFlags_def split: if_splits)
  obtain rec2 where rec2: "getRec ?agg d2 = Some rec2" "rcWorker rec2" "rcJobs rec2 = rcJobs rec" using E(1) by blast
  have eq: "regEnqueueLocked i d = (Ok \<lparr>adSpawned = sp, adParked = False\<rparr>,
      putRec ?agg (rec2\<lparr>rcJobs := rcJobs rec2 @ [i], rcWake := True\<rparr>) (track i d2))"
    using assms ro ew rec2(1) by (simp add: regEnqueueLocked_def Let_def)
  have tr: "dJobs (track i d2) k = dJobs d2 k" if "k \<noteq> i" for k
    using that by (simp add: track_def split: option.splits)
  have fl: "sameFlags d (putRec ?agg r (track i d2))" for r
    by (rule sameFlags_trans [OF R(5)], rule sameFlags_trans [OF E(5)],
        rule sameFlags_trans [OF sameFlags_jobOps(4) sameFlags_basic(1)])
  show "enqueues i ?agg d (snd (regEnqueueLocked i d))"
    using assms(2) R E rec2 tr fl by (auto simp: eq enqueues_def)
  show "\<exists>ad. fst (regEnqueueLocked i d) = Ok ad \<and> \<not> adParked ad" by (simp add: eq)
qed

lemma workerFrame_fresh:
  assumes "\<And>b. getRec b d' = getRec b d" "\<And>k. k \<noteq> i \<Longrightarrow> dJobs d' k = dJobs d k" "dJobs d i = None" "\<not> inFlight d' i"
  shows "workerFrame d d'"
proof (rule workerFrameI)
  show "inFlight d k" if "inFlight d' k" for k
    using that assms(2,4) by (cases "k = i") (auto simp: inFlight_def)
  show "liveJob d' k a" if "liveJob d k a" for k a
    using that assms(2,3) by (cases "k = i") (auto simp: liveJob_def)
qed (use assms(1) in \<open>auto simp: queued_def\<close>)

lemma inFlight_complete: "inFlight (complete i r d) k \<Longrightarrow> inFlight d k \<and> k \<noteq> i"
  by (auto simp: inFlight_def complete_def untrack_def Let_def split: option.splits if_splits)

lemma workerFrame_complete_new:
  assumes F: "workerFrame d d2" and "dJobs d i = None" shows "workerFrame d (complete i r d2)"
proof (rule workerFrameI)
  have q: "queued k (complete i r d2) = queued k d2" for k by (simp add: queued_def)
  show "queued k d" if "queued k (complete i r d2)" for k using that workerFrameD(3) [OF F] q by blast
  show "queued k (complete i r d2)" if "queued k d" "inFlight (complete i r d2) k" for k
    using that workerFrameD(4) [OF F] q inFlight_complete by blast
  show "inFlight d k" if "inFlight (complete i r d2) k" for k
    using that workerFrameD(5) [OF F] inFlight_complete by blast
  fix k a assume k: "\<not> queued k d" "liveJob d k a"
  then have "k \<noteq> i" using assms(2) by (auto simp: liveJob_def)
  then show "liveJob (complete i r d2) k a"
    using workerFrameD(6) [OF F k]
    by (auto simp: liveJob_def complete_def untrack_def Let_def split: option.splits)
qed (use workerFrameD(1,2) [OF F] in auto)

text \<open>An enqueue is refused and leaves the workers alone, or queues its job.\<close>

lemma dispEnqueue_effect:
  fixes rq :: "'t dispatch_request"
  assumes "dispInv d"
  defines "agg \<equiv> evAggregateID (rqEvent rq)"
  shows "enqueues (dNextJob d) agg d (snd (dispEnqueue c rq d)) \<or>
    workerFrame d (snd (dispEnqueue c rq d)) \<and> sameFlags d (snd (dispEnqueue c rq d)) \<and>
      dSpawned (snd (dispEnqueue c rq d)) = dSpawned d"
proof -
  define d' where "d' = snd (dispEnqueue c rq d)"
  define i where "i = dNextJob d"
  define j where "j = jobNew ((withoutCancel c)\<lparr>ctxHandler := Some agg\<rparr>) rq"
  define d1 where "d1 = (setJob i j d)\<lparr>dNextJob := Suc i\<rparr>"
  have new: "dJobs d i = None" using assms(1) by (fastforce simp: dispInv_def i_def)
  have j: "dJobs d1 i = Some j" "jobAgg j = agg" "\<not> jTracked j"
    by (simp_all add: d1_def j_def jobNew_def jobAgg_def agg_def)
  have d1: "getRec b d1 = getRec b d" "k \<noteq> i \<Longrightarrow> dJobs d1 k = dJobs d k" "dSpawned d1 = dSpawned d" "dClosed d1 = dClosed d"
      "sameFlags d d1" for b k
    by (simp_all add: d1_def sameFlags_def setJob_def)
  have F1: "workerFrame d d1"
    by (rule workerFrame_fresh [OF d1(1,2) new]) (use j in \<open>auto simp: inFlight_def\<close>)
  have d': "d' = snd (case regEnqueue i d1 of (Ok _, d2) \<Rightarrow> (Ok i, d2) | (Fail e, d2) \<Rightarrow> (Fail e, release i d2)
         | (Panic p, d2) \<Rightarrow> (Panic p, d2))"
    unfolding d'_def dispEnqueue_def Let_def i_def d1_def j_def agg_def by (rule refl)
  consider "dClosed d" | "\<not> dClosed d" "(case getRec agg d of None \<Rightarrow> False | Some rec \<Rightarrow> rcParked rec) \<and> jobAcked j"
    | "\<not> dClosed d" "\<not> ((case getRec agg d of None \<Rightarrow> False | Some rec \<Rightarrow> rcParked rec) \<and> jobAcked j)" by blast
  then show ?thesis
  proof cases
    case 1
    then have e: "d' = release i d1" by (simp add: d' regEnqueue_def regEnqueueLocked_def d1(4))
    have "workerFrame d d'"
      by (rule workerFrame_fresh [OF _ _ new]) (use j d1 in \<open>auto simp: e release_def inFlight_def\<close>)
    moreover have "dSpawned d' = dSpawned d" using d1(3) by (simp add: e)
    ultimately show ?thesis
      using sameFlags_trans [OF d1(5) sameFlags_jobOps(5)] unfolding d'_def [symmetric] by (simp add: e)
  next
    case 2
    then have e: "d' = complete i (Some parkedErr) (markParkedUnrun agg i d1)"
      using j by (simp add: d' regEnqueue_def regEnqueueLocked_def d1 Let_def)
    have "workerFrame d d'"
      unfolding e by (rule workerFrame_complete_new [OF workerFrame_trans [OF F1 workerFrame_markParkedUnrun] new])
    moreover have "sameFlags d d'"
      unfolding e
      by (rule sameFlags_trans [OF d1(5)], rule sameFlags_trans [OF sameFlags_markParkedUnrun sameFlags_jobOps(3)])
    moreover have "dSpawned d' = dSpawned d"
      by (simp add: e markParkedUnrun_def Let_def d1(3) split: option.splits)
    ultimately show ?thesis by (simp add: d'_def)
  next
    case 3
    have "enqueues i (jobAgg j) d1 (snd (regEnqueueLocked i d1))" "\<exists>ad. fst (regEnqueueLocked i d1) = Ok ad \<and> \<not> adParked ad"
      by (rule regEnqueueLocked_effect [OF j(1)]; use 3 in \<open>simp add: j(2) d1\<close>)+
    moreover from this(2) have "d' = snd (regEnqueueLocked i d1)"
      by (auto simp: d' regEnqueue_def split: prod.splits)
    ultimately have "enqueues i agg d d'"
      using d1 sameFlags_trans [OF d1(5)] by (auto simp: enqueues_def j(2))
    then show ?thesis by (simp add: d'_def i_def)
  qed
qed

section \<open>The invariant of the system\<close>

definition workerOk :: "'t disp \<Rightarrow> string \<Rightarrow> agg_record \<Rightarrow> worker_state \<Rightarrow> bool" where
  "workerOk d agg rec st \<longleftrightarrow>
     (case st of
        Draining ending \<Rightarrow> ending \<longrightarrow> dClosed d
      | Running ending i halt \<Rightarrow> (ending \<longrightarrow> dClosed d) \<and> \<not> queued i d \<and> liveJob d i agg \<and> (acked i d \<longrightarrow> holdsHalt agg halt d)
      | Awaiting \<Rightarrow> rcJobs rec \<noteq> [] \<longrightarrow> rcWake rec)"

definition runs :: "(string \<Rightarrow> worker_state option) \<Rightarrow> job_id \<Rightarrow> bool" where
  "runs ws i \<longleftrightarrow> (\<exists>agg ending halt. ws agg = Some (Running ending i halt))"

definition sysInv :: "'t system \<Rightarrow> bool" where
  "sysInv s \<longleftrightarrow> dispInv (syDisp s) \<and> (dStopped (syDisp s) \<longrightarrow> dClosed (syDisp s)) \<and>
     (\<forall>agg st. syWorkers s agg = Some st \<longrightarrow>
        (\<exists>rec. getRec agg (syDisp s) = Some rec \<and> rcWorker rec \<and> workerOk (syDisp s) agg rec st)) \<and>
     (\<forall>agg rec. getRec agg (syDisp s) = Some rec \<longrightarrow> rcWorker rec \<longrightarrow> syWorkers s agg = None \<longrightarrow>
        dClosed (syDisp s) \<and> rcJobs rec = []) \<and>
     (\<forall>i. inFlight (syDisp s) i \<longrightarrow> queued i (syDisp s) \<or> runs (syWorkers s) i)"

lemma sysInvI:
  assumes "dispInv (syDisp s)" "dStopped (syDisp s) \<Longrightarrow> dClosed (syDisp s)"
    and "\<And>agg st. syWorkers s agg = Some st \<Longrightarrow>
        \<exists>rec. getRec agg (syDisp s) = Some rec \<and> rcWorker rec \<and> workerOk (syDisp s) agg rec st"
    and "\<And>agg rec. getRec agg (syDisp s) = Some rec \<Longrightarrow> rcWorker rec \<Longrightarrow> syWorkers s agg = None \<Longrightarrow>
        dClosed (syDisp s) \<and> rcJobs rec = []"
    and "\<And>i. inFlight (syDisp s) i \<Longrightarrow> queued i (syDisp s) \<or> runs (syWorkers s) i"
  shows "sysInv s"
  using assms unfolding sysInv_def by blast

lemma sysInvI_upd:
  assumes "dispInv d" "dStopped d \<Longrightarrow> dClosed d"
    and "\<And>agg st. ws agg = Some st \<Longrightarrow> \<exists>rec. getRec agg d = Some rec \<and> rcWorker rec \<and> workerOk d agg rec st"
    and "\<And>agg rec. getRec agg d = Some rec \<Longrightarrow> rcWorker rec \<Longrightarrow> ws agg = None \<Longrightarrow> dClosed d \<and> rcJobs rec = []"
    and "\<And>i. inFlight d i \<Longrightarrow> queued i d \<or> runs ws i"
  shows "sysInv (s\<lparr>syDisp := d, syWorkers := ws\<rparr>)"
proof -
  have e: "syDisp (s\<lparr>syDisp := d, syWorkers := ws\<rparr>) = d" "syWorkers (s\<lparr>syDisp := d, syWorkers := ws\<rparr>) = ws"
    by simp_all
  show ?thesis unfolding sysInv_def e using assms by blast
qed

lemma sysInvD:
  assumes "sysInv s"
  shows "dispInv (syDisp s)" "dStopped (syDisp s) \<Longrightarrow> dClosed (syDisp s)"
    and "syWorkers s agg = Some st \<Longrightarrow>
        \<exists>rec. getRec agg (syDisp s) = Some rec \<and> rcWorker rec \<and> workerOk (syDisp s) agg rec st"
    and "getRec agg (syDisp s) = Some rec \<Longrightarrow> rcWorker rec \<Longrightarrow> syWorkers s agg = None \<Longrightarrow>
        dClosed (syDisp s) \<and> rcJobs rec = []"
    and "inFlight (syDisp s) i \<Longrightarrow> queued i (syDisp s) \<or> runs (syWorkers s) i"
  using assms unfolding sysInv_def by blast+

lemma start_inv: "sysInv startSystem"
  using newDispatcher_inv
  by (intro sysInvI) (auto simp: startSystem_def inFlight_def newDispatcher_def getRec_def)

text \<open>An operation with the frame keeps the invariant when it keeps what running workers hold.\<close>

lemma liveJob_acked:
  assumes "follows d d'" "dispInv d" "liveJob d i a" shows "acked i d' = acked i d"
proof -
  obtain j where "dJobs d i = Some j" "i < dNextJob d"
    using assms(2,3) by (auto simp: liveJob_def dispInv_def)
  then show ?thesis using followsD(2) [OF assms(1)] by (fastforce simp: acked_def jobAcked_def jobFollows_def)
qed

lemma frame_inv:
  assumes I: "sysInv s" and d': "dispInv d'" and F: "workerFrame (syDisp s) d'" and fw: "follows (syDisp s) d'"
    and fl: "dClosed (syDisp s) \<longrightarrow> dClosed d'" "dStopped d' \<Longrightarrow> dClosed d'"
    and hold: "\<And>agg halt. holdsHalt agg halt (syDisp s) \<Longrightarrow> holdsHalt agg halt d'"
  shows "sysInv (s\<lparr>syDisp := d'\<rparr>)"
proof (rule sysInvI)
  let ?d = "syDisp s"
  show "dispInv (syDisp (s\<lparr>syDisp := d'\<rparr>))" using d' by simp
  show "dClosed (syDisp (s\<lparr>syDisp := d'\<rparr>))" if "dStopped (syDisp (s\<lparr>syDisp := d'\<rparr>))" using that fl by simp
  show "\<exists>rec. getRec agg (syDisp (s\<lparr>syDisp := d'\<rparr>)) = Some rec \<and> rcWorker rec \<and> workerOk (syDisp (s\<lparr>syDisp := d'\<rparr>)) agg rec st"
    if w: "syWorkers (s\<lparr>syDisp := d'\<rparr>) agg = Some st" for agg st
  proof -
    obtain rec where r: "getRec agg ?d = Some rec" "rcWorker rec" "workerOk ?d agg rec st"
      using sysInvD(3) [OF I, of agg st] w by auto
    obtain rec' where r': "getRec agg d' = Some rec'" "sameWorker rec rec'" "set (rcJobs rec') \<subseteq> set (rcJobs rec)"
      using workerFrameD(1) [OF F r(1,2)] by blast
    have "workerOk d' agg rec' st"
    proof (cases st)
      case (Running ending i halt)
      have R: "\<not> queued i ?d" "liveJob ?d i agg" using r(3) Running by (auto simp: workerOk_def)
      then show ?thesis
        using r(3) fl(1) hold workerFrameD(3,6) [OF F, of i] liveJob_acked [OF fw sysInvD(1) [OF I] R(2)]
        by (auto simp: workerOk_def Running)
    qed (use r(3) r' fl(1) in \<open>auto simp: workerOk_def sameWorker_def\<close>)
    then show ?thesis using r r' by (auto simp: sameWorker_def)
  qed
  show "dClosed (syDisp (s\<lparr>syDisp := d'\<rparr>)) \<and> rcJobs rec' = []"
    if w: "getRec agg (syDisp (s\<lparr>syDisp := d'\<rparr>)) = Some rec'" "rcWorker rec'" "syWorkers (s\<lparr>syDisp := d'\<rparr>) agg = None" for agg rec'
  proof -
    obtain rec where r: "getRec agg ?d = Some rec" "rcWorker rec" using workerFrameD(2) [OF F, of agg rec'] w by auto
    then show ?thesis
      using sysInvD(4) [OF I r] w workerFrameD(1) [OF F r] fl(1) by auto
  qed
  show "queued i (syDisp (s\<lparr>syDisp := d'\<rparr>)) \<or> runs (syWorkers (s\<lparr>syDisp := d'\<rparr>)) i"
    if "inFlight (syDisp (s\<lparr>syDisp := d'\<rparr>)) i" for i
    using that sysInvD(5) [OF I, of i] workerFrameD(4,5) [OF F, of i] by auto
qed

text \<open>A step of one aggregate's own worker.\<close>

lemma own_step_inv:
  assumes I: "sysInv s" and d': "dispInv d'" and fw: "follows (syDisp s) d'" and fl: "sameFlags (syDisp s) d'"
    and oth: "\<And>b. b \<noteq> a \<Longrightarrow> getRec b d' = getRec b (syDisp s)"
    and q: "\<And>i. queued i d' \<Longrightarrow> queued i (syDisp s)"
    and live: "\<And>i b. b \<noteq> a \<Longrightarrow> liveJob (syDisp s) i b \<Longrightarrow> liveJob d' i b"
    and own: "\<And>st. w = Some st \<Longrightarrow> \<exists>rec. getRec a d' = Some rec \<and> rcWorker rec \<and> workerOk d' a rec st"
    and gone: "\<And>rec. w = None \<Longrightarrow> getRec a d' = Some rec \<Longrightarrow> rcWorker rec \<Longrightarrow> dClosed d' \<and> rcJobs rec = []"
    and fly: "\<And>i. inFlight d' i \<Longrightarrow> queued i d' \<or> runs ((syWorkers s)(a := w)) i"
  shows "sysInv (s\<lparr>syDisp := d', syWorkers := (syWorkers s)(a := w)\<rparr>)"
proof (rule sysInvI_upd)
  let ?d = "syDisp s"
  show "dispInv d'" by (rule d')
  show "dClosed d'" if "dStopped d'" using that fl sysInvD(2) [OF I] by (simp add: sameFlags_def)
  show "\<exists>rec. getRec b d' = Some rec \<and> rcWorker rec \<and> workerOk d' b rec st"
    if w: "((syWorkers s)(a := w)) b = Some st" for b st
  proof (cases "b = a")
    case True
    then show ?thesis using own w by simp
  next
    case False
    obtain rec where r: "getRec b ?d = Some rec" "rcWorker rec" "workerOk ?d b rec st"
      using sysInvD(3) [OF I, of b st] w False by auto
    have "workerOk d' b rec st"
    proof (cases st)
      case (Running ending i halt)
      have L: "liveJob ?d i b" "\<not> queued i ?d" using r(3) Running by (auto simp: workerOk_def)
      have "holdsHalt b halt ?d \<Longrightarrow> holdsHalt b halt d'" by (rule holdsHalt_same [OF _ fw oth [OF False]])
      then show ?thesis
        using r(3) L live [OF False L(1)] q liveJob_acked [OF fw sysInvD(1) [OF I] L(1)] fl
        by (auto simp: workerOk_def Running sameFlags_def)
    qed (use r(3) fl in \<open>auto simp: workerOk_def sameFlags_def\<close>)
    then show ?thesis using r oth [OF False] by auto
  qed
  show "dClosed d' \<and> rcJobs rec = []"
    if w: "getRec b d' = Some rec" "rcWorker rec" "((syWorkers s)(a := w)) b = None" for b rec
    using w gone [of rec] oth [of b] sysInvD(4) [OF I, of b rec] fl
    by (cases "b = a") (auto simp: sameFlags_def)
qed (use fly in simp)

lemma runs_upd_other:
  "runs ws i \<Longrightarrow> (\<And>ending halt. ws a \<noteq> Some (Running ending i halt)) \<Longrightarrow> runs (ws(a := w)) i"
  unfolding runs_def by (metis fun_upd_other)

text \<open>A step that changes neither queues nor jobs: only where the worker is.\<close>

lemma move_inv:
  assumes I: "sysInv s" and a: "syWorkers s a = Some st" "\<And>ending i halt. st \<noteq> Running ending i halt"
    and rec: "\<And>rec. getRec a (syDisp s) = Some rec \<Longrightarrow> rcWorker rec \<Longrightarrow> workerOk (syDisp s) a rec st \<Longrightarrow>
      (case w of None \<Rightarrow> dClosed (syDisp s) \<and> rcJobs rec = [] | Some st' \<Rightarrow> workerOk (syDisp s) a rec st')"
  shows "sysInv (s\<lparr>syDisp := syDisp s, syWorkers := (syWorkers s)(a := w)\<rparr>)"
proof -
  obtain r where r: "getRec a (syDisp s) = Some r" "rcWorker r" "workerOk (syDisp s) a r st"
    using sysInvD(3) [OF I a(1)] by blast
  have k: "case w of None \<Rightarrow> dClosed (syDisp s) \<and> rcJobs r = [] | Some st' \<Rightarrow> workerOk (syDisp s) a r st'"
    by (rule rec [OF r])
  show ?thesis
  proof (rule own_step_inv [OF I sysInvD(1) [OF I]])
    show "queued i (syDisp s) \<or> runs ((syWorkers s)(a := w)) i" if "inFlight (syDisp s) i" for i
      using sysInvD(5) [OF I that] runs_upd_other [of "syWorkers s" i a w] a by auto
  qed (use r k in \<open>auto split: option.splits\<close>)
qed

lemma popped:
  assumes "regPop agg d = (Some (i, halt), d')"
  obtains rec js where "getRec agg d = Some rec" "rcJobs rec = i # js" "rcHalt rec = halt"
    "d' = putRec agg (rec\<lparr>rcJobs := js\<rparr>) d"
  using assms by (auto simp: regPop_def split: option.splits list.splits)

lemma pop_inv:
  assumes I: "sysInv s" and a: "syWorkers s agg = Some (Draining ending)"
    and p: "regPop agg (syDisp s) = (Some (i, halt), d')"
  shows "sysInv (s\<lparr>syDisp := d', syWorkers := (syWorkers s)(agg := Some (Running ending i halt))\<rparr>)"
proof -
  let ?d = "syDisp s"
  obtain rec js where r: "getRec agg ?d = Some rec" "rcJobs rec = i # js" "rcHalt rec = halt"
      "d' = putRec agg (rec\<lparr>rcJobs := js\<rparr>) ?d" by (rule popped [OF p])
  have P: "dispInv d'" "unqueued i d'" "queuedOk d' agg i" using regPop_inv [OF sysInvD(1) [OF I] p] by auto
  have w: "rcWorker rec" "ending \<longrightarrow> dClosed ?d" using sysInvD(3) [OF I a] r(1) by (auto simp: workerOk_def)
  have q: "queued k ?d \<longleftrightarrow> queued k d' \<or> k = i" for k
  proof -
    have "queued k d' \<Longrightarrow> queued k ?d"
    proof (erule queuedE)
      fix b x assume "getRec b d' = Some x" "k \<in> set (rcJobs x)"
      then show "queued k ?d" using r by (cases "b = agg") (auto intro: queuedI)
    qed
    moreover have "queued i ?d" using r by (auto intro: queuedI)
    moreover have "queued k ?d \<Longrightarrow> k \<noteq> i \<Longrightarrow> queued k d'"
    proof (erule queuedE)
      fix b x assume "k \<noteq> i" "getRec b ?d = Some x" "k \<in> set (rcJobs x)"
      then show "queued k d'" using r by (cases "b = agg") (auto intro: queuedI [of b])
    qed
    ultimately show ?thesis by blast
  qed
  have ok: "workerOk d' agg (rec\<lparr>rcJobs := js\<rparr>) (Running ending i halt)"
    using w P pop_holds [OF sysInvD(1) [OF I] p] r(4)
    by (auto simp: workerOk_def unqueued_iff liveJob_def queuedOk_def acked_def)
  show ?thesis
  proof (rule own_step_inv [OF I P(1)])
    show "queued k d' \<or> runs ((syWorkers s)(agg := Some (Running ending i halt))) k" if "inFlight d' k" for k
    proof -
      have "inFlight ?d k" using that r(4) by (simp add: inFlight_def)
      then have "queued k ?d \<or> runs (syWorkers s) k" by (rule sysInvD(5) [OF I])
      moreover have "runs ((syWorkers s)(agg := Some (Running ending i halt))) i" by (auto simp: runs_def)
      ultimately show ?thesis using q runs_upd_other [of "syWorkers s" k agg] a by auto
    qed
  qed (use r w ok q in \<open>auto simp: liveJob_def\<close>)
qed

lemma finish_inv:
  assumes I: "sysInv s" and a: "syWorkers s agg = Some (Running ending i halt)"
  shows "sysInv (s\<lparr>syDisp := complete i r (syDisp s), syWorkers := (syWorkers s)(agg := Some (Draining ending))\<rparr>)"
proof -
  let ?d = "syDisp s"
  obtain rec where rec: "getRec agg ?d = Some rec" "rcWorker rec" "ending \<longrightarrow> dClosed ?d" "\<not> queued i ?d" "liveJob ?d i agg"
    using sysInvD(3) [OF I a] by (auto simp: workerOk_def)
  have d': "dispInv (complete i r ?d)"
    using settle_complete_inv(3) [OF sysInvD(1) [OF I]] rec(4) by (simp add: unqueued_iff)
  show ?thesis
  proof (rule own_step_inv [OF I d'])
    show "liveJob (complete i r ?d) k b" if "b \<noteq> agg" "liveJob ?d k b" for k b
    proof -
      have "k \<noteq> i" using that rec(5) by (auto simp: liveJob_def)
      then show ?thesis using that(2) by (auto simp: liveJob_def complete_def untrack_def Let_def split: option.splits)
    qed
    show "queued k (complete i r ?d) \<or> runs ((syWorkers s)(agg := Some (Draining ending))) k"
      if "inFlight (complete i r ?d) k" for k
    proof -
      have "inFlight ?d k" "k \<noteq> i" using inFlight_complete [OF that] by auto
      then have "queued k ?d \<or> runs (syWorkers s) k" using sysInvD(5) [OF I] by blast
      then show ?thesis
        using runs_upd_other [of "syWorkers s" k agg] a \<open>k \<noteq> i\<close> by (auto simp: queued_def)
    qed
  qed (use rec in \<open>auto simp: workerOk_def queued_def sameFlags_def [THEN iffD1, OF sameFlags_jobOps(3)]\<close>)
qed

lemma enqueued_inv:
  assumes I: "sysInv s" and d: "d' = snd (dispEnqueue c rq (syDisp s))"
    and E: "enqueues (dNextJob (syDisp s)) agg (syDisp s) d'"
  shows "sysInv (s\<lparr>syDisp := d', syWorkers := spawnWorker (syDisp s) d' (syWorkers s)\<rparr>)"
proof -
  let ?d = "syDisp s"
  define i where "i = dNextJob ?d"
  have D: "dispInv ?d" "dispInv d'" "follows ?d d'"
    using sysInvD(1) [OF I] dispEnqueue_inv by (auto simp: d)
  have new: "dJobs ?d i = None" using D(1) by (fastforce simp: dispInv_def i_def)
  obtain rec where r: "getRec agg d' = Some rec" "rcWorker rec" "rcWake rec"
      "rcJobs rec = (case getRec agg ?d of None \<Rightarrow> [] | Some old \<Rightarrow> rcJobs old) @ [i]"
      and o: "\<And>b. b \<noteq> agg \<Longrightarrow> getRec b d' = getRec b ?d" and js: "\<And>k. k \<noteq> i \<Longrightarrow> dJobs d' k = dJobs ?d k"
      and nc: "\<not> dClosed ?d" and fl: "sameFlags ?d d'"
      and sp: "dSpawned d' = (if (\<exists>old. getRec agg ?d = Some old \<and> rcWorker old) then dSpawned ?d else agg # dSpawned ?d)"
    using E by (auto simp: enqueues_def i_def)
  have ws: "spawnWorker ?d d' (syWorkers s) =
      (if syWorkers s agg = None then (syWorkers s)(agg \<mapsto> Draining False) else syWorkers s)"
    using sp sysInvD(3) [OF I, of agg] sysInvD(4) [OF I, of agg] nc
    by (auto simp: spawnWorker_def split: list.splits)
  have q: "queued k d' \<longleftrightarrow> queued k ?d \<or> k = i" for k
  proof -
    have "queued k d' \<Longrightarrow> queued k ?d \<or> k = i"
    proof (erule queuedE)
      fix b x assume "getRec b d' = Some x" "k \<in> set (rcJobs x)"
      then show "queued k ?d \<or> k = i"
        using r o by (cases "b = agg") (auto intro: queuedI split: option.splits)
    qed
    moreover have "queued k ?d \<Longrightarrow> queued k d'"
    proof (erule queuedE)
      fix b x assume "getRec b ?d = Some x" "k \<in> set (rcJobs x)"
      then show "queued k d'" using r o by (cases "b = agg") (auto intro: queuedI [of b])
    qed
    moreover have "queued i d'" using r by (auto intro: queuedI)
    ultimately show ?thesis by blast
  qed
  show ?thesis unfolding ws
  proof (rule sysInvI_upd)
    show "dispInv d'" by (rule D)
    show "dClosed d'" if "dStopped d'" using that fl sysInvD(2) [OF I] by (simp add: sameFlags_def)
    show "\<exists>rec. getRec b d' = Some rec \<and> rcWorker rec \<and> workerOk d' b rec st"
      if w: "(if syWorkers s agg = None then (syWorkers s)(agg \<mapsto> Draining False) else syWorkers s) b = Some st" for b st
    proof (cases "syWorkers s b = Some st")
      case True
      obtain old where old: "getRec b ?d = Some old" "rcWorker old" "workerOk ?d b old st"
        using sysInvD(3) [OF I True] by blast
      have "workerOk d' b rec' st" if "getRec b d' = Some rec'" for rec'
      proof (cases st)
        case (Running ending k halt)
        have L: "liveJob ?d k b" "\<not> queued k ?d" using old(3) Running by (auto simp: workerOk_def)
        then have ki: "k \<noteq> i" using new by (auto simp: liveJob_def)
        have "holdsHalt b halt ?d \<Longrightarrow> holdsHalt b halt d'" using holdsHalt_dispEnqueue by (simp add: d)
        then show ?thesis
          using old(3) L q ki js liveJob_acked [OF D(3,1) L(1)] nc by (auto simp: workerOk_def Running liveJob_def)
      qed (use old that r o fl nc in \<open>cases "b = agg"; auto simp: workerOk_def sameFlags_def\<close>)+
      then show ?thesis using old r o by (cases "b = agg") auto
    next
      case False
      then have "b = agg" "st = Draining False" using w by (auto split: if_splits)
      then show ?thesis using r by (auto simp: workerOk_def)
    qed
    show "dClosed d' \<and> rcJobs x = []"
      if "getRec b d' = Some x" "rcWorker x"
        "(if syWorkers s agg = None then (syWorkers s)(agg \<mapsto> Draining False) else syWorkers s) b = None" for b x
      using that o [of b] sysInvD(4) [OF I, of b x] nc by (cases "b = agg") (auto split: if_splits)
    show "queued k d' \<or> runs (if syWorkers s agg = None then (syWorkers s)(agg \<mapsto> Draining False) else syWorkers s) k"
      if "inFlight d' k" for k
    proof (cases "k = i")
      case False
      then have "inFlight ?d k" using that js by (simp add: inFlight_def)
      then show ?thesis
        using sysInvD(5) [OF I, of k] q runs_upd_other [of "syWorkers s" k agg] by auto
    qed (use q in simp)
  qed
qed

lemma spawn_none: "dSpawned d' = dSpawned d \<Longrightarrow> spawnWorker d d' ws = ws"
  by (auto simp: spawnWorker_def split: list.splits)

lemma enqueue_inv:
  assumes I: "sysInv s" and d: "d' = snd (dispEnqueue c rq (syDisp s))"
  shows "sysInv (s\<lparr>syDisp := d', syWorkers := spawnWorker (syDisp s) d' (syWorkers s)\<rparr>)"
  using dispEnqueue_effect [OF sysInvD(1) [OF I], of rq c]
proof
  assume "enqueues (dNextJob (syDisp s)) (evAggregateID (rqEvent rq)) (syDisp s) (snd (dispEnqueue c rq (syDisp s)))"
  then show ?thesis using enqueued_inv [OF I d] by (simp add: d)
next
  assume F: "workerFrame (syDisp s) (snd (dispEnqueue c rq (syDisp s))) \<and>
      sameFlags (syDisp s) (snd (dispEnqueue c rq (syDisp s))) \<and>
      dSpawned (snd (dispEnqueue c rq (syDisp s))) = dSpawned (syDisp s)"
  have "sysInv (s\<lparr>syDisp := d'\<rparr>)"
    by (rule frame_inv [OF I])
      (use F sysInvD(1,2) [OF I] dispEnqueue_inv holdsHalt_dispEnqueue in \<open>auto simp: d sameFlags_def\<close>)
  then show ?thesis using F by (simp add: spawn_none d)
qed

lemma op_inv:
  assumes I: "sysInv s"
    and op: "isClientOp op \<or> (syWorkers s agg = Some (Running ending i halt) \<and> isRunOp agg i halt op)"
  shows "sysInv (s\<lparr>syDisp := applyOp op (syDisp s)\<rparr>)"
proof -
  let ?d = "syDisp s"
  have D: "dispInv ?d" by (rule sysInvD(1) [OF I])
  have op': "isClientOp op \<or> isRunOp agg i halt op" using op by blast
  have u: "unqueued i ?d" if "isRunOp agg i halt op"
    using op that sysInvD(3) [OF I, of agg] by (cases op) (auto simp: workerOk_def unqueued_iff)
  have "dispInv (applyOp op ?d)"
    using op' u D
    by (cases op) (auto simp: regParkVersions_inv regSupersede_inv regLiftGeneration_inv dispClose_inv
        regParkIfCurrent_inv regSettleIfParked_inv settle_complete_inv)
  then show ?thesis
    by (rule frame_inv [OF I])
      (use workerFrame_ops [OF D op'] flags_ops [OF op'] sysInvD(2) [OF I] op' in
        \<open>auto intro!: holdsHalt_applyOp\<close>)
qed

lemma clearWake_inv:
  assumes I: "sysInv s" and a: "syWorkers s agg = Some Awaiting"
  shows "sysInv (s\<lparr>syDisp := clearWake agg (syDisp s), syWorkers := (syWorkers s)(agg := Some (Draining False))\<rparr>)"
proof -
  let ?d = "syDisp s"
  obtain rec where r: "getRec agg ?d = Some rec" "rcWorker rec" using sysInvD(3) [OF I a] by blast
  define d' where "d' = putRec agg (rec\<lparr>rcWake := False\<rparr>) ?d"
  have D: "dispInv ?d" by (rule sysInvD(1) [OF I])
  have "recOk ?d agg (rec\<lparr>rcWake := False\<rparr>)" using dispInv_rec [OF D r(1)] by (simp add: recOk_def)
  then have d': "dispInv d'" unfolding d'_def by (rule putRec_same_halt_inv [OF D r(1)]) simp
  have q: "queued k d' = queued k ?d" for k
  proof
    show "queued k ?d" if "queued k d'"
      using that
    proof (rule queuedE)
      fix b x assume "getRec b d' = Some x" "k \<in> set (rcJobs x)"
      then show ?thesis using r by (cases "b = agg") (auto simp: d'_def intro: queuedI)
    qed
    show "queued k d'" if "queued k ?d"
      using that
    proof (rule queuedE)
      fix b x assume "getRec b ?d = Some x" "k \<in> set (rcJobs x)"
      then show ?thesis using r by (cases "b = agg") (auto simp: d'_def intro: queuedI [of b])
    qed
  qed
  have "sysInv (s\<lparr>syDisp := d', syWorkers := (syWorkers s)(agg := Some (Draining False))\<rparr>)"
  proof (rule own_step_inv [OF I d'])
    show "queued k d' \<or> runs ((syWorkers s)(agg := Some (Draining False))) k" if "inFlight d' k" for k
      using sysInvD(5) [OF I, of k] that a runs_upd_other [of "syWorkers s" k agg] q
      by (auto simp: inFlight_def d'_def)
  qed (use r q in \<open>auto simp: d'_def workerOk_def liveJob_def\<close>)
  then show ?thesis by (simp add: clearWake_def r(1) d'_def)
qed

lemma retire_inv:
  assumes I: "sysInv s" and a: "syWorkers s agg = Some Awaiting" and r: "regRetire agg (syDisp s) = (True, d')"
  shows "sysInv (s\<lparr>syDisp := d', syWorkers := (syWorkers s)(agg := None)\<rparr>)"
proof -
  let ?d = "syDisp s"
  obtain rec where rec: "getRec agg ?d = Some rec" "rcWorker rec" using sysInvD(3) [OF I a] by blast
  define d1 where "d1 = putRec agg (rec\<lparr>rcWorker := False\<rparr>) ?d"
  have D: "dispInv d'" using regRetire_inv [OF sysInvD(1) [OF I], of agg] by (simp add: r)
  have e: "d' = discardIfEmpty agg d1" "rcJobs rec = []"
    using r rec by (auto simp: regRetire_def d1_def split: if_splits)
  have g: "getRec b d1 = (if b = agg then Some (rec\<lparr>rcWorker := False\<rparr>) else getRec b ?d)" for b by (simp add: d1_def)
  have own: "getRec agg d' = Some x \<Longrightarrow> \<not> rcWorker x" for x
    by (auto simp: e discardIfEmpty_def g split: if_splits)
  have oth: "b \<noteq> agg \<Longrightarrow> getRec b d' = getRec b ?d" for b by (simp add: e getRec_discard_other g)
  have none: "i \<notin> set (rcJobs x)" if "getRec agg d' = Some x" for i x
    using own [OF that] dispInv_rec [OF D that] by (auto simp: recOk_def)
  have q: "queued k d' \<longleftrightarrow> queued k ?d" for k
  proof
    show "queued k ?d" if "queued k d'"
      using that
    proof (rule queuedE)
      fix b x assume "getRec b d' = Some x" "k \<in> set (rcJobs x)"
      then show ?thesis using none oth by (cases "b = agg") (auto intro: queuedI)
    qed
    show "queued k d'" if "queued k ?d"
      using that
    proof (rule queuedE)
      fix b x assume "getRec b ?d = Some x" "k \<in> set (rcJobs x)"
      then show ?thesis using rec e(2) oth by (cases "b = agg") (auto intro: queuedI [of b])
    qed
  qed
  have js: "dJobs d' = dJobs ?d"
    by (simp add: e discardIfEmpty_def d1_def split: option.splits)
  have fl: "sameFlags ?d d'" "follows ?d d'"
    unfolding e d1_def by (rule sameFlags_trans [OF sameFlags_basic(1) sameFlags_discard])
      (rule follows_trans [OF follows_putRec(1) follows_discardIfEmpty])
  show ?thesis
  proof (rule own_step_inv [OF I D fl(2,1) oth])
    show "queued k d' \<or> runs ((syWorkers s)(agg := None)) k" if "inFlight d' k" for k
      using sysInvD(5) [OF I, of k] that a runs_upd_other [of "syWorkers s" k agg] q js
      by (auto simp: inFlight_def)
  qed (use q js own in \<open>auto simp: liveJob_def\<close>)
qed

lemma pop_none: "regPop agg d = (None, d') \<Longrightarrow> d' = d \<and> (\<forall>rec. getRec agg d = Some rec \<longrightarrow> rcJobs rec = [])"
  by (auto simp: regPop_def split: option.splits list.splits)

lemma step_inv:
  assumes "sys_step s s'" and I: "sysInv s" shows "sysInv s'"
  using assms(1)
proof cases
  case (enqueue d' c rq)
  then show ?thesis using enqueue_inv [OF I] by simp
next
  case (client op)
  then show ?thesis using op_inv [OF I] by simp
next
  case (pop agg ending i halt d')
  then show ?thesis using pop_inv [OF I] by simp
next
  case (drained agg d')
  then show ?thesis
    using move_inv [OF I, of agg "Draining False" "Some Awaiting"] pop_none [OF drained(3)]
    by (simp add: workerOk_def)
next
  case (exit agg d')
  then show ?thesis
    using move_inv [OF I, of agg "Draining True" None] pop_none [OF exit(3)] by (simp add: workerOk_def)
next
  case (run agg ending i halt op)
  then show ?thesis using op_inv [OF I, of op agg ending i halt] by simp
next
  case (finish agg ending i halt r)
  then show ?thesis using finish_inv [OF I] by simp
next
  case (wake agg rec)
  then show ?thesis using clearWake_inv [OF I] by simp
next
  case (stop agg)
  then show ?thesis
    using move_inv [OF I, of agg Awaiting "Some (Draining True)"] sysInvD(2) [OF I] by (simp add: workerOk_def)
next
  case (retire agg d')
  then show ?thesis using retire_inv [OF I] by simp
next
  case (stay agg d')
  have "d' = syDisp s" using stay(3) by (auto simp: regRetire_def split: option.splits if_splits)
  then show ?thesis
    using move_inv [OF I, of agg Awaiting "Some (Draining False)"] stay by (simp add: workerOk_def)
qed

lemma reachable_inv: "reachable s \<Longrightarrow> sysInv s"
  by (induction rule: reachable.induct) (auto intro: start_inv step_inv)

end
