(* ===== verification/Dispatcher_Properties.thy ===== *)
theory Dispatcher_Properties
  imports Dispatcher_System
begin

text \<open>
  What the in-memory dispatcher guarantees, over the model's definitions: order and fate of
  queued jobs, the park state table, deliveries and acknowledgements, and what holds in every
  reachable state of the system of clients and workers.
\<close>

section \<open>A dispatcher to evaluate the properties on\<close>

definition orderEvent :: "string \<Rightarrow> int \<Rightarrow> int event" where
  "orderEvent agg v =
     \<lparr>evID = ''e'', evAggregateID = agg, evEventName = ''order.placed'', evVersion = v, evSchemaVersion = 1,
      evOccurredAt = ''2024-02-29T12:00:00Z'', evAggregate = v, evPreviousAggregate = v - 1\<rparr>"

definition durableRequest :: "string \<Rightarrow> int \<Rightarrow> int dispatch_request" where
  "durableRequest agg v = \<lparr>rqEvent = orderEvent agg v, rqAck = Some (agg, v), rqKind = DispatchEvent\<rparr>"

definition liveRequest :: "string \<Rightarrow> int \<Rightarrow> int dispatch_request" where
  "liveRequest agg v = \<lparr>rqEvent = orderEvent agg v, rqAck = None, rqKind = DispatchEvent\<rparr>"

definition oneQueued :: "int disp" where
  "oneQueued = snd (dispEnqueue background (durableRequest ''a'' 1) newDispatcher)"

definition twoQueued :: "int disp" where
  "twoQueued = snd (dispEnqueue background (durableRequest ''a'' 2) oneQueued)"

lemma oneQueued_inv: "dispInv oneQueued" and twoQueued_inv: "dispInv twoQueued"
  by (simp_all add: oneQueued_def twoQueued_def newDispatcher_inv dispEnqueue_inv)

lemma oneQueued_rec:
  "getRec ''a'' oneQueued = Some \<lparr>rcJobs = [0], rcWorker = True, rcWake = True, rcHalt = 1, rcParked = False,
     rcGeneration = 0, rcCause = None, rcUndelivered = []\<rparr>"
  by code_simp

lemma twoQueued_rec:
  "getRec ''a'' twoQueued = Some \<lparr>rcJobs = [0, 1], rcWorker = True, rcWake = True, rcHalt = 1, rcParked = False,
     rcGeneration = 0, rcCause = None, rcUndelivered = []\<rparr>"
  by code_simp

section \<open>The registry\<close>

definition queueOf :: "string \<Rightarrow> 't disp \<Rightarrow> job_id list" where
  "queueOf agg d = (case getRec agg d of None \<Rightarrow> [] | Some rec \<Rightarrow> rcJobs rec)"

definition isParked :: "string \<Rightarrow> 't disp \<Rightarrow> bool" where
  "isParked agg d \<longleftrightarrow> dsParked (regInspect agg d)"

lemma isParked_iff: "isParked agg d \<longleftrightarrow> (\<exists>rec. getRec agg d = Some rec \<and> rcParked rec)"
  by (auto simp: isParked_def regInspect_def zeroStatus_def split: option.splits)

lemma parked_case: "(case getRec agg d of None \<Rightarrow> False | Some rec \<Rightarrow> rcParked rec) = isParked agg d"
  by (auto simp: isParked_iff split: option.splits)

definition newJobOf :: "ctx \<Rightarrow> 't dispatch_request \<Rightarrow> 't job" where
  "newJobOf c rq = jobNew ((withoutCancel c)\<lparr>ctxHandler := Some (evAggregateID (rqEvent rq))\<rparr>) rq"

definition withNewJob :: "ctx \<Rightarrow> 't dispatch_request \<Rightarrow> 't disp \<Rightarrow> 't disp" where
  "withNewJob c rq d = (setJob (dNextJob d) (newJobOf c rq) d)\<lparr>dNextJob := Suc (dNextJob d)\<rparr>"

lemma dispEnqueue_alt:
  "dispEnqueue c rq d =
     (case regEnqueue (dNextJob d) (withNewJob c rq d) of
        (Ok _, d2) \<Rightarrow> (Ok (dNextJob d), d2)
      | (Fail e, d2) \<Rightarrow> (Fail e, release (dNextJob d) d2)
      | (Panic p, d2) \<Rightarrow> (Panic p, d2))"
  by (simp add: dispEnqueue_def Let_def withNewJob_def newJobOf_def)

lemma withNewJob_sel [simp]:
  "getRec b (withNewJob c rq d) = getRec b d" "dClosed (withNewJob c rq d) = dClosed d"
  "dJobs (withNewJob c rq d) (dNextJob d) = Some (newJobOf c rq)"
  "isParked b (withNewJob c rq d) = isParked b d"
  by (simp_all add: withNewJob_def isParked_iff)

lemma newJobOf_sel [simp]:
  "jobAgg (newJobOf c rq) = evAggregateID (rqEvent rq)" "jobAcked (newJobOf c rq) = (rqAck rq \<noteq> None)"
  "jobVersion (newJobOf c rq) = evVersion (rqEvent rq)" "\<not> jDone (newJobOf c rq)" "\<not> jFinal (newJobOf c rq)"
  "\<not> jTracked (newJobOf c rq)"
  by (simp_all add: newJobOf_def jobNew_def jobAgg_def jobAcked_def jobVersion_def)

lemma enqueue_accepts:
  assumes "\<not> dClosed d" and "\<not> (isParked (evAggregateID (rqEvent rq)) d \<and> rqAck rq \<noteq> None)"
  shows "enqueues (dNextJob d) (evAggregateID (rqEvent rq)) (withNewJob c rq d) (snd (dispEnqueue c rq d))"
    and "fst (dispEnqueue c rq d) = Ok (dNextJob d)"
proof -
  let ?i = "dNextJob d" and ?d1 = "withNewJob c rq d"
  have e: "enqueues ?i (jobAgg (newJobOf c rq)) ?d1 (snd (regEnqueueLocked ?i ?d1))"
      "\<exists>ad. fst (regEnqueueLocked ?i ?d1) = Ok ad \<and> \<not> adParked ad"
    by (rule regEnqueueLocked_effect [OF withNewJob_sel(3)]; use assms in \<open>simp add: parked_case\<close>)+
  obtain ad d2 where l: "regEnqueueLocked ?i ?d1 = (Ok ad, d2)" "\<not> adParked ad"
    using e(2) by (metis prod.collapse)
  then have "dispEnqueue c rq d = (Ok ?i, d2)" by (simp add: dispEnqueue_alt regEnqueue_def)
  then show "enqueues ?i (evAggregateID (rqEvent rq)) ?d1 (snd (dispEnqueue c rq d))"
    "fst (dispEnqueue c rq d) = Ok ?i" using e(1) l by simp_all
qed

text \<open>C21: The registry is first-in first-out per aggregate: an accepted request joins the end of its own
aggregate's queue and of no other, and a worker's pop takes the oldest job of its aggregate and leaves
the rest in order.\<close>

theorem queue_is_fifo:
  assumes "\<not> dClosed d" and "\<not> (isParked (evAggregateID (rqEvent rq)) d \<and> rqAck rq \<noteq> None)"
  shows "fst (dispEnqueue c rq d) = Ok (dNextJob d) \<and>
    queueOf b (snd (dispEnqueue c rq d)) =
      (if b = evAggregateID (rqEvent rq) then queueOf b d @ [dNextJob d] else queueOf b d) \<and>
    map_option fst (fst (regPop b d)) = (case queueOf b d of [] \<Rightarrow> None | i # is \<Rightarrow> Some i) \<and>
    queueOf b' (snd (regPop b d)) = (if b' = b then tl (queueOf b d) else queueOf b' d)"
proof (intro conjI)
  show "fst (dispEnqueue c rq d) = Ok (dNextJob d)" by (rule enqueue_accepts(2) [OF assms])
  show "queueOf b (snd (dispEnqueue c rq d)) =
      (if b = evAggregateID (rqEvent rq) then queueOf b d @ [dNextJob d] else queueOf b d)"
    using enqueue_accepts(1) [OF assms, of c] by (auto simp: enqueues_def queueOf_def split: option.splits)
  show "map_option fst (fst (regPop b d)) = (case queueOf b d of [] \<Rightarrow> None | i # is \<Rightarrow> Some i)"
    by (auto simp: regPop_def queueOf_def split: option.splits list.splits)
  show "queueOf b' (snd (regPop b d)) = (if b' = b then tl (queueOf b d) else queueOf b' d)"
    by (auto simp: regPop_def queueOf_def split: option.splits list.splits)
qed

theorem queue_is_fifo_witness:
  "fst (dispEnqueue background (durableRequest ''a'' 2) oneQueued) = Ok 1 \<and>
   queueOf ''a'' (snd (dispEnqueue background (durableRequest ''a'' 2) oneQueued)) = [0, 1] \<and>
   map_option fst (fst (regPop ''a'' oneQueued)) = Some 0"
proof -
  have "\<not> dClosed oneQueued" "\<not> isParked ''a'' oneQueued" "dNextJob oneQueued = 1" "queueOf ''a'' oneQueued = [0]"
    by (code_simp+)
  then show ?thesis
    using queue_is_fifo [of oneQueued "durableRequest ''a'' 2" background "''a''"]
    by (simp add: durableRequest_def orderEvent_def)
qed

definition onePark :: "int disp" where
  "onePark = regParkVersions ''a'' (Some (OtherErr ''down'')) [7] oneQueued"

lemma onePark_inv: "dispInv onePark"
  by (simp add: onePark_def regParkVersions_inv oneQueued_inv)

lemma enqueue_refused:
  assumes "\<not> dClosed d" and "isParked (evAggregateID (rqEvent rq)) d" and "rqAck rq \<noteq> None"
  shows "dispEnqueue c rq d =
    (Ok (dNextJob d), complete (dNextJob d) (Some parkedErr)
       (markParkedUnrun (evAggregateID (rqEvent rq)) (dNextJob d) (withNewJob c rq d)))"
proof -
  let ?i = "dNextJob d" and ?d1 = "withNewJob c rq d"
  have "regEnqueueLocked ?i ?d1 =
      (Ok \<lparr>adSpawned = False, adParked = True\<rparr>, markParkedUnrun (evAggregateID (rqEvent rq)) ?i ?d1)"
    using assms by (simp add: regEnqueueLocked_def Let_def parked_case)
  then show ?thesis by (simp add: dispEnqueue_alt regEnqueue_def)
qed

lemma refused_job:
  assumes j: "dJobs d i = Some j" "\<not> jDone j" "\<not> jFinal j"
  shows "\<exists>j'. dJobs (complete i (Some parkedErr) (markParkedUnrun agg i d)) i = Some j' \<and>
      jDone j' \<and> jFinal j' \<and> jErr j' = Some parkedErr \<and> jUnrun j' = Some parkedErr"
proof -
  let ?j = "j\<lparr>jDone := True, jUnrun := Some parkedErr\<rparr>"
  have m: "dJobs (markParkedUnrun agg i d) i = Some ?j"
    using j by (auto simp: markParkedUnrun_def markUnrun_def Let_def split: option.splits)
  show ?thesis using complete_final [OF m, of "Some parkedErr"] j by auto
qed

text \<open>A durable request for a parked aggregate is not queued and runs nothing: its ticket is settled and
final at once with the delivery-parked error, the version counts as undelivered and \<open>Unrun\<close> answers for
it, and no queue changes. A closed dispatcher refuses every request and gives no ticket.\<close>

theorem parked_aggregate_refuses:
  assumes "dispInv d" and "isParked (evAggregateID (rqEvent rq)) d" and "rqAck rq \<noteq> None"
  shows "(\<not> dClosed d \<longrightarrow> (case dispEnqueue c rq d of (r, d') \<Rightarrow>
      r = Ok (dNextJob d) \<and>
      dispTicket (dNextJob d) d' = \<lparr>tkSettled = True, tkFinal = True, tkErr = Some parkedErr, tkUnrun = Some parkedErr\<rparr> \<and>
      regUnrun (evAggregateID (rqEvent rq)) (evVersion (rqEvent rq)) d' = Some parkedErr \<and>
      evVersion (rqEvent rq) \<in> set (dsUndelivered (regInspect (evAggregateID (rqEvent rq)) d')) \<and>
      (\<forall>b. queueOf b d' = queueOf b d))) \<and>
    (dClosed d \<longrightarrow> (case dispEnqueue c rq d of (r, d') \<Rightarrow>
      r = Fail (Sentinel ErrDispatcherClosed) \<and> dRecords d' = dRecords d))"
proof (cases "dClosed d")
  case True
  then have "regEnqueueLocked (dNextJob d) (withNewJob c rq d) = (Fail (Sentinel ErrDispatcherClosed), withNewJob c rq d)"
    by (simp add: regEnqueueLocked_def)
  then show ?thesis
    using True jobsOnly_ops(5) [of "withNewJob c rq d" "dNextJob d"]
    by (simp add: dispEnqueue_alt regEnqueue_def jobsOnly_def withNewJob_def)
next
  case False
  let ?agg = "evAggregateID (rqEvent rq)" and ?v = "evVersion (rqEvent rq)" and ?i = "dNextJob d"
  let ?d1 = "withNewJob c rq d"
  let ?d' = "complete ?i (Some parkedErr) (markParkedUnrun ?agg ?i ?d1)"
  obtain rec where rec: "getRec ?agg d = Some rec" "rcParked rec" using assms(2) by (auto simp: isParked_iff)
  have v: "versionOf ?i ?d1 = ?v" by (simp add: versionOf_def)
  have g: "getRec b (markParkedUnrun ?agg ?i ?d1) = (if b = ?agg then Some (rec\<lparr>rcUndelivered := AList.update ?v parkedErr (rcUndelivered rec)\<rparr>)
      else getRec b d)" for b
    using rec by (simp add: markParkedUnrun_def Let_def v)
  have "?v \<in> fst ` set (AList.update ?v parkedErr (rcUndelivered rec))"
    using dom_update [of ?v parkedErr "rcUndelivered rec"] by simp
  moreover have "dispTicket ?i ?d' = \<lparr>tkSettled = True, tkFinal = True, tkErr = Some parkedErr, tkUnrun = Some parkedErr\<rparr>"
    using refused_job [of ?d1 ?i "newJobOf c rq" ?agg] by (auto simp: dispTicket_def)
  moreover have "\<forall>b. queueOf b ?d' = queueOf b d" using rec by (simp add: queueOf_def g)
  ultimately show ?thesis
    using False rec enqueue_refused [OF False assms(2,3), of c]
    by (simp add: regUnrun_def regInspect_def g undeliveredOf_def update_conv')
qed

theorem parked_aggregate_refuses_witness:
  "\<not> dClosed onePark \<and> dispTicket 1 (snd (dispEnqueue background (durableRequest ''a'' 2) onePark)) =
     \<lparr>tkSettled = True, tkFinal = True, tkErr = Some parkedErr, tkUnrun = Some parkedErr\<rparr> \<and>
   regUnrun ''a'' 2 (snd (dispEnqueue background (durableRequest ''a'' 2) onePark)) = Some parkedErr"
proof -
  have o: "\<not> dClosed onePark" "isParked ''a'' onePark" "dNextJob onePark = 1" by (code_simp+)
  then show ?thesis
    using parked_aggregate_refuses [OF onePark_inv, of "durableRequest ''a'' 2" background]
    by (simp add: durableRequest_def orderEvent_def case_prod_beta)
qed

lemma undelivered_set:
  assumes "undOk (rcUndelivered rec)"
  shows "undeliveredOf rec = sorted_list_of_set (fst ` set (rcUndelivered rec))"
  using assms sorted_list_of_set_sort_remdups [of "map fst (rcUndelivered rec)"]
  by (simp add: undeliveredOf_def undOk_def distinct_remdups_id)

text \<open>C20: The park state table. Parking a running aggregate starts a fresh generation, keeps the cause, and
leaves undelivered exactly the versions given and those of its queued durable jobs, in ascending order;
the live jobs stay queued in order. Resuming with any other generation changes nothing; resuming with this
one returns those versions once and leaves the aggregate running.\<close>

theorem park_then_resume:
  assumes "dispInv d" and "\<not> isParked agg d"
  shows "let d' = regParkVersions agg cause vs d; gen = dGeneration d + 1;
      lost = sorted_list_of_set (set vs \<union> (\<lambda>i. versionOf i d) ` {i \<in> set (queueOf agg d). acked i d})
    in regInspect agg d' = \<lparr>dsParked = True, dsGeneration = gen, dsCause = cause, dsUndelivered = lost\<rparr> \<and>
       queueOf agg d' = filter (\<lambda>i. \<not> acked i d) (queueOf agg d) \<and>
       (\<forall>g. g \<noteq> gen \<longrightarrow> regLiftGeneration agg g d' = ((False, []), d')) \<and>
       fst (regLiftGeneration agg gen d') = (True, lost) \<and>
       regInspect agg (snd (regLiftGeneration agg gen d')) = zeroStatus \<and>
       queueOf agg (snd (regLiftGeneration agg gen d')) = queueOf agg d'"
proof -
  let ?js = "queueOf agg d" and ?p = "regPark agg cause d"
  obtain rec where r: "getRec agg ?p = Some rec" "dispInv ?p" "rcParked rec" "rcGeneration rec = dGeneration d + 1"
      "rcCause rec = cause" "rcJobs rec = filter (\<lambda>i. \<not> acked i d) ?js"
      "rcUndelivered rec = fold (\<lambda>v. AList.update v parkedErr) (map (\<lambda>i. versionOf i d) (filter (\<lambda>i. acked i d) ?js)) []"
    by (rule regPark_running [where agg = agg and cause = cause, OF assms(1)])
      (use assms(2) in \<open>auto simp: isParked_iff queueOf_def\<close>)
  define u where "u = fold (\<lambda>v. AList.update v parkedErr) vs (rcUndelivered rec)"
  define lost where "lost = sorted_list_of_set (set vs \<union> (\<lambda>i. versionOf i d) ` {i \<in> set ?js. acked i d})"
  have d': "regParkVersions agg cause vs d = putRec agg (rec\<lparr>rcUndelivered := u\<rparr>) ?p"
    by (simp add: regParkVersions_def Let_def r(1) u_def)
  have "undOk (rcUndelivered rec)" using dispInv_rec [OF r(2,1)] by (simp add: recOk_def)
  then have "undeliveredOf (rec\<lparr>rcUndelivered := u\<rparr>) = sorted_list_of_set (fst ` set u)"
    by (intro undelivered_set [of "rec\<lparr>rcUndelivered := u\<rparr>", simplified]) (simp add: u_def undOk_fold)
  also have "fst ` set u = set vs \<union> (\<lambda>i. versionOf i d) ` {i \<in> set ?js. acked i d}"
    by (simp add: u_def r(7) fold_update_keys)
  finally have lost: "undeliveredOf (rec\<lparr>rcUndelivered := u\<rparr>) = lost" by (simp add: lost_def)
  obtain ch d1 where m: "makeChan (putRec agg (rec\<lparr>rcUndelivered := u\<rparr>) ?p) = (ch, d1)" by fastforce
  have "getRec agg d1 = Some (rec\<lparr>rcUndelivered := u\<rparr>)" using m by (auto simp: makeChan_def)
  then have lift: "regInspect agg (regLift agg (putRec agg (rec\<lparr>rcUndelivered := u\<rparr>) ?p)) = zeroStatus"
      "queueOf agg (regLift agg (putRec agg (rec\<lparr>rcUndelivered := u\<rparr>) ?p)) = rcJobs rec"
    by (auto simp: regLift_def m discardIfEmpty_def regInspect_def queueOf_def)
  show ?thesis
    unfolding Let_def lost_def [symmetric] d'
    using r lost lift
    by (simp add: regInspect_def queueOf_def [of agg "putRec _ _ _"] regLiftGeneration_def)
qed

theorem park_then_resume_witness:
  "dispInv oneQueued \<and> regInspect ''a'' onePark =
     \<lparr>dsParked = True, dsGeneration = 1, dsCause = Some (OtherErr ''down''), dsUndelivered = [1, 7]\<rparr> \<and>
   fst (regLiftGeneration ''a'' 1 onePark) = (True, [1, 7])"
proof -
  have n: "\<not> isParked ''a'' oneQueued" "dGeneration oneQueued = 0" "queueOf ''a'' oneQueued = [0]"
      "versionOf 0 oneQueued = 1" "acked 0 oneQueued" by (code_simp+)
  have "{i. i = 0 \<and> acked i oneQueued} = {0}" using n by auto
  then have "sorted_list_of_set (set [7] \<union> (\<lambda>i. versionOf i oneQueued) ` {i \<in> set (queueOf ''a'' oneQueued). acked i oneQueued}) = [1, 7]"
    using n by (simp add: insort_remove1)
  then show ?thesis
    using park_then_resume [OF oneQueued_inv n(1), of "Some (OtherErr ''down'')" "[7]"] oneQueued_inv n(2)
    by (simp add: Let_def onePark_def)
qed

end
