(* ===== verification/Recovery_Properties.thy ===== *)
theory Recovery_Properties
  imports Recovery_Correct Dispatcher_Properties
begin

text \<open>
  The properties of the recovery: the scan of the delivery log ends and misses nothing, a
  backlog is redelivered once and in order, and one bad aggregate does not stop the others.
\<close>

section \<open>The scan\<close>

text \<open>The in-memory store answers a live context with a prefix of its log.\<close>

lemma memory_reads:
  assumes "ctxErr c = None" "0 < limit"
  shows "stPendingDeliveries memoryStore c limit s = Ok (take (nat limit) (mDeliveries s))"
  using assms by (auto simp: memoryStore_def memPendingDeliveries_def Let_def min_def)

text \<open>C31: reading the delivery log in growing prefixes ends, and finds every pending delivery
  once and in enqueue order, although entries are enqueued and acknowledged between two reads.
  With at most 63 reads the scan succeeds; the entries it visited are distinct and in the
  order they were enqueued, each was pending at some read, and everything the last read found
  is among them. They are grouped by aggregate in that order, the aggregates by first
  appearance.\<close>

theorem scan_finds_pending_once:
  assumes "evolves L (\<lambda>k. mDeliveries (states k))" "ctxErr c = None"
    and "\<And>k. int (length (mDeliveries (states k))) < 2 ^ 62" "0 < batch"
  shows "\<exists>vs m b. pendingByAggregate 63 memoryStore c states batch want = Some (Ok (), b)
     \<and> subseq vs L \<and> distinct vs \<and> set (mDeliveries (states m)) \<subseteq> set vs
     \<and> set vs \<subseteq> (\<Union>k. set (mDeliveries (states k)))
     \<and> (\<forall>agg. backlogOf b agg = filter (\<lambda>d. want agg \<and> dAggregateID d = agg) vs)
     \<and> bkOrder b = firsts (map dAggregateID (filter (\<lambda>d. want (dAggregateID d)) vs))"
proof -
  let ?logs = "\<lambda>k. mDeliveries (states k)"
  obtain alive n where e: "distinct L" "\<And>k. ?logs k = filter (alive k) (take (n k) L)"
    "\<And>k d. alive (Suc k) d \<Longrightarrow> alive k d"
    using assms(1) unfolding evolves_def by blast
  have "\<exists>vs j. scanFrom (Suc 62) memoryStore c states 0 batch (set []) (addDelivery want) noBacklogs
        = Some (Ok (), grouped want vs)
      \<and> subseq ([] @ vs) L \<and> set (?logs (0 + j)) \<subseteq> set ([] @ vs)
      \<and> (\<forall>d \<in> set vs. \<exists>i. d \<in> set (?logs i))"
  proof (rule scanFrom_covers[OF e(1) e(2) e(3)])
    show "coveredUpto L (alive 0) 0 []" by (simp add: coveredUpto_def)
    show "(2 :: int) ^ 62 \<le> batch * 2 ^ 62" using assms(4) by simp
  qed (use assms memory_reads addDelivery_ok in simp_all)
  then obtain vs j where vs: "scanFrom 63 memoryStore c states 0 batch {} (addDelivery want) noBacklogs
        = Some (Ok (), grouped want vs)" "subseq vs L" "set (?logs j) \<subseteq> set vs"
      "\<forall>d \<in> set vs. \<exists>i. d \<in> set (?logs i)" by auto
  have "distinct vs" using vs(2) e(1) by (auto simp: subseq_conv_nths)
  then show ?thesis
    using vs grouped_spec[of want vs]
    by (intro exI[of _ vs] exI[of _ j] exI[of _ "grouped want vs"])
      (auto simp: pendingByAggregate_def scanPending_def)
qed

text \<open>A log of two entries that does not change, read in prefixes of one, two and four.\<close>

definition twoPending :: "nat \<Rightarrow> memory" where
  "twoPending k = newMemory\<lparr>mDeliveries := [\<lparr>dAggregateID = ''b'', dVersion = 1\<rparr>, \<lparr>dAggregateID = ''a'', dVersion = 4\<rparr>]\<rparr>"

theorem scan_finds_pending_once_witness:
  "\<exists>b. pendingByAggregate 63 memoryStore background twoPending 1 (\<lambda>_. True) = Some (Ok (), b)
     \<and> bkOrder b = [''b'', ''a'']"
proof -
  let ?L = "[\<lparr>dAggregateID = ''b'', dVersion = 1\<rparr>, \<lparr>dAggregateID = ''a'', dVersion = 4\<rparr>]"
  have logs: "mDeliveries (twoPending k) = ?L" for k by (simp add: twoPending_def)
  have ev: "evolves ?L (\<lambda>k. mDeliveries (twoPending k))"
    unfolding evolves_def logs by (intro conjI exI[of _ "\<lambda>_ _. True"] exI[of _ "\<lambda>_. 2"]) simp_all
  obtain vs m b where r: "pendingByAggregate 63 memoryStore background twoPending 1 (\<lambda>_. True) = Some (Ok (), b)"
    "subseq vs ?L" "set (mDeliveries (twoPending m)) \<subseteq> set vs"
    "bkOrder b = firsts (map dAggregateID (filter (\<lambda>d. True) vs))"
    using scan_finds_pending_once[OF ev, of background 1 "\<lambda>_. True"] logs by auto
  have "length ?L \<le> length vs"
    using r(2,3) card_mono[of "set vs" "set ?L"] card_length[of vs] by (simp add: logs)
  then have "vs = ?L" using r(2) by (metis subseq_same_length list_emb_length le_antisym)
  then show ?thesis using r by (simp add: firsts_def)
qed

section \<open>Redelivery\<close>

definition ackedAll :: "string \<Rightarrow> delivery list \<Rightarrow> memory \<Rightarrow> memory" where
  "ackedAll agg ds s =
     fold (\<lambda>d s. s\<lparr>mDeliveries := remove1 \<lparr>dAggregateID = agg, dVersion = dVersion d\<rparr> (mDeliveries s)\<rparr>) ds s"

lemma ackVanished_memory:
  assumes "ctxErr c = None"
  shows "ackVanished memoryStore c agg V ds s = (Ok (), ackedAll agg (filter (\<lambda>d. dVersion d \<in> V) ds) s)"
  using assms
  by (induction ds arbitrary: s) (simp_all add: memoryStore_def memAckDelivery_def ackedAll_def Let_def)

text \<open>The events of a history by their versions.\<close>

lemma history_events:
  assumes "map evAggregate all = hs" "map evVersion all = map int [1..<Suc (length hs)]"
  shows "evVersion ` set all = {1..int (length hs)}" "distinct (map evVersion all)"
    "e \<in> set all \<Longrightarrow> evAggregate e = hs ! nat (evVersion e - 1)"
proof -
  have "evVersion ` set all = set (map evVersion all)" by simp
  then show "evVersion ` set all = {1..int (length hs)}"
    unfolding assms(2) by (simp add: atLeastLessThanSuc_atLeastAtMost image_int_atLeastAtMost del: upt_Suc)
  show "distinct (map evVersion all)" unfolding assms(2) by (simp add: distinct_map del: upt_Suc)
  assume "e \<in> set all"
  then obtain i where i: "i < length all" "e = all ! i" by (auto simp: in_set_conv_nth)
  have len: "length all = length hs" using assms(1) by auto
  have "evVersion e = map evVersion all ! i" "evAggregate e = map evAggregate all ! i" using i by simp_all
  then show "evAggregate e = hs ! nat (evVersion e - 1)"
    using i len unfolding assms by (simp add: nth_map del: upt_Suc)
qed

text \<open>A redelivery in terms of the events a replay enumerates.\<close>

lemma redeliver_eq:
  fixes D :: "('t, 'd) dispatcher_ops" and st :: "(memory, snapshot_memory, 't, 'd) recovery_state"
  assumes "ctxErr c = None" "esStore (xEs x) = memoryStore" "noPanic D" "backlog \<noteq> []"
    and "distinct (map evVersion all)" "evVersion ` set all = {1..m}"
    and rep: "\<And>fromV toV fn (w :: 'd backlog_enqueuer). replay (xEs x) c agg fromV toV fn (dbStore (xDb st)) w =
      (Ok (), fold fn (filter (\<lambda>e. fromV \<le> evVersion e \<and> (toV = 0 \<or> evVersion e \<le> toV)) all) w)"
  shows "redeliver x D c agg backlog st =
    (case enqueueSeq D c agg (filter (\<lambda>e. evVersion e \<in> dVersion ` set backlog) all) (xDisp st) of
       (None, d') \<Rightarrow>
         (Ok ([], None), setStore (ackedAll agg (filter (\<lambda>d. dVersion d \<notin> {1..m}) backlog) (dbStore (xDb st)))
            (st\<lparr>xDisp := d'\<rparr>))
     | (Some (err, rest), d') \<Rightarrow>
         (Ok (sorted_list_of_set ((dVersion ` set backlog - {1..m}) \<union> evVersion ` set rest), errorsJoin [None, Some err]),
          st\<lparr>xDisp := d'\<rparr>))"
proof -
  note enq = enqueueBacklog_spec[OF assms(3,4,5) rep, unfolded assms(6)]
  have vanished: "filter (\<lambda>d. dVersion d \<in> dVersion ` set backlog \<and> (1 \<le> dVersion d \<longrightarrow> \<not> dVersion d \<le> m)) backlog
      = filter (\<lambda>d. 1 \<le> dVersion d \<longrightarrow> \<not> dVersion d \<le> m) backlog"
    by (intro filter_cong) auto
  show ?thesis
    unfolding redeliver_def enq assms(2) ackVanished_memory[OF assms(1)]
    using assms(4) by (auto simp: okErr_def errorsJoin_def map_filter_simps vanished split: prod.splits option.splits)
qed

text \<open>C32: redelivering an aggregate's backlog enqueues exactly the events of its history that the
  backlog names, each once and in version order, whatever order and however often the backlog
  names them. Entries whose event does not exist are acknowledged, and nothing else in the
  store changes. If the dispatcher refuses an event, nothing is acknowledged and what is
  returned is the error and, ascending, every version that was not enqueued.\<close>

theorem redelivery_enqueues_backlog:
  fixes D :: "('t, 'd) dispatcher_ops" and st :: "(memory, snapshot_memory, 't, 'd) recovery_state"
  assumes "codecOk cd" "ctxErr c = None" "xEs x = memES cd ups schema zero hook g"
    and "dbHolds (memES cd ups schema zero hook g) (xDb st) agg hs" "noPanic D" "backlog \<noteq> []"
  shows "\<exists>evs. map evVersion evs = filter (\<lambda>v. v \<in> dVersion ` set backlog) (map int [1..<Suc (length hs)])
     \<and> map evAggregate evs = map (\<lambda>e. hs ! nat (evVersion e - 1)) evs
     \<and> redeliver x D c agg backlog st =
         (case enqueueSeq D c agg evs (xDisp st) of
            (None, d') \<Rightarrow>
              (Ok ([], None),
               setStore (ackedAll agg (filter (\<lambda>d. dVersion d \<notin> {1..int (length hs)}) backlog) (dbStore (xDb st)))
                 (st\<lparr>xDisp := d'\<rparr>))
          | (Some (err, rest), d') \<Rightarrow>
              (Ok (sorted_list_of_set ((dVersion ` set backlog - {1..int (length hs)}) \<union> evVersion ` set rest),
                   errorsJoin [None, Some err]),
               st\<lparr>xDisp := d'\<rparr>))"
proof -
  obtain all where all: "map evAggregate all = hs" "map evVersion all = map int [1..<Suc (length hs)]"
    and rep: "\<And>fromV toV fn (w :: 'd backlog_enqueuer). replay (xEs x) c agg fromV toV fn (dbStore (xDb st)) w =
      (Ok (), fold fn (filter (\<lambda>e. fromV \<le> evVersion e \<and> (toV = 0 \<or> evVersion e \<le> toV)) all) w)"
    using replay_events[OF assms(1,2,4), where 'w = "'d backlog_enqueuer"] unfolding assms(3) by blast
  let ?evs = "filter (\<lambda>e. evVersion e \<in> dVersion ` set backlog) all"
  have store: "esStore (xEs x) = memoryStore" by (simp add: assms(3))
  have "map evVersion ?evs = filter (\<lambda>v. v \<in> dVersion ` set backlog) (map evVersion all)" by (simp add: filter_map comp_def)
  then show ?thesis
    using redeliver_eq[OF assms(2) store assms(5,6) history_events(2)[OF all] history_events(1)[OF all] rep]
      history_events(3)[OF all] all(2) by (intro exI[of _ ?evs]) simp
qed

lemma memDispatcher_noPanic: "noPanic memDispatcher"
  by (auto simp: noPanic_def memDispatcher_def dispEnqueue_def regEnqueue_def regEnqueueLocked_def setJob_def Let_def
      split: outcome.splits prod.splits option.splits if_splits)

text \<open>The counter of one event, with a backlog that also names a version that never existed.\<close>

definition memExec :: "(memory_tx, memory, snapshot_memory, int, int disp) executor" where
  "memExec = newExecutor counterES (Some memDispatcher) []"

definition startedState :: "(memory, snapshot_memory, int, int disp) recovery_state" where
  "startedState = \<lparr>xDb = counterDb, xDisp = newDispatcher, xForgetting = {}, xSnapshotErrors = [], rvReports = []\<rparr>"

definition mixedBacklog :: "delivery list" where
  "mixedBacklog = [\<lparr>dAggregateID = ''a'', dVersion = 9\<rparr>, \<lparr>dAggregateID = ''a'', dVersion = 1\<rparr>]"

theorem redelivery_enqueues_backlog_witness:
  "\<exists>evs :: int event list. map evVersion evs = [1]
     \<and> fst (redeliver memExec memDispatcher background ''a'' mixedBacklog startedState) =
         (case enqueueSeq memDispatcher background ''a'' evs newDispatcher of
            (None, d') \<Rightarrow> Ok ([], None)
          | (Some (err, rest), d') \<Rightarrow> Ok (sorted_list_of_set ({9} \<union> evVersion ` set rest), errorsJoin [None, Some err]))"
proof -
  have es: "xEs memExec = memES counterCodec (\<lambda>_. None) 1 0 False None"
    by (simp add: memExec_def newExecutor_def counterES_def)
  have holds: "dbHolds (memES counterCodec (\<lambda>_. None) 1 0 False None) (xDb startedState) ''a'' [5]"
    using counterDb_holds by (simp add: startedState_def counterES_def)
  have ne: "mixedBacklog \<noteq> []" by (simp add: mixedBacklog_def)
  have vs: "dVersion ` set mixedBacklog = {9, 1}" "{9, 1} - {1..int (length [5 :: int])} = {9 :: int}"
    by (auto simp: mixedBacklog_def)
  obtain evs :: "int event list" where e: "map evVersion evs = filter (\<lambda>v. v \<in> dVersion ` set mixedBacklog) (map int [1..<Suc (length [5 :: int])])"
    "redeliver memExec memDispatcher background ''a'' mixedBacklog startedState =
       (case enqueueSeq memDispatcher background ''a'' evs (xDisp startedState) of
          (None, d') \<Rightarrow> (Ok ([], None), setStore (ackedAll ''a'' (filter (\<lambda>d. dVersion d \<notin> {1..int (length [5 :: int])}) mixedBacklog)
              (dbStore (xDb startedState))) (startedState\<lparr>xDisp := d'\<rparr>))
        | (Some (err, rest), d') \<Rightarrow> (Ok (sorted_list_of_set ((dVersion ` set mixedBacklog - {1..int (length [5 :: int])}) \<union> evVersion ` set rest),
              errorsJoin [None, Some err]), startedState\<lparr>xDisp := d'\<rparr>))"
    using redelivery_enqueues_backlog[OF counterCodec_ok background_simps(1) es holds memDispatcher_noPanic ne] by blast
  show ?thesis
    using e unfolding vs by (intro exI[of _ evs]) (simp add: startedState_def split: prod.splits option.splits)
qed

section \<open>Failures\<close>

lemma parked_after:
  assumes "dispInv d"
  shows "agg \<in> set (map fst (regParks (regParkVersions agg cause vs d)))"
    and "set vs \<subseteq> set (dsUndelivered (regInspect agg (regParkVersions agg cause vs d)))"
proof -
  obtain rec where r: "getRec agg (regPark agg cause d) = Some rec" "rcParked rec"
    using regPark_inv[OF assms] by blast
  let ?rec = "rec\<lparr>rcUndelivered := fold (\<lambda>v m. AList.update v parkedErr m) vs (rcUndelivered rec)\<rparr>"
  have d': "regParkVersions agg cause vs d = putRec agg ?rec (regPark agg cause d)"
    by (simp add: regParkVersions_def Let_def r(1))
  then have "getRec agg (regParkVersions agg cause vs d) = Some ?rec" by simp
  then show "agg \<in> set (map fst (regParks (regParkVersions agg cause vs d)))"
    using r(2) by (force simp: regParks_def getRec_def map_filter_def image_iff dest: map_of_SomeD)
  show "set vs \<subseteq> set (dsUndelivered (regInspect agg (regParkVersions agg cause vs d)))"
    using r(2) unfolding d' by (auto simp: regInspect_def undeliveredOf_def fold_update_keys)
qed

text \<open>A replay keeps what its function keeps.\<close>

lemma replayLoop_keeps:
  assumes "\<And>e x. P x \<Longrightarrow> P (fn e x)" "P x"
  shows "P (snd (replayLoop es c agg fromV toV fn bs j prev v x))"
  using assms(2)
proof (induction bs arbitrary: j prev v x)
  case (Cons b bs)
  have fn: "P (if w then fn e x else x)" for w e using assms(1) Cons.prems by simp
  show ?case using fn Cons by (simp add: Let_def split: outcome.split prod.split)
qed simp

lemma replay_keeps:
  assumes "\<And>e x. P x \<Longrightarrow> P (fn e x)" "P x"
  shows "P (snd (replay es c agg fromV toV fn s x))"
  using assms(2) by (auto simp: replay_def split: outcome.split intro!: replayLoop_keeps[of P] assms(1))

lemma enqueueOne_inv:
  "dispInv (beDisp e) \<Longrightarrow> dispInv (beDisp (enqueueOne memDispatcher c agg ev e))"
  using dispEnqueue_inv[of "beDisp e" c] by (auto simp: enqueueOne_def memDispatcher_def split: outcome.splits prod.splits)
    (metis snd_conv)+

lemma redeliver_inv:
  assumes "dispInv (xDisp st)"
  shows "dispInv (xDisp (snd (redeliver x memDispatcher c agg backlog st)))"
proof -
  have "dispInv (beDisp (snd (replay (xEs x) c agg lo hi (enqueueOne memDispatcher c agg) s
      \<lparr>beDisp = xDisp st, beVanished = V, beErr = None, bePanic = None\<rparr>)))" for lo hi s V
    by (rule replay_keeps[where P = "\<lambda>e. dispInv (beDisp e)"]) (simp_all add: enqueueOne_inv assms)
  then have "dispInv (snd (enqueueBacklog x memDispatcher c agg backlog s (xDisp st)))" for s
    by (simp add: enqueueBacklog_def Let_def case_prod_beta)
  then show ?thesis
    using assms by (auto simp: redeliver_def setStore_def split: outcome.split prod.split option.split)
      (metis snd_conv)+
qed

text \<open>C33: a redelivery that fails is contained. When the redelivery of a parked aggregate fails,
  the aggregate is parked again and listed as paused; a park that is no longer the one listed is
  left alone. When the recovery of an aggregate fails, the aggregate is parked with every
  version that was not enqueued among its undelivered ones, and the recovery of the others
  goes on, unless the context is done or the dispatcher closed.\<close>

theorem failed_redelivery_contained:
  assumes "dispInv (xDisp st)" "xDispatcher x = Some memDispatcher"
  shows "(\<forall>park scanned e st'. resumeAggregate x memDispatcher c None agg park scanned st = (Ok (Some e), st')
            \<longrightarrow> agg \<in> set (paused x (xDisp st')))
     \<and> (\<forall>park scanned. park \<noteq> dsGeneration (inspect x agg (xDisp st)) \<longrightarrow>
            resumeAggregate x memDispatcher c None agg park scanned st = (Ok None, st))
     \<and> (\<forall>backlog und err st1. redeliver x memDispatcher c agg backlog st = (Ok (und, Some err), st1)
            \<longrightarrow> (if recoveryMustStop cerr err
                then recoverAggregate x memDispatcher handler c cerr agg backlog st = (Ok (Some (recoveryErr err)), st1)
                else \<exists>st'. recoverAggregate x memDispatcher handler c cerr agg backlog st = (Ok None, st')
                  \<and> agg \<in> set (paused x (xDisp st'))
                  \<and> set und \<subseteq> set (dsUndelivered (inspect x agg (xDisp st')))))"
proof (intro conjI allI impI)
  have pk: "dpPark memDispatcher = regParkVersions" "dpParks memDispatcher = regParks"
    "dpInspect memDispatcher = regInspect" "dpResumeUndelivered memDispatcher = regLiftGeneration"
    by (simp_all add: memDispatcher_def)
  show "agg \<in> set (paused x (xDisp st'))"
    if r: "resumeAggregate x memDispatcher c None agg park scanned st = (Ok (Some e), st')" for park scanned e st'
  proof -
    obtain lifted und d where l: "regLiftGeneration agg park (xDisp st) = ((lifted, und), d)" by (metis surj_pair)
    have "dispInv (xDisp (st\<lparr>xDisp := d\<rparr>))" using regLiftGeneration_inv[OF assms(1), of agg park] l by simp
    note inv = redeliver_inv[OF this, of x c agg]
    show ?thesis
      using r l assms(2) inv[of "withUndelivered agg scanned und"] parked_after(1)
      by (auto simp: resumeAggregate_def withLock_def pk Let_def paused_def split: if_splits outcome.splits prod.splits option.splits)
  qed
  show "resumeAggregate x memDispatcher c None agg park scanned st = (Ok None, st)"
    if "park \<noteq> dsGeneration (inspect x agg (xDisp st))" for park scanned
    using that assms(2)
    by (auto simp: resumeAggregate_def withLock_def pk inspect_def regInspect_def regLiftGeneration_def zeroStatus_def
        split: option.splits if_splits)
  show "if recoveryMustStop cerr err
      then recoverAggregate x memDispatcher handler c cerr agg backlog st = (Ok (Some (recoveryErr err)), st1)
      else \<exists>st'. recoverAggregate x memDispatcher handler c cerr agg backlog st = (Ok None, st')
        \<and> agg \<in> set (paused x (xDisp st')) \<and> set und \<subseteq> set (dsUndelivered (inspect x agg (xDisp st')))"
    if r: "redeliver x memDispatcher c agg backlog st = (Ok (und, Some err), st1)" for backlog und err st1
  proof -
    have "dispInv (xDisp st1)" using redeliver_inv[OF assms(1), of x c agg backlog] r by simp
    then show ?thesis
      using r assms(2) parked_after[of "xDisp st1", where agg = agg and cause = "Some err" and vs = und]
      by (auto simp: recoverAggregate_def reportPublishError_def paused_def inspect_def pk)
  qed
qed

text \<open>A stream whose first record cannot be decoded: its aggregate is parked, the recovery goes on.\<close>

definition corruptState :: "(memory, snapshot_memory, int, int disp) recovery_state" where
  "corruptState = startedState\<lparr>xDb := emptyDb\<lparr>dbStore := newMemory\<lparr>mStreams := [streamName ''a'' \<mapsto> [\<lparr>enVersion = 1, enData = Empty\<rparr>]]\<rparr>\<rparr>\<rparr>"

definition firstPending :: "delivery list" where
  "firstPending = [\<lparr>dAggregateID = ''a'', dVersion = 1\<rparr>]"

lemma corrupt_replay:
  "\<exists>e. replay counterES background ''a'' lo hi fn (dbStore (xDb corruptState)) x = (Fail e, x) \<and> \<not> errorsIs e ErrDispatcherClosed"
proof -
  have "entriesFrom (streamName ''a'') 1 (dbStore (xDb corruptState)) = [\<lparr>enVersion = 1, enData = Empty\<rparr>]"
    by (simp add: entriesFrom_def streamOf_def corruptState_def binarySearch_eq sortedBy_def posBy_def)
  then show ?thesis
    by (simp add: replay_def counterES_def memES_def esNew_def guardAutoSnapshots_def memReadFrom_def toBlobs_def
        counterCodec_def unmarshalEvent_def jsonErr_def)
qed

theorem failed_redelivery_contained_witness:
  "\<exists>st'. recoverAggregate memExec memDispatcher True background None ''a'' firstPending corruptState = (Ok None, st')
     \<and> ''a'' \<in> set (paused memExec (xDisp st')) \<and> 1 \<in> set (dsUndelivered (inspect memExec ''a'' (xDisp st')))"
proof -
  have x: "xEs memExec = counterES" "xDispatcher memExec = Some memDispatcher"
    by (simp_all add: memExec_def newExecutor_def)
  have inv: "dispInv (xDisp corruptState)"
    using newDispatcher_inv by (simp add: corruptState_def startedState_def)
  obtain e where "\<not> errorsIs e ErrDispatcherClosed"
    "redeliver memExec memDispatcher background ''a'' firstPending corruptState
       = (Ok ([1], errorsJoin [Some e, None]), corruptState)"
    using corrupt_replay[of 1 1 "enqueueOne memDispatcher background ''a''"
        "\<lparr>beDisp = xDisp corruptState, beVanished = {1}, beErr = None, bePanic = None\<rparr>"]
    by (auto simp: redeliver_def enqueueBacklog_def x firstPending_def okErr_def errorsJoin_def map_filter_simps)
  then show ?thesis
    using failed_redelivery_contained[OF inv x(2), of background "''a''" None True]
    by (fastforce simp: recoveryMustStop_def errorsJoin_def map_filter_simps)
qed

end
