(* ===== verification/Exec_Correct.thy ===== *)
theory Exec_Correct
  imports Exec Event_Store_Correct
begin

text \<open>
  What the command executor guarantees, over the contracts of the stores: everything a
  command writes commits together with its event, a retried command is answered without
  writing, a forgotten aggregate is gone. Interpreted on the in-memory stores at the end.
\<close>

text \<open>What becomes of the event in the dispatcher: nothing, if the process stops before; else it
  is enqueued, and the aggregate parked if the dispatcher refuses it.\<close>

definition enqueuedTo ::
  "('tx, 's, 'p, 't, 'd) executor \<Rightarrow> ctx \<Rightarrow> 't event \<Rightarrow> 'd \<Rightarrow> 'd \<Rightarrow> bool" where
  "enqueuedTo x c ev d d' \<longleftrightarrow> d' = d \<or>
     (\<exists>D d1 e. xDispatcher x = Some D \<and>
        d1 = snd (dpEnqueue D c \<lparr>rqEvent = ev, rqAck = ackFor x ev, rqKind = DispatchEvent\<rparr> d) \<and>
        (d' = d1 \<or> d' = parkIfDurable x ev e d1))"

text \<open>The same of a tombstone, which supersedes first.\<close>

definition tombstoneTo ::
  "('tx, 's, 'p, 't, 'd) executor \<Rightarrow> ctx \<Rightarrow> string \<Rightarrow> 'd \<Rightarrow> 'd \<Rightarrow> bool" where
  "tombstoneTo x c agg d d' \<longleftrightarrow> d' = d \<or>
     (\<exists>D ev d1 e. xDispatcher x = Some D \<and> evAggregateID ev = agg \<and>
        d1 = snd (dpEnqueue D c \<lparr>rqEvent = ev, rqAck = Some (evAggregateID ev, evVersion ev), rqKind = DispatchTombstone\<rparr>
               (dpSupersede D agg d)) \<and>
        (d' = d1 \<or> d' = dpPark D agg (Some e) [] d1))"

text \<open>
  A property of histories that a command keeps: if it holds of the history of the command's
  aggregate and the current state validates the command, it holds of the history with the
  state the command emits.
\<close>

definition keepsDomain :: "(string \<Rightarrow> 't list \<Rightarrow> bool) \<Rightarrow> 't command \<Rightarrow> bool" where
  "keepsDomain Q cmd \<longleftrightarrow>
     (\<forall>hs. Q (cmdAggregateID cmd) hs \<longrightarrow> cmdValidate cmd (currentOf hs) = None \<longrightarrow>
        Q (cmdAggregateID cmd) (hs @ [cmdEmitEvent cmd (currentOf hs)]))"

locale executor_on =
  event_store_on "xEs x" view tview base sinv tinv cell
  for x :: "('tx, 's, 'p, 't, 'd) executor"
    and view :: "'s \<Rightarrow> contents" and tview :: "'tx \<Rightarrow> contents" and base :: "'tx \<Rightarrow> contents"
    and sinv :: "'s \<Rightarrow> bool" and tinv :: "'tx \<Rightarrow> bool"
    and cell :: "'p \<Rightarrow> string \<Rightarrow> blob option"
begin

text \<open>
  What is asked of the synchronous projections: they write tables of their own, so streams,
  receipts and deliveries stay as they are, in the transaction and in what it rolls back to.
\<close>

definition projSafe :: bool where
  "projSafe \<longleftrightarrow> (\<forall>p \<in> set (xSyncs x). \<forall>c ev t. tinv t \<longrightarrow>
     tinv (snd (spFn p c ev t)) \<and> base (snd (spFn p c ev t)) = base t \<and>
     tview (snd (spFn p c ev t)) = tview t)"

lemma sync_spec:
  assumes "projSafe" "tinv t" "runSyncProjections x c ev t = (r, t')"
  shows "tinv t' \<and> base t' = base t \<and> tview t' = tview t"
proof -
  let ?step = "\<lambda>p t. if \<not> spMatch p (evEventName ev) then (None, t) else spFn p c ev t"
  have "tinv (snd (firstError ?step (xSyncs x) t)) \<and> base (snd (firstError ?step (xSyncs x) t)) = base t \<and>
      tview (snd (firstError ?step (xSyncs x) t)) = tview t"
    by (rule firstError_invariant[where P = "\<lambda>s. tinv s \<and> base s = base t \<and> tview s = tview t"])
      (use assms(1,2) in \<open>auto simp: projSafe_def\<close>)
  then show ?thesis
    using assms(3) by (auto simp: runSyncProjections_def split: prod.splits option.splits)
qed

lemma sync_safe: "projSafe \<Longrightarrow> txSafe (runSyncProjections x c ev)"
  unfolding txSafe_def by (metis prod.collapse sync_spec)

lemma putAcceptedReceipt_safe: "txSafe (putAcceptedReceipt (esStore (xEs x)) k c ev)"
  using txSafe_ops(4) by (auto simp: putAcceptedReceipt_def txSafe_def)

lemma txHook_safe: "projSafe \<Longrightarrow> hookSafe (txHook x k)"
  by (auto simp: hookSafe_def txHook_def txSafe_ops
      intro!: txSafe_then sync_safe putAcceptedReceipt_safe)

definition acceptedReceipt :: "'t event \<Rightarrow> receipt" where
  "acceptedReceipt ev = \<lparr>rAccepted = True, rAggregateID = evAggregateID ev, rEventID = evID ev,
     rVersion = evVersion ev, rRejection = ''''\<rparr>"

text \<open>The receipt and the delivery entry that go with an event, applied to the contents.\<close>

definition hookEffect :: "string \<Rightarrow> 't event \<Rightarrow> contents \<Rightarrow> contents" where
  "hookEffect k ev a =
     (let a' = (if k = '''' then a else ctPutReceipt k (acceptedReceipt ev) a)
      in if isDurable x (evEventName ev) then ctEnqueueDelivery (evAggregateID ev) (evVersion ev) a' else a')"

lemma hookEffect_streams [simp]: "ctStreams (hookEffect k ev a) = ctStreams a"
  by (simp add: hookEffect_def contents_defs Let_def)

lemma hookEffect_receipts:
  "ctReceipts (hookEffect k ev a) =
     (if k = '''' then ctReceipts a else (ctReceipts a)(k \<mapsto> acceptedReceipt ev))"
  by (simp add: hookEffect_def contents_defs Let_def)

lemma hookEffect_deliveries:
  "ctDeliveries (hookEffect k ev a) = ctDeliveries a @
     (if isDurable x (evEventName ev) then [\<lparr>dAggregateID = evAggregateID ev, dVersion = evVersion ev\<rparr>] else [])"
  by (simp add: hookEffect_def contents_defs Let_def)

lemma txHook_ran:
  assumes "projSafe" "tinv t" "hookRan (txHook x k) c ev t t'"
  shows "tview t' = hookEffect k ev (tview t)" "k \<noteq> '''' \<Longrightarrow> ctReceipts (tview t) k = None"
proof -
  have "tview t' = hookEffect k ev (tview t) \<and> (k \<noteq> '''' \<longrightarrow> ctReceipts (tview t) k = None)"
  proof (cases "txHook x k")
    case None
    with assms(3) show ?thesis
      by (auto simp: hookRan_def txHook_def hookEffect_def isDurable_def Let_def split: if_splits)
  next
    case (Some h)
    with assms(3) obtain t1 t2 where s: "runSyncProjections x c ev t = (Ok (), t1)"
        "putAcceptedReceipt (esStore (xEs x)) k c ev t1 = (Ok (), t2)"
        "(if isDurable x (evEventName ev)
          then txEnqueueDelivery (esStore (xEs x)) c (evAggregateID ev) (evVersion ev)
          else (\<lambda>t. (Ok (), t))) t2 = (Ok (), t')"
      by (auto simp: hookRan_def txHook_def thenTx_def split: if_splits outcome.splits prod.splits)
    have t1: "tinv t1" "tview t1 = tview t" using sync_spec[OF assms(1,2) s(1)] by auto
    have t2: "tinv t2 \<and> tview t2 = (if k = '''' then tview t else ctPutReceipt k (acceptedReceipt ev) (tview t))"
      using s(2) t1 putReceipt_spec[OF t1(1)]
      by (fastforce simp: putAcceptedReceipt_def acceptedReceipt_def split: if_splits)
    have "ctReceipts (tview t) k = None" if "k \<noteq> ''''"
      using putReceipt_dup[OF t1(1), of k c "acceptedReceipt ev"] s(2) t1(2) that
      by (cases "ctReceipts (tview t) k") (auto simp: putAcceptedReceipt_def acceptedReceipt_def)
    moreover have "tview t' = hookEffect k ev (tview t)"
      using s(3) t2 enqueueDelivery_spec[of t2] by (fastforce simp: hookEffect_def Let_def split: if_splits)
    ultimately show ?thesis by blast
  qed
  then show "tview t' = hookEffect k ev (tview t)" "k \<noteq> '''' \<Longrightarrow> ctReceipts (tview t) k = None" by auto
qed

section \<open>Committing\<close>

text \<open>
  One transaction: the event, the receipt and the delivery entry are all there or none is.
\<close>

lemma commit_spec:
  assumes "codecOk (esCodec (xEs x))" "i64 (esSchema (xEs x)) = esSchema (xEs x)" "timeOk now"
    and "holds d (cmdAggregateID cmd) hs" "int (length hs) + 1 < maxInt64" "projSafe"
    and "writeTx (xEs x) c i now cmd (txHook x k) d = (Ok ev, d')"
  obtains b where "cmdValidate cmd (currentOf hs) = None" "ev = producedEvent (xEs x) i now cmd hs"
    "encodes (xEs x) ev b" "holds d' (cmdAggregateID cmd) (hs @ [evAggregate ev])"
    "view (dbStore d') = hookEffect k ev
       (ctAppend (streamName (cmdAggregateID cmd)) (int (length hs) + 1) b (view (dbStore d)))"
    "k \<noteq> '''' \<Longrightarrow> ctReceipts (view (dbStore d)) k = None"
proof -
  obtain t t' b where w: "cmdValidate cmd (currentOf hs) = None" "ev = producedEvent (xEs x) i now cmd hs"
    "encodes (xEs x) ev b" "tview t = ctAppend (streamName (cmdAggregateID cmd)) (int (length hs) + 1) b (view (dbStore d))"
    "represents (xEs x) (tview t) (cell (dbSnaps d')) (cmdAggregateID cmd) (hs @ [evAggregate ev])"
    "tinv t" "hookRan (txHook x k) c ev t t'" "view (dbStore d') = tview t'"
    by (rule writeTx_succeeds[OF assms(1-5) txHook_safe[OF assms(6)] assms(7)])
  note H = txHook_ran[OF assms(6) w(6,7)]
  have "sinv (dbStore d')" by (rule writeTx_frame(1)[OF assms(1,2,4) txHook_safe[OF assms(6)] assms(7)])
  moreover have "represents (xEs x) (view (dbStore d')) (cell (dbSnaps d')) (cmdAggregateID cmd) (hs @ [evAggregate ev])"
    using w(5,8) H(1) by (simp add: represents_def)
  ultimately show thesis
    using that[OF w(1,2,3)] w(4,8) H by (simp add: holds_def ctAppend_def)
qed

section \<open>Receipts\<close>

definition rejectedReceipt :: "goerr \<Rightarrow> receipt" where
  "rejectedReceipt e = \<lparr>rAccepted = False, rAggregateID = '''', rEventID = '''', rVersion = 0,
     rRejection = errText e\<rparr>"

lemma recordRejection_spec:
  assumes "sinv s" "recordRejection x c k e s = (r, s')"
  shows "sinv s'"
    and "isOk r \<Longrightarrow> ctReceipts (view s) k = None \<and> view s' = ctPutReceipt k (rejectedReceipt e) (view s)"
    and "\<not> isOk r \<Longrightarrow> view s' = view s"
proof -
  have at: "atomically (esStore (xEs x)) c (txPutReceipt (esStore (xEs x)) c k (rejectedReceipt e)) s = (r, s')"
    using assms(2) by (simp add: recordRejection_def rejectedReceipt_def)
  show "sinv s'" using atomically_sinv[OF assms(1) txSafe_ops(4) at] .
  show "\<not> isOk r \<Longrightarrow> view s' = view s" using atomically_not_Ok[OF assms(1) txSafe_ops(4) at] by simp
  assume "isOk r"
  then obtain u where r: "r = Ok u" by (cases r) auto
  obtain t t' where t: "tinv t" "tview t = view s" "view s' = tview t'"
      "txPutReceipt (esStore (xEs x)) c k (rejectedReceipt e) t = (Ok u, t')"
    using atomically_Ok[OF assms(1) txSafe_ops(4) at[unfolded r]] by metis
  have "ctReceipts (tview t) k = None" using putReceipt_dup[OF t(1), of k c "rejectedReceipt e"] t(4)
    by (cases "ctReceipts (tview t) k") auto
  then show "ctReceipts (view s) k = None \<and> view s' = ctPutReceipt k (rejectedReceipt e) (view s)"
    using putReceipt_spec[OF t(1,4)] t(2,3) by simp
qed

lemma answer_absent:
  assumes "sinv s" "ctReceipts (view s) k = None" "answerFromReceipt x c k s = Ok (ev, handled, err)"
  shows "handled \<Longrightarrow> err \<noteq> None"
  using assms(2,3) getReceipt_spec[OF assms(1), of c k]
  by (auto simp: answerFromReceipt_def Let_def split: outcome.splits option.splits)

text \<open>
  A failed write is either answered from the receipt that beat it, with the contents
  unchanged, or reported as an error; the only thing it may have written is the receipt of
  the rejection it reports.
\<close>

lemma writeFailed_spec:
  assumes "sinv s" "writeFailed x c k e s = (Ok (ev, handled, err), s')"
  shows "sinv s'"
    and "handled \<Longrightarrow> k \<noteq> '''' \<and> view s' = view s \<and> answerFromReceipt x c k s' = Ok (ev, True, err)"
    and "\<not> handled \<Longrightarrow> err \<noteq> None \<and> (view s' = view s \<or>
       k \<noteq> '''' \<and> ctReceipts (view s) k = None \<and> errorsIs e ErrValidation \<and> err = Some e \<and>
       view s' = ctPutReceipt k (rejectedReceipt e) (view s))"
proof -
  have "sinv s' \<and> (if handled then k \<noteq> '''' \<and> view s' = view s \<and> answerFromReceipt x c k s' = Ok (ev, True, err)
     else err \<noteq> None \<and> (view s' = view s \<or>
       k \<noteq> '''' \<and> ctReceipts (view s) k = None \<and> errorsIs e ErrValidation \<and> err = Some e \<and>
       view s' = ctPutReceipt k (rejectedReceipt e) (view s)))"
  proof (cases "\<not> errorsIs e ErrSyncProjection \<and> \<not> (k \<noteq> '''' \<and> errorsIs e ErrDuplicateReceipt) \<and>
      errorsIs e ErrValidation \<and> k \<noteq> ''''")
    case True
    obtain r s1 where rr: "recordRejection x c k e s = (r, s1)" by fastforce
    note R = recordRejection_spec[OF assms(1) rr]
    have "s' = s1" and v: "validationFailed x c k e s = (Ok (ev, handled, err), s')"
      using assms(2) True rr
      by (auto simp: writeFailed_def validationFailed_def Let_def split: outcome.splits if_splits)
    show ?thesis
    proof (cases r)
      case (Ok u)
      with v True rr R show ?thesis by (auto simp: validationFailed_def)
    next
      case (Fail f)
      with v True rr R \<open>s' = s1\<close> show ?thesis
        by (auto simp: validationFailed_def Let_def split: if_splits outcome.splits)
    next
      case (Panic p)
      with v True rr show ?thesis by (auto simp: validationFailed_def)
    qed
  next
    case False
    with assms show ?thesis
      by (auto simp: writeFailed_def validationFailed_def Let_def split: if_splits outcome.splits)
  qed
  then show "sinv s'"
    "handled \<Longrightarrow> k \<noteq> '''' \<and> view s' = view s \<and> answerFromReceipt x c k s' = Ok (ev, True, err)"
    "\<not> handled \<Longrightarrow> err \<noteq> None \<and> (view s' = view s \<or>
       k \<noteq> '''' \<and> ctReceipts (view s) k = None \<and> errorsIs e ErrValidation \<and> err = Some e \<and>
       view s' = ctPutReceipt k (rejectedReceipt e) (view s))"
    by (auto split: if_splits)
qed

text \<open>The event of an accepted command, read back through its receipt.\<close>

lemma answer_accepted:
  assumes "codecOk (esCodec (xEs x))" "holds d agg hs"
    and rc: "stGetReceipt (esStore (xEs x)) c k (dbStore d) = Ok (Some (acceptedReceipt ev))"
    and rd: "isOk (stReadFrom (esStore (xEs x)) c (streamName agg) 1 (dbStore d))"
    and evs: "deserializeEvents (map snd (ctStreams (view (dbStore d)) (streamName agg))) = Ok evs"
    and n: "n < length hs" "storedEvents (xEs x) c agg (esZero (xEs x)) evs hs ! n = ev"
      "evVersion ev = int n + 1" "evAggregateID ev = agg"
  shows "answerFromReceipt x c k (dbStore d) = Ok (ev, True, None)"
proof -
  let ?all = "storedEvents (xEs x) c agg (esZero (xEs x)) evs hs"
  let ?pick = "\<lambda>evt e. if evVersion evt = evVersion ev \<and> evID evt = evID ev then evt else e"
  obtain evs' where "deserializeEvents (map snd (ctStreams (view (dbStore d)) (streamName agg))) = Ok evs'"
      "evChain (xEs x) (esZero (xEs x)) evs' hs" "map ieVersion evs' = map int [1..<Suc (length hs)]"
    by (rule holds_decodes[OF assms(2)])
  then have ch: "evChain (xEs x) (esZero (xEs x)) evs hs" "map ieVersion evs = map int [1..<Suc (length hs)]"
    using evs by (simp_all del: upt_Suc)
  note M = storedEvents_maps[OF ch(1), of c agg]
  have len: "length ?all = length hs" by (metis M(1) length_map)
  have ver: "map evVersion ?all = map int [1..<Suc (length hs)]" using M(3) ch(2) by (simp del: upt_Suc)
  have cont: "contiguous evVersion ?all" using ver len by (simp add: contiguous_def)
  have "filter (\<lambda>e. evVersion ev \<le> evVersion e \<and> (evVersion ev = 0 \<or> evVersion e \<le> evVersion ev)) ?all =
      filter (\<lambda>e. evVersion e = int n + 1) ?all"
    using n(3) by (intro filter_cong) auto
  also have "\<dots> = [ev]"
  proof -
    have "?all = take n ?all @ ev # drop (Suc n) ?all"
      using id_take_nth_drop[of n ?all] n(1,2) len by simp
    moreover have "sortedBy evVersion ?all" using contiguous_sortedBy[OF cont] .
    ultimately have "sortedBy evVersion (take n ?all @ ev # drop (Suc n) ?all)" by simp
    then have "\<forall>e \<in> set (take n ?all). evVersion e \<noteq> int n + 1" "\<forall>e \<in> set (drop (Suc n) ?all). evVersion e \<noteq> int n + 1"
      using n(3) by (auto simp: sortedBy_append sortedBy_Cons)
    then have "filter (\<lambda>e. evVersion e = int n + 1) (take n ?all @ ev # drop (Suc n) ?all) = [ev]"
      using n(3) by (auto simp: filter_empty_conv)
    with \<open>?all = take n ?all @ ev # drop (Suc n) ?all\<close> show ?thesis by simp
  qed
  finally have f: "filter (\<lambda>e. evVersion ev \<le> evVersion e \<and> (evVersion ev = 0 \<or> evVersion e \<le> evVersion ev)) ?all = [ev]" .
  have "replay (xEs x) c agg (evVersion ev) (evVersion ev) ?pick (dbStore d) w = (Ok (), ev)" for w
    using replay_spec[OF assms(1,2) rd evs, of "evVersion ev" "evVersion ev" ?pick w] unfolding f by simp
  then show ?thesis
    using rc n(4) by (simp add: answerFromReceipt_def acceptedReceipt_def Let_def)
qed

section \<open>Running a command\<close>

lemma snapshotIfDue_spec:
  assumes "codecOk (esCodec (xEs x))" "i64 (esSchema (xEs x)) = esSchema (xEs x)"
    and "holds (xDb st) agg hs" "hs \<noteq> []" "evAggregateID ev = agg"
    and "evVersion ev = int (length hs)" "evAggregate ev = last hs"
    and "snapshotIfDue x c cmd ev st = (r, st')"
  shows "holds (xDb st') agg hs \<and> onlyCell agg (xDb st) (xDb st') \<and>
    xForgetting st' = xForgetting st \<and> xDisp st' = xDisp st"
proof -
  obtain q d' where s: "esSnapshot (xEs x) c ev (xDb st) = (q, d')" by fastforce
  have "1 \<le> evVersion ev" using assms(4,6) by (cases hs) auto
  moreover have "evAggregate ev = hs ! nat (evVersion ev - 1)"
    using assms(4,6,7) by (cases hs rule: rev_cases) (auto simp: nth_append)
  ultimately have "holds d' agg hs \<and> onlyCell agg (xDb st) d'"
    using esSnapshot_holds[OF assms(1-3,5) _ _ _ s] assms(6) by simp
  then show ?thesis
    using assms(3,8) s by (auto simp: snapshotIfDue_def split: outcome.splits if_splits)
qed

text \<open>The three ways \<open>run\<close> ends without a panic.\<close>

lemma run_cases:
  assumes "run x c i now cmd st = (Ok (ev, w, err), st')"
  obtains (retry) "idempotencyKey cmd \<noteq> ''''" "st' = st"
      "answerFromReceipt x c (idempotencyKey cmd) (dbStore (xDb st)) = Ok (ev, True, err)"
      "w = waitForAnswered x ev err (xDisp st)"
  | (failed) e d' where "writeTx (xEs x) c i now cmd (txHook x (idempotencyKey cmd)) (xDb st) = (Fail e, d')"
      "failedWrite x c (idempotencyKey cmd) e (st\<lparr>xDb := d'\<rparr>) = (Ok (ev, w, err), st')"
  | (committed) d' st1 u where
      "writeTx (xEs x) c i now cmd (txHook x (idempotencyKey cmd)) (xDb st) = (Ok ev, d')"
      "snapshotIfDue x c cmd ev (st\<lparr>xDb := d'\<rparr>) = (Ok u, st1)"
      "xDb st' = xDb st1" "xForgetting st' = xForgetting st1"
  using assms
  by (auto simp: run_def answerRetry_def Let_def split: outcome.splits prod.splits if_splits)

text \<open>
  A command that was accepted, and not answered from a receipt: the history is extended, and
  the receipt and the delivery entry are there with it.
\<close>

lemma committed_spec:
  assumes "codecOk (esCodec (xEs x))" "i64 (esSchema (xEs x)) = esSchema (xEs x)" "timeOk now"
    and "holds (xDb st) (cmdAggregateID cmd) hs" "int (length hs) + 1 < maxInt64" "projSafe"
    and "writeTx (xEs x) c i now cmd (txHook x (idempotencyKey cmd)) (xDb st) = (Ok ev, d')"
    and "snapshotIfDue x c cmd ev (st\<lparr>xDb := d'\<rparr>) = (Ok u, st1)" "xDb st' = xDb st1"
  obtains b where "cmdValidate cmd (currentOf hs) = None" "ev = producedEvent (xEs x) i now cmd hs"
    "encodes (xEs x) ev b" "holds (xDb st') (cmdAggregateID cmd) (hs @ [evAggregate ev])"
    "view (dbStore (xDb st')) = hookEffect (idempotencyKey cmd) ev
       (ctAppend (streamName (cmdAggregateID cmd)) (int (length hs) + 1) b (view (dbStore (xDb st))))"
    "\<And>a. a \<noteq> cmdAggregateID cmd \<Longrightarrow> cell (dbSnaps (xDb st')) a = cell (dbSnaps (xDb st)) a"
proof -
  let ?agg = "cmdAggregateID cmd"
  obtain b where b: "cmdValidate cmd (currentOf hs) = None" "ev = producedEvent (xEs x) i now cmd hs"
    "encodes (xEs x) ev b" "holds d' ?agg (hs @ [evAggregate ev])"
    "view (dbStore d') = hookEffect (idempotencyKey cmd) ev
       (ctAppend (streamName ?agg) (int (length hs) + 1) b (view (dbStore (xDb st))))"
    by (rule commit_spec[OF assms(1-7)])
  have S: "holds (xDb st1) ?agg (hs @ [evAggregate ev])" "onlyCell ?agg d' (xDb st1)"
    using snapshotIfDue_spec[OF assms(1,2) _ _ _ _ _ assms(8), of ?agg "hs @ [evAggregate ev]"] b(2,4)
    by (auto simp: producedEvent_def)
  have "cell (dbSnaps (xDb st')) a = cell (dbSnaps (xDb st)) a" if "a \<noteq> ?agg" for a
    using writeTx_frame(2)[OF assms(1,2,4) txHook_safe[OF assms(6)] assms(7) that] S(2) assms(9) that
    by (simp add: onlyCell_def)
  with that[OF b(1,2,3)] S b(5) assms(9) show thesis by (simp add: onlyCell_def)
qed

lemma no_receipt_committed:
  assumes "codecOk (esCodec (xEs x))" "i64 (esSchema (xEs x)) = esSchema (xEs x)"
    and "holds (xDb st) (cmdAggregateID cmd) hs" "projSafe"
    and none: "idempotencyKey cmd \<noteq> '''' \<Longrightarrow> ctReceipts (view (dbStore (xDb st))) (idempotencyKey cmd) = None"
    and run: "run x c i now cmd st = (Ok (ev, w, None), st')"
  obtains d' st1 u where
      "writeTx (xEs x) c i now cmd (txHook x (idempotencyKey cmd)) (xDb st) = (Ok ev, d')"
      "snapshotIfDue x c cmd ev (st\<lparr>xDb := d'\<rparr>) = (Ok u, st1)"
      "xDb st' = xDb st1" "xForgetting st' = xForgetting st1"
  using run
proof (cases rule: run_cases)
  case retry
  have "sinv (dbStore (xDb st))" using assms(3) by (simp add: holds_def)
  with answer_absent[OF this none retry(3)] retry(1) show thesis by simp
next
  case (failed e d')
  have F: "view (dbStore d') = view (dbStore (xDb st))" "sinv (dbStore d')"
    using writeTx_fails[OF assms(1-3) txHook_safe[OF assms(4)] failed(1)] by (auto simp: holds_def)
  obtain r s1 where wf: "writeFailed x c (idempotencyKey cmd) e (dbStore d') = (r, s1)" by fastforce
  then obtain ev' h err' where r: "r = Ok (ev', h, err')" "err' = None"
    using failed(2) by (auto simp: failedWrite_def Let_def split: outcome.splits if_splits)
  note W = writeFailed_spec[OF F(2) wf[unfolded r(1)]]
  show thesis
    using W answer_absent[OF W(1), of "idempotencyKey cmd" c ev' True err'] none F(1) r(2)
    by (cases h) auto
qed (use that in blast)

section \<open>Retries\<close>

text \<open>
  \<open>answered\<close>: the receipt of command \<open>k\<close> names the event \<open>ev\<close>, and the event is still the
  one at its position of its aggregate's history. Every command keeps this, because streams
  only grow and receipts are never replaced.
\<close>

definition answered :: "string \<Rightarrow> 't event \<Rightarrow> ('s, 'p) db \<Rightarrow> (string \<Rightarrow> 't list) \<Rightarrow> bool" where
  "answered k ev d H \<longleftrightarrow>
     (let agg = evAggregateID ev; st = ctStreams (view (dbStore d)) (streamName agg) in
      ctReceipts (view (dbStore d)) k = Some (acceptedReceipt ev) \<and>
      (\<exists>n. n < length (H agg) \<and> evVersion ev = int n + 1 \<and> encodes (xEs x) ev (map snd st ! n) \<and>
         evAggregate ev = H agg ! n \<and> evPreviousAggregate ev = (esZero (xEs x) # H agg) ! n))"

definition allHold :: "('s, 'p) db \<Rightarrow> (string \<Rightarrow> 't list) \<Rightarrow> bool" where
  "allHold d H \<longleftrightarrow> (\<forall>agg. holds d agg (H agg))"

lemma answered_retry:
  assumes "codecOk (esCodec (xEs x))" "allHold (xDb st) H" "answered k ev (xDb st) H"
    and "isOk (stGetReceipt (esStore (xEs x)) c k (dbStore (xDb st)))"
    and "isOk (stReadFrom (esStore (xEs x)) c (streamName (evAggregateID ev)) 1 (dbStore (xDb st)))"
    and "idempotencyKey cmd = k" "k \<noteq> ''''"
  shows "run x c i now cmd st = (Ok (ev, waitForAnswered x ev None (xDisp st), None), st)"
proof -
  let ?agg = "evAggregateID ev" and ?s = "dbStore (xDb st)"
  have h: "holds (xDb st) ?agg (H ?agg)" using assms(2) by (simp add: allHold_def)
  then have inv: "sinv ?s" by (simp add: holds_def)
  obtain evs where evs: "deserializeEvents (map snd (ctStreams (view ?s) (streamName ?agg))) = Ok evs"
      "evChain (xEs x) (esZero (xEs x)) evs (H ?agg)"
    by (rule holds_decodes[OF h])
  from assms(3) obtain n where n: "ctReceipts (view ?s) k = Some (acceptedReceipt ev)"
      "n < length (H ?agg)" "evVersion ev = int n + 1"
      "encodes (xEs x) ev (map snd (ctStreams (view ?s) (streamName ?agg)) ! n)"
      "evAggregate ev = H ?agg ! n" "evPreviousAggregate ev = (esZero (xEs x) # H ?agg) ! n"
    by (auto simp: answered_def Let_def)
  obtain ro where ro: "stGetReceipt (esStore (xEs x)) c k ?s = Ok ro"
    using assms(4) by (metis isOk.elims(2))
  have "stGetReceipt (esStore (xEs x)) c k ?s = Ok (Some (acceptedReceipt ev))"
    using getReceipt_spec[OF inv ro] n(1) ro by simp
  from answer_accepted[OF assms(1) h this assms(5) evs(1) n(2)
      storedEvents_encodes[OF evs(2,1) n(2,4) refl n(5,6)] n(3)] assms(6,7)
  show ?thesis by (simp add: run_def answerRetry_def Let_def)
qed

lemma holds_length: "holds d agg hs \<Longrightarrow> length (ctStreams (view (dbStore d)) (streamName agg)) = length hs"
  by (auto simp: holds_def represents_def Let_def)

lemma ctAppend_holds:
  assumes "holds d agg hs"
  shows "ctStreams (ctAppend (streamName agg) (int (length hs) + 1) b (view (dbStore d))) (streamName agg) =
    ctStreams (view (dbStore d)) (streamName agg) @ [(int (length hs) + 1, b)]"
proof -
  have "\<forall>e \<in> set (ctStreams (view (dbStore d)) (streamName agg)). fst e < int (length hs) + 1"
    using assms contiguous_bounds[of fst "ctStreams (view (dbStore d)) (streamName agg)"]
    by (fastforce simp: holds_def represents_def Let_def)
  then show ?thesis by (simp add: ctAppend_def insertBy_last)
qed

text \<open>The receipt a command commits answers for it.\<close>

lemma answered_new:
  assumes "holds (xDb st) agg (H agg)" "encodes (xEs x) ev b"
    and "ev = producedEvent (xEs x) i now cmd (H agg)" "cmdAggregateID cmd = agg" "k \<noteq> ''''"
    and "view (dbStore (xDb st')) =
      hookEffect k ev (ctAppend (streamName agg) (int (length (H agg)) + 1) b (view (dbStore (xDb st))))"
  shows "answered k ev (xDb st') (H(agg := H agg @ [evAggregate ev]))"
proof -
  have "map snd (ctStreams (view (dbStore (xDb st'))) (streamName agg)) ! length (H agg) = b"
    using assms(6) ctAppend_holds[OF assms(1), of b] holds_length[OF assms(1)] by (simp add: nth_append)
  moreover have "(esZero (xEs x) # H agg @ [y]) ! length (H agg) = last (esZero (xEs x) # H agg)" for y
    by (cases "H agg" rule: rev_cases) (auto simp: nth_append)
  ultimately show ?thesis
    using assms(2-6) by (auto simp: answered_def Let_def hookEffect_receipts producedEvent_def
        intro!: exI[of _ "length (H agg)"])
qed

section \<open>Every command keeps every history\<close>

lemma writeFailed_store:
  assumes "sinv s" "writeFailed x c k e s = (r, s')"
  shows "sinv s' \<and> (view s' = view s \<or>
    k \<noteq> '''' \<and> ctReceipts (view s) k = None \<and> view s' = ctPutReceipt k (rejectedReceipt e) (view s))"
proof -
  obtain q s1 where rr: "recordRejection x c k e s = (q, s1)" by fastforce
  note R = recordRejection_spec[OF assms(1) rr]
  have "s' = s \<or> s' = s1 \<and> k \<noteq> ''''"
    using assms(2) rr
    by (auto simp: writeFailed_def validationFailed_def Let_def split: outcome.splits if_splits prod.splits)
  then show ?thesis using R assms(1) by (cases "isOk q") auto
qed

text \<open>
  The effect of one command, however it ends: it leaves everything but perhaps a rejection's
  receipt alone, or the current state has validated it and it commits its event.
\<close>

definition commandEffect ::
  "ctx \<Rightarrow> string \<Rightarrow> string \<Rightarrow> 't command \<Rightarrow> 't list \<Rightarrow> ('s, 'p, 't, 'd) exec_state \<Rightarrow> ('s, 'p, 't, 'd) exec_state \<Rightarrow> bool" where
  "commandEffect c i now cmd hs st st' \<longleftrightarrow>
     (let agg = cmdAggregateID cmd; k = idempotencyKey cmd; v = view (dbStore (xDb st)); v' = view (dbStore (xDb st')) in
      xForgetting st' = xForgetting st \<and> (\<forall>a. a \<noteq> agg \<longrightarrow> cell (dbSnaps (xDb st')) a = cell (dbSnaps (xDb st)) a) \<and>
      (holds (xDb st') agg hs \<and> xDisp st' = xDisp st \<and>
         (v' = v \<or> k \<noteq> '''' \<and> ctReceipts v k = None \<and> (\<exists>e. v' = ctPutReceipt k (rejectedReceipt e) v)) \<or>
       (k = '''' \<or> ctReceipts v k = None) \<and>
       cmdValidate cmd (currentOf hs) = None \<and>
       (\<exists>ev b. ev = producedEvent (xEs x) i now cmd hs \<and> encodes (xEs x) ev b \<and>
          holds (xDb st') agg (hs @ [evAggregate ev]) \<and>
          v' = hookEffect k ev (ctAppend (streamName agg) (int (length hs) + 1) b v) \<and>
          enqueuedTo x c ev (xDisp st) (xDisp st'))))"

lemma committed_enqueues:
  assumes "writeTx (xEs x) c i now cmd (txHook x (idempotencyKey cmd)) (xDb st) = (Ok ev, d1)"
    and "snapshotIfDue x c cmd ev (st\<lparr>xDb := d1\<rparr>) = (u, st1)"
    and "run x c i now cmd st = (r, st')" "st' \<noteq> st"
  shows "xDb st' = xDb st1 \<and> xForgetting st' = xForgetting st1 \<and> enqueuedTo x c ev (xDisp st1) (xDisp st')"
  using assms
  by (auto simp: run_def Let_def enqueueEvent_def enqueuedTo_def split: outcome.splits prod.splits if_splits option.splits)

lemma run_commandEffect:
  assumes "codecOk (esCodec (xEs x))" "i64 (esSchema (xEs x)) = esSchema (xEs x)" "timeOk now"
    and "holds (xDb st) (cmdAggregateID cmd) hs" "int (length hs) + 1 < maxInt64" "projSafe"
    and run: "run x c i now cmd st = (r, st')"
  shows "commandEffect c i now cmd hs st st'"
proof -
  let ?agg = "cmdAggregateID cmd" and ?k = "idempotencyKey cmd"
  obtain q d1 where w: "writeTx (xEs x) c i now cmd (txHook x ?k) (xDb st) = (q, d1)" by fastforce
  note hs = txHook_safe[OF assms(6)]
  note F = writeTx_frame[OF assms(1,2,4) hs w]
  have D: "\<not> isOk q \<Longrightarrow> view (dbStore d1) = view (dbStore (xDb st)) \<and> holds d1 ?agg hs"
    using writeTx_fails[OF assms(1,2,4) hs w] by blast
  consider "st' = st" | ev where "st' \<noteq> st" "q = Ok ev"
    | e where "q = Fail e" "failedWrite x c ?k e (st\<lparr>xDb := d1\<rparr>) = (r, st')"
    | p where "q = Panic p" "st' = st\<lparr>xDb := d1\<rparr>"
    using run w by (auto simp: run_def Let_def split: outcome.splits prod.splits if_splits)
  then show ?thesis
  proof cases
    case 1
    with assms(4) show ?thesis by (simp add: commandEffect_def Let_def)
  next
    case (2 ev)
    obtain u st1 where s: "snapshotIfDue x c cmd ev (st\<lparr>xDb := d1\<rparr>) = (u, st1)" by fastforce
    note R = committed_enqueues[OF w[unfolded 2(2)] s run 2(1)]
    obtain b where b: "ev = producedEvent (xEs x) i now cmd hs" "encodes (xEs x) ev b" "holds d1 ?agg (hs @ [evAggregate ev])"
      "view (dbStore d1) = hookEffect ?k ev (ctAppend (streamName ?agg) (int (length hs) + 1) b (view (dbStore (xDb st))))"
      "?k \<noteq> '''' \<longrightarrow> ctReceipts (view (dbStore (xDb st))) ?k = None" "cmdValidate cmd (currentOf hs) = None"
      by (rule commit_spec[OF assms(1-6) w[unfolded 2(2)]]) blast
    have S: "holds (xDb st1) ?agg (hs @ [evAggregate ev]) \<and> onlyCell ?agg d1 (xDb st1) \<and>
        xForgetting st1 = xForgetting st \<and> xDisp st1 = xDisp st"
      using snapshotIfDue_spec[OF assms(1,2) _ _ _ _ _ s, of ?agg "hs @ [evAggregate ev]"] b(1,3)
      by (auto simp: producedEvent_def)
    have v: "view (dbStore (xDb st')) = hookEffect ?k ev (ctAppend (streamName ?agg) (int (length hs) + 1) b (view (dbStore (xDb st))))"
      using R S b(4) by (simp add: onlyCell_def)
    show ?thesis
      unfolding commandEffect_def Let_def
      using R S F(2) v b(1,2,5,6) by (auto simp: onlyCell_def)
  next
    case (3 e)
    obtain q2 s' where wf: "writeFailed x c ?k e (dbStore d1) = (q2, s')" by fastforce
    have st': "xDb st' = d1\<lparr>dbStore := s'\<rparr>" "xForgetting st' = xForgetting st" "xDisp st' = xDisp st"
      using 3(2) wf by (auto simp: failedWrite_def Let_def split: outcome.splits if_splits)
    have s': "sinv s' \<and> (view s' = view (dbStore (xDb st)) \<or> ?k \<noteq> '''' \<and>
        ctReceipts (view (dbStore (xDb st))) ?k = None \<and> view s' = ctPutReceipt ?k (rejectedReceipt e) (view (dbStore (xDb st))))"
      using writeFailed_store[OF _ wf] D 3(1) by (auto simp: holds_def)
    then have "holds (xDb st') ?agg hs" using D 3(1) st'(1) by (auto simp: holds_def represents_def ctPutReceipt_def)
    then show ?thesis using s' st' F(2) by (auto simp: commandEffect_def Let_def)
  next
    case (4 p)
    then show ?thesis using D F(2) by (simp add: commandEffect_def Let_def)
  qed
qed

text \<open>
  The same without the dispatcher: the effect on the history of its aggregate, on receipts, and
  on nothing else.
\<close>

definition runEffect ::
  "string \<Rightarrow> string \<Rightarrow> ('s, 'p) db \<Rightarrow> ('s, 'p) db \<Rightarrow> 't list \<Rightarrow> 't list \<Rightarrow> bool" where
  "runEffect agg k d d' hs hs' \<longleftrightarrow>
     holds d' agg hs' \<and> (\<forall>a. a \<noteq> agg \<longrightarrow> cell (dbSnaps d') a = cell (dbSnaps d) a) \<and>
     (hs' = hs \<and> view (dbStore d') = view (dbStore d) \<or>
      hs' = hs \<and> k \<noteq> '''' \<and> ctReceipts (view (dbStore d)) k = None \<and>
        (\<exists>e. view (dbStore d') = ctPutReceipt k (rejectedReceipt e) (view (dbStore d))) \<or>
      (k = '''' \<or> ctReceipts (view (dbStore d)) k = None) \<and>
        (\<exists>ev b. hs' = hs @ [evAggregate ev] \<and> view (dbStore d') =
           hookEffect k ev (ctAppend (streamName agg) (int (length hs) + 1) b (view (dbStore d)))))"

lemma run_effect:
  assumes "codecOk (esCodec (xEs x))" "i64 (esSchema (xEs x)) = esSchema (xEs x)" "timeOk now"
    and "holds (xDb st) (cmdAggregateID cmd) hs" "int (length hs) + 1 < maxInt64" "projSafe"
    and "run x c i now cmd st = (r, st')"
  shows "xForgetting st' = xForgetting st \<and>
    (\<exists>hs'. runEffect (cmdAggregateID cmd) (idempotencyKey cmd) (xDb st) (xDb st') hs hs' \<and>
       (hs' = hs \<or> cmdValidate cmd (currentOf hs) = None \<and> hs' = hs @ [cmdEmitEvent cmd (currentOf hs)]))"
proof -
  have "evAggregate (producedEvent (xEs x) i now cmd hs) = cmdEmitEvent cmd (currentOf hs)"
    by (simp add: producedEvent_def)
  with run_commandEffect[OF assms] show ?thesis unfolding commandEffect_def runEffect_def Let_def by metis
qed

lemma executeAsync_commandEffect:
  assumes "codecOk (esCodec (xEs x))" "i64 (esSchema (xEs x)) = esSchema (xEs x)" "timeOk now"
    and "holds (xDb st) (cmdAggregateID cmd) hs" "int (length hs) + 1 < maxInt64" "projSafe"
    and "executeAsync x lk c i now cmd st = (r, st')"
  shows "commandEffect c i now cmd hs st st'"
proof (cases "st' = st")
  case True
  with assms(4) show ?thesis by (simp add: commandEffect_def Let_def)
next
  case False
  then have "run x c i now cmd st = (r, st')"
    using assms(7) by (auto simp: executeAsync_def split: option.splits if_splits)
  with run_commandEffect[OF assms(1-6)] show ?thesis by blast
qed

lemma runEffect_allHold:
  assumes "allHold d H" "runEffect agg k d d' (H agg) hs'"
  shows "allHold d' (H(agg := hs'))"
  unfolding allHold_def
proof
  fix a
  have h: "holds d a (H a)" "holds d' agg hs'" using assms by (auto simp: allHold_def runEffect_def)
  show "holds d' a ((H(agg := hs')) a)"
  proof (cases "a = agg")
    case False
    have "ctStreams (view (dbStore d')) (streamName a) = ctStreams (view (dbStore d)) (streamName a)"
      using assms(2) False by (auto simp: runEffect_def ctPutReceipt_def ctAppend_def)
    moreover have "cell (dbSnaps d') a = cell (dbSnaps d) a" using assms(2) False by (simp add: runEffect_def)
    ultimately show ?thesis using h False
        represents_other[of "view (dbStore d')" a "view (dbStore d)" "cell (dbSnaps d')" "cell (dbSnaps d)" "xEs x" "H a"]
      by (simp add: holds_def)
  qed (use h in simp)
qed

lemma runEffect_receipts:
  assumes "runEffect agg k d d' hs hs'" "ctReceipts (view (dbStore d)) k2 = Some rc"
  shows "ctReceipts (view (dbStore d')) k2 = Some rc"
  using assms by (auto simp: runEffect_def ctPutReceipt_def hookEffect_receipts ctAppend_def)

lemma runEffect_answered:
  assumes "allHold d H" "runEffect agg k d d' (H agg) hs'" "answered k2 ev d H"
  shows "answered k2 ev d' (H(agg := hs'))"
proof -
  let ?a = "evAggregateID ev"
  have rc: "ctReceipts (view (dbStore d')) k2 = Some (acceptedReceipt ev)"
    using runEffect_receipts[OF assms(2)] assms(3) by (simp add: answered_def Let_def)
  have h: "holds d a (H a)" for a using assms(1) by (simp add: allHold_def)
  have s: "\<exists>tl. ctStreams (view (dbStore d')) (streamName ?a) = ctStreams (view (dbStore d)) (streamName ?a) @ tl"
    using assms(2) ctAppend_holds[OF h, of agg]
    by (cases "?a = agg") (auto simp: runEffect_def ctPutReceipt_def ctAppend_def)
  have p: "\<exists>tl. (H(agg := hs')) ?a = H ?a @ tl"
    using assms(2) by (cases "?a = agg") (auto simp: runEffect_def)
  obtain n where n: "n < length (H ?a)" "evVersion ev = int n + 1"
      "encodes (xEs x) ev (map snd (ctStreams (view (dbStore d)) (streamName ?a)) ! n)"
      "evAggregate ev = H ?a ! n" "evPreviousAggregate ev = (esZero (xEs x) # H ?a) ! n"
    using assms(3) by (auto simp: answered_def Let_def)
  from s p obtain tl tl2 where t: "ctStreams (view (dbStore d')) (streamName ?a) = ctStreams (view (dbStore d)) (streamName ?a) @ tl"
    "(H(agg := hs')) ?a = H ?a @ tl2" by blast
  have "(esZero (xEs x) # H ?a @ tl2) ! n = (esZero (xEs x) # H ?a) ! n"
    using n(1) by (cases n) (auto simp: nth_append)
  then show ?thesis
    unfolding answered_def Let_def t using n rc holds_length[OF h, of ?a]
    by (intro conjI exI[of _ n]) (auto simp: nth_append)
qed

text \<open>
  A sequence of commands: every history is kept or grows at its end, receipts stay, answers
  stay, and the aggregates behind the fence do not move.
\<close>

definition grows :: "('s, 'p, 't, 'd) exec_state \<Rightarrow> ('s, 'p, 't, 'd) exec_state \<Rightarrow> (string \<Rightarrow> 't list) \<Rightarrow> (string \<Rightarrow> 't list) \<Rightarrow> bool" where
  "grows st st' H H' \<longleftrightarrow> allHold (xDb st') H' \<and> xForgetting st' = xForgetting st \<and>
     (\<forall>a. \<exists>tl. H' a = H a @ tl) \<and> (\<forall>a \<in> xForgetting st. H' a = H a) \<and>
     (\<forall>k rc. ctReceipts (view (dbStore (xDb st))) k = Some rc \<longrightarrow>
        ctReceipts (view (dbStore (xDb st'))) k = Some rc) \<and>
     (\<forall>k ev. answered k ev (xDb st) H \<longrightarrow> answered k ev (xDb st') H')"

lemma grows_refl: "allHold (xDb st) H \<Longrightarrow> grows st st H H"
  by (simp add: grows_def)

lemma grows_trans: "grows st st' H H' \<Longrightarrow> grows st' st'' H' H'' \<Longrightarrow> grows st st'' H H''"
  unfolding grows_def by (metis append_assoc)

lemma executeAsync_grows:
  assumes "codecOk (esCodec (xEs x))" "i64 (esSchema (xEs x)) = esSchema (xEs x)" "timeOk now" "projSafe"
    and "allHold (xDb st) H" "\<forall>a. int (length (H a)) + 1 < maxInt64"
    and "executeAsync x lk c i now cmd st = (r, st')"
  obtains H' where "grows st st' H H'"
    "H' = H \<or> cmdValidate cmd (currentOf (H (cmdAggregateID cmd))) = None \<and>
      H' = H(cmdAggregateID cmd := H (cmdAggregateID cmd) @ [cmdEmitEvent cmd (currentOf (H (cmdAggregateID cmd)))])"
proof (cases "st' = st")
  case True
  with that[of H] grows_refl[OF assms(5)] show thesis by simp
next
  case False
  let ?agg = "cmdAggregateID cmd"
  have run: "run x c i now cmd st = (r, st')" "?agg \<notin> xForgetting st"
    using assms(7) False by (auto simp: executeAsync_def split: option.splits if_splits)
  have h: "holds (xDb st) ?agg (H ?agg)" using assms(5) by (simp add: allHold_def)
  obtain hs' where f: "xForgetting st' = xForgetting st"
    and e: "runEffect ?agg (idempotencyKey cmd) (xDb st) (xDb st') (H ?agg) hs'"
    and v: "hs' = H ?agg \<or> cmdValidate cmd (currentOf (H ?agg)) = None \<and> hs' = H ?agg @ [cmdEmitEvent cmd (currentOf (H ?agg))]"
    using run_effect[OF assms(1-3) h _ assms(4) run(1)] assms(6) by blast
  have "\<exists>tl. hs' = H ?agg @ tl" using v by auto
  with f run(2) runEffect_allHold[OF assms(5) e] runEffect_receipts[OF e] runEffect_answered[OF assms(5) e]
  have "grows st st' H (H(?agg := hs'))" by (auto simp: grows_def)
  then show thesis by (rule that) (use v in auto)
qed

text \<open>Whatever commands keep of their aggregates' histories holds after any sequence of them.\<close>

lemma executeAll_domain:
  assumes "codecOk (esCodec (xEs x))" "i64 (esSchema (xEs x)) = esSchema (xEs x)" "projSafe"
    and "\<forall>cl \<in> set cls. timeOk (clNow cl)" "allHold (xDb st) H"
    and "\<forall>a. int (length (H a) + length cls) + 1 < maxInt64"
    and "\<forall>cl \<in> set cls. keepsDomain Q (clCmd cl)" "\<forall>a. Q a (H a)"
  shows "\<exists>H'. grows st (executeAll x cls st) H H' \<and> (\<forall>a. Q a (H' a)) \<and> (\<forall>a. length (H' a) \<le> length (H a) + length cls)"
  using assms(4-8)
proof (induction cls arbitrary: st H)
  case Nil
  with grows_refl show ?case by auto
next
  case (Cons cl cls)
  let ?agg = "cmdAggregateID (clCmd cl)"
  obtain r st1 where e: "executeAsync x (clLock cl) (clCtx cl) (clNewID cl) (clNow cl) (clCmd cl) st = (r, st1)"
    by fastforce
  have "int (length (H a)) + 1 < maxInt64" for a using Cons.prems(3)[rule_format, of a] by simp
  then obtain H1 where H1: "grows st st1 H H1"
    "H1 = H \<or> cmdValidate (clCmd cl) (currentOf (H ?agg)) = None \<and>
      H1 = H(?agg := H ?agg @ [cmdEmitEvent (clCmd cl) (currentOf (H ?agg))])"
    using executeAsync_grows[OF assms(1,2) _ assms(3) Cons.prems(2) _ e] Cons.prems(1) by auto
  have le: "length (H1 a) \<le> Suc (length (H a))" and q: "Q a (H1 a)" for a
    using H1(2) Cons.prems(4,5) by (auto simp: keepsDomain_def)
  have "int (length (H1 a) + length cls) + 1 < maxInt64" for a
    using le[of a] Cons.prems(3)[rule_format, of a] by simp
  then obtain H' where H': "grows st1 (executeAll x cls st1) H1 H'" "\<forall>a. Q a (H' a)"
    "\<forall>a. length (H' a) \<le> length (H1 a) + length cls"
    using Cons.IH[of st1 H1] Cons.prems(1,4) H1(1) q by (auto simp: grows_def)
  have "length (H' a) \<le> Suc (length (H a) + length cls)" for a using le[of a] H'(3)[rule_format, of a] by simp
  with grows_trans[OF H1(1) H'(1)] H'(2) e show ?case by auto
qed

lemma executeAll_grows:
  assumes "codecOk (esCodec (xEs x))" "i64 (esSchema (xEs x)) = esSchema (xEs x)" "projSafe"
    and "\<forall>cl \<in> set cls. timeOk (clNow cl)" "allHold (xDb st) H"
    and "\<forall>a. int (length (H a) + length cls) + 1 < maxInt64"
  shows "\<exists>H'. grows st (executeAll x cls st) H H' \<and> (\<forall>a. length (H' a) \<le> length (H a) + length cls)"
  using executeAll_domain[OF assms, of "\<lambda>_ _. True"] by (simp add: keepsDomain_def)

section \<open>Forget\<close>

lemma tombstone_safe: "projSafe \<Longrightarrow> hookSafe (Some (tombstoneHook x))"
  unfolding hookSafe_def tombstoneHook_def supersedeDeliveriesIfLogged_def supersedeDeliveries_def
  by (auto intro!: txSafe_then sync_safe txSafe_ops(3,5))

text \<open>The tombstone supersedes: of its aggregate's deliveries only its own is left.\<close>

definition tombstoneEffect :: "'t event \<Rightarrow> contents \<Rightarrow> contents" where
  "tombstoneEffect ev a =
     (if xDurableMatch x \<noteq> None \<and> xDispatcher x \<noteq> None
      then ctEnqueueDelivery (evAggregateID ev) (evVersion ev) (ctDropDeliveries (evAggregateID ev) a) else a)"

lemma tombstone_ran:
  assumes "projSafe" "tinv t" "hookRan (Some (tombstoneHook x)) c ev t t'"
  shows "tview t' = tombstoneEffect ev (tview t)"
proof -
  obtain t1 where s: "supersedeDeliveriesIfLogged x c ev t = (Ok (), t1)" "runSyncProjections x c ev t1 = (Ok (), t')"
    using assms(3) by (auto simp: hookRan_def tombstoneHook_def thenTx_def split: outcome.splits prod.splits)
  have t1: "tinv t1 \<and> tview t1 = tombstoneEffect ev (tview t)"
  proof (cases "xDurableMatch x \<noteq> None \<and> xDispatcher x \<noteq> None")
    case True
    then obtain t2 where d: "txDropDeliveries (esStore (xEs x)) c (evAggregateID ev) t = (Ok (), t2)"
        "txEnqueueDelivery (esStore (xEs x)) c (evAggregateID ev) (evVersion ev) t2 = (Ok (), t1)"
      using s(1) by (auto simp: supersedeDeliveriesIfLogged_def supersedeDeliveries_def thenTx_def
          split: outcome.splits prod.splits)
    with dropDeliveries_spec[OF assms(2) d(1)] enqueueDelivery_spec[OF _ d(2)] True
    show ?thesis by (auto simp: tombstoneEffect_def)
  next
    case False
    with s(1) assms(2) show ?thesis
      by (auto simp: supersedeDeliveriesIfLogged_def tombstoneEffect_def)
  qed
  with sync_spec[OF assms(1) _ s(2)] show ?thesis by simp
qed

text \<open>However the first half of \<open>Forget\<close> ends, it has written nothing or exactly the tombstone.\<close>

lemma tombstone_any:
  assumes "codecOk (esCodec (xEs x))" "i64 (esSchema (xEs x)) = esSchema (xEs x)" "timeOk now"
    and "holds (xDb st) agg hs" "int (length hs) + 1 < maxInt64" "projSafe"
    and "commitTombstone x c i now agg st = (r, st')"
  defines "v \<equiv> view (dbStore (xDb st))" and "v' \<equiv> view (dbStore (xDb st'))"
    and "cmd \<equiv> forgetCommand (esZero (xEs x)) agg"
  shows "\<forall>a. a \<noteq> agg \<longrightarrow> cell (dbSnaps (xDb st')) a = cell (dbSnaps (xDb st)) a"
    and "holds (xDb st') agg hs \<and> v' = v \<or>
      (\<exists>ev b. ev = producedEvent (xEs x) i now cmd hs \<and> encodes (xEs x) ev b \<and>
        holds (xDb st') agg (hs @ [evAggregate ev]) \<and>
        v' = tombstoneEffect ev (ctAppend (streamName agg) (int (length hs) + 1) b v))"
proof -
  have agg: "cmdAggregateID cmd = agg" by (simp add: cmd_def forgetCommand_def)
  obtain q d1 where w: "writeTx (xEs x) c i now cmd (Some (tombstoneHook x)) (xDb st) = (q, d1)" by fastforce
  have st': "xDb st' = d1"
    using assms(7) w by (auto simp: commitTombstone_def cmd_def split: outcome.splits prod.splits option.splits)
  note hk = tombstone_safe[OF assms(6)] and hd = assms(4)[folded agg]
  note F = writeTx_frame[OF assms(1,2) hd hk w]
  show "\<forall>a. a \<noteq> agg \<longrightarrow> cell (dbSnaps (xDb st')) a = cell (dbSnaps (xDb st)) a" using F(2) st' agg by simp
  show "holds (xDb st') agg hs \<and> v' = v \<or>
      (\<exists>ev b. ev = producedEvent (xEs x) i now cmd hs \<and> encodes (xEs x) ev b \<and>
        holds (xDb st') agg (hs @ [evAggregate ev]) \<and>
        v' = tombstoneEffect ev (ctAppend (streamName agg) (int (length hs) + 1) b v))"
  proof (cases q)
    case (Ok ev)
    obtain t t' b where h: "ev = producedEvent (xEs x) i now cmd hs" "encodes (xEs x) ev b"
      "tview t = ctAppend (streamName agg) (int (length hs) + 1) b v"
      "represents (xEs x) (tview t) (cell (dbSnaps d1)) agg (hs @ [evAggregate ev])"
      "tinv t" "hookRan (Some (tombstoneHook x)) c ev t t'" "view (dbStore d1) = tview t'"
      by (rule writeTx_succeeds[OF assms(1-3) hd assms(5) hk w[unfolded Ok]]) (simp add: agg v_def)
    have v: "v' = tombstoneEffect ev (tview t)" using tombstone_ran[OF assms(6) h(5,6)] h(7) st' by (simp add: v'_def)
    have "ctStreams (tombstoneEffect ev a) = ctStreams a" for a by (simp add: tombstoneEffect_def contents_defs)
    then have "holds (xDb st') agg (hs @ [evAggregate ev])"
      using h(4) v F(1) st' by (simp add: holds_def represents_def v'_def)
    then show ?thesis using h(1-3) v by auto
  qed (use writeTx_fails[OF assms(1,2) hd hk w] st' agg in \<open>auto simp: v_def v'_def\<close>)
qed

text \<open>And the dispatcher has seen nothing of it, or its enqueue after the supersession.\<close>

lemma tombstone_enqueued:
  assumes "codecOk (esCodec (xEs x))" "i64 (esSchema (xEs x)) = esSchema (xEs x)" "timeOk now"
    and "holds (xDb st) agg hs" "int (length hs) + 1 < maxInt64" "projSafe"
    and "commitTombstone x c i now agg st = (r, st')"
  shows "xForgetting st' = xForgetting st"
    and "tombstoneTo x c agg (xDisp st) (xDisp st')"
proof -
  let ?cmd = "forgetCommand (esZero (xEs x)) agg"
  have agg: "cmdAggregateID ?cmd = agg" by (simp add: forgetCommand_def)
  have hd: "holds (xDb st) (cmdAggregateID ?cmd) hs" using assms(4) agg by simp
  note hk = tombstone_safe[OF assms(6)]
  have ev: "evAggregateID ev = agg" if "writeTx (xEs x) c i now ?cmd (Some (tombstoneHook x)) (xDb st) = (Ok ev, d1)" for ev d1
    by (rule writeTx_succeeds[OF assms(1-3) hd assms(5) hk that]) (simp add: producedEvent_def agg)
  show "xForgetting st' = xForgetting st" "tombstoneTo x c agg (xDisp st) (xDisp st')"
    using assms(7) ev by (auto simp: commitTombstone_def tombstoneTo_def split: outcome.splits prod.splits option.splits) (metis snd_conv)+
qed

lemma tombstone_written:
  assumes "codecOk (esCodec (xEs x))" "i64 (esSchema (xEs x)) = esSchema (xEs x)" "timeOk now"
    and "holds d agg hs" "int (length hs) + 1 < maxInt64" "projSafe"
    and w: "writeTx (xEs x) c i now (forgetCommand (esZero (xEs x)) agg) (Some (tombstoneHook x)) d = (Ok ev, d')"
  obtains b where "hs \<noteq> []" "ev = producedEvent (xEs x) i now (forgetCommand (esZero (xEs x)) agg) hs"
    "holds d' agg (hs @ [last hs])"
    "view (dbStore d') = tombstoneEffect ev (ctAppend (streamName agg) (int (length hs) + 1) b (view (dbStore d)))"
    "\<And>a. a \<noteq> agg \<Longrightarrow> cell (dbSnaps d') a = cell (dbSnaps d) a"
proof -
  let ?cmd = "forgetCommand (esZero (xEs x)) agg"
  have agg: "cmdAggregateID ?cmd = agg" by (simp add: forgetCommand_def)
  have hd: "holds d (cmdAggregateID ?cmd) hs" using assms(4) agg by simp
  note safe = tombstone_safe[OF assms(6)]
  obtain t t' b where h: "cmdValidate ?cmd (currentOf hs) = None" "ev = producedEvent (xEs x) i now ?cmd hs"
    "tview t = ctAppend (streamName agg) (int (length hs) + 1) b (view (dbStore d))"
    "represents (xEs x) (tview t) (cell (dbSnaps d')) agg (hs @ [evAggregate ev])"
    "tinv t" "hookRan (Some (tombstoneHook x)) c ev t t'" "view (dbStore d') = tview t'"
    by (rule writeTx_succeeds[OF assms(1-3) hd assms(5) safe w]) (simp add: agg)
  have ne: "hs \<noteq> []" using h(1) by (auto simp: forgetCommand_def currentOf_def)
  have agev: "evAggregate ev = last hs" using h(2) ne by (simp add: producedEvent_def forgetCommand_def currentOf_def)
  have v: "view (dbStore d') = tombstoneEffect ev (tview t)" using tombstone_ran[OF assms(6) h(5,6)] h(7) by simp
  have "ctStreams (tombstoneEffect ev a) = ctStreams a" for a by (simp add: tombstoneEffect_def contents_defs)
  then have "holds d' agg (hs @ [last hs])"
    using h(4) v agev writeTx_frame(1)[OF assms(1,2) hd safe w] by (simp add: holds_def represents_def)
  with that[OF ne h(2)] h(3) v writeTx_frame(2)[OF assms(1,2) hd safe w] agg show thesis by simp
qed

text \<open>A tombstone whose write failed has written nothing.\<close>

lemma tombstone_unwritten:
  assumes "codecOk (esCodec (xEs x))" "i64 (esSchema (xEs x)) = esSchema (xEs x)" "allHold d H" "projSafe"
    and "writeTx (xEs x) c i now (forgetCommand (esZero (xEs x)) agg) (Some (tombstoneHook x)) d = (r, d')" "\<not> isOk r"
  shows "view (dbStore d') = view (dbStore d) \<and> allHold d' H"
proof -
  let ?cmd = "forgetCommand (esZero (xEs x)) agg"
  have agg: "cmdAggregateID ?cmd = agg" by (simp add: forgetCommand_def)
  have hd: "holds d (cmdAggregateID ?cmd) (H agg)" using assms(3) agg by (simp add: allHold_def)
  note safe = tombstone_safe[OF assms(4)]
  note F = writeTx_frame[OF assms(1,2) hd safe assms(5)] and N = writeTx_fails[OF assms(1,2) hd safe assms(5,6)]
  have "holds d' a (H a)" for a
    using F N agg assms(3) by (cases "a = agg") (auto simp: allHold_def holds_def represents_def)
  then show ?thesis using N by (simp add: allHold_def)
qed

text \<open>
  The erase. On success nothing of the aggregate is left in the stream, the snapshot cell or
  the delivery log, and the fence is lifted; on failure the stream still holds its history.
\<close>

lemma erase_spec:
  assumes "allHold (xDb st) H" "erase x lk c agg st = (r, st')"
  shows "isOk r \<Longrightarrow> allHold (xDb st') (H(agg := []))"
    and "isOk r \<Longrightarrow> cell (dbSnaps (xDb st')) agg = None"
    and "isOk r \<Longrightarrow> ctDeliveries (view (dbStore (xDb st'))) =
      filter (\<lambda>d. dAggregateID d \<noteq> agg) (ctDeliveries (view (dbStore (xDb st))))"
    and "isOk r \<Longrightarrow> xForgetting st' = xForgetting st - {agg}"
    and "\<not> isOk r \<Longrightarrow> allHold (xDb st') H \<and> view (dbStore (xDb st')) = view (dbStore (xDb st))"
    and "ctReceipts (view (dbStore (xDb st'))) = ctReceipts (view (dbStore (xDb st)))"
    and "a \<noteq> agg \<Longrightarrow> ctStreams (view (dbStore (xDb st'))) (streamName a) = ctStreams (view (dbStore (xDb st))) (streamName a)"
    and "xDisp st' = xDisp st \<and> xForgetting st' \<subseteq> xForgetting st"
proof -
  let ?body = "thenTx (txDeleteStream (esStore (xEs x)) c (streamName agg)) (\<lambda>_. txDropDeliveries (esStore (xEs x)) c agg)"
  let ?v = "view (dbStore (xDb st))"
  have inv: "sinv (dbStore (xDb st))" using assms(1) by (simp add: allHold_def holds_def)
  have safe: "txSafe ?body" by (intro txSafe_then txSafe_ops(2,3))
  obtain q p where dl: "snDelete (esSnaps (xEs x)) c agg (dbSnaps (xDb st)) = (q, p)" by fastforce
  obtain q2 s where at: "atomically (esStore (xEs x)) c ?body (dbStore (xDb st)) = (q2, s)" by fastforce
  have s: "sinv s" "\<not> isOk q2 \<Longrightarrow> view s = ?v"
    using atomically_sinv[OF inv safe at] atomically_not_Ok[OF inv safe at] by auto
  have s2: "view s = ctDropDeliveries agg (ctDeleteStream (streamName agg) ?v)" if q2: "isOk q2"
  proof -
    from q2 obtain u where u: "q2 = Ok u" by (cases q2) auto
    obtain t t' where t: "tinv t" "tview t = ?v" "?body t = (Ok u, t')" "view s = tview t'"
      using atomically_Ok[OF inv safe at[unfolded u]] by metis
    then obtain w t1 where t1: "txDeleteStream (esStore (xEs x)) c (streamName agg) t = (Ok w, t1)"
        "txDropDeliveries (esStore (xEs x)) c agg t1 = (Ok u, t')"
      by (auto simp: thenTx_def split: outcome.splits prod.splits)
    show ?thesis
      using deleteStream_spec[OF t(1) t1(1)] dropDeliveries_spec[OF _ t1(2)] t(2,4) by auto
  qed
  have cl: "cell p = (if isOk q then (cell (dbSnaps (xDb st)))(agg := None) else cell (dbSnaps (xDb st)))"
    using delete_spec[OF dl] .
  have cases: "(st' = st \<or> st' = st\<lparr>xDb := (xDb st)\<lparr>dbSnaps := p\<rparr>\<rparr> \<or>
      st' = st\<lparr>xDb := (xDb st)\<lparr>dbSnaps := p, dbStore := s\<rparr>\<rparr> \<and> \<not> isOk q2) \<and> \<not> isOk r \<or>
     isOk r \<and> isOk q \<and> isOk q2 \<and>
      st' = st\<lparr>xDb := (xDb st)\<lparr>dbSnaps := p, dbStore := s\<rparr>, xForgetting := xForgetting st - {agg}\<rparr>"
    using assms(2) dl at[unfolded streamName_def]
    by (auto simp: erase_def deleteSnapshot_def split: outcome.splits option.splits prod.splits)
  show "isOk r \<Longrightarrow> allHold (xDb st') (H(agg := []))"
    using cases s(1) s2 cl assms(1)
    by (auto simp: allHold_def holds_def represents_def contents_defs snapshotOk_def maxInt64_def)
  show "\<not> isOk r \<Longrightarrow> allHold (xDb st') H \<and> view (dbStore (xDb st')) = ?v"
    using cases s cl assms(1)
    by (auto simp: allHold_def holds_def represents_def snapshotOk_def)
  show "isOk r \<Longrightarrow> cell (dbSnaps (xDb st')) agg = None"
    "isOk r \<Longrightarrow> ctDeliveries (view (dbStore (xDb st'))) = filter (\<lambda>d. dAggregateID d \<noteq> agg) (ctDeliveries ?v)"
    "isOk r \<Longrightarrow> xForgetting st' = xForgetting st - {agg}"
    using cases s2 cl by (auto simp: contents_defs)
  show "ctReceipts (view (dbStore (xDb st'))) = ctReceipts ?v"
    using cases s2 s(2) by (auto simp: contents_defs)
  show "a \<noteq> agg \<Longrightarrow> ctStreams (view (dbStore (xDb st'))) (streamName a) = ctStreams ?v (streamName a)"
    using cases s2 s(2) by (auto simp: contents_defs)
  show "xDisp st' = xDisp st \<and> xForgetting st' \<subseteq> xForgetting st"
    using cases by auto
qed

end

section \<open>On the in-memory stores\<close>

text \<open>A configured executor with the in-memory stores as its backend.\<close>

definition withMemory ::
  "(memory_tx, memory, snapshot_memory, 't, 'd) executor \<Rightarrow> (memory_tx, memory, snapshot_memory, 't, 'd) executor" where
  "withMemory x = x\<lparr>xEs := (xEs x)\<lparr>esStore := memoryStore, esSnaps := snapshotMemory\<rparr>\<rparr>"

lemma withMemory_simps [simp]:
  "esStore (xEs (withMemory x)) = memoryStore"
  "esSnaps (xEs (withMemory x)) = snapshotMemory"
  "esCodec (xEs (withMemory x)) = esCodec (xEs x)"
  "esUpcasters (xEs (withMemory x)) = esUpcasters (xEs x)"
  "esSchema (xEs (withMemory x)) = esSchema (xEs x)"
  "esZero (xEs (withMemory x)) = esZero (xEs x)"
  "xDispatcher (withMemory x) = xDispatcher x"
  "xSyncs (withMemory x) = xSyncs x"
  "xDurableMatch (withMemory x) = xDurableMatch x"
  "isDurable (withMemory x) n = isDurable x n"
  by (simp_all add: withMemory_def isDurable_def split: option.split)

interpretation mex: executor_on "withMemory x"
  memView memTxView memTxBase memInv memTxInv smSnaps
  for x
  by (simp add: executor_on_def event_store_on_def mem.store_contract_axioms snap.snapshot_contract_axioms)

end
