(* ===== verification/Exec_Properties.thy ===== *)
theory Exec_Properties
  imports Exec_Correct Event_Store_Properties
begin

text \<open>
  The properties of the command executor on the in-memory stores: atomic commits, retries
  answered from their receipts, rejections that stay, and the erasure of an aggregate.
\<close>

section \<open>Vocabulary\<close>

text \<open>Every aggregate's history; \<open>H agg = []\<close> for one that does not exist.\<close>

definition histories ::
  "(memory_tx, memory, snapshot_memory, 't, 'd) executor \<Rightarrow> (memory, snapshot_memory, 't, 'd) exec_state
     \<Rightarrow> (string \<Rightarrow> 't list) \<Rightarrow> bool" where
  "histories x st H \<longleftrightarrow> (\<forall>agg. dbHolds (xEs x) (xDb st) agg (H agg))"

text \<open>The projections write tables of their own: they leave the store's contents alone.\<close>

definition projectionsSafe :: "(memory_tx, memory, snapshot_memory, 't, 'd) executor \<Rightarrow> bool" where
  "projectionsSafe x \<longleftrightarrow> (\<forall>p \<in> set (xSyncs x). \<forall>c ev t. memTxInv t \<longrightarrow>
     memTxInv (snd (spFn p c ev t)) \<and> memTxBase (snd (spFn p c ev t)) = memTxBase t \<and>
     memTxView (snd (spFn p c ev t)) = memTxView t)"

text \<open>A configuration the properties are about: a codec that keeps its laws, an \<open>int64\<close>
  schema version, safe projections.\<close>

definition configured :: "(memory_tx, memory, snapshot_memory, 't, 'd) executor \<Rightarrow> bool" where
  "configured x \<longleftrightarrow> codecOk (esCodec (xEs x)) \<and> i64 (esSchema (xEs x)) = esSchema (xEs x) \<and> projectionsSafe x"

definition roomFor :: "nat \<Rightarrow> (string \<Rightarrow> 't list) \<Rightarrow> bool" where
  "roomFor n H \<longleftrightarrow> (\<forall>agg. int (length (H agg) + n) + 1 < maxInt64)"

lemma roomFor_less: "roomFor n H \<Longrightarrow> m \<le> n \<Longrightarrow> roomFor m H"
  unfolding roomFor_def
proof
  fix agg
  assume "\<forall>agg. int (length (H agg) + n) + 1 < maxInt64" "m \<le> n"
  then have "int (length (H agg) + n) + 1 < maxInt64" "int m \<le> int n" by (auto simp del: of_nat_add)
  then show "int (length (H agg) + m) + 1 < maxInt64" by simp
qed

lemma roomFor_grow: "roomFor (Suc n) H \<Longrightarrow> roomFor n (H(a := H a @ [y]))"
  unfolding roomFor_def
proof
  fix agg
  assume "\<forall>agg. int (length (H agg) + Suc n) + 1 < maxInt64"
  then have "int (length (H agg) + Suc n) + 1 < maxInt64" by blast
  then show "int (length ((H(a := H a @ [y])) agg) + n) + 1 < maxInt64" by (cases "agg = a") auto
qed

lemma roomFor_after:
  assumes "roomFor (n + m) H" "\<forall>a. length (H' a) \<le> length (H a) + n"
  shows "roomFor m H'"
  unfolding roomFor_def
proof
  fix agg
  have "int (length (H agg) + (n + m)) + 1 < maxInt64" using assms(1) by (simp add: roomFor_def del: of_nat_add)
  then show "int (length (H' agg) + m) + 1 < maxInt64" using assms(2)[rule_format, of agg] by simp
qed

lemma mex_bridge:
  "mex.allHold TYPE(_) x (xDb st) H = histories (withMemory x) st H"
  "mex.holds TYPE(_) x (xDb st) agg hs = dbHolds (xEs (withMemory x)) (xDb st) agg hs"
  "mex.projSafe TYPE(_) TYPE(_) x = projectionsSafe x"
  by (simp_all add: mex.allHold_def mex.holds_def histories_def dbHolds_def mex.projSafe_def projectionsSafe_def)

definition receiptFor :: "'t event \<Rightarrow> receipt" where
  "receiptFor ev = \<lparr>rAccepted = True, rAggregateID = evAggregateID ev, rEventID = evID ev,
     rVersion = evVersion ev, rRejection = ''''\<rparr>"

definition noReceipt :: "'t command \<Rightarrow> (memory, snapshot_memory, 't, 'd) exec_state \<Rightarrow> bool" where
  "noReceipt cmd st \<longleftrightarrow> idempotencyKey cmd = '''' \<or> mReceipts (dbStore (xDb st)) (idempotencyKey cmd) = None"

lemma memView_sel [simp]:
  "ctReceipts (memView s) = mReceipts s" "ctDeliveries (memView s) = mDeliveries s"
  by (simp_all add: memView_def)

section \<open>Commands\<close>

lemma accepted_aux:
  assumes "configured x" "histories (withMemory x) st H" "roomFor 0 H" "timeOk now" "noReceipt cmd st"
    and "run (withMemory x) c i now cmd st = (Ok (ev, w, None), st')"
  obtains b where "cmdValidate cmd (currentOf (H (cmdAggregateID cmd))) = None"
    "ev = producedEvent (xEs (withMemory x)) i now cmd (H (cmdAggregateID cmd))"
    "encodes (xEs (withMemory x)) ev b"
    "mex.holds TYPE(_) x (xDb st') (cmdAggregateID cmd) (H (cmdAggregateID cmd) @ [evAggregate ev])"
    "memView (dbStore (xDb st')) = mex.hookEffect TYPE(_) x (idempotencyKey cmd) ev
       (ctAppend (streamName (cmdAggregateID cmd)) (int (length (H (cmdAggregateID cmd))) + 1) b (memView (dbStore (xDb st))))"
    "\<And>a. a \<noteq> cmdAggregateID cmd \<Longrightarrow> smSnaps (dbSnaps (xDb st')) a = smSnaps (dbSnaps (xDb st)) a"
proof -
  let ?agg = "cmdAggregateID cmd"
  have pre: "codecOk (esCodec (xEs (withMemory x)))" "i64 (esSchema (xEs (withMemory x))) = esSchema (xEs (withMemory x))"
    "mex.projSafe TYPE(_) TYPE(_) x" "mex.holds TYPE(_) x (xDb st) ?agg (H ?agg)" "int (length (H ?agg)) + 1 < maxInt64"
    using assms(1-3) by (auto simp: configured_def mex_bridge histories_def roomFor_def)
  have none: "idempotencyKey cmd \<noteq> '''' \<Longrightarrow> ctReceipts (memView (dbStore (xDb st))) (idempotencyKey cmd) = None"
    using assms(5) by (simp add: noReceipt_def)
  obtain d' st1 u where c: "writeTx (xEs (withMemory x)) c i now cmd (txHook (withMemory x) (idempotencyKey cmd)) (xDb st) = (Ok ev, d')"
      "snapshotIfDue (withMemory x) c cmd ev (st\<lparr>xDb := d'\<rparr>) = (Ok u, st1)" "xDb st' = xDb st1"
    by (rule mex.no_receipt_committed[OF pre(1,2,4,3) none assms(6)])
  show thesis by (rule mex.committed_spec[OF pre(1,2) assms(4) pre(4,5,3) c]) (rule that)
qed

lemma accepted_effect:
  assumes "configured x" "histories (withMemory x) st H" "roomFor 0 H" "timeOk now" "noReceipt cmd st"
    and "run (withMemory x) c i now cmd st = (Ok (ev, w, None), st')"
  shows "histories (withMemory x) st' (H(cmdAggregateID cmd := H (cmdAggregateID cmd) @ [evAggregate ev]))"
    and "idempotencyKey cmd \<noteq> '''' \<Longrightarrow> mex.answered TYPE(_) x (idempotencyKey cmd) ev (xDb st')
      (H(cmdAggregateID cmd := H (cmdAggregateID cmd) @ [evAggregate ev]))"
proof -
  let ?agg = "cmdAggregateID cmd"
  obtain b where b: "ev = producedEvent (xEs (withMemory x)) i now cmd (H ?agg)" "encodes (xEs (withMemory x)) ev b"
    "mex.holds TYPE(_) x (xDb st') ?agg (H ?agg @ [evAggregate ev])"
    "memView (dbStore (xDb st')) = mex.hookEffect TYPE(_) x (idempotencyKey cmd) ev
       (ctAppend (streamName ?agg) (int (length (H ?agg)) + 1) b (memView (dbStore (xDb st))))"
    "\<forall>a. a \<noteq> ?agg \<longrightarrow> smSnaps (dbSnaps (xDb st')) a = smSnaps (dbSnaps (xDb st)) a"
    by (rule accepted_aux[OF assms]) blast
  have all: "mex.allHold TYPE(_) x (xDb st) H" using assms(2) by (simp add: mex_bridge)
  have eff: "mex.runEffect TYPE(_) x ?agg (idempotencyKey cmd) (xDb st) (xDb st') (H ?agg) (H ?agg @ [evAggregate ev])"
    using b(3-5) assms(5) unfolding mex.runEffect_def noReceipt_def by auto
  show "histories (withMemory x) st' (H(?agg := H ?agg @ [evAggregate ev]))"
    using mex.runEffect_allHold[OF all eff] by (simp add: mex_bridge)
  have hd: "mex.holds TYPE(_) x (xDb st) ?agg (H ?agg)" using all by (simp add: mex.allHold_def)
  assume "idempotencyKey cmd \<noteq> ''''"
  from mex.answered_new[where H = H and agg = ?agg, OF hd b(2,1) refl this b(4)]
  show "mex.answered TYPE(_) x (idempotencyKey cmd) ev (xDb st') (H(?agg := H ?agg @ [evAggregate ev]))" .
qed

text \<open>The invariants of a sequence of commands, from the executor's interpretation.\<close>

lemma commands_grow:
  assumes "configured x" "\<forall>cl \<in> set cls. timeOk (clNow cl)" "histories (withMemory x) st H"
    and "roomFor (length cls) H"
  obtains H' where "histories (withMemory x) (executeAll (withMemory x) cls st) H'"
    "xForgetting (executeAll (withMemory x) cls st) = xForgetting st"
    "\<forall>a. \<exists>tl. H' a = H a @ tl" "\<forall>a \<in> xForgetting st. H' a = H a"
    "\<forall>k rc. mReceipts (dbStore (xDb st)) k = Some rc \<longrightarrow>
        mReceipts (dbStore (xDb (executeAll (withMemory x) cls st))) k = Some rc"
    "\<forall>k ev. mex.answered TYPE(_) x k ev (xDb st) H \<longrightarrow>
        mex.answered TYPE(_) x k ev (xDb (executeAll (withMemory x) cls st)) H'"
    "\<forall>a. length (H' a) \<le> length (H a) + length cls"
proof -
  have "\<exists>H'. mex.grows x st (executeAll (withMemory x) cls st) H H' \<and> (\<forall>a. length (H' a) \<le> length (H a) + length cls)"
    by (rule mex.executeAll_grows) (use assms in \<open>auto simp: configured_def mex_bridge roomFor_def\<close>)
  then show thesis using that by (auto simp: mex.grows_def mex_bridge)
qed

lemma retry_aux:
  assumes "configured x" "histories (withMemory x) st H" "mex.answered TYPE(_) x k ev (xDb st) H"
    and "ctxErr c = None" "idempotencyKey cmd = k" "k \<noteq> ''''"
  shows "run (withMemory x) c i now cmd st =
    (Ok (ev, waitForAnswered (withMemory x) ev None (xDisp st), None), st)"
  by (rule mex.answered_retry)
    (use assms in \<open>auto simp: configured_def mex_bridge memGetReceipt_def memReadFrom_def\<close>)

text \<open>A counter executor without a dispatcher, for the witnesses.\<close>

definition counterExec :: "(memory_tx, memory, snapshot_memory, int, unit) executor" where
  "counterExec = newExecutor counterES None []"

definition emptyState :: "(memory, snapshot_memory, int, unit) exec_state" where
  "emptyState = \<lparr>xDb = emptyDb, xDisp = (), xForgetting = {}, xSnapshotErrors = []\<rparr>"

lemma counterExec_withMemory: "withMemory counterExec = counterExec"
  by (simp add: withMemory_def counterExec_def newExecutor_def counterES_def memES_def esNew_def)

lemma counterExec_configured: "configured counterExec"
  by (simp add: configured_def counterExec_def newExecutor_def counterES_def counterCodec_ok i64_def
      projectionsSafe_def)

lemma emptyState_histories: "histories x emptyState (\<lambda>_. [])"
  by (simp add: histories_def emptyState_def emptyDb_holds)

lemma roomFor_empty: "n \<le> 1000 \<Longrightarrow> roomFor n (\<lambda>_. [])"
  by (simp add: roomFor_def maxInt64_def)

definition addOnce :: "string \<Rightarrow> string \<Rightarrow> int \<Rightarrow> int command" where
  "addOnce k agg n = (addCmd agg n False)\<lparr>cmdCommandID := Some k\<rparr>"

definition addCall :: "string \<Rightarrow> int \<Rightarrow> int call" where
  "addCall agg n = \<lparr>clLock = None, clCtx = background, clNewID = ''other'', clNow = someTime,
     clCmd = addCmd agg n False\<rparr>"

lemma run_state_split:
  assumes "fst (run x c i now cmd st) = Ok (ev, w, err)"
  shows "run x c i now cmd st = (Ok (ev, w, err), snd (run x c i now cmd st))"
  by (metis assms prod.collapse)

section \<open>Properties\<close>

text \<open>C3: an accepted command commits as one. When the pipeline returns without an error for a
  command that had no receipt, the command was valid for the aggregate's last state, every
  other aggregate keeps its history and this one's grows by the emitted state, the receipt of
  the command names exactly the returned event, and a delivery entry is at the end of the log
  exactly when the event is durable.\<close>

theorem accepted_command_commits:
  assumes "configured x" "histories (withMemory x) st H" "roomFor 0 H" "timeOk now" "noReceipt cmd st"
    and "run (withMemory x) c i now cmd st = (Ok (ev, w, None), st')"
  shows "cmdValidate cmd (currentOf (H (cmdAggregateID cmd))) = None \<and>
    ev = producedEvent (xEs (withMemory x)) i now cmd (H (cmdAggregateID cmd)) \<and>
    histories (withMemory x) st' (H(cmdAggregateID cmd := H (cmdAggregateID cmd) @ [evAggregate ev])) \<and>
    mReceipts (dbStore (xDb st')) =
      (if idempotencyKey cmd = '''' then mReceipts (dbStore (xDb st))
       else (mReceipts (dbStore (xDb st)))(idempotencyKey cmd \<mapsto> receiptFor ev)) \<and>
    mDeliveries (dbStore (xDb st')) = mDeliveries (dbStore (xDb st)) @
      (if isDurable x (cmdEventName cmd)
       then [\<lparr>dAggregateID = cmdAggregateID cmd, dVersion = int (length (H (cmdAggregateID cmd))) + 1\<rparr>] else [])"
proof (intro conjI)
  let ?agg = "cmdAggregateID cmd"
  obtain b where b: "cmdValidate cmd (currentOf (H ?agg)) = None"
    "ev = producedEvent (xEs (withMemory x)) i now cmd (H ?agg)"
    "memView (dbStore (xDb st')) = mex.hookEffect TYPE(_) x (idempotencyKey cmd) ev
       (ctAppend (streamName ?agg) (int (length (H ?agg)) + 1) b (memView (dbStore (xDb st))))"
    by (rule accepted_aux[OF assms]) blast
  show "cmdValidate cmd (currentOf (H ?agg)) = None" "ev = producedEvent (xEs (withMemory x)) i now cmd (H ?agg)"
    by (fact b(1,2))+
  show "histories (withMemory x) st' (H(?agg := H ?agg @ [evAggregate ev]))" by (rule accepted_effect(1)[OF assms])
  show "mReceipts (dbStore (xDb st')) = (if idempotencyKey cmd = '''' then mReceipts (dbStore (xDb st))
       else (mReceipts (dbStore (xDb st)))(idempotencyKey cmd \<mapsto> receiptFor ev))"
    using arg_cong[OF b(3), of ctReceipts]
    by (simp add: mex.hookEffect_receipts mex.acceptedReceipt_def receiptFor_def ctAppend_def)
  show "mDeliveries (dbStore (xDb st')) = mDeliveries (dbStore (xDb st)) @
      (if isDurable x (cmdEventName cmd)
       then [\<lparr>dAggregateID = ?agg, dVersion = int (length (H ?agg)) + 1\<rparr>] else [])"
    using arg_cong[OF b(3), of ctDeliveries] b(2)
    by (simp add: mex.hookEffect_deliveries ctAppend_def producedEvent_def)
qed

theorem accepted_command_commits_witness:
  "mReceipts (dbStore (xDb (snd (run counterExec background ''id1'' someTime (addOnce ''k'' ''a'' 5) emptyState)))) =
     [''k'' \<mapsto> \<lparr>rAccepted = True, rAggregateID = ''a'', rEventID = ''id1'', rVersion = 1, rRejection = ''''\<rparr>]"
proof -
  let ?cmd = "addOnce ''k'' ''a'' 5"
  let ?ev = "\<lparr>evID = ''id1'', evAggregateID = ''a'', evEventName = ''added'', evVersion = 1,
        evSchemaVersion = 1, evOccurredAt = someTime, evAggregate = 5, evPreviousAggregate = 0\<rparr>"
  have r: "fst (run counterExec background ''id1'' someTime ?cmd emptyState) = Ok (?ev, None, None)"
    by code_simp
  have "noReceipt ?cmd emptyState" by code_simp
  from accepted_command_commits[of counterExec, unfolded counterExec_withMemory,
      OF counterExec_configured emptyState_histories roomFor_empty timeOk_someTime this run_state_split[OF r], THEN conjunct2, THEN conjunct2, THEN conjunct2, THEN conjunct1]
  show ?thesis
    by (simp add: addOnce_def addCmd_def idempotencyKey_def receiptFor_def emptyState_def emptyDb_def newMemory_def)
qed

text \<open>A command that does not validate, on live stores: the error, and its receipt.\<close>

lemma rejected_aux:
  assumes "configured x" "histories (withMemory x) st H" "ctxErr c = None" "noReceipt cmd st"
    and "idempotencyKey cmd \<noteq> ''''" "cmdValidate cmd (currentOf (H (cmdAggregateID cmd))) = Some e"
    and "errorsIs e ErrValidation" "\<not> errorsIs e ErrSyncProjection" "\<not> errorsIs e ErrDuplicateReceipt"
    and "run (withMemory x) c i now cmd st = (r, st')"
  shows "r = Ok (zeroEvent (xEs (withMemory x)), None, Some e) \<and> xDisp st' = xDisp st \<and>
    memView (dbStore (xDb st')) = ctPutReceipt (idempotencyKey cmd)
      \<lparr>rAccepted = False, rAggregateID = '''', rEventID = '''', rVersion = 0, rRejection = errText e\<rparr>
      (memView (dbStore (xDb st)))"
proof -
  let ?agg = "cmdAggregateID cmd" and ?k = "idempotencyKey cmd" and ?s = "dbStore (xDb st)"
  have none: "mReceipts ?s ?k = None" using assms(4,5) by (simp add: noReceipt_def)
  obtain q d1 where ld: "load (xEs (withMemory x)) c ?agg True (xDb st) = (q, d1)" by fastforce
  have L: "q = mex.loaded (H ?agg)" "dbStore d1 = ?s"
    using mex.load_live[of x "xDb st" ?agg "H ?agg" c True q d1] assms(1-3) ld
    by (auto simp: configured_def mex_bridge histories_def snapGet_def memReadFrom_def mex.onlyCell_def)
  have w: "writeTx (xEs (withMemory x)) c i now cmd hk (xDb st) = (Fail e, d1)" for hk
    using ld L(1) assms(6)
    by (auto simp: writeTx_def readerLoad_def mex.loaded_def currentOf_def Let_def)
  have a: "answerRetry (withMemory x) c ?k ?s = Ok (zeroEvent (xEs (withMemory x)), False, None)"
    using none assms(3,5) by (simp add: answerRetry_def answerFromReceipt_def memGetReceipt_def Let_def)
  let ?s' = "?s\<lparr>mReceipts := (mReceipts ?s)(?k \<mapsto>
      \<lparr>rAccepted = False, rAggregateID = '''', rEventID = '''', rVersion = 0, rRejection = errText e\<rparr>)\<rparr>"
  have rj: "recordRejection (withMemory x) c ?k e ?s = (Ok (), ?s')"
    using none assms(3)
    by (simp add: recordRejection_def atomically_def memBegin_def memCommit_def memPutReceipt_def Let_def)
  have "run (withMemory x) c i now cmd st =
      (Ok (zeroEvent (xEs (withMemory x)), None, Some e), st\<lparr>xDb := d1\<lparr>dbStore := ?s'\<rparr>\<rparr>)"
    using a w rj L(2) assms(5,7-9)
    by (simp add: run_def failedWrite_def writeFailed_def validationFailed_def Let_def)
  with assms(10) show ?thesis by (auto simp: memView_def ctPutReceipt_def streamOf_def)
qed

text \<open>C8: a rejection is final. A command with an id that fails validation reports its error and
  writes only the receipt of the rejection; after any sequence of other commands, a command
  with the same id is rejected with the recorded text, even if it would now be valid, and
  changes nothing.\<close>

theorem rejection_is_final:
  assumes "configured x" "histories (withMemory x) st H" "roomFor (Suc (length cls)) H" "timeOk now"
    and "ctxErr c = None" "noReceipt cmd st" "idempotencyKey cmd \<noteq> ''''"
    and "cmdValidate cmd (currentOf (H (cmdAggregateID cmd))) = Some e"
    and "errorsIs e ErrValidation" "\<not> errorsIs e ErrSyncProjection" "\<not> errorsIs e ErrDuplicateReceipt"
    and "run (withMemory x) c i now cmd st = (r, st')" "\<forall>cl \<in> set cls. timeOk (clNow cl)"
    and "idempotencyKey cmd2 = idempotencyKey cmd" "ctxErr c2 = None"
  shows "r = Ok (zeroEvent (xEs (withMemory x)), None, Some e) \<and>
    ctStreams (memView (dbStore (xDb st'))) = ctStreams (memView (dbStore (xDb st))) \<and>
    mDeliveries (dbStore (xDb st')) = mDeliveries (dbStore (xDb st)) \<and>
    run (withMemory x) c2 i2 now2 cmd2 (executeAll (withMemory x) cls st') =
      (Ok (zeroEvent (xEs (withMemory x)), None, Some (wrapText ErrValidation (errText e))),
       executeAll (withMemory x) cls st')"
proof (intro conjI)
  let ?k = "idempotencyKey cmd"
  note R = rejected_aux[OF assms(1,2,5-12)]
  show "r = Ok (zeroEvent (xEs (withMemory x)), None, Some e)" using R by blast
  have V: "memView (dbStore (xDb st')) = ctPutReceipt ?k \<lparr>rAccepted = False, rAggregateID = '''', rEventID = '''',
      rVersion = 0, rRejection = errText e\<rparr> (memView (dbStore (xDb st)))" using R by blast
  show "ctStreams (memView (dbStore (xDb st'))) = ctStreams (memView (dbStore (xDb st)))"
    "mDeliveries (dbStore (xDb st')) = mDeliveries (dbStore (xDb st))"
    using arg_cong[OF V, of ctStreams] arg_cong[OF V, of ctDeliveries] by (simp_all add: ctPutReceipt_def)
  have rc: "mReceipts (dbStore (xDb st')) ?k = Some \<lparr>rAccepted = False, rAggregateID = '''', rEventID = '''',
      rVersion = 0, rRejection = errText e\<rparr>"
    using arg_cong[OF V, of ctReceipts] by (simp add: ctPutReceipt_def)
  have sm: "int (length (H (cmdAggregateID cmd))) + 1 < maxInt64"
    using roomFor_less[OF assms(3), of 0] by (simp add: roomFor_def)
  obtain hs' where "mex.runEffect TYPE(_) x (cmdAggregateID cmd) ?k (xDb st) (xDb st') (H (cmdAggregateID cmd)) hs'"
    using mex.run_effect[of x now st cmd "H (cmdAggregateID cmd)" c i r st'] assms(1-4,12) sm
    by (auto simp: configured_def mex_bridge histories_def)
  note ef = this
  have len: "hs' = H (cmdAggregateID cmd) \<or> (\<exists>y. hs' = H (cmdAggregateID cmd) @ [y])"
    using ef unfolding mex.runEffect_def by auto
  have H': "histories (withMemory x) st' (H(cmdAggregateID cmd := hs'))"
    using mex.runEffect_allHold[where H = H and agg = "cmdAggregateID cmd", OF _ ef] assms(2)
    by (simp add: mex_bridge)
  have room: "roomFor (length cls) (H(cmdAggregateID cmd := hs'))"
    using len assms(3) roomFor_grow[of "length cls" H] roomFor_less[of "Suc (length cls)" H "length cls"] by auto
  have "mReceipts (dbStore (xDb (executeAll (withMemory x) cls st'))) ?k = Some \<lparr>rAccepted = False,
      rAggregateID = '''', rEventID = '''', rVersion = 0, rRejection = errText e\<rparr>"
    by (rule commands_grow[OF assms(1,13) H' room]) (use rc in blast)
  then show "run (withMemory x) c2 i2 now2 cmd2 (executeAll (withMemory x) cls st') =
      (Ok (zeroEvent (xEs (withMemory x)), None, Some (wrapText ErrValidation (errText e))),
       executeAll (withMemory x) cls st')"
    using assms(7,14,15)
    by (simp add: run_def answerRetry_def answerFromReceipt_def memGetReceipt_def waitForAnswered_def Let_def
        split: option.split)
qed

theorem rejection_is_final_witness:
  "let st = executeAll counterExec [addCall ''a'' 2]
              (snd (run counterExec background ''id1'' someTime (addOnce ''k'' ''a'' (- 5)) emptyState))
   in run counterExec background ''id9'' someTime (addOnce ''k'' ''a'' 5) st =
        (Ok (zeroEvent counterES, None, Some (wrapText ErrValidation ''asynx: validation failed'')), st)"
proof -
  let ?cmd = "addOnce ''k'' ''a'' (- 5)" and ?cls = "[addCall ''a'' 2]"
  obtain r st' where r: "run counterExec background ''id1'' someTime ?cmd emptyState = (r, st')" by fastforce
  have n: "noReceipt ?cmd emptyState" by code_simp
  have k: "idempotencyKey ?cmd \<noteq> ''''" "idempotencyKey (addOnce ''k'' ''a'' 5) = idempotencyKey ?cmd"
    "cmdValidate ?cmd (currentOf []) = Some (Sentinel ErrValidation)"
    by (simp_all add: addOnce_def idempotencyKey_def addCmd_def)
  have t: "\<forall>cl \<in> set ?cls. timeOk (clNow cl)" by (simp add: addCall_def timeOk_someTime)
  have xe: "xEs counterExec = counterES" by (simp add: counterExec_def newExecutor_def)
  from rejection_is_final[of counterExec, unfolded counterExec_withMemory,
      OF counterExec_configured emptyState_histories roomFor_empty timeOk_someTime _ n k(1,3) _ _ _ r t k(2), THEN conjunct2, THEN conjunct2, THEN conjunct2]
  show ?thesis by (simp add: r xe Let_def)
qed

section \<open>Forget\<close>

text \<open>A counter with one state, and a dispatcher that accepts everything and delivers nothing.\<close>

definition idleDispatcher :: "(int, unit) dispatcher_ops" where
  "idleDispatcher =
     \<lparr>dpEnqueue = (\<lambda>c rq d. (Ok 0, d)), dpTicketFor = (\<lambda>a v d. None),
      dpTicket = (\<lambda>t d. \<lparr>tkSettled = True, tkFinal = True, tkErr = None, tkUnrun = None\<rparr>),
      dpUnrun = (\<lambda>a v d. None), dpPark = (\<lambda>a e vs d. d), dpSupersede = (\<lambda>a d. d), dpParks = (\<lambda>d. []),
      dpResumeUndelivered = (\<lambda>a g d. ((False, []), d)),
      dpInspect = (\<lambda>a d. \<lparr>dsParked = False, dsGeneration = 0, dsCause = None, dsUndelivered = []\<rparr>),
      dpInHandler = (\<lambda>c a d. False), dpInterrupt = (\<lambda>d. d), dpInterrupted = (\<lambda>d. False)\<rparr>"

definition durableExec :: "(memory_tx, memory, snapshot_memory, int, unit) executor" where
  "durableExec = newExecutor counterES (Some idleDispatcher) [WithDurableDelivery (Some (\<lambda>_. True))]"

lemma durableExec_withMemory: "withMemory durableExec = durableExec"
  by (simp add: withMemory_def durableExec_def newExecutor_def counterES_def memES_def esNew_def)

lemma durableExec_configured: "configured durableExec"
  by (simp add: configured_def durableExec_def newExecutor_def counterES_def counterCodec_ok i64_def
      projectionsSafe_def)

definition counterState :: "(memory, snapshot_memory, int, unit) exec_state" where
  "counterState = snd (run durableExec background ''id1'' someTime (addCmd ''a'' 5 True) emptyState)"

lemma counterState_histories: "histories durableExec counterState ((\<lambda>_. [])(''a'' := [5]))"
proof -
  let ?cmd = "addCmd ''a'' 5 True"
  let ?ev = "\<lparr>evID = ''id1'', evAggregateID = ''a'', evEventName = ''added'', evVersion = 1,
        evSchemaVersion = 1, evOccurredAt = someTime, evAggregate = 5, evPreviousAggregate = 0\<rparr>"
  have r: "fst (run durableExec background ''id1'' someTime ?cmd emptyState) = Ok (?ev, Some (WaitOn 0 ?ev), None)"
    by code_simp
  have "noReceipt ?cmd emptyState" by code_simp
  from accepted_effect(1)[of durableExec, unfolded durableExec_withMemory,
      OF durableExec_configured emptyState_histories roomFor_empty timeOk_someTime this run_state_split[OF r]]
  show ?thesis by (simp add: addCmd_def counterState_def)
qed

lemma roomFor_one: "n \<le> 1000 \<Longrightarrow> roomFor n ((\<lambda>_. [])(a := [y]))"
  by (simp add: roomFor_def maxInt64_def)

definition forgotten :: "(memory, snapshot_memory, int, unit) exec_state" where
  "forgotten = executeAll durableExec [addCall ''a'' 2, addCall ''b'' 1]
     (snd (forgetBegin durableExec None background ''id2'' someTime ''a'' counterState))"

text \<open>The transaction of the tombstone, and with it the first half of a Forget that goes on.\<close>

definition tombstoneCommitted ::
  "(memory_tx, memory, snapshot_memory, 't, 'd) executor \<Rightarrow> string \<Rightarrow> (string \<Rightarrow> 't list)
     \<Rightarrow> (memory, snapshot_memory, 't, 'd) exec_state \<Rightarrow> (memory, snapshot_memory, 't, 'd) exec_state \<Rightarrow> bool" where
  "tombstoneCommitted x agg H st st' \<longleftrightarrow>
     H agg \<noteq> [] \<and> histories (withMemory x) st' (H(agg := H agg @ [last (H agg)])) \<and>
     mReceipts (dbStore (xDb st')) = mReceipts (dbStore (xDb st)) \<and>
     mDeliveries (dbStore (xDb st')) =
       (if xDurableMatch x \<noteq> None \<and> xDispatcher x \<noteq> None
        then filter (\<lambda>d. dAggregateID d \<noteq> agg) (mDeliveries (dbStore (xDb st))) @
             [\<lparr>dAggregateID = agg, dVersion = int (length (H agg)) + 1\<rparr>]
        else mDeliveries (dbStore (xDb st)))"

lemma tombstone_store:
  assumes "configured x" "histories (withMemory x) st H" "roomFor 0 H" "timeOk now"
    and "writeTx (xEs (withMemory x)) c i now (forgetCommand (esZero (xEs (withMemory x))) agg)
      (Some (tombstoneHook (withMemory x))) (xDb st) = (Ok ev, xDb st')"
  shows "tombstoneCommitted x agg H st st'"
proof -
  have pre: "codecOk (esCodec (xEs (withMemory x)))" "i64 (esSchema (xEs (withMemory x))) = esSchema (xEs (withMemory x))"
    "mex.projSafe TYPE(_) TYPE(_) x" "mex.holds TYPE(_) x (xDb st) agg (H agg)" "int (length (H agg)) + 1 < maxInt64"
    using assms(1-3) by (auto simp: configured_def mex_bridge histories_def roomFor_def)
  obtain b where c: "H agg \<noteq> []"
    "ev = producedEvent (xEs (withMemory x)) i now (forgetCommand (esZero (xEs (withMemory x))) agg) (H agg)"
    "mex.holds TYPE(_) x (xDb st') agg (H agg @ [last (H agg)])"
    "memView (dbStore (xDb st')) = mex.tombstoneEffect TYPE(_) x ev
       (ctAppend (streamName agg) (int (length (H agg)) + 1) b (memView (dbStore (xDb st))))"
    "\<forall>a. a \<noteq> agg \<longrightarrow> smSnaps (dbSnaps (xDb st')) a = smSnaps (dbSnaps (xDb st)) a"
    by (rule mex.tombstone_written[OF pre(1,2) assms(4) pre(4,5,3) assms(5)]) blast
  have evf: "evAggregateID ev = agg" "evVersion ev = int (length (H agg)) + 1"
    using c(2) by (simp_all add: producedEvent_def forgetCommand_def)
  have "dbHolds (xEs (withMemory x)) (xDb st') a ((H(agg := H agg @ [last (H agg)])) a)" for a
  proof (cases "a = agg")
    case True
    with c(3) show ?thesis by (simp add: mex_bridge)
  next
    case False
    have "ctStreams (memView (dbStore (xDb st'))) s = ctStreams (memView (dbStore (xDb st))) s" if "s \<noteq> streamName agg" for s
      using arg_cong[OF c(4), of ctStreams] that by (simp add: mex.tombstoneEffect_def contents_defs split: if_splits)
    with dbHolds_other[of "xDb st'" agg "xDb st" a "xEs (withMemory x)" "H a"] False c(3,5) assms(2)
    show ?thesis by (auto simp: histories_def mex_bridge dbHolds_def)
  qed
  then have hist: "histories (withMemory x) st' (H(agg := H agg @ [last (H agg)]))" by (simp add: histories_def)
  show ?thesis
    using c(1) hist arg_cong[OF c(4), of ctReceipts] arg_cong[OF c(4), of ctDeliveries] evf
    by (simp add: tombstoneCommitted_def mex.tombstoneEffect_def contents_defs split: if_splits)
qed

lemma tombstone_aux:
  assumes "configured x" "histories (withMemory x) st H" "roomFor 0 H" "timeOk now"
    and "forgetBegin (withMemory x) lk c i now agg st = (Ok tk, st')"
  obtains "H agg \<noteq> []" "xForgetting st' = insert agg (xForgetting st)" "agg \<notin> xForgetting st"
    "histories (withMemory x) st' (H(agg := H agg @ [last (H agg)]))"
    "mReceipts (dbStore (xDb st')) = mReceipts (dbStore (xDb st))"
    "mDeliveries (dbStore (xDb st')) =
       (if xDurableMatch x \<noteq> None \<and> xDispatcher x \<noteq> None
        then filter (\<lambda>d. dAggregateID d \<noteq> agg) (mDeliveries (dbStore (xDb st))) @
             [\<lparr>dAggregateID = agg, dVersion = int (length (H agg)) + 1\<rparr>]
        else mDeliveries (dbStore (xDb st)))"
proof -
  let ?st0 = "st\<lparr>xForgetting := insert agg (xForgetting st)\<rparr>"
  have fb: "agg \<notin> xForgetting st" "commitTombstone (withMemory x) c i now agg ?st0 = (Ok tk, st')"
    using assms(5) by (auto simp: forgetBegin_def writeTombstone_def split: option.splits if_splits outcome.splits prod.splits)
  then obtain ev where w: "writeTx (xEs (withMemory x)) c i now (forgetCommand (esZero (xEs (withMemory x))) agg)
      (Some (tombstoneHook (withMemory x))) (xDb st) = (Ok ev, xDb st')" and f: "xForgetting st' = xForgetting ?st0"
    by (auto simp: commitTombstone_def split: outcome.splits prod.splits option.splits)
  show thesis
    using tombstone_store[OF assms(1-4) w] f fb(1) by (intro that) (simp_all add: tombstoneCommitted_def)
qed

lemma erased_aux:
  assumes "histories (withMemory x) st H" "forgetFinish (withMemory x) lk fe c agg tk st = (Ok u, st')"
  shows "histories (withMemory x) st' (H(agg := [])) \<and> smSnaps (dbSnaps (xDb st')) agg = None \<and>
    mDeliveries (dbStore (xDb st')) = filter (\<lambda>d. dAggregateID d \<noteq> agg) (mDeliveries (dbStore (xDb st))) \<and>
    mReceipts (dbStore (xDb st')) = mReceipts (dbStore (xDb st)) \<and> xForgetting st' = xForgetting st - {agg}"
proof -
  have "erase (withMemory x) lk (withoutCancel c) agg st = (Ok (), st')"
    using assms(2) by (auto simp: forgetFinish_def Let_def split: option.splits outcome.splits prod.splits)
  from mex.erase_spec[OF _ this, of H] assms(1) show ?thesis by (simp add: mex_bridge)
qed

text \<open>What a retry answers once the aggregate is gone: the receipt is all that is left of the event.\<close>

definition minimalEvent :: "(memory_tx, memory, snapshot_memory, 't) es \<Rightarrow> 't event \<Rightarrow> 't event" where
  "minimalEvent es ev = (zeroEvent es)\<lparr>evID := evID ev, evAggregateID := evAggregateID ev, evVersion := evVersion ev\<rparr>"

lemma retry_after_erase:
  assumes "configured x" "dbHolds (xEs (withMemory x)) (xDb st) (evAggregateID ev) []"
    and "mReceipts (dbStore (xDb st)) (idempotencyKey cmd) = Some (receiptFor ev)"
    and "idempotencyKey cmd \<noteq> ''''" "ctxErr c = None"
  shows "run (withMemory x) c i now cmd st =
    (Ok (minimalEvent (xEs (withMemory x)) ev, waitForAnswered (withMemory x) (minimalEvent (xEs (withMemory x)) ev) None (xDisp st), None), st)"
proof -
  let ?agg = "evAggregateID ev"
  have h: "mex.holds TYPE(_) x (xDb st) ?agg []" using assms(2) by (simp add: mex_bridge)
  obtain evs where "deserializeEvents (map snd (ctStreams (memView (dbStore (xDb st))) (streamName ?agg))) = Ok evs"
    by (rule mex.holds_decodes[OF h])
  from mex.replay_spec[OF _ h _ this, of c "evVersion ev" "evVersion ev"] assms(1,5)
  have "replay (xEs (withMemory x)) c ?agg (evVersion ev) (evVersion ev) fn (dbStore (xDb st)) w = (Ok (), w)"
    for fn and w :: "'a event" by (simp add: configured_def memReadFrom_def)
  then show ?thesis
    using assms(3-5)
    by (simp add: run_def answerRetry_def answerFromReceipt_def memGetReceipt_def receiptFor_def minimalEvent_def Let_def)
qed

lemma commands_room:
  assumes "configured x" "\<forall>cl \<in> set cls. timeOk (clNow cl)" "histories (withMemory x) st H" "roomFor (length cls + m) H"
  obtains H' where "histories (withMemory x) (executeAll (withMemory x) cls st) H'" "roomFor m H'"
    "\<And>k rc. mReceipts (dbStore (xDb st)) k = Some rc \<Longrightarrow>
        mReceipts (dbStore (xDb (executeAll (withMemory x) cls st))) k = Some rc"
proof -
  have r: "roomFor (length cls) H" using roomFor_less[OF assms(4)] by simp
  show thesis by (rule commands_grow[OF assms(1-3) r]) (use that roomFor_after[OF assms(4)] in blast)
qed

text \<open>Receipts survive a whole Forget, with the commands that run before, during and after it.\<close>

lemma receipts_survive_forget:
  assumes "configured x" "histories (withMemory x) st H" "roomFor (Suc (length cls + (length cls2 + length cls3))) H"
    and "\<forall>cl \<in> set (cls @ cls2 @ cls3). timeOk (clNow cl)" "timeOk now"
    and "forgetBegin (withMemory x) lk c i now agg (executeAll (withMemory x) cls st) = (Ok tk, st1)"
    and "forgetFinish (withMemory x) lk2 fe c2 agg tk2 (executeAll (withMemory x) cls2 st1) = (Ok u, st2)"
    and "mReceipts (dbStore (xDb st)) k = Some rc"
  shows "mReceipts (dbStore (xDb (executeAll (withMemory x) cls3 st2))) k = Some rc"
proof -
  have t: "\<forall>cl \<in> set cls. timeOk (clNow cl)" "\<forall>cl \<in> set cls2. timeOk (clNow cl)" "\<forall>cl \<in> set cls3. timeOk (clNow cl)"
    using assms(4) by auto
  let ?n = "Suc (length cls2 + length cls3)"
  have r0: "roomFor (length cls + ?n) H" using assms(3) by simp
  obtain H1 where H1: "histories (withMemory x) (executeAll (withMemory x) cls st) H1" "roomFor ?n H1"
    "mReceipts (dbStore (xDb (executeAll (withMemory x) cls st))) k = Some rc"
    by (rule commands_room[OF assms(1) t(1) assms(2) r0]) (use assms(8) in blast)
  let ?H2 = "H1(agg := H1 agg @ [last (H1 agg)])"
  have r2: "roomFor (length cls2 + length cls3) ?H2" using H1(2) by (rule roomFor_grow)
  obtain H2: "histories (withMemory x) st1 ?H2" "mReceipts (dbStore (xDb st1)) k = Some rc"
    by (rule tombstone_aux[OF assms(1) H1(1) roomFor_less[OF H1(2)] assms(5,6)]) (use H1(3) in auto)
  obtain H3 where H3: "histories (withMemory x) (executeAll (withMemory x) cls2 st1) H3" "roomFor (length cls3) H3"
    "mReceipts (dbStore (xDb (executeAll (withMemory x) cls2 st1))) k = Some rc"
    by (rule commands_room[OF assms(1) t(2) H2(1) r2]) (use H2(2) in blast)
  note E = erased_aux[OF H3(1) assms(7)]
  have r4: "roomFor (length cls3 + 0) (H3(agg := []))" using roomFor_after[of 0 "length cls3" H3 "H3(agg := [])"] H3(2) by simp
  show ?thesis by (rule commands_room[OF assms(1) t(3) E[THEN conjunct1] r4]) (use E H3(3) in simp)
qed

text \<open>C4: a command with an id runs once. After it was accepted, and after any sequence of other
  commands on any aggregates, sending a command with the same id again (it need not be the same
  command) returns the very same event and changes nothing at all. Its receipt outlives the
  aggregate: after the aggregate of the event has been forgotten, with commands running before,
  during and after the Forget, and as long as nothing has created it anew, the retry answers without
  an error, with an event that has the id, the aggregate and the version and no state, and changes nothing.\<close>

theorem retry_is_idempotent:
  assumes "configured x" "histories (withMemory x) st H" "roomFor (2 + length (cls @ cls2 @ cls3)) H" "timeOk now"
    and "noReceipt cmd st" "idempotencyKey cmd \<noteq> ''''"
    and "run (withMemory x) c i now cmd st = (Ok (ev, w, None), st')"
    and "\<forall>cl \<in> set (cls @ cls2 @ cls3). timeOk (clNow cl)"
    and "idempotencyKey cmd2 = idempotencyKey cmd" "ctxErr c2 = None"
  shows "run (withMemory x) c2 i2 now2 cmd2 (executeAll (withMemory x) cls st') =
      (Ok (ev, waitForAnswered (withMemory x) ev None (xDisp (executeAll (withMemory x) cls st')), None),
       executeAll (withMemory x) cls st')
    \<and> (forgetBegin (withMemory x) lk c3 i3 now3 (cmdAggregateID cmd) (executeAll (withMemory x) cls st') = (Ok tk, st1)
        \<longrightarrow> timeOk now3
        \<longrightarrow> forgetFinish (withMemory x) lk2 fe c4 (cmdAggregateID cmd) tk (executeAll (withMemory x) cls2 st1) = (Ok u, st2)
        \<longrightarrow> dbHolds (xEs (withMemory x)) (xDb (executeAll (withMemory x) cls3 st2)) (cmdAggregateID cmd) []
        \<longrightarrow> (let ev' = minimalEvent (xEs (withMemory x)) ev in
             run (withMemory x) c2 i2 now2 cmd2 (executeAll (withMemory x) cls3 st2) =
               (Ok (ev', waitForAnswered (withMemory x) ev' None (xDisp (executeAll (withMemory x) cls3 st2)), None),
                executeAll (withMemory x) cls3 st2)))"
proof -
  let ?H = "H(cmdAggregateID cmd := H (cmdAggregateID cmd) @ [evAggregate ev])"
  have room: "roomFor 0 H" "roomFor (Suc (length cls + (length cls2 + length cls3))) ?H"
    using assms(3) roomFor_less[of _ H 0] roomFor_grow[of "Suc (length cls + (length cls2 + length cls3))" H] by auto
  have less: "roomFor (length cls) ?H" using roomFor_less[OF room(2)] by simp
  note E = accepted_effect[OF assms(1,2) room(1) assms(4,5,7)]
  have A: "mex.answered TYPE(_) x (idempotencyKey cmd) ev (xDb st') ?H" by (rule E(2)[OF assms(6)])
  then have rc: "mReceipts (dbStore (xDb st')) (idempotencyKey cmd) = Some (receiptFor ev)"
    by (simp add: mex.answered_def mex.acceptedReceipt_def receiptFor_def Let_def)
  have agg: "evAggregateID ev = cmdAggregateID cmd"
    by (rule accepted_aux[OF assms(1,2) room(1) assms(4,5,7)]) (simp add: producedEvent_def)
  obtain H' where H': "histories (withMemory x) (executeAll (withMemory x) cls st') H'"
    "mex.answered TYPE(_) x (idempotencyKey cmd) ev (xDb (executeAll (withMemory x) cls st')) H'"
    by (rule commands_grow[OF assms(1) _ E(1) less]) (use A assms(8) in auto)
  note first = retry_aux[OF assms(1) H' assms(10,9,6)]
  show ?thesis
  proof (intro conjI first impI)
    assume f: "forgetBegin (withMemory x) lk c3 i3 now3 (cmdAggregateID cmd) (executeAll (withMemory x) cls st') = (Ok tk, st1)"
      "timeOk now3" "forgetFinish (withMemory x) lk2 fe c4 (cmdAggregateID cmd) tk (executeAll (withMemory x) cls2 st1) = (Ok u, st2)"
      "dbHolds (xEs (withMemory x)) (xDb (executeAll (withMemory x) cls3 st2)) (cmdAggregateID cmd) []"
    have "mReceipts (dbStore (xDb (executeAll (withMemory x) cls3 st2))) (idempotencyKey cmd) = Some (receiptFor ev)"
      by (rule receipts_survive_forget[OF assms(1) E(1) room(2) assms(8) f(2,1,3) rc])
    then show "let ev' = minimalEvent (xEs (withMemory x)) ev in
             run (withMemory x) c2 i2 now2 cmd2 (executeAll (withMemory x) cls3 st2) =
               (Ok (ev', waitForAnswered (withMemory x) ev' None (xDisp (executeAll (withMemory x) cls3 st2)), None),
                executeAll (withMemory x) cls3 st2)"
      using retry_after_erase[OF assms(1) f(4)[folded agg], of cmd2 c2 i2 now2] assms(6,9,10) by (simp add: Let_def)
  qed
qed

text \<open>The counter after the accepted command, and after its Forget.\<close>

definition countedOnce :: "(memory, snapshot_memory, int, unit) exec_state" where
  "countedOnce = executeAll counterExec [addCall ''b'' 1]
     (snd (run counterExec background ''id1'' someTime (addOnce ''k'' ''a'' 5) emptyState))"

definition countForgotten :: "(memory, snapshot_memory, int, unit) exec_state" where
  "countForgotten = snd (forgetFinish counterExec None FinalClosed background ''a'' None
     (snd (forgetBegin counterExec None background ''id2'' someTime ''a'' countedOnce)))"

lemma forget_holds_nothing:
  assumes "configured x" "histories (withMemory x) st H" "roomFor 0 H" "timeOk now"
    and "forgetBegin (withMemory x) lk c i now agg st = (Ok tk, st1)"
    and "forgetFinish (withMemory x) lk2 fe c2 agg tk2 st1 = (Ok u, st2)"
  shows "dbHolds (xEs (withMemory x)) (xDb st2) agg []"
proof -
  obtain h: "histories (withMemory x) st1 (H(agg := H agg @ [last (H agg)]))"
    by (rule tombstone_aux[OF assms(1-5)])
  from erased_aux[OF this assms(6)] have "histories (withMemory x) st2 (H(agg := []))" by simp
  then show ?thesis by (auto simp: histories_def dest!: spec[of _ agg])
qed

definition countedEvent :: "int event" where
  "countedEvent = \<lparr>evID = ''id1'', evAggregateID = ''a'', evEventName = ''added'', evVersion = 1,
     evSchemaVersion = 1, evOccurredAt = someTime, evAggregate = 5, evPreviousAggregate = 0\<rparr>"

lemma counted_run:
  "fst (run counterExec background ''id1'' someTime (addOnce ''k'' ''a'' 5) emptyState) = Ok (countedEvent, None, None)"
  "noReceipt (addOnce ''k'' ''a'' 5) emptyState"
  by (code_simp, code_simp)

lemma countedOnce_holds: "\<exists>H. histories counterExec countedOnce H \<and> roomFor 0 H"
proof -
  let ?cmd = "addOnce ''k'' ''a'' 5" and ?cls = "[addCall ''b'' 1]"
  let ?st' = "snd (run counterExec background ''id1'' someTime ?cmd emptyState)"
  have h: "histories counterExec ?st' ((\<lambda>_. [])(''a'' := [5]))"
    using accepted_effect(1)[of counterExec, unfolded counterExec_withMemory, OF counterExec_configured
        emptyState_histories roomFor_empty timeOk_someTime counted_run(2) run_state_split[OF counted_run(1)]]
    by (simp add: addOnce_def addCmd_def countedEvent_def)
  have t: "\<forall>cl \<in> set ?cls. timeOk (clNow cl)" by (simp add: addCall_def timeOk_someTime)
  have room: "roomFor (length ?cls + 0) ((\<lambda>_. [])(''a'' := [5 :: int]))" by (rule roomFor_one) simp
  show ?thesis
    by (rule commands_room[of counterExec ?cls ?st', unfolded counterExec_withMemory, OF counterExec_configured t h room])
      (auto simp: countedOnce_def)
qed

lemma countForgotten_run:
  defines "fb \<equiv> forgetBegin counterExec None background ''id2'' someTime ''a'' countedOnce"
  shows "fb = (Ok None, snd fb)"
    "forgetFinish counterExec None FinalClosed background ''a'' None (snd fb) = (Ok (), countForgotten)"
    "dbHolds (xEs counterExec) (xDb countForgotten) ''a'' []"
proof -
  let ?ff = "forgetFinish counterExec None FinalClosed background ''a'' None (snd fb)"
  have "fst fb = Ok None" unfolding fb_def by code_simp
  then show f: "fb = (Ok None, snd fb)" by (metis prod.collapse)
  have "fst ?ff = Ok ()" unfolding fb_def by code_simp
  then show ff: "?ff = (Ok (), countForgotten)" unfolding countForgotten_def fb_def by (metis prod.collapse)
  obtain H where H: "histories counterExec countedOnce H" "roomFor 0 H" using countedOnce_holds by blast
  show "dbHolds (xEs counterExec) (xDb countForgotten) ''a'' []"
    by (rule forget_holds_nothing[of counterExec, unfolded counterExec_withMemory, OF counterExec_configured H timeOk_someTime
        f[unfolded fb_def] ff[unfolded fb_def]])
qed

theorem retry_is_idempotent_witness:
  "\<exists>ev. run counterExec background ''id9'' someTime (addOnce ''k'' ''z'' 99) countedOnce = (Ok (ev, None, None), countedOnce)
     \<and> evAggregate ev = 5
     \<and> run counterExec background ''id9'' someTime (addOnce ''k'' ''z'' 99) countForgotten
         = (Ok (minimalEvent counterES ev, None, None), countForgotten)"
proof -
  let ?cmd = "addOnce ''k'' ''a'' 5" and ?cls = "[addCall ''b'' 1]"
  let ?fb = "forgetBegin counterExec None background ''id2'' someTime ''a'' countedOnce"
  have k: "idempotencyKey ?cmd \<noteq> ''''" "idempotencyKey (addOnce ''k'' ''z'' 99) = idempotencyKey ?cmd" "cmdAggregateID ?cmd = ''a''"
    by (simp_all add: addOnce_def idempotencyKey_def addCmd_def)
  have t: "\<forall>cl \<in> set (?cls @ [] @ []). timeOk (clNow cl)" by (simp add: addCall_def timeOk_someTime)
  have w: "waitForAnswered counterExec e None d = None" for e d
    by (simp add: waitForAnswered_def counterExec_def newExecutor_def)
  have xe: "xEs counterExec = counterES" by (simp add: counterExec_def newExecutor_def)
  note R = retry_is_idempotent[where x = counterExec and cls = ?cls and ?cls2.0 = "[]" and ?cls3.0 = "[]" and lk = None
      and ?c3.0 = background and ?i3.0 = "''id2''" and ?now3.0 = someTime and tk = None and ?st1.0 = "snd ?fb" and ?lk2.0 = None
      and fe = FinalClosed and ?c4.0 = background and u = "()" and ?st2.0 = countForgotten, unfolded counterExec_withMemory,
      OF counterExec_configured emptyState_histories roomFor_empty timeOk_someTime counted_run(2) k(1)
        run_state_split[OF counted_run(1)] t k(2), of background "''id9''" someTime, unfolded w xe, folded countedOnce_def]
  have "run counterExec background ''id9'' someTime (addOnce ''k'' ''z'' 99) countedOnce = (Ok (countedEvent, None, None), countedOnce)"
    by (rule R[THEN conjunct1]) simp_all
  moreover have "run counterExec background ''id9'' someTime (addOnce ''k'' ''z'' 99) countForgotten
      = (Ok (minimalEvent counterES countedEvent, None, None), countForgotten)"
    using R[THEN conjunct2] countForgotten_run[unfolded xe] k(3) timeOk_someTime by (simp add: Let_def)
  ultimately show ?thesis by (intro exI[of _ countedEvent]) (simp add: countedEvent_def)
qed

text \<open>C5: Forget erases the aggregate. Between writing the tombstone and erasing, any other
  commands may run; the aggregate itself is fenced off, so its history stays at the tombstone.
  When Forget then succeeds, the aggregate's history is empty, it has no snapshot and no pending
  delivery, the fence is lifted, and every other aggregate has kept its history or only grown it. The
  receipts of its commands stay, as documented, and so do all others.\<close>

theorem forget_erases:
  assumes "configured x" "histories (withMemory x) st H" "roomFor (Suc (length cls)) H" "timeOk now"
    and "forgetBegin (withMemory x) lk c i now agg st = (Ok tk, st1)"
    and "\<forall>cl \<in> set cls. timeOk (clNow cl)"
    and "forgetFinish (withMemory x) lk2 fe c2 agg tk2 (executeAll (withMemory x) cls st1) = (Ok u, st')"
  shows "(\<exists>H'. histories (withMemory x) (executeAll (withMemory x) cls st1) H' \<and>
      H' agg = H agg @ [last (H agg)] \<and> (\<forall>a. a \<noteq> agg \<longrightarrow> (\<exists>tl. H' a = H a @ tl)) \<and>
      histories (withMemory x) st' (H'(agg := []))) \<and>
    smSnaps (dbSnaps (xDb st')) agg = None \<and>
    (\<forall>d \<in> set (mDeliveries (dbStore (xDb st'))). dAggregateID d \<noteq> agg) \<and>
    agg \<notin> xForgetting st' \<and>
    (\<forall>k rc. mReceipts (dbStore (xDb st)) k = Some rc \<longrightarrow> mReceipts (dbStore (xDb st')) k = Some rc)"
proof (intro conjI)
  let ?H = "H(agg := H agg @ [last (H agg)])"
  have room: "roomFor 0 H" "roomFor (length cls) ?H"
    using assms(3) roomFor_less[of _ H 0] by (auto intro: roomFor_grow)
  obtain t: "agg \<in> xForgetting st1" "histories (withMemory x) st1 ?H"
      "mReceipts (dbStore (xDb st1)) = mReceipts (dbStore (xDb st))"
    by (rule tombstone_aux[OF assms(1,2) room(1) assms(4,5)]) auto
  obtain H' where H': "histories (withMemory x) (executeAll (withMemory x) cls st1) H'"
    "\<forall>a. \<exists>tl. H' a = ?H a @ tl" "\<forall>a \<in> xForgetting st1. H' a = ?H a"
    "\<forall>k rc. mReceipts (dbStore (xDb st1)) k = Some rc \<longrightarrow>
        mReceipts (dbStore (xDb (executeAll (withMemory x) cls st1))) k = Some rc"
    by (rule commands_grow[OF assms(1,6) t(2) room(2)]) blast
  note E = erased_aux[OF H'(1) assms(7)]
  have "\<exists>tl. H' a = H a @ tl" if "a \<noteq> agg" for a using H'(2)[rule_format, of a] that by simp
  with H' t(1) E show "\<exists>H'. histories (withMemory x) (executeAll (withMemory x) cls st1) H' \<and>
      H' agg = H agg @ [last (H agg)] \<and> (\<forall>a. a \<noteq> agg \<longrightarrow> (\<exists>tl. H' a = H a @ tl)) \<and>
      histories (withMemory x) st' (H'(agg := []))" by (intro exI[of _ H']) simp
  show "smSnaps (dbSnaps (xDb st')) agg = None" "\<forall>d \<in> set (mDeliveries (dbStore (xDb st'))). dAggregateID d \<noteq> agg"
    "agg \<notin> xForgetting st'"
    "\<forall>k rc. mReceipts (dbStore (xDb st)) k = Some rc \<longrightarrow> mReceipts (dbStore (xDb st')) k = Some rc"
    using E H'(4) t(3) by auto
qed

theorem forget_erases_witness:
  "smSnaps (dbSnaps (xDb (snd (forgetFinish durableExec None FinalClosed background ''a'' (Some 0) forgotten)))) ''a'' = None \<and>
   filter (\<lambda>d. dAggregateID d = ''a'')
     (mDeliveries (dbStore (xDb (snd (forgetFinish durableExec None FinalClosed background ''a'' (Some 0) forgotten))))) = []"
proof -
  let ?fb = "forgetBegin durableExec None background ''id2'' someTime ''a'' counterState"
  let ?ff = "forgetFinish durableExec None FinalClosed background ''a'' (Some 0) forgotten"
  have "fst ?fb = Ok (Some 0)" by code_simp
  then have b: "?fb = (Ok (Some 0), snd ?fb)" by (metis prod.collapse)
  have "fst ?ff = Ok ()" by code_simp
  then have f: "?ff = (Ok (), snd ?ff)" by (metis prod.collapse)
  have t: "\<forall>cl \<in> set [addCall ''a'' 2, addCall ''b'' 1]. timeOk (clNow cl)"
    by (simp add: addCall_def timeOk_someTime)
  have room: "roomFor (Suc (length [addCall ''a'' 2, addCall ''b'' 1])) ((\<lambda>_. [])(''a'' := [5 :: int]))"
    by (rule roomFor_one) simp
  note F = forget_erases[of durableExec, unfolded durableExec_withMemory, OF durableExec_configured
      counterState_histories room timeOk_someTime b t f[unfolded forgotten_def]]
  show ?thesis using F[THEN conjunct2] by (simp add: forgotten_def filter_empty_conv)
qed

text \<open>The tombstone supersedes. Writing it extends the history by the aggregate's last state
  (an aggregate without a history cannot be forgotten), raises the fence, and, when
  deliveries are logged, leaves the tombstone as the aggregate's only pending delivery
  while the deliveries of the others keep their order.\<close>

theorem tombstone_supersedes:
  assumes "configured x" "histories (withMemory x) st H" "roomFor 0 H" "timeOk now"
    and "xDurableMatch x \<noteq> None" "xDispatcher x \<noteq> None"
    and "forgetBegin (withMemory x) lk c i now agg st = (Ok tk, st')"
  shows "H agg \<noteq> [] \<and>
    histories (withMemory x) st' (H(agg := H agg @ [last (H agg)])) \<and>
    xForgetting st' = insert agg (xForgetting st) \<and>
    mDeliveries (dbStore (xDb st')) = filter (\<lambda>d. dAggregateID d \<noteq> agg) (mDeliveries (dbStore (xDb st))) @
      [\<lparr>dAggregateID = agg, dVersion = int (length (H agg)) + 1\<rparr>]"
proof (intro conjI)
  obtain t: "H agg \<noteq> []" "xForgetting st' = insert agg (xForgetting st)"
    "histories (withMemory x) st' (H(agg := H agg @ [last (H agg)]))"
    "mDeliveries (dbStore (xDb st')) =
       (if xDurableMatch x \<noteq> None \<and> xDispatcher x \<noteq> None
        then filter (\<lambda>d. dAggregateID d \<noteq> agg) (mDeliveries (dbStore (xDb st))) @
             [\<lparr>dAggregateID = agg, dVersion = int (length (H agg)) + 1\<rparr>]
        else mDeliveries (dbStore (xDb st)))"
    by (rule tombstone_aux[OF assms(1-4,7)])
  then show "H agg \<noteq> []" "histories (withMemory x) st' (H(agg := H agg @ [last (H agg)]))"
    "xForgetting st' = insert agg (xForgetting st)"
    "mDeliveries (dbStore (xDb st')) = filter (\<lambda>d. dAggregateID d \<noteq> agg) (mDeliveries (dbStore (xDb st))) @
      [\<lparr>dAggregateID = agg, dVersion = int (length (H agg)) + 1\<rparr>]"
    using assms(5,6) by simp_all
qed

theorem tombstone_supersedes_witness:
  "filter (\<lambda>d. dAggregateID d = ''a'')
     (mDeliveries (dbStore (xDb (snd (forgetBegin durableExec None background ''id2'' someTime ''a'' counterState))))) =
   [\<lparr>dAggregateID = ''a'', dVersion = 2\<rparr>]"
proof -
  let ?fb = "forgetBegin durableExec None background ''id2'' someTime ''a'' counterState"
  have "fst ?fb = Ok (Some 0)" by code_simp
  then have b: "?fb = (Ok (Some 0), snd ?fb)" by (metis prod.collapse)
  have m: "xDurableMatch durableExec \<noteq> None" "xDispatcher durableExec \<noteq> None"
    by (simp_all add: durableExec_def newExecutor_def)
  from tombstone_supersedes[of durableExec, unfolded durableExec_withMemory, OF durableExec_configured
      counterState_histories roomFor_one timeOk_someTime m b, THEN conjunct2, THEN conjunct2, THEN conjunct2]
  show ?thesis by (simp add: filter_empty_conv)
qed

text \<open>A Forget that fails before or while it commits its tombstone.\<close>

lemma failed_begin:
  assumes "configured x" "histories (withMemory x) st H" "roomFor 0 H" "timeOk now" "xDispatcher x = Some D"
    and "forgetBegin (withMemory x) lk c i now agg st = (Fail e, st')"
  shows "xForgetting st' = xForgetting st \<and>
    (histories (withMemory x) st' H \<and> memView (dbStore (xDb st')) = memView (dbStore (xDb st)) \<and> xDisp st' = xDisp st
     \<or> tombstoneCommitted x agg H st st' \<and> (\<exists>cause d. xDisp st' = dpPark D agg (Some cause) [] d))"
proof (cases "st' = st")
  case False
  let ?st0 = "st\<lparr>xForgetting := insert agg (xForgetting st)\<rparr>"
  obtain st1 where c: "agg \<notin> xForgetting st" "commitTombstone (withMemory x) c i now agg ?st0 = (Fail e, st1)"
    "st' = clearForgetting agg st1"
    using assms(6) False by (auto simp: forgetBegin_def writeTombstone_def split: option.splits if_splits outcome.splits prod.splits)
  obtain q d' where w: "writeTx (xEs (withMemory x)) c i now (forgetCommand (esZero (xEs (withMemory x))) agg)
      (Some (tombstoneHook (withMemory x))) (xDb st) = (q, d')" by fastforce
  have f: "xDb st' = d'" "xForgetting st' = xForgetting st"
    using c w by (auto simp: commitTombstone_def split: outcome.splits prod.splits option.splits)
  show ?thesis
  proof (cases q)
    case (Ok ev)
    have "\<exists>cause d. xDisp st' = dpPark D agg (Some cause) [] d"
      using c(2,3) w assms(5) unfolding Ok by (auto simp: commitTombstone_def split: outcome.splits prod.splits) blast
    then show ?thesis using tombstone_store[OF assms(1-4), of c i agg ev st'] w f Ok by simp
  next
    case (Fail e')
    have "xDisp st' = xDisp st" using c(2,3) w Fail by (auto simp: commitTombstone_def)
    moreover have "memView (dbStore d') = memView (dbStore (xDb st)) \<and> mex.allHold TYPE(_) x d' H"
      using mex.tombstone_unwritten[OF _ _ _ _ w, of H] assms(1,2) Fail by (simp add: configured_def mex_bridge)
    moreover have "mex.allHold TYPE(_) x d' H = histories (withMemory x) st' H"
      using f(1) by (simp add: histories_def mex.allHold_def mex.holds_def dbHolds_def)
    ultimately show ?thesis using f by blast
  next
    case (Panic p)
    then show ?thesis using c(2) w by (auto simp: commitTombstone_def)
  qed
qed (use assms(2) in simp)

text \<open>A Forget that fails after its tombstone.\<close>

lemma failed_finish:
  assumes "histories (withMemory x) st H" "xDispatcher x = Some D"
    and "forgetFinish (withMemory x) lk fe c agg tk st = (Fail e, st')"
  shows "histories (withMemory x) st' H \<and>
    memView (dbStore (xDb st')) = memView (dbStore (xDb st)) \<and>
    xForgetting st' = xForgetting st - {agg} \<and>
    xDisp st' = dpPark D agg (Some e) [] (xDisp st)"
proof (intro conjI)
  obtain r st1 where er: "erase (withMemory x) lk (withoutCancel c) agg st = (r, st1)" by fastforce
  have R: "\<not> isOk r \<Longrightarrow> histories (withMemory x) st1 H \<and> memView (dbStore (xDb st1)) = memView (dbStore (xDb st))"
    using mex.erase_spec(5)[OF _ er, of H] assms(1) by (simp add: mex_bridge)
  have S: "r = Fail e \<Longrightarrow> xForgetting st1 = xForgetting st \<and> xDisp st1 = xDisp st"
    using er by (auto simp: erase_def split: outcome.splits option.splits prod.splits)
  have "st' = forgetFailed (withMemory x) agg e st \<or> r = Fail e \<and> st' = forgetFailed (withMemory x) agg e st1"
    using assms(3) er by (auto simp: forgetFinish_def Let_def split: option.splits outcome.splits)
  then show "histories (withMemory x) st' H" "memView (dbStore (xDb st')) = memView (dbStore (xDb st))"
    "xForgetting st' = xForgetting st - {agg}" "xDisp st' = dpPark D agg (Some e) [] (xDisp st)"
    using R S assms(1,2) by (auto simp: forgetFailed_def histories_def)
qed



end
