(* ===== verification/Node_Stream.thy ===== *)
theory Node_Stream
  imports Node_Jobs Recovery_Properties Exec_Properties
begin

text \<open>
  The events of a node's streams: what commands, tombstones, erasures and redeliveries do to
  them and to the delivery log, whatever the outcome.
\<close>

section \<open>Recorded events\<close>

text \<open>
  The stream of an aggregate records exactly these events: each is stored at its position, at
  the current schema, with the state before it and the state after it.
\<close>

definition recorded ::
  "('tx, memory, snapshot_memory, 't, 'd) executor \<Rightarrow> (memory, snapshot_memory) db \<Rightarrow> string \<Rightarrow> 't event list \<Rightarrow> bool" where
  "recorded x d agg evs \<longleftrightarrow> dbHolds (xEs x) d agg (map evAggregate evs) \<and>
     (\<forall>n < length evs. encodes (xEs x) (evs ! n) (map snd (ctStreams (memView (dbStore d)) (streamName agg)) ! n) \<and>
        evAggregateID (evs ! n) = agg \<and> evVersion (evs ! n) = int n + 1 \<and>
        evPreviousAggregate (evs ! n) = (esZero (xEs x) # map evAggregate evs) ! n)"

lemma recordedD:
  assumes "recorded x d agg evs"
  shows "dbHolds (xEs x) d agg (map evAggregate evs)" "map evVersion evs = map int [1..<Suc (length evs)]"
    and "e \<in> set evs \<Longrightarrow> evAggregateID e = agg"
proof -
  show "dbHolds (xEs x) d agg (map evAggregate evs)" using assms by (simp add: recorded_def)
  show "map evVersion evs = map int [1..<Suc (length evs)]"
    using assms by (intro nth_equalityI) (auto simp: recorded_def simp del: upt_Suc)
  show "e \<in> set evs \<Longrightarrow> evAggregateID e = agg" using assms by (auto simp: recorded_def in_set_conv_nth)
qed

lemma recorded_versions:
  assumes "recorded x d agg evs"
  shows "evVersion ` set evs = {1..int (length evs)}" "distinct (map evVersion evs)"
  using history_events(1,2)[OF refl, of evs] recordedD(2)[OF assms] by simp_all

lemma recorded_cong:
  assumes "dbHolds (xEs x) d' agg (map evAggregate evs)" "recorded x d agg evs"
    and "ctStreams (memView (dbStore d')) (streamName agg) = ctStreams (memView (dbStore d)) (streamName agg)"
  shows "recorded x d' agg evs"
  using assms by (simp add: recorded_def)

lemma recorded_replay:
  fixes x :: "(memory_tx, memory, snapshot_memory, 't, 'd) executor"
  assumes "recorded (withMemory x) d agg evs" "codecOk (esCodec (xEs x))" "ctxErr c = None"
  shows "replay (xEs (withMemory x)) c agg fromV toV fn (dbStore d) w =
    (Ok (), fold fn (filter (\<lambda>e. fromV \<le> evVersion e \<and> (toV = 0 \<or> evVersion e \<le> toV)) evs) w)"
proof -
  let ?hs = "map evAggregate evs" and ?es = "xEs (withMemory x)"
  have h: "mex.holds TYPE('d) x d agg ?hs" using recordedD(1)[OF assms(1)] by (simp add: mex.holds_def dbHolds_def)
  obtain ies where ies: "deserializeEvents (map snd (ctStreams (memView (dbStore d)) (streamName agg))) = Ok ies"
    "evChain ?es (esZero ?es) ies ?hs"
    by (rule mex.holds_decodes[OF h]) simp
  have len: "length (storedEvents ?es c agg (esZero ?es) ies ?hs) = length evs"
    by (metis storedEvents_maps(1)[OF ies(2)] length_map)
  have "storedEvents ?es c agg (esZero ?es) ies ?hs = evs"
    using assms(1) storedEvents_encodes[OF ies(2,1)] len
    by (intro nth_equalityI) (auto simp: recorded_def)
  then show ?thesis
    using mex.replay_spec[OF _ h _ ies(1), of c fromV toV fn w] assms(2,3) by (simp add: memReadFrom_def)
qed

lemma recorded_replayed:
  assumes "recorded (withMemory x) d agg evs" "codecOk (esCodec (xEs x))"
  shows "replayed (withMemory x) (dbStore d) agg = evs"
proof -
  have "\<forall>e \<in> set evs. 1 \<le> evVersion e" using recorded_versions(1)[OF assms(1)] by auto
  then show ?thesis
    using recorded_replay[OF assms, of background 1 0 "\<lambda>e es. es @ [e]" "[]"]
    by (simp add: replayed_def fold_snoc filter_True)
qed

lemma recorded_empty: "dbHolds (xEs x) d agg [] \<Longrightarrow> recorded x d agg []"
  by (simp add: recorded_def)


lemma recorded_append:
  assumes "recorded x d agg evs" "ev = producedEvent (xEs x) i now cmd (map evAggregate evs)" "cmdAggregateID cmd = agg"
    and "encodes (xEs x) ev b" "dbHolds (xEs x) d' agg (map evAggregate evs @ [evAggregate ev])"
    and "ctStreams (memView (dbStore d')) (streamName agg) =
      ctStreams (ctAppend (streamName agg) (int (length evs) + 1) b (memView (dbStore d))) (streamName agg)"
  shows "recorded x d' agg (evs @ [ev])"
proof -
  let ?st = "ctStreams (memView (dbStore d)) (streamName agg)"
  have st: "contiguous fst ?st" "length ?st = length evs"
    using recordedD(1)[OF assms(1)] by (auto simp: dbHolds_def represents_def Let_def)
  then have "\<forall>y \<in> set ?st. fst y < int (length evs) + 1" using contiguous_bounds[OF st(1)] by fastforce
  then have st': "map snd (ctStreams (memView (dbStore d')) (streamName agg)) = map snd ?st @ [b]"
    using assms(6) by (simp add: ctAppend_def insertBy_last)
  have pre: "evPreviousAggregate ev = (esZero (xEs x) # map evAggregate evs @ [evAggregate ev]) ! length evs"
    unfolding assms(2) by (cases evs rule: rev_cases) (auto simp: producedEvent_def nth_append)
  have old: "(esZero (xEs x) # map evAggregate evs @ [y]) ! n = (esZero (xEs x) # map evAggregate evs) ! n"
    if "n < length evs" for n y using that by (cases n) (auto simp: nth_append)
  have "evAggregateID ev = agg" "evVersion ev = int (length evs) + 1" using assms(2,3) by (simp_all add: producedEvent_def)
  then show ?thesis
    using assms(1,4,5) pre old st(2) unfolding recorded_def st'
    by (auto simp: nth_append less_Suc_eq)
qed

end
