(* ===== verification/Node_Correct.thy ===== *)
theory Node_Correct
  imports Node_Stream
begin

text \<open>
  Every step of a node keeps its invariant: the streams record events, every durable job is
  about a stored event, and every durable event of an aggregate nobody asked to forget keeps
  the promise of durable delivery.
\<close>

section \<open>The invariant\<close>

text \<open>The delivery log names stored events, each once.\<close>

definition logOk :: "(string \<Rightarrow> 't event list) \<Rightarrow> delivery list \<Rightarrow> bool" where
  "logOk E ds \<longleftrightarrow> distinct ds \<and>
     (\<forall>d \<in> set ds. 1 \<le> dVersion d \<and> dVersion d \<le> int (length (E (dAggregateID d))))"

lemma logOk_Nil [simp]: "logOk E []"
  by (simp add: logOk_def)

lemma logOk_filter: "logOk E ds \<Longrightarrow> (\<And>a. a \<noteq> agg \<Longrightarrow> E' a = E a) \<Longrightarrow> logOk E' (filter (\<lambda>d. dAggregateID d \<noteq> agg) ds)"
  by (auto simp: logOk_def)

lemma logOk_grow: "logOk E ds \<Longrightarrow> logOk (E(agg := E agg @ [ev])) ds"
  by (force simp: logOk_def)

lemma logOk_snoc:
  assumes "logOk E ds"
  shows "logOk (E(agg := E agg @ [ev])) (ds @ [\<lparr>dAggregateID = agg, dVersion = int (length (E agg)) + 1\<rparr>])"
proof -
  have "\<lparr>dAggregateID = agg, dVersion = int (length (E agg)) + 1\<rparr> \<notin> set ds" using assms by (force simp: logOk_def)
  then show ?thesis using logOk_grow[OF assms, of agg ev] by (auto simp: logOk_def)
qed

lemma logOk_removed: "logOk E ds \<Longrightarrow> set ds' \<subseteq> set ds \<Longrightarrow> distinct ds' \<Longrightarrow> logOk E ds'"
  by (auto simp: logOk_def)

definition nodeOk ::
  "(memory_tx, memory, snapshot_memory, 't, 't disp) executor \<Rightarrow> 't dispatcher_config \<Rightarrow> (string \<Rightarrow> 't event list)
     \<Rightarrow> 't node \<Rightarrow> bool" where
  "nodeOk x cf E n \<longleftrightarrow>
     (\<forall>agg. recorded x (xDb (ndState n)) agg (E agg)) \<and> jobsKeyed (ndForgotten n) E (xDisp (ndState n)) \<and>
     xForgetting (ndState n) \<subseteq> ndForgotten n \<and> logOk E (mDeliveries (dbStore (xDb (ndState n)))) \<and>
     (\<forall>agg. agg \<notin> ndForgotten n \<longrightarrow> (\<forall>e \<in> set (E agg). isDurable x (evEventName e) \<longrightarrow> promised cf n e))"

lemma nodeOkD:
  assumes "nodeOk x cf E n"
  shows "recorded x (xDb (ndState n)) agg (E agg)" "jobsKeyed (ndForgotten n) E (xDisp (ndState n))"
    "xForgetting (ndState n) \<subseteq> ndForgotten n"
    "agg \<notin> ndForgotten n \<Longrightarrow> e \<in> set (E agg) \<Longrightarrow> isDurable x (evEventName e) \<Longrightarrow> promised cf n e"
    "logOk E (mDeliveries (dbStore (xDb (ndState n))))"
  using assms by (auto simp: nodeOk_def)

lemma recorded_other:
  assumes "recorded x d agg evs" "memInv (dbStore d')" "smSnaps (dbSnaps d') agg = smSnaps (dbSnaps d) agg"
    and "ctStreams (memView (dbStore d')) (streamName agg) = ctStreams (memView (dbStore d)) (streamName agg)"
  shows "recorded x d' agg evs"
proof (rule recorded_cong[OF _ assms(1,4)])
  show "dbHolds (xEs x) d' agg (map evAggregate evs)"
    using recordedD(1)[OF assms(1)] assms(2) represents_other[of "memView (dbStore d')" agg "memView (dbStore d)" "smSnaps (dbSnaps d')" "smSnaps (dbSnaps d)" "xEs x", OF assms(4,3)]
    by (simp add: dbHolds_def)
qed

lemma recorded_inv: "recorded x d agg evs \<Longrightarrow> memInv (dbStore d)"
  by (simp add: recorded_def dbHolds_def)

lemma recorded_length:
  "recorded x d agg evs \<Longrightarrow> streamLength agg d = length evs"
  by (auto simp: recorded_def dbHolds_def represents_def Let_def streamLength_def memView_def)

lemma recorded_mex:
  fixes x :: "(memory_tx, memory, snapshot_memory, 't, 'd) executor"
  shows "recorded (withMemory x) d agg evs \<Longrightarrow> mex.holds TYPE('d) x d agg (map evAggregate evs)"
  by (simp add: recorded_def mex.holds_def dbHolds_def)

lemma nodeOk_start: "nodeOk (withMemory x) cf (\<lambda>_. []) startNode"
  using emptyDb_holds[of "xEs (withMemory x)"]
  by (auto simp: nodeOk_def startNode_def emptyDb_def newMemory_def intro!: recorded_empty)

lemma promised_mono:
  assumes "promised cf n e" "set (ndDead n) \<subseteq> set (ndDead n')" "set (ndHandled n) \<subseteq> set (ndHandled n')"
    and "\<lparr>dAggregateID = evAggregateID e, dVersion = evVersion e\<rparr> \<in> set (mDeliveries (dbStore (xDb (ndState n)))) \<Longrightarrow>
      promised cf n' e"
  shows "promised cf n' e"
  using assms unfolding promised_def by blast

text \<open>A write to one aggregate.\<close>

lemma recorded_update:
  assumes "\<And>a. recorded x d a (E a)" "recorded x d' agg evs"
    and "\<And>a. a \<noteq> agg \<Longrightarrow> smSnaps (dbSnaps d') a = smSnaps (dbSnaps d) a"
    and "\<And>a. a \<noteq> agg \<Longrightarrow> ctStreams (memView (dbStore d')) (streamName a) = ctStreams (memView (dbStore d)) (streamName a)"
  shows "recorded x d' a ((E(agg := evs)) a)"
  using recorded_other[OF assms(1) recorded_inv[OF assms(2)] assms(3) assms(4)] assms(2) by (cases "a = agg") auto

text \<open>A step that keeps store, handled events and fences.\<close>

lemma nodeOk_dispatch:
  assumes "nodeOk x cf E n" "xDb st' = xDb (ndState n)" "jobsKeyed (ndForgotten n) E (xDisp st')"
    and "xForgetting st' \<subseteq> ndForgotten n"
  shows "nodeOk x cf E (n\<lparr>ndState := st'\<rparr>)"
  using assms by (auto simp: nodeOk_def promised_def)

lemma nodeOk_crash: "nodeOk x cf E n \<Longrightarrow> nodeOk x cf E (crashed n)"
  unfolding crashed_def by (rule nodeOk_dispatch) simp_all

section \<open>Commands\<close>

lemma setExec_simps [simp]:
  "xDb (setExec e st) = xDb e" "xDisp (setExec e st) = xDisp e" "xForgetting (setExec e st) = xForgetting e"
  "xDb (execPart st) = xDb st" "xDisp (execPart st) = xDisp st" "xForgetting (execPart st) = xForgetting st"
  by (simp_all add: setExec_def execPart_def)

lemma jobsKeyed_enqueuedTo:
  assumes "enqueuedTo x c ev d d'" "xDispatcher x = Some memDispatcher" "jobsKeyed F E d"
    and "ev \<in> set (E (evAggregateID ev))"
  shows "jobsKeyed F E d'"
proof -
  have "jobsKeyed F E (snd (dispEnqueue c \<lparr>rqEvent = ev, rqAck = ackFor x ev, rqKind = DispatchEvent\<rparr> d))"
    using assms(3,4) by (intro jobsKeyed_enqueue) (simp_all add: keyed_def ackFor_def)
  then show ?thesis
    using assms(1-3) by (auto simp: enqueuedTo_def parkIfDurable_def memDispatcher_def cong: jobsKeyed_cong)
qed


text \<open>The hypotheses the executor's lemmas share.\<close>

lemma node_pre:
  fixes x :: "(memory_tx, memory, snapshot_memory, 't, 't disp) executor"
  assumes "configured x" "nodeOk (withMemory x) cf E n" "int (streamLength agg (xDb (ndState n))) + 1 < maxInt64"
  shows "codecOk (esCodec (xEs (withMemory x)))" "i64 (esSchema (xEs (withMemory x))) = esSchema (xEs (withMemory x))"
    "mex.projSafe TYPE('t) TYPE('t disp) x" "mex.holds TYPE('t disp) x (xDb (ndState n)) agg (map evAggregate (E agg))"
    "int (length (map evAggregate (E agg))) + 1 < maxInt64"
  using assms(1,3) recorded_mex[OF nodeOkD(1)[OF assms(2)]] recorded_length[OF nodeOkD(1)[OF assms(2)]]
  by (auto simp: configured_def mex_bridge)

text \<open>A write that recorded an event.\<close>

lemma appended_ok:
  fixes x :: "(memory_tx, memory, snapshot_memory, 't, 't disp) executor"
  assumes ok: "nodeOk (withMemory x) cf E n"
    and "ev = producedEvent (xEs (withMemory x)) i now cmd (map evAggregate (E agg))" "cmdAggregateID cmd = agg"
    and "encodes (xEs (withMemory x)) ev b"
    and "mex.holds TYPE('t disp) x d' agg (map evAggregate (E agg) @ [evAggregate ev])"
    and "ctStreams (memView (dbStore d')) =
      ctStreams (ctAppend (streamName agg) (int (length (E agg)) + 1) b (memView (dbStore (xDb (ndState n)))))"
    and "\<And>a. a \<noteq> agg \<Longrightarrow> smSnaps (dbSnaps d') a = smSnaps (dbSnaps (xDb (ndState n))) a"
  shows "recorded (withMemory x) d' a ((E(agg := E agg @ [ev])) a)"
proof -
  have hd: "dbHolds (xEs (withMemory x)) d' agg (map evAggregate (E agg) @ [evAggregate ev])"
    using assms(5) by (simp add: mex.holds_def dbHolds_def)
  have "recorded (withMemory x) d' agg (E agg @ [ev])"
    by (rule recorded_append[OF nodeOkD(1)[OF ok] assms(2-4) hd]) (simp add: assms(6))
  then show ?thesis
    by (rule recorded_update[OF nodeOkD(1)[OF ok]]) (use assms(6,7) in \<open>simp_all add: ctAppend_def\<close>)
qed

lemma kept_ok:
  fixes x :: "(memory_tx, memory, snapshot_memory, 't, 't disp) executor"
  assumes ok: "nodeOk (withMemory x) cf E n" and "mex.holds TYPE('t disp) x d' agg (map evAggregate (E agg))"
    and "ctStreams (memView (dbStore d')) = ctStreams (memView (dbStore (xDb (ndState n))))"
    and "\<And>a. a \<noteq> agg \<Longrightarrow> smSnaps (dbSnaps d') a = smSnaps (dbSnaps (xDb (ndState n))) a"
  shows "recorded (withMemory x) d' a (E a)"
proof -
  have "recorded (withMemory x) d' agg (E agg)"
    using assms(2,3) by (intro recorded_cong[OF _ nodeOkD(1)[OF ok]]) (simp_all add: mex.holds_def dbHolds_def)
  then show ?thesis using recorded_update[OF nodeOkD(1)[OF ok] _ assms(4), of agg "E agg" a] assms(3) by simp
qed

lemma command_ok:
  fixes x :: "(memory_tx, memory, snapshot_memory, 't, 't disp) executor"
  assumes cfg: "configured x" "xDispatcher x = Some memDispatcher" and ok: "nodeOk (withMemory x) cf E n"
    and ex: "executeAsync (withMemory x) lk c i now cmd (execPart (ndState n)) = (r, e')" and "timeOk now"
    and room: "int (streamLength (cmdAggregateID cmd) (xDb (ndState n))) + 1 < maxInt64"
    and disp: "d' = xDisp e' \<or> d' = xDisp (ndState n)"
  shows "\<exists>E'. nodeOk (withMemory x) cf E' (n\<lparr>ndState := setExec (e'\<lparr>xDisp := d'\<rparr>) (ndState n)\<rparr>)"
proof -
  let ?agg = "cmdAggregateID cmd" and ?x = "withMemory x"
  let ?v = "memView (dbStore (xDb (ndState n)))" and ?v' = "memView (dbStore (xDb e'))"
  let ?n' = "n\<lparr>ndState := setExec (e'\<lparr>xDisp := d'\<rparr>) (ndState n)\<rparr>"
  note pre = node_pre[OF cfg(1) ok room]
  have eff: "mex.commandEffect x c i now cmd (map evAggregate (E ?agg)) (execPart (ndState n)) e'"
    by (rule mex.executeAsync_commandEffect[OF pre(1,2) assms(5) _ pre(5,3) ex]) (simp add: pre(4))
  have cells: "\<And>a. a \<noteq> ?agg \<Longrightarrow> smSnaps (dbSnaps (xDb e')) a = smSnaps (dbSnaps (xDb (ndState n))) a"
    and fg: "xForgetting e' = xForgetting (ndState n)"
    using eff by (simp_all add: mex.commandEffect_def Let_def)
  consider (kept) "mex.holds TYPE('t disp) x (xDb e') ?agg (map evAggregate (E ?agg))" "xDisp e' = xDisp (ndState n)"
      "ctStreams ?v' = ctStreams ?v" "ctDeliveries ?v' = ctDeliveries ?v"
    | (committed) ev b where "ev = producedEvent (xEs ?x) i now cmd (map evAggregate (E ?agg))" "encodes (xEs ?x) ev b"
      "mex.holds TYPE('t disp) x (xDb e') ?agg (map evAggregate (E ?agg) @ [evAggregate ev])"
      "?v' = mex.hookEffect TYPE('t disp) x (idempotencyKey cmd) ev (ctAppend (streamName ?agg) (int (length (E ?agg)) + 1) b ?v)"
      "enqueuedTo ?x c ev (xDisp (ndState n)) (xDisp e')"
    using eff by (auto simp: mex.commandEffect_def Let_def ctPutReceipt_def simp del: memView_sel)
  then show ?thesis
  proof cases
    case kept
    then show ?thesis
      using ok disp fg kept_ok[OF ok kept(1,3) cells] by (intro exI[of _ E]) (auto simp: nodeOk_def promised_def)
  next
    case (committed ev b)
    let ?E = "E(?agg := E ?agg @ [ev])"
    have ev: "evAggregateID ev = ?agg" using committed(1) by (simp add: producedEvent_def)
    have "recorded ?x (xDb e') a (?E a)" for a
      by (rule appended_ok[OF ok committed(1) refl committed(2,3) _ cells]) (use committed(4) in simp_all)
    moreover have dl: "mDeliveries (dbStore (xDb e')) = mDeliveries (dbStore (xDb (ndState n))) @
        (if isDurable x (evEventName ev) then [\<lparr>dAggregateID = evAggregateID ev, dVersion = evVersion ev\<rparr>] else [])"
      using arg_cong[OF committed(4), of ctDeliveries] by (simp add: mex.hookEffect_deliveries ctAppend_def)
    moreover have "jobsKeyed (ndForgotten n) ?E (xDisp (ndState n))"
      by (rule jobsKeyed_mono[OF nodeOkD(2)[OF ok]]) auto
    then have "jobsKeyed (ndForgotten n) ?E d'"
      using disp jobsKeyed_enqueuedTo[OF committed(5)] cfg(2) ev by auto
    moreover have "promised cf ?n' e" if "promised cf n e" for e
      by (rule promised_mono[OF that]) (use dl in \<open>simp_all add: promised_def\<close>)
    moreover have "promised cf ?n' ev" if "isDurable x (evEventName ev)" using that dl by (simp add: promised_def)
    moreover have "logOk ?E (mDeliveries (dbStore (xDb e')))"
      using dl logOk_grow[OF nodeOkD(5)[OF ok], of ?agg ev] logOk_snoc[OF nodeOkD(5)[OF ok], of ?agg ev] committed(1)
      by (simp add: producedEvent_def)
    ultimately show ?thesis
      using ok fg by (intro exI[of _ ?E]) (auto simp: nodeOk_def)
  qed
qed

section \<open>Forget\<close>

lemma jobsKeyed_tombstoneTo:
  assumes "tombstoneTo x c agg d d'" "xDispatcher x = Some memDispatcher" "jobsKeyed F E d" "agg \<in> F"
  shows "jobsKeyed F E d'"
proof -
  have "jobsKeyed F E (snd (dispEnqueue c \<lparr>rqEvent = ev, rqAck = Some (evAggregateID ev, evVersion ev), rqKind = DispatchTombstone\<rparr>
      (regSupersede agg d)))" if "evAggregateID ev = agg" for ev
    using assms(3,4) that by (intro jobsKeyed_enqueue) (simp_all add: keyed_def cong: jobsKeyed_cong)
  then show ?thesis
    using assms(1-3) by (auto simp: tombstoneTo_def memDispatcher_def cong: jobsKeyed_cong)
qed

text \<open>What the first half of \<open>Forget\<close> does to the streams and to the deliveries of the others.\<close>

lemma tombstone_streams:
  fixes x :: "(memory_tx, memory, snapshot_memory, 't, 't disp) executor"
  assumes cfg: "configured x" and ok: "nodeOk (withMemory x) cf E n"
    and ct: "commitTombstone (withMemory x) c i now agg e0 = (r, e')" and "timeOk now" "xDb e0 = xDb (ndState n)"
    and room: "int (streamLength agg (xDb (ndState n))) + 1 < maxInt64"
  shows "xForgetting e' = xForgetting e0" "tombstoneTo (withMemory x) c agg (xDisp e0) (xDisp e')"
    and "\<exists>E'. (\<forall>a. recorded (withMemory x) (xDb e') a (E' a)) \<and> (\<forall>a. a \<noteq> agg \<longrightarrow> E' a = E a) \<and>
      logOk E' (mDeliveries (dbStore (xDb e')))"
    and "dAggregateID d \<noteq> agg \<Longrightarrow> d \<in> set (mDeliveries (dbStore (xDb (ndState n)))) \<Longrightarrow>
      d \<in> set (mDeliveries (dbStore (xDb e')))"
proof -
  let ?x = "withMemory x" and ?hs = "map evAggregate (E agg)"
  let ?v = "memView (dbStore (xDb (ndState n)))" and ?v' = "memView (dbStore (xDb e'))"
  let ?cmd = "forgetCommand (esZero (xEs ?x)) agg"
  note pre = node_pre[OF cfg ok room]
  have pre4: "mex.holds TYPE('t disp) x (xDb e0) agg ?hs" using pre(4) assms(5) by simp
  note enq = mex.tombstone_enqueued[OF pre(1,2) assms(4) pre4 pre(5,3) ct]
  note any = mex.tombstone_any[OF pre(1,2) assms(4) pre4 pre(5,3) ct]
  show "xForgetting e' = xForgetting e0" "tombstoneTo (withMemory x) c agg (xDisp e0) (xDisp e')" using enq by simp_all
  have cells: "\<And>a. a \<noteq> agg \<Longrightarrow> smSnaps (dbSnaps (xDb e')) a = smSnaps (dbSnaps (xDb (ndState n))) a"
    using any(1) assms(5) by simp
  consider (kept) "mex.holds TYPE('t disp) x (xDb e') agg ?hs" "?v' = ?v"
    | (written) ev b where "ev = producedEvent (xEs ?x) i now ?cmd ?hs" "encodes (xEs ?x) ev b"
      "mex.holds TYPE('t disp) x (xDb e') agg (?hs @ [evAggregate ev])"
      "?v' = mex.tombstoneEffect TYPE('t disp) x ev (ctAppend (streamName agg) (int (length ?hs) + 1) b ?v)"
    using any(2) assms(5) by (elim disjE exE conjE) simp_all
  then have "(\<exists>E'. (\<forall>a. recorded ?x (xDb e') a (E' a)) \<and> (\<forall>a. a \<noteq> agg \<longrightarrow> E' a = E a) \<and> logOk E' (ctDeliveries ?v')) \<and>
      (dAggregateID d \<noteq> agg \<longrightarrow> d \<in> set (ctDeliveries ?v) \<longrightarrow> d \<in> set (ctDeliveries ?v'))"
  proof cases
    case kept
    then show ?thesis using kept_ok[OF ok kept(1) _ cells] nodeOkD(5)[OF ok]
      by (intro conjI exI[of _ E]) (simp_all del: memView_sel add: memView_sel[symmetric])
  next
    case (written ev b)
    have "recorded ?x (xDb e') a ((E(agg := E agg @ [ev])) a)" for a
      by (rule appended_ok[OF ok written(1) _ written(2,3) _ cells])
        (simp_all add: written(4) mex.tombstoneEffect_def contents_defs forgetCommand_def)
    moreover have "logOk (E(agg := E agg @ [ev])) (ctDeliveries ?v')"
      using logOk_snoc[OF logOk_filter[OF nodeOkD(5)[OF ok], where agg = agg and E' = E], of agg ev] logOk_grow[OF nodeOkD(5)[OF ok], of agg ev]
      by (simp add: written(4,1) mex.tombstoneEffect_def contents_defs producedEvent_def forgetCommand_def)
    ultimately show ?thesis
      by (intro conjI exI[of _ "E(agg := E agg @ [ev])"])
        (simp_all add: written(4,1) mex.tombstoneEffect_def contents_defs producedEvent_def forgetCommand_def del: memView_sel)
  qed
  then show "\<exists>E'. (\<forall>a. recorded ?x (xDb e') a (E' a)) \<and> (\<forall>a. a \<noteq> agg \<longrightarrow> E' a = E a) \<and>
      logOk E' (mDeliveries (dbStore (xDb e')))"
    "dAggregateID d \<noteq> agg \<Longrightarrow> d \<in> set (mDeliveries (dbStore (xDb (ndState n)))) \<Longrightarrow> d \<in> set (mDeliveries (dbStore (xDb e')))"
    by simp_all
qed

text \<open>Either half of \<open>Forget\<close>, in terms of what it does to streams, deliveries and dispatcher.\<close>

lemma forgetting_ok:
  assumes ok: "nodeOk x cf E n" and F: "ndForgotten n' = insert agg (ndForgotten n)"
    and "\<And>a. recorded x (xDb (ndState n')) a (E' a)" "\<And>a. a \<noteq> agg \<Longrightarrow> E' a = E a"
    and "\<And>d. dAggregateID d \<noteq> agg \<Longrightarrow> d \<in> set (mDeliveries (dbStore (xDb (ndState n)))) \<Longrightarrow>
      d \<in> set (mDeliveries (dbStore (xDb (ndState n'))))"
    and "\<And>E'. jobsKeyed (ndForgotten n') E' (xDisp (ndState n)) \<Longrightarrow> jobsKeyed (ndForgotten n') E' (xDisp (ndState n'))"
    and "xForgetting (ndState n') \<subseteq> ndForgotten n'" "ndHandled n' = ndHandled n" "ndDead n' = ndDead n"
    and "logOk E' (mDeliveries (dbStore (xDb (ndState n'))))"
  shows "nodeOk x cf E' n'"
  unfolding nodeOk_def
proof (intro conjI allI impI ballI)
  show "recorded x (xDb (ndState n')) a (E' a)" for a by (rule assms(3))
  show "jobsKeyed (ndForgotten n') E' (xDisp (ndState n'))"
    by (rule assms(6), rule jobsKeyed_mono[OF nodeOkD(2)[OF ok]]) (use F assms(4) in auto)
  show "xForgetting (ndState n') \<subseteq> ndForgotten n'" "logOk E' (mDeliveries (dbStore (xDb (ndState n'))))" by (rule assms)+
  fix a e
  assume a: "a \<notin> ndForgotten n'" "e \<in> set (E' a)" "isDurable x (evEventName e)"
  have "a \<noteq> agg" "a \<notin> ndForgotten n" using a(1) F by auto
  then have p: "promised cf n e" "evAggregateID e \<noteq> agg"
    using nodeOkD(4)[OF ok _ _ a(3)] assms(4) a(2) recordedD(3)[OF assms(3) a(2)] by simp_all
  show "promised cf n' e"
    by (rule promised_mono[OF p(1)]) (use assms(5)[of "\<lparr>dAggregateID = evAggregateID e, dVersion = evVersion e\<rparr>"]
        p(2) assms(8,9) in \<open>simp_all add: promised_def\<close>)
qed

lemma forget_ok:
  fixes x :: "(memory_tx, memory, snapshot_memory, 't, 't disp) executor"
  assumes cfg: "configured x" "xDispatcher x = Some memDispatcher" and ok: "nodeOk (withMemory x) cf E n"
    and fb: "forgetBegin (withMemory x) lk c i now agg (execPart (ndState n)) = (r, e')" and "timeOk now"
    and room: "int (streamLength agg (xDb (ndState n))) + 1 < maxInt64"
  shows "\<exists>E'. nodeOk (withMemory x) cf E' (n\<lparr>ndState := setExec e' (ndState n), ndForgotten := insert agg (ndForgotten n)\<rparr>)"
proof (cases "e' = execPart (ndState n)")
  case True
  then have "nodeOk (withMemory x) cf E (n\<lparr>ndState := setExec e' (ndState n), ndForgotten := insert agg (ndForgotten n)\<rparr>)"
    using nodeOkD(1,3,5)[OF ok] by (intro forgetting_ok[OF ok, where agg = agg and E' = E]) auto
  then show ?thesis by blast
next
  case False
  let ?e0 = "(execPart (ndState n))\<lparr>xForgetting := insert agg (xForgetting (ndState n))\<rparr>"
  obtain r1 e1 where ct: "commitTombstone (withMemory x) c i now agg ?e0 = (r1, e1)" by fastforce
  have e': "xDb e' = xDb e1" "xDisp e' = xDisp e1" "xForgetting e' \<subseteq> xForgetting e1"
    using fb False ct by (auto simp: forgetBegin_def writeTombstone_def split: option.splits if_splits outcome.splits)
  have db0: "xDb ?e0 = xDb (ndState n)" by simp
  note T = tombstone_streams[OF cfg(1) ok ct assms(5) db0 room]
  obtain E' where E': "\<And>a. recorded (withMemory x) (xDb e1) a (E' a)" "\<And>a. a \<noteq> agg \<Longrightarrow> E' a = E a"
    "logOk E' (mDeliveries (dbStore (xDb e1)))" using T(3) by blast
  have "nodeOk (withMemory x) cf E' (n\<lparr>ndState := setExec e' (ndState n), ndForgotten := insert agg (ndForgotten n)\<rparr>)"
    by (rule forgetting_ok[OF ok _ _ E'(2), where agg = agg])
      (use E'(1,3) T(1,4) e' nodeOkD(3)[OF ok] jobsKeyed_tombstoneTo[OF T(2)] cfg(2) in auto)
  then show ?thesis by blast
qed

lemma erase_streams:
  fixes x :: "(memory_tx, memory, snapshot_memory, 't, 't disp) executor"
  assumes ok: "nodeOk (withMemory x) cf E n" and er: "Exec.erase (withMemory x) lk c agg (execPart (ndState n)) = (q, e1)"
  shows "\<exists>E'. (\<forall>a. recorded (withMemory x) (xDb e1) a (E' a)) \<and> (\<forall>a. a \<noteq> agg \<longrightarrow> E' a = E a) \<and>
      logOk E' (mDeliveries (dbStore (xDb e1)))"
    and "dAggregateID d \<noteq> agg \<Longrightarrow> d \<in> set (mDeliveries (dbStore (xDb (ndState n)))) \<Longrightarrow>
      d \<in> set (mDeliveries (dbStore (xDb e1)))"
    and "xDisp e1 = xDisp (ndState n) \<and> xForgetting e1 \<subseteq> xForgetting (ndState n)"
proof -
  let ?x = "withMemory x" and ?v = "memView (dbStore (xDb (ndState n)))" and ?v1 = "memView (dbStore (xDb e1))"
  have all: "mex.allHold TYPE('t disp) x (xDb (execPart (ndState n))) (\<lambda>a. map evAggregate (E a))"
    using recorded_mex[OF nodeOkD(1)[OF ok]] by (simp add: mex.allHold_def)
  note sp = mex.erase_spec[OF all er, simplified setExec_simps]
  have keeps: "recorded ?x (xDb e1) a (E a)"
    if "mex.holds TYPE('t disp) x (xDb e1) a (map evAggregate (E a))"
      "ctStreams ?v1 (streamName a) = ctStreams ?v (streamName a)" for a
    using that by (intro recorded_cong[OF _ nodeOkD(1)[OF ok]]) (simp_all add: mex.holds_def dbHolds_def)
  have log: "logOk E (ctDeliveries ?v)" using nodeOkD(5)[OF ok] by simp
  have "\<exists>E'. (\<forall>a. recorded ?x (xDb e1) a (E' a)) \<and> (\<forall>a. a \<noteq> agg \<longrightarrow> E' a = E a) \<and> logOk E' (ctDeliveries ?v1)"
  proof (cases "isOk q")
    case True
    then have all': "mex.holds TYPE('t disp) x (xDb e1) a (((\<lambda>a. map evAggregate (E a))(agg := [])) a)" for a
      using sp(1) by (simp add: mex.allHold_def)
    have "recorded ?x (xDb e1) agg []"
      using all'[of agg] by (intro recorded_empty) (simp add: mex.holds_def dbHolds_def)
    moreover have "recorded ?x (xDb e1) a (E a)" if "a \<noteq> agg" for a
      using keeps[of a] all'[of a] sp(7)[OF that] that by simp
    ultimately have "recorded ?x (xDb e1) a ((E(agg := [])) a)" for a by simp
    moreover have "logOk (E(agg := [])) (ctDeliveries ?v1)"
      unfolding sp(3)[OF True] by (rule logOk_filter[OF log]) simp
    ultimately show ?thesis by (intro exI[of _ "E(agg := [])"]) simp
  next
    case False
    then have "recorded ?x (xDb e1) a (E a)" for a using sp(5) keeps[of a] by (simp add: mex.allHold_def)
    then show ?thesis using sp(5)[OF False] log by (intro exI[of _ E]) (simp del: memView_sel)
  qed
  then show "\<exists>E'. (\<forall>a. recorded ?x (xDb e1) a (E' a)) \<and> (\<forall>a. a \<noteq> agg \<longrightarrow> E' a = E a) \<and>
      logOk E' (mDeliveries (dbStore (xDb e1)))" by simp
  have "dAggregateID d \<noteq> agg \<Longrightarrow> d \<in> set (ctDeliveries ?v) \<Longrightarrow> d \<in> set (ctDeliveries ?v1)"
    using sp(3,5) by (cases "isOk q") (simp_all del: memView_sel)
  then show "dAggregateID d \<noteq> agg \<Longrightarrow> d \<in> set (mDeliveries (dbStore (xDb (ndState n)))) \<Longrightarrow> d \<in> set (mDeliveries (dbStore (xDb e1)))"
    by simp
  show "xDisp e1 = xDisp (ndState n) \<and> xForgetting e1 \<subseteq> xForgetting (ndState n)" using sp(8) by simp
qed

lemma erase_ok:
  fixes x :: "(memory_tx, memory, snapshot_memory, 't, 't disp) executor"
  assumes cfg: "xDispatcher x = Some memDispatcher" and ok: "nodeOk (withMemory x) cf E n"
    and fg: "agg \<in> xForgetting (ndState n)"
    and ff: "forgetFinish (withMemory x) lk fe c agg tk (execPart (ndState n)) = (r, e')"
  shows "\<exists>E'. nodeOk (withMemory x) cf E' (n\<lparr>ndState := setExec e' (ndState n)\<rparr>)"
proof -
  obtain q e1 where er: "Exec.erase (withMemory x) lk (withoutCancel c) agg (execPart (ndState n)) = (q, e1)" by fastforce
  note S = erase_streams[OF ok er]
  have e': "xDb e' = xDb (ndState n) \<or> xDb e' = xDb e1" "xForgetting e' \<subseteq> xForgetting (ndState n)"
    "ident (xDisp e') = ident (xDisp (ndState n))"
    using ff er S(3) cfg
    by (auto simp: forgetFinish_def forgetFailed_def memDispatcher_def Let_def split: option.splits outcome.splits)
  obtain E' where E': "\<And>a. recorded (withMemory x) (xDb e') a (E' a)" "\<And>a. a \<noteq> agg \<Longrightarrow> E' a = E a"
      "logOk E' (mDeliveries (dbStore (xDb e')))"
    using e'(1) S(1) nodeOkD(1,5)[OF ok] by metis
  have F: "insert agg (ndForgotten n) = ndForgotten n" using fg nodeOkD(3)[OF ok] by blast
  have "nodeOk (withMemory x) cf E' (n\<lparr>ndState := setExec e' (ndState n)\<rparr>)"
    by (rule forgetting_ok[OF ok _ _ E'(2), where agg = agg])
      (use E'(1,3) e' S(2) nodeOkD(3)[OF ok] F jobsKeyed_cong[OF e'(3)] in auto)
  then show ?thesis by blast
qed

end
