(* ===== verification/Node_Run.thy ===== *)
theory Node_Run
  imports Node_Correct
begin

text \<open>
  The remaining steps of a node: a worker's run, the operations of other goroutines, and the
  redeliveries. A run takes an entry out of the delivery log only when its event was handled;
  a redelivery takes out only entries whose event does not exist.
\<close>

section \<open>Taking entries out of the log\<close>

text \<open>A step that changes the store by removing deliveries only.\<close>

lemma nodeOk_removed:
  assumes ok: "nodeOk x cf E n" and st: "xDb st' = (xDb (ndState n))\<lparr>dbStore := (dbStore (xDb (ndState n)))\<lparr>mDeliveries := ds\<rparr>\<rparr>"
    and "jobsKeyed (ndForgotten n) E (xDisp st')" "xForgetting st' \<subseteq> ndForgotten n"
    and n': "ndState n' = st'" "ndForgotten n' = ndForgotten n"
      "set (ndHandled n) \<subseteq> set (ndHandled n')" "set (ndDead n) \<subseteq> set (ndDead n')"
    and ds: "set ds \<subseteq> set (mDeliveries (dbStore (xDb (ndState n))))"
      "distinct (mDeliveries (dbStore (xDb (ndState n)))) \<Longrightarrow> distinct ds"
    and gone: "\<And>agg e. agg \<notin> ndForgotten n \<Longrightarrow> e \<in> set (E agg) \<Longrightarrow>
      \<lparr>dAggregateID = agg, dVersion = evVersion e\<rparr> \<in> set (mDeliveries (dbStore (xDb (ndState n)))) \<Longrightarrow>
      \<lparr>dAggregateID = agg, dVersion = evVersion e\<rparr> \<in> set ds \<or> promised cf n' e"
  shows "nodeOk x cf E n'"
  unfolding nodeOk_def n'
proof (intro conjI allI impI ballI)
  have "memInv (dbStore (xDb st'))" using recorded_inv[OF nodeOkD(1)[OF ok]] by (simp add: st memInv_def)
  then show rec: "recorded x (xDb st') agg (E agg)" for agg
    by (rule recorded_other[OF nodeOkD(1)[OF ok]]) (simp_all add: st memView_def streamOf_def)
  show "jobsKeyed (ndForgotten n) E (xDisp st')" "xForgetting st' \<subseteq> ndForgotten n" by (rule assms)+
  show "logOk E (mDeliveries (dbStore (xDb st')))"
    using logOk_removed[OF nodeOkD(5)[OF ok] ds(1)] ds(2) nodeOkD(5)[OF ok] by (simp add: st logOk_def)
  fix agg e
  assume e: "agg \<notin> ndForgotten n" "e \<in> set (E agg)" "isDurable x (evEventName e)"
  have agg: "evAggregateID e = agg" using recordedD(3)[OF rec e(2)] .
  have "promised cf n' e" if "\<lparr>dAggregateID = agg, dVersion = evVersion e\<rparr> \<in> set ds"
    using that by (simp add: promised_def n'(1) st agg)
  then show "promised cf n' e"
    by - (rule promised_mono[OF nodeOkD(4)[OF ok e] n'(4,3)], use gone[OF e(1,2)] in \<open>auto simp: agg\<close>)
qed

section \<open>The run of a worker\<close>

lemma opOk_keyed:
  fixes x :: "(memory_tx, memory, snapshot_memory, 't, 't disp) executor"
  assumes "configured x" "nodeOk (withMemory x) cf E n" "opOk (withMemory x) n op"
  shows "opKeyed (ndForgotten n) E op"
proof -
  have "replayed (withMemory x) (dbStore (xDb (ndState n))) agg = E agg" for agg
    using recorded_replayed[OF nodeOkD(1)[OF assms(2)]] assms(1) by (simp add: configured_def)
  then show ?thesis
    using assms(3) by (cases op) (auto simp: requestOk_def Let_def keyed_def)
qed

lemma opsOk_keyed:
  fixes x :: "(memory_tx, memory, snapshot_memory, 't, 't disp) executor"
  assumes "configured x" "nodeOk (withMemory x) cf E n" "list_all (opOk (withMemory x) n) ops"
  shows "list_all (opKeyed (ndForgotten n) E) ops"
  using assms(3) opOk_keyed[OF assms(1,2)] by (auto simp: list_all_iff)

lemma ackedStore_none: "\<not> list_ex isAck new \<Longrightarrow> ackedStore S c new s = s"
  by (induction new) (auto simp: ackedStore_def split: log_entry.splits)

lemma ackedStore_append: "ackedStore S c (xs @ ys) s = ackedStore S c ys (ackedStore S c xs s)"
  by (simp add: ackedStore_def)

lemma ackedStore_one:
  assumes "\<not> list_ex isAck pre" "\<not> list_ex isAck rep"
  shows "ackedStore S c (pre @ Acknowledged i key r # rep) s = snd (stAckDelivery S c (fst key) (snd key) s)"
proof -
  have "ackedStore S c (Acknowledged i key r # rep) s = ackedStore S c rep (snd (stAckDelivery S c (fst key) (snd key) s))"
    by (simp add: ackedStore_def)
  then show ?thesis
    using ackedStore_none[OF assms(1), of S c] ackedStore_none[OF assms(2), of S c] by (simp add: ackedStore_append)
qed

lemma successes_calls: "(s, k, None) \<in> set (callsOf new) \<Longrightarrow> (s, e) \<in> set (successes e new)"
  by (induction new rule: callsOf.induct) (auto simp: successes_def map_filter_simps split: option.splits)

lemma successes_append: "set (successes e xs) \<subseteq> set (successes e (xs @ ys))"
  by (auto simp: successes_def map_filter_def)

lemma deaths_in: "DeadLettered i \<in> set new \<Longrightarrow> e \<in> set (deaths e new)"
  by (force simp: deaths_def map_filter_def)

text \<open>What a run leaves: an acknowledged event was handled by everybody or dead-lettered.\<close>

lemma jobLog_isAck:
  assumes "jobLog cf i j new" "y \<in> set new" "isAck y"
  shows "\<exists>key res. y = Acknowledged i key res"
proof -
  obtain pub body post r where b: "new = pub @ body @ post" "list_all (\<lambda>x. isReport x \<or> x = Published i) pub" "tailOk i j post"
      "body = [] \<or> deliveryRan cf i j 1 (subscribersFor cf j) r body"
    using assms(1) unfolding jobLog_def by blast
  have "y \<notin> set pub" "y \<notin> set body"
    using b(2,4) assms(3) entry_kinds(2)[OF assms(3)] by (auto simp: list_all_iff deliveryRan_def delivering_def)
  then have "y \<in> set post" using assms(2) b(1) by simp
  then show ?thesis using b(3) entry_kinds(2)[OF assms(3)] by (auto simp: tailOk_def list_all_iff)
qed

lemma run_acked:
  assumes "jobLog cf i j new" "list_ex isAck new"
  obtains key where "jAck j = Some key"
    "ackedStore S c new s = snd (stAckDelivery S c (fst key) (snd key) s)"
    "jEvent j \<in> set (deaths (jEvent j) new) \<or>
     (\<forall>s \<in> set (cfDurableSubs cf). dsMatch s (evEventName (jEvent j)) \<longrightarrow> (s, jEvent j) \<in> set (successes (jEvent j) new))"
proof -
  obtain key res where "Acknowledged i key res \<in> set new"
    using assms(2) jobLog_isAck[OF assms(1)] unfolding list_ex_iff by blast
  then obtain pre rep where a: "new = pre @ Acknowledged i key res # rep" "\<not> list_ex isAck pre" "list_all isReport rep"
      "jAck j = Some key" "DeadLettered i \<in> set pre \<or> (\<forall>s \<in> set (subscribersFor cf j). \<exists>k. (s, k, None) \<in> set (callsOf pre))"
    using jobLog_ack[OF assms(1)] by blast
  have r: "\<not> list_ex isAck rep" using a(3) by (auto simp: list_all_iff list_ex_iff dest: entry_kinds)
  have "(s, jEvent j) \<in> set (successes (jEvent j) new)" if "(s, k, None) \<in> set (callsOf pre)" for s k
    using successes_calls[OF that] successes_append[of _ pre] by (auto simp: a(1))
  moreover have "jEvent j \<in> set (deaths (jEvent j) new)" if "DeadLettered i \<in> set pre"
    using that by (intro deaths_in[of i]) (simp add: a(1))
  ultimately have "jEvent j \<in> set (deaths (jEvent j) new) \<or>
      (\<forall>s \<in> set (cfDurableSubs cf). dsMatch s (evEventName (jEvent j)) \<longrightarrow> (s, jEvent j) \<in> set (successes (jEvent j) new))"
    using a(5) by (fastforce simp: subscribersFor_def)
  then show thesis by (intro that[OF a(4)]) (simp_all add: a(1) ackedStore_one[OF a(2) r])
qed

text \<open>Two recorded events of an aggregate with the same version are the same.\<close>

lemma recorded_inj:
  "recorded x d agg evs \<Longrightarrow> e \<in> set evs \<Longrightarrow> e' \<in> set evs \<Longrightarrow> evVersion e = evVersion e' \<Longrightarrow> e = e'"
  using recorded_versions(2) by (metis distinct_map inj_onD)

lemma memAck_deliveries:
  "\<exists>ds. snd (memAckDelivery c agg v s) = s\<lparr>mDeliveries := ds\<rparr> \<and> set ds \<subseteq> set (mDeliveries s) \<and>
     (distinct (mDeliveries s) \<longrightarrow> distinct ds) \<and>
     (\<forall>d \<in> set (mDeliveries s). d \<in> set ds \<or> d = \<lparr>dAggregateID = agg, dVersion = v\<rparr>)"
proof (cases "ctxErr c")
  case None
  have "y \<in> set (remove1 z (mDeliveries s)) \<or> y = z" if "y \<in> set (mDeliveries s)" for y z
    using that by (cases "y = z") simp_all
  with None show ?thesis
    by (intro exI[of _ "remove1 \<lparr>dAggregateID = agg, dVersion = v\<rparr> (mDeliveries s)"])
      (simp add: memAckDelivery_def Let_def set_remove1_subset)
next
  case (Some e)
  then show ?thesis by (intro exI[of _ "mDeliveries s"]) (simp add: memAckDelivery_def)
qed

lemma work_ok:
  fixes x :: "(memory_tx, memory, snapshot_memory, 't, 't disp) executor"
  assumes cfg: "configured x" and ok: "nodeOk (withMemory x) cf E n"
    and pop: "regPop agg (xDisp (ndState n)) = (Some (i, halt), d)" and j: "dJobs d i = Some j"
    and others: "\<And>k. list_all (opOk (withMemory x) n) (enOthers en k)"
  shows "nodeOk (withMemory x) cf E (ranJob (withMemory x) cf en t agg halt i j d n)"
proof -
  let ?s = "dbStore (xDb (ndState n))" and ?n' = "ranJob (withMemory x) cf en t agg halt i j d n" and ?F = "ndForgotten n"
  define en' where "en' = en\<lparr>enAck := \<lambda>_. storeAck memoryStore ?s\<rparr>"
  define w where "w = \<lparr>wDisp = d, wTick = t, wLog = []\<rparr>"
  define w' where "w' = handleJob cf en' agg halt i w"
  have n': "?n' = n\<lparr>ndState := setStore (ackedStore memoryStore (jCtx j) (wLog w') ?s) ((ndState n)\<lparr>xDisp := wDisp w'\<rparr>),
      ndHandled := ndHandled n @ successes (jEvent j) (wLog w'), ndDead := ndDead n @ deaths (jEvent j) (wLog w')\<rparr>"
    by (simp add: ranJob_def Let_def w_def w'_def en'_def)
  have "ident d = ident (xDisp (ndState n))" using ident_park_ops(6)[of agg "xDisp (ndState n)"] by (simp add: pop)
  then have d: "jobsKeyed ?F E d" using nodeOkD(2)[OF ok] by (simp cong: jobsKeyed_cong)
  have key: "keyed ?F E (jEvent j) (jAck j)" using jobsKeyed_job[OF d j] .
  have jobs: "jobsKeyed ?F E (wDisp w')"
    unfolding w'_def by (rule jobsKeyed_handleJob) (use d j opsOk_keyed[OF cfg ok others] in \<open>simp_all add: w_def en'_def\<close>)
  have log: "jobLog cf i j (wLog w')"
    using handleJob_log[of w i j cf en' agg halt] j by (auto simp: w_def w'_def adds_def)
  show ?thesis
  proof (cases "list_ex isAck (wLog w')")
    case False
    show ?thesis
      by (rule nodeOk_removed[OF ok, where ds = "mDeliveries ?s"])
        (use jobs nodeOkD(3)[OF ok] in \<open>simp_all add: n' setStore_def ackedStore_none[OF False]\<close>)
  next
    case True
    obtain k where k: "jAck j = Some k"
      "ackedStore memoryStore (jCtx j) (wLog w') ?s = snd (memAckDelivery (jCtx j) (fst k) (snd k) ?s)"
      "jEvent j \<in> set (deaths (jEvent j) (wLog w')) \<or> (\<forall>s \<in> set (cfDurableSubs cf). dsMatch s (evEventName (jEvent j)) \<longrightarrow>
         (s, jEvent j) \<in> set (successes (jEvent j) (wLog w')))"
      by (rule run_acked[OF log True, where S = memoryStore and c = "jCtx j" and s = ?s]) simp
    have handled: "promised cf ?n' (jEvent j)" using k(3) by (auto simp: promised_def n')
    obtain ds where ds: "snd (memAckDelivery (jCtx j) (fst k) (snd k) ?s) = ?s\<lparr>mDeliveries := ds\<rparr>"
      "\<And>y. y \<in> set (mDeliveries ?s) \<Longrightarrow> y \<in> set ds \<or> y = \<lparr>dAggregateID = fst k, dVersion = snd k\<rparr>"
      "set ds \<subseteq> set (mDeliveries ?s)" "distinct (mDeliveries ?s) \<Longrightarrow> distinct ds"
      using memAck_deliveries[of "jCtx j" "fst k" "snd k" ?s] by blast
    have "promised cf ?n' e" if "a \<notin> ?F" "e \<in> set (E a)" "a = fst k" "evVersion e = snd k" for a e
      using that key k(1) handled recorded_inj[OF nodeOkD(1)[OF ok], of e a "jEvent j"] by (auto simp: keyed_def)
    then have gone: "\<lparr>dAggregateID = a, dVersion = evVersion e\<rparr> \<in> set ds \<or> promised cf ?n' e"
      if "a \<notin> ?F" "e \<in> set (E a)" "\<lparr>dAggregateID = a, dVersion = evVersion e\<rparr> \<in> set (mDeliveries ?s)" for a e
      using that(1,2) ds(2)[OF that(3)] by auto
    show ?thesis
    proof (rule nodeOk_removed[OF ok _ _ _ _ _ _ _ ds(3,4) gone])
      show "xDb (ndState ?n') = (xDb (ndState n))\<lparr>dbStore := ?s\<lparr>mDeliveries := ds\<rparr>\<rparr>"
        by (simp add: n' setStore_def k(2) ds(1))
      show "jobsKeyed ?F E (xDisp (ndState ?n'))" using jobs by (simp add: n' setStore_def)
    qed (use nodeOkD(3)[OF ok] in \<open>simp_all add: n' setStore_def\<close>)
  qed
qed

section \<open>Redeliveries\<close>

lemma ackedAll_deliveries:
  "ackedAll agg ds s = s\<lparr>mDeliveries := fold (\<lambda>d. remove1 \<lparr>dAggregateID = agg, dVersion = dVersion d\<rparr>) ds (mDeliveries s)\<rparr>"
  by (induction ds arbitrary: s) (simp_all add: ackedAll_def)

lemma fold_remove1_keeps:
  "y \<in> set ys \<Longrightarrow> (\<And>d. d \<in> set ds \<Longrightarrow> f d \<noteq> y) \<Longrightarrow> y \<in> set (fold (\<lambda>d. remove1 (f d)) ds ys)"
proof (induction ds arbitrary: ys)
  case (Cons d ds)
  have "y \<in> set (remove1 (f d) ys)" using Cons.prems by (metis in_set_remove1 list.set_intros(1))
  then show ?case using Cons by simp
qed simp

lemma fold_remove1_subset: "set (fold (\<lambda>d. remove1 (f d)) ds ys) \<subseteq> set ys"
proof (induction ds arbitrary: ys)
  case (Cons d ds)
  then show ?case using set_remove1_subset[of "f d" ys] by fastforce
qed simp

lemma fold_remove1_distinct: "distinct ys \<Longrightarrow> distinct (fold (\<lambda>d. remove1 (f d)) ds ys)"
  by (induction ds arbitrary: ys) simp_all

text \<open>With a context that has ended the replay reads nothing, and nothing happens.\<close>

lemma redeliver_cancelled:
  assumes "ctxErr c = Some e" "esStore (xEs x) = memoryStore" "redeliver x D c agg backlog st = (r, st')"
  shows "st' = st"
  using assms by (auto simp: redeliver_def enqueueBacklog_def replay_def memReadFrom_def okErr_def errorsJoin_def map_filter_simps
      Let_def split: if_splits)

lemma redeliver_keeps:
  fixes x :: "(memory_tx, memory, snapshot_memory, 't, 't disp) executor"
  assumes cfg: "configured x" and ok: "nodeOk (withMemory x) cf E n"
    and st: "xDb st = xDb (ndState n)" "jobsKeyed (ndForgotten n) E (xDisp st)"
    and rd: "redeliver (withMemory x) memDispatcher c agg backlog st = (r, st')"
  shows "jobsKeyed (ndForgotten n) E (xDisp st')" "xForgetting st' = xForgetting st"
    and "\<exists>ds. xDb st' = (xDb (ndState n))\<lparr>dbStore := (dbStore (xDb (ndState n)))\<lparr>mDeliveries := ds\<rparr>\<rparr> \<and>
      set ds \<subseteq> set (mDeliveries (dbStore (xDb (ndState n)))) \<and> (distinct (mDeliveries (dbStore (xDb (ndState n)))) \<longrightarrow> distinct ds) \<and>
      (\<forall>a. \<forall>e \<in> set (E a). \<lparr>dAggregateID = a, dVersion = evVersion e\<rparr> \<in> set (mDeliveries (dbStore (xDb (ndState n)))) \<longrightarrow>
         \<lparr>dAggregateID = a, dVersion = evVersion e\<rparr> \<in> set ds)"
proof -
  let ?x = "withMemory x" and ?s = "dbStore (xDb (ndState n))" and ?m = "int (length (E agg))"
  note rec = nodeOkD(1)[OF ok]
  have "jobsKeyed (ndForgotten n) E (xDisp st') \<and> xForgetting st' = xForgetting st \<and>
      (st' = st \<or> xDb st' = xDb st \<or>
       xDb st' = (xDb st)\<lparr>dbStore := ackedAll agg (filter (\<lambda>d. dVersion d \<notin> {1..?m}) backlog) ?s\<rparr>)"
  proof (cases "backlog = [] \<or> ctxErr c \<noteq> None")
    case True
    then have "st' = st" using rd redeliver_cancelled[OF _ _ rd] by (auto simp: redeliver_def)
    then show ?thesis using st(2) by simp
  next
    case False
    let ?evs = "filter (\<lambda>e. evVersion e \<in> dVersion ` set backlog) (E agg)"
    have rep: "replay (xEs ?x) c agg fromV toV fn (dbStore (xDb st)) w =
      (Ok (), fold fn (filter (\<lambda>e. fromV \<le> evVersion e \<and> (toV = 0 \<or> evVersion e \<le> toV)) (E agg)) w)"
      for fromV toV fn and w :: "'t disp backlog_enqueuer"
      unfolding st(1) by (rule recorded_replay[OF rec]) (use cfg False in \<open>auto simp: configured_def\<close>)
    have "jobsKeyed (ndForgotten n) E (snd (enqueueSeq memDispatcher c agg ?evs (xDisp st)))"
      by (rule jobsKeyed_enqueueSeq[OF st(2)]) (use recordedD(3)[OF rec] in auto)
    then show ?thesis
      using redeliver_eq[OF _ _ memDispatcher_noPanic _ recorded_versions(2)[OF rec] recorded_versions(1)[OF rec] rep] rd False
      by (auto simp: setStore_def st(1) split: prod.splits option.splits)
  qed
  then have eff: "jobsKeyed (ndForgotten n) E (xDisp st')" "xForgetting st' = xForgetting st"
    "xDb st' = xDb st \<or> xDb st' = (xDb st)\<lparr>dbStore := ackedAll agg (filter (\<lambda>d. dVersion d \<notin> {1..?m}) backlog) ?s\<rparr>"
    by auto
  show "jobsKeyed (ndForgotten n) E (xDisp st')" "xForgetting st' = xForgetting st" by (rule eff)+
  let ?ds = "fold (\<lambda>d. remove1 \<lparr>dAggregateID = agg, dVersion = dVersion d\<rparr>) (filter (\<lambda>d. dVersion d \<notin> {1..?m}) backlog) (mDeliveries ?s)"
  have keep: "\<lparr>dAggregateID = a, dVersion = evVersion e\<rparr> \<in> set ?ds"
    if "e \<in> set (E a)" "\<lparr>dAggregateID = a, dVersion = evVersion e\<rparr> \<in> set (mDeliveries ?s)" for a e
    using that recorded_versions(1)[OF rec, of agg] by (intro fold_remove1_keeps) auto
  show "\<exists>ds. xDb st' = (xDb (ndState n))\<lparr>dbStore := ?s\<lparr>mDeliveries := ds\<rparr>\<rparr> \<and>
      set ds \<subseteq> set (mDeliveries (dbStore (xDb (ndState n)))) \<and> (distinct (mDeliveries (dbStore (xDb (ndState n)))) \<longrightarrow> distinct ds) \<and>
      (\<forall>a. \<forall>e \<in> set (E a). \<lparr>dAggregateID = a, dVersion = evVersion e\<rparr> \<in> set (mDeliveries ?s) \<longrightarrow>
         \<lparr>dAggregateID = a, dVersion = evVersion e\<rparr> \<in> set ds)"
    using eff(3)
  proof
    assume "xDb st' = xDb st"
    then show ?thesis by (intro exI[of _ "mDeliveries ?s"]) (simp add: st(1))
  next
    assume "xDb st' = (xDb st)\<lparr>dbStore := ackedAll agg (filter (\<lambda>d. dVersion d \<notin> {1..?m}) backlog) ?s\<rparr>"
    then show ?thesis
      using keep by (intro exI[of _ ?ds]) (simp add: st(1) ackedAll_deliveries fold_remove1_subset fold_remove1_distinct)
  qed
qed

lemma redelivered_ok:
  fixes x :: "(memory_tx, memory, snapshot_memory, 't, 't disp) executor"
  assumes cfg: "configured x" and ok: "nodeOk (withMemory x) cf E n"
    and st: "xDb st = xDb (ndState n)" "ident (xDisp st) = ident (xDisp (ndState n))" "xForgetting st = xForgetting (ndState n)"
    and rd: "redeliver (withMemory x) memDispatcher c agg backlog st = (r, st1)"
    and st': "xDb st' = xDb st1" "ident (xDisp st') = ident (xDisp st1)" "xForgetting st' = xForgetting st1"
  shows "nodeOk (withMemory x) cf E (n\<lparr>ndState := st'\<rparr>)"
proof -
  have jobs: "jobsKeyed (ndForgotten n) E (xDisp st)" using nodeOkD(2)[OF ok] jobsKeyed_cong[OF st(2)] by blast
  note K = redeliver_keeps[OF cfg ok st(1) jobs rd]
  obtain ds where ds: "xDb st' = (xDb (ndState n))\<lparr>dbStore := (dbStore (xDb (ndState n)))\<lparr>mDeliveries := ds\<rparr>\<rparr>"
    "\<And>a e. e \<in> set (E a) \<Longrightarrow> \<lparr>dAggregateID = a, dVersion = evVersion e\<rparr> \<in> set (mDeliveries (dbStore (xDb (ndState n)))) \<Longrightarrow>
       \<lparr>dAggregateID = a, dVersion = evVersion e\<rparr> \<in> set ds"
    "set ds \<subseteq> set (mDeliveries (dbStore (xDb (ndState n))))" "distinct (mDeliveries (dbStore (xDb (ndState n)))) \<Longrightarrow> distinct ds"
    using K(3) unfolding st'(1) by blast
  show ?thesis
    by (rule nodeOk_removed[OF ok ds(1)])
      (use K(1,2) st(3) st'(2,3) jobsKeyed_cong[OF st'(2)] nodeOkD(3)[OF ok] ds(2-4) in auto)
qed

lemma recover_ok:
  fixes x :: "(memory_tx, memory, snapshot_memory, 't, 't disp) executor"
  assumes "configured x" "nodeOk (withMemory x) cf E n"
    and ra: "recoverAggregate (withMemory x) memDispatcher handler c cerr agg backlog (ndState n) = (r, st')"
  shows "nodeOk (withMemory x) cf E (n\<lparr>ndState := st'\<rparr>)"
proof -
  obtain q st1 where rd: "redeliver (withMemory x) memDispatcher c agg backlog (ndState n) = (q, st1)" by fastforce
  have "xDb st' = xDb st1 \<and> ident (xDisp st') = ident (xDisp st1) \<and> xForgetting st' = xForgetting st1"
    using ra rd by (auto simp: recoverAggregate_def reportPublishError_def memDispatcher_def split: outcome.splits option.splits if_splits)
  then show ?thesis by (intro redelivered_ok[OF assms(1,2) refl refl refl rd]) auto
qed

lemma resume_ok:
  fixes x :: "(memory_tx, memory, snapshot_memory, 't, 't disp) executor"
  assumes "configured x" "nodeOk (withMemory x) cf E n"
    and ra: "resumeAggregate (withMemory x) memDispatcher c lk agg park scanned (ndState n) = (r, st')"
  shows "nodeOk (withMemory x) cf E (n\<lparr>ndState := st'\<rparr>)"
proof (cases "xDb st' = xDb (ndState n) \<and> ident (xDisp st') = ident (xDisp (ndState n)) \<and> xForgetting st' = xForgetting (ndState n)")
  case True
  then show ?thesis
    using nodeOkD(2,3)[OF assms(2)] jobsKeyed_cong[of "xDisp st'"] by (intro nodeOk_dispatch[OF assms(2)]) auto
next
  case False
  obtain lifted und d where l: "regLiftGeneration agg park (xDisp (ndState n)) = ((lifted, und), d)" by (metis surj_pair)
  have idd: "ident d = ident (xDisp (ndState n))" using ident_park_ops(5)[of agg park "xDisp (ndState n)"] by (simp add: l)
  let ?st0 = "(ndState n)\<lparr>xDisp := d\<rparr>"
  obtain q st1 where rd: "redeliver (withMemory x) memDispatcher c agg (withUndelivered agg scanned und) ?st0 = (q, st1)" by fastforce
  have "xDb st' = xDb st1 \<and> ident (xDisp st') = ident (xDisp st1) \<and> xForgetting st' = xForgetting st1"
    using ra rd l idd False
    by (auto simp: resumeAggregate_def withLock_def memDispatcher_def Let_def split: outcome.splits option.splits if_splits)
  then show ?thesis by (intro redelivered_ok[OF assms(1,2) _ _ _ rd]) (simp_all add: idd)
qed

section \<open>Every step\<close>

lemma meanwhile_ok:
  fixes x :: "(memory_tx, memory, snapshot_memory, 't, 't disp) executor"
  assumes "configured x" "nodeOk (withMemory x) cf E n" "list_all (opOk (withMemory x) n) ops"
  shows "nodeOk (withMemory x) cf E (n\<lparr>ndState := (ndState n)\<lparr>xDisp := fold applyOp ops (xDisp (ndState n))\<rparr>\<rparr>)"
  using jobsKeyed_ops[OF nodeOkD(2)[OF assms(2)] opsOk_keyed[OF assms]] nodeOkD(3)[OF assms(2)]
  by (intro nodeOk_dispatch[OF assms(2)]) simp_all

lemma node_step_ok:
  fixes x :: "(memory_tx, memory, snapshot_memory, 't, 't disp) executor"
  assumes cfg: "configured x" "xDispatcher x = Some memDispatcher"
    and "node_step (withMemory x) cf n n'" "nodeOk (withMemory x) cf E n"
  shows "\<exists>E'. nodeOk (withMemory x) cf E' n'"
  using assms(3,4)
proof (cases rule: node_step.cases)
  case (command lk c i now cmd r e')
  then show ?thesis using command_ok[OF cfg assms(4) command(2-4), of "xDisp e'"] by simp
next
  case (commit lk c i now cmd r e')
  then show ?thesis using command_ok[OF cfg assms(4) commit(2-4), of "xDisp (ndState n)"] by simp
next
  case (forget lk c i now agg r e')
  then show ?thesis using forget_ok[OF cfg assms(4) forget(2-4)] by simp
next
  case (erase agg lk fe c tk r e')
  then show ?thesis using erase_ok[OF cfg(2) assms(4) erase(2,3)] by simp
next
  case (work agg i halt d j en t)
  then show ?thesis using work_ok[OF cfg(1) assms(4) work(2-4)] by blast
next
  case (meanwhile ops)
  then show ?thesis using meanwhile_ok[OF cfg(1) assms(4) meanwhile(2)] by blast
next
  case (recover handler c cerr agg backlog r st')
  then show ?thesis using recover_ok[OF cfg(1) assms(4) recover(2)] by blast
next
  case (resume c lk agg park scanned r' st')
  then show ?thesis using resume_ok[OF cfg(1) assms(4) resume(2)] by blast
next
  case crash
  then show ?thesis using nodeOk_crash[OF assms(4)] by blast
qed

lemma node_reachable_ok:
  fixes x :: "(memory_tx, memory, snapshot_memory, 't, 't disp) executor"
  assumes cfg: "configured x" "xDispatcher x = Some memDispatcher" and "node_reachable (withMemory x) cf n"
  shows "\<exists>E. nodeOk (withMemory x) cf E n"
  using assms(3)
proof (induction rule: node_reachable.induct)
  case start
  then show ?case using nodeOk_start by blast
next
  case (step n n')
  then show ?case using node_step_ok[OF cfg] by blast
qed

end
