(* ===== verification/Node_Restart.thy ===== *)
theory Node_Restart
  imports Node_Run
begin

text \<open>
  The start of a new process on the store of one that died: \<open>Recover\<close> on a fresh dispatcher.
\<close>

section \<open>A dispatcher that refuses nothing\<close>

definition openDisp :: "'t disp \<Rightarrow> bool" where
  "openDisp d \<longleftrightarrow> dispInv d \<and> \<not> dClosed d \<and> (\<forall>b. \<not> isParked b d)"

text \<open>What is queued for an aggregate, by identity.\<close>

definition waiting :: "string \<Rightarrow> 't disp \<Rightarrow> ('t event \<times> ack \<times> bool) option list" where
  "waiting b d = map (ident d) (queueOf b d)"

lemma openDisp_new: "openDisp newDispatcher" "waiting b newDispatcher = []"
  using newDispatcher_inv by (simp_all add: openDisp_def waiting_def isParked_iff newDispatcher_def getRec_def queueOf_def)

lemma parks_enqueueLocked:
  assumes "\<And>b. \<not> isParked b d" shows "\<not> isParked b (snd (regEnqueueLocked i d))"
  using assms
  by (auto simp: isParked_iff regEnqueueLocked_def recordOf_def ensureWorker_def makeChan_def markParkedUnrun_def Let_def
      split: option.splits if_splits)

lemma parks_enqueue:
  assumes "\<And>b. \<not> isParked b d" shows "\<not> isParked b (snd (dispEnqueue c rq d))"
proof -
  obtain r d1 where l: "regEnqueueLocked (dNextJob d) (withNewJob c rq d) = (r, d1)" by fastforce
  then have "\<not> isParked b d1" using parks_enqueueLocked[of "withNewJob c rq d" b "dNextJob d"] assms by simp
  then show ?thesis by (auto simp: dispEnqueue_alt regEnqueue_def l isParked_iff split: outcome.splits)
qed

lemma queueOf_old:
  assumes "dispInv d" "i \<in> set (queueOf b d)" shows "i \<noteq> dNextJob d"
proof -
  obtain rec where r: "getRec b d = Some rec" "i \<in> set (rcJobs rec)" using assms(2) by (cases "getRec b d") (auto simp: queueOf_def)
  have "dJobs d i \<noteq> None" using dispInv_rec[OF assms(1) r(1)] r(2) by (auto simp: recOk_def queuedOk_def)
  then show ?thesis using assms(1) by (auto simp: dispInv_def)
qed

lemma enqueue_open:
  fixes c rq
  assumes "openDisp d"
  defines "d' \<equiv> snd (dispEnqueue c rq d)"
  shows "fst (dispEnqueue c rq d) = Ok (dNextJob d)" "openDisp d'"
    "waiting b d' = waiting b d @ (if b = evAggregateID (rqEvent rq) then [Some (rqEvent rq, rqAck rq, isForget rq)] else [])"
proof -
  have o: "\<not> dClosed d" "\<not> (isParked (evAggregateID (rqEvent rq)) d \<and> rqAck rq \<noteq> None)" "dispInv d" "\<And>b. \<not> isParked b d"
    using assms(1) by (auto simp: openDisp_def)
  note A = enqueue_accepts[OF o(1,2), of c]
  show "fst (dispEnqueue c rq d) = Ok (dNextJob d)" by (rule A(2))
  show "openDisp d'"
    using dispEnqueue_inv[OF o(3)] A(1) parks_enqueue[OF o(4)] by (simp add: openDisp_def d'_def enqueues_def sameFlags_def)
  have q: "queueOf b d' = queueOf b d @ (if b = evAggregateID (rqEvent rq) then [dNextJob d] else [])"
    using A(1) by (auto simp: enqueues_def queueOf_def d'_def split: option.splits)
  have "ident d' i = ident d i" if "i \<in> set (queueOf b d)" for i
    using queueOf_old[OF o(3) that] by (simp add: d'_def ident_dispEnqueue)
  then show "waiting b d' = waiting b d @ (if b = evAggregateID (rqEvent rq) then [Some (rqEvent rq, rqAck rq, isForget rq)] else [])"
    by (simp add: waiting_def q) (simp add: d'_def ident_dispEnqueue)
qed

abbreviation waits :: "string \<Rightarrow> 't event \<Rightarrow> ('t event \<times> ack \<times> bool) option" where
  "waits agg e \<equiv> Some (e, Some (agg, evVersion e), isForget (redeliveryOf agg e))"

lemma enqueueSeq_open:
  assumes "openDisp d" "\<And>e. e \<in> set evs \<Longrightarrow> evAggregateID e = agg"
  shows "\<exists>d'. enqueueSeq memDispatcher c agg evs d = (None, d') \<and> openDisp d' \<and>
    (\<forall>b. waiting b d' = waiting b d @ (if b = agg then map (waits agg) evs else []))"
  using assms
proof (induction evs arbitrary: d)
  case (Cons e evs)
  let ?d1 = "snd (dispEnqueue c (redeliveryOf agg e) d)"
  note O = enqueue_open[OF Cons.prems(1), where c = c and rq = "redeliveryOf agg e"]
  have e: "evAggregateID (rqEvent (redeliveryOf agg e)) = agg" using Cons.prems(2) by (simp add: redeliveryOf_def)
  obtain d' where d': "enqueueSeq memDispatcher c agg evs ?d1 = (None, d')" "openDisp d'"
    "\<And>b. waiting b d' = waiting b ?d1 @ (if b = agg then map (waits agg) evs else [])"
    using Cons.IH[OF O(2)] Cons.prems(2) by auto
  have "dpEnqueue memDispatcher c (redeliveryOf agg e) d = (Ok (dNextJob d), ?d1)"
    using O(1) by (simp add: memDispatcher_def prod_eq_iff)
  then show ?case
    using d' O(3) e by (auto simp: redeliveryOf_def)
qed (simp add: waiting_def)

section \<open>Recover\<close>

text \<open>A log that does not move is scanned once through.\<close>

lemma scan_static:
  assumes "ctxErr c = None" "distinct (mDeliveries s)" "int (length (mDeliveries s)) < 2 ^ 62" "0 < batch"
  shows "pendingByAggregate 63 memoryStore c (\<lambda>_. s) batch want = Some (Ok (), grouped want (mDeliveries s))"
proof -
  let ?L = "mDeliveries s"
  define logs where "logs = (\<lambda>k :: nat. ?L)"
  have "\<exists>vs j. scanFrom (Suc 62) memoryStore c (\<lambda>_. s) 0 batch (set []) (addDelivery want) noBacklogs
        = Some (Ok (), grouped want vs)
      \<and> subseq ([] @ vs) ?L \<and> set (logs (0 + j)) \<subseteq> set ([] @ vs) \<and> (\<forall>d \<in> set vs. \<exists>i. d \<in> set (logs i))"
  proof (rule scanFrom_covers[where alive = "\<lambda>_ _. True" and n = "\<lambda>_. length ?L" and m = 0])
    show "coveredUpto ?L (\<lambda>_. True) 0 []" by (simp add: coveredUpto_def)
    show "(2 :: int) ^ 62 \<le> batch * 2 ^ 62" using assms(4) by simp
  qed (use assms memory_reads addDelivery_ok in \<open>simp_all add: logs_def\<close>)
  then obtain vs where vs: "scanFrom 63 memoryStore c (\<lambda>_. s) 0 batch {} (addDelivery want) noBacklogs = Some (Ok (), grouped want vs)"
      "subseq vs ?L" "set ?L \<subseteq> set vs" by (auto simp: logs_def)
  have "length vs = length ?L"
    using list_emb_length[OF vs(2)] card_mono[OF _ vs(3)] distinct_card[OF assms(2)] card_length[of vs] by simp
  then have "vs = ?L" using subseq_same_length[OF vs(2)] by simp
  then show ?thesis using vs(1) by (simp add: pendingByAggregate_def scanPending_def)
qed

text \<open>The recovery of one aggregate whose backlog names stored events.\<close>

lemma recoverAggregate_open:
  fixes x :: "(memory_tx, memory, snapshot_memory, 't, 't disp) executor"
  assumes "configured x" "ctxErr c = None" "openDisp (xDisp st)" "backlog \<noteq> []"
    and rec: "recorded (withMemory x) (xDb st) agg evs"
    and named: "\<forall>d \<in> set backlog. 1 \<le> dVersion d \<and> dVersion d \<le> int (length evs)"
  shows "\<exists>d'. recoverAggregate (withMemory x) memDispatcher handler c cerr agg backlog st = (Ok None, st\<lparr>xDisp := d'\<rparr>) \<and> openDisp d' \<and>
    (\<forall>b. waiting b d' = waiting b (xDisp st) @
       (if b = agg then map (waits agg) (filter (\<lambda>e. evVersion e \<in> dVersion ` set backlog) evs) else []))"
proof -
  let ?evs = "filter (\<lambda>e. evVersion e \<in> dVersion ` set backlog) evs"
  have rep: "replay (xEs (withMemory x)) c agg fromV toV fn (dbStore (xDb st)) w =
      (Ok (), fold fn (filter (\<lambda>e. fromV \<le> evVersion e \<and> (toV = 0 \<or> evVersion e \<le> toV)) evs) w)"
    for fromV toV fn and w :: "'t disp backlog_enqueuer"
    by (rule recorded_replay[OF rec]) (use assms(1,2) in \<open>auto simp: configured_def\<close>)
  obtain d' where d': "enqueueSeq memDispatcher c agg ?evs (xDisp st) = (None, d')" "openDisp d'"
    "\<forall>b. waiting b d' = waiting b (xDisp st) @ (if b = agg then map (waits agg) ?evs else [])"
    using enqueueSeq_open[OF assms(3), of ?evs agg c] recordedD(3)[OF rec] by auto
  have van: "filter (\<lambda>d. dVersion d \<notin> {1..int (length evs)}) backlog = []" using named by (auto simp: filter_empty_conv)
  have "redeliver (withMemory x) memDispatcher c agg backlog st = (Ok ([], None), st\<lparr>xDisp := d'\<rparr>)"
    using redeliver_eq[OF assms(2) _ memDispatcher_noPanic assms(4) recorded_versions(2)[OF rec] recorded_versions(1)[OF rec] rep] van
    by (simp add: d'(1) ackedAll_def setStore_def)
  then show ?thesis using d'(2,3) by (intro exI[of _ d']) (simp add: recoverAggregate_def)
qed

text \<open>Nobody interferes, and the context stays alive.\<close>

definition undisturbed :: "('s, 'p, 't, 'd) meanwhile" where
  "undisturbed = \<lparr>mwOthers = (\<lambda>_ st. st), mwCtxErr = (\<lambda>_. None)\<rparr>"

lemma recoverAll_open:
  fixes x :: "(memory_tx, memory, snapshot_memory, 't, 't disp) executor"
  assumes "configured x" "ctxErr c = None" "\<And>a. recorded (withMemory x) (xDb st) a (E a)"
    and "\<And>a. a \<in> set aggs \<Longrightarrow> backlogOf b a \<noteq> [] \<and> (\<forall>d \<in> set (backlogOf b a). 1 \<le> dVersion d \<and> dVersion d \<le> int (length (E a)))"
    and "openDisp (xDisp st)" "distinct aggs"
  shows "\<exists>d'. recoverAll (withMemory x) memDispatcher handler c undisturbed b aggs st = (Ok None, st\<lparr>xDisp := d'\<rparr>) \<and> openDisp d' \<and>
    (\<forall>a. waiting a d' = waiting a (xDisp st) @
       (if a \<in> set aggs then map (waits a) (filter (\<lambda>e. evVersion e \<in> dVersion ` set (backlogOf b a)) (E a)) else []))"
  using assms(3-6)
proof (induction aggs arbitrary: st)
  case Nil
  then show ?case by (intro exI[of _ "xDisp st"]) simp
next
  case (Cons agg aggs)
  obtain d1 where d1: "recoverAggregate (withMemory x) memDispatcher handler c None agg (backlogOf b agg) st = (Ok None, st\<lparr>xDisp := d1\<rparr>)"
    "openDisp d1" "\<And>a. waiting a d1 = waiting a (xDisp st) @
       (if a = agg then map (waits agg) (filter (\<lambda>e. evVersion e \<in> dVersion ` set (backlogOf b agg)) (E agg)) else [])"
    using recoverAggregate_open[OF assms(1,2) Cons.prems(3) _ Cons.prems(1), of "backlogOf b agg" agg handler None] Cons.prems(2)[of agg]
    by auto
  obtain d2 where d2: "recoverAll (withMemory x) memDispatcher handler c undisturbed b aggs (st\<lparr>xDisp := d1\<rparr>) = (Ok None, st\<lparr>xDisp := d2\<rparr>)"
    "openDisp d2" "\<And>a. waiting a d2 = waiting a d1 @
       (if a \<in> set aggs then map (waits a) (filter (\<lambda>e. evVersion e \<in> dVersion ` set (backlogOf b a)) (E a)) else [])"
    using Cons.IH[of "st\<lparr>xDisp := d1\<rparr>"] Cons.prems(1,2,4) d1(2) by auto
  show ?case
    using d1 d2 Cons.prems(4) by (intro exI[of _ d2]) (auto simp: undisturbed_def)
qed

end
