(* ===== verification/Delivery_Park.thy ===== *)
theory Delivery_Park
  imports Dispatcher_Properties
begin

text \<open>
  A park stays until somebody lifts it: the halt channels of the aggregates are kept apart, so the
  channel a worker holds is closed by a park of its own aggregate only, and an event whose delivery
  fails leaves its aggregate parked.
\<close>

section \<open>Halt channels\<close>

text \<open>The halt channel of a record that is not parked is open, and no two records share one.\<close>

definition haltInv :: "'t disp \<Rightarrow> bool" where
  "haltInv d \<longleftrightarrow>
     (\<forall>a r. getRec a d = Some r \<longrightarrow> rcHalt r < dNextChan d \<and> (\<not> rcParked r \<longrightarrow> rcHalt r \<notin> dClosedChans d)) \<and>
     (\<forall>a b r s. getRec a d = Some r \<longrightarrow> getRec b d = Some s \<longrightarrow> rcHalt r = rcHalt s \<longrightarrow> a = b) \<and>
     (\<forall>ch \<in> dClosedChans d. ch < dNextChan d)"

lemma haltInv_dispInv: "dispInv d \<Longrightarrow> haltInv d"
  by (auto simp: haltInv_def dispInv_def recOk_def)

lemma haltInvD:
  assumes "haltInv d" "getRec a d = Some r"
  shows "rcHalt r < dNextChan d" "\<not> rcParked r \<Longrightarrow> rcHalt r \<notin> dClosedChans d"
    "getRec b d = Some s \<Longrightarrow> rcHalt r = rcHalt s \<Longrightarrow> a = b"
  using assms unfolding haltInv_def by blast+

lemma haltInvI:
  assumes "\<And>a r. getRec a d = Some r \<Longrightarrow> rcHalt r < dNextChan d"
    and "\<And>a r. getRec a d = Some r \<Longrightarrow> \<not> rcParked r \<Longrightarrow> rcHalt r \<notin> dClosedChans d"
    and "\<And>a b r s. getRec a d = Some r \<Longrightarrow> getRec b d = Some s \<Longrightarrow> rcHalt r = rcHalt s \<Longrightarrow> a = b"
    and "\<And>ch. ch \<in> dClosedChans d \<Longrightarrow> ch < dNextChan d"
  shows "haltInv d"
  using assms unfolding haltInv_def by blast

lemma haltInv_closed: "haltInv d \<Longrightarrow> ch \<in> dClosedChans d \<Longrightarrow> ch < dNextChan d"
  by (simp add: haltInv_def)

lemma haltInv_cong:
  assumes "haltInv d" "\<And>a. getRec a d' = getRec a d" "dClosedChans d' = dClosedChans d" "dNextChan d' = dNextChan d"
  shows "haltInv d'"
  using assms by (simp add: haltInv_def)

lemma haltInv_jobsOnly: "haltInv d \<Longrightarrow> jobsOnly d d' \<Longrightarrow> haltInv d'"
  using haltInv_cong [of d d'] jobsOnly_getRec [of d d'] by (simp add: jobsOnly_def)

lemma haltInv_put:
  assumes "haltInv d" "getRec a d = Some old" "rcHalt rec = rcHalt old" "rcParked old \<Longrightarrow> rcParked rec"
  shows "haltInv (putRec a rec d)"
proof (rule haltInvI)
  fix b r assume b: "getRec b (putRec a rec d) = Some r"
  then obtain r' where r: "getRec b d = Some r'" "rcHalt r = rcHalt r'" "rcParked r' \<Longrightarrow> rcParked r"
    using assms(2-4) by (auto split: if_splits)
  then show "rcHalt r < dNextChan (putRec a rec d)" using haltInvD(1) [OF assms(1)] by simp
  show "rcHalt r \<notin> dClosedChans (putRec a rec d)" if "\<not> rcParked r"
    using haltInvD(2) [OF assms(1) r(1)] r that by auto
  fix c s assume "getRec c (putRec a rec d) = Some s" "rcHalt r = rcHalt s"
  then obtain s' where "getRec c d = Some s'" "rcHalt r' = rcHalt s'" using assms(2,3) r(2) by (auto split: if_splits)
  then show "b = c" using haltInvD(3) [OF assms(1) r(1)] by blast
qed (use haltInv_closed [OF assms(1)] in simp)

lemma haltInv_fresh:
  assumes "haltInv d" "makeChan d = (ch, d1)" "rcHalt rec = ch"
  shows "haltInv (putRec a rec d1)"
proof (rule haltInvI)
  have d1: "\<And>b. getRec b d1 = getRec b d" "dNextChan d1 = Suc (dNextChan d)" "dClosedChans d1 = dClosedChans d"
    "rcHalt rec = dNextChan d" using assms(2,3) by (auto simp: makeChan_def)
  have cases: "b = a \<and> rcHalt r = dNextChan d \<or> getRec b d = Some r \<and> rcHalt r < dNextChan d"
    if "getRec b (putRec a rec d1) = Some r" for b r
    using that haltInvD(1) [OF assms(1), of b r] d1(1,4) by (cases "b = a") simp_all
  fix b r assume b: "getRec b (putRec a rec d1) = Some r"
  show "rcHalt r < dNextChan (putRec a rec d1)" using cases [OF b] d1(2) by auto
  have "dNextChan d \<notin> dClosedChans d" using haltInv_closed [OF assms(1), of "dNextChan d"] by blast
  then show "rcHalt r \<notin> dClosedChans (putRec a rec d1)" if "\<not> rcParked r"
    using cases [OF b] d1(3) that haltInvD(2) [OF assms(1), of b r] by auto
  fix c s assume c: "getRec c (putRec a rec d1) = Some s" "rcHalt r = rcHalt s"
  show "b = c" using cases [OF b] cases [OF c(1)] c(2) haltInvD(3) [OF assms(1), of b r c s] by auto
next
  fix c assume "c \<in> dClosedChans (putRec a rec d1)"
  then show "c < dNextChan (putRec a rec d1)" using haltInv_closed [OF assms(1), of c] assms(2) by (auto simp: makeChan_def)
qed

lemma haltInv_del: "haltInv d \<Longrightarrow> haltInv (delRec a d)"
  unfolding haltInv_def by (simp split: if_splits)

lemma haltInv_close:
  assumes "haltInv d" "getRec a d = Some rec" "rcParked rec"
  shows "haltInv (closeChan (rcHalt rec) d)"
proof (rule haltInvI)
  fix b r assume "getRec b (closeChan (rcHalt rec) d) = Some r"
  then have b: "getRec b d = Some r" by simp
  then show "rcHalt r < dNextChan (closeChan (rcHalt rec) d)" using haltInvD(1) [OF assms(1) b] by (simp add: closeChan_def)
  have "rcHalt r = rcHalt rec \<Longrightarrow> r = rec" using haltInvD(3) [OF assms(1) b assms(2)] b assms(2) by auto
  then show "rcHalt r \<notin> dClosedChans (closeChan (rcHalt rec) d)" if "\<not> rcParked r"
    using that assms(3) haltInvD(2) [OF assms(1) b] by (auto simp: closeChan_def)
  fix c s assume "getRec c (closeChan (rcHalt rec) d) = Some s" "rcHalt r = rcHalt s"
  then show "b = c" using haltInvD(3) [OF assms(1) b] by simp
next
  fix c assume "c \<in> dClosedChans (closeChan (rcHalt rec) d)"
  then show "c < dNextChan (closeChan (rcHalt rec) d)"
    using haltInv_closed [OF assms(1)] haltInvD(1) [OF assms(1,2)] by (auto simp: closeChan_def split: if_splits)
qed

lemma haltInv_recordOf: "haltInv d \<Longrightarrow> haltInv (snd (recordOf a d))"
  by (auto simp: recordOf_def Let_def split: option.splits prod.splits intro!: haltInv_fresh)

lemma haltInv_markParkedUnrun: "haltInv d \<Longrightarrow> haltInv (markParkedUnrun a i d)"
  using haltInv_jobsOnly [of d "markUnrun i parkedErr d"]
  by (auto simp: markParkedUnrun_def Let_def split: option.splits intro: haltInv_put)

lemma haltInv_discard: "haltInv d \<Longrightarrow> haltInv (discardIfEmpty a d)"
  by (auto simp: discardIfEmpty_def haltInv_del split: option.splits)

lemma haltInv_keepLives: "haltInv (snd kd) \<Longrightarrow> haltInv (snd (fold (keepLive a) is kd))"
proof (induction "is" arbitrary: kd)
  case (Cons i js)
  have "haltInv (snd (keepLive a i kd))"
    using Cons.prems haltInv_jobsOnly [OF haltInv_markParkedUnrun jobsOnly_ops(3)] by (cases kd) (auto simp: keepLive_def)
  then show ?case using Cons.IH by simp
qed simp

lemma recordOf_getRec: "recordOf a d = (rec0, d1) \<Longrightarrow> getRec a d1 = Some rec0"
  by (auto simp: recordOf_def Let_def split: option.splits prod.splits)

text \<open>\<open>regPark\<close> up to the sweep over the queue: a park that was there already, or a new one.\<close>

lemma regPark_cases:
  obtains rec d1 where "getRec a d1 = Some rec" "rcParked rec" "regPark a cause d = d1" "d1 = putRec a rec (snd (recordOf a d))"
      "rcParked (fst (recordOf a d))" "rcHalt rec = rcHalt (fst (recordOf a d))" "rcWorker rec = rcWorker (fst (recordOf a d))"
  | rec gen kept d3 where "rcParked rec" "rcHalt rec = rcHalt (fst (recordOf a d))" "rcWorker rec = rcWorker (fst (recordOf a d))"
      "fold (keepLive a) (rcJobs rec)
         ([], closeChan (rcHalt rec) ((putRec a rec (snd (recordOf a d)))\<lparr>dGeneration := gen\<rparr>)) = (kept, d3)"
      "regPark a cause d = (case getRec a d3 of None \<Rightarrow> d3 | Some rec3 \<Rightarrow> putRec a (rec3\<lparr>rcJobs := kept\<rparr>) d3)"
proof -
  obtain rec0 d1 where r: "recordOf a d = (rec0, d1)" by fastforce
  define rec where "rec = (if rcCause rec0 = None then rec0\<lparr>rcCause := cause\<rparr> else rec0)"
  define rec' where "rec' = rec\<lparr>rcParked := True, rcGeneration := dGeneration d1 + 1\<rparr>"
  obtain kept d3 where k: "fold (keepLive a) (rcJobs rec')
      ([], closeChan (rcHalt rec') ((putRec a rec' d1)\<lparr>dGeneration := dGeneration d1 + 1\<rparr>)) = (kept, d3)" by fastforce
  show thesis
  proof (cases "rcParked rec")
    case True
    then show thesis by (intro that(1) [of "putRec a rec d1" rec]) (auto simp: regPark_def r rec_def split: if_splits)
  next
    case False
    then have "regPark a cause d = (case getRec a d3 of None \<Rightarrow> d3 | Some rec3 \<Rightarrow> putRec a (rec3\<lparr>rcJobs := kept\<rparr>) d3)"
      using k by (simp add: regPark_def r rec_def rec'_def Let_def)
    then show thesis using k by (intro that(2) [of rec']) (auto simp: r rec'_def rec_def)
  qed
qed

lemma haltInv_regPark:
  assumes "haltInv d" shows "haltInv (regPark a cause d)"
proof -
  have g: "getRec a (snd (recordOf a d)) = Some (fst (recordOf a d))" by (rule recordOf_getRec) simp
  have h: "haltInv (snd (recordOf a d))" by (rule haltInv_recordOf [OF assms])
  show ?thesis
  proof (cases rule: regPark_cases [where a = a and d = d and cause = cause])
    case (1 rec d1)
    then show ?thesis using haltInv_put [OF h g] by simp
  next
    case (2 rec gen kept d3)
    let ?d2 = "(putRec a rec (snd (recordOf a d)))\<lparr>dGeneration := gen\<rparr>"
    have "haltInv (putRec a rec (snd (recordOf a d)))" using haltInv_put [OF h g] 2(1,2) by simp
    then have "haltInv ?d2" by (rule haltInv_cong) simp_all
    then have "haltInv (closeChan (rcHalt rec) ?d2)" using 2(1) by (intro haltInv_close [where a = a]) simp_all
    then have "haltInv d3" using haltInv_keepLives [of "([], closeChan (rcHalt rec) ?d2)" a "rcJobs rec"] 2(4) by simp
    then show ?thesis unfolding 2(5) by (auto split: option.split intro: haltInv_put)
  qed
qed

lemma haltInv_regLift: "haltInv d \<Longrightarrow> haltInv (regLift a d)"
  by (auto simp: regLift_def split: option.split prod.split intro!: haltInv_discard haltInv_fresh)

lemma haltInv_ensureWorker: "haltInv d \<Longrightarrow> haltInv (snd (ensureWorker a rec d))"
proof (cases "rcWorker rec")
  case False
  assume h: "haltInv d"
  obtain ch d1 where m: "makeChan d = (ch, d1)" by fastforce
  have "haltInv (putRec a (rec\<lparr>rcWorker := True, rcWake := False, rcHalt := ch\<rparr>) d1)" by (rule haltInv_fresh [OF h m]) simp
  then show ?thesis using False by (auto simp: ensureWorker_def m intro: haltInv_cong)
qed (simp add: ensureWorker_def)

lemma haltInv_enqueueLocked:
  assumes "haltInv d" shows "haltInv (snd (regEnqueueLocked i d))"
proof -
  have q: "haltInv (case getRec a (track i d2) of None \<Rightarrow> track i d2
      | Some rec3 \<Rightarrow> putRec a (rec3\<lparr>rcJobs := rcJobs rec3 @ [i], rcWake := True\<rparr>) (track i d2))"
    if "haltInv d2" for a and d2 :: "'a disp"
    using haltInv_jobsOnly [OF that jobsOnly_ops(4), of i] by (auto split: option.split intro: haltInv_put)
  show ?thesis
    using assms q [OF haltInv_ensureWorker [OF haltInv_recordOf]]
    by (auto simp: regEnqueueLocked_def Let_def haltInv_markParkedUnrun case_prod_beta split: option.split)
qed

lemma haltInv_dispEnqueue:
  assumes "haltInv d" shows "haltInv (snd (dispEnqueue c rq d))"
proof -
  have "haltInv (withNewJob c rq d)" by (rule haltInv_cong [OF assms]) (simp_all add: withNewJob_def)
  then have l: "haltInv (snd (regEnqueueLocked (dNextJob d) (withNewJob c rq d)))" by (rule haltInv_enqueueLocked)
  show ?thesis
    using l haltInv_jobsOnly [OF l jobsOnly_ops(3)] haltInv_jobsOnly [OF l jobsOnly_ops(5)]
    by (auto simp: dispEnqueue_alt regEnqueue_def split: prod.splits outcome.splits)
qed

lemma haltInv_applyOp:
  assumes h: "haltInv d" shows "haltInv (applyOp op d)"
proof (cases op)
  case (OpPark b cause vs)
  then show ?thesis
    using haltInv_regPark [OF h, of b cause]
    by (auto simp: regParkVersions_def Let_def split: option.split intro: haltInv_put)
next
  case (OpRetire b)
  then show ?thesis using h by (auto simp: regRetire_def split: option.split intro!: haltInv_discard intro: haltInv_put)
next
  case (OpPop b)
  then show ?thesis using h by (auto simp: regPop_def split: option.split list.split intro: haltInv_put)
next
  case (OpClose drained cerr)
  then show ?thesis by (auto simp: dispClose_def regClose_def dispInterrupt_def Let_def intro: haltInv_cong [OF h])
next
  case OpInterrupt
  then show ?thesis by (auto simp: dispInterrupt_def intro: haltInv_cong [OF h])
next
  case (OpSettleIfParked b ch i)
  then show ?thesis using h haltInv_jobsOnly [OF h] by (auto simp: regSettleIfParked_def haltInv_markParkedUnrun)
qed (use h haltInv_jobsOnly [OF h] in \<open>auto simp: haltInv_dispEnqueue regSupersede_def haltInv_regLift haltInv_regPark
      regLiftGeneration_def regParkIfCurrent_def split: option.split\<close>)

section \<open>Parks\<close>

lemma isParked_same: "isParked agg d \<Longrightarrow> getRec agg d' = getRec agg d \<Longrightarrow> isParked agg d'"
  by (simp add: isParked_iff)

lemma isParked_put: "isParked agg d \<Longrightarrow> (b = agg \<Longrightarrow> rcParked rec) \<Longrightarrow> isParked agg (putRec b rec d)"
  by (auto simp: isParked_iff)

lemma isParked_jobOps [simp]:
  "isParked a (markSettled i d) = isParked a d" "isParked a (markUnrun i e d) = isParked a d"
  "isParked a (complete i q d) = isParked a d" "isParked a (track i d) = isParked a d" "isParked a (release i d) = isParked a d"
  by (simp_all add: isParked_iff)

lemma isParked_markParkedUnrun: "isParked agg d \<Longrightarrow> isParked agg (markParkedUnrun b i d)"
  by (auto simp: markParkedUnrun_def Let_def isParked_iff split: option.split)

lemma isParked_keepLives: "isParked agg (snd kd) \<Longrightarrow> isParked agg (snd (fold (keepLive b) is kd))"
proof (induction "is" arbitrary: kd)
  case (Cons i js)
  have "isParked agg (snd (keepLive b i kd))"
    using Cons.prems by (cases kd) (auto simp: keepLive_def isParked_markParkedUnrun)
  then show ?case using Cons.IH by simp
qed simp

text \<open>Parking parks.\<close>

lemma regPark_parks: "isParked agg (regPark agg cause d)"
proof (cases rule: regPark_cases [where a = agg and d = d and cause = cause])
  case (1 rec d1)
  then show ?thesis by (simp add: isParked_iff)
next
  case (2 rec gen kept d3)
  let ?d2 = "(putRec agg rec (snd (recordOf agg d)))\<lparr>dGeneration := gen\<rparr>"
  have "isParked agg (closeChan (rcHalt rec) ?d2)" using 2(1) by (simp add: isParked_iff)
  then have "isParked agg d3"
    using isParked_keepLives [of agg "([], closeChan (rcHalt rec) ?d2)" agg "rcJobs rec"] 2(4) by simp
  then show ?thesis unfolding 2(5) by (auto simp: isParked_iff split: option.split)
qed

lemma isParked_regPark: "isParked agg d \<Longrightarrow> isParked agg (regPark b cause d)"
  using regPark_parks [of agg cause d] getRec_regPark_other [of agg b cause d] by (cases "b = agg") (auto simp: isParked_iff)

lemma isParked_enqueueLocked:
  assumes "isParked agg d" shows "isParked agg (snd (regEnqueueLocked i d))"
proof (cases "\<exists>job. dJobs d i = Some job \<and> jobAgg job = agg")
  case True
  then obtain job where job: "dJobs d i = Some job" "jobAgg job = agg" by blast
  obtain rec where rec: "getRec agg d = Some rec" "rcParked rec" using assms by (auto simp: isParked_iff)
  obtain sp d2 where e: "ensureWorker agg rec d = (sp, d2)" by fastforce
  then have "isParked agg d2" using rec by (auto simp: ensureWorker_def makeChan_def isParked_iff split: if_splits)
  then have "isParked agg (case getRec agg (track i d2) of None \<Rightarrow> track i d2
      | Some rec3 \<Rightarrow> putRec agg (rec3\<lparr>rcJobs := rcJobs rec3 @ [i], rcWake := True\<rparr>) (track i d2))"
    by (auto simp: isParked_iff)
  then show ?thesis
    using assms isParked_markParkedUnrun [OF assms, of agg i] rec job e by (simp add: regEnqueueLocked_def Let_def recordOf_def)
next
  case False
  then have "getRec agg (snd (regEnqueueLocked i d)) = getRec agg d"
    by (auto simp: regEnqueueLocked_def Let_def case_prod_beta getRec_markParkedUnrun_other
        getRec_ensureWorker_other getRec_recordOf_other split: option.splits)
  then show ?thesis using assms by (rule isParked_same [rotated])
qed

lemma isParked_dispEnqueue:
  assumes "isParked agg d" shows "isParked agg (snd (dispEnqueue c rq d))"
proof -
  have l: "isParked agg (snd (regEnqueueLocked (dNextJob d) (withNewJob c rq d)))"
    using assms by (intro isParked_enqueueLocked) simp
  show ?thesis
    using l by (auto simp: dispEnqueue_alt regEnqueue_def split: prod.splits outcome.splits)
qed

text \<open>What lifts a park: a resume, or the supersession by a tombstone.\<close>

fun lifts :: "string \<Rightarrow> 't disp_op \<Rightarrow> bool" where
  "lifts agg (OpResume b gen) = (b = agg)"
| "lifts agg (OpSupersede b) = (b = agg)"
| "lifts agg _ = False"

lemma isParked_applyOp:
  assumes p: "isParked agg d" and l: "\<not> lifts agg op"
  shows "isParked agg (applyOp op d)"
proof (cases op)
  case (OpPark b cause vs)
  then show ?thesis
    using isParked_regPark [OF p, of b cause]
    by (auto simp: regParkVersions_def Let_def isParked_iff split: option.split)
next
  case (OpSupersede b)
  then have "getRec agg (applyOp op d) = getRec agg d"
    using l by (simp add: regSupersede_def getRec_regLift_other getRec_regPark_other)
  then show ?thesis using p by (simp add: isParked_iff)
next
  case (OpResume b gen)
  then show ?thesis
    using p l getRec_regLift_other [of agg b d] by (auto simp: regLiftGeneration_def isParked_iff split: option.split)
next
  case (OpRetire b)
  then show ?thesis using p by (auto simp: regRetire_def discardIfEmpty_def isParked_iff split: option.split)
next
  case (OpPop b)
  then show ?thesis using p by (auto simp: regPop_def isParked_iff split: option.split list.split)
next
  case (OpSettleIfParked b ch i)
  then show ?thesis using p isParked_markParkedUnrun [OF p] isParked_same [OF p] by (auto simp: regSettleIfParked_def)
next
  case (OpClose drained cerr)
  then show ?thesis using p by (auto simp: dispClose_def regClose_def dispInterrupt_def Let_def intro: isParked_same)
next
  case OpInterrupt
  then show ?thesis using p by (auto simp: dispInterrupt_def intro: isParked_same)
qed (use p in \<open>auto simp: isParked_dispEnqueue isParked_regPark regParkIfCurrent_def\<close>)

lemma isParked_ops: "isParked agg d \<Longrightarrow> \<not> list_ex (lifts agg) ops \<Longrightarrow> isParked agg (fold applyOp ops d)"
  by (induction ops arbitrary: d) (auto simp: isParked_applyOp)

text \<open>A parked aggregate runs no durable job, under whatever channel it was popped.\<close>

lemma parked_runs_nothing:
  assumes "isParked agg (wDisp w)" "jobAcked j"
  shows "\<exists>w'. deliverJob cf en agg halt i j w = (Fail parkedErr, w') \<and> wLog w' = wLog w"
  using assms by (auto simp: deliverJob_def heldByPark_def regSettleIfParked_def parked_case split: prod.splits)

section \<open>What a failed run leaves behind\<close>

text \<open>
  From the moment a durable job is popped, if nobody lifts a park of its aggregate: the aggregate's
  record keeps its worker and the channel the job was popped with.
\<close>

definition keepsHalt :: "string \<Rightarrow> chan \<Rightarrow> 't disp \<Rightarrow> bool" where
  "keepsHalt agg halt d \<longleftrightarrow> (\<exists>rec. getRec agg d = Some rec \<and> rcHalt rec = halt \<and> rcWorker rec)"

lemma keepsHalt_same: "keepsHalt agg halt d \<Longrightarrow> getRec agg d' = getRec agg d \<Longrightarrow> keepsHalt agg halt d'"
  by (simp add: keepsHalt_def)

lemma keepsHalt_markParkedUnrun: "keepsHalt agg halt d \<Longrightarrow> keepsHalt agg halt (markParkedUnrun b i d)"
  by (auto simp: markParkedUnrun_def Let_def keepsHalt_def split: option.split)

lemma keepsHalt_keepLives: "keepsHalt agg halt (snd kd) \<Longrightarrow> keepsHalt agg halt (snd (fold (keepLive b) is kd))"
proof (induction "is" arbitrary: kd)
  case (Cons i js)
  have "keepsHalt agg halt (snd (keepLive b i kd))"
    using Cons.prems keepsHalt_markParkedUnrun [of agg halt "snd kd" b i] by (cases kd) (auto simp: keepLive_def keepsHalt_def)
  then show ?case using Cons.IH by simp
qed simp

lemma keepsHalt_regPark:
  assumes "keepsHalt agg halt d" shows "keepsHalt agg halt (regPark b cause d)"
proof (cases "b = agg")
  case b: True
  then obtain rec0 where r: "recordOf b d = (rec0, d)" "rcHalt rec0 = halt" "rcWorker rec0"
    using assms by (auto simp: keepsHalt_def recordOf_def)
  show ?thesis
  proof (cases rule: regPark_cases [where a = b and d = d and cause = cause])
    case (1 rec d1)
    then show ?thesis using r b by (simp add: keepsHalt_def)
  next
    case (2 rec gen kept d3)
    let ?d2 = "(putRec b rec (snd (recordOf b d)))\<lparr>dGeneration := gen\<rparr>"
    have "keepsHalt agg halt (closeChan (rcHalt rec) ?d2)" using 2(2,3) r b by (simp add: keepsHalt_def)
    then have "keepsHalt agg halt d3"
      using keepsHalt_keepLives [of agg halt "([], closeChan (rcHalt rec) ?d2)" b "rcJobs rec"] 2(4) by simp
    then show ?thesis unfolding 2(5) by (auto simp: keepsHalt_def split: option.split)
  qed
qed (use assms in \<open>auto intro: keepsHalt_same simp: getRec_regPark_other\<close>)

lemma keepsHalt_enqueueLocked:
  assumes "keepsHalt agg halt d" shows "keepsHalt agg halt (snd (regEnqueueLocked i d))"
proof (cases "\<exists>job. dJobs d i = Some job \<and> jobAgg job = agg")
  case True
  then show ?thesis
    using assms keepsHalt_markParkedUnrun [OF assms, of agg i]
    by (auto simp: regEnqueueLocked_def Let_def recordOf_def ensureWorker_def keepsHalt_def)
next
  case False
  then have "getRec agg (snd (regEnqueueLocked i d)) = getRec agg d"
    by (auto simp: regEnqueueLocked_def Let_def case_prod_beta getRec_markParkedUnrun_other
        getRec_ensureWorker_other getRec_recordOf_other split: option.splits)
  then show ?thesis using assms by (rule keepsHalt_same [rotated])
qed

lemma keepsHalt_dispEnqueue:
  assumes "keepsHalt agg halt d" shows "keepsHalt agg halt (snd (dispEnqueue c rq d))"
proof -
  have l: "keepsHalt agg halt (snd (regEnqueueLocked (dNextJob d) (withNewJob c rq d)))"
    using assms by (intro keepsHalt_enqueueLocked) (simp add: keepsHalt_def)
  show ?thesis
    using l by (auto simp: dispEnqueue_alt regEnqueue_def keepsHalt_def split: prod.splits outcome.splits)
qed

lemma keepsHalt_applyOp:
  assumes k: "keepsHalt agg halt d" and "op \<noteq> OpRetire agg" and l: "\<not> lifts agg op"
  shows "keepsHalt agg halt (applyOp op d)"
proof (cases op)
  case (OpPark b cause vs)
  then show ?thesis
    using keepsHalt_regPark [OF k, of b cause]
    by (auto simp: regParkVersions_def Let_def keepsHalt_def split: option.split)
next
  case (OpSupersede b)
  then have "getRec agg (applyOp op d) = getRec agg d"
    using l by (simp add: regSupersede_def getRec_regLift_other getRec_regPark_other)
  then show ?thesis using k by (rule keepsHalt_same [rotated])
next
  case (OpResume b gen)
  then show ?thesis
    using k l getRec_regLift_other [of agg b d] by (auto simp: regLiftGeneration_def keepsHalt_def split: option.split)
next
  case (OpRetire b)
  then show ?thesis using k assms(2) by (auto simp: regRetire_def discardIfEmpty_def keepsHalt_def split: option.split)
next
  case (OpPop b)
  then show ?thesis using k by (auto simp: regPop_def keepsHalt_def split: option.split list.split)
next
  case (OpSettleIfParked b ch i)
  then show ?thesis using k keepsHalt_markParkedUnrun [OF k] by (auto simp: regSettleIfParked_def keepsHalt_def)
next
  case (OpClose drained cerr)
  then show ?thesis using k by (auto simp: dispClose_def regClose_def dispInterrupt_def Let_def intro: keepsHalt_same)
qed (use k in \<open>auto simp: keepsHalt_dispEnqueue keepsHalt_regPark regParkIfCurrent_def dispInterrupt_def intro: keepsHalt_same\<close>)

definition leavesParks :: "'t environment \<Rightarrow> string \<Rightarrow> bool" where
  "leavesParks en agg \<longleftrightarrow> (\<forall>t. \<not> list_ex (lifts agg) (enOthers en t))"

definition heldBack :: "'t environment \<Rightarrow> string \<Rightarrow> chan \<Rightarrow> 't disp \<Rightarrow> bool" where
  "heldBack en agg halt d \<longleftrightarrow> fairOthers en agg \<and> leavesParks en agg \<and> haltInv d \<and> keepsHalt agg halt d"

lemma heldBack_closed: "heldBack en agg halt d \<Longrightarrow> isClosedChan halt d \<Longrightarrow> isParked agg d"
  using haltInvD(2) [of d agg] by (auto simp: heldBack_def keepsHalt_def isParked_iff isClosedChan_def)

lemma heldBack_applyOp:
  "heldBack en agg halt d \<Longrightarrow> op \<noteq> OpRetire agg \<Longrightarrow> \<not> lifts agg op \<Longrightarrow> heldBack en agg halt (applyOp op d)"
  by (simp add: heldBack_def haltInv_applyOp keepsHalt_applyOp)

lemma heldBack_ops:
  "heldBack en agg halt d \<Longrightarrow> OpRetire agg \<notin> set ops \<Longrightarrow> \<not> list_ex (lifts agg) ops \<Longrightarrow> heldBack en agg halt (fold applyOp ops d)"
  by (induction ops arbitrary: d) (auto simp: heldBack_applyOp)

interpretation parks: failed_run en agg halt i "heldBack en agg halt" "isParked agg" for en :: "'t environment" and agg halt i
proof (unfold_locales)
  fix d :: "'t disp" and b c t
  assume d: "heldBack en agg halt d"
  show "heldBack en agg halt (fold applyOp (enOthers en t) d)"
    by (rule heldBack_ops [OF d]) (use d in \<open>auto simp: heldBack_def fairOthers_def leavesParks_def\<close>)
  show "heldBack en agg halt (markSettled i d)" using heldBack_applyOp [OF d, of "OpSettle i"] by simp
  show s: "heldBack en agg halt (snd (regSettleIfParked agg halt i d))"
    using heldBack_applyOp [OF d, of "OpSettleIfParked agg halt i"] by simp
  show "heldBack en agg halt (snd (regParkIfCurrent agg halt b (Some c) d))"
    using heldBack_applyOp [OF d, of "OpParkIfCurrent agg halt b (Some c)"] by simp
  show "isClosedChan halt d \<Longrightarrow> isParked agg d" by (rule heldBack_closed [OF d])
  show "isParked agg (snd (regParkIfCurrent agg halt True (Some c) d))"
    using heldBack_closed [OF d] regPark_parks [of agg "Some c" d] by (auto simp: regParkIfCurrent_def)
  assume "fst (regSettleIfParked agg halt i d)"
  then have "isParked agg d" using heldBack_closed [OF d] by (auto simp: regSettleIfParked_def parked_case split: if_splits)
  then show "isParked agg (snd (regSettleIfParked agg halt i d))"
    using isParked_applyOp [of agg d "OpSettleIfParked agg halt i"] by simp
qed

lemma pop_heldBack:
  assumes "dispInv d" "regPop agg d = (Some (i, halt), d')" "fairOthers en agg" "leavesParks en agg"
  shows "heldBack en agg halt d'"
proof -
  obtain rec js where r: "getRec agg d = Some rec" "rcJobs rec = i # js" "halt = rcHalt rec"
      "d' = putRec agg (rec\<lparr>rcJobs := js\<rparr>) d"
    using assms(2) by (auto simp: regPop_def split: option.splits list.splits)
  have "recOk d agg rec" using dispInv_rec [OF assms(1) r(1)] .
  moreover have "haltInv d'" using haltInv_applyOp [OF haltInv_dispInv [OF assms(1)], of "OpPop agg"] assms(2) by simp
  ultimately show ?thesis using r assms(3,4) by (auto simp: heldBack_def keepsHalt_def recOk_def)
qed

end
