(* ===== verification/Delivery_Properties.thy ===== *)
theory Delivery_Properties
  imports Delivery_Park
begin

text \<open>
  What holds in every reachable state of the dispatcher's goroutines, and what one run of a
  worker over a job guarantees whatever the other goroutines do meanwhile.
\<close>

section \<open>Every interleaving\<close>

definition oneClient :: "int system" where
  "oneClient = startSystem\<lparr>syDisp := oneQueued, syWorkers := spawnWorker newDispatcher oneQueued Map.empty\<rparr>"

lemma oneClient_reachable: "reachable oneClient"
proof -
  have "sys_step startSystem (startSystem\<lparr>syDisp := oneQueued,
      syWorkers := spawnWorker (syDisp startSystem) oneQueued (syWorkers startSystem)\<rparr>)"
    using sys_step.enqueue [where s = startSystem and d' = oneQueued and c = background and rq = "durableRequest ''a'' 1"]
    by (simp add: oneQueued_def startSystem_def)
  then show ?thesis
    using reachable.step [OF reachable.start] by (simp add: oneClient_def startSystem_def)
qed

lemma oneClient_sel [simp]: "syDisp oneClient = oneQueued" "syWorkers oneClient ''a'' = Some (Draining False)"
proof -
  have "dSpawned oneQueued = [''a'']" by code_simp
  then show "syDisp oneClient = oneQueued" "syWorkers oneClient ''a'' = Some (Draining False)"
    by (simp_all add: oneClient_def spawnWorker_def newDispatcher_def startSystem_def)
qed

text \<open>C18: In every reachable state no channel was closed twice, and every record is sound: a queue has a
worker, a running aggregate's halt channel is open, a parked aggregate's queue holds no durable job, and a
record without worker and without park does not exist.\<close>

theorem reachable_registry_sound:
  assumes "reachable s"
  shows "\<not> dFault (syDisp s) \<and>
    (\<forall>agg rec. getRec agg (syDisp s) = Some rec \<longrightarrow>
       (rcJobs rec \<noteq> [] \<longrightarrow> rcWorker rec) \<and> (\<not> rcParked rec \<longrightarrow> \<not> isClosedChan (rcHalt rec) (syDisp s)) \<and>
       (rcParked rec \<longrightarrow> (\<forall>i \<in> set (rcJobs rec). \<not> acked i (syDisp s))) \<and> (rcWorker rec \<or> rcParked rec))"
proof -
  have "dispInv (syDisp s)" using reachable_inv [OF assms] sysInvD(1) by blast
  then show ?thesis by (auto simp: dispInv_def recOk_def isClosedChan_def)
qed

theorem reachable_registry_sound_witness:
  "reachable oneClient \<and> \<not> dFault (syDisp oneClient) \<and> getRec ''a'' (syDisp oneClient) \<noteq> None"
  using reachable_registry_sound [OF oneClient_reachable] oneClient_reachable oneQueued_rec by simp

text \<open>C17: No job is stranded: in every reachable state an aggregate with queued jobs has a live worker, and
that worker can take a step of its own, so it is never left waiting without a wake signal.\<close>

theorem no_job_stranded:
  assumes "reachable s" and "getRec agg (syDisp s) = Some rec" and "rcJobs rec \<noteq> []"
  shows "\<exists>st s' st'. syWorkers s agg = Some st \<and> sys_step s s' \<and> syWorkers s' agg = Some st' \<and> st' \<noteq> st"
proof -
  have I: "sysInv s" by (rule reachable_inv [OF assms(1)])
  have w: "rcWorker rec" using dispInv_rec [OF sysInvD(1) [OF I] assms(2)] assms(3) by (simp add: recOk_def)
  then obtain st where st: "syWorkers s agg = Some st" using sysInvD(4) [OF I assms(2)] assms(3) by blast
  then have ok: "workerOk (syDisp s) agg rec st" using sysInvD(3) [OF I st] assms(2) by auto
  have "\<exists>s' st'. sys_step s s' \<and> syWorkers s' agg = Some st' \<and> st' \<noteq> st"
  proof (cases st)
    case (Draining ending)
    obtain i js where "rcJobs rec = i # js" using assms(3) by (cases "rcJobs rec") auto
    then have "regPop agg (syDisp s) = (Some (i, rcHalt rec), putRec agg (rec\<lparr>rcJobs := js\<rparr>) (syDisp s))"
      using assms(2) by (simp add: regPop_def)
    then show ?thesis using sys_step.pop [OF st [unfolded Draining]] Draining by fastforce
  next
    case (Running ending i halt)
    then show ?thesis using sys_step.finish [OF st [unfolded Running], of None] by fastforce
  next
    case Awaiting
    then have "rcWake rec" using ok assms(3) by (simp add: workerOk_def)
    then show ?thesis using sys_step.wake [OF st [unfolded Awaiting] assms(2)] Awaiting by fastforce
  qed
  then show ?thesis using st by blast
qed

theorem no_job_stranded_witness:
  "\<exists>st s' st'. syWorkers oneClient ''a'' = Some st \<and> sys_step oneClient s' \<and> syWorkers s' ''a'' = Some st' \<and> st' \<noteq> st"
  using no_job_stranded [OF oneClient_reachable, of "''a''"] oneQueued_rec by simp

text \<open>Every job the tracker counts as in flight is either in its queue or being run by exactly one
worker, the one of its own aggregate, never both; so what \<open>WaitIdle\<close> waits for is always with somebody
who will finish it.\<close>

theorem inflight_jobs_accounted:
  assumes "reachable s" and "i \<in> dInflight (syDisp s)"
  shows "(queued i (syDisp s) \<longleftrightarrow> \<not> runs (syWorkers s) i) \<and>
    (\<forall>a b e1 h1 e2 h2. syWorkers s a = Some (Running e1 i h1) \<longrightarrow> syWorkers s b = Some (Running e2 i h2) \<longrightarrow> a = b)"
proof -
  have I: "sysInv s" by (rule reachable_inv [OF assms(1)])
  have "trackInv (syDisp s)" using sysInvD(1) [OF I] by (simp add: dispInv_def)
  then have f: "inFlight (syDisp s) i" using assms(2) trackInvD(1) by blast
  have run: "\<not> queued i (syDisp s) \<and> liveJob (syDisp s) i a" if "syWorkers s a = Some (Running e i h)" for a e h
    using sysInvD(3) [OF I that] by (auto simp: workerOk_def)
  have "a = b" if "syWorkers s a = Some (Running e1 i h1)" "syWorkers s b = Some (Running e2 i h2)" for a b e1 h1 e2 h2
    using run [OF that(1)] run [OF that(2)] by (auto simp: liveJob_def)
  then show ?thesis using sysInvD(5) [OF I f] run by (auto simp: runs_def)
qed

theorem inflight_jobs_accounted_witness:
  "reachable oneClient \<and> queued 0 (syDisp oneClient) \<and> \<not> runs (syWorkers oneClient) 0"
proof -
  have "0 \<in> dInflight oneQueued" by code_simp
  moreover have "queued 0 oneQueued" using oneQueued_rec by (auto intro: queuedI)
  ultimately show ?thesis
    using inflight_jobs_accounted [OF oneClient_reachable, of 0] oneClient_reachable by simp
qed

text \<open>An aggregate has one worker at a time: an enqueue starts a worker only when no goroutine works for
that aggregate.\<close>

theorem one_worker_per_aggregate:
  assumes "reachable s" and "dSpawned (snd (dispEnqueue c rq (syDisp s))) \<noteq> dSpawned (syDisp s)"
  shows "syWorkers s (evAggregateID (rqEvent rq)) = None \<and>
    dSpawned (snd (dispEnqueue c rq (syDisp s))) = evAggregateID (rqEvent rq) # dSpawned (syDisp s)"
proof -
  have I: "sysInv s" by (rule reachable_inv [OF assms(1)])
  have E: "enqueues (dNextJob (syDisp s)) (evAggregateID (rqEvent rq)) (syDisp s) (snd (dispEnqueue c rq (syDisp s)))"
    using dispEnqueue_effect [OF sysInvD(1) [OF I], of rq c] assms(2) by blast
  then show ?thesis
    using assms(2) sysInvD(3) [OF I, of "evAggregateID (rqEvent rq)"]
    by (cases "syWorkers s (evAggregateID (rqEvent rq))") (auto simp: enqueues_def split: if_splits)
qed

theorem one_worker_per_aggregate_witness:
  "reachable oneClient \<and> syWorkers oneClient ''b'' = None \<and>
   dSpawned (snd (dispEnqueue background (durableRequest ''b'' 1) oneQueued)) = ''b'' # dSpawned oneQueued"
proof -
  have "dSpawned (snd (dispEnqueue background (durableRequest ''b'' 1) oneQueued)) \<noteq> dSpawned oneQueued" by code_simp
  then show ?thesis
    using one_worker_per_aggregate [OF oneClient_reachable, of background "durableRequest ''b'' 1"] oneClient_reachable
    by (simp add: durableRequest_def orderEvent_def)
qed

section \<open>One run of a worker over a job\<close>

definition steadySub :: "string \<Rightarrow> int durable_sub" where
  "steadySub name = \<lparr>dsName = name, dsMatch = (\<lambda>_. True), dsHandler = (\<lambda>t c e. HReturn None), dsTimeout = 0, dsSlow = (\<lambda>_. False)\<rparr>"

definition brokenSub :: "string \<Rightarrow> int durable_sub" where
  "brokenSub name = (steadySub name)\<lparr>dsHandler := (\<lambda>t c e. HReturn (Some (OtherErr ''down'')))\<rparr>"

definition configOf :: "int durable_sub list \<Rightarrow> int \<Rightarrow> int dispatcher_config" where
  "configOf subs n =
     \<lparr>cfBus = True, cfDurableSubs = subs, cfOnPublishError = True, cfOnDeliveryError = True, cfOnPanic = True,
      cfDeadLetter = None, cfRetryInitial = 100, cfRetryMax = 30000, cfMaxAttempts = n\<rparr>"

definition quietEnv :: "int environment" where
  "quietEnv = \<lparr>enOthers = (\<lambda>_. []), enChoice = (\<lambda>_. TakeTimer), enPublish = (\<lambda>_. HReturn None),
     enAck = (\<lambda>t c k. HReturn None)\<rparr>"

definition popOne :: "int world" where
  "popOne = \<lparr>wDisp = snd (regPop ''a'' oneQueued), wTick = 0, wLog = []\<rparr>"

definition firstJob :: "int job" where
  "firstJob = the (dJobs oneQueued 0)"

lemma popOne_job: "dJobs (wDisp popOne) 0 = Some firstJob" "dNextJob (wDisp popOne) = 1" "jobAcked firstJob"
    "jForget firstJob = False" "acked 0 oneQueued"
  by (code_simp+)

text \<open>C16: A durable event is acknowledged at most once in a run, under its own delivery-log key, and only
after every subscriber that receives it has handled it successfully or the dead-letter handler has accepted
it; nothing but reports follows the acknowledgement.\<close>

theorem ack_only_after_delivery:
  assumes "dJobs (wDisp w) i = Some j"
  shows "\<exists>new. wLog (handleJob cf en agg halt i w) = wLog w @ new \<and>
    (\<forall>key res. Acknowledged i key res \<in> set new \<longrightarrow>
       (\<exists>pre rep. new = pre @ Acknowledged i key res # rep \<and> \<not> list_ex isAck pre \<and> list_all isReport rep \<and>
          jAck j = Some key \<and>
          (DeadLettered i \<in> set pre \<or> (\<forall>s \<in> set (subscribersFor cf j). \<exists>k. (s, k, None) \<in> set (callsOf pre)))))"
proof -
  obtain new where "adds w (handleJob cf en agg halt i w) new" "jobLog cf i j new"
    using handleJob_log [OF assms] by blast
  then show ?thesis unfolding adds_def using jobLog_ack [of cf i j new] by blast
qed

theorem ack_only_after_delivery_witness:
  "\<exists>pre key res rep. wLog (handleJob (configOf [steadySub ''s''] 3) quietEnv ''a'' 1 0 popOne) =
     pre @ Acknowledged 0 key res # rep \<and> jAck firstJob = Some key \<and> \<not> list_ex isAck pre \<and> list_all isReport rep"
proof -
  let ?log = "wLog (handleJob (configOf [steadySub ''s''] 3) quietEnv ''a'' 1 0 popOne)"
  have "list_ex (\<lambda>x. case x of Acknowledged k key r \<Rightarrow> k = 0 | _ \<Rightarrow> False) ?log" by code_simp
  then obtain x where x: "x \<in> set ?log" "case x of Acknowledged k key r \<Rightarrow> k = 0 | _ \<Rightarrow> False"
    unfolding list_ex_iff by blast
  obtain key res where "Acknowledged 0 key res \<in> set ?log" using x by (cases x rule: log_entry.exhaust) auto
  moreover have e: "wLog popOne = []" by (simp add: popOne_def)
  ultimately show ?thesis
    using ack_only_after_delivery [OF popOne_job(1), of "configOf [steadySub ''s''] 3" quietEnv "''a''" 1]
    unfolding e append.simps by metis
qed

text \<open>C19: Within one run of one job, with distinct subscribers, retries are bounded and never repeat a
success: a subscriber is called at most once per attempt, attempts are numbered from 1 to the configured
maximum, only subscribers that receive the event are called, and one that has succeeded is not called again in
that run. (A redelivery is a job of its own and calls it again.)\<close>

theorem subscriber_calls_bounded:
  assumes "dJobs (wDisp w) i = Some j" and "distinct (cfDurableSubs cf)"
  shows "\<exists>new. wLog (handleJob cf en agg halt i w) = wLog w @ new \<and> neverAgain (callsOf new) \<and>
    (\<forall>s k r. (s, k, r) \<in> set (callsOf new) \<longrightarrow>
       s \<in> set (subscribersFor cf j) \<and> 1 \<le> k \<and> k \<le> max 1 (cfMaxAttempts cf))"
proof -
  obtain new where "adds w (handleJob cf en agg halt i w) new" "jobLog cf i j new"
    using handleJob_log [OF assms(1)] by blast
  then show ?thesis using jobLog_calls [OF _ assms(2)] by (intro exI [of _ new]) (simp add: adds_def)
qed

theorem subscriber_calls_bounded_witness:
  "length (callsOf (wLog (handleJob (configOf [brokenSub ''b''] 3) quietEnv ''a'' 1 0 popOne))) = 3 \<and>
   (\<exists>new. wLog (handleJob (configOf [brokenSub ''b''] 3) quietEnv ''a'' 1 0 popOne) = wLog popOne @ new \<and>
      neverAgain (callsOf new))"
proof -
  have "length (callsOf (wLog (handleJob (configOf [brokenSub ''b''] 3) quietEnv ''a'' 1 0 popOne))) = 3"
    by code_simp
  moreover have "distinct (cfDurableSubs (configOf [brokenSub ''b''] 3))" by (simp add: configOf_def)
  ultimately show ?thesis
    using subscriber_calls_bounded [OF popOne_job(1), of "configOf [brokenSub ''b''] 3" quietEnv "''a''" 1] by blast
qed

text \<open>Whatever handlers answer, whichever goroutines interfere and however the delivery ends, a handled
job is settled and final afterwards, and keeps its event and its acknowledgement key.\<close>

theorem handled_job_is_final:
  assumes "dJobs (wDisp w) i = Some j" and "i < dNextJob (wDisp w)"
  shows "tkSettled (dispTicket i (wDisp (handleJob cf en agg halt i w))) \<and>
    tkFinal (dispTicket i (wDisp (handleJob cf en agg halt i w))) \<and>
    (\<exists>j'. dJobs (wDisp (handleJob cf en agg halt i w)) i = Some j' \<and> jEvent j' = jEvent j \<and> jAck j' = jAck j)"
  using handleJob_ends [OF assms, of cf en agg halt] by (auto simp: dispTicket_def jobFollows_def)

theorem handled_job_is_final_witness:
  "0 < dNextJob (wDisp popOne) \<and> tkFinal (dispTicket 0 (wDisp (handleJob (configOf [brokenSub ''b''] 2) quietEnv ''a'' 1 0 popOne)))"
  using handled_job_is_final [OF popOne_job(1), of "configOf [brokenSub ''b''] 2" quietEnv "''a''" 1] popOne_job(2) by simp

text \<open>C15: An event that is not delivered stops its successors: when the run of a durable job popped by its
worker returns an error (held by a park, attempts exhausted, interrupted, or the acknowledgement refused), its
halt channel is closed from then on, whatever the other goroutines did, and any durable job under that
channel runs nothing and calls nobody. And the aggregate is parked: if no other goroutine resumed or superseded
it meanwhile, it is parked when the run returns, it stays parked through any further operations but a resume or
a supersession, and until then no durable job of it runs anything, whichever channel it is popped with.\<close>

theorem undelivered_event_blocks_successors:
  assumes "dispInv d" and "regPop agg d = (Some (i, halt), wDisp w)" and "dJobs d i = Some j" and "jobAcked j"
    and "fairOthers en agg" and "deliverJob cf en agg halt i j (others en w) = (Fail e, w')"
    and "follows (wDisp w') (wDisp later)" and "jobAcked next"
  shows "isClosedChan halt (wDisp later) \<and>
    (\<exists>w2. deliverJob cf2 en2 agg halt k next later = (Fail parkedErr, w2) \<and> wLog w2 = wLog later) \<and>
    (leavesParks en agg \<longrightarrow> \<not> list_ex (lifts agg) ops \<longrightarrow> wDisp after = fold applyOp ops (wDisp w') \<longrightarrow>
       isParked agg (wDisp w') \<and> isParked agg (wDisp after) \<and>
       (\<exists>w2. deliverJob cf2 en2 agg halt2 k next after = (Fail parkedErr, w2) \<and> wLog w2 = wLog after))"
proof -
  have "acked i d" using assms(3,4) by (simp add: acked_def)
  then have "holding en agg halt (wDisp w)"
    using pop_holds [OF assms(1,2)] assms(5) by (simp add: holding_def)
  then have "isClosedChan halt (wDisp w')"
    using closes.deliverJob_leaves [OF hold.P_othersTurn assms(4,6)] by blast
  then have "isClosedChan halt (wDisp later)" using assms(7) followsD(1) by (auto simp: isClosedChan_def)
  moreover have "isParked agg (wDisp w') \<and> isParked agg (wDisp after) \<and>
      (\<exists>w2. deliverJob cf2 en2 agg halt2 k next after = (Fail parkedErr, w2) \<and> wLog w2 = wLog after)"
    if l: "leavesParks en agg" and ops: "\<not> list_ex (lifts agg) ops" "wDisp after = fold applyOp ops (wDisp w')"
  proof -
    have "isParked agg (wDisp w')"
      using parks.deliverJob_leaves [OF parks.P_othersTurn [OF pop_heldBack [OF assms(1,2,5) l]] assms(4,6)] .
    moreover from this have "isParked agg (wDisp after)" using isParked_ops [OF _ ops(1)] ops(2) by simp
    ultimately show ?thesis using parked_runs_nothing [OF _ assms(8)] by blast
  qed
  ultimately show ?thesis using closed_halt_runs_nothing [OF _ assms(8)] by blast
qed

definition givenUp :: "int world" where
  "givenUp = snd (deliverJob (configOf [brokenSub ''b''] 2) quietEnv ''a'' 1 0 firstJob (others quietEnv popOne))"

theorem undelivered_event_blocks_successors_witness:
  "isClosedChan 1 (wDisp givenUp) \<and> isParked ''a'' (wDisp givenUp) \<and>
   (\<exists>w2. deliverJob (configOf [steadySub ''s''] 2) quietEnv ''a'' 7 0 firstJob givenUp = (Fail parkedErr, w2) \<and>
      wLog w2 = wLog givenUp)"
proof -
  let ?r = "deliverJob (configOf [brokenSub ''b''] 2) quietEnv ''a'' 1 0 firstJob (others quietEnv popOne)"
  have "case fst ?r of Fail e \<Rightarrow> True | _ \<Rightarrow> False" by code_simp
  then obtain e where e: "?r = (Fail e, givenUp)"
    unfolding givenUp_def by (cases ?r) (auto split: outcome.splits)
  have p: "regPop ''a'' oneQueued = (Some (0, 1), wDisp popOne)"
    by (simp add: popOne_def regPop_def oneQueued_rec)
  have j: "dJobs oneQueued 0 = Some firstJob" by code_simp
  have f: "fairOthers quietEnv ''a''" by (simp add: fairOthers_def quietEnv_def)
  have l: "leavesParks quietEnv ''a''" by (simp add: leavesParks_def quietEnv_def)
  show ?thesis
    using undelivered_event_blocks_successors [OF oneQueued_inv p j popOne_job(3) f e follows_refl popOne_job(3),
        of "configOf [steadySub ''s''] 2" quietEnv 0 "[]" givenUp 7] l by simp
qed

text \<open>
  A store whose acknowledgement panics is not covered: the panic is recovered and reported, the job
  ends with an error, and the aggregate is not parked, so its next durable event is delivered ahead of the
  unacknowledged one.
\<close>

lemma panicking_ack_does_not_park:
  "let w = handleJob (configOf [steadySub ''s''] 2) (quietEnv\<lparr>enAck := \<lambda>t c k. HPanic ''disk''\<rparr>) ''a'' 1 0 popOne
   in tkErr (dispTicket 0 (wDisp w)) \<noteq> None \<and> \<not> isParked ''a'' (wDisp w)"
  unfolding isParked_def by code_simp

lemma enqueued_job:
  assumes "dispEnqueue c rq d = (Ok i, d')"
  shows "\<exists>j. dJobs d' i = Some j \<and> i < dNextJob d' \<and> jForget j = isForget rq \<and> jEvent j = rqEvent rq \<and> jAck j = rqAck rq"
proof -
  have e: "i = dNextJob d" "d' = snd (regEnqueue (dNextJob d) (withNewJob c rq d))"
    using assms by (auto simp: dispEnqueue_alt split: prod.splits outcome.splits)
  have "dNextJob d < dNextJob (withNewJob c rq d)" by (simp add: withNewJob_def)
  with followsD(2,3) [OF follows_regEnqueue [of "withNewJob c rq d" "dNextJob d"]] obtain j
    where "dJobs d' i = Some j" "jobFollows (newJobOf c rq) j" "i < dNextJob d'"
    unfolding e by (metis less_le_trans withNewJob_sel(3))
  then show ?thesis by (simp add: jobFollows_def newJobOf_def jobNew_def)
qed

text \<open>C22: Deletion markers reach everybody and are never given away: whenever the job of an accepted
request that carries a tombstone, or redelivers one, is run, it is never dead-lettered, and it is
acknowledged only after every durable subscriber, whatever its pattern, has been called and has succeeded.\<close>

theorem deletion_never_dead_lettered:
  assumes "dispEnqueue c rq d = (Ok i, d')"
    and "rqKind rq = DispatchTombstone \<or> rqKind rq = DispatchRedelivery \<and> evEventName (rqEvent rq) = forgetEventName"
    and "follows d' (wDisp w)"
  shows "\<exists>new. wLog (handleJob cf en agg halt i w) = wLog w @ new \<and> DeadLettered i \<notin> set new \<and>
    (\<forall>key res. Acknowledged i key res \<in> set new \<longrightarrow>
       (\<exists>pre rep. new = pre @ Acknowledged i key res # rep \<and> (\<forall>s \<in> set (cfDurableSubs cf). \<exists>k. (s, k, None) \<in> set (callsOf pre))))"
proof -
  obtain j0 where "dJobs d' i = Some j0" "i < dNextJob d'" "jForget j0 = isForget rq" using enqueued_job [OF assms(1)] by blast
  then obtain j where j: "dJobs (wDisp w) i = Some j" "jForget j"
    using followsD(2) [OF assms(3)] assms(2) by (fastforce simp: jobFollows_def isForget_def)
  obtain new where new: "adds w (handleJob cf en agg halt i w) new" "jobLog cf i j new"
    using handleJob_log [OF j(1)] by blast
  have dead: "DeadLettered i \<notin> set new" using jobLog_dead [OF new(2)] j(2) by (auto simp: deadLetters_def split: if_splits)
  have all: "subscribersFor cf j = cfDurableSubs cf" using j(2) by (simp add: subscribersFor_def)
  have "\<exists>pre rep. new = pre @ Acknowledged i key res # rep \<and> (\<forall>s \<in> set (cfDurableSubs cf). \<exists>k. (s, k, None) \<in> set (callsOf pre))"
    if "Acknowledged i key res \<in> set new" for key res
    using jobLog_ack [OF new(2) that] dead unfolding all by fastforce
  then show ?thesis using new(1) dead by (intro exI [of _ new]) (simp add: adds_def)
qed

definition deletionRequest :: "int dispatch_request" where
  "deletionRequest = \<lparr>rqEvent = orderEvent ''a'' 1, rqAck = Some (''a'', 1), rqKind = DispatchTombstone\<rparr>"

definition deletionWorld :: "int world" where
  "deletionWorld = \<lparr>wDisp = snd (regPop ''a'' (snd (dispEnqueue background deletionRequest newDispatcher))), wTick = 0, wLog = []\<rparr>"

definition deletionConfig :: "int dispatcher_config" where
  "deletionConfig = (configOf [(brokenSub ''b'')\<lparr>dsMatch := (\<lambda>_. False)\<rparr>] 2)\<lparr>cfDeadLetter := Some (\<lambda>c e l. HReturn None)\<rparr>"

theorem deletion_never_dead_lettered_witness:
  "length (callsOf (wLog (handleJob deletionConfig quietEnv ''a'' 1 0 deletionWorld))) = 2 \<and>
   (\<exists>new. wLog (handleJob deletionConfig quietEnv ''a'' 1 0 deletionWorld) = wLog deletionWorld @ new \<and>
      DeadLettered 0 \<notin> set new)"
proof -
  have "length (callsOf (wLog (handleJob deletionConfig quietEnv ''a'' 1 0 deletionWorld))) = 2" by code_simp
  moreover have "fst (dispEnqueue background deletionRequest newDispatcher) = Ok 0" by code_simp
  then have "dispEnqueue background deletionRequest newDispatcher = (Ok 0, snd (dispEnqueue background deletionRequest newDispatcher))"
    by (metis prod.collapse)
  moreover have "rqKind deletionRequest = DispatchTombstone" by (simp add: deletionRequest_def)
  moreover have "follows (snd (dispEnqueue background deletionRequest newDispatcher)) (wDisp deletionWorld)"
    using follows_applyOp [of "snd (dispEnqueue background deletionRequest newDispatcher)" "OpPop ''a''"] by (simp add: deletionWorld_def)
  ultimately show ?thesis
    using deletion_never_dead_lettered [of background deletionRequest newDispatcher 0 _ deletionWorld deletionConfig quietEnv "''a''" 1]
    by blast
qed

text \<open>C23: The waits between attempts stay within their bounds: with settings below a quarter of the int64
range the backoff after \<open>k\<close> retries is the initial delay doubled \<open>k\<close> times and capped at the maximum, and
the jittered delay lies in the upper half of it, so no delay is negative or above the maximum.\<close>

theorem retry_delay_bounds:
  assumes "0 \<le> cfRetryInitial cf" and "cfRetryInitial cf \<le> cfRetryMax cf" and "cfRetryMax cf < 2 ^ 62"
    and "delay = (nextBackoff cf ^^ k) (cfRetryInitial cf)" and "0 \<le> r" and "r \<le> delay div 2"
  shows "delay = min (cfRetryInitial cf * 2 ^ k) (cfRetryMax cf) \<and>
    delay div 2 \<le> jittered delay r \<and> jittered delay r \<le> delay \<and> 0 \<le> delay \<and> delay \<le> cfRetryMax cf"
proof -
  let ?a = "cfRetryInitial cf" and ?m = "cfRetryMax cf"
  have d: "(nextBackoff cf ^^ n) ?a = min (?a * 2 ^ n) ?m" for n
  proof (induction n)
    case (Suc n)
    define b where "b = min (?a * 2 ^ n) ?m"
    have b: "0 \<le> b" "b \<le> ?m" using assms(1,2) by (auto simp: b_def)
    then have "i64 (b * 2) = b * 2" using assms(3) by (intro i64_id) (auto simp: maxInt64_def)
    then have "(nextBackoff cf ^^ Suc n) ?a = min (b * 2) ?m" by (simp add: Suc b_def nextBackoff_def)
    also have "\<dots> = min (?a * 2 ^ Suc n) ?m"
      using assms(1,2) by (auto simp: b_def min_def)
    finally show ?case .
  qed (use assms(2) in simp)
  have r: "0 \<le> delay" "delay \<le> ?m" using assms(1,2,4) d by auto
  have "jittered delay r = (if delay div 2 \<le> 0 then delay else delay div 2 + r)"
    using r assms(3,5,6) by (auto simp: jittered_def Let_def maxInt64_def intro!: i64_id)
  then have "delay div 2 \<le> jittered delay r \<and> jittered delay r \<le> delay"
    using r(1) assms(5,6) by presburger
  then show ?thesis using r assms(4) d by blast
qed

theorem retry_delay_bounds_witness:
  "(nextBackoff (configOf [] 3) ^^ 2) 100 = 400 \<and> 200 \<le> jittered 400 7 \<and> jittered 400 7 \<le> 400"
proof -
  have s: "cfRetryInitial (configOf [] 3) = 100" "cfRetryMax (configOf [] 3) = 30000" by (simp_all add: configOf_def)
  have "(400 :: int) = (nextBackoff (configOf [] 3) ^^ 2) 100" by code_simp
  then show ?thesis using retry_delay_bounds [of "configOf [] 3" 400 2 7] s by simp
qed

end
