(* ===== verification/Node_Properties.thy ===== *)
theory Node_Properties
  imports Node_Restart Delivery_Properties
begin

text \<open>
  What the components guarantee together: a durable event is never lost, through commands,
  worker runs, parks, redeliveries, shutdowns and crashes in any order, and a restart puts
  every pending event back into its aggregate's queue.
\<close>

section \<open>A node to evaluate the properties on\<close>

definition nodeExec :: "(memory_tx, memory, snapshot_memory, int, int disp) executor" where
  "nodeExec = newExecutor counterES (Some memDispatcher) [WithDurableDelivery (Some (\<lambda>_. True))]"

definition nodeConfig :: "int dispatcher_config" where
  "nodeConfig = configOf [steadySub ''s''] 3"

text \<open>A node after one command, and after a worker has run its event.\<close>

definition addedState :: "(memory, snapshot_memory, int, int disp) exec_state" where
  "addedState = snd (executeAsync nodeExec None background ''id1'' someTime (addCmd ''a'' 5 False) (execPart (ndState startNode)))"

definition addedNode :: "int node" where
  "addedNode = startNode\<lparr>ndState := setExec addedState (ndState startNode)\<rparr>"

definition addedEvent :: "int event" where
  "addedEvent = \<lparr>evID = ''id1'', evAggregateID = ''a'', evEventName = ''added'', evVersion = 1, evSchemaVersion = 1,
     evOccurredAt = someTime, evAggregate = 5, evPreviousAggregate = 0\<rparr>"

definition poppedDisp :: "int disp" where
  "poppedDisp = snd (regPop ''a'' (xDisp (ndState addedNode)))"

definition deliveredNode :: "int node" where
  "deliveredNode = ranJob nodeExec nodeConfig quietEnv 0 ''a'' 1 0 (the (dJobs poppedDisp 0)) poppedDisp addedNode"

lemma nodeExec_simps: "withMemory nodeExec = nodeExec" "xDispatcher nodeExec = Some memDispatcher"
  by (simp_all add: withMemory_def nodeExec_def newExecutor_def counterES_def memES_def esNew_def)

lemma nodeExec_configured: "configured nodeExec"
  by (simp add: configured_def nodeExec_def newExecutor_def counterES_def counterCodec_ok i64_def projectionsSafe_def)

lemma addedNode_reachable: "node_reachable nodeExec nodeConfig addedNode"
proof -
  have "executeAsync nodeExec None background ''id1'' someTime (addCmd ''a'' 5 False) (execPart (ndState startNode)) =
      (fst (executeAsync nodeExec None background ''id1'' someTime (addCmd ''a'' 5 False) (execPart (ndState startNode))), addedState)"
    by (simp add: addedState_def)
  from node_step.command[OF this timeOk_someTime] show ?thesis
    unfolding addedNode_def
    by (intro node_reachable.step[OF node_reachable.start])
      (simp add: streamLength_def startNode_def streamOf_def newMemory_def maxInt64_def)
qed

lemma addedNode_log: "mDeliveries (dbStore (xDb (ndState addedNode))) = [\<lparr>dAggregateID = ''a'', dVersion = 1\<rparr>]"
  "replayed nodeExec (dbStore (xDb (ndState addedNode))) ''a'' = [addedEvent]"
  by (code_simp+)

lemma deliveredNode_reachable: "node_reachable nodeExec nodeConfig deliveredNode"
proof -
  have p: "fst (regPop ''a'' (xDisp (ndState addedNode))) = Some (0, 1)" "dJobs poppedDisp 0 \<noteq> None" by (code_simp+)
  then have "regPop ''a'' (xDisp (ndState addedNode)) = (Some (0, 1), poppedDisp)"
    by (simp add: poppedDisp_def prod_eq_iff)
  moreover obtain j where "dJobs poppedDisp 0 = Some j" using p(2) by blast
  ultimately have "node_step nodeExec nodeConfig addedNode deliveredNode"
    unfolding deliveredNode_def by (intro node_step.work) (simp_all add: quietEnv_def)
  then show ?thesis by (rule node_reachable.step[OF addedNode_reachable])
qed

lemma deliveredNode_log: "mDeliveries (dbStore (xDb (ndState deliveredNode))) = []" "ndDead deliveredNode = []"
  "ndForgotten deliveredNode = {}" "replayed nodeExec (dbStore (xDb (ndState deliveredNode))) ''a'' = [addedEvent]"
  by (code_simp+)

section \<open>At least once\<close>

text \<open>C1: durable events are delivered at least once. Take a node in any state it can reach by
  commands, worker runs whose handlers answer as they like, operations of other goroutines on
  the dispatcher, redeliveries, Forgets and crashes, in any order. Of an aggregate nobody asked
  to forget, every committed event with a durable subscriber is still in the delivery log, or
  every subscriber whose pattern it matches has handled exactly this event successfully, or the
  dead-letter handler has accepted it.\<close>

theorem durable_events_never_lost:
  assumes "configured x" "xDispatcher x = Some memDispatcher" "node_reachable (withMemory x) cf n"
    and "agg \<notin> ndForgotten n" "e \<in> set (replayed (withMemory x) (dbStore (xDb (ndState n))) agg)"
    and "isDurable x (evEventName e)"
  shows "\<lparr>dAggregateID = agg, dVersion = evVersion e\<rparr> \<in> set (mDeliveries (dbStore (xDb (ndState n)))) \<or>
    e \<in> set (ndDead n) \<or>
    (\<forall>s \<in> set (cfDurableSubs cf). dsMatch s (evEventName e) \<longrightarrow> (s, e) \<in> set (ndHandled n))"
proof -
  obtain E where ok: "nodeOk (withMemory x) cf E n" using node_reachable_ok[OF assms(1-3)] by blast
  have "replayed (withMemory x) (dbStore (xDb (ndState n))) agg = E agg"
    using recorded_replayed[OF nodeOkD(1)[OF ok]] assms(1) by (simp add: configured_def)
  then have e: "e \<in> set (E agg)" using assms(5) by simp
  then have "promised cf n e" using nodeOkD(4)[OF ok assms(4)] assms(6) by simp
  then show ?thesis using recordedD(3)[OF nodeOkD(1)[OF ok] e] by (simp add: promised_def)
qed

theorem durable_events_never_lost_witness:
  "node_reachable nodeExec nodeConfig deliveredNode \<and> (steadySub ''s'', addedEvent) \<in> set (ndHandled deliveredNode)"
proof -
  have "isDurable nodeExec (evEventName addedEvent)"
    by (simp add: isDurable_def nodeExec_def newExecutor_def)
  from durable_events_never_lost[OF nodeExec_configured nodeExec_simps(2), unfolded nodeExec_simps(1),
      OF deliveredNode_reachable _ _ this, of "''a''"]
  show ?thesis
    using deliveredNode_reachable by (simp add: deliveredNode_log nodeConfig_def configOf_def steadySub_def)
qed

section \<open>Restart\<close>

lemma pending_version:
  "v \<in> dVersion ` {d \<in> set ds. dAggregateID d = a} \<longleftrightarrow> \<lparr>dAggregateID = a, dVersion = v\<rparr> \<in> set ds"
proof
  assume "v \<in> dVersion ` {d \<in> set ds. dAggregateID d = a}"
  then obtain d where d: "d \<in> set ds" "dAggregateID d = a" "dVersion d = v" by auto
  have "d = \<lparr>dAggregateID = a, dVersion = v\<rparr>" using d(2,3) by (cases d rule: delivery.cases) simp
  then show "\<lparr>dAggregateID = a, dVersion = v\<rparr> \<in> set ds" using d(1) by simp
qed force

text \<open>C2: a restart resumes every delivery. However a node died, \<open>Recover\<close> in a new process on its
  store, with nothing else running, succeeds, changes neither the store nor the delivery log, parks nobody, and leaves in the
  queue of every aggregate exactly its pending events, in version order, each under its own
  key, so that none is skipped, none is queued twice and none overtakes another.\<close>

theorem restart_requeues_pending:
  assumes "configured x" "xDispatcher x = Some memDispatcher" "node_reachable (withMemory x) cf n" "ctxErr c = None"
  defines "s \<equiv> dbStore (xDb (ndState n))"
  assumes "int (length (mDeliveries s)) < 2 ^ 62"
  shows "\<exists>st' d'. recoverProc 63 (withMemory x) handler c (\<lambda>_. s) undisturbed batch (ndState (crashed n)) = Some (Ok None, st') \<and>
    xDb st' = xDb (ndState n) \<and> xDisp st' = d' \<and> (\<forall>agg. \<not> isParked agg d') \<and>
    (\<forall>agg. map (\<lambda>i. map_option (\<lambda>j. (jEvent j, jAck j)) (dJobs d' i)) (queueOf agg d') =
       map (\<lambda>e. Some (e, Some (agg, evVersion e)))
         (filter (\<lambda>e. \<lparr>dAggregateID = agg, dVersion = evVersion e\<rparr> \<in> set (mDeliveries s)) (replayed (withMemory x) s agg)))"
proof -
  let ?L = "mDeliveries s" and ?x = "withMemory x" and ?st = "ndState (crashed n)"
  obtain E where ok: "nodeOk ?x cf E n" using node_reachable_ok[OF assms(1-3)] by blast
  have log: "logOk E ?L" using nodeOkD(5)[OF ok] by (simp add: s_def)
  let ?b = "grouped (\<lambda>_. True) ?L"
  have b: "backlogOf ?b a = filter (\<lambda>d. dAggregateID d = a) ?L" "bkOrder ?b = firsts (map dAggregateID ?L)" for a
    using grouped_spec[of "\<lambda>_. True" ?L a] by simp_all
  have st: "xDb ?st = xDb (ndState n)" "xDisp ?st = newDispatcher" by (simp_all add: crashed_def)
  have "pendingByAggregate 63 memoryStore c (\<lambda>_. s) (if batch \<le> 0 then 100 else batch) (\<lambda>_. True) = Some (Ok (), ?b)"
    by (rule scan_static) (use assms(4,6) log in \<open>auto simp: logOk_def\<close>)
  then have rp: "recoverProc 63 ?x handler c (\<lambda>_. s) undisturbed batch ?st =
      Some (recoverAll ?x memDispatcher handler c undisturbed ?b (bkOrder ?b) ?st)"
    using assms(2) by (simp add: recoverProc_def)
  obtain d' where d': "recoverAll ?x memDispatcher handler c undisturbed ?b (bkOrder ?b) ?st = (Ok None, ?st\<lparr>xDisp := d'\<rparr>)"
    "openDisp d'" "\<And>a. waiting a d' = waiting a (xDisp ?st) @ (if a \<in> set (bkOrder ?b)
       then map (waits a) (filter (\<lambda>e. evVersion e \<in> dVersion ` set (backlogOf ?b a)) (E a)) else [])"
    using recoverAll_open[OF assms(1,4), of ?st E "bkOrder ?b" ?b handler] nodeOkD(1)[OF ok] log openDisp_new(1)
    by (auto simp: st b logOk_def filter_empty_conv)
  have none: "\<lparr>dAggregateID = a, dVersion = v\<rparr> \<notin> set ?L" if "a \<notin> dAggregateID ` set ?L" for a v
    using that by (metis delivery.select_convs(1) imageI)
  have w: "waiting a d' = map (waits a) (filter (\<lambda>e. \<lparr>dAggregateID = a, dVersion = evVersion e\<rparr> \<in> set ?L) (E a))" for a
    using d'(3)[of a] openDisp_new(2) pending_version[where a = a and ds = ?L] none[of a]
    by (auto simp: st b filter_empty_conv)
  have "map (\<lambda>i. map_option (\<lambda>j. (jEvent j, jAck j)) (dJobs d' i)) (queueOf a d') =
      map (map_option (\<lambda>(e, k, f). (e, k))) (waiting a d')" for a
    by (simp add: waiting_def ident_def option.map_comp comp_def)
  moreover have "replayed ?x s a = E a" for a
    using recorded_replayed[OF nodeOkD(1)[OF ok]] assms(1) by (simp add: configured_def s_def)
  ultimately show ?thesis
    using rp d'(1,2) w by (intro exI[of _ "?st\<lparr>xDisp := d'\<rparr>"] exI[of _ d']) (simp add: st openDisp_def comp_def)
qed

theorem restart_requeues_pending_witness:
  "\<exists>st'. recoverProc 63 nodeExec True background (\<lambda>_. dbStore (xDb (ndState addedNode))) undisturbed 0 (ndState (crashed addedNode)) =
      Some (Ok None, st') \<and>
    map (\<lambda>i. map_option (\<lambda>j. (jEvent j, jAck j)) (dJobs (xDisp st') i)) (queueOf ''a'' (xDisp st')) = [Some (addedEvent, Some (''a'', 1))]"
proof -
  have small: "int (length (mDeliveries (dbStore (xDb (ndState addedNode))))) < 2 ^ 62" by (simp add: addedNode_log)
  have v: "evVersion addedEvent = 1" by (simp add: addedEvent_def)
  from restart_requeues_pending[OF nodeExec_configured nodeExec_simps(2), unfolded nodeExec_simps(1),
      OF addedNode_reachable background_simps(1) small, of True 0]
  obtain st' where "recoverProc 63 nodeExec True background (\<lambda>_. dbStore (xDb (ndState addedNode))) undisturbed 0 (ndState (crashed addedNode)) =
      Some (Ok None, st')"
    "map (\<lambda>i. map_option (\<lambda>j. (jEvent j, jAck j)) (dJobs (xDisp st') i)) (queueOf ''a'' (xDisp st')) =
      map (\<lambda>e. Some (e, Some (''a'', evVersion e))) (filter (\<lambda>e. \<lparr>dAggregateID = ''a'', dVersion = evVersion e\<rparr> \<in>
        set (mDeliveries (dbStore (xDb (ndState addedNode))))) (replayed nodeExec (dbStore (xDb (ndState addedNode))) ''a''))"
    by metis
  then show ?thesis by (intro exI[of _ st']) (simp add: addedNode_log v)
qed

end
