(* ===== verification/Storetest.thy ===== *)
theory Storetest
  imports Store_Interface
begin

text \<open>
  \<^verbatim>\<open>store/storetest/storetest.go\<close>, the conformance suite the library publishes for stores written
  by others: every scenario as a function of the operations of a store and of the store it starts on,
  with what \<open>testing.TB\<close> records. The goroutines of the racing scenarios each make one call of the
  store; the order in which the store serves them is an argument. The texts of the failures are the
  formats without their arguments.
\<close>

section \<open>Tests\<close>

text \<open>
  A test runs on a store and records failures; \<open>Errorf\<close> goes on, \<open>Fatalf\<close> (and a panic of the store)
  ends the test, which is the result \<open>None\<close>.
\<close>

record 's tb =
  tbStore :: 's
  tbFailures :: "string list"

type_synonym ('s, 'a) test = "'s tb \<Rightarrow> 'a option \<times> 's tb"

definition pass :: "'a \<Rightarrow> ('s, 'a) test" where
  "pass x w = (Some x, w)"

definition andThen :: "('s, 'a) test \<Rightarrow> ('a \<Rightarrow> ('s, 'b) test) \<Rightarrow> ('s, 'b) test" where
  "andThen m k w = (case m w of (None, w') \<Rightarrow> (None, w') | (Some x, w') \<Rightarrow> k x w')"

definition errorf :: "string \<Rightarrow> ('s, unit) test" where
  "errorf msg w = (Some (), w\<lparr>tbFailures := tbFailures w @ [msg]\<rparr>)"

definition fatalf :: "string \<Rightarrow> ('s, 'a) test" where
  "fatalf msg w = (None, w\<lparr>tbFailures := tbFailures w @ [msg]\<rparr>)"

definition errorIf :: "bool \<Rightarrow> string \<Rightarrow> ('s, unit) test" where
  "errorIf b msg = (if b then errorf msg else pass ())"

definition fatalIf :: "bool \<Rightarrow> string \<Rightarrow> ('s, unit) test" where
  "fatalIf b msg = (if b then fatalf msg else pass ())"

text \<open>A call of the store: one that reads it and one that changes it.\<close>

definition acts :: "('s \<Rightarrow> 'a outcome \<times> 's) \<Rightarrow> ('s, 'a outcome) test" where
  "acts f w =
     (case f (tbStore w) of
        (Panic p, s') \<Rightarrow> fatalf (''panic: '' @ p) (w\<lparr>tbStore := s'\<rparr>)
      | (r, s') \<Rightarrow> (Some r, w\<lparr>tbStore := s'\<rparr>))"

definition reads :: "('s \<Rightarrow> 'a outcome) \<Rightarrow> ('s, 'a outcome) test" where
  "reads f = acts (\<lambda>s. (f s, s))"

fun forEach :: "('e \<Rightarrow> ('s, unit) test) \<Rightarrow> 'e list \<Rightarrow> ('s, unit) test" where
  "forEach f [] = pass ()"
| "forEach f (x # xs) = andThen (f x) (\<lambda>_. forEach f xs)"

text \<open>The value beside an ignored error is the zero value.\<close>

definition valueOr :: "'a \<Rightarrow> 'a outcome \<Rightarrow> 'a" where
  "valueOr z r = (case r of Ok x \<Rightarrow> x | _ \<Rightarrow> z)"

definition failsAs :: "(goerr \<Rightarrow> bool) \<Rightarrow> 'a outcome \<Rightarrow> bool" where
  "failsAs is r = (case r of Fail e \<Rightarrow> is e | _ \<Rightarrow> False)"

text \<open>\<open>errors.Is\<close> for an error that is no sentinel of the library.\<close>

fun wrapsErr :: "goerr \<Rightarrow> goerr \<Rightarrow> bool"
  and fragWraps :: "goerr \<Rightarrow> frag \<Rightarrow> bool"
where
  "wrapsErr target (Sentinel s) = (Sentinel s = target)"
| "wrapsErr target (OtherErr t) = (OtherErr t = target)"
| "wrapsErr target (Errorf fs) = (Errorf fs = target \<or> list_ex (fragWraps target) fs)"
| "wrapsErr target (SubscriberErr n e) = (SubscriberErr n e = target \<or> wrapsErr target e)"
| "fragWraps target (Lit t) = False"
| "fragWraps target (Wrap e) = wrapsErr target e"

definition errBoom :: goerr where
  "errBoom = OtherErr ''storetest: boom''"

text \<open>The bytes of a short text: one digit is a JSON number, the others the suite writes are not JSON.\<close>

definition bytesOf :: "string \<Rightarrow> blob" where
  "bytesOf s =
     (case s of
        [] \<Rightarrow> Empty
      | [c] \<Rightarrow> (case digitVal c of Some n \<Rightarrow> Json (JInt (int n)) | None \<Rightarrow> Malformed s)
      | _ \<Rightarrow> Malformed s)"

definition byteOf :: "nat \<Rightarrow> blob" where
  "byteOf n = bytesOf [char_of n]"

definition cancelled :: ctx where
  "cancelled = background\<lparr>ctxErr := Some (Sentinel CtxCanceled)\<rparr>"

section \<open>Bodies of transactions\<close>

text \<open>\<open>errors.Join\<close> of two calls, which both run, and a call whose error is ignored.\<close>

fun errOf :: "'a outcome \<Rightarrow> goerr option" where
  "errOf (Fail e) = Some e"
| "errOf _ = None"

definition joinTx :: "('tx \<Rightarrow> unit outcome \<times> 'tx) \<Rightarrow> ('tx \<Rightarrow> unit outcome \<times> 'tx) \<Rightarrow> 'tx \<Rightarrow> unit outcome \<times> 'tx" where
  "joinTx f g t =
     (case f t of
        (Panic p, t1) \<Rightarrow> (Panic p, t1)
      | (r1, t1) \<Rightarrow>
          (case g t1 of
             (Panic p, t2) \<Rightarrow> (Panic p, t2)
           | (r2, t2) \<Rightarrow>
               (case errorsJoin [errOf r1, errOf r2] of None \<Rightarrow> (Ok (), t2) | Some e \<Rightarrow> (Fail e, t2))))"

definition ignoreTx :: "('tx \<Rightarrow> unit outcome \<times> 'tx) \<Rightarrow> ('tx \<Rightarrow> unit outcome \<times> 'tx) \<Rightarrow> 'tx \<Rightarrow> unit outcome \<times> 'tx" where
  "ignoreTx f g t = (case f t of (Panic p, t') \<Rightarrow> (Panic p, t') | (r, t') \<Rightarrow> g t')"

definition returnErr :: "goerr \<Rightarrow> 'tx \<Rightarrow> unit outcome \<times> 'tx" where
  "returnErr e t = (Fail e, t)"

definition mustAtomically :: "('tx, 's) store_ops \<Rightarrow> ('tx \<Rightarrow> unit outcome \<times> 'tx) \<Rightarrow> ('s, unit) test" where
  "mustAtomically S fn =
     andThen (acts (atomically S background fn)) (\<lambda>r. fatalIf (\<not> isOk r) ''Atomically: %v'')"

fun appendFrom :: "('tx, 's) store_ops \<Rightarrow> ctx \<Rightarrow> string \<Rightarrow> int \<Rightarrow> blob list \<Rightarrow> 'tx \<Rightarrow> unit outcome \<times> 'tx" where
  "appendFrom S c sid i [] t = (Ok (), t)"
| "appendFrom S c sid i (b # bs) t =
     thenTx (txAppend S c sid (i + 1) b) (\<lambda>_. appendFrom S c sid (i + 1) bs) t"

definition appendEach :: "('tx, 's) store_ops \<Rightarrow> ctx \<Rightarrow> string \<Rightarrow> blob list \<Rightarrow> 'tx \<Rightarrow> unit outcome \<times> 'tx" where
  "appendEach S c sid blobs = appendFrom S c sid 0 blobs"

fun enqueueEach :: "('tx, 's) store_ops \<Rightarrow> ctx \<Rightarrow> delivery list \<Rightarrow> 'tx \<Rightarrow> unit outcome \<times> 'tx" where
  "enqueueEach S c [] t = (Ok (), t)"
| "enqueueEach S c (d # ds) t =
     thenTx (txEnqueueDelivery S c (dAggregateID d) (dVersion d)) (\<lambda>_. enqueueEach S c ds) t"

text \<open>The goroutines' calls in the order the store serves them; the slots of the others stay nil.\<close>

fun raceFrom :: "nat list \<Rightarrow> (nat \<Rightarrow> 's \<Rightarrow> unit outcome \<times> 's) \<Rightarrow> unit outcome list \<Rightarrow> ('s, unit outcome list) test" where
  "raceFrom [] run results = pass results"
| "raceFrom (i # order) run results =
     andThen (acts (run i)) (\<lambda>r. raceFrom order run (results[i := r]))"

definition raceAll :: "nat list \<Rightarrow> nat \<Rightarrow> (nat \<Rightarrow> 's \<Rightarrow> unit outcome \<times> 's) \<Rightarrow> ('s, unit outcome list) test" where
  "raceAll order n run = raceFrom order run (replicate n (Ok ()))"

abbreviation bg :: ctx where
  "bg \<equiv> background"

abbreviation dlv :: "string \<Rightarrow> int \<Rightarrow> delivery" where
  "dlv agg v \<equiv> \<lparr>dAggregateID = agg, dVersion = v\<rparr>"

section \<open>Scenarios of a store\<close>

definition appendCommitsAndReads :: "('tx, 's) store_ops \<Rightarrow> ('s, unit) test" where
  "appendCommitsAndReads S =
     andThen (mustAtomically S (appendEach S bg ''s1'' [bytesOf ''a'', bytesOf ''b'', bytesOf ''c'']))
       (\<lambda>_. andThen (reads (stReadFrom S bg ''s1'' 2))
       (\<lambda>r. andThen (fatalIf (\<not> isOk r) ''ReadFrom: %v'')
       (\<lambda>_. fatalIf (valueOr [] r \<noteq> [bytesOf ''b'', bytesOf ''c'']) ''ReadFrom(2) = %q, want [b c]'')))"

definition readRangeLimits :: "('tx, 's) store_ops \<Rightarrow> ('s, unit) test" where
  "readRangeLimits S =
     andThen (mustAtomically S (appendEach S bg ''s1'' [bytesOf ''1'', bytesOf ''2'', bytesOf ''3'', bytesOf ''4'']))
       (\<lambda>_. andThen (reads (stReadRange S bg ''s1'' 2 2))
       (\<lambda>r. andThen (fatalIf (\<not> isOk r) ''ReadRange: %v'')
       (\<lambda>_. fatalIf (valueOr [] r \<noteq> [bytesOf ''2'', bytesOf ''3'']) ''ReadRange(2,2) = %q, want [2 3]'')))"

definition duplicateVersionRollsBack :: "('tx, 's) store_ops \<Rightarrow> ('s, unit) test" where
  "duplicateVersionRollsBack S =
     andThen (mustAtomically S (txAppend S bg ''s1'' 1 (bytesOf ''first'')))
       (\<lambda>_. andThen (acts (atomically S bg
              (thenTx (txEnqueueDelivery S bg ''s1'' 99) (\<lambda>_. txAppend S bg ''s1'' 1 (bytesOf ''second'')))))
       (\<lambda>r. andThen (fatalIf (\<not> failsAs (\<lambda>e. errorsIs e ErrPipelineFailed) r) ''duplicate Append err = %v, want ErrPipelineFailed'')
       (\<lambda>_. andThen (reads (stReadFrom S bg ''s1'' 1))
       (\<lambda>bs. andThen (fatalIf (valueOr [] bs \<noteq> [bytesOf ''first'']) ''stream after conflict = %q, want [first]'')
       (\<lambda>_. andThen (reads (stPendingDeliveries S bg 10))
       (\<lambda>ps. fatalIf (valueOr [] ps \<noteq> []) ''delivery enqueued in a rolled-back tx survived: %v''))))))"

definition boomReceipt :: receipt where
  "boomReceipt = \<lparr>rAccepted = True, rAggregateID = [], rEventID = ''e1'', rVersion = 1, rRejection = []\<rparr>"

definition errorRollsBackEverything :: "('tx, 's) store_ops \<Rightarrow> ('s, unit) test" where
  "errorRollsBackEverything S =
     andThen (acts (atomically S bg
         (ignoreTx (txAppend S bg ''s1'' 1 (bytesOf ''x''))
         (ignoreTx (txPutReceipt S bg ''cmd-1'' boomReceipt)
         (ignoreTx (txEnqueueDelivery S bg ''s1'' 1) (returnErr errBoom))))))
       (\<lambda>r. andThen (fatalIf (\<not> failsAs (wrapsErr errBoom) r) ''Atomically err = %v, want errBoom'')
       (\<lambda>_. andThen (reads (stReadFrom S bg ''s1'' 1))
       (\<lambda>bs. andThen (errorIf (valueOr [] bs \<noteq> []) ''append survived rollback: %q'')
       (\<lambda>_. andThen (reads (stGetReceipt S bg ''cmd-1''))
       (\<lambda>rc. andThen (errorIf (valueOr None rc \<noteq> None) ''receipt survived rollback'')
       (\<lambda>_. andThen (reads (stPendingDeliveries S bg 10))
       (\<lambda>ps. errorIf (valueOr [] ps \<noteq> []) ''delivery survived rollback: %v'')))))))"

definition wantReceipt :: receipt where
  "wantReceipt = \<lparr>rAccepted = True, rAggregateID = [], rEventID = ''e1'', rVersion = 3, rRejection = []\<rparr>"

definition nopeReceipt :: receipt where
  "nopeReceipt = \<lparr>rAccepted = False, rAggregateID = [], rEventID = [], rVersion = 0, rRejection = ''nope''\<rparr>"

definition receiptsDuplicates :: "('tx, 's) store_ops \<Rightarrow> ('s, unit) test" where
  "receiptsDuplicates S =
     andThen (mustAtomically S (txPutReceipt S bg ''cmd-1'' wantReceipt))
       (\<lambda>_. andThen (reads (stGetReceipt S bg ''cmd-1''))
       (\<lambda>r. andThen (fatalIf (\<not> isOk r \<or> valueOr None r \<noteq> Some wantReceipt) ''GetReceipt = %+v, %v, %v; want %+v'')
       (\<lambda>_. andThen (acts (atomically S bg (txPutReceipt S bg ''cmd-1'' nopeReceipt)))
       (\<lambda>r. andThen (fatalIf (\<not> failsAs (\<lambda>e. errorsIs e ErrDuplicateReceipt) r) ''duplicate PutReceipt err = %v, want ErrDuplicateReceipt'')
       (\<lambda>_. andThen (reads (stGetReceipt S bg ''missing''))
       (\<lambda>r. errorIf (valueOr None r \<noteq> None) ''GetReceipt(missing) reported found''))))))"

definition deliveriesOrderAndAck :: "('tx, 's) store_ops \<Rightarrow> ('s, unit) test" where
  "deliveriesOrderAndAck S =
     (let want = [dlv ''a'' 1, dlv ''b'' 1, dlv ''a'' 2] in
      andThen (mustAtomically S (enqueueEach S bg want))
       (\<lambda>_. andThen (reads (stPendingDeliveries S bg 10))
       (\<lambda>r. andThen (fatalIf (\<not> isOk r) ''PendingDeliveries: %v'')
       (\<lambda>_. andThen (fatalIf (length (valueOr [] r) \<noteq> length want) ''pending = %v, want %v'')
       (\<lambda>_. andThen (forEach (\<lambda>i. fatalIf (valueOr [] r ! i \<noteq> want ! i) ''pending = %v, want %v'') [0..<length want])
       (\<lambda>_. andThen (acts (stAckDelivery S bg ''b'' 1))
       (\<lambda>r. andThen (fatalIf (\<not> isOk r) ''AckDelivery: %v'')
       (\<lambda>_. andThen (reads (stPendingDeliveries S bg 10))
       (\<lambda>ps. fatalIf (valueOr [] ps \<noteq> [dlv ''a'' 1, dlv ''a'' 2]) ''pending after ack = %v, want [{a 1} {a 2}]'')))))))))"

definition dropDeliveriesTest :: "('tx, 's) store_ops \<Rightarrow> ('s, unit) test" where
  "dropDeliveriesTest S =
     andThen (mustAtomically S
         (ignoreTx (txEnqueueDelivery S bg ''a'' 1)
         (ignoreTx (txEnqueueDelivery S bg ''b'' 1)
         (ignoreTx (txEnqueueDelivery S bg ''a'' 2) (txDropDeliveries S bg ''a'')))))
       (\<lambda>_. andThen (reads (stPendingDeliveries S bg 10))
       (\<lambda>ps. fatalIf (valueOr [] ps \<noteq> [dlv ''b'' 1]) ''pending = %v, want [{b 1}]''))"

definition deleteStreamTest :: "('tx, 's) store_ops \<Rightarrow> ('s, unit) test" where
  "deleteStreamTest S =
     andThen (mustAtomically S
         (ignoreTx (txAppend S bg ''s1'' 1 (bytesOf ''a'')) (txAppend S bg ''s2'' 1 (bytesOf ''b''))))
       (\<lambda>_. andThen (mustAtomically S (thenTx (txDeleteStream S bg ''s1'') (\<lambda>_. txDeleteStream S bg ''never-existed'')))
       (\<lambda>_. andThen (reads (stReadFrom S bg ''s1'' 1))
       (\<lambda>bs. andThen (errorIf (valueOr [] bs \<noteq> []) ''s1 not deleted: %q'')
       (\<lambda>_. andThen (reads (stReadFrom S bg ''s2'' 1))
       (\<lambda>bs. andThen (errorIf (length (valueOr [] bs) \<noteq> 1) ''s2 was affected by deleting s1: %q'')
       (\<lambda>_. mustAtomically S (txAppend S bg ''s1'' 1 (bytesOf ''again''))))))))"

definition ackUnknown :: "('tx, 's) store_ops \<Rightarrow> ('s, unit) test" where
  "ackUnknown S =
     andThen (acts (stAckDelivery S bg ''ghost'' 7)) (\<lambda>r. fatalIf (\<not> isOk r) ''AckDelivery(unknown) = %v, want nil'')"

definition wantPending :: "('tx, 's) store_ops \<Rightarrow> delivery list \<Rightarrow> ('s, unit) test" where
  "wantPending S want =
     andThen (reads (stPendingDeliveries S bg 100))
       (\<lambda>r. fatalIf (\<not> isOk r \<or> valueOr [] r \<noteq> want) ''pending = %v (err %v), want %v'')"

definition enqueueIn :: "('tx, 's) store_ops \<Rightarrow> (ctx \<Rightarrow> 'tx \<Rightarrow> unit outcome \<times> 'tx) \<Rightarrow> ('s, unit) test" where
  "enqueueIn S fn = mustAtomically S (fn bg)"

definition dropThenEnqueue :: "('tx, 's) store_ops \<Rightarrow> ('s, unit) test" where
  "dropThenEnqueue S =
     andThen (enqueueIn S (\<lambda>c. joinTx (txEnqueueDelivery S c ''a'' 1) (txEnqueueDelivery S c ''b'' 1)))
       (\<lambda>_. andThen (enqueueIn S (\<lambda>c. joinTx (txDropDeliveries S c ''a'') (txEnqueueDelivery S c ''a'' 2)))
       (\<lambda>_. wantPending S [dlv ''b'' 1, dlv ''a'' 2]))"

definition rollbackRestoresDrop :: "('tx, 's) store_ops \<Rightarrow> ('s, unit) test" where
  "rollbackRestoresDrop S =
     andThen (enqueueIn S (\<lambda>c. txEnqueueDelivery S c ''a'' 1))
       (\<lambda>_. andThen (acts (atomically S bg (joinTx (txDropDeliveries S bg ''a'') (returnErr errBoom))))
       (\<lambda>r. andThen (fatalIf (\<not> failsAs (wrapsErr errBoom) r) ''Atomically = %v, want the callback's error'')
       (\<lambda>_. wantPending S [dlv ''a'' 1])))"

definition reEnqueueAfterAckOrDrop :: "('tx, 's) store_ops \<Rightarrow> ('s, unit) test" where
  "reEnqueueAfterAckOrDrop S =
     (let enqueue = enqueueIn S (\<lambda>c. txEnqueueDelivery S c ''a'' 1); a1 = dlv ''a'' 1 in
      andThen enqueue
       (\<lambda>_. andThen (acts (stAckDelivery S bg ''a'' 1))
       (\<lambda>r. andThen (fatalIf (\<not> isOk r) ''AckDelivery'')
       (\<lambda>_. andThen enqueue
       (\<lambda>_. andThen (wantPending S [a1])
       (\<lambda>_. andThen (enqueueIn S (\<lambda>c. txDropDeliveries S c ''a''))
       (\<lambda>_. andThen enqueue
       (\<lambda>_. wantPending S [a1]))))))))"

definition ackAfterDrop :: "('tx, 's) store_ops \<Rightarrow> ('s, unit) test" where
  "ackAfterDrop S =
     andThen (enqueueIn S (\<lambda>c. joinTx (txEnqueueDelivery S c ''a'' 1) (txDropDeliveries S c ''a'')))
       (\<lambda>_. andThen (acts (stAckDelivery S bg ''a'' 1))
       (\<lambda>r. fatalIf (\<not> isOk r) ''AckDelivery after drop = %v, want nil''))"

text \<open>\<open>Native\<close> hands out a handle nobody looks at: a transaction that does nothing.\<close>

definition nativeCallable :: "('tx, 's) store_ops \<Rightarrow> ('s, unit) test" where
  "nativeCallable S = mustAtomically S (\<lambda>t. (Ok (), t))"

definition readsOfUnknown :: "('tx, 's) store_ops \<Rightarrow> ('s, unit) test" where
  "readsOfUnknown S =
     andThen (reads (stReadFrom S bg ''nope'' 1))
       (\<lambda>r. andThen (errorIf (\<not> isOk r \<or> valueOr [] r \<noteq> []) ''ReadFrom(unknown) = %q, %v'')
       (\<lambda>_. andThen (reads (stReadRange S bg ''nope'' 1 5))
       (\<lambda>r. errorIf (\<not> isOk r \<or> valueOr [] r \<noteq> []) ''ReadRange(unknown) = %q, %v'')))"

definition pendingLimit :: "('tx, 's) store_ops \<Rightarrow> ('s, unit) test" where
  "pendingLimit S =
     andThen (mustAtomically S (enqueueEach S bg [dlv ''a'' 1, dlv ''a'' 2, dlv ''a'' 3, dlv ''a'' 4, dlv ''a'' 5]))
       (\<lambda>_. andThen (reads (stPendingDeliveries S bg 2))
       (\<lambda>r. fatalIf (map dVersion (valueOr [] r) \<noteq> [1, 2]) ''PendingDeliveries(2) = %v, want versions 1,2''))"

definition committedVisible :: "('tx, 's) store_ops \<Rightarrow> ('s, unit) test" where
  "committedVisible S =
     andThen (mustAtomically S (txAppend S bg ''s1'' 1 (bytesOf ''a'')))
       (\<lambda>_. andThen (mustAtomically S (txAppend S bg ''s1'' 2 (bytesOf ''b'')))
       (\<lambda>_. andThen (reads (stReadFrom S bg ''s1'' 1))
       (\<lambda>r. fatalIf (length (valueOr [] r) \<noteq> 2) ''len = %d, want 2'')))"

definition wantBlobs :: "blob list outcome \<Rightarrow> string list \<Rightarrow> string \<Rightarrow> ('s, unit) test" where
  "wantBlobs r want msg = fatalIf (\<not> isOk r \<or> valueOr [] r \<noteq> map bytesOf want) msg"

definition outOfOrderAppends :: "('tx, 's) store_ops \<Rightarrow> ('s, unit) test" where
  "outOfOrderAppends S =
     andThen (forEach (\<lambda>v. mustAtomically S (txAppend S bg ''s1'' v (byteOf (nat (48 + v))))) [3, 1, 2])
       (\<lambda>_. andThen (reads (stReadFrom S bg ''s1'' 1))
       (\<lambda>r. andThen (wantBlobs r [''1'', ''2'', ''3''] ''ReadFrom(1) = %q, %v; want [1 2 3] in version order'')
       (\<lambda>_. andThen (reads (stReadFrom S bg ''s1'' 2))
       (\<lambda>r. andThen (wantBlobs r [''2'', ''3''] ''ReadFrom(2) = %q, %v; want [2 3]'')
       (\<lambda>_. andThen (reads (stReadRange S bg ''s1'' 2 1))
       (\<lambda>r. wantBlobs r [''2''] ''ReadRange(2, 1) = %q, %v; want [2]''))))))"

text \<open>Sixteen writers race for one version: each counts as committed, or must have lost by a conflict.\<close>

definition isConflict :: "unit outcome \<Rightarrow> bool" where
  "isConflict r = failsAs (\<lambda>e. errorsIs e ErrPipelineFailed) r"

definition concurrentSameVersion :: "('tx, 's) store_ops \<Rightarrow> nat list \<Rightarrow> ('s, unit) test" where
  "concurrentSameVersion S order =
     andThen (raceAll order 16 (\<lambda>i. atomically S bg (txAppend S bg ''s1'' 1 (byteOf i))))
       (\<lambda>results. andThen (forEach (\<lambda>r. errorIf (\<not> isOk r \<and> \<not> isConflict r) ''losing writer got %v, want ErrPipelineFailed'') results)
       (\<lambda>_. andThen (fatalIf (length (filter isOk results) \<noteq> 1) ''%d writers committed version 1, want exactly one'')
       (\<lambda>_. andThen (reads (stReadFrom S bg ''s1'' 1))
       (\<lambda>r. fatalIf (length (valueOr [] r) \<noteq> 1) ''stream holds %d records, want 1''))))"

text \<open>The first byte of a record; what the writers wrote is not JSON.\<close>

definition holdsByte :: "blob \<Rightarrow> nat \<Rightarrow> bool" where
  "holdsByte b n = (case b of Malformed (c # cs) \<Rightarrow> c = char_of n | _ \<Rightarrow> False)"

definition concurrentDistinctVersions :: "('tx, 's) store_ops \<Rightarrow> nat list \<Rightarrow> ('s, unit) test" where
  "concurrentDistinctVersions S order =
     andThen (raceAll order 20 (\<lambda>i. atomically S bg
         (joinTx (txAppend S bg ''s1'' (int i + 1) (byteOf (i + 1))) (txEnqueueDelivery S bg ''s1'' (int i + 1)))))
       (\<lambda>results. andThen (forEach (\<lambda>r. fatalIf (\<not> isOk r) ''a non-conflicting transaction failed: %v'') results)
       (\<lambda>_. andThen (reads (stReadFrom S bg ''s1'' 1))
       (\<lambda>r. andThen (fatalIf (\<not> isOk r \<or> length (valueOr [] r) \<noteq> 20) ''stream holds %d records (%v), want %d'')
       (\<lambda>_. andThen (forEach (\<lambda>i. fatalIf (\<not> holdsByte (valueOr [] r ! i) (i + 1)) ''record %d holds %d, want the stream in version order'') [0..<20])
       (\<lambda>_. andThen (reads (stPendingDeliveries S bg 100))
       (\<lambda>r. fatalIf (length (valueOr [] r) \<noteq> 20) ''%d deliveries pending, want %d''))))))"

definition cancelledContext :: "('tx, 's) store_ops \<Rightarrow> ('s, unit) test" where
  "cancelledContext S =
     andThen (mustAtomically S (joinTx (txAppend S bg ''s1'' 1 (bytesOf ''a'')) (txEnqueueDelivery S bg ''s1'' 1)))
       (\<lambda>_. andThen (acts (atomically S cancelled (txAppend S bg ''s1'' 2 (bytesOf ''b''))))
       (\<lambda>r. andThen (errorIf (isOk r) ''Atomically succeeded on a cancelled context'')
       (\<lambda>_. andThen (reads (stReadFrom S cancelled ''s1'' 1))
       (\<lambda>r. andThen (errorIf (isOk r) ''ReadFrom succeeded on a cancelled context'')
       (\<lambda>_. andThen (reads (stReadRange S cancelled ''s1'' 1 1))
       (\<lambda>r. andThen (errorIf (isOk r) ''ReadRange succeeded on a cancelled context'')
       (\<lambda>_. andThen (reads (stGetReceipt S cancelled ''cmd''))
       (\<lambda>r. andThen (errorIf (isOk r) ''GetReceipt succeeded on a cancelled context'')
       (\<lambda>_. andThen (reads (stPendingDeliveries S cancelled 10))
       (\<lambda>r. andThen (errorIf (isOk r) ''PendingDeliveries succeeded on a cancelled context'')
       (\<lambda>_. andThen (acts (stAckDelivery S cancelled ''s1'' 1))
       (\<lambda>r. andThen (errorIf (isOk r) ''AckDelivery succeeded on a cancelled context'')
       (\<lambda>_. andThen (reads (stReadFrom S bg ''s1'' 1))
       (\<lambda>r. andThen (errorIf (length (valueOr [] r) \<noteq> 1) ''stream holds %d records, want only the committed one'')
       (\<lambda>_. wantPending S [dlv ''s1'' 1])))))))))))))))"

text \<open>
  A read while a transaction is open. \<open>during t\<close> is the store such a read finds, \<open>None\<close> when it blocks
  until the commit; \<open>early\<close> tells whether the read comes before the commit. A transaction that ends
  before it has appended fails the test; between \<open>appendAndHold\<close>'s append and the commit it is held open.
\<close>

definition appendAndHold :: "('tx, 's) store_ops \<Rightarrow> ctx \<Rightarrow> 'tx \<Rightarrow> unit outcome \<times> 'tx" where
  "appendAndHold S c = txAppend S c ''s1'' 1 (bytesOf ''a'')"

definition readsDuringOpenTransaction :: "('tx, 's) store_ops \<Rightarrow> ('tx \<Rightarrow> 's option) \<Rightarrow> bool \<Rightarrow> ('s, unit) test" where
  "readsDuringOpenTransaction S during early w =
     (case stBegin S bg (tbStore w) of
        Ok t \<Rightarrow>
          (case appendAndHold S bg t of
             (Ok _, t') \<Rightarrow>
               (case stCommit S t' of
                  (None, s') \<Rightarrow>
                    (let seen = (if early then case during t' of Some s \<Rightarrow> s | None \<Rightarrow> s' else s') in
                     andThen (reads (\<lambda>_. stReadFrom S bg ''s1'' 1 seen))
                      (\<lambda>r. andThen (errorIf (\<not> isOk r) ''a read during an open transaction failed: %v'')
                      (\<lambda>_. andThen (reads (stReadFrom S bg ''s1'' 1))
                      (\<lambda>r. fatalIf (\<not> isOk r \<or> length (valueOr [] r) \<noteq> 1) ''after the commit ReadFrom = %q, %v; want the record'')))
                     (w\<lparr>tbStore := s'\<rparr>))
                | (Some e, s') \<Rightarrow> fatalf ''the open transaction failed to commit: %v'' (w\<lparr>tbStore := s'\<rparr>))
           | (_, t') \<Rightarrow> fatalf ''the transaction ended (%v) without running its function'' (w\<lparr>tbStore := stRollback S t'\<rparr>))
      | _ \<Rightarrow> fatalf ''the transaction ended (%v) without running its function'' w)"

section \<open>Scenarios of a snapshot store\<close>

definition snapshotUnknown :: "'p snapshot_ops \<Rightarrow> ('p, unit) test" where
  "snapshotUnknown P =
     andThen (reads (snGet P bg ''ghost''))
       (\<lambda>r. fatalIf (\<not> isOk r \<or> valueOr None r \<noteq> None) ''Get(unknown) = %q, %v, %v; want not found and no error'')"

definition snapshotRoundTrip :: "'p snapshot_ops \<Rightarrow> ('p, unit) test" where
  "snapshotRoundTrip P =
     (let want = bytesOf (map char_of [0, 1, 2, 255, 123, 125 :: nat]) in
      andThen (acts (snPut P bg ''a'' 7 want))
       (\<lambda>r. andThen (fatalIf (\<not> isOk r) ''Put: %v'')
       (\<lambda>_. andThen (reads (snGet P bg ''a''))
       (\<lambda>r. fatalIf (\<not> isOk r \<or> valueOr None r \<noteq> Some want) ''Get = %v, %v, %v; want %v''))))"

definition snapshotReplaced :: "'p snapshot_ops \<Rightarrow> ('p, unit) test" where
  "snapshotReplaced P =
     andThen (forEach (\<lambda>(v, d). andThen (acts (snPut P bg ''a'' (v + 1) (bytesOf d))) (\<lambda>r. fatalIf (\<not> isOk r) ''Put v%d: %v''))
                [(0, ''one''), (1, ''two''), (2, ''three'')])
       (\<lambda>_. andThen (reads (snGet P bg ''a''))
       (\<lambda>r. fatalIf (\<not> isOk r \<or> valueOr None r \<noteq> Some (bytesOf ''three'')) ''Get = %q, %v, %v; want the newest snapshot only''))"

definition snapshotsIndependent :: "'p snapshot_ops \<Rightarrow> ('p, unit) test" where
  "snapshotsIndependent P =
     andThen (acts (snPut P bg ''a'' 1 (bytesOf ''A'')))
       (\<lambda>_. andThen (acts (snPut P bg ''b'' 1 (bytesOf ''B'')))
       (\<lambda>_. andThen (acts (snDelete P bg ''a''))
       (\<lambda>r. andThen (fatalIf (\<not> isOk r) ''Delete'')
       (\<lambda>_. andThen (reads (snGet P bg ''b''))
       (\<lambda>r. fatalIf (valueOr None r \<noteq> Some (bytesOf ''B'')) ''deleting a's snapshot changed b's: %q, %v'')))))"

definition snapshotDeleted :: "'p snapshot_ops \<Rightarrow> ('p, unit) test" where
  "snapshotDeleted P =
     andThen (acts (snPut P bg ''a'' 1 (bytesOf ''A'')))
       (\<lambda>_. andThen (acts (snDelete P bg ''a''))
       (\<lambda>r. andThen (fatalIf (\<not> isOk r) ''Delete: %v'')
       (\<lambda>_. andThen (reads (snGet P bg ''a''))
       (\<lambda>r. andThen (fatalIf (valueOr None r \<noteq> None) ''snapshot survived Delete'')
       (\<lambda>_. andThen (acts (snDelete P bg ''a''))
       (\<lambda>r. andThen (fatalIf (\<not> isOk r) ''second Delete = %v, want nil'')
       (\<lambda>_. andThen (acts (snDelete P bg ''never-existed''))
       (\<lambda>r. fatalIf (\<not> isOk r) ''Delete(unknown) = %v, want nil''))))))))"

definition snapshotPutAfterDelete :: "'p snapshot_ops \<Rightarrow> ('p, unit) test" where
  "snapshotPutAfterDelete P =
     andThen (acts (snPut P bg ''a'' 5 (bytesOf ''old'')))
       (\<lambda>_. andThen (acts (snDelete P bg ''a''))
       (\<lambda>_. andThen (acts (snPut P bg ''a'' 1 (bytesOf ''fresh'')))
       (\<lambda>r. andThen (fatalIf (\<not> isOk r) ''Put after Delete: %v'')
       (\<lambda>_. andThen (reads (snGet P bg ''a''))
       (\<lambda>r. fatalIf (valueOr None r \<noteq> Some (bytesOf ''fresh'')) ''Get = %q, %v; want the snapshot written after the delete'')))))"

definition payload :: "nat \<Rightarrow> blob" where
  "payload i = bytesOf [CHR ''v'', char_of (97 + i)]"

definition snapshotConcurrentPuts :: "'p snapshot_ops \<Rightarrow> nat list \<Rightarrow> ('p, unit) test" where
  "snapshotConcurrentPuts P order =
     andThen (raceAll order 16 (\<lambda>i. snPut P bg ''a'' (int i + 1) (payload i)))
       (\<lambda>results. andThen (forEach (\<lambda>r. errorIf (\<not> isOk r) ''Put v%d: %v'') results)
       (\<lambda>_. andThen (reads (snGet P bg ''a''))
       (\<lambda>r. andThen (fatalIf (\<not> isOk r \<or> valueOr None r = None) ''Get = %q, %v, %v'')
       (\<lambda>_. fatalIf (valueOr None r \<notin> set (map (\<lambda>i. Some (payload i)) [0..<16])) ''Get = %q, which no writer wrote (torn write)''))))"

definition snapshotCancelled :: "'p snapshot_ops \<Rightarrow> ('p, unit) test" where
  "snapshotCancelled P =
     andThen (acts (snPut P bg ''a'' 1 (bytesOf ''A'')))
       (\<lambda>_. andThen (acts (snPut P cancelled ''a'' 2 (bytesOf ''B'')))
       (\<lambda>r. andThen (errorIf (isOk r) ''Put succeeded on a cancelled context'')
       (\<lambda>_. andThen (reads (snGet P cancelled ''a''))
       (\<lambda>r. andThen (errorIf (isOk r) ''Get succeeded on a cancelled context'')
       (\<lambda>_. andThen (acts (snDelete P cancelled ''a''))
       (\<lambda>r. andThen (errorIf (isOk r) ''Delete succeeded on a cancelled context'')
       (\<lambda>_. andThen (reads (snGet P bg ''a''))
       (\<lambda>r. errorIf (valueOr None r \<noteq> Some (bytesOf ''A'')) ''the snapshot changed after failed operations: %q, %v''))))))))"

section \<open>The suites\<close>

definition storeScenarios ::
  "('tx, 's) store_ops \<Rightarrow> nat list \<Rightarrow> nat list \<Rightarrow> ('tx \<Rightarrow> 's option) \<Rightarrow> bool \<Rightarrow> (string \<times> ('s, unit) test) list" where
  "storeScenarios S order1 order2 during early =
     [(''AppendCommitsAndReadFromReturnsInOrder'', appendCommitsAndReads S),
      (''ReadRangeLimitsCount'', readRangeLimits S),
      (''DuplicateVersionConflictsAndRollsBack'', duplicateVersionRollsBack S),
      (''ErrorRollsBackEverything'', errorRollsBackEverything S),
      (''ReceiptsAreStoredAndDuplicatesRejected'', receiptsDuplicates S),
      (''DeliveriesKeepEnqueueOrderAndAckRemoves'', deliveriesOrderAndAck S),
      (''DropDeliveriesOnlyAffectsThatAggregate'', dropDeliveriesTest S),
      (''DeleteStreamIsIdempotentAndScoped'', deleteStreamTest S),
      (''AckOfUnknownDeliveryIsNotAnError'', ackUnknown S),
      (''DropThenEnqueueInOneTxKeepsTheNewEntry'', dropThenEnqueue S),
      (''RollbackRestoresDroppedDeliveries'', rollbackRestoresDrop S),
      (''DeliveryKeyCanBeEnqueuedAgain'', reEnqueueAfterAckOrDrop S),
      (''AckAfterDropIsNotAnError'', ackAfterDrop S),
      (''NativeIsCallable'', nativeCallable S),
      (''ReadsOfUnknownStreamAreEmpty'', readsOfUnknown S),
      (''PendingDeliveriesHonoursLimit'', pendingLimit S),
      (''CommitInsideAtomicallyIsVisibleAfterwards'', committedVisible S),
      (''AppendsOutOfVersionOrderReadInOrder'', outOfOrderAppends S),
      (''ConcurrentAppendsOfOneVersionAdmitOne'', concurrentSameVersion S order1),
      (''ConcurrentAppendsOfDistinctVersionsAllCommit'', concurrentDistinctVersions S order2),
      (''CancelledContextFailsEveryOperation'', cancelledContext S),
      (''ReadsDuringAnOpenTransactionDoNotFail'', readsDuringOpenTransaction S during early)]"

definition snapshotScenarios :: "'p snapshot_ops \<Rightarrow> nat list \<Rightarrow> (string \<times> ('p, unit) test) list" where
  "snapshotScenarios P order =
     [(''GetOfUnknownAggregateIsNotFoundNotAnError'', snapshotUnknown P),
      (''PutThenGetReturnsTheBytes'', snapshotRoundTrip P),
      (''PutReplacesTheSnapshot'', snapshotReplaced P),
      (''AggregatesAreIndependent'', snapshotsIndependent P),
      (''DeleteRemovesAndIsIdempotent'', snapshotDeleted P),
      (''PutAfterDeleteStores'', snapshotPutAfterDelete P),
      (''ConcurrentPutsLeaveOneOfThem'', snapshotConcurrentPuts P order),
      (''CancelledContextFailsEveryOperation'', snapshotCancelled P)]"

text \<open>
  \<open>Run\<close> and \<open>RunSnapshots\<close>: every scenario on a store of its own from the factory, with the failures
  each records.
\<close>

definition runSuite :: "(string \<Rightarrow> 's) \<Rightarrow> (string \<times> ('s, unit) test) list \<Rightarrow> (string \<times> string list) list" where
  "runSuite newStore tests =
     map (\<lambda>(name, fn). (name, tbFailures (snd (fn \<lparr>tbStore = newStore name, tbFailures = []\<rparr>)))) tests"

end
