(* ===== verification/Storetest_Correct.thy ===== *)
theory Storetest_Correct
  imports Storetest Memory_Store
begin

text \<open>
  What the conformance suite of \<open>Storetest\<close> accepts. The contract of a store is extended by the
  promises that it serves live contexts, refuses done ones and names its conflicts; every store
  that keeps this contract passes every scenario, in every order of the racing calls. The in-memory
  stores are shown to keep it.
\<close>

section \<open>Rules for tests\<close>

text \<open>
  A test succeeds from a store with contents \<open>a\<close> when it goes through without recording a failure and
  leaves a store with \<open>Q\<close> of its result and contents.
\<close>

definition succeeds ::
  "('s \<Rightarrow> bool) \<Rightarrow> ('s \<Rightarrow> 'c) \<Rightarrow> 'c \<Rightarrow> ('s, 'a) test \<Rightarrow> ('a \<Rightarrow> 'c \<Rightarrow> bool) \<Rightarrow> bool" where
  "succeeds ok view a m Q \<longleftrightarrow>
     (\<forall>w. ok (tbStore w) \<and> view (tbStore w) = a \<longrightarrow>
        (\<exists>x w'. m w = (Some x, w') \<and> tbFailures w' = tbFailures w \<and> ok (tbStore w') \<and> Q x (view (tbStore w'))))"

named_theorems suite_rules \<open>rules that take a scenario apart\<close>

lemma succeeds_pass [suite_rules]: "Q x a \<Longrightarrow> succeeds ok view a (pass x) Q"
  by (simp add: succeeds_def pass_def)

lemma succeeds_andThen:
  assumes "succeeds ok view a m R" "\<And>x b. R x b \<Longrightarrow> succeeds ok view b (k x) Q"
  shows "succeeds ok view a (andThen m k) Q"
  unfolding succeeds_def
proof (intro allI impI)
  fix w :: "_ tb" assume "ok (tbStore w) \<and> view (tbStore w) = a"
  then obtain x w1 where 1: "m w = (Some x, w1)" "tbFailures w1 = tbFailures w" "ok (tbStore w1)" "R x (view (tbStore w1))"
    using assms(1) unfolding succeeds_def by blast
  then obtain y w2 where "k x w1 = (Some y, w2)" "tbFailures w2 = tbFailures w1" "ok (tbStore w2)" "Q y (view (tbStore w2))"
    using assms(2) unfolding succeeds_def by blast
  with 1 show "\<exists>x w'. andThen m k w = (Some x, w') \<and> tbFailures w' = tbFailures w \<and> ok (tbStore w') \<and> Q x (view (tbStore w'))"
    by (simp add: andThen_def)
qed

lemma succeeds_mono: "succeeds ok view a m R \<Longrightarrow> (\<And>x b. R x b \<Longrightarrow> Q x b) \<Longrightarrow> succeeds ok view a m Q"
  unfolding succeeds_def by blast

lemma succeeds_fatalIf [suite_rules]: "\<not> b \<Longrightarrow> Q () a \<Longrightarrow> succeeds ok view a (fatalIf b msg) Q"
  by (simp add: fatalIf_def succeeds_pass)

lemma succeeds_errorIf [suite_rules]: "\<not> b \<Longrightarrow> Q () a \<Longrightarrow> succeeds ok view a (errorIf b msg) Q"
  by (simp add: errorIf_def succeeds_pass)

lemma succeeds_acts:
  assumes "\<And>s. ok s \<Longrightarrow> view s = a \<Longrightarrow> \<exists>r s'. f s = (r, s') \<and> (\<forall>p. r \<noteq> Panic p) \<and> ok s' \<and> Q r (view s')"
  shows "succeeds ok view a (acts f) Q"
  unfolding succeeds_def
proof (intro allI impI)
  fix w :: "_ tb" assume "ok (tbStore w) \<and> view (tbStore w) = a"
  then obtain r s' where "f (tbStore w) = (r, s')" "\<forall>p. r \<noteq> Panic p" "ok s'" "Q r (view s')"
    using assms by blast
  then have "acts f w = (Some r, w\<lparr>tbStore := s'\<rparr>)" "ok s'" "Q r (view s')"
    by (auto simp: acts_def split: outcome.splits)
  then show "\<exists>x w'. acts f w = (Some x, w') \<and> tbFailures w' = tbFailures w \<and> ok (tbStore w') \<and> Q x (view (tbStore w'))"
    by simp
qed

lemma succeeds_reads:
  assumes "\<And>s. ok s \<Longrightarrow> view s = a \<Longrightarrow> (\<forall>p. f s \<noteq> Panic p) \<and> Q (f s) a"
  shows "succeeds ok view a (reads f) Q"
  unfolding reads_def using assms by (intro succeeds_acts) auto

lemma succeeds_forEach:
  assumes "\<And>x. x \<in> set xs \<Longrightarrow> succeeds ok view a (f x) (\<lambda>_ b. b = a)"
  shows "succeeds ok view a (forEach f xs) (\<lambda>_ b. b = a)"
  using assms
proof (induction xs)
  case Nil
  then show ?case by (simp add: succeeds_pass)
next
  case (Cons x xs)
  from Cons.prems have "succeeds ok view a (f x) (\<lambda>_ b. b = a)" by simp
  moreover have "succeeds ok view a (forEach f xs) (\<lambda>_ b. b = a)" using Cons by simp
  ultimately show ?case by (auto intro: succeeds_andThen)
qed

lemma succeeds_no_failures:
  "succeeds ok view a m Q \<Longrightarrow> ok s \<Longrightarrow> view s = a \<Longrightarrow> tbFailures (snd (m \<lparr>tbStore = s, tbFailures = []\<rparr>)) = []"
  unfolding succeeds_def by (metis snd_conv tb.select_convs(1,2))

text \<open>A race with an invariant that relates the contents and the results to the calls served so far.\<close>

lemma succeeds_raceFrom:
  assumes step: "\<And>served i b rs. i \<in> set order \<Longrightarrow> i \<notin> set served \<Longrightarrow> J served b rs \<Longrightarrow>
      succeeds ok view b (acts (run i)) (\<lambda>r b'. J (served @ [i]) b' (rs[i := r]))"
    and "distinct (served @ order)" "J served a rs"
  shows "succeeds ok view a (raceFrom order run rs) (\<lambda>rs' b'. J (served @ order) b' rs')"
  using assms
proof (induction order arbitrary: served a rs)
  case Nil
  then show ?case by (simp add: succeeds_pass)
next
  case (Cons i order)
  have head: "succeeds ok view a (acts (run i)) (\<lambda>r b'. J (served @ [i]) b' (rs[i := r]))"
    using Cons.prems by simp
  have tail: "succeeds ok view b (raceFrom order run (rs[i := r])) (\<lambda>rs' b'. J (served @ i # order) b' rs')"
    if "J (served @ [i]) b (rs[i := r])" for r b
    using Cons.IH[of "served @ [i]" b "rs[i := r]"] Cons.prems that by simp
  show ?case using succeeds_andThen[OF head tail] by simp
qed

lemma succeeds_raceAll:
  assumes "\<And>served i b rs. i \<in> set order \<Longrightarrow> i \<notin> set served \<Longrightarrow> J served b rs \<Longrightarrow>
      succeeds ok view b (acts (run i)) (\<lambda>r b'. J (served @ [i]) b' (rs[i := r]))"
    and "distinct order" "J [] a (replicate n (Ok ()))"
  shows "succeeds ok view a (raceAll order n run) (\<lambda>rs b. J order b rs)"
  using succeeds_raceFrom[of order J ok view run "[]" a "replicate n (Ok ())"] assms by (simp add: raceAll_def)

lemma succeeds_seq [suite_rules]:
  "succeeds ok view a m (\<lambda>x b. succeeds ok view b (k x) Q) \<Longrightarrow> succeeds ok view a (andThen m k) Q"
  by (rule succeeds_andThen)

lemma succeeds_forEach_simps [suite_rules]:
  "Q () a \<Longrightarrow> succeeds ok view a (forEach f []) Q"
  "succeeds ok view a (f x) (\<lambda>_ b. succeeds ok view b (forEach f xs) Q) \<Longrightarrow> succeeds ok view a (forEach f (x # xs)) Q"
  by (simp_all add: succeeds_pass succeeds_seq)

lemma failsAs_iff: "failsAs is r \<longleftrightarrow> (\<exists>e. r = Fail e \<and> is e)"
  by (cases r) (auto simp: failsAs_def)

lemma valueOr_Ok [simp]: "valueOr z (Ok x) = x"
  by (simp add: valueOr_def)

lemma isOk_iff: "isOk r \<longleftrightarrow> (\<exists>x. r = Ok x)"
  by (cases r) auto

lemma byteOf_digits: "byteOf 49 = bytesOf ''1''" "byteOf 50 = bytesOf ''2''" "byteOf 51 = bytesOf ''3''"
  by code_simp+

lemma sortedBy_unique:
  assumes "sortedBy k xs" "sortedBy k ys" "set xs = set ys"
  shows "xs = ys"
proof (rule map_inj_on[where f = k])
  show "map k xs = map k ys"
    by (rule strict_sorted_equal) (use assms in \<open>simp_all add: sortedBy_def\<close>)
  show "inj_on k (set xs \<union> set ys)"
    using sortedBy_distinct[OF assms(1)] assms(3) by (simp add: distinct_map)
qed

section \<open>Stores that conform\<close>

definition emptyContents :: contents where
  "emptyContents = \<lparr>ctStreams = (\<lambda>_. []), ctReceipts = Map.empty, ctDeliveries = []\<rparr>"

locale conforming_store = store_contract S view tview base sinv tinv
  for S :: "('tx, 's) store_ops" and view :: "'s \<Rightarrow> contents" and tview :: "'tx \<Rightarrow> contents"
    and base :: "'tx \<Rightarrow> contents" and sinv :: "'s \<Rightarrow> bool" and tinv :: "'tx \<Rightarrow> bool" +
  fixes during :: "'tx \<Rightarrow> 's option"
  assumes begin_live: "sinv s \<Longrightarrow> ctxErr c = None \<Longrightarrow> isOk (stBegin S c s)"
    and commit_live: "tinv t \<Longrightarrow> fst (stCommit S t) = None"
    and append_new: "tinv t \<Longrightarrow> ctxErr c = None \<Longrightarrow> v \<notin> versionsOf (tview t) sid \<Longrightarrow> isOk (fst (txAppend S c sid v d t))"
    and append_conflict: "tinv t \<Longrightarrow> ctxErr c = None \<Longrightarrow> v \<in> versionsOf (tview t) sid \<Longrightarrow>
          failsAs (\<lambda>e. errorsIs e ErrPipelineFailed) (fst (txAppend S c sid v d t))"
    and putReceipt_new: "tinv t \<Longrightarrow> ctxErr c = None \<Longrightarrow> ctReceipts (tview t) cid = None \<Longrightarrow> isOk (fst (txPutReceipt S c cid rc t))"
    and putReceipt_conflict: "tinv t \<Longrightarrow> ctxErr c = None \<Longrightarrow> ctReceipts (tview t) cid \<noteq> None \<Longrightarrow>
          failsAs (\<lambda>e. errorsIs e ErrDuplicateReceipt) (fst (txPutReceipt S c cid rc t))"
    and deleteStream_live: "tinv t \<Longrightarrow> ctxErr c = None \<Longrightarrow> isOk (fst (txDeleteStream S c sid t))"
    and dropDeliveries_live: "tinv t \<Longrightarrow> ctxErr c = None \<Longrightarrow> isOk (fst (txDropDeliveries S c agg t))"
    and enqueueDelivery_live: "tinv t \<Longrightarrow> ctxErr c = None \<Longrightarrow> isOk (fst (txEnqueueDelivery S c agg v t))"
    and readFrom_live: "sinv s \<Longrightarrow> ctxErr c = None \<Longrightarrow> isOk (stReadFrom S c sid v s)"
    and readRange_live: "sinv s \<Longrightarrow> ctxErr c = None \<Longrightarrow> 0 \<le> n \<Longrightarrow> isOk (stReadRange S c sid v n s)"
    and getReceipt_live: "sinv s \<Longrightarrow> ctxErr c = None \<Longrightarrow> isOk (stGetReceipt S c cid s)"
    and pending_live: "sinv s \<Longrightarrow> ctxErr c = None \<Longrightarrow> 0 \<le> n \<Longrightarrow> isOk (stPendingDeliveries S c n s)"
    and ack_live: "sinv s \<Longrightarrow> ctxErr c = None \<Longrightarrow> isOk (fst (stAckDelivery S c agg v s))"
    and begin_done: "sinv s \<Longrightarrow> ctxErr c \<noteq> None \<Longrightarrow> failsAs (\<lambda>_. True) (stBegin S c s)"
    and readFrom_done: "sinv s \<Longrightarrow> ctxErr c \<noteq> None \<Longrightarrow> failsAs (\<lambda>_. True) (stReadFrom S c sid v s)"
    and readRange_done: "sinv s \<Longrightarrow> ctxErr c \<noteq> None \<Longrightarrow> failsAs (\<lambda>_. True) (stReadRange S c sid v n s)"
    and getReceipt_done: "sinv s \<Longrightarrow> ctxErr c \<noteq> None \<Longrightarrow> failsAs (\<lambda>_. True) (stGetReceipt S c cid s)"
    and pending_done: "sinv s \<Longrightarrow> ctxErr c \<noteq> None \<Longrightarrow> failsAs (\<lambda>_. True) (stPendingDeliveries S c n s)"
    and ack_done: "sinv s \<Longrightarrow> ctxErr c \<noteq> None \<Longrightarrow> failsAs (\<lambda>_. True) (fst (stAckDelivery S c agg v s))"
    and during_reads: "tinv t \<Longrightarrow> during t = Some s \<Longrightarrow> ctxErr c = None \<Longrightarrow> isOk (stReadFrom S c sid v s)"
begin

text \<open>The same for the body of a transaction.\<close>

definition runs :: "contents \<Rightarrow> ('tx \<Rightarrow> unit outcome \<times> 'tx) \<Rightarrow> (unit outcome \<Rightarrow> contents \<Rightarrow> bool) \<Rightarrow> bool" where
  "runs a f Q \<longleftrightarrow>
     (\<forall>t. tinv t \<and> tview t = a \<longrightarrow>
        (\<exists>r t'. f t = (r, t') \<and> (\<forall>p. r \<noteq> Panic p) \<and> tinv t' \<and> base t' = base t \<and> Q r (tview t')))"

lemma runsI:
  assumes "\<And>t r t'. tinv t \<Longrightarrow> tview t = a \<Longrightarrow> f t = (r, t') \<Longrightarrow>
      (\<forall>p. r \<noteq> Panic p) \<and> tinv t' \<and> base t' = base t \<and> Q r (tview t')"
  shows "runs a f Q"
  unfolding runs_def by (metis assms surj_pair)

lemma runs_append:
  assumes "if v \<in> versionsOf a sid then \<forall>e. errorsIs e ErrPipelineFailed \<longrightarrow> Q (Fail e) a else Q (Ok ()) (ctAppend sid v d a)"
  shows "runs a (txAppend S bg sid v d) Q"
proof (rule runsI)
  fix t r t' assume t: "tinv t" "tview t = a" and r: "txAppend S bg sid v d t = (r, t')"
  note frame = append_frame[OF t(1) r]
  show "(\<forall>p. r \<noteq> Panic p) \<and> tinv t' \<and> base t' = base t \<and> Q r (tview t')"
  proof (cases "v \<in> versionsOf a sid")
    case True
    then obtain e where e: "r = Fail e" "errorsIs e ErrPipelineFailed"
      using append_conflict[OF t(1), of bg v sid d] t r by (auto simp: failsAs_iff)
    then have "tview t' = a" using append_fail[OF t(1) r] t by simp
    then show ?thesis using e frame assms True by simp
  next
    case False
    then have "r = Ok ()" using append_new[OF t(1), of bg v sid d] t r by (auto simp: isOk_iff)
    then show ?thesis using append_ok[OF t(1)] r frame assms False t by auto
  qed
qed

lemma runs_putReceipt:
  assumes "if ctReceipts a cid = None then Q (Ok ()) (ctPutReceipt cid rc a) else \<forall>e. errorsIs e ErrDuplicateReceipt \<longrightarrow> Q (Fail e) a"
  shows "runs a (txPutReceipt S bg cid rc) Q"
proof (rule runsI)
  fix t r t' assume t: "tinv t" "tview t = a" and r: "txPutReceipt S bg cid rc t = (r, t')"
  show "(\<forall>p. r \<noteq> Panic p) \<and> tinv t' \<and> base t' = base t \<and> Q r (tview t')"
    using putReceipt_spec[OF t(1) r] putReceipt_new[OF t(1), of bg cid rc] putReceipt_conflict[OF t(1), of bg cid rc] assms t r
    by (cases "ctReceipts a cid") (auto simp: failsAs_iff isOk_iff)
qed

lemma runs_ops:
  "Q (Ok ()) (ctDeleteStream sid a) \<Longrightarrow> runs a (txDeleteStream S bg sid) Q"
  "Q (Ok ()) (ctDropDeliveries agg a) \<Longrightarrow> runs a (txDropDeliveries S bg agg) Q"
  "Q (Ok ()) (ctEnqueueDelivery agg v a) \<Longrightarrow> runs a (txEnqueueDelivery S bg agg v) Q"
  subgoal
    using deleteStream_spec deleteStream_live[of _ bg sid] by (intro runsI) (fastforce simp: isOk_iff)
  subgoal
    using dropDeliveries_spec dropDeliveries_live[of _ bg agg] by (intro runsI) (fastforce simp: isOk_iff)
  subgoal
    using enqueueDelivery_spec enqueueDelivery_live[of _ bg agg v] by (intro runsI) (fastforce simp: isOk_iff)
  done

lemma runs_return: "Q (Ok ()) a \<Longrightarrow> runs a (\<lambda>t. (Ok (), t)) Q" and runs_returnErr: "Q (Fail e) a \<Longrightarrow> runs a (returnErr e) Q"
  by (auto simp: runs_def returnErr_def)

lemma runsE:
  assumes "runs a f Q" "tinv t" "tview t = a"
  obtains r t' where "f t = (r, t')" "\<forall>p. r \<noteq> Panic p" "tinv t'" "base t' = base t" "Q r (tview t')"
  using assms unfolding runs_def by blast

lemma runs_then:
  assumes "runs a f (\<lambda>r b. case r of Ok x \<Rightarrow> runs b (g x) Q | Fail e \<Rightarrow> Q (Fail e) b | Panic p \<Rightarrow> False)"
  shows "runs a (thenTx f g) Q"
  unfolding runs_def
proof (intro allI impI)
  fix t assume "tinv t \<and> tview t = a"
  then obtain r t1 where 1: "f t = (r, t1)" "tinv t1" "base t1 = base t"
      "case r of Ok x \<Rightarrow> runs (tview t1) (g x) Q | Fail e \<Rightarrow> Q (Fail e) (tview t1) | Panic p \<Rightarrow> False"
    using assms by (auto elim: runsE)
  show "\<exists>r t'. thenTx f g t = (r, t') \<and> (\<forall>p. r \<noteq> Panic p) \<and> tinv t' \<and> base t' = base t \<and> Q r (tview t')"
  proof (cases r)
    case (Ok x)
    with 1 have "runs (tview t1) (g x) Q" by simp
    then obtain r' t' where "g x t1 = (r', t')" "\<forall>p. r' \<noteq> Panic p" "tinv t'" "base t' = base t1" "Q r' (tview t')"
      using 1(2) by (auto elim: runsE)
    then show ?thesis using 1 Ok by (simp add: thenTx_def)
  qed (use 1 in \<open>auto simp: thenTx_def\<close>)
qed

lemma runs_ignore:
  assumes "runs a f (\<lambda>_ b. runs b g Q)"
  shows "runs a (ignoreTx f g) Q"
  unfolding runs_def
proof (intro allI impI)
  fix t assume "tinv t \<and> tview t = a"
  then obtain r t1 where 1: "f t = (r, t1)" "\<forall>p. r \<noteq> Panic p" "tinv t1" "base t1 = base t" "runs (tview t1) g Q"
    using assms by (auto elim: runsE)
  then obtain r' t' where 2: "g t1 = (r', t')" "\<forall>p. r' \<noteq> Panic p" "tinv t'" "base t' = base t1" "Q r' (tview t')"
    by (auto elim: runsE)
  have "ignoreTx f g t = (r', t')" using 1 2 by (cases r) (auto simp: ignoreTx_def)
  with 1 2 show "\<exists>r t'. ignoreTx f g t = (r, t') \<and> (\<forall>p. r \<noteq> Panic p) \<and> tinv t' \<and> base t' = base t \<and> Q r (tview t')"
    by simp
qed

definition joined :: "unit outcome \<Rightarrow> unit outcome \<Rightarrow> unit outcome" where
  "joined r1 r2 = (case errorsJoin [errOf r1, errOf r2] of None \<Rightarrow> Ok () | Some e \<Rightarrow> Fail e)"

lemma joined_simps [simp]:
  "joined (Ok u) (Ok u') = Ok ()" "joined (Ok u) (Fail e) = Fail (Errorf [Wrap e])"
  by (simp_all add: joined_def errorsJoin_def map_filter_simps)

lemma runs_join:
  assumes "runs a f (\<lambda>r1 b. runs b g (\<lambda>r2 b'. Q (joined r1 r2) b'))"
  shows "runs a (joinTx f g) Q"
  unfolding runs_def
proof (intro allI impI)
  fix t assume "tinv t \<and> tview t = a"
  then obtain r1 t1 where 1: "f t = (r1, t1)" "\<forall>p. r1 \<noteq> Panic p" "tinv t1" "base t1 = base t"
      "runs (tview t1) g (\<lambda>r2 b'. Q (joined r1 r2) b')"
    using assms by (auto elim: runsE)
  then obtain r2 t' where 2: "g t1 = (r2, t')" "\<forall>p. r2 \<noteq> Panic p" "tinv t'" "base t' = base t1" "Q (joined r1 r2) (tview t')"
    by (auto elim: runsE)
  have "joinTx f g t = (joined r1 r2, t')" using 1 2 by (cases r1; cases r2) (auto simp: joinTx_def joined_def split: option.splits)
  moreover have "joined r1 r2 \<noteq> Panic p" for p by (simp add: joined_def split: option.splits)
  ultimately show "\<exists>r t'. joinTx f g t = (r, t') \<and> (\<forall>p. r \<noteq> Panic p) \<and> tinv t' \<and> base t' = base t \<and> Q r (tview t')"
    using 1 2 by simp
qed

lemma runs_appendFrom:
  "Q (Ok ()) a \<Longrightarrow> runs a (appendFrom S bg sid i []) Q"
  "runs a (thenTx (txAppend S bg sid (i + 1) b) (\<lambda>_. appendFrom S bg sid (i + 1) bs)) Q \<Longrightarrow> runs a (appendFrom S bg sid i (b # bs)) Q"
  by (auto simp: runs_def)

lemma runs_enqueueEach:
  "Q (Ok ()) a \<Longrightarrow> runs a (enqueueEach S bg []) Q"
  "runs a (thenTx (txEnqueueDelivery S bg (dAggregateID d) (dVersion d)) (\<lambda>_. enqueueEach S bg ds)) Q \<Longrightarrow>
     runs a (enqueueEach S bg (d # ds)) Q"
  by (auto simp: runs_def)

lemmas runs_rules = runs_append runs_putReceipt runs_ops runs_return runs_returnErr runs_then runs_ignore runs_join
  runs_appendFrom runs_enqueueEach

section \<open>Rules for the calls of a store\<close>

lemma ok_atomically:
  assumes "runs a fn (\<lambda>r b. Q r (if isOk r then b else a))"
  shows "succeeds sinv view a (acts (atomically S bg fn)) Q"
proof (rule succeeds_acts)
  fix s assume s: "sinv s" "view s = a"
  obtain t where t: "stBegin S bg s = Ok t" using begin_live[OF s(1), of bg] by (auto simp: isOk_iff)
  note b = begin_spec[OF s(1) t]
  then obtain r t' where f: "fn t = (r, t')" "\<forall>p. r \<noteq> Panic p" "tinv t'" "base t' = base t" "Q r (if isOk r then tview t' else a)"
    using assms s by (auto elim: runsE)
  show "\<exists>r s'. atomically S bg fn s = (r, s') \<and> (\<forall>p. r \<noteq> Panic p) \<and> sinv s' \<and> Q r (view s')"
  proof (cases r)
    case (Ok x)
    obtain s' where "stCommit S t' = (None, s')" using commit_live[OF f(3)] by (metis prod.collapse)
    then show ?thesis using commit_ok[OF f(3)] t f Ok by (simp add: atomically_def)
  next
    case (Fail e)
    then show ?thesis using rollback_spec[OF f(3)] t f b s by (simp add: atomically_def)
  qed (use f in auto)
qed

lemma ok_mustAtomically:
  assumes "runs a fn (\<lambda>r b. isOk r \<and> Q () b)"
  shows "succeeds sinv view a (mustAtomically S fn) Q"
proof -
  have "runs a fn (\<lambda>r b. isOk r \<and> Q () (if isOk r then b else a))" using assms unfolding runs_def by fastforce
  then have "succeeds sinv view a (acts (atomically S bg fn)) (\<lambda>r b. isOk r \<and> Q () b)"
    by (intro ok_atomically) simp
  then show ?thesis unfolding mustAtomically_def by (rule succeeds_andThen) (simp add: succeeds_fatalIf)
qed

lemma ok_atomically_done:
  assumes "\<And>e. Q (Fail e) a"
  shows "succeeds sinv view a (acts (atomically S cancelled fn)) Q"
proof (rule succeeds_acts)
  fix s assume s: "sinv s" "view s = a"
  then obtain e where "stBegin S cancelled s = Fail e" using begin_done[OF s(1), of cancelled]
    by (auto simp: failsAs_iff cancelled_def)
  then show "\<exists>r s'. atomically S cancelled fn s = (r, s') \<and> (\<forall>p. r \<noteq> Panic p) \<and> sinv s' \<and> Q r (view s')"
    using s assms by (simp add: atomically_def)
qed

lemma ok_readFrom:
  assumes "Q (Ok (map snd (filter (\<lambda>e. v \<le> fst e) (ctStreams a sid)))) a"
  shows "succeeds sinv view a (reads (stReadFrom S bg sid v)) Q"
  using assms readFrom_live[of _ bg sid v] readFrom_spec by (intro succeeds_reads) (fastforce simp: isOk_iff)

lemma ok_readRange:
  assumes "0 \<le> n" "Q (Ok (take (nat n) (map snd (filter (\<lambda>e. v \<le> fst e) (ctStreams a sid))))) a"
  shows "succeeds sinv view a (reads (stReadRange S bg sid v n)) Q"
  using assms readRange_live[of _ bg n sid v] readRange_spec by (intro succeeds_reads) (fastforce simp: isOk_iff)

lemma ok_getReceipt:
  assumes "Q (Ok (ctReceipts a cid)) a"
  shows "succeeds sinv view a (reads (stGetReceipt S bg cid)) Q"
  using assms getReceipt_live[of _ bg cid] getReceipt_spec by (intro succeeds_reads) (fastforce simp: isOk_iff)

lemma ok_pending:
  assumes "0 \<le> n" "Q (Ok (take (nat n) (ctDeliveries a))) a"
  shows "succeeds sinv view a (reads (stPendingDeliveries S bg n)) Q"
  using assms pending_live[of _ bg n] pending_spec by (intro succeeds_reads) (fastforce simp: isOk_iff)

lemma ok_ack:
  assumes "Q (Ok ()) (ctAck agg v a)"
  shows "succeeds sinv view a (acts (stAckDelivery S bg agg v)) Q"
proof (rule succeeds_acts)
  fix s assume s: "sinv s" "view s = a"
  obtain s' where r: "stAckDelivery S bg agg v s = (Ok (), s')"
    using ack_live[OF s(1), of bg agg v] by (cases "stAckDelivery S bg agg v s") (auto simp: isOk_iff)
  then show "\<exists>r s'. stAckDelivery S bg agg v s = (r, s') \<and> (\<forall>p. r \<noteq> Panic p) \<and> sinv s' \<and> Q r (view s')"
    using ack_spec[OF s(1) r] s assms by simp
qed

lemma ok_done_reads:
  "(\<And>e. Q (Fail e) a) \<Longrightarrow> succeeds sinv view a (reads (stReadFrom S cancelled sid v)) Q"
  "(\<And>e. Q' (Fail e) a) \<Longrightarrow> succeeds sinv view a (reads (stReadRange S cancelled sid v n)) Q'"
  using readFrom_done[of _ cancelled sid v] readRange_done[of _ cancelled sid v n]
  by (intro succeeds_reads; fastforce simp: failsAs_iff cancelled_def)+

lemma ok_done_lookups:
  "(\<And>e. Q (Fail e) a) \<Longrightarrow> succeeds sinv view a (reads (stGetReceipt S cancelled cid)) Q"
  "(\<And>e. Q' (Fail e) a) \<Longrightarrow> succeeds sinv view a (reads (stPendingDeliveries S cancelled n)) Q'"
  using getReceipt_done[of _ cancelled cid] pending_done[of _ cancelled n]
  by (intro succeeds_reads; fastforce simp: failsAs_iff cancelled_def)+

lemma ok_done_ack:
  assumes "\<And>e. Q (Fail e) a"
  shows "succeeds sinv view a (acts (stAckDelivery S cancelled agg v)) Q"
proof (rule succeeds_acts)
  fix s assume s: "sinv s" "view s = a"
  obtain e s' where r: "stAckDelivery S cancelled agg v s = (Fail e, s')"
    using ack_done[OF s(1), of cancelled agg v]
    by (cases "stAckDelivery S cancelled agg v s") (auto simp: failsAs_iff cancelled_def)
  then show "\<exists>r s'. stAckDelivery S cancelled agg v s = (r, s') \<and> (\<forall>p. r \<noteq> Panic p) \<and> sinv s' \<and> Q r (view s')"
    using ack_spec[OF s(1) r] s assms by simp
qed

lemmas ok_rules = ok_mustAtomically ok_atomically ok_atomically_done ok_readFrom ok_readRange ok_getReceipt ok_pending
  ok_ack ok_done_reads ok_done_lookups ok_done_ack

text \<open>What the contents look like after a few concrete steps.\<close>

lemmas contents_eval = contents_defs versionsOf_def insertBy_def emptyContents_def

section \<open>The scenarios pass\<close>

abbreviation passes :: "('s, unit) test \<Rightarrow> bool" where
  "passes fn \<equiv> succeeds sinv view emptyContents fn (\<lambda>_ _. True)"

lemma appendCommitsAndReads_ok: "passes (appendCommitsAndReads S)"
  unfolding appendCommitsAndReads_def appendEach_def
  by (rule suite_rules ok_rules runs_rules | simp add: contents_eval)+

lemma readRangeLimits_ok: "passes (readRangeLimits S)"
  unfolding readRangeLimits_def appendEach_def
  by (rule suite_rules ok_rules runs_rules | simp add: contents_eval)+

lemma duplicateVersionRollsBack_ok: "passes (duplicateVersionRollsBack S)"
  unfolding duplicateVersionRollsBack_def
  by (rule suite_rules ok_rules runs_rules allI impI | simp add: contents_eval failsAs_iff)+

lemma errorRollsBackEverything_ok: "passes (errorRollsBackEverything S)"
  unfolding errorRollsBackEverything_def
  by (rule suite_rules ok_rules runs_rules allI impI | simp add: contents_eval failsAs_iff errBoom_def)+

lemma receiptsDuplicates_ok: "passes (receiptsDuplicates S)"
  unfolding receiptsDuplicates_def
  by (rule suite_rules ok_rules runs_rules allI impI | simp add: contents_eval failsAs_iff)+

lemma deliveriesOrderAndAck_ok: "passes (deliveriesOrderAndAck S)"
  unfolding deliveriesOrderAndAck_def Let_def
  by (rule suite_rules ok_rules runs_rules allI impI | simp add: contents_eval upt_rec)+

lemma dropDeliveriesTest_ok: "passes (dropDeliveriesTest S)"
  unfolding dropDeliveriesTest_def
  by (rule suite_rules ok_rules runs_rules allI impI | simp add: contents_eval)+

lemma deleteStreamTest_ok: "passes (deleteStreamTest S)"
  unfolding deleteStreamTest_def
  by (rule suite_rules ok_rules runs_rules allI impI | simp add: contents_eval)+

lemma ackUnknown_ok: "passes (ackUnknown S)"
  unfolding ackUnknown_def
  by (rule suite_rules ok_rules runs_rules allI impI | simp add: contents_eval)+

lemma dropThenEnqueue_ok: "passes (dropThenEnqueue S)"
  unfolding dropThenEnqueue_def enqueueIn_def wantPending_def
  by (rule suite_rules ok_rules runs_rules allI impI | simp add: contents_eval)+

lemma rollbackRestoresDrop_ok: "passes (rollbackRestoresDrop S)"
  unfolding rollbackRestoresDrop_def enqueueIn_def wantPending_def
  by (rule suite_rules ok_rules runs_rules allI impI | simp add: contents_eval failsAs_iff errBoom_def)+

lemma reEnqueueAfterAckOrDrop_ok: "passes (reEnqueueAfterAckOrDrop S)"
  unfolding reEnqueueAfterAckOrDrop_def enqueueIn_def wantPending_def Let_def
  by (rule suite_rules ok_rules runs_rules allI impI | simp add: contents_eval)+

lemma ackAfterDrop_ok: "passes (ackAfterDrop S)"
  unfolding ackAfterDrop_def enqueueIn_def
  by (rule suite_rules ok_rules runs_rules allI impI | simp add: contents_eval)+

lemma nativeCallable_ok: "passes (nativeCallable S)"
  unfolding nativeCallable_def
  by (rule suite_rules ok_rules runs_rules allI impI | simp add: contents_eval)+

lemma readsOfUnknown_ok: "passes (readsOfUnknown S)"
  unfolding readsOfUnknown_def
  by (rule suite_rules ok_rules runs_rules allI impI | simp add: contents_eval)+

lemma pendingLimit_ok: "passes (pendingLimit S)"
  unfolding pendingLimit_def
  by (rule suite_rules ok_rules runs_rules allI impI | simp add: contents_eval)+

lemma committedVisible_ok: "passes (committedVisible S)"
  unfolding committedVisible_def
  by (rule suite_rules ok_rules runs_rules allI impI | simp add: contents_eval)+

lemma outOfOrderAppends_ok: "passes (outOfOrderAppends S)"
  unfolding outOfOrderAppends_def wantBlobs_def
  by (rule suite_rules ok_rules runs_rules allI impI | simp add: contents_eval byteOf_digits)+

lemma cancelledContext_ok: "passes (cancelledContext S)"
  unfolding cancelledContext_def wantPending_def
  by (rule suite_rules ok_rules runs_rules allI impI | simp add: contents_eval)+

section \<open>Races\<close>

text \<open>Once one writer has the version every later one conflicts.\<close>

definition oneWinner :: "nat list \<Rightarrow> contents \<Rightarrow> unit outcome list \<Rightarrow> bool" where
  "oneWinner served a rs \<longleftrightarrow> length rs = 16 \<and>
     (case served of
        [] \<Rightarrow> a = emptyContents
      | i # losers \<Rightarrow> (\<exists>d. ctStreams a ''s1'' = [(1, d)]) \<and> isOk (rs ! i) \<and> (\<forall>j \<in> set losers. isConflict (rs ! j)))"

lemma oneWinner_step:
  assumes "oneWinner served b rs" "i < 16" "i \<notin> set served"
  shows "succeeds sinv view b (acts (atomically S bg (txAppend S bg ''s1'' 1 (byteOf i))))
     (\<lambda>r b'. oneWinner (served @ [i]) b' (rs[i := r]))"
proof (cases served)
  case Nil
  then show ?thesis using assms
    by (intro ok_atomically runs_append) (simp add: oneWinner_def contents_eval)
next
  case (Cons w losers)
  then obtain d where d: "ctStreams b ''s1'' = [(1, d)]" using assms(1) by (auto simp: oneWinner_def)
  have "oneWinner (served @ [i]) b (rs[i := Fail e])" if "errorsIs e ErrPipelineFailed" for e
    using assms Cons that by (auto simp: oneWinner_def isConflict_def failsAs_def nth_list_update)
  then show ?thesis using d
    by (intro ok_atomically runs_append) (simp add: versionsOf_def)
qed

lemma concurrentSameVersion_ok:
  assumes "distinct order" "set order = {..<16}"
  shows "passes (concurrentSameVersion S order)"
proof -
  have race: "succeeds sinv view emptyContents (raceAll order 16 (\<lambda>i. atomically S bg (txAppend S bg ''s1'' 1 (byteOf i))))
      (\<lambda>rs b. oneWinner order b rs)"
    by (rule succeeds_raceAll[where J = oneWinner]) (use assms oneWinner_step in \<open>auto simp: oneWinner_def[of "[]"]\<close>)
  have "0 \<in> set order" using assms(2) by simp
  then obtain w losers where order: "order = w # losers" by (cases order) auto
  have rest: "isOk (rs ! j) \<longleftrightarrow> j = w" "isOk (rs ! j) \<or> isConflict (rs ! j)" if "oneWinner order b rs" "j < 16" for rs b j
  proof -
    have "j = w \<or> j \<in> set losers" using that(2) assms(2) order by auto
    moreover have "w \<notin> set losers" using assms(1) order by simp
    ultimately show "isOk (rs ! j) \<longleftrightarrow> j = w" "isOk (rs ! j) \<or> isConflict (rs ! j)"
      using that(1) order by (auto simp: oneWinner_def isConflict_def failsAs_iff)
  qed
  have count: "length (filter isOk rs) = 1" if "oneWinner order b rs" for rs b
  proof -
    have "{j. j < length rs \<and> isOk (rs ! j)} = {w}"
      using rest(1)[OF that] that assms(2) order by (auto simp: oneWinner_def)
    then show ?thesis by (simp add: length_filter_conv_card)
  qed
  show ?thesis
    unfolding concurrentSameVersion_def
  proof (rule succeeds_andThen[OF race])
    fix rs b assume o: "oneWinner order b rs"
    have each: "isOk r \<or> isConflict r" if "r \<in> set rs" for r
      using that rest(2)[OF o] o by (auto simp: in_set_conv_nth oneWinner_def)
    obtain d where d: "ctStreams b ''s1'' = [(1, d)]" using o order by (auto simp: oneWinner_def)
    have checks: "succeeds sinv view b (forEach (\<lambda>r. errorIf (\<not> isOk r \<and> \<not> isConflict r) ''losing writer got %v, want ErrPipelineFailed'') rs)
       (\<lambda>_ b'. b' = b)"
      using each by (intro succeeds_forEach succeeds_errorIf) auto
    show "succeeds sinv view b
       (andThen (forEach (\<lambda>r. errorIf (\<not> isOk r \<and> \<not> isConflict r) ''losing writer got %v, want ErrPipelineFailed'') rs)
       (\<lambda>_. andThen (fatalIf (length (filter isOk rs) \<noteq> 1) ''%d writers committed version 1, want exactly one'')
       (\<lambda>_. andThen (reads (stReadFrom S bg ''s1'' 1))
       (\<lambda>r. fatalIf (length (valueOr [] r) \<noteq> 1) ''stream holds %d records, want 1'')))) (\<lambda>_ _. True)"
      by (rule succeeds_andThen[OF checks]) (intro succeeds_seq succeeds_fatalIf ok_readFrom, simp_all add: count[OF o] d)
  qed
qed

text \<open>Writers of different versions all commit.\<close>

definition writtenBy :: "nat \<Rightarrow> int \<times> blob" where
  "writtenBy i = (int i + 1, byteOf (i + 1))"

definition allCommit :: "nat list \<Rightarrow> contents \<Rightarrow> unit outcome list \<Rightarrow> bool" where
  "allCommit served a rs \<longleftrightarrow> (\<forall>r \<in> set rs. isOk r) \<and> sortedBy fst (ctStreams a ''s1'')
     \<and> set (ctStreams a ''s1'') = writtenBy ` set served \<and> length (ctDeliveries a) = length served"

lemma allCommit_step:
  assumes "allCommit served b rs" "i \<notin> set served"
  shows "succeeds sinv view b
     (acts (atomically S bg (joinTx (txAppend S bg ''s1'' (int i + 1) (byteOf (i + 1))) (txEnqueueDelivery S bg ''s1'' (int i + 1)))))
     (\<lambda>r b'. allCommit (served @ [i]) b' (rs[i := r]))"
proof -
  let ?b = "ctEnqueueDelivery ''s1'' (int i + 1) (ctAppend ''s1'' (int i + 1) (byteOf (i + 1)) b)"
  have new: "int i + 1 \<notin> versionsOf b ''s1''"
    using assms by (auto simp: allCommit_def versionsOf_def writtenBy_def)
  have "ctStreams ?b ''s1'' = insertBy fst (writtenBy i) (ctStreams b ''s1'')"
    by (simp add: contents_defs writtenBy_def)
  moreover have "sortedBy fst (insertBy fst (writtenBy i) (ctStreams b ''s1''))"
    using sortedBy_insertBy[of fst "ctStreams b ''s1''" "writtenBy i"] assms(1) new
    by (simp add: allCommit_def versionsOf_def writtenBy_def)
  moreover have "length (ctDeliveries ?b) = Suc (length (ctDeliveries b))" by (simp add: contents_defs)
  ultimately have "allCommit (served @ [i]) ?b (rs[i := Ok ()])"
    using assms(1) set_update_subset_insert[of rs i "Ok ()"] by (auto simp: allCommit_def set_insertBy)
  then show ?thesis using new by (intro ok_atomically runs_join runs_append) (auto intro!: runs_ops)
qed

lemma holdsByte_byteOf: "i < 20 \<Longrightarrow> holdsByte (byteOf (i + 1)) (i + 1)"
proof -
  assume "i < 20"
  then have "\<not> 48 \<le> i + 1" "of_char (char_of (i + 1) :: char) = i + 1" by simp_all
  then show ?thesis by (simp add: holdsByte_def byteOf_def bytesOf_def digitVal_def)
qed

lemma concurrentDistinctVersions_ok:
  assumes "distinct order" "set order = {..<20}"
  shows "passes (concurrentDistinctVersions S order)"
  unfolding concurrentDistinctVersions_def
proof (rule succeeds_andThen)
  show "succeeds sinv view emptyContents (raceAll order 20 (\<lambda>i. atomically S bg
         (joinTx (txAppend S bg ''s1'' (int i + 1) (byteOf (i + 1))) (txEnqueueDelivery S bg ''s1'' (int i + 1)))))
      (\<lambda>rs b. allCommit order b rs)"
    by (rule succeeds_raceAll[where J = allCommit])
      (use assms allCommit_step in \<open>auto simp: allCommit_def[of "[]"] emptyContents_def\<close>)
next
  fix rs b assume o: "allCommit order b rs"
  have stream: "ctStreams b ''s1'' = map writtenBy [0..<20]"
  proof (rule sortedBy_unique[of fst])
    show "sortedBy fst (map writtenBy [0..<20])"
      by (simp add: sortedBy_def writtenBy_def sorted_wrt_iff_nth_less)
  qed (use o assms(2) in \<open>auto simp: allCommit_def\<close>)
  have "length order = 20" using assms distinct_card[of order] by simp
  then have dels: "length (ctDeliveries b) = 20" using o by (simp add: allCommit_def)
  have found: "map snd (filter (\<lambda>e. 1 \<le> fst e) (ctStreams b ''s1'')) = map (\<lambda>i. byteOf (i + 1)) [0..<20]"
    unfolding stream by (simp add: filter_map writtenBy_def comp_def)
  show "succeeds sinv view b (andThen (forEach (\<lambda>r. fatalIf (\<not> isOk r) ''a non-conflicting transaction failed: %v'') rs)
       (\<lambda>_. andThen (reads (stReadFrom S bg ''s1'' 1))
       (\<lambda>r. andThen (fatalIf (\<not> isOk r \<or> length (valueOr [] r) \<noteq> 20) ''stream holds %d records (%v), want %d'')
       (\<lambda>_. andThen (forEach (\<lambda>i. fatalIf (\<not> holdsByte (valueOr [] r ! i) (i + 1)) ''record %d holds %d, want the stream in version order'') [0..<20])
       (\<lambda>_. andThen (reads (stPendingDeliveries S bg 100))
       (\<lambda>r. fatalIf (length (valueOr [] r) \<noteq> 20) ''%d deliveries pending, want %d'')))))) (\<lambda>_ _. True)"
  proof (rule succeeds_andThen[where R = "\<lambda>_ c. c = b"])
    show "succeeds sinv view b (forEach (\<lambda>r. fatalIf (\<not> isOk r) ''a non-conflicting transaction failed: %v'') rs) (\<lambda>_ c. c = b)"
      using o by (intro succeeds_forEach succeeds_fatalIf) (auto simp: allCommit_def)
    have bytes: "succeeds sinv view b (forEach (\<lambda>i. fatalIf (\<not> holdsByte (map (\<lambda>i. byteOf (i + 1)) [0..<20] ! i) (i + 1))
         ''record %d holds %d, want the stream in version order'') [0..<20]) (\<lambda>_ c. c = b)"
      using holdsByte_byteOf by (intro succeeds_forEach succeeds_fatalIf) auto
    show "succeeds sinv view c (andThen (reads (stReadFrom S bg ''s1'' 1))
       (\<lambda>r. andThen (fatalIf (\<not> isOk r \<or> length (valueOr [] r) \<noteq> 20) ''stream holds %d records (%v), want %d'')
       (\<lambda>_. andThen (forEach (\<lambda>i. fatalIf (\<not> holdsByte (valueOr [] r ! i) (i + 1)) ''record %d holds %d, want the stream in version order'') [0..<20])
       (\<lambda>_. andThen (reads (stPendingDeliveries S bg 100))
       (\<lambda>r. fatalIf (length (valueOr [] r) \<noteq> 20) ''%d deliveries pending, want %d''))))) (\<lambda>_ _. True)" if "c = b" for c
      unfolding that
      by (intro succeeds_seq ok_readFrom succeeds_fatalIf, unfold found valueOr_Ok)
        (simp, rule succeeds_mono[OF bytes], simp only:, intro succeeds_seq ok_pending succeeds_fatalIf, simp_all add: dels)
  qed
qed

section \<open>A read beside an open transaction\<close>

lemma readsDuringOpenTransaction_ok: "passes (readsDuringOpenTransaction S during early)"
  unfolding succeeds_def
proof (intro allI impI)
  fix w :: "'s tb" assume w: "sinv (tbStore w) \<and> view (tbStore w) = emptyContents"
  let ?d = "bytesOf ''a''"
  obtain t where t: "stBegin S bg (tbStore w) = Ok t" using begin_live[of "tbStore w" bg] w by (auto simp: isOk_iff)
  then have b: "tinv t" "tview t = emptyContents" using begin_spec[OF _ t] w by auto
  obtain t' where t': "txAppend S bg ''s1'' 1 ?d t = (Ok (), t')"
    using append_new[OF b(1), of bg 1 "''s1''" ?d] b(2)
    by (cases "txAppend S bg ''s1'' 1 ?d t") (auto simp: isOk_iff versionsOf_def emptyContents_def)
  have inv: "tinv t'" "tview t' = ctAppend ''s1'' 1 ?d emptyContents"
    using append_frame[OF b(1) t'] append_ok[OF b(1) t'] b(2) by auto
  obtain s' where s': "stCommit S t' = (None, s')" using commit_live[OF inv(1)] by (metis prod.collapse)
  have com: "sinv s'" "ctStreams (view s') ''s1'' = [(1, ?d)]"
    using commit_ok[OF inv(1) s'] inv(2) by (auto simp: contents_eval)
  have seen: "isOk (stReadFrom S bg ''s1'' 1 (if early then case during t' of Some s \<Rightarrow> s | None \<Rightarrow> s' else s'))"
    using during_reads[OF inv(1), of _ bg "''s1''" 1] readFrom_live[OF com(1), of bg "''s1''" 1] by (auto split: option.splits)
  have after: "stReadFrom S bg ''s1'' 1 s' = Ok [?d]"
    using readFrom_live[OF com(1), of bg "''s1''" 1] readFrom_spec[OF com(1), of bg "''s1''" 1] com(2) by (auto simp: isOk_iff)
  have "readsDuringOpenTransaction S during early w = (Some (), w\<lparr>tbStore := s'\<rparr>)"
    using seen after unfolding isOk_iff
    by (auto simp: readsDuringOpenTransaction_def appendAndHold_def t t' s' andThen_def reads_def acts_def errorIf_def fatalIf_def pass_def Let_def)
  then show "\<exists>x w'. readsDuringOpenTransaction S during early w = (Some x, w') \<and> tbFailures w' = tbFailures w \<and> sinv (tbStore w') \<and> True"
    using com(1) by simp
qed

lemmas scenarios_ok = appendCommitsAndReads_ok readRangeLimits_ok duplicateVersionRollsBack_ok errorRollsBackEverything_ok
  receiptsDuplicates_ok deliveriesOrderAndAck_ok dropDeliveriesTest_ok deleteStreamTest_ok ackUnknown_ok dropThenEnqueue_ok
  rollbackRestoresDrop_ok reEnqueueAfterAckOrDrop_ok ackAfterDrop_ok nativeCallable_ok readsOfUnknown_ok pendingLimit_ok
  committedVisible_ok outOfOrderAppends_ok concurrentSameVersion_ok concurrentDistinctVersions_ok cancelledContext_ok
  readsDuringOpenTransaction_ok

lemmas scenarios_clean = scenarios_ok [THEN succeeds_no_failures]

text \<open>A conforming store passes the whole suite.\<close>

lemma suite_passes:
  assumes "\<And>name. sinv (newStore name) \<and> view (newStore name) = emptyContents"
    and "distinct order1" "set order1 = {..<16}" "distinct order2" "set order2 = {..<20}"
  shows "list_all (\<lambda>(name, fs). fs = []) (runSuite newStore (storeScenarios S order1 order2 during early))"
  unfolding runSuite_def storeScenarios_def using assms by (simp add: scenarios_clean)

end

section \<open>The in-memory store conforms\<close>

text \<open>Without scheduled errors every operation on a live context does what it promises.\<close>

definition calm :: "memory \<Rightarrow> bool" where
  "calm s \<longleftrightarrow> memInv s \<and> mErrOn s = Map.empty"

definition calmTx :: "memory_tx \<Rightarrow> bool" where
  "calmTx t \<longleftrightarrow> memTxInv t \<and> mErrOn (mtStore t) = Map.empty"

lemma applyUndo_errOn: "mErrOn (applyUndo u s) = mErrOn s"
  by (cases u) (auto simp: removeEntry_def Let_def split: prod.splits)

lemma rollback_errOn: "mErrOn (memRollback t) = mErrOn (mtStore t)"
proof -
  have "mErrOn (fold applyUndo us s) = mErrOn s" for us s
    by (induction us arbitrary: s) (simp_all add: applyUndo_errOn)
  then show ?thesis by (simp add: memRollback_def)
qed

lemma calmTx_ops:
  assumes "calmTx t"
  shows "mErrOn (mtStore (snd (memAppend c sid v d t))) = Map.empty"
    "mErrOn (mtStore (snd (memDeleteStream c sid t))) = Map.empty"
    "mErrOn (mtStore (snd (memDropDeliveries c sid t))) = Map.empty"
    "mErrOn (mtStore (snd (memPutReceipt c sid rc t))) = Map.empty"
    "mErrOn (mtStore (snd (memEnqueueDelivery c sid v t))) = Map.empty"
  using assms
  by (auto simp: calmTx_def memAppend_def memDeleteStream_def memDropDeliveries_def memPutReceipt_def memEnqueueDelivery_def
      Let_def split: option.splits prod.splits)

lemma calm_contract: "store_contract memoryStore memView memTxView memTxBase calm calmTx"
proof (standard, goal_cases)
  case (1 s sid)
  then show ?case using mem.stream_sorted by (simp add: calm_def)
next
  case (2 s c t)
  then show ?case using mem.begin_spec[of s c t] by (auto simp: calm_def calmTx_def memBegin_def split: option.splits)
next
  case (3 t s')
  then show ?case using mem.commit_ok[of t s'] by (auto simp: calm_def calmTx_def memCommit_def)
next
  case (4 t e s')
  then show ?case by (simp add: memCommit_def)
next
  case (5 t)
  then show ?case using mem.rollback_spec[of t] by (simp add: calm_def calmTx_def rollback_errOn)
next
  case (6 t c sid v d u t')
  then show ?case using mem.append_ok[of t c sid v d u t'] by (simp add: calmTx_def)
next
  case (7 t c sid v d r t')
  then show ?case using mem.append_fail[of t c sid v d r t'] by (simp add: calmTx_def)
next
  case (8 t c sid v d r t')
  then show ?case using mem.append_frame[of t c sid v d r t'] calmTx_ops(1)[of t c sid v d] by (simp add: calmTx_def)
next
  case (9 t c sid r t')
  then show ?case using mem.deleteStream_spec[of t c sid r t'] calmTx_ops(2)[of t c sid] by (simp add: calmTx_def)
next
  case (10 t c agg r t')
  then show ?case using mem.dropDeliveries_spec[of t c agg r t'] calmTx_ops(3)[of t c agg] by (simp add: calmTx_def)
next
  case (11 t c cid rc r t')
  then show ?case using mem.putReceipt_spec[of t c cid rc r t'] calmTx_ops(4)[of t c cid rc] by (simp add: calmTx_def)
next
  case (12 t cid c rc)
  then show ?case using mem.putReceipt_dup[of t cid c rc] by (simp add: calmTx_def)
next
  case (13 t c agg v r t')
  then show ?case using mem.enqueueDelivery_spec[of t c agg v r t'] calmTx_ops(5)[of t c agg v] by (simp add: calmTx_def)
next
  case (14 s c sid v bs)
  then show ?case using mem.readFrom_spec[of s c sid v bs] by (simp add: calm_def)
next
  case (15 s c sid v n bs)
  then show ?case using mem.readRange_spec[of s c sid v n bs] by (simp add: calm_def)
next
  case (16 s c cid ro)
  then show ?case using mem.getReceipt_spec[of s c cid ro] by (simp add: calm_def)
next
  case (17 s c n ds)
  then show ?case using mem.pending_spec[of s c n ds] by (simp add: calm_def)
next
  case (18 s c agg v r s')
  then show ?case using mem.ack_spec[of s c agg v r s'] by (auto simp: calm_def memAckDelivery_def Let_def split: option.splits)
qed

lemma versionsOf_mem: "v \<in> versionsOf (memTxView t) sid \<longleftrightarrow> v \<in> enVersion ` set (streamOf (mtStore t) sid)"
  by (simp add: versionsOf_def memTxView_def memView_def image_image)

lemma memAppend_calm:
  assumes "calmTx t" "ctxErr c = None"
  shows "if v \<in> versionsOf (memTxView t) sid
     then failsAs (\<lambda>e. errorsIs e ErrPipelineFailed) (fst (memAppend c sid v d t)) else isOk (fst (memAppend c sid v d t))"
proof -
  have "sortedBy enVersion (streamOf (mtStore t) sid)" using assms by (simp add: calmTx_def memTxInv_def memInv_def)
  from binarySearch_eq[OF this, of v] show ?thesis
    using assms by (auto simp: memAppend_def calmTx_def versionsOf_mem failsAs_def Let_def)
qed

interpretation cm: conforming_store memoryStore memView memTxView memTxBase calm calmTx "\<lambda>t. Some (mtStore t)"
proof (rule conforming_store.intro[OF calm_contract], unfold_locales, goal_cases)
  case (3 t c v sid d)
  then show ?case using memAppend_calm[of t c v sid d] by simp
next
  case (4 t c v sid d)
  then show ?case using memAppend_calm[of t c v sid d] by simp
qed (auto simp: memBegin_def memCommit_def memPutReceipt_def memDeleteStream_def memDropDeliveries_def memEnqueueDelivery_def
    memReadFrom_def memReadRange_def memGetReceipt_def memPendingDeliveries_def memAckDelivery_def memTxView_def memView_def
    failsAs_def Let_def split: option.splits)

section \<open>Snapshot stores that conform\<close>

text \<open>
  \<open>ver\<close> is the version a guarded upsert compares with: a put of a newer one is stored, an older one may
  be ignored, a delete forgets it. A store without the guard has no such version.
\<close>

locale conforming_snapshots = snapshot_contract P cell
  for P :: "'p snapshot_ops" and cell :: "'p \<Rightarrow> string \<Rightarrow> blob option" +
  fixes pinv :: "'p \<Rightarrow> bool" and ver :: "'p \<Rightarrow> string \<Rightarrow> int option"
  assumes put_live: "pinv p \<Longrightarrow> ctxErr c = None \<Longrightarrow> snPut P c agg v d p = (r, p') \<Longrightarrow>
          r = Ok () \<and> pinv p' \<and> (ver p' = ver p \<or> ver p' = (ver p)(agg \<mapsto> v))"
    and put_newer: "pinv p \<Longrightarrow> ctxErr c = None \<Longrightarrow> snPut P c agg v d p = (r, p') \<Longrightarrow>
          (case ver p agg of None \<Rightarrow> True | Some v0 \<Rightarrow> v0 < v) \<Longrightarrow> cell p' agg = Some d"
    and get_live: "pinv p \<Longrightarrow> ctxErr c = None \<Longrightarrow> isOk (snGet P c agg p)"
    and delete_live: "pinv p \<Longrightarrow> ctxErr c = None \<Longrightarrow> snDelete P c agg p = (r, p') \<Longrightarrow>
          r = Ok () \<and> pinv p' \<and> ver p' = (ver p)(agg := None)"
    and put_done: "pinv p \<Longrightarrow> ctxErr c \<noteq> None \<Longrightarrow> snPut P c agg v d p = (r, p') \<Longrightarrow>
          failsAs (\<lambda>_. True) r \<and> pinv p' \<and> cell p' = cell p \<and> ver p' = ver p"
    and get_done: "pinv p \<Longrightarrow> ctxErr c \<noteq> None \<Longrightarrow> failsAs (\<lambda>_. True) (snGet P c agg p)"
    and delete_done: "pinv p \<Longrightarrow> ctxErr c \<noteq> None \<Longrightarrow> snDelete P c agg p = (r, p') \<Longrightarrow>
          failsAs (\<lambda>_. True) r \<and> pinv p' \<and> ver p' = ver p"
begin

definition cells :: "'p \<Rightarrow> (string \<Rightarrow> blob option) \<times> (string \<Rightarrow> int option)" where
  "cells p = (cell p, ver p)"

lemma ok_put_any:
  assumes "\<And>x k'. x = Some d \<or> x = m agg \<and> k agg \<noteq> None \<Longrightarrow> k' = k \<or> k' = k(agg \<mapsto> v) \<Longrightarrow> Q (Ok ()) (m(agg := x), k')"
  shows "succeeds pinv cells (m, k) (acts (snPut P bg agg v d)) Q"
proof (rule succeeds_acts)
  fix p assume p: "pinv p" "cells p = (m, k)"
  obtain r p' where r: "snPut P bg agg v d p = (r, p')" by fastforce
  note live = put_live[OF p(1) _ r] and newer = put_newer[OF p(1) _ r]
  have "cell p' = m(agg := cell p' agg)" using put_other[OF r] p(2) by (auto simp: cells_def)
  moreover have "cell p' agg = Some d \<or> cell p' agg = m agg \<and> k agg \<noteq> None"
    using put_cell[OF r] newer p(2) by (cases "ver p agg") (auto simp: cells_def)
  ultimately have "Q (Ok ()) (cells p')" using assms[of "cell p' agg" "ver p'"] live p(2) by (auto simp: cells_def)
  then show "\<exists>r p'. snPut P bg agg v d p = (r, p') \<and> (\<forall>x. r \<noteq> Panic x) \<and> pinv p' \<and> Q r (cells p')"
    using live r by simp
qed

lemma ok_put:
  assumes "case k agg of None \<Rightarrow> True | Some v0 \<Rightarrow> v0 < v"
    and "Q (Ok ()) (m(agg \<mapsto> d), k) \<and> Q (Ok ()) (m(agg \<mapsto> d), k(agg \<mapsto> v))"
  shows "succeeds pinv cells (m, k) (acts (snPut P bg agg v d)) Q"
proof (rule succeeds_acts)
  fix p assume p: "pinv p" "cells p = (m, k)"
  obtain r p' where r: "snPut P bg agg v d p = (r, p')" by fastforce
  have "cell p' = m(agg \<mapsto> d)"
    using put_other[OF r] put_newer[OF p(1) _ r] p(2) assms(1) by (auto simp: cells_def fun_eq_iff)
  then have "Q (Ok ()) (cells p')" using put_live[OF p(1) _ r] p(2) assms(2) by (auto simp: cells_def)
  then show "\<exists>r p'. snPut P bg agg v d p = (r, p') \<and> (\<forall>x. r \<noteq> Panic x) \<and> pinv p' \<and> Q r (cells p')"
    using put_live[OF p(1) _ r] r by simp
qed

lemma ok_delete:
  assumes "Q (Ok ()) (m(agg := None), k(agg := None))"
  shows "succeeds pinv cells (m, k) (acts (snDelete P bg agg)) Q"
proof (rule succeeds_acts)
  fix p assume p: "pinv p" "cells p = (m, k)"
  obtain r p' where r: "snDelete P bg agg p = (r, p')" by fastforce
  show "\<exists>r p'. snDelete P bg agg p = (r, p') \<and> (\<forall>x. r \<noteq> Panic x) \<and> pinv p' \<and> Q r (cells p')"
    using delete_live[OF p(1) _ r] delete_spec[OF r] r p(2) assms by (auto simp: cells_def)
qed

lemma ok_get:
  assumes "Q (Ok (m agg)) (m, k)"
  shows "succeeds pinv cells (m, k) (reads (snGet P bg agg)) Q"
  using assms get_live[of _ bg agg] get_spec by (intro succeeds_reads) (fastforce simp: isOk_iff cells_def)

lemma ok_put_done:
  assumes "\<And>e. Q (Fail e) (m, k)"
  shows "succeeds pinv cells (m, k) (acts (snPut P cancelled agg v d)) Q"
proof (rule succeeds_acts)
  fix p assume p: "pinv p" "cells p = (m, k)"
  obtain r p' where r: "snPut P cancelled agg v d p = (r, p')" by fastforce
  show "\<exists>r p'. snPut P cancelled agg v d p = (r, p') \<and> (\<forall>x. r \<noteq> Panic x) \<and> pinv p' \<and> Q r (cells p')"
    using put_done[OF p(1) _ r] r p(2) assms by (auto simp: cells_def failsAs_iff cancelled_def)
qed

lemma ok_delete_done:
  assumes "\<And>e. Q (Fail e) (m, k)"
  shows "succeeds pinv cells (m, k) (acts (snDelete P cancelled agg)) Q"
proof (rule succeeds_acts)
  fix p assume p: "pinv p" "cells p = (m, k)"
  obtain r p' where r: "snDelete P cancelled agg p = (r, p')" by fastforce
  show "\<exists>r p'. snDelete P cancelled agg p = (r, p') \<and> (\<forall>x. r \<noteq> Panic x) \<and> pinv p' \<and> Q r (cells p')"
    using delete_done[OF p(1) _ r] delete_spec[OF r] r p(2) assms by (auto simp: cells_def failsAs_iff cancelled_def)
qed

lemma ok_get_done:
  assumes "\<And>e. Q (Fail e) (m, k)"
  shows "succeeds pinv cells (m, k) (reads (snGet P cancelled agg)) Q"
  using assms get_done[of _ cancelled agg] by (intro succeeds_reads) (fastforce simp: failsAs_iff cancelled_def)

lemmas snap_rules = ok_put ok_delete ok_get ok_put_done ok_delete_done ok_get_done

abbreviation keeps :: "('p, unit) test \<Rightarrow> bool" where
  "keeps fn \<equiv> succeeds pinv cells (Map.empty, Map.empty) fn (\<lambda>_ _. True)"

lemma snapshotUnknown_ok: "keeps (snapshotUnknown P)"
  unfolding snapshotUnknown_def
  by (rule suite_rules snap_rules conjI | simp)+

lemma snapshotRoundTrip_ok: "keeps (snapshotRoundTrip P)"
  unfolding snapshotRoundTrip_def Let_def
  by (rule suite_rules snap_rules conjI | simp)+

lemma snapshotReplaced_ok: "keeps (snapshotReplaced P)"
  unfolding snapshotReplaced_def
  by (rule suite_rules snap_rules conjI | simp)+

lemma snapshotsIndependent_ok: "keeps (snapshotsIndependent P)"
  unfolding snapshotsIndependent_def
  by (rule suite_rules snap_rules conjI | simp)+

lemma snapshotDeleted_ok: "keeps (snapshotDeleted P)"
  unfolding snapshotDeleted_def
  by (rule suite_rules snap_rules conjI | simp)+

lemma snapshotPutAfterDelete_ok: "keeps (snapshotPutAfterDelete P)"
  unfolding snapshotPutAfterDelete_def
  by (rule suite_rules snap_rules conjI | simp)+

lemma snapshotCancelled_ok: "keeps (snapshotCancelled P)"
  unfolding snapshotCancelled_def
  by (rule suite_rules snap_rules conjI | simp)+

text \<open>Of racing puts all succeed, and what is stored is one of them.\<close>

definition oneOfThem :: "nat list \<Rightarrow> (string \<Rightarrow> blob option) \<times> (string \<Rightarrow> int option) \<Rightarrow> unit outcome list \<Rightarrow> bool" where
  "oneOfThem served a rs \<longleftrightarrow> (\<forall>r \<in> set rs. isOk r)
     \<and> (if served = [] then snd a ''a'' = None else fst a ''a'' \<in> (\<lambda>i. Some (payload i)) ` {..<16})"

lemma oneOfThem_step:
  assumes "oneOfThem served b rs" "i < 16"
  shows "succeeds pinv cells b (acts (snPut P bg ''a'' (int i + 1) (payload i))) (\<lambda>r b'. oneOfThem (served @ [i]) b' (rs[i := r]))"
proof -
  obtain m k where b: "b = (m, k)" by fastforce
  have rs: "\<forall>r \<in> set (rs[i := Ok ()]). isOk r"
    using assms(1) set_update_subset_insert[of rs i "Ok ()"] by (auto simp: oneOfThem_def)
  show ?thesis unfolding b
    by (rule ok_put_any) (use assms rs b in \<open>auto simp: oneOfThem_def split: if_splits\<close>)
qed

lemma snapshotConcurrentPuts_ok:
  assumes "distinct order" "set order = {..<16}"
  shows "keeps (snapshotConcurrentPuts P order)"
  unfolding snapshotConcurrentPuts_def
proof (rule succeeds_andThen)
  show "succeeds pinv cells (Map.empty, Map.empty) (raceAll order 16 (\<lambda>i. snPut P bg ''a'' (int i + 1) (payload i)))
      (\<lambda>rs b. oneOfThem order b rs)"
    by (rule succeeds_raceAll[where J = oneOfThem]) (use assms oneOfThem_step in \<open>auto simp: oneOfThem_def[of "[]"]\<close>)
next
  fix rs b assume o: "oneOfThem order b rs"
  obtain m k where b: "b = (m, k)" by fastforce
  have "0 \<in> set order" using assms(2) by simp
  then obtain i where i: "m ''a'' = Some (payload i)" "i < 16" using o b by (auto simp: oneOfThem_def split: if_splits)
  have each: "succeeds pinv cells b (forEach (\<lambda>r. errorIf (\<not> isOk r) ''Put v%d: %v'') rs) (\<lambda>_ c. c = b)"
    using o by (intro succeeds_forEach succeeds_errorIf) (auto simp: oneOfThem_def)
  show "succeeds pinv cells b (andThen (forEach (\<lambda>r. errorIf (\<not> isOk r) ''Put v%d: %v'') rs)
       (\<lambda>_. andThen (reads (snGet P bg ''a''))
       (\<lambda>r. andThen (fatalIf (\<not> isOk r \<or> valueOr None r = None) ''Get = %q, %v, %v'')
       (\<lambda>_. fatalIf (valueOr None r \<notin> set (map (\<lambda>i. Some (payload i)) [0..<16])) ''Get = %q, which no writer wrote (torn write)''))))
       (\<lambda>_ _. True)"
  proof (rule succeeds_andThen[OF each])
    fix c assume "c = b"
    then show "succeeds pinv cells c (andThen (reads (snGet P bg ''a''))
       (\<lambda>r. andThen (fatalIf (\<not> isOk r \<or> valueOr None r = None) ''Get = %q, %v, %v'')
       (\<lambda>_. fatalIf (valueOr None r \<notin> set (map (\<lambda>i. Some (payload i)) [0..<16])) ''Get = %q, which no writer wrote (torn write)'')))
       (\<lambda>_ _. True)"
      unfolding b by simp (intro succeeds_seq ok_get succeeds_fatalIf, use i in auto)
  qed
qed

lemmas snapshots_clean =
  snapshotUnknown_ok [THEN succeeds_no_failures] snapshotRoundTrip_ok [THEN succeeds_no_failures]
  snapshotReplaced_ok [THEN succeeds_no_failures] snapshotsIndependent_ok [THEN succeeds_no_failures]
  snapshotDeleted_ok [THEN succeeds_no_failures] snapshotPutAfterDelete_ok [THEN succeeds_no_failures]
  snapshotConcurrentPuts_ok [THEN succeeds_no_failures] snapshotCancelled_ok [THEN succeeds_no_failures]

lemma suite_keeps:
  assumes "\<And>name. pinv (newStore name) \<and> cell (newStore name) = Map.empty \<and> ver (newStore name) = Map.empty"
    and "distinct order" "set order = {..<16}"
  shows "list_all (\<lambda>(name, fs). fs = []) (runSuite newStore (snapshotScenarios P order))"
  unfolding runSuite_def snapshotScenarios_def using assms by (simp add: snapshots_clean cells_def)

end

interpretation cs: conforming_snapshots snapshotMemory smSnaps "\<lambda>p. smErrOn p = Map.empty" "\<lambda>_ _. None"
  by unfold_locales
    (auto simp: snapGet_def snapPut_def snapDelete_def failsAs_def split: option.splits)

section \<open>The suites on the in-memory stores\<close>

text \<open>C12: the in-memory store passes the whole conformance suite, whatever the order in which it serves
  the racing writers and whether a read beside an open transaction comes before its commit.\<close>

theorem memory_store_conforms:
  assumes "distinct order1" "set order1 = {..<16}" "distinct order2" "set order2 = {..<20}"
  shows "list_all (\<lambda>(name, failures). failures = [])
     (runSuite (\<lambda>_. newMemory) (storeScenarios memoryStore order1 order2 (\<lambda>t. Some (mtStore t)) early))"
  using cm.suite_passes[of "\<lambda>_. newMemory"] assms
  by (simp add: calm_def newMemory_def memInv_def memView_def streamOf_def emptyContents_def)

theorem memory_store_conforms_witness:
  "list_all (\<lambda>(name, failures). failures = [])
     (runSuite (\<lambda>_. newMemory) (storeScenarios memoryStore (rev [0..<16]) [0..<20] (\<lambda>t. Some (mtStore t)) True))"
  by (rule memory_store_conforms) auto

text \<open>C13: the in-memory snapshot store passes its suite, whatever the order of the racing puts.\<close>

theorem memory_snapshots_conform:
  assumes "distinct order" "set order = {..<16}"
  shows "list_all (\<lambda>(name, failures). failures = []) (runSuite (\<lambda>_. newSnapshots) (snapshotScenarios snapshotMemory order))"
  using cs.suite_keeps[of "\<lambda>_. newSnapshots"] assms by (simp add: newSnapshots_def)

theorem memory_snapshots_conform_witness:
  "list_all (\<lambda>(name, failures). failures = []) (runSuite (\<lambda>_. newSnapshots) (snapshotScenarios snapshotMemory (rev [0..<16])))"
  by (rule memory_snapshots_conform) auto

end
