(* ===== verification/Keyed_Lock.thy ===== *)
theory Keyed_Lock
  imports Prelude
begin

text \<open>
  \<^verbatim>\<open>internal/processor/exec/keyedlock.go\<close>: the lock per aggregate the executor serialises its
  commands with. Every section the code runs under \<open>mu\<close>, and every operation on an entry's
  channel, is one atomic step; between them any other goroutine may step. Proved for every
  interleaving: holders of one key exclude each other, an entry is in the map exactly while
  someone uses its key, giving the token backed never blocks, and a waiter whose key nobody
  holds can always go on.
\<close>

section \<open>Entries\<close>

text \<open>
  A \<open>lockEntry\<close>: whether its channel (of capacity one) holds the token, and its reference
  count. \<open>entries\<close> holds pointers, so an entry is named by its address: a key forgotten and
  taken again gets another entry. A nil \<open>entries\<close> map reads like an empty one.
\<close>

record lock_entry =
  eToken :: bool
  eRefs :: int

record keyed_lock =
  klEntries :: "string \<rightharpoonup> nat"
  klHeap :: "nat \<Rightarrow> lock_entry"
  klNext :: nat

definition newKeyedLock :: keyed_lock where
  "newKeyedLock = \<lparr>klEntries = Map.empty, klHeap = (\<lambda>_. \<lparr>eToken = False, eRefs = 0\<rparr>), klNext = 0\<rparr>"

text \<open>The entry of a key, made with its token in place when there is none.\<close>

definition entryFor :: "string \<Rightarrow> keyed_lock \<Rightarrow> nat \<times> keyed_lock" where
  "entryFor key k =
     (case klEntries k key of
        Some e \<Rightarrow> (e, k)
      | None \<Rightarrow>
          (klNext k,
           k\<lparr>klEntries := (klEntries k)(key \<mapsto> klNext k),
             klHeap := (klHeap k)(klNext k := \<lparr>eToken = True, eRefs = 0\<rparr>),
             klNext := Suc (klNext k)\<rparr>))"

definition addRef :: "nat \<Rightarrow> keyed_lock \<Rightarrow> keyed_lock" where
  "addRef e k = k\<lparr>klHeap := (klHeap k)(e := (klHeap k e)\<lparr>eRefs := eRefs (klHeap k e) + 1\<rparr>)\<rparr>"

text \<open>Receiving the token: possible only while the channel holds it.\<close>

definition takeToken :: "nat \<Rightarrow> keyed_lock \<Rightarrow> keyed_lock option" where
  "takeToken e k =
     (if eToken (klHeap k e)
      then Some (k\<lparr>klHeap := (klHeap k)(e := (klHeap k e)\<lparr>eToken := False\<rparr>)\<rparr>)
      else None)"

text \<open>Sending the token backed: the send blocks on a full channel.\<close>

definition putToken :: "nat \<Rightarrow> keyed_lock \<Rightarrow> keyed_lock option" where
  "putToken e k =
     (if eToken (klHeap k e) then None
      else Some (k\<lparr>klHeap := (klHeap k)(e := (klHeap k e)\<lparr>eToken := True\<rparr>)\<rparr>))"

definition releaseEntry :: "string \<Rightarrow> nat \<Rightarrow> keyed_lock \<Rightarrow> keyed_lock" where
  "releaseEntry key e k =
     (let n = eRefs (klHeap k e) - 1;
          k' = k\<lparr>klHeap := (klHeap k)(e := (klHeap k e)\<lparr>eRefs := n\<rparr>)\<rparr>
      in if n = 0 then k'\<lparr>klEntries := (klEntries k')(key := None)\<rparr> else k')"

section \<open>Calls\<close>

text \<open>
  A call of \<open>Lock\<close> or \<open>TryLock\<close> and the unlock function it returned: blocked in the
  \<open>select\<close>; holding the key; on its way out with \<open>release\<close> still to run (the token is backed,
  or \<open>ctx\<close> ended while it waited); or over.
\<close>

datatype lock_call =
    Waiting string nat
  | Holding string nat
  | Leaving string nat
  | Over

text \<open>The first section of \<open>Lock\<close>; a context already done takes no entry.\<close>

definition lockBegin :: "ctx \<Rightarrow> string \<Rightarrow> keyed_lock \<Rightarrow> lock_call \<times> keyed_lock" where
  "lockBegin c key k =
     (case ctxErr c of
        Some _ \<Rightarrow> (Over, k)
      | None \<Rightarrow> (let (e, k1) = entryFor key k in (Waiting key e, addRef e k1)))"

text \<open>\<open>TryLock\<close> is one section; a failed one takes no reference.\<close>

definition tryLock :: "string \<Rightarrow> keyed_lock \<Rightarrow> lock_call \<times> keyed_lock" where
  "tryLock key k =
     (let (e, k1) = entryFor key k
      in case takeToken e k1 of
           Some k2 \<Rightarrow> (Holding key e, addRef e k2)
         | None \<Rightarrow> (Over, k1))"

text \<open>
  The rest of a call, a step at a time: the two arms of the \<open>select\<close> of \<open>Lock\<close>; the body of
  \<open>unlocker\<close> under its \<open>sync.Once\<close>, that is nothing but on the first call; and \<open>release\<close>.
  \<open>None\<close> is a step that cannot be taken now.
\<close>

datatype lock_step = Acquire | Cancel | Unlock | Release

fun callStep :: "lock_step \<Rightarrow> lock_call \<Rightarrow> keyed_lock \<Rightarrow> (lock_call \<times> keyed_lock) option" where
  "callStep Acquire (Waiting key e) k = map_option (\<lambda>k'. (Holding key e, k')) (takeToken e k)"
| "callStep Cancel (Waiting key e) k = Some (Leaving key e, k)"
| "callStep Unlock (Holding key e) k = map_option (\<lambda>k'. (Leaving key e, k')) (putToken e k)"
| "callStep Release (Leaving key e) k = Some (Over, releaseEntry key e k)"
| "callStep Unlock Over k = Some (Over, k)"
| "callStep _ _ _ = None"

text \<open>\<open>size\<close>: the number of live entries.\<close>

definition lockSize :: "keyed_lock \<Rightarrow> nat" where
  "lockSize k = card (dom (klEntries k))"

section \<open>Every interleaving\<close>

text \<open>The lock and its calls, each named by a number.\<close>

record lock_system =
  lsLock :: keyed_lock
  lsCalls :: "nat \<rightharpoonup> lock_call"

datatype lock_action =
    StartLock nat ctx string
  | StartTry nat string
  | Step nat lock_step

definition beginCall :: "nat \<Rightarrow> (keyed_lock \<Rightarrow> lock_call \<times> keyed_lock) \<Rightarrow> lock_system \<Rightarrow> lock_system option" where
  "beginCall c f s =
     (case lsCalls s c of
        Some _ \<Rightarrow> None
      | None \<Rightarrow> (let (st, k) = f (lsLock s)
                 in Some \<lparr>lsLock = k, lsCalls = (lsCalls s)(c \<mapsto> st)\<rparr>))"

fun lockAct :: "lock_action \<Rightarrow> lock_system \<Rightarrow> lock_system option" where
  "lockAct (StartLock c x key) s = beginCall c (lockBegin x key) s"
| "lockAct (StartTry c key) s = beginCall c (tryLock key) s"
| "lockAct (Step c a) s =
     (case lsCalls s c of
        None \<Rightarrow> None
      | Some st \<Rightarrow>
          map_option (\<lambda>(st', k). \<lparr>lsLock = k, lsCalls = (lsCalls s)(c \<mapsto> st')\<rparr>)
            (callStep a st (lsLock s)))"

inductive lockReachable :: "lock_system \<Rightarrow> bool" where
  start: "lockReachable \<lparr>lsLock = newKeyedLock, lsCalls = Map.empty\<rparr>"
| act: "lockReachable s \<Longrightarrow> lockAct a s = Some s' \<Longrightarrow> lockReachable s'"

text \<open>A schedule, for concrete runs.\<close>

fun lockRun :: "lock_action list \<Rightarrow> lock_system \<Rightarrow> lock_system option" where
  "lockRun [] s = Some s"
| "lockRun (a # as) s = Option.bind (lockAct a s) (lockRun as)"

lemma lockRun_reachable: "lockReachable s \<Longrightarrow> lockRun as s = Some s' \<Longrightarrow> lockReachable s'"
  by (induction as arbitrary: s) (auto simp: bind_eq_Some_conv intro: lockReachable.act)

section \<open>The invariant\<close>

text \<open>Who uses a key through an entry, and who holds it.\<close>

fun usesEntry :: "string \<Rightarrow> nat \<Rightarrow> lock_call \<Rightarrow> bool" where
  "usesEntry key e (Waiting key' e') \<longleftrightarrow> key' = key \<and> e' = e"
| "usesEntry key e (Holding key' e') \<longleftrightarrow> key' = key \<and> e' = e"
| "usesEntry key e (Leaving key' e') \<longleftrightarrow> key' = key \<and> e' = e"
| "usesEntry key e Over \<longleftrightarrow> False"

definition users :: "(nat \<rightharpoonup> lock_call) \<Rightarrow> string \<Rightarrow> nat \<Rightarrow> nat set" where
  "users cs key e = {c. \<exists>st. cs c = Some st \<and> usesEntry key e st}"

definition holders :: "(nat \<rightharpoonup> lock_call) \<Rightarrow> string \<Rightarrow> nat \<Rightarrow> nat set" where
  "holders cs key e = {c. cs c = Some (Holding key e)}"

text \<open>
  An entry of the map counts its users, has one, and lacks its token exactly while one call
  holds it; a call uses no entry that is not in the map under its key.
\<close>

definition entryOk :: "(nat \<rightharpoonup> lock_call) \<Rightarrow> keyed_lock \<Rightarrow> string \<Rightarrow> nat \<Rightarrow> bool" where
  "entryOk cs k key e \<longleftrightarrow>
     e < klNext k
     \<and> eRefs (klHeap k e) = int (card (users cs key e))
     \<and> users cs key e \<noteq> {}
     \<and> card (holders cs key e) = (if eToken (klHeap k e) then 0 else 1)"

definition lockInv :: "lock_system \<Rightarrow> bool" where
  "lockInv s \<longleftrightarrow>
     finite (dom (lsCalls s))
     \<and> (\<forall>key key' e. klEntries (lsLock s) key = Some e \<longrightarrow> klEntries (lsLock s) key' = Some e \<longrightarrow> key = key')
     \<and> (\<forall>key e. klEntries (lsLock s) key = Some e \<longrightarrow> entryOk (lsCalls s) (lsLock s) key e)
     \<and> (\<forall>key e. users (lsCalls s) key e \<noteq> {} \<longrightarrow> klEntries (lsLock s) key = Some e)"

lemma users_finite: "finite (dom cs) \<Longrightarrow> finite (users cs key e)"
  by (rule finite_subset[of _ "dom cs"]) (auto simp: users_def)

lemma holders_users: "holders cs key e \<subseteq> users cs key e"
  by (auto simp: holders_def users_def)

lemma users_update:
  "users (cs(c \<mapsto> st)) key e = (users cs key e - {c}) \<union> (if usesEntry key e st then {c} else {})"
  by (auto simp: users_def)

lemma holders_update:
  "holders (cs(c \<mapsto> st)) key e = (holders cs key e - {c}) \<union> (if st = Holding key e then {c} else {})"
  by (auto simp: holders_def)

lemma notin_users: "cs c = None \<Longrightarrow> c \<notin> users cs key e"
  by (simp add: users_def)

lemma in_users: "cs c = Some st \<Longrightarrow> c \<in> users cs key e \<longleftrightarrow> usesEntry key e st"
  by (simp add: users_def)

lemma in_holders: "cs c = Some st \<Longrightarrow> c \<in> holders cs key e \<longleftrightarrow> st = Holding key e"
  by (simp add: holders_def)

lemma notin_holders: "cs c = None \<Longrightarrow> c \<notin> holders cs key e"
  by (simp add: holders_def)

text \<open>An entry and calls that have nothing to do with a step.\<close>

lemma entryOk_frame:
  assumes "entryOk cs k key e" "c \<notin> users cs key e" "\<not> usesEntry key e st"
    and "klHeap k' e = klHeap k e" "klNext k \<le> klNext k'"
  shows "entryOk (cs(c \<mapsto> st)) k' key e"
proof -
  have "users (cs(c \<mapsto> st)) key e = users cs key e"
    using assms(2,3) by (simp add: users_update)
  moreover have "holders (cs(c \<mapsto> st)) key e = holders cs key e"
    using assms(2,3) holders_users[of cs key e] by (auto simp: holders_update)
  ultimately show ?thesis using assms by (simp add: entryOk_def)
qed

text \<open>
  A step of one call on one key and entry keeps the invariant when it leaves that entry
  right, or out of the map with no user.
\<close>

lemma lockInv_update:
  assumes inv: "lockInv s"
    and old: "\<And>key e st. lsCalls s c = Some st \<Longrightarrow> usesEntry key e st \<Longrightarrow> key = ky \<and> e = ent"
    and new: "\<And>key e. usesEntry key e st' \<Longrightarrow> key = ky \<and> e = ent"
    and here: "klEntries (lsLock s) ky = Some ent
      \<or> klEntries (lsLock s) ky = None \<and> klNext (lsLock s) \<le> ent"
    and entries: "klEntries k' = (klEntries (lsLock s))(ky := r)" "r = Some ent \<or> r = None"
    and heap: "\<And>e. e \<noteq> ent \<Longrightarrow> klHeap k' e = klHeap (lsLock s) e"
    and nxt: "klNext (lsLock s) \<le> klNext k'"
    and ok: "r = Some ent \<Longrightarrow> entryOk ((lsCalls s)(c \<mapsto> st')) k' ky ent"
    and gone: "r = None \<Longrightarrow> users ((lsCalls s)(c \<mapsto> st')) ky ent = {}"
  shows "lockInv \<lparr>lsLock = k', lsCalls = (lsCalls s)(c \<mapsto> st')\<rparr>"
proof -
  let ?cs = "lsCalls s" and ?en = "klEntries (lsLock s)"
  have entry: "entryOk ?cs (lsLock s) key e" if "?en key = Some e" for key e
    using inv that by (simp add: lockInv_def)
  have used: "?en key = Some e" if "users ?cs key e \<noteq> {}" for key e
    using inv that by (simp add: lockInv_def)
  have inj: "key = ky" if "?en key = Some ent" for key
  proof (cases "?en ky = Some ent")
    case True
    with inv that show ?thesis unfolding lockInv_def by blast
  next
    case False
    with here entry[OF that] show ?thesis by (simp add: entryOk_def)
  qed
  have other: "e \<noteq> ent \<and> c \<notin> users ?cs key e \<and> \<not> usesEntry key e st'"
    if "?en key = Some e" "key \<noteq> ky" for key e
    using that inj[of key] old new by (auto simp: users_def)
  have frame: "entryOk (?cs(c \<mapsto> st')) k' key e" if "?en key = Some e" "key \<noteq> ky" for key e
    using entryOk_frame[OF entry[OF that(1)]] other[OF that] heap nxt by simp
  have "users ?cs key e \<noteq> {}"
    if "users (?cs(c \<mapsto> st')) key e \<noteq> {}" "key \<noteq> ky \<or> e \<noteq> ent" for key e
    using that new[of key e] by (auto simp: users_update split: if_splits)
  then have backed: "klEntries k' key = Some e" if "users (?cs(c \<mapsto> st')) key e \<noteq> {}" for key e
    using that used[of key e] here gone entries by (cases "key = ky \<and> e = ent") auto
  have "key = key'" if "klEntries k' key = Some e" "klEntries k' key' = Some e" for key key' e
    using that entries inj inv unfolding lockInv_def by (metis fun_upd_apply option.distinct(1) option.inject)
  moreover have "entryOk (?cs(c \<mapsto> st')) k' key e" if "klEntries k' key = Some e" for key e
    using that frame[of key e] ok entries by (auto split: if_splits)
  moreover have "finite (dom (?cs(c \<mapsto> st')))" using inv by (simp add: lockInv_def)
  ultimately show ?thesis using backed unfolding lockInv_def by simp
qed

text \<open>A call that uses nothing changes nothing.\<close>

lemma lockInv_idle:
  assumes "lockInv s" "\<And>key e. c \<notin> users (lsCalls s) key e"
  shows "lockInv \<lparr>lsLock = lsLock s, lsCalls = (lsCalls s)(c \<mapsto> Over)\<rparr>"
proof -
  have "users ((lsCalls s)(c \<mapsto> Over)) key e = users (lsCalls s) key e" for key e
    using assms(2) by (simp add: users_update)
  then show ?thesis
    using assms entryOk_frame[of "lsCalls s" "lsLock s" _ _ c Over "lsLock s"]
    unfolding lockInv_def by simp
qed

lemma lockInv_entry:
  "lockInv s \<Longrightarrow> klEntries (lsLock s) key = Some e \<Longrightarrow> entryOk (lsCalls s) (lsLock s) key e"
  by (simp add: lockInv_def)

lemma lockInv_user:
  assumes "lockInv s" "lsCalls s c = Some st" "usesEntry key e st"
  shows "klEntries (lsLock s) key = Some e"
  using assms unfolding lockInv_def users_def by blast

lemma fresh_entry_unused:
  assumes "lockInv s" "klNext (lsLock s) \<le> e"
  shows "users (lsCalls s) key e = {}" and "holders (lsCalls s) key e = {}"
proof -
  have "\<not> e < klNext (lsLock s)" using assms(2) by simp
  then show "users (lsCalls s) key e = {}" using assms(1) unfolding lockInv_def entryOk_def by blast
  then show "holders (lsCalls s) key e = {}" using holders_users by blast
qed

lemmas lock_ops = lockBegin_def tryLock_def entryFor_def addRef_def takeToken_def putToken_def
  releaseEntry_def

lemma lockInv_lockBegin:
  assumes inv: "lockInv s" and free: "lsCalls s c = None" and r: "lockBegin x key (lsLock s) = (st, k)"
  shows "lockInv \<lparr>lsLock = k, lsCalls = (lsCalls s)(c \<mapsto> st)\<rparr>"
proof (cases "ctxErr x")
  case (Some err)
  with r have "st = Over" "k = lsLock s" by (simp_all add: lock_ops)
  then show ?thesis using lockInv_idle[OF inv] notin_users[of "lsCalls s" c] free by simp
next
  case None
  have fin: "finite (users (lsCalls s) key e)" for e
    using inv by (simp add: users_finite lockInv_def)
  note none = notin_users[of "lsCalls s" c, OF free] notin_holders[of "lsCalls s" c, OF free]
  show ?thesis
  proof (cases "klEntries (lsLock s) key")
    case (Some e)
    note entry = lockInv_entry[OF inv Some]
    show ?thesis
      by (rule lockInv_update[OF inv, where ky = key and ent = e and r = "Some e"])
        (use r None Some free fin none entry in
          \<open>auto simp: lock_ops entryOk_def users_update holders_update\<close>)
  next
    case no: None
    let ?e = "klNext (lsLock s)"
    note fresh = fresh_entry_unused[OF inv order_refl]
    show ?thesis
      by (rule lockInv_update[OF inv, where ky = key and ent = ?e and r = "Some ?e"])
        (use r None no free fresh in
          \<open>auto simp: lock_ops entryOk_def users_update holders_update\<close>)
  qed
qed

lemma lockInv_tryLock:
  assumes inv: "lockInv s" and free: "lsCalls s c = None" and r: "tryLock key (lsLock s) = (st, k)"
  shows "lockInv \<lparr>lsLock = k, lsCalls = (lsCalls s)(c \<mapsto> st)\<rparr>"
proof (cases "klEntries (lsLock s) key")
  case (Some e)
  have fin: "finite (users (lsCalls s) key e)" for e
    using inv by (simp add: users_finite lockInv_def)
  note none = notin_users[of "lsCalls s" c, OF free] notin_holders[of "lsCalls s" c, OF free]
  note entry = lockInv_entry[OF inv Some]
  show ?thesis
  proof (cases "eToken (klHeap (lsLock s) e)")
    case True
    have "holders (lsCalls s) key e = {}"
      using entry True fin[of e] holders_users[of "lsCalls s" key e]
      by (auto simp: entryOk_def dest: finite_subset)
    then show ?thesis
      by (intro lockInv_update[OF inv, where ky = key and ent = e and r = "Some e"])
        (use r True Some free fin none entry in
          \<open>auto simp: lock_ops entryOk_def users_update holders_update\<close>)
  next
    case False
    with r Some have "st = Over" "k = lsLock s" by (simp_all add: lock_ops)
    then show ?thesis using lockInv_idle[OF inv] none by simp
  qed
next
  case None
  let ?e = "klNext (lsLock s)"
  note fresh = fresh_entry_unused[OF inv order_refl]
  show ?thesis
    by (rule lockInv_update[OF inv, where ky = key and ent = ?e and r = "Some ?e"])
      (use r None free fresh in \<open>auto simp: lock_ops entryOk_def users_update holders_update\<close>)
qed

lemma lockInv_used_entry:
  assumes inv: "lockInv s" and st: "lsCalls s c = Some st" and u: "usesEntry key e st"
  shows "klEntries (lsLock s) key = Some e" "entryOk (lsCalls s) (lsLock s) key e"
    "finite (users (lsCalls s) key e)" "finite (holders (lsCalls s) key e)"
    "c \<in> users (lsCalls s) key e" "c \<in> holders (lsCalls s) key e \<longleftrightarrow> st = Holding key e"
proof -
  show en: "klEntries (lsLock s) key = Some e" by (rule lockInv_user[OF inv st u])
  show "entryOk (lsCalls s) (lsLock s) key e" by (rule lockInv_entry[OF inv en])
  show fin: "finite (users (lsCalls s) key e)" using inv by (simp add: users_finite lockInv_def)
  show "finite (holders (lsCalls s) key e)" using finite_subset[OF holders_users fin] .
  show "c \<in> users (lsCalls s) key e" using st u by (simp add: in_users)
  show "c \<in> holders (lsCalls s) key e \<longleftrightarrow> st = Holding key e" using st by (simp add: in_holders)
qed

lemma lockInv_acquire:
  assumes inv: "lockInv s" and st: "lsCalls s c = Some (Waiting key e)"
    and r: "takeToken e (lsLock s) = Some k"
  shows "lockInv \<lparr>lsLock = k, lsCalls = (lsCalls s)(c \<mapsto> Holding key e)\<rparr>"
proof -
  have "usesEntry key e (Waiting key e)" by simp
  note f = lockInv_used_entry[OF inv st this]
  have k: "k = (lsLock s)\<lparr>klHeap := (klHeap (lsLock s))(e := (klHeap (lsLock s) e)\<lparr>eToken := False\<rparr>)\<rparr>"
    and tok: "eToken (klHeap (lsLock s) e)"
    using r by (auto simp: takeToken_def split: if_splits)
  have "holders (lsCalls s) key e = {}" using f(2,4) tok by (simp add: entryOk_def)
  then show ?thesis
    by (intro lockInv_update[OF inv, where ky = key and ent = e and r = "Some e"])
      (use st f k in \<open>auto simp: entryOk_def users_update holders_update insert_absorb\<close>)
qed

lemma lockInv_cancel:
  assumes inv: "lockInv s" and st: "lsCalls s c = Some (Waiting key e)"
  shows "lockInv \<lparr>lsLock = lsLock s, lsCalls = (lsCalls s)(c \<mapsto> Leaving key e)\<rparr>"
proof -
  have "usesEntry key e (Waiting key e)" by simp
  note f = lockInv_used_entry[OF inv st this]
  show ?thesis
    by (rule lockInv_update[OF inv, where ky = key and ent = e and r = "Some e"])
      (use st f in \<open>auto simp: entryOk_def users_update holders_update insert_absorb\<close>)
qed

lemma lockInv_unlock:
  assumes inv: "lockInv s" and st: "lsCalls s c = Some (Holding key e)"
    and r: "putToken e (lsLock s) = Some k"
  shows "lockInv \<lparr>lsLock = k, lsCalls = (lsCalls s)(c \<mapsto> Leaving key e)\<rparr>"
proof -
  have "usesEntry key e (Holding key e)" by simp
  note f = lockInv_used_entry[OF inv st this]
  have k: "k = (lsLock s)\<lparr>klHeap := (klHeap (lsLock s))(e := (klHeap (lsLock s) e)\<lparr>eToken := True\<rparr>)\<rparr>"
    and tok: "\<not> eToken (klHeap (lsLock s) e)"
    using r by (auto simp: putToken_def split: if_splits)
  have "card (holders (lsCalls s) key e) = 1" using f(2) tok by (simp add: entryOk_def)
  then have "holders (lsCalls s) key e = {c}" using f(6) by (metis card_1_singletonE singletonD)
  then show ?thesis
    by (intro lockInv_update[OF inv, where ky = key and ent = e and r = "Some e"])
      (use st f k in \<open>auto simp: entryOk_def users_update holders_update insert_absorb\<close>)
qed

lemma lockInv_release:
  assumes inv: "lockInv s" and st: "lsCalls s c = Some (Leaving key e)"
  shows "lockInv \<lparr>lsLock = releaseEntry key e (lsLock s), lsCalls = (lsCalls s)(c \<mapsto> Over)\<rparr>"
proof -
  let ?u = "users (lsCalls s) key e"
  have "usesEntry key e (Leaving key e)" by simp
  note f = lockInv_used_entry[OF inv st this]
  have card: "card (?u - {c}) = card ?u - 1" "0 < card ?u" using f(3,5) by (auto simp: card_gt_0_iff)
  have rest: "?u - {c} = {} \<longleftrightarrow> card ?u = 1"
    using card f(3) by (metis One_nat_def Suc_pred card_0_eq diff_Suc_1 finite_Diff)
  have refs: "eRefs (klHeap (lsLock s) e) = int (card ?u)" using f(2) by (simp add: entryOk_def)
  show ?thesis
  proof (rule lockInv_update[OF inv, where ky = key and ent = e
          and r = "if card ?u = 1 then None else Some e"])
    show "entryOk ((lsCalls s)(c \<mapsto> Over)) (releaseEntry key e (lsLock s)) key e"
      if "(if card ?u = 1 then None else Some e) = Some e"
      using that f card rest refs
      by (auto simp: releaseEntry_def entryOk_def users_update holders_update Let_def split: if_splits)
    show "users ((lsCalls s)(c \<mapsto> Over)) key e = {}" if "(if card ?u = 1 then None else Some e) = None"
      using that rest by (simp add: users_update split: if_splits)
  qed (use st f(1) refs in \<open>auto simp: releaseEntry_def Let_def\<close>)
qed

lemma lockInv_callStep:
  assumes inv: "lockInv s" and st: "lsCalls s c = Some st"
    and r: "callStep a st (lsLock s) = Some (st', k)"
  shows "lockInv \<lparr>lsLock = k, lsCalls = (lsCalls s)(c \<mapsto> st')\<rparr>"
proof (cases st)
  case Over
  with r have "st' = Over" "k = lsLock s" by (cases a; simp)+
  moreover have "c \<notin> users (lsCalls s) key e" for key e using st Over by (simp add: in_users)
  ultimately show ?thesis using lockInv_idle[OF inv] by simp
next
  case (Waiting key e)
  then show ?thesis using r st lockInv_acquire[OF inv] lockInv_cancel[OF inv] by (cases a) auto
next
  case (Holding key e)
  then show ?thesis using r st lockInv_unlock[OF inv] by (cases a) auto
next
  case (Leaving key e)
  then show ?thesis using r st lockInv_release[OF inv] by (cases a) auto
qed

lemma lockInv_act: "lockInv s \<Longrightarrow> lockAct a s = Some s' \<Longrightarrow> lockInv s'"
  by (cases a)
    (auto simp: beginCall_def split: option.splits prod.splits
      intro: lockInv_lockBegin lockInv_tryLock lockInv_callStep)

lemma lockInv_start: "lockInv \<lparr>lsLock = newKeyedLock, lsCalls = Map.empty\<rparr>"
  by (simp add: lockInv_def newKeyedLock_def users_def)

lemma lockReachable_inv: "lockReachable s \<Longrightarrow> lockInv s"
  by (induction rule: lockReachable.induct) (auto intro: lockInv_start lockInv_act)

section \<open>Properties\<close>

text \<open>
  The abstract lock: which calls hold which keys. A free key may be taken, a held one given
  back, and nothing else happens.
\<close>

definition held :: "lock_system \<Rightarrow> (string \<times> nat) set" where
  "held s = {(key, c). \<exists>e. lsCalls s c = Some (Holding key e)}"

definition mutexStep :: "(string \<times> nat) set \<Rightarrow> (string \<times> nat) set \<Rightarrow> bool" where
  "mutexStep H H' \<longleftrightarrow>
     H' = H
     \<or> (\<exists>key c. key \<notin> Domain H \<and> H' = insert (key, c) H)
     \<or> (\<exists>p \<in> H. H' = H - {p})"

lemma held_update:
  "held \<lparr>lsLock = k, lsCalls = (lsCalls s)(c \<mapsto> st)\<rparr> =
     {p \<in> held s. snd p \<noteq> c} \<union> {(key, c') . c' = c \<and> (\<exists>e. st = Holding key e)}"
  by (auto simp: held_def)

text \<open>The token is in an entry's channel exactly while nobody holds its key.\<close>

lemma token_iff_free:
  assumes "lockInv s" "klEntries (lsLock s) key = Some e"
  shows "eToken (klHeap (lsLock s) e) \<longleftrightarrow> key \<notin> Domain (held s)"
proof -
  have fin: "finite (holders (lsCalls s) key e)"
    using assms(1) finite_subset[OF holders_users] users_finite by (auto simp: lockInv_def)
  have "eToken (klHeap (lsLock s) e) \<longleftrightarrow> holders (lsCalls s) key e = {}"
    using lockInv_entry[OF assms] fin by (auto simp: entryOk_def split: if_splits)
  also have "\<dots> \<longleftrightarrow> key \<notin> Domain (held s)"
    using lockInv_user[OF assms(1)] assms(2) by (fastforce simp: holders_def held_def Domain_iff)
  finally show ?thesis .
qed

lemma held_single_valued:
  assumes inv: "lockInv s"
  shows "single_valued (held s)"
proof (rule single_valuedI)
  fix key c c' assume "(key, c) \<in> held s" "(key, c') \<in> held s"
  then obtain e e' where h: "lsCalls s c = Some (Holding key e)" "lsCalls s c' = Some (Holding key e')"
    by (auto simp: held_def)
  then have en: "klEntries (lsLock s) key = Some e" "e' = e"
    using lockInv_user[OF inv h(1)] lockInv_user[OF inv h(2)] by auto
  have "card (holders (lsCalls s) key e) \<le> 1"
    using lockInv_entry[OF inv en(1)] by (auto simp: entryOk_def)
  moreover have "{c, c'} \<subseteq> holders (lsCalls s) key e" using h en by (simp add: holders_def)
  moreover have "finite (holders (lsCalls s) key e)"
    using inv finite_subset[OF holders_users] users_finite by (auto simp: lockInv_def)
  ultimately have "card {c, c'} \<le> 1" using card_mono[of "holders (lsCalls s) key e" "{c, c'}"] by linarith
  then show "c = c'" by (simp add: card_insert_if split: if_splits)
qed

lemma mutexStep_begin:
  assumes "lockInv s" "lsCalls s c = None"
    and "lockBegin x key (lsLock s) = (st, k) \<or> tryLock key (lsLock s) = (st, k)"
  shows "mutexStep (held s) (held \<lparr>lsLock = k, lsCalls = (lsCalls s)(c \<mapsto> st)\<rparr>)"
proof -
  have same: "{p \<in> held s. snd p \<noteq> c} = held s" using assms(2) by (auto simp: held_def)
  show ?thesis
  proof (cases "\<exists>key' e. st = Holding key' e")
    case False
    then show ?thesis unfolding held_update same by (simp add: mutexStep_def)
  next
    case True
    have free: "klEntries (lsLock s) key = None \<or> key \<notin> Domain (held s)" "\<exists>e. st = Holding key e"
      using True assms(3) token_iff_free[OF assms(1), of key]
      by (auto simp: lock_ops Let_def split: option.splits if_splits)
    then have "key \<notin> Domain (held s)"
      using lockInv_user[OF assms(1)] by (fastforce simp: held_def Domain_iff)
    moreover have "{(key', c'). c' = c \<and> (\<exists>e. st = Holding key' e)} = {(key, c)}" using free(2) by auto
    ultimately show ?thesis unfolding held_update same mutexStep_def by (metis Un_insert_right sup_bot_right)
  qed
qed

lemma mutexStep_callStep:
  assumes inv: "lockInv s" and st: "lsCalls s c = Some st" and r: "callStep a st (lsLock s) = Some (st', k)"
  shows "mutexStep (held s) (held \<lparr>lsLock = k, lsCalls = (lsCalls s)(c \<mapsto> st')\<rparr>)"
proof (cases st)
  case (Waiting key e)
  have same: "{p \<in> held s. snd p \<noteq> c} = held s" using st Waiting by (auto simp: held_def)
  have en: "klEntries (lsLock s) key = Some e" using lockInv_user[OF inv st] Waiting by simp
  consider "a = Acquire" | "a = Cancel" using r Waiting by (cases a) auto
  then show ?thesis
  proof cases
    case 1
    then have "st' = Holding key e" "key \<notin> Domain (held s)"
      using r Waiting token_iff_free[OF inv en] by (auto simp: takeToken_def split: if_splits)
    then show ?thesis unfolding held_update same mutexStep_def by auto
  next
    case 2
    then have "st' = Leaving key e" using r Waiting by simp
    then show ?thesis unfolding held_update same mutexStep_def by auto
  qed
next
  case (Holding key e)
  then have "a = Unlock" "st' = Leaving key e" using r by (cases a; auto)+
  moreover have "{p \<in> held s. snd p \<noteq> c} = held s - {(key, c)}" "(key, c) \<in> held s"
    using st Holding by (auto simp: held_def)
  ultimately show ?thesis unfolding held_update mutexStep_def by auto
next
  case (Leaving key e)
  then have "st' = Over" using r by (cases a) auto
  then show ?thesis using st Leaving unfolding held_update mutexStep_def by (auto simp: held_def)
next
  case Over
  then have "st' = Over" using r by (cases a) auto
  then show ?thesis using st Over unfolding held_update mutexStep_def by (auto simp: held_def)
qed

text \<open>C29: the keyed lock implements the abstract mutex per key. Whatever the interleaving of
  \<open>Lock\<close>, \<open>TryLock\<close>, cancellations and unlocks, every step takes one free key, gives one
  held key back or changes nothing, and no key ever has two holders.\<close>

theorem lock_implements_mutex:
  assumes "lockReachable s" "lockAct a s = Some s'"
  shows "mutexStep (held s) (held s') \<and> single_valued (held s')"
proof
  have inv: "lockInv s" using assms(1) by (rule lockReachable_inv)
  show "mutexStep (held s) (held s')"
    using assms(2) mutexStep_begin[OF inv] mutexStep_callStep[OF inv]
    by (cases a) (fastforce simp: beginCall_def split: option.splits prod.splits)+
  show "single_valued (held s')" using held_single_valued lockInv_act[OF inv assms(2)] .
qed

text \<open>Two calls for one key: the second waits while the first holds it.\<close>

definition contended :: lock_system where
  "contended = the (lockRun
     [StartLock 1 background ''a'', Step 1 Acquire, StartLock 2 background ''a'']
     \<lparr>lsLock = newKeyedLock, lsCalls = Map.empty\<rparr>)"

lemma contended_runs:
  "lockRun [StartLock 1 background ''a'', Step 1 Acquire, StartLock 2 background ''a'']
     \<lparr>lsLock = newKeyedLock, lsCalls = Map.empty\<rparr> = Some contended"
  by (simp add: contended_def beginCall_def lock_ops newKeyedLock_def)

lemma contended_calls:
  "lsCalls contended = [1 \<mapsto> Holding ''a'' 0, 2 \<mapsto> Waiting ''a'' 0]"
  by (auto simp: contended_def beginCall_def lock_ops newKeyedLock_def)

lemma contended_reachable: "lockReachable contended"
  using lockRun_reachable[OF lockReachable.start contended_runs] .

theorem lock_implements_mutex_witness:
  "mutexStep (held contended) (held (the (lockAct (Step 1 Unlock) contended)))"
proof -
  have "lockAct (Step 1 Unlock) contended = Some (the (lockAct (Step 1 Unlock) contended))"
    by (simp add: contended_def beginCall_def lock_ops newKeyedLock_def)
  from lock_implements_mutex[OF contended_reachable this] show ?thesis by simp
qed

text \<open>The lock leaks nothing and wedges nobody. In every reachable state the map holds an
  entry for exactly the keys someone holds, waits for or is leaving; the unlock of a holder
  never blocks; and a call waiting for a key nobody holds can take it.\<close>

theorem lock_never_stuck:
  assumes "lockReachable s"
  shows "dom (klEntries (lsLock s)) = {key. \<exists>c e st. lsCalls s c = Some st \<and> usesEntry key e st}
     \<and> (\<forall>c key e. lsCalls s c = Some (Holding key e) \<longrightarrow> lockAct (Step c Unlock) s \<noteq> None)
     \<and> (\<forall>c key e. lsCalls s c = Some (Waiting key e) \<longrightarrow> key \<notin> Domain (held s)
          \<longrightarrow> lockAct (Step c Acquire) s \<noteq> None)"
proof (intro conjI allI impI)
  have inv: "lockInv s" using assms by (rule lockReachable_inv)
  show "dom (klEntries (lsLock s)) = {key. \<exists>c e st. lsCalls s c = Some st \<and> usesEntry key e st}"
    using lockInv_entry[OF inv] lockInv_user[OF inv] by (fastforce simp: entryOk_def users_def)
  show "lockAct (Step c Unlock) s \<noteq> None" if h: "lsCalls s c = Some (Holding key e)" for c key e
  proof -
    have "klEntries (lsLock s) key = Some e" using lockInv_user[OF inv h] by simp
    moreover have "key \<in> Domain (held s)" using h by (auto simp: held_def)
    ultimately show ?thesis using token_iff_free[OF inv] h by (simp add: putToken_def)
  qed
  show "lockAct (Step c Acquire) s \<noteq> None"
    if w: "lsCalls s c = Some (Waiting key e)" "key \<notin> Domain (held s)" for c key e
  proof -
    have "klEntries (lsLock s) key = Some e" using lockInv_user[OF inv w(1)] by simp
    then show ?thesis using token_iff_free[OF inv] w by (simp add: takeToken_def)
  qed
qed

theorem lock_never_stuck_witness:
  "lockAct (Step 1 Unlock) contended \<noteq> None \<and> dom (klEntries (lsLock contended)) = {''a''}"
proof -
  note p = lock_never_stuck[OF contended_reachable]
  have "lockAct (Step 1 Unlock) contended \<noteq> None"
    by (rule p[THEN conjunct2, THEN conjunct1, rule_format]) (simp add: contended_calls)
  moreover have "dom (klEntries (lsLock contended)) = {''a''}"
    unfolding p[THEN conjunct1] contended_calls by (auto split: if_splits)
  ultimately show ?thesis ..
qed

end
