(* ===== verification/Shard.thy ===== *)
theory Shard
  imports Exec "HOL-Library.Multiset"
begin

text \<open>
  \<^verbatim>\<open>internal/processor/queue\<close>, \<^verbatim>\<open>internal/processor/models\<close> and
  \<^verbatim>\<open>internal/processor/pool/shard.go\<close>: the routing of aggregates to shards, and one shard with
  its dispatcher goroutine and its workers. Every section the code runs under a mutex and
  every channel operation is one step of the shard, so that a run of the shard is any
  interleaving of its goroutines; \<open>Shard_Correct\<close> has the theory of the steps.
\<close>

section \<open>Routing\<close>

text \<open>FNV-1a over the bytes of the aggregate id, on 64-bit words, as \<open>hash/fnv\<close> computes it.\<close>

definition fnvOffset :: "64 word" where
  "fnvOffset = 14695981039346656037"

definition fnvPrime :: "64 word" where
  "fnvPrime = 1099511628211"

definition fnvByte :: "64 word \<Rightarrow> char \<Rightarrow> 64 word" where
  "fnvByte h b = Bit_Operations.xor h (of_nat (of_char b)) * fnvPrime"

definition sum64 :: "string \<Rightarrow> 64 word" where
  "sum64 s = foldl fnvByte fnvOffset s"

text \<open>\<open>New\<close> panics without a shard; \<open>Route\<close> is the hash modulo the number of shards.\<close>

record router =
  roShards :: int

definition newRouter :: "int \<Rightarrow> router outcome" where
  "newRouter n = (if n = 0 then Panic ''numShards must be > 0'' else Ok \<lparr>roShards = n\<rparr>)"

definition route :: "router \<Rightarrow> string \<Rightarrow> int" where
  "route r agg = sint (sum64 agg mod word_of_int (roShards r))"

section \<open>Envelopes and results\<close>

text \<open>
  \<open>CommandResult\<close> and \<open>CommandEnvelope\<close>. An envelope's result channel, of capacity one, is
  named by a number. Its context is a live object: what \<open>Err\<close> answers when a worker asks is
  an argument of the step that asks. A \<open>CommandJob\<close> only wraps its envelope.
\<close>

record 't command_result =
  crEvent :: "'t event"
  crErr :: "goerr option"
  crWait :: "'t wait option"

record 't envelope =
  enCmd :: "'t command"
  enChan :: nat
  enWaitHandlers :: bool

abbreviation enAgg :: "'t envelope \<Rightarrow> string" where
  "enAgg e \<equiv> cmdAggregateID (enCmd e)"

section \<open>The shard\<close>

text \<open>
  The channels with their contents and capacities, whether they are closed, and the mailboxes
  of the aggregates a worker runs (a nil mailbox is an empty list). \<open>shPanicked\<close> records a
  send on, or a second close of, a closed channel, which would end the process. A nil
  envelope is \<open>None\<close>.
\<close>

record 't shard =
  shId :: nat
  shCommands :: "'t envelope option list"
  shCommandCap :: nat
  shJobs :: "'t envelope list"
  shJobCap :: nat
  shJobsClosed :: bool
  shStopping :: bool
  shStopClosed :: bool
  shMailboxLimit :: nat
  shMailboxes :: "string \<rightharpoonup> 't envelope list"
  shPanicked :: bool

definition newShard :: "nat \<Rightarrow> nat \<Rightarrow> nat \<Rightarrow> 't shard" where
  "newShard i queueDepth workersPerShard =
     \<lparr>shId = i, shCommands = [], shCommandCap = queueDepth,
      shJobs = [], shJobCap = max workersPerShard queueDepth, shJobsClosed = False,
      shStopping = False, shStopClosed = False,
      shMailboxLimit = max queueDepth workersPerShard, shMailboxes = Map.empty,
      shPanicked = False\<rparr>"

definition closeJobs :: "'t shard \<Rightarrow> 't shard" where
  "closeJobs s = (if shJobsClosed s then s\<lparr>shPanicked := True\<rparr> else s\<lparr>shJobsClosed := True\<rparr>)"

text \<open>Sending on \<open>jobQueue\<close>: blocked while it is full, a panic once it is closed.\<close>

definition dispatchJob :: "'t envelope \<Rightarrow> 't shard \<Rightarrow> 't shard option" where
  "dispatchJob e s =
     (if shJobsClosed s then Some (s\<lparr>shPanicked := True\<rparr>)
      else if length (shJobs s) < shJobCap s then Some (s\<lparr>shJobs := shJobs s @ [e]\<rparr>)
      else None)"

definition signalStop :: "'t shard \<Rightarrow> 't shard" where
  "signalStop s =
     (if shStopClosed s then s
      else (if shStopping s then s\<lparr>shPanicked := True\<rparr> else s\<lparr>shStopping := True\<rparr>)\<lparr>shStopClosed := True\<rparr>)"

text \<open>\<open>Backlog\<close>: the commands waiting in mailboxes.\<close>

definition shBacklog :: "'t shard \<Rightarrow> nat" where
  "shBacklog s = (\<Sum>agg \<in> dom (shMailboxes s). length (the (shMailboxes s agg)))"

text \<open>The critical section of \<open>claim\<close>: whether the caller runs the aggregate, and whether the
  job found the mailbox full.\<close>

definition claimSection :: "string \<Rightarrow> 't envelope \<Rightarrow> 't shard \<Rightarrow> (bool \<times> bool) \<times> 't shard" where
  "claimSection agg job s =
     (case shMailboxes s agg of
        None \<Rightarrow> ((True, False), s\<lparr>shMailboxes := (shMailboxes s)(agg \<mapsto> [])\<rparr>)
      | Some mailbox \<Rightarrow>
          (if shMailboxLimit s \<le> length mailbox then ((False, True), s)
           else ((False, False), s\<lparr>shMailboxes := (shMailboxes s)(agg \<mapsto> mailbox @ [job])\<rparr>)))"

definition nextJob :: "string \<Rightarrow> 't shard \<Rightarrow> 't envelope option \<times> 't shard" where
  "nextJob agg s =
     (case shMailboxes s agg of
        None \<Rightarrow> (None, s\<lparr>shMailboxes := (shMailboxes s)(agg := None)\<rparr>)
      | Some [] \<Rightarrow> (None, s\<lparr>shMailboxes := (shMailboxes s)(agg := None)\<rparr>)
      | Some (job # rest) \<Rightarrow> (Some job, s\<lparr>shMailboxes := (shMailboxes s)(agg \<mapsto> rest)\<rparr>))"

section \<open>The goroutines\<close>

text \<open>
  Where the dispatcher goroutine is: at its \<open>select\<close>, sending an envelope on \<open>jobQueue\<close>,
  answering what is queued after the stop, or returned. Where a worker is: ranging over
  \<open>jobQueue\<close>, holding a job it has yet to claim, executing one, between two of them, or
  returned.
\<close>

datatype 't shard_dispatcher = AtSelect | Handing "'t envelope" | Failing | Returned

datatype 't shard_worker =
    Ranging
  | Picked "'t envelope"
  | Executing string "'t envelope"
  | Between string
  | Exited

text \<open>
  A shard with its goroutines and the result channels of its envelopes. Of the history, the
  result channels of the envelopes accepted by \<open>commandChan\<close>, in order, and the results sent,
  in order.
\<close>

record 't shard_system =
  ssShard :: "'t shard"
  ssDispatcher :: "'t shard_dispatcher"
  ssWorkers :: "'t shard_worker list"
  ssChans :: "nat \<rightharpoonup> 't command_result"
  ssAccepted :: "nat list"
  ssSent :: "(nat \<times> 't command_result) list"

definition startShard :: "nat \<Rightarrow> nat \<Rightarrow> nat \<Rightarrow> 't shard_system" where
  "startShard i queueDepth workersPerShard =
     \<lparr>ssShard = newShard i queueDepth workersPerShard, ssDispatcher = AtSelect,
      ssWorkers = replicate workersPerShard Ranging, ssChans = Map.empty,
      ssAccepted = [], ssSent = []\<rparr>"

text \<open>\<open>sendResult\<close>: a full channel drops the result.\<close>

definition sendResult :: "nat \<Rightarrow> 't command_result \<Rightarrow> 't shard_system \<Rightarrow> 't shard_system" where
  "sendResult ch r s =
     (case ssChans s ch of
        None \<Rightarrow> s\<lparr>ssChans := (ssChans s)(ch \<mapsto> r), ssSent := ssSent s @ [(ch, r)]\<rparr>
      | Some _ \<Rightarrow> s)"

definition errResult :: "'t event \<Rightarrow> sentinel \<Rightarrow> 't command_result" where
  "errResult zero e = \<lparr>crEvent = zero, crErr = Some (Sentinel e), crWait = None\<rparr>"

definition failEnvelope :: "'t event \<Rightarrow> 't envelope option \<Rightarrow> 't shard_system \<Rightarrow> 't shard_system" where
  "failEnvelope zero env s =
     (case env of None \<Rightarrow> s | Some e \<Rightarrow> sendResult (enChan e) (errResult zero ErrShuttingDown) s)"

text \<open>
  \<open>executeJob\<close>, given what \<open>Err\<close> of the envelope's context answers and what the executor's
  \<open>ExecuteAsync\<close> returned.
\<close>

definition executeJob ::
  "'t event \<Rightarrow> goerr option \<Rightarrow> 't answer \<Rightarrow> 't envelope \<Rightarrow> 't shard_system \<Rightarrow> 't shard_system" where
  "executeJob zero ctxNow answer job s =
     (if ctxNow \<noteq> None then sendResult (enChan job) (errResult zero ErrContextCancelled) s
      else case answer of
             (event, wait, err) \<Rightarrow>
               sendResult (enChan job)
                 \<lparr>crEvent = event, crErr = err, crWait = if enWaitHandlers job then wait else None\<rparr> s)"

definition claim ::
  "'t event \<Rightarrow> string \<Rightarrow> 't envelope \<Rightarrow> 't shard_system \<Rightarrow> bool \<times> 't shard_system" where
  "claim zero agg job s =
     (case claimSection agg job (ssShard s) of
        ((mine, isFull), sh) \<Rightarrow>
          (let s' = s\<lparr>ssShard := sh\<rparr>
           in (mine, if isFull then sendResult (enChan job) (errResult zero ErrQueueFull) s' else s')))"

section \<open>Steps\<close>

text \<open>
  The steps: a sender's non-blocking send on \<open>commandChan\<close>, on a result channel it has just
  made, and its receive of the result; the pool's stop signal; the two arms of the
  dispatcher's \<open>select\<close> (\<open>handleDispatch\<close>), its send on \<open>jobQueue\<close> (\<open>dispatchJob\<close>) and one
  turn of \<open>failQueued\<close>; a worker's receive (\<open>workerLoop\<close>), claim, execution and next
  (\<open>serve\<close>). \<open>None\<close> is a step that cannot be taken now.
\<close>

datatype 't shard_action =
    Offer "'t envelope"
  | Receive nat
  | StopSignal
  | DispatchStop
  | DispatchTake
  | DispatchPut
  | FailOne
  | WorkerTake nat
  | WorkerClaim nat
  | WorkerExecute nat "goerr option" "'t answer"
  | WorkerNext nat

definition offer :: "'t envelope \<Rightarrow> 't shard_system \<Rightarrow> 't shard_system option" where
  "offer e s =
     (if length (shCommands (ssShard s)) < shCommandCap (ssShard s) \<and> enChan e \<notin> set (ssAccepted s)
      then Some (s\<lparr>ssShard := (ssShard s)\<lparr>shCommands := shCommands (ssShard s) @ [Some e]\<rparr>,
                   ssAccepted := ssAccepted s @ [enChan e]\<rparr>)
      else None)"

definition dispatcherStep :: "'t event \<Rightarrow> 't shard_action \<Rightarrow> 't shard_system \<Rightarrow> 't shard_system option" where
  "dispatcherStep zero a s =
     (let sh = ssShard s in
      case (a, ssDispatcher s, shCommands sh) of
        (DispatchStop, AtSelect, _) \<Rightarrow>
          (if shStopping sh then Some (s\<lparr>ssDispatcher := Failing\<rparr>) else None)
      | (DispatchTake, AtSelect, None # rest) \<Rightarrow>
          Some (s\<lparr>ssShard := closeJobs (sh\<lparr>shCommands := rest\<rparr>), ssDispatcher := Returned\<rparr>)
      | (DispatchTake, AtSelect, Some e # rest) \<Rightarrow>
          Some (s\<lparr>ssShard := sh\<lparr>shCommands := rest\<rparr>, ssDispatcher := Handing e\<rparr>)
      | (DispatchPut, Handing e, _) \<Rightarrow>
          map_option (\<lambda>sh'. s\<lparr>ssShard := sh', ssDispatcher := AtSelect\<rparr>) (dispatchJob e sh)
      | (FailOne, Failing, []) \<Rightarrow> Some (s\<lparr>ssShard := closeJobs sh, ssDispatcher := Returned\<rparr>)
      | (FailOne, Failing, env # rest) \<Rightarrow>
          Some (failEnvelope zero env (s\<lparr>ssShard := sh\<lparr>shCommands := rest\<rparr>\<rparr>))
      | _ \<Rightarrow> None)"

definition setWorker :: "nat \<Rightarrow> 't shard_worker \<Rightarrow> 't shard_system \<Rightarrow> 't shard_system" where
  "setWorker w st s = s\<lparr>ssWorkers := (ssWorkers s)[w := st]\<rparr>"

definition workerTake :: "nat \<Rightarrow> 't shard_system \<Rightarrow> 't shard_system option" where
  "workerTake w s =
     (case shJobs (ssShard s) of
        job # rest \<Rightarrow> Some (setWorker w (Picked job) (s\<lparr>ssShard := (ssShard s)\<lparr>shJobs := rest\<rparr>\<rparr>))
      | [] \<Rightarrow> if shJobsClosed (ssShard s) then Some (setWorker w Exited s) else None)"

definition workerClaim :: "'t event \<Rightarrow> nat \<Rightarrow> 't envelope \<Rightarrow> 't shard_system \<Rightarrow> 't shard_system" where
  "workerClaim zero w job s =
     (case claim zero (enAgg job) job s of
        (mine, s') \<Rightarrow> setWorker w (if mine then Executing (enAgg job) job else Ranging) s')"

definition serveNext :: "nat \<Rightarrow> string \<Rightarrow> 't shard_system \<Rightarrow> 't shard_system" where
  "serveNext w agg s =
     (case nextJob agg (ssShard s) of
        (Some job, sh) \<Rightarrow> setWorker w (Executing agg job) (s\<lparr>ssShard := sh\<rparr>)
      | (None, sh) \<Rightarrow> setWorker w Ranging (s\<lparr>ssShard := sh\<rparr>))"

definition workerStep ::
  "'t event \<Rightarrow> 't shard_action \<Rightarrow> nat \<Rightarrow> 't shard_system \<Rightarrow> 't shard_system option" where
  "workerStep zero a w s =
     (if \<not> w < length (ssWorkers s) then None
      else case (a, ssWorkers s ! w) of
             (WorkerTake _, Ranging) \<Rightarrow> workerTake w s
           | (WorkerClaim _, Picked job) \<Rightarrow> Some (workerClaim zero w job s)
           | (WorkerExecute _ ctxNow answer, Executing agg job) \<Rightarrow>
               Some (setWorker w (Between agg) (executeJob zero ctxNow answer job s))
           | (WorkerNext _, Between agg) \<Rightarrow> Some (serveNext w agg s)
           | _ \<Rightarrow> None)"

fun shardAct :: "'t event \<Rightarrow> 't shard_action \<Rightarrow> 't shard_system \<Rightarrow> 't shard_system option" where
  "shardAct zero (Offer e) s = offer e s"
| "shardAct zero (Receive ch) s =
     (case ssChans s ch of None \<Rightarrow> None | Some _ \<Rightarrow> Some (s\<lparr>ssChans := (ssChans s)(ch := None)\<rparr>))"
| "shardAct zero StopSignal s = Some (s\<lparr>ssShard := signalStop (ssShard s)\<rparr>)"
| "shardAct zero (WorkerTake w) s = workerStep zero (WorkerTake w) w s"
| "shardAct zero (WorkerClaim w) s = workerStep zero (WorkerClaim w) w s"
| "shardAct zero (WorkerExecute w cerr ans) s = workerStep zero (WorkerExecute w cerr ans) w s"
| "shardAct zero (WorkerNext w) s = workerStep zero (WorkerNext w) w s"
| "shardAct zero a s = dispatcherStep zero a s"

text \<open>The shard of a pool with the given queue depth and number of workers, in any state a run
  of its goroutines and senders reaches.\<close>

inductive shardReachable :: "'t event \<Rightarrow> nat \<Rightarrow> nat \<Rightarrow> 't shard_system \<Rightarrow> bool" for zero depth workers where
  start: "shardReachable zero depth workers (startShard i depth workers)"
| act: "shardReachable zero depth workers s \<Longrightarrow> shardAct zero a s = Some s'
    \<Longrightarrow> shardReachable zero depth workers s'"

fun shardRun :: "'t event \<Rightarrow> 't shard_action list \<Rightarrow> 't shard_system \<Rightarrow> 't shard_system option" where
  "shardRun zero [] s = Some s"
| "shardRun zero (a # as) s = Option.bind (shardAct zero a s) (shardRun zero as)"

lemma shardRun_reachable:
  "shardReachable zero d n s \<Longrightarrow> shardRun zero as s = Some s' \<Longrightarrow> shardReachable zero d n s'"
  by (induction as arbitrary: s) (auto simp: bind_eq_Some_conv intro: shardReachable.act)

end
