(* ===== verification/Shard_Correct.thy ===== *)
theory Shard_Correct
  imports Shard
begin

text \<open>
  What holds in every state of a shard: each accepted command is in exactly one place, or
  answered, once; an aggregate is run by exactly the one worker its mailbox belongs to; no
  channel is misused. Then that the steps of its goroutines cannot go on for ever without
  new commands, nor stop before the shard is done.
\<close>

section \<open>Routing\<close>

lemma route_range:
  assumes "0 < n" "n < 2 ^ 63"
  shows "0 \<le> route \<lparr>roShards = n\<rparr> agg \<and> route \<lparr>roShards = n\<rparr> agg < n"
proof -
  have n: "uint (word_of_int n :: 64 word) = n" using assms by (simp add: uint_word_of_int)
  let ?h = "sum64 agg mod word_of_int n"
  have u: "uint ?h = uint (sum64 agg) mod n" by (simp add: uint_mod n)
  have lt: "uint ?h < n" "0 \<le> uint ?h" using assms(1) by (simp_all add: u)
  have "- (2 ^ 63) \<le> uint ?h" "uint ?h < 2 ^ 63" using lt assms(2) by linarith+
  then have "sint ?h = uint ?h" using signed_take_bit_int_eq_self[of 63 "uint ?h"] by (simp add: sint_uint)
  then show ?thesis using lt by (simp add: route_def)
qed

section \<open>Sums over lists and maps\<close>

lemma sum_list_swap:
  fixes f :: "'a \<Rightarrow> 'b :: comm_monoid_add"
  shows "i < length xs \<Longrightarrow>
    sum_list (map f (xs[i := y])) + f (xs ! i) = sum_list (map f xs) + f y"
  by (induction xs arbitrary: i) (auto simp: nth_Cons less_Suc_eq_0_disj ac_simps split: nat.splits)

definition optM :: "'a option \<Rightarrow> 'a multiset" where
  "optM r = (case r of None \<Rightarrow> {#} | Some x \<Rightarrow> {#x#})"

lemma optM_simps [simp]: "optM None = {#}" "optM (Some x) = {#x#}"
  by (simp_all add: optM_def)

definition gather :: "('a \<Rightarrow> 'b option) \<Rightarrow> 'a list \<Rightarrow> 'b multiset" where
  "gather f xs = sum_list (map (\<lambda>x. optM (f x)) xs)"

lemma gather_simps [simp]:
  "gather f [] = {#}" "gather f (x # xs) = optM (f x) + gather f xs"
  "gather f (xs @ ys) = gather f xs + gather f ys"
  by (simp_all add: gather_def)

lemma gather_update:
  "i < length xs \<Longrightarrow> gather f (xs[i := y]) + optM (f (xs ! i)) = gather f xs + optM (f y)"
  unfolding gather_def by (rule sum_list_swap)

lemma gather_nth: "i < length xs \<Longrightarrow> f (xs ! i) = Some y \<Longrightarrow> y \<in># gather f xs"
  by (induction xs arbitrary: i) (auto simp: nth_Cons less_Suc_eq_0_disj split: nat.splits)

lemma gather_replicate [simp]: "f x = None \<Longrightarrow> gather f (replicate n x) = {#}"
  by (induction n) simp_all

lemma in_gather: "y \<in># gather f xs \<longleftrightarrow> (\<exists>x \<in> set xs. f x = Some y)"
  by (induction xs) (auto simp: optM_def split: option.splits)

text \<open>Everything in the mailboxes.\<close>

definition boxes :: "('k \<rightharpoonup> 'a list) \<Rightarrow> 'a multiset" where
  "boxes mb = (\<Sum>k \<in> dom mb. mset (the (mb k)))"

lemma boxes_insert:
  assumes "finite (dom mb)" "mb k = None"
  shows "boxes (mb(k \<mapsto> xs)) = boxes mb + mset xs"
proof -
  have "boxes (mb(k \<mapsto> xs)) = mset xs + (\<Sum>j \<in> dom mb. mset (the ((mb(k \<mapsto> xs)) j)))"
    unfolding boxes_def using assms by (simp add: domIff)
  also have "(\<Sum>j \<in> dom mb. mset (the ((mb(k \<mapsto> xs)) j))) = boxes mb"
    unfolding boxes_def using assms(2) by (intro sum.cong) auto
  finally show ?thesis by (simp only: add.commute)
qed

lemma boxes_remove:
  assumes "finite (dom mb)" "mb k = Some xs"
  shows "boxes mb = boxes (mb(k := None)) + mset xs"
  using boxes_insert[of "mb(k := None)" k xs] assms by (simp add: map_upd_triv)

lemma boxes_replace:
  assumes "finite (dom mb)" "mb k = Some xs"
  shows "boxes (mb(k \<mapsto> ys)) + mset xs = boxes mb + mset ys"
  using boxes_remove[OF assms] boxes_insert[of "mb(k := None)" k ys] assms(1) by simp

section \<open>The invariant\<close>

fun handOf :: "'t shard_worker \<Rightarrow> 't envelope option" where
  "handOf (Picked e) = Some e"
| "handOf (Executing agg e) = Some e"
| "handOf st = None"

fun runsOf :: "'t shard_worker \<Rightarrow> string option" where
  "runsOf (Executing agg e) = Some agg"
| "runsOf (Between agg) = Some agg"
| "runsOf st = None"

fun handing :: "'t shard_dispatcher \<Rightarrow> 't envelope option" where
  "handing (Handing e) = Some e"
| "handing st = None"

text \<open>The envelopes accepted and not yet answered, wherever they are.\<close>

definition inFlight :: "'t shard_system \<Rightarrow> 't envelope multiset" where
  "inFlight s =
     gather id (shCommands (ssShard s)) + optM (handing (ssDispatcher s)) + mset (shJobs (ssShard s))
     + gather handOf (ssWorkers s) + boxes (shMailboxes (ssShard s))"

abbreviation answered :: "'t shard_system \<Rightarrow> nat list" where
  "answered s \<equiv> map fst (ssSent s)"

definition flowOk :: "'t shard_system \<Rightarrow> bool" where
  "flowOk s \<longleftrightarrow>
     mset (ssAccepted s) = image_mset enChan (inFlight s) + mset (answered s)
     \<and> distinct (ssAccepted s) \<and> dom (ssChans s) \<subseteq> set (answered s)"

definition ownersOk :: "'t shard_system \<Rightarrow> bool" where
  "ownersOk s \<longleftrightarrow>
     finite (dom (shMailboxes (ssShard s)))
     \<and> gather runsOf (ssWorkers s) = mset_set (dom (shMailboxes (ssShard s)))
     \<and> (\<forall>agg box. shMailboxes (ssShard s) agg = Some box \<longrightarrow>
          length box \<le> shMailboxLimit (ssShard s) \<and> (\<forall>e \<in> set box. enAgg e = agg))
     \<and> (\<forall>agg e. Executing agg e \<in> set (ssWorkers s) \<longrightarrow> enAgg e = agg)"

definition gatesOk :: "'t shard_system \<Rightarrow> bool" where
  "gatesOk s \<longleftrightarrow>
     \<not> shPanicked (ssShard s) \<and> shStopClosed (ssShard s) = shStopping (ssShard s)
     \<and> (shJobsClosed (ssShard s) \<longleftrightarrow> ssDispatcher s = Returned)
     \<and> (ssDispatcher s \<in> {Failing, Returned} \<longrightarrow> shStopping (ssShard s))
     \<and> None \<notin> set (shCommands (ssShard s))
     \<and> (Exited \<in> set (ssWorkers s) \<longrightarrow> shJobsClosed (ssShard s) \<and> shJobs (ssShard s) = [])"

definition sizesOk :: "nat \<Rightarrow> nat \<Rightarrow> 't shard_system \<Rightarrow> bool" where
  "sizesOk depth workers s \<longleftrightarrow>
     shCommandCap (ssShard s) = depth \<and> length (shCommands (ssShard s)) \<le> depth
     \<and> shJobCap (ssShard s) = max workers depth \<and> length (shJobs (ssShard s)) \<le> max workers depth
     \<and> shMailboxLimit (ssShard s) = max depth workers \<and> length (ssWorkers s) = workers"

definition shardInv :: "nat \<Rightarrow> nat \<Rightarrow> 't shard_system \<Rightarrow> bool" where
  "shardInv depth workers s \<longleftrightarrow> flowOk s \<and> ownersOk s \<and> gatesOk s \<and> sizesOk depth workers s"

lemma shardInv_start: "shardInv depth workers (startShard i depth workers)"
  by (auto simp: shardInv_def flowOk_def ownersOk_def gatesOk_def sizesOk_def startShard_def
      newShard_def inFlight_def boxes_def)

section \<open>Answers\<close>

text \<open>A command in flight has an empty result channel, so its answer is never dropped.\<close>

lemma flowOk_fresh:
  assumes "flowOk s" "e \<in># inFlight s"
  shows "ssChans s (enChan e) = None"
proof -
  have acc: "mset (ssAccepted s) = image_mset enChan (inFlight s) + mset (answered s)"
    and dist: "distinct (ssAccepted s)" and sub: "dom (ssChans s) \<subseteq> set (answered s)"
    using assms(1) by (simp_all add: flowOk_def)
  have "enChan e \<notin> set (answered s)"
  proof
    assume "enChan e \<in> set (answered s)"
    then have "enChan e \<in># mset (answered s)" by (simp only: set_mset_mset)
    moreover have "enChan e \<in># image_mset enChan (inFlight s)" using assms(2) by auto
    ultimately have "0 < count (image_mset enChan (inFlight s)) (enChan e)"
      "0 < count (mset (answered s)) (enChan e)" by (simp_all only: count_greater_zero_iff)
    then have "1 < count (mset (ssAccepted s)) (enChan e)" unfolding acc by (simp only: count_union)
    moreover have "count (mset (ssAccepted s)) (enChan e) \<le> 1"
      using dist by (simp only: distinct_count_atmost_1 split: if_splits) simp
    ultimately show False by simp
  qed
  then show ?thesis using sub by auto
qed

lemma sendResult_keeps [simp]:
  "ssShard (sendResult ch r s) = ssShard s" "ssDispatcher (sendResult ch r s) = ssDispatcher s"
  "ssWorkers (sendResult ch r s) = ssWorkers s" "ssAccepted (sendResult ch r s) = ssAccepted s"
  by (simp_all add: sendResult_def split: option.splits)

lemma inFlight_sendResult [simp]: "inFlight (sendResult ch r s) = inFlight s"
  by (simp add: inFlight_def)

lemma setWorker_keeps [simp]:
  "ssShard (setWorker w st s) = ssShard s" "ssDispatcher (setWorker w st s) = ssDispatcher s"
  "ssWorkers (setWorker w st s) = (ssWorkers s)[w := st]" "ssChans (setWorker w st s) = ssChans s"
  "ssAccepted (setWorker w st s) = ssAccepted s" "ssSent (setWorker w st s) = ssSent s"
  by (simp_all add: setWorker_def)

text \<open>Commands change places, or one of them is answered.\<close>

lemma flowOk_move:
  assumes "flowOk s" "inFlight s' = inFlight s" "ssAccepted s' = ssAccepted s"
    and "ssSent s' = ssSent s" "ssChans s' = ssChans s"
  shows "flowOk s'"
  using assms by (simp add: flowOk_def)

lemma flowOk_answer:
  assumes ok: "flowOk s" and out: "inFlight s = add_mset e (inFlight s')"
    and same: "ssAccepted s' = ssAccepted s" "ssSent s' = ssSent s" "ssChans s' = ssChans s"
  shows "flowOk (sendResult (enChan e) r s')"
proof -
  have free: "ssChans s' (enChan e) = None" using flowOk_fresh[OF ok, of e] out same by simp
  have "ssSent (sendResult (enChan e) r s') = ssSent s @ [(enChan e, r)]"
    "ssChans (sendResult (enChan e) r s') = (ssChans s)(enChan e \<mapsto> r)"
    using free same by (simp_all add: sendResult_def)
  then show ?thesis using ok out same unfolding flowOk_def by auto
qed

lemma shardInvI:
  "flowOk s \<Longrightarrow> ownersOk s \<Longrightarrow> gatesOk s \<Longrightarrow> sizesOk d n s \<Longrightarrow> shardInv d n s"
  by (simp add: shardInv_def)

lemma shardInvD:
  assumes "shardInv d n s"
  shows "flowOk s" "ownersOk s" "gatesOk s" "sizesOk d n s"
  using assms by (simp_all add: shardInv_def)

lemma ownersOk_frame:
  assumes "ownersOk s" "ssWorkers s' = ssWorkers s" "shMailboxes (ssShard s') = shMailboxes (ssShard s)"
    and "shMailboxLimit (ssShard s') = shMailboxLimit (ssShard s)"
  shows "ownersOk s'"
  using assms by (simp add: ownersOk_def)

text \<open>
  A worker's step: its state changes, and with it the envelope it holds and the aggregate it
  runs.
\<close>

lemma ownersOk_simpI:
  assumes "finite (dom (shMailboxes (ssShard s)))"
    and "gather runsOf (ssWorkers s) = mset_set (dom (shMailboxes (ssShard s)))"
    and "\<And>agg box. shMailboxes (ssShard s) agg = Some box \<Longrightarrow>
          length box \<le> shMailboxLimit (ssShard s) \<and> (\<forall>e \<in> set box. enAgg e = agg)"
    and "\<And>agg e. Executing agg e \<in> set (ssWorkers s) \<Longrightarrow> enAgg e = agg"
  shows "ownersOk s"
  using assms by (simp add: ownersOk_def)

lemma Executing_update:
  "Executing agg e \<in> set (ws[w := st]) \<Longrightarrow> Executing agg e \<in> set ws \<or> st = Executing agg e"
  using set_update_subset_insert[of ws w st] by auto

lemma gather_same:
  assumes "w < length ws" "f (ws ! w) = f st"
  shows "gather f (ws[w := st]) = gather f ws"
  using gather_update[OF assms(1), of f st] assms(2) by simp

section \<open>Every step keeps it\<close>

lemma shardInv_offer:
  assumes inv: "shardInv d n s" and r: "offer e s = Some s'"
  shows "shardInv d n s'"
proof (rule shardInvI)
  have s': "s' = s\<lparr>ssShard := (ssShard s)\<lparr>shCommands := shCommands (ssShard s) @ [Some e]\<rparr>,
      ssAccepted := ssAccepted s @ [enChan e]\<rparr>"
    and room: "length (shCommands (ssShard s)) < shCommandCap (ssShard s)"
    and new: "enChan e \<notin> set (ssAccepted s)"
    using r by (auto simp: offer_def split: if_splits)
  show "flowOk s'" using shardInvD(1)[OF inv] new by (simp add: flowOk_def s' inFlight_def)
  show "ownersOk s'" by (rule ownersOk_frame[OF shardInvD(2)[OF inv]]) (simp_all add: s')
  show "gatesOk s'" using shardInvD(3)[OF inv] unfolding gatesOk_def s' by auto
  show "sizesOk d n s'" using shardInvD(4)[OF inv] room by (simp add: sizesOk_def s')
qed

lemma shardInv_receive:
  assumes inv: "shardInv d n s"
  shows "shardInv d n (s\<lparr>ssChans := (ssChans s)(ch := None)\<rparr>)" (is "shardInv d n ?s")
proof (rule shardInvI)
  have "inFlight ?s = inFlight s" by (simp add: inFlight_def)
  then show "flowOk ?s" using shardInvD(1)[OF inv] by (auto simp: flowOk_def)
  show "ownersOk ?s" by (rule ownersOk_frame[OF shardInvD(2)[OF inv]]) simp_all
  show "gatesOk ?s" using shardInvD(3)[OF inv] by (auto simp: gatesOk_def)
  show "sizesOk d n ?s" using shardInvD(4)[OF inv] by (simp add: sizesOk_def)
qed

lemma shardInv_stop:
  assumes inv: "shardInv d n s"
  shows "shardInv d n (s\<lparr>ssShard := signalStop (ssShard s)\<rparr>)" (is "shardInv d n ?s")
proof (rule shardInvI)
  show "flowOk ?s"
    by (rule flowOk_move[OF shardInvD(1)[OF inv]]) (simp_all add: inFlight_def signalStop_def)
  show "ownersOk ?s" by (rule ownersOk_frame[OF shardInvD(2)[OF inv]]) (simp_all add: signalStop_def)
  show "gatesOk ?s" using shardInvD(3)[OF inv] by (auto simp: gatesOk_def signalStop_def)
  show "sizesOk d n ?s" using shardInvD(4)[OF inv] by (simp add: sizesOk_def signalStop_def)
qed

lemma shardInv_dispatchTake:
  assumes inv: "shardInv d n s" and here: "ssDispatcher s = AtSelect"
    and q: "shCommands (ssShard s) = Some e # rest"
  shows "shardInv d n (s\<lparr>ssShard := (ssShard s)\<lparr>shCommands := rest\<rparr>, ssDispatcher := Handing e\<rparr>)"
    (is "shardInv d n ?s")
proof (rule shardInvI)
  show "flowOk ?s"
    by (rule flowOk_move[OF shardInvD(1)[OF inv]]) (simp_all add: inFlight_def here q)
  show "ownersOk ?s" by (rule ownersOk_frame[OF shardInvD(2)[OF inv]]) simp_all
  show "gatesOk ?s" using shardInvD(3)[OF inv] here q by (auto simp: gatesOk_def)
  show "sizesOk d n ?s" using shardInvD(4)[OF inv] q by (simp add: sizesOk_def)
qed

lemma shardInv_dispatchPut:
  assumes inv: "shardInv d n s" and here: "ssDispatcher s = Handing e"
    and r: "dispatchJob e (ssShard s) = Some sh"
  shows "shardInv d n (s\<lparr>ssShard := sh, ssDispatcher := AtSelect\<rparr>)" (is "shardInv d n ?s")
proof (rule shardInvI)
  have sh: "sh = (ssShard s)\<lparr>shJobs := shJobs (ssShard s) @ [e]\<rparr>"
    and room: "length (shJobs (ssShard s)) < shJobCap (ssShard s)"
    using r shardInvD(3)[OF inv] here by (auto simp: dispatchJob_def gatesOk_def split: if_splits)
  show "flowOk ?s"
    by (rule flowOk_move[OF shardInvD(1)[OF inv]]) (simp_all add: inFlight_def here sh)
  show "ownersOk ?s" by (rule ownersOk_frame[OF shardInvD(2)[OF inv]]) (simp_all add: sh)
  show "gatesOk ?s" using shardInvD(3)[OF inv] here by (auto simp: gatesOk_def sh)
  show "sizesOk d n ?s" using shardInvD(4)[OF inv] room by (simp add: sizesOk_def sh)
qed

lemma shardInv_failOne:
  assumes inv: "shardInv d n s" and here: "ssDispatcher s = Failing"
    and q: "shCommands (ssShard s) = Some e # rest"
  shows "shardInv d n (sendResult (enChan e) r (s\<lparr>ssShard := (ssShard s)\<lparr>shCommands := rest\<rparr>\<rparr>))"
    (is "shardInv d n ?s")
proof (rule shardInvI)
  show "flowOk ?s"
    by (rule flowOk_answer[OF shardInvD(1)[OF inv]]) (simp_all add: inFlight_def here q)
  show "ownersOk ?s" by (rule ownersOk_frame[OF shardInvD(2)[OF inv]]) simp_all
  show "gatesOk ?s" using shardInvD(3)[OF inv] here q by (auto simp: gatesOk_def)
  show "sizesOk d n ?s" using shardInvD(4)[OF inv] q by (simp add: sizesOk_def)
qed

lemma shardInv_failEnd:
  assumes inv: "shardInv d n s" and here: "ssDispatcher s = Failing" and q: "shCommands (ssShard s) = []"
  shows "shardInv d n (s\<lparr>ssShard := closeJobs (ssShard s), ssDispatcher := Returned\<rparr>)"
    (is "shardInv d n ?s")
proof (rule shardInvI)
  show "flowOk ?s"
    by (rule flowOk_move[OF shardInvD(1)[OF inv]]) (simp_all add: inFlight_def here closeJobs_def)
  show "ownersOk ?s" by (rule ownersOk_frame[OF shardInvD(2)[OF inv]]) (simp_all add: closeJobs_def)
  show "gatesOk ?s" using shardInvD(3)[OF inv] here by (auto simp: gatesOk_def closeJobs_def)
  show "sizesOk d n ?s" using shardInvD(4)[OF inv] by (simp add: sizesOk_def closeJobs_def)
qed

text \<open>A worker that changes only what it holds.\<close>

lemma ownersOk_worker:
  assumes own: "ownersOk s" and w: "w < length (ssWorkers s)"
    and ws: "ssWorkers s' = (ssWorkers s)[w := st]" and runs: "runsOf st = runsOf (ssWorkers s ! w)"
    and mb: "shMailboxes (ssShard s') = shMailboxes (ssShard s)"
      "shMailboxLimit (ssShard s') = shMailboxLimit (ssShard s)"
    and ex: "\<And>agg e. st = Executing agg e \<Longrightarrow> enAgg e = agg"
  shows "ownersOk s'"
  using own gather_same[OF w, of runsOf st] runs mb ex Executing_update[of _ _ "ssWorkers s" w st]
  unfolding ownersOk_def ws by metis

lemma gatesOk_worker:
  assumes g: "gatesOk s" and ws: "ssWorkers s' = (ssWorkers s)[w := st]" and st: "st \<noteq> Exited"
    and same: "ssDispatcher s' = ssDispatcher s" "shPanicked (ssShard s') = shPanicked (ssShard s)"
      "shStopClosed (ssShard s') = shStopClosed (ssShard s)" "shStopping (ssShard s') = shStopping (ssShard s)"
      "shJobsClosed (ssShard s') = shJobsClosed (ssShard s)" "shCommands (ssShard s') = shCommands (ssShard s)"
      "shJobs (ssShard s) = [] \<Longrightarrow> shJobs (ssShard s') = []"
  shows "gatesOk s'"
proof -
  have "Exited \<in> set (ssWorkers s') \<Longrightarrow> Exited \<in> set (ssWorkers s)"
    using ws st set_update_subset_insert[of "ssWorkers s" w st] by auto
  then show ?thesis using g same by (auto simp: gatesOk_def)
qed

lemma sizesOk_worker:
  assumes "sizesOk d n s" "ssWorkers s' = (ssWorkers s)[w := st]"
    and "shCommandCap (ssShard s') = shCommandCap (ssShard s)" "shJobCap (ssShard s') = shJobCap (ssShard s)"
      "shMailboxLimit (ssShard s') = shMailboxLimit (ssShard s)"
      "shCommands (ssShard s') = shCommands (ssShard s)"
      "length (shJobs (ssShard s')) \<le> length (shJobs (ssShard s))"
  shows "sizesOk d n s'"
  using assms by (simp add: sizesOk_def)

lemma inFlight_worker:
  assumes w: "w < length (ssWorkers s)" and ws: "ssWorkers s' = (ssWorkers s)[w := st]"
    and same: "ssDispatcher s' = ssDispatcher s" "shCommands (ssShard s') = shCommands (ssShard s)"
  shows "inFlight s' + optM (handOf (ssWorkers s ! w)) + mset (shJobs (ssShard s)) + boxes (shMailboxes (ssShard s))
    = inFlight s + optM (handOf st) + mset (shJobs (ssShard s')) + boxes (shMailboxes (ssShard s'))"
  using gather_update[OF w, of handOf st] unfolding inFlight_def ws same
  by (simp add: ac_simps)

lemma shardInv_take:
  assumes inv: "shardInv d n s" and w: "w < length (ssWorkers s)" "ssWorkers s ! w = Ranging"
    and q: "shJobs (ssShard s) = job # rest"
  shows "shardInv d n (setWorker w (Picked job) (s\<lparr>ssShard := (ssShard s)\<lparr>shJobs := rest\<rparr>\<rparr>))"
    (is "shardInv d n ?s")
proof (rule shardInvI)
  have "inFlight ?s = inFlight s"
    using inFlight_worker[OF w(1), of ?s "Picked job"] w q by simp
  then show "flowOk ?s" by (rule flowOk_move[OF shardInvD(1)[OF inv]]) simp_all
  show "ownersOk ?s" by (rule ownersOk_worker[where st = "Picked job", OF shardInvD(2)[OF inv] w(1)]) (simp_all add: w)
  show "gatesOk ?s" by (rule gatesOk_worker[where st = "Picked job", OF shardInvD(3)[OF inv]]) (simp_all add: q)
  show "sizesOk d n ?s" by (rule sizesOk_worker[where st = "Picked job", OF shardInvD(4)[OF inv]]) (simp_all add: q)
qed

lemma shardInv_exit:
  assumes inv: "shardInv d n s" and w: "w < length (ssWorkers s)" "ssWorkers s ! w = Ranging"
    and q: "shJobs (ssShard s) = []" "shJobsClosed (ssShard s)"
  shows "shardInv d n (setWorker w Exited s)" (is "shardInv d n ?s")
proof (rule shardInvI)
  have "inFlight ?s = inFlight s" using inFlight_worker[OF w(1), of ?s Exited] w q by simp
  then show "flowOk ?s" by (rule flowOk_move[OF shardInvD(1)[OF inv]]) simp_all
  show "ownersOk ?s" by (rule ownersOk_worker[where st = "Exited", OF shardInvD(2)[OF inv] w(1)]) (simp_all add: w)
  show "gatesOk ?s" using shardInvD(3)[OF inv] q by (auto simp: gatesOk_def)
  show "sizesOk d n ?s" by (rule sizesOk_worker[where st = "Exited", OF shardInvD(4)[OF inv]]) simp_all
qed

lemma shardInv_execute:
  assumes inv: "shardInv d n s" and w: "w < length (ssWorkers s)" "ssWorkers s ! w = Executing agg job"
  shows "shardInv d n (setWorker w (Between agg) (sendResult (enChan job) r s))" (is "shardInv d n ?s")
proof (rule shardInvI)
  have swap: "?s = sendResult (enChan job) r (setWorker w (Between agg) s)"
    by (simp add: sendResult_def setWorker_def split: option.splits)
  have "inFlight s = add_mset job (inFlight (setWorker w (Between agg) s))"
    using inFlight_worker[OF w(1), of "setWorker w (Between agg) s" "Between agg"] w by simp
  then show "flowOk ?s" unfolding swap by (rule flowOk_answer[OF shardInvD(1)[OF inv]]) simp_all
  show "ownersOk ?s" by (rule ownersOk_worker[where st = "Between agg", OF shardInvD(2)[OF inv] w(1)]) (simp_all add: w)
  show "gatesOk ?s" by (rule gatesOk_worker[where st = "Between agg", OF shardInvD(3)[OF inv]]) simp_all
  show "sizesOk d n ?s" by (rule sizesOk_worker[where st = "Between agg", OF shardInvD(4)[OF inv]]) simp_all
qed

text \<open>The steps that change a mailbox.\<close>

abbreviation withBox :: "string \<Rightarrow> 't envelope list option \<Rightarrow> 't shard_system \<Rightarrow> 't shard_system" where
  "withBox agg r s \<equiv> s\<lparr>ssShard := (ssShard s)\<lparr>shMailboxes := (shMailboxes (ssShard s))(agg := r)\<rparr>\<rparr>"

lemma ownersOk_box:
  assumes own: "ownersOk s" and w: "w < length (ssWorkers s)"
    and runs: "optM (runsOf st) + mset_set (dom mb) = optM (runsOf (ssWorkers s ! w)) + mset_set (dom mb')"
    and mb: "mb = shMailboxes (ssShard s)" "mb' = mb(agg := r)"
    and box: "\<And>xs. r = Some xs \<Longrightarrow> length xs \<le> shMailboxLimit (ssShard s) \<and> (\<forall>e \<in> set xs. enAgg e = agg)"
    and ex: "\<And>a e. st = Executing a e \<Longrightarrow> enAgg e = a"
  shows "ownersOk (setWorker w st (withBox agg r s))"
proof (rule ownersOk_simpI)
  have g: "gather runsOf (ssWorkers s) = mset_set (dom mb)" using own mb by (simp add: ownersOk_def)
  have "gather runsOf ((ssWorkers s)[w := st]) + optM (runsOf (ssWorkers s ! w))
      = optM (runsOf st) + mset_set (dom mb)"
    using gather_update[OF w, of runsOf st] g by (simp add: ac_simps)
  then have "gather runsOf ((ssWorkers s)[w := st]) = mset_set (dom mb')"
    using runs by (simp add: ac_simps)
  then show "gather runsOf (ssWorkers (setWorker w st (withBox agg r s)))
      = mset_set (dom (shMailboxes (ssShard (setWorker w st (withBox agg r s)))))"
    using mb by simp
  show "finite (dom (shMailboxes (ssShard (setWorker w st (withBox agg r s)))))"
    using own by (simp add: ownersOk_def)
  show "enAgg e = a" if "Executing a e \<in> set (ssWorkers (setWorker w st (withBox agg r s)))" for a e
    using that own ex Executing_update[of a e "ssWorkers s" w st] by (auto simp: ownersOk_def)
  show "length xs \<le> shMailboxLimit (ssShard (setWorker w st (withBox agg r s))) \<and> (\<forall>e \<in> set xs. enAgg e = a)"
    if "shMailboxes (ssShard (setWorker w st (withBox agg r s))) a = Some xs" for a xs
    using that own box by (auto simp: ownersOk_def split: if_splits)
qed

lemma shardInv_box:
  assumes inv: "shardInv d n s" and w: "w < length (ssWorkers s)" and st: "st \<noteq> Exited"
    and flow: "inFlight (setWorker w st (withBox agg r s)) = inFlight s"
    and own: "ownersOk (setWorker w st (withBox agg r s))"
  shows "shardInv d n (setWorker w st (withBox agg r s))" (is "shardInv d n ?s")
proof (rule shardInvI)
  show "flowOk ?s" by (rule flowOk_move[OF shardInvD(1)[OF inv] flow]) simp_all
  show "ownersOk ?s" by (rule own)
  show "gatesOk ?s" by (rule gatesOk_worker[where st = st, OF shardInvD(3)[OF inv]]) (simp_all add: st)
  show "sizesOk d n ?s" by (rule sizesOk_worker[where st = st, OF shardInvD(4)[OF inv]]) simp_all
qed

lemma ownersOkD:
  assumes "ownersOk s"
  shows "finite (dom (shMailboxes (ssShard s)))"
    and "gather runsOf (ssWorkers s) = mset_set (dom (shMailboxes (ssShard s)))"
    and "shMailboxes (ssShard s) agg = Some box \<Longrightarrow> length box \<le> shMailboxLimit (ssShard s)"
    and "shMailboxes (ssShard s) agg = Some box \<Longrightarrow> e \<in> set box \<Longrightarrow> enAgg e = agg"
  using assms by (auto simp: ownersOk_def)

lemma shardInv_claimed:
  assumes inv: "shardInv d n s" and w: "w < length (ssWorkers s)" "ssWorkers s ! w = Picked job"
    and mb: "shMailboxes (ssShard s) (enAgg job) = None"
  shows "shardInv d n (setWorker w (Executing (enAgg job) job) (withBox (enAgg job) (Some []) s))"
    (is "shardInv d n ?s")
proof (rule shardInv_box[OF inv w(1)])
  note fin = ownersOkD(1)[OF shardInvD(2)[OF inv]]
  show "inFlight ?s = inFlight s"
    using inFlight_worker[OF w(1), of ?s "Executing (enAgg job) job"] w boxes_insert[OF fin mb, of "[]"]
    by simp
  have "mset_set (dom ((shMailboxes (ssShard s))(enAgg job \<mapsto> [])))
      = add_mset (enAgg job) (mset_set (dom (shMailboxes (ssShard s))))"
    using fin mb by (simp add: domIff)
  then show "ownersOk ?s"
    by (intro ownersOk_box[OF shardInvD(2)[OF inv] w(1) _ refl refl]) (simp_all add: w)
qed simp

lemma shardInv_joined:
  assumes inv: "shardInv d n s" and w: "w < length (ssWorkers s)" "ssWorkers s ! w = Picked job"
    and mb: "shMailboxes (ssShard s) (enAgg job) = Some box" "length box < shMailboxLimit (ssShard s)"
  shows "shardInv d n (setWorker w Ranging (withBox (enAgg job) (Some (box @ [job])) s))"
    (is "shardInv d n ?s")
proof (rule shardInv_box[OF inv w(1)])
  note own = shardInvD(2)[OF inv]
  have "boxes ((shMailboxes (ssShard s))(enAgg job \<mapsto> box @ [job])) = add_mset job (boxes (shMailboxes (ssShard s)))"
    using boxes_replace[OF ownersOkD(1)[OF own] mb(1), of "box @ [job]"] by simp
  then show "inFlight ?s = inFlight s"
    using inFlight_worker[OF w(1), of ?s Ranging] w by simp
  have "dom ((shMailboxes (ssShard s))(enAgg job \<mapsto> box @ [job])) = dom (shMailboxes (ssShard s))"
    using mb(1) by auto
  then show "ownersOk ?s"
    using mb ownersOkD(4)[OF own mb(1)]
    by (intro ownersOk_box[OF own w(1) _ refl refl]) (auto simp: w)
qed simp

lemma shardInv_refused:
  assumes inv: "shardInv d n s" and w: "w < length (ssWorkers s)" "ssWorkers s ! w = Picked job"
  shows "shardInv d n (setWorker w Ranging (sendResult (enChan job) r s))" (is "shardInv d n ?s")
proof (rule shardInvI)
  have swap: "?s = sendResult (enChan job) r (setWorker w Ranging s)"
    by (simp add: sendResult_def setWorker_def split: option.splits)
  have "inFlight s = add_mset job (inFlight (setWorker w Ranging s))"
    using inFlight_worker[OF w(1), of "setWorker w Ranging s" Ranging] w by simp
  then show "flowOk ?s" unfolding swap by (rule flowOk_answer[OF shardInvD(1)[OF inv]]) simp_all
  show "ownersOk ?s" by (rule ownersOk_worker[where st = Ranging, OF shardInvD(2)[OF inv] w(1)]) (simp_all add: w)
  show "gatesOk ?s" by (rule gatesOk_worker[where st = Ranging, OF shardInvD(3)[OF inv]]) simp_all
  show "sizesOk d n ?s" by (rule sizesOk_worker[where st = Ranging, OF shardInvD(4)[OF inv]]) simp_all
qed

lemma running_box:
  assumes own: "ownersOk s" and w: "w < length (ssWorkers s)" "runsOf (ssWorkers s ! w) = Some agg"
  shows "\<exists>box. shMailboxes (ssShard s) agg = Some box"
  using gather_nth[of w "ssWorkers s" runsOf, OF w] ownersOkD(1,2)[OF own] by auto

lemma shardInv_popped:
  assumes inv: "shardInv d n s" and w: "w < length (ssWorkers s)" "ssWorkers s ! w = Between agg"
    and mb: "shMailboxes (ssShard s) agg = Some (job # rest)"
  shows "shardInv d n (setWorker w (Executing agg job) (withBox agg (Some rest) s))"
    (is "shardInv d n ?s")
proof (rule shardInv_box[OF inv w(1)])
  note own = shardInvD(2)[OF inv]
  have "boxes (shMailboxes (ssShard s)) = add_mset job (boxes ((shMailboxes (ssShard s))(agg \<mapsto> rest)))"
    using boxes_replace[OF ownersOkD(1)[OF own] mb, of rest] by (simp add: ac_simps)
  then show "inFlight ?s = inFlight s"
    using inFlight_worker[OF w(1), of ?s "Executing agg job"] w by simp
  have "dom ((shMailboxes (ssShard s))(agg \<mapsto> rest)) = dom (shMailboxes (ssShard s))"
    using mb by auto
  then show "ownersOk ?s"
    using ownersOkD(3,4)[OF own mb]
    by (intro ownersOk_box[OF own w(1) _ refl refl]) (auto simp: w)
qed simp

lemma shardInv_freed:
  assumes inv: "shardInv d n s" and w: "w < length (ssWorkers s)" "ssWorkers s ! w = Between agg"
    and mb: "shMailboxes (ssShard s) agg = Some []"
  shows "shardInv d n (setWorker w Ranging (withBox agg None s))" (is "shardInv d n ?s")
proof (rule shardInv_box[OF inv w(1)])
  note own = shardInvD(2)[OF inv]
  note fin = ownersOkD(1)[OF own]
  have "boxes (shMailboxes (ssShard s)) = boxes ((shMailboxes (ssShard s))(agg := None))"
    using boxes_remove[OF fin mb] by simp
  then show "inFlight ?s = inFlight s"
    using inFlight_worker[OF w(1), of ?s Ranging] w by simp
  have "mset_set (dom (shMailboxes (ssShard s)))
      = add_mset agg (mset_set (dom ((shMailboxes (ssShard s))(agg := None))))"
    using fin mb by (simp add: mset_set.remove[of _ agg] domI)
  then show "ownersOk ?s"
    by (intro ownersOk_box[OF own w(1) _ refl refl]) (simp_all add: w)
qed simp

lemma shardInv_workerClaim:
  assumes inv: "shardInv d n s" and w: "w < length (ssWorkers s)" "ssWorkers s ! w = Picked job"
  shows "shardInv d n (workerClaim zero w job s)"
proof (cases "shMailboxes (ssShard s) (enAgg job)")
  case None
  then show ?thesis
    using shardInv_claimed[OF inv w] by (simp add: workerClaim_def claim_def claimSection_def)
next
  case (Some box)
  then show ?thesis
    using shardInv_joined[OF inv w Some] shardInv_refused[OF inv w]
    by (simp add: workerClaim_def claim_def claimSection_def not_le)
qed

lemma shardInv_serveNext:
  assumes inv: "shardInv d n s" and w: "w < length (ssWorkers s)" "ssWorkers s ! w = Between agg"
  shows "shardInv d n (serveNext w agg s)"
proof -
  obtain box where box: "shMailboxes (ssShard s) agg = Some box"
    using running_box[OF shardInvD(2)[OF inv] w(1), of agg] w(2) by auto
  show ?thesis
  proof (cases box)
    case Nil
    then show ?thesis using shardInv_freed[OF inv w] box by (simp add: serveNext_def nextJob_def)
  next
    case (Cons job rest)
    then show ?thesis using shardInv_popped[OF inv w] box by (simp add: serveNext_def nextJob_def)
  qed
qed

lemma executeJob_sends: "\<exists>r. executeJob zero cerr ans job s = sendResult (enChan job) r s"
  by (cases ans) (auto simp: executeJob_def)

lemma shardInv_workerStep:
  assumes inv: "shardInv d n s" and r: "workerStep zero a w s = Some s'"
  shows "shardInv d n s'"
proof -
  have w: "w < length (ssWorkers s)" using r by (auto simp: workerStep_def split: if_splits)
  show ?thesis
  proof (cases "ssWorkers s ! w")
    case Ranging
    then have "workerTake w s = Some s'" using r w by (auto simp: workerStep_def split: shard_action.splits)
    then show ?thesis
      using shardInv_take[OF inv w Ranging] shardInv_exit[OF inv w Ranging]
      by (auto simp: workerTake_def split: list.splits if_splits)
  next
    case (Picked job)
    then show ?thesis
      using r w shardInv_workerClaim[OF inv w Picked] by (auto simp: workerStep_def split: shard_action.splits)
  next
    case (Executing agg job)
    then obtain cerr ans where s': "s' = setWorker w (Between agg) (executeJob zero cerr ans job s)"
      using r w by (auto simp: workerStep_def split: shard_action.splits)
    then show ?thesis
      using shardInv_execute[OF inv w Executing] executeJob_sends[of zero cerr ans job s] by auto
  next
    case (Between agg)
    then show ?thesis
      using r w shardInv_serveNext[OF inv w Between] by (auto simp: workerStep_def split: shard_action.splits)
  next
    case Exited
    then show ?thesis using r w by (auto simp: workerStep_def split: shard_action.splits)
  qed
qed

lemma shardInv_dispatchStop:
  assumes inv: "shardInv d n s" and here: "ssDispatcher s = AtSelect" "shStopping (ssShard s)"
  shows "shardInv d n (s\<lparr>ssDispatcher := Failing\<rparr>)" (is "shardInv d n ?s")
proof (rule shardInvI)
  show "flowOk ?s" by (rule flowOk_move[OF shardInvD(1)[OF inv]]) (simp_all add: inFlight_def here)
  show "ownersOk ?s" by (rule ownersOk_frame[OF shardInvD(2)[OF inv]]) simp_all
  show "gatesOk ?s" using shardInvD(3)[OF inv] here by (auto simp: gatesOk_def)
  show "sizesOk d n ?s" using shardInvD(4)[OF inv] by (simp add: sizesOk_def)
qed

lemma shardInv_dispatcherStep:
  assumes inv: "shardInv d n s" and r: "dispatcherStep zero a s = Some s'"
  shows "shardInv d n s'"
proof -
  have some: "\<exists>e. env = Some e" if "shCommands (ssShard s) = env # rest" for env rest
    using shardInvD(3)[OF inv] that by (cases env) (auto simp: gatesOk_def)
  show ?thesis
  proof (cases "ssDispatcher s")
    case AtSelect
    then show ?thesis
      using r some shardInv_dispatchStop[OF inv AtSelect] shardInv_dispatchTake[OF inv AtSelect]
      by (fastforce simp: dispatcherStep_def Let_def split: shard_action.splits list.splits option.splits if_splits)
  next
    case (Handing e)
    then show ?thesis
      using r shardInv_dispatchPut[OF inv Handing]
      by (auto simp: dispatcherStep_def Let_def split: shard_action.splits)
  next
    case Failing
    then show ?thesis
      using r some shardInv_failOne[OF inv Failing] shardInv_failEnd[OF inv Failing]
      by (fastforce simp: dispatcherStep_def Let_def failEnvelope_def split: shard_action.splits list.splits)
  next
    case Returned
    then show ?thesis using r by (auto simp: dispatcherStep_def Let_def split: shard_action.splits)
  qed
qed

lemma shardInv_act: "shardInv d n s \<Longrightarrow> shardAct zero a s = Some s' \<Longrightarrow> shardInv d n s'"
  by (cases a)
    (auto intro: shardInv_offer shardInv_receive shardInv_stop shardInv_workerStep shardInv_dispatcherStep
      split: option.splits)

lemma shardReachable_inv: "shardReachable zero d n s \<Longrightarrow> shardInv d n s"
  by (induction rule: shardReachable.induct) (auto intro: shardInv_start shardInv_act)

section \<open>The shard finishes\<close>

text \<open>The steps of the shard's own goroutines.\<close>

fun internal :: "'t shard_action \<Rightarrow> bool" where
  "internal (Offer e) = False"
| "internal (Receive ch) = False"
| "internal StopSignal = False"
| "internal a = True"

text \<open>What is left to do: a bound on the number of those steps while no command arrives.\<close>

fun dispatcherWork :: "'t shard_dispatcher \<Rightarrow> nat" where
  "dispatcherWork AtSelect = 2"
| "dispatcherWork (Handing e) = 7"
| "dispatcherWork Failing = 1"
| "dispatcherWork Returned = 0"

fun workerWork :: "'t shard_worker \<Rightarrow> nat" where
  "workerWork Ranging = 1"
| "workerWork (Picked e) = 4"
| "workerWork (Executing agg e) = 3"
| "workerWork (Between agg) = 2"
| "workerWork Exited = 0"

definition work :: "'t shard_system \<Rightarrow> nat" where
  "work s =
     6 * length (shCommands (ssShard s)) + dispatcherWork (ssDispatcher s) + 4 * length (shJobs (ssShard s))
     + sum_list (map workerWork (ssWorkers s)) + 2 * size (boxes (shMailboxes (ssShard s)))"

lemma work_sendResult [simp]: "work (sendResult ch r s) = work s"
  by (simp add: work_def)

lemma work_worker:
  assumes "w < length (ssWorkers s)" "ssWorkers s' = (ssWorkers s)[w := st]"
    and "ssDispatcher s' = ssDispatcher s" "shCommands (ssShard s') = shCommands (ssShard s)"
  shows "work s' + workerWork (ssWorkers s ! w) + 4 * length (shJobs (ssShard s))
      + 2 * size (boxes (shMailboxes (ssShard s)))
    = work s + workerWork st + 4 * length (shJobs (ssShard s')) + 2 * size (boxes (shMailboxes (ssShard s')))"
  using sum_list_swap[OF assms(1), of workerWork st] assms(2-4) by (simp add: work_def)

lemma work_claim:
  assumes inv: "shardInv d n s" and w: "w < length (ssWorkers s)" "ssWorkers s ! w = Picked job"
  shows "work (workerClaim zero w job s) < work s"
proof -
  note fin = ownersOkD(1)[OF shardInvD(2)[OF inv]]
  show ?thesis
  proof (cases "shMailboxes (ssShard s) (enAgg job)")
    case None
    then show ?thesis
      using work_worker[OF w(1), of "workerClaim zero w job s" "Executing (enAgg job) job"] w(2)
        boxes_insert[OF fin None, of "[]"]
      by (simp add: workerClaim_def claim_def claimSection_def)
  next
    case (Some box)
    have "size (boxes ((shMailboxes (ssShard s))(enAgg job \<mapsto> box @ [job]))) = Suc (size (boxes (shMailboxes (ssShard s))))"
      using boxes_replace[OF fin Some, of "box @ [job]"] by simp
    then show ?thesis
      using work_worker[OF w(1), of "workerClaim zero w job s" Ranging] w(2) Some
      by (auto simp: workerClaim_def claim_def claimSection_def split: if_splits)
  qed
qed

lemma work_next:
  assumes inv: "shardInv d n s" and w: "w < length (ssWorkers s)" "ssWorkers s ! w = Between agg"
  shows "work (serveNext w agg s) < work s"
proof -
  note own = shardInvD(2)[OF inv]
  obtain box where box: "shMailboxes (ssShard s) agg = Some box"
    using running_box[OF own w(1), of agg] w(2) by auto
  show ?thesis
  proof (cases box)
    case Nil
    have "boxes ((shMailboxes (ssShard s))(agg := None)) = boxes (shMailboxes (ssShard s))"
      using boxes_remove[OF ownersOkD(1)[OF own] box] Nil by simp
    then show ?thesis
      using work_worker[OF w(1), of "serveNext w agg s" Ranging] w(2) box Nil
      by (simp add: serveNext_def nextJob_def)
  next
    case (Cons job rest)
    have "boxes (shMailboxes (ssShard s)) = add_mset job (boxes ((shMailboxes (ssShard s))(agg \<mapsto> rest)))"
      using boxes_replace[OF ownersOkD(1)[OF own] box, of rest] Cons by simp
    then show ?thesis
      using work_worker[OF w(1), of "serveNext w agg s" "Executing agg job"] w(2) box Cons
      by (simp add: serveNext_def nextJob_def)
  qed
qed

lemma work_take:
  assumes w: "w < length (ssWorkers s)" "ssWorkers s ! w = Ranging" and r: "workerTake w s = Some s'"
  shows "work s' < work s"
proof (cases "shJobs (ssShard s)")
  case Nil
  then have "s' = setWorker w Exited s" using r by (auto simp: workerTake_def split: if_splits)
  then show ?thesis using work_worker[OF w(1), of s' Exited] w(2) Nil by simp
next
  case (Cons job rest)
  then have "s' = setWorker w (Picked job) (s\<lparr>ssShard := (ssShard s)\<lparr>shJobs := rest\<rparr>\<rparr>)"
    using r by (simp add: workerTake_def)
  then show ?thesis using work_worker[OF w(1), of s' "Picked job"] w(2) Cons by simp
qed

lemma work_execute:
  assumes w: "w < length (ssWorkers s)" "ssWorkers s ! w = Executing agg job"
  shows "work (setWorker w (Between agg) (executeJob zero cerr ans job s)) < work s"
proof -
  obtain r where r: "executeJob zero cerr ans job s = sendResult (enChan job) r s"
    using executeJob_sends by blast
  show ?thesis
    using work_worker[of w s "setWorker w (Between agg) (executeJob zero cerr ans job s)" "Between agg"] w
    by (simp add: r)
qed

lemma work_dispatcherStep:
  assumes inv: "shardInv d n s" and r: "dispatcherStep zero a s = Some s'"
  shows "work s' < work s"
proof (cases "ssDispatcher s")
  case AtSelect
  then show ?thesis
    using r by (auto simp: dispatcherStep_def Let_def work_def closeJobs_def
      split: shard_action.splits list.splits option.splits if_splits)
next
  case (Handing e)
  then show ?thesis
    using r by (auto simp: dispatcherStep_def Let_def work_def dispatchJob_def split: shard_action.splits if_splits)
next
  case Failing
  then show ?thesis
    using r by (auto simp: dispatcherStep_def Let_def work_def closeJobs_def failEnvelope_def
      split: shard_action.splits list.splits option.splits)
next
  case Returned
  then show ?thesis using r by (auto simp: dispatcherStep_def Let_def split: shard_action.splits)
qed

lemma work_workerStep:
  assumes inv: "shardInv d n s" and r: "workerStep zero a w s = Some s'"
  shows "work s' < work s"
proof -
  have w: "w < length (ssWorkers s)" using r by (auto simp: workerStep_def split: if_splits)
  then show ?thesis
    using r work_take[OF w] work_claim[OF inv w] work_next[OF inv w] work_execute[OF w]
    by (auto simp: workerStep_def split: shard_action.splits shard_worker.splits)
qed

lemma work_decreases:
  assumes "shardInv d n s" "internal a" "shardAct zero a s = Some s'"
  shows "work s' < work s"
  using assms by (cases a) (auto intro: work_dispatcherStep work_workerStep)

text \<open>What the shard's own steps keep: the stop signal, the commands accepted, and an emptied queue.\<close>

definition keeps :: "'t shard_system \<Rightarrow> 't shard_system \<Rightarrow> bool" where
  "keeps s s' \<longleftrightarrow>
     shStopping (ssShard s') = shStopping (ssShard s) \<and> ssAccepted s' = ssAccepted s
     \<and> length (ssWorkers s') = length (ssWorkers s)
     \<and> ((ssDispatcher s = Returned \<longrightarrow> shCommands (ssShard s) = []) \<longrightarrow>
        (ssDispatcher s' = Returned \<longrightarrow> shCommands (ssShard s') = []))"

lemma keeps_workerStep: "workerStep zero a w s = Some s' \<Longrightarrow> keeps s s'"
  by (auto simp: workerStep_def workerTake_def workerClaim_def serveNext_def claim_def claimSection_def
      nextJob_def executeJob_def keeps_def Let_def
      split: if_splits shard_action.splits shard_worker.splits list.splits option.splits prod.splits)

lemma keeps_dispatcherStep:
  assumes "None \<notin> set (shCommands (ssShard s))" "dispatcherStep zero a s = Some s'"
  shows "keeps s s'"
  using assms
  by (auto simp: dispatcherStep_def Let_def keeps_def closeJobs_def dispatchJob_def failEnvelope_def
      split: shard_action.splits shard_dispatcher.splits list.splits option.splits if_splits)

lemma keeps_internal:
  assumes "shardInv d n s" "internal a" "shardAct zero a s = Some s'"
  shows "keeps s s'"
  using assms(2,3) keeps_workerStep keeps_dispatcherStep shardInvD(3)[OF assms(1)]
  by (cases a) (auto simp: gatesOk_def)

definition finished :: "'t shard_system \<Rightarrow> bool" where
  "finished s \<longleftrightarrow> ssDispatcher s = Returned \<and> set (ssWorkers s) \<subseteq> {Exited}"

definition stuck :: "'t event \<Rightarrow> 't shard_system \<Rightarrow> bool" where
  "stuck zero s \<longleftrightarrow> (\<forall>a. internal a \<longrightarrow> shardAct zero a s = None)"

lemma stuckE:
  assumes "shardAct zero a s \<noteq> None" "internal a"
  shows "\<not> stuck zero s"
proof
  assume "stuck zero s"
  with assms(2) have "shardAct zero a s = None" by (simp add: stuck_def)
  with assms(1) show False ..
qed

text \<open>A worker that has not returned can step unless it waits for a job.\<close>

lemma worker_can_step:
  assumes w: "w < length (ssWorkers s)" "ssWorkers s ! w \<noteq> Exited"
    and job: "ssWorkers s ! w = Ranging \<Longrightarrow> shJobs (ssShard s) \<noteq> [] \<or> shJobsClosed (ssShard s)"
  shows "\<not> stuck zero s"
proof (cases "ssWorkers s ! w")
  case Ranging
  then have "shardAct zero (WorkerTake w) s \<noteq> None"
    using w job by (auto simp: workerStep_def workerTake_def split: list.splits)
  then show ?thesis by (rule stuckE) simp
next
  case (Picked job)
  then have "shardAct zero (WorkerClaim w) s \<noteq> None" using w by (simp add: workerStep_def)
  then show ?thesis by (rule stuckE) simp
next
  case (Executing agg job)
  then have "shardAct zero (WorkerExecute w None (zero, None, None)) s \<noteq> None"
    using w by (simp add: workerStep_def)
  then show ?thesis by (rule stuckE) simp
next
  case (Between agg)
  then have "shardAct zero (WorkerNext w) s \<noteq> None" using w by (simp add: workerStep_def)
  then show ?thesis by (rule stuckE) simp
qed (use w in simp)

lemma dispatcher_can_step:
  assumes "shStopping (ssShard s)" "ssDispatcher s \<noteq> Returned"
    and "\<And>e. ssDispatcher s = Handing e \<Longrightarrow> length (shJobs (ssShard s)) < shJobCap (ssShard s)"
  shows "\<not> stuck zero s"
proof (cases "ssDispatcher s")
  case AtSelect
  then have "shardAct zero DispatchStop s \<noteq> None" using assms by (simp add: dispatcherStep_def Let_def)
  then show ?thesis by (rule stuckE) simp
next
  case (Handing e)
  then have "shardAct zero DispatchPut s \<noteq> None"
    using assms by (simp add: dispatcherStep_def Let_def dispatchJob_def)
  then show ?thesis by (rule stuckE) simp
next
  case Failing
  then have "shardAct zero FailOne s \<noteq> None"
    by (simp add: dispatcherStep_def Let_def split: list.splits)
  then show ?thesis by (rule stuckE) simp
qed (use assms in simp)

text \<open>A stopping shard that cannot step is done.\<close>

lemma stuck_finished:
  assumes inv: "shardInv d n s" and n: "0 < n" and stop: "shStopping (ssShard s)" and st: "stuck zero s"
  shows "finished s"
proof (rule ccontr)
  assume nf: "\<not> finished s"
  note g = shardInvD(3)[OF inv] and z = shardInvD(4)[OF inv]
  show False
  proof (cases "ssDispatcher s = Returned")
    case True
    with nf obtain st' where "st' \<in> set (ssWorkers s)" "st' \<noteq> Exited" by (auto simp: finished_def)
    then obtain w where "w < length (ssWorkers s)" "ssWorkers s ! w \<noteq> Exited" by (metis in_set_conv_nth)
    from worker_can_step[OF this] True g st show False by (simp add: gatesOk_def)
  next
    case False
    then obtain e where full: "\<not> length (shJobs (ssShard s)) < shJobCap (ssShard s)"
      using dispatcher_can_step[OF stop] st by blast
    then have "shJobs (ssShard s) \<noteq> []" using z n by (auto simp: sizesOk_def)
    moreover have len: "0 < length (ssWorkers s)" using z n by (simp add: sizesOk_def)
    moreover have "ssWorkers s ! 0 \<noteq> Exited"
      using g False nth_mem[OF len] by (metis gatesOk_def)
    ultimately show False using worker_can_step[of 0 s] st by blast
  qed
qed

text \<open>
  A shard that cannot step, stopping or not, holds no command but the ones that came after
  its dispatcher returned.
\<close>

lemma stuck_queue_empty:
  assumes inv: "shardInv d n s" and n: "0 < n" and st: "stuck zero s"
  shows "shJobs (ssShard s) = []"
proof (rule ccontr)
  assume jobs: "shJobs (ssShard s) \<noteq> []"
  have len: "0 < length (ssWorkers s)" using shardInvD(4)[OF inv] n by (simp add: sizesOk_def)
  have "ssWorkers s ! 0 \<noteq> Exited"
    using shardInvD(3)[OF inv] jobs nth_mem[OF len] by (metis gatesOk_def)
  then show False using worker_can_step[OF len] jobs st by blast
qed

lemma stuck_dispatcher:
  assumes inv: "shardInv d n s" and n: "0 < n" and st: "stuck zero s"
    and q: "ssDispatcher s = Returned \<Longrightarrow> shCommands (ssShard s) = []"
  shows "handing (ssDispatcher s) = None \<and> shCommands (ssShard s) = []"
proof (cases "ssDispatcher s")
  case AtSelect
  have "shCommands (ssShard s) = []"
  proof (rule ccontr)
    assume "shCommands (ssShard s) \<noteq> []"
    then have "shardAct zero DispatchTake s \<noteq> None"
      using AtSelect by (auto simp: dispatcherStep_def Let_def split: list.splits option.splits)
    then show False using st by (metis stuckE internal.simps(5))
  qed
  then show ?thesis using AtSelect by simp
next
  case (Handing e)
  have "shardAct zero DispatchPut s \<noteq> None"
    using Handing stuck_queue_empty[OF inv n st] shardInvD(4)[OF inv] n
    by (auto simp: dispatcherStep_def Let_def dispatchJob_def sizesOk_def)
  then show ?thesis using st by (metis stuckE internal.simps(6))
next
  case Failing
  then have "shardAct zero FailOne s \<noteq> None"
    by (simp add: dispatcherStep_def Let_def split: list.splits)
  then show ?thesis using st by (metis stuckE internal.simps(7))
qed (use q in simp)

lemma stuck_idle:
  assumes inv: "shardInv d n s" and n: "0 < n" and st: "stuck zero s"
    and q: "ssDispatcher s = Returned \<Longrightarrow> shCommands (ssShard s) = []"
  shows "inFlight s = {#}"
proof -
  note own = shardInvD(2)[OF inv]
  have idle: "x = Ranging \<or> x = Exited" if x: "x \<in> set (ssWorkers s)" for x
  proof -
    obtain w where w: "w < length (ssWorkers s)" "ssWorkers s ! w = x" using x by (auto simp: in_set_conv_nth)
    show ?thesis
    proof (rule ccontr)
      assume "\<not> (x = Ranging \<or> x = Exited)"
      then have "\<not> stuck zero s" by (intro worker_can_step[OF w(1)]) (simp_all add: w(2))
      with st show False by contradiction
    qed
  qed
  have "y \<notin># gather handOf (ssWorkers s)" for y using idle by (fastforce simp: in_gather)
  then have hands: "gather handOf (ssWorkers s) = {#}" by (meson multiset_nonemptyE)
  have "y \<notin># gather runsOf (ssWorkers s)" for y using idle by (fastforce simp: in_gather)
  then have "gather runsOf (ssWorkers s) = {#}" by (meson multiset_nonemptyE)
  then have "dom (shMailboxes (ssShard s)) = {}"
    using ownersOkD(1,2)[OF own] by (simp add: mset_set_empty_iff)
  then show ?thesis
    using stuck_dispatcher[OF inv n st q] stuck_queue_empty[OF inv n st] hands
    by (simp add: inFlight_def boxes_def)
qed

lemma stuck_answers:
  assumes inv: "shardInv d n s" and n: "0 < n" and st: "stuck zero s"
    and q: "ssDispatcher s = Returned \<Longrightarrow> shCommands (ssShard s) = []"
  shows "mset (answered s) = mset (ssAccepted s)"
  using shardInvD(1)[OF inv] stuck_idle[OF assms] by (simp add: flowOk_def)

lemma run_internal:
  assumes "shardInv d n s" "list_all internal as" "shardRun zero as s = Some s'"
  shows "shardInv d n s' \<and> keeps s s' \<and> length as + work s' \<le> work s"
  using assms
proof (induction as arbitrary: s)
  case Nil
  then show ?case by (simp add: keeps_def)
next
  case (Cons a as)
  then obtain s1 where s1: "shardAct zero a s = Some s1" "shardRun zero as s1 = Some s'"
    by (auto simp: bind_eq_Some_conv)
  have inv: "shardInv d n s1" using shardInv_act[OF Cons.prems(1) s1(1)] .
  have "work s1 < work s" "keeps s s1"
    using work_decreases[OF Cons.prems(1) _ s1(1)] keeps_internal[OF Cons.prems(1) _ s1(1)] Cons.prems(2)
    by auto
  with Cons.IH[OF inv _ s1(2)] Cons.prems(2) show ?case by (auto simp: keeps_def)
qed

text \<open>A shard that is done takes no further step.\<close>

lemma exited_no_step:
  assumes "set (ssWorkers s) \<subseteq> {Exited}"
  shows "workerStep zero a w s = None"
proof (cases "w < length (ssWorkers s)")
  case True
  then have "ssWorkers s ! w = Exited" using assms nth_mem[OF True] by blast
  then show ?thesis by (auto simp: workerStep_def split: shard_action.splits)
qed (simp add: workerStep_def)

lemma finished_stuck:
  assumes fin: "finished s"
  shows "stuck zero s"
proof -
  have w: "workerStep zero a w s = None" for a w using fin exited_no_step by (auto simp: finished_def)
  have d: "dispatcherStep zero a s = None" for a
    using fin by (auto simp: dispatcherStep_def finished_def Let_def split: shard_action.splits)
  have "shardAct zero a s = None" if "internal a" for a using that by (cases a) (simp_all add: w d)
  then show ?thesis by (simp add: stuck_def)
qed

section \<open>What a sender relies on\<close>

text \<open>A result that has been sent and not received is in its channel.\<close>

definition deliverable :: "'t shard_system \<Rightarrow> nat \<Rightarrow> bool" where
  "deliverable s ch \<longleftrightarrow> ch \<in> set (answered s) \<longrightarrow> ssChans s ch \<noteq> None"

lemma deliverable_frame [simp]:
  "deliverable (setWorker w st s) = deliverable s" "deliverable (s\<lparr>ssShard := sh\<rparr>) = deliverable s"
  "deliverable (s\<lparr>ssDispatcher := dst\<rparr>) = deliverable s"
  "deliverable (s\<lparr>ssShard := sh, ssDispatcher := dst\<rparr>) = deliverable s"
  by (simp_all add: deliverable_def fun_eq_iff)

lemma deliverable_sendResult [simp]: "deliverable s ch \<Longrightarrow> deliverable (sendResult x r s) ch"
  by (auto simp: deliverable_def sendResult_def split: option.splits)

lemma deliverable_executeJob [simp]: "deliverable s ch \<Longrightarrow> deliverable (executeJob zero cerr ans job s) ch"
  using executeJob_sends[of zero cerr ans job s] by auto

lemma deliverable_workerStep:
  "workerStep zero a w s = Some s' \<Longrightarrow> deliverable s ch \<Longrightarrow> deliverable s' ch"
  by (auto simp: workerStep_def workerTake_def workerClaim_def serveNext_def claim_def Let_def
      split: if_splits shard_action.splits shard_worker.splits list.splits prod.splits option.splits)

lemma deliverable_dispatcherStep:
  "dispatcherStep zero a s = Some s' \<Longrightarrow> deliverable s ch \<Longrightarrow> deliverable s' ch"
  by (auto simp: dispatcherStep_def Let_def failEnvelope_def
      split: shard_action.splits shard_dispatcher.splits list.splits option.splits if_splits)

lemma deliverable_internal:
  "internal a \<Longrightarrow> shardAct zero a s = Some s' \<Longrightarrow> deliverable s ch \<Longrightarrow> deliverable s' ch"
  by (cases a) (auto intro: deliverable_workerStep deliverable_dispatcherStep)

end
