(* ===== verification/Processor.thy ===== *)
theory Processor
  imports Shard_Correct Delivery
begin

text \<open>
  \<^verbatim>\<open>internal/processor/processor.go\<close> and \<^verbatim>\<open>internal/processor/pool/pool.go\<close>: the options and
  their defaults, the choice of the dispatcher, and the life of a processor, that is its
  \<open>Send\<close>, \<open>SendWait\<close>, \<open>Forget\<close> and \<open>Shutdown\<close> calls interleaved with each other and with
  the goroutines of its shards. \<open>Processor_Correct\<close> has the theory of the interleavings,
  \<open>Recovery\<close> the recovery operations.
\<close>

section \<open>Configuration\<close>

text \<open>
  The value a factory returns for the interface \<open>Dispatcher\<close>: nil, or a value of some dynamic
  kind, which may itself be nil (a nil pointer in a non-nil interface).
\<close>

datatype go_kind = KPointer | KMap | KFunc | KSlice | KChan | KInterface | KOther

datatype 'v iface = NilIface | Iface go_kind bool 'v

fun isNilKind :: "go_kind \<Rightarrow> bool" where
  "isNilKind KOther = False"
| "isNilKind k = True"

fun isNil :: "'v iface \<Rightarrow> bool" where
  "isNil NilIface = True"
| "isNil (Iface k null v) = (isNilKind k \<and> null)"

text \<open>A factory returns a dispatcher or an error; being the user's code, it may panic.\<close>

type_synonym ('t, 'v) dispatcher_factory = "'t dispatcher_config \<Rightarrow> 'v iface outcome"

record ('tx, 't, 'v) processor_config =
  pfShards :: int
  pfQueueDepth :: int
  pfWorkersPerShard :: int
  pfPublishErrorHandler :: bool
  pfExecutorOpts :: "('tx, 't) exec_opt list"
  pfDispatcher :: "'t dispatcher_config"
  pfFactory :: "('t, 'v) dispatcher_factory option"

datatype ('tx, 't, 'v) processor_opt =
    OptDurableSubscribers "'t durable_sub list"
  | OptDeliveryErrorHandler bool
  | OptDeliveryPanicHandler bool
  | OptDeliveryMaxAttempts int
  | OptDeadLetterHandler "(ctx \<Rightarrow> 't event \<Rightarrow> goerr option \<Rightarrow> handler_result) option"
  | OptDeliveryRetry int int
  | OptSyncProjections "('tx, 't) sync_projection list"
  | OptDurableDelivery "(string \<Rightarrow> bool) option"
  | OptSnapshotErrorHandler bool
  | OptShards int
  | OptQueueDepth int
  | OptWorkersPerShard int
  | OptPublishErrorHandler bool
  | OptDispatcherFactory "('t, 'v) dispatcher_factory option"

definition positiveOr :: "int \<Rightarrow> int \<Rightarrow> int" where
  "positiveOr value fallback = (if value \<le> 0 then fallback else value)"

definition onDispatcher ::
  "('t dispatcher_config \<Rightarrow> 't dispatcher_config) \<Rightarrow> ('tx, 't, 'v) processor_config \<Rightarrow> ('tx, 't, 'v) processor_config" where
  "onDispatcher f cfg = cfg\<lparr>pfDispatcher := f (pfDispatcher cfg)\<rparr>"

fun applyOpt :: "('tx, 't, 'v) processor_opt \<Rightarrow> ('tx, 't, 'v) processor_config \<Rightarrow> ('tx, 't, 'v) processor_config" where
  "applyOpt (OptDurableSubscribers subs) cfg = onDispatcher (\<lambda>d. d\<lparr>cfDurableSubs := subs\<rparr>) cfg"
| "applyOpt (OptDeliveryErrorHandler b) cfg = onDispatcher (\<lambda>d. d\<lparr>cfOnDeliveryError := b\<rparr>) cfg"
| "applyOpt (OptDeliveryPanicHandler b) cfg = onDispatcher (\<lambda>d. d\<lparr>cfOnPanic := b\<rparr>) cfg"
| "applyOpt (OptDeliveryMaxAttempts n) cfg =
     (if n \<le> 0 then cfg else onDispatcher (\<lambda>d. d\<lparr>cfMaxAttempts := n\<rparr>) cfg)"
| "applyOpt (OptDeadLetterHandler f) cfg = onDispatcher (\<lambda>d. d\<lparr>cfDeadLetter := f\<rparr>) cfg"
| "applyOpt (OptDeliveryRetry ini mx) cfg =
     onDispatcher (\<lambda>d. d\<lparr>cfRetryInitial := positiveOr ini (cfRetryInitial d),
                         cfRetryMax := positiveOr mx (cfRetryMax d)\<rparr>) cfg"
| "applyOpt (OptSyncProjections ps) cfg =
     cfg\<lparr>pfExecutorOpts := pfExecutorOpts cfg @ [WithSyncProjections ps]\<rparr>"
| "applyOpt (OptDurableDelivery m) cfg =
     cfg\<lparr>pfExecutorOpts := pfExecutorOpts cfg @ [WithDurableDelivery m]\<rparr>"
| "applyOpt (OptSnapshotErrorHandler b) cfg =
     cfg\<lparr>pfExecutorOpts := pfExecutorOpts cfg @ [WithSnapshotErrorHandler b]\<rparr>"
| "applyOpt (OptShards n) cfg = (if 0 < n then cfg\<lparr>pfShards := n\<rparr> else cfg)"
| "applyOpt (OptQueueDepth n) cfg = (if 0 < n then cfg\<lparr>pfQueueDepth := n\<rparr> else cfg)"
| "applyOpt (OptWorkersPerShard n) cfg = (if 0 < n then cfg\<lparr>pfWorkersPerShard := n\<rparr> else cfg)"
| "applyOpt (OptPublishErrorHandler b) cfg = cfg\<lparr>pfPublishErrorHandler := b\<rparr>"
| "applyOpt (OptDispatcherFactory f) cfg = (if f = None then cfg else cfg\<lparr>pfFactory := f\<rparr>)"

text \<open>Durations are in nanoseconds: 100ms, 30s and 20 attempts.\<close>

definition defaultRetryInitial :: int where "defaultRetryInitial = 100 * 10 ^ 6"
definition defaultRetryMax :: int where "defaultRetryMax = 30 * 10 ^ 9"
definition defaultMaxAttempts :: int where "defaultMaxAttempts = 20"

definition defaultConfig :: "('tx, 't, 'v) processor_config" where
  "defaultConfig =
     \<lparr>pfShards = 8, pfQueueDepth = -1, pfWorkersPerShard = 8, pfPublishErrorHandler = False,
      pfExecutorOpts = [],
      pfDispatcher =
        \<lparr>cfBus = False, cfDurableSubs = [], cfOnPublishError = False, cfOnDeliveryError = False,
         cfOnPanic = False, cfDeadLetter = None, cfRetryInitial = defaultRetryInitial,
         cfRetryMax = defaultRetryMax, cfMaxAttempts = defaultMaxAttempts\<rparr>,
      pfFactory = None\<rparr>"

definition configure :: "('tx, 't, 'v) processor_opt list \<Rightarrow> ('tx, 't, 'v) processor_config" where
  "configure opts =
     (let cfg = fold applyOpt opts defaultConfig
      in if pfQueueDepth cfg \<le> 0 then cfg\<lparr>pfQueueDepth := pfWorkersPerShard cfg\<rparr> else cfg)"

text \<open>
  The dispatcher: none without a factory and without a bus, else what the factory, or the
  in-memory default, returns.
\<close>

definition errNilDispatcher :: goerr where
  "errNilDispatcher = OtherErr ''asynx: the dispatcher factory returned no dispatcher''"

definition defaultDispatcher :: "('t, ('t, 't disp) dispatcher_ops \<times> 't disp) dispatcher_factory" where
  "defaultDispatcher cfg = Ok (Iface KPointer False (memDispatcher, newDispatcher))"

definition chooseDispatcher ::
  "('t, 'v) dispatcher_factory \<Rightarrow> ('tx, 't, 'v) processor_config \<Rightarrow> bool \<Rightarrow> 'v iface option outcome" where
  "chooseDispatcher dflt cfg bus =
     (if pfFactory cfg = None \<and> \<not> bus then Ok None
      else (let factory = (case pfFactory cfg of Some f \<Rightarrow> f | None \<Rightarrow> dflt);
                dcfg = (pfDispatcher cfg)\<lparr>cfBus := bus, cfOnPublishError := pfPublishErrorHandler cfg\<rparr>
            in case factory dcfg of
                 Fail e \<Rightarrow> Fail (Errorf [Lit ''asynx: dispatcher factory: '', Wrap e])
               | Panic p \<Rightarrow> Panic p
               | Ok d \<Rightarrow> if isNil d then Fail errNilDispatcher else Ok (Some d)))"

section \<open>The pool\<close>

type_synonym 't pool = "'t shard_system list"

definition newPool :: "nat \<Rightarrow> nat \<Rightarrow> nat \<Rightarrow> 't pool" where
  "newPool numShards queueDepth workersPerShard =
     map (\<lambda>i. startShard i queueDepth workersPerShard) [0..<numShards]"

text \<open>
  \<open>make\<close> panics for a slice or a channel of pointers that is larger than the address space the
  64-bit runtime gives out; a channel needs 96 bytes of its own. The pool makes its slice of shards
  and, for each shard, the two channels.
\<close>

definition maxAlloc :: int where "maxAlloc = 2 ^ 48"

definition makeSlice :: "int \<Rightarrow> unit outcome" where
  "makeSlice n = (if n < 0 \<or> maxAlloc < 8 * n then Panic ''runtime error: makeslice: len out of range'' else Ok ())"

definition makeBuffered :: "int \<Rightarrow> unit outcome" where
  "makeBuffered n = (if n < 0 \<or> maxAlloc - 96 < 8 * n then Panic ''makechan: size out of range'' else Ok ())"

definition allocatePool :: "int \<Rightarrow> int \<Rightarrow> int \<Rightarrow> unit outcome" where
  "allocatePool numShards queueDepth workersPerShard =
     bindO (makeSlice numShards) (\<lambda>_.
       if numShards = 0 then Ok ()
       else bindO (makeBuffered queueDepth) (\<lambda>_. makeBuffered (max workersPerShard queueDepth)))"

text \<open>When the two wait groups of the pool reach zero.\<close>

definition dispatchersDone :: "'t pool \<Rightarrow> bool" where
  "dispatchersDone p \<longleftrightarrow> list_all (\<lambda>s. ssDispatcher s = Returned) p"

definition workersDone :: "'t pool \<Rightarrow> bool" where
  "workersDone p \<longleftrightarrow> list_all (\<lambda>s. set (ssWorkers s) \<subseteq> {Exited}) p"

section \<open>The life of a processor\<close>

datatype shutdown_state = NotShutDown | ShuttingDownNow | ShutdownFailed | ShutDown

text \<open>
  Where a \<open>Shutdown\<close> call is: about to interrupt the dispatcher, to wait for the sends, to
  signal the next shard of the pool, to wait for the dispatcher goroutines, the workers and
  the forgets, to close the dispatcher and the bus, and to record its error and return.
\<close>

datatype phase =
    PhInterrupt
  | PhSends
  | PhSignal nat
  | PhDispatchers
  | PhWorkers
  | PhForgets
  | PhCloseDispatcher
  | PhCloseBus
  | PhEnd "goerr option"

text \<open>
  Where a call is. A \<open>Send\<close> has registered itself, or waits for the result of an envelope it
  gave to a shard, or for the handlers; a \<open>Forget\<close> has registered itself, or runs in the
  executor. The answers of \<open>Send\<close> carry the event.
\<close>

datatype 't proc_call =
    SendEntered "'t command" bool
  | SendPending nat "'t envelope"
  | SendAwaits "'t command_result"
  | ForgetEntered string
  | ForgetRunning string
  | InShutdown phase
  | SendReturned "'t event" "goerr option"
  | ErrReturned "goerr option"

record 't processor =
  prShards :: "'t pool"
  prRouter :: router
  prDispatcher :: bool
  prBus :: bool
  prShuttingDown :: bool
  prShutdown :: shutdown_state
  prSends :: int
  prForgets :: int
  prInterrupted :: bool
  prDispatcherClosed :: bool
  prBusClosed :: bool
  prCalls :: "nat \<rightharpoonup> 't proc_call"

definition startProcessor :: "nat \<Rightarrow> nat \<Rightarrow> nat \<Rightarrow> bool \<Rightarrow> bool \<Rightarrow> 't processor" where
  "startProcessor shards depth workers hasDispatcher hasBus =
     \<lparr>prShards = newPool shards depth workers, prRouter = \<lparr>roShards = int shards\<rparr>,
      prDispatcher = hasDispatcher, prBus = hasBus, prShuttingDown = False,
      prShutdown = NotShutDown, prSends = 0, prForgets = 0, prInterrupted = False,
      prDispatcherClosed = False, prBusClosed = False, prCalls = Map.empty\<rparr>"

text \<open>\<open>New\<close>: the dispatcher first, as its failure leaves nothing running, then the pool.\<close>

definition newProcessor ::
  "('t, 'v) dispatcher_factory \<Rightarrow> bool \<Rightarrow> ('tx, 't, 'v) processor_opt list
     \<Rightarrow> ('v iface option \<times> 't processor) outcome" where
  "newProcessor dflt bus opts =
     (let cfg = configure opts in
      bindO (chooseDispatcher dflt cfg bus) (\<lambda>d.
      bindO (allocatePool (pfShards cfg) (pfQueueDepth cfg) (pfWorkersPerShard cfg)) (\<lambda>_.
      bindO (newRouter (pfShards cfg)) (\<lambda>r.
        Ok (d, startProcessor (nat (pfShards cfg)) (nat (pfQueueDepth cfg)) (nat (pfWorkersPerShard cfg))
                 (d \<noteq> None) bus)))))"

definition setCall :: "nat \<Rightarrow> 't proc_call \<Rightarrow> 't processor \<Rightarrow> 't processor" where
  "setCall c st p = p\<lparr>prCalls := (prCalls p)(c \<mapsto> st)\<rparr>"

definition setShard :: "nat \<Rightarrow> 't shard_system \<Rightarrow> 't processor \<Rightarrow> 't processor" where
  "setShard i s p = p\<lparr>prShards := (prShards p)[i := s]\<rparr>"

text \<open>\<open>beginSend\<close>, and the deferred \<open>Done\<close> with which a send returns.\<close>

definition beginSend :: "'t processor \<Rightarrow> bool \<times> 't processor" where
  "beginSend p = (if prShuttingDown p then (False, p) else (True, p\<lparr>prSends := prSends p + 1\<rparr>))"

definition returnSend :: "nat \<Rightarrow> 't event \<Rightarrow> goerr option \<Rightarrow> 't processor \<Rightarrow> 't processor" where
  "returnSend c ev err p = setCall c (SendReturned ev err) (p\<lparr>prSends := prSends p - 1\<rparr>)"

definition startSend :: "'t event \<Rightarrow> nat \<Rightarrow> 't command \<Rightarrow> bool \<Rightarrow> 't processor \<Rightarrow> 't processor" where
  "startSend zero c cmd waits p =
     (case beginSend p of
        (True, p') \<Rightarrow> setCall c (SendEntered cmd waits) p'
      | (False, p') \<Rightarrow> setCall c (SendReturned zero (Some (Sentinel ErrShuttingDown))) p')"

text \<open>
  The guards of \<open>Send\<close> (\<open>SendWait\<close> when \<open>waits\<close>) and the first \<open>select\<close> of \<open>sendAndWait\<close>,
  given what \<open>InHandler\<close> and \<open>ctx.Err\<close> answer, the result channel \<open>make\<close> returned and whether
  the \<open>select\<close> took the arm of a done context.
\<close>

definition trySend ::
  "'t event \<Rightarrow> nat \<Rightarrow> bool \<Rightarrow> goerr option \<Rightarrow> nat \<Rightarrow> bool \<Rightarrow> 't command \<Rightarrow> bool \<Rightarrow> 't processor \<Rightarrow> 't processor" where
  "trySend zero c inHandler cerr ch ctxDone cmd waits p =
     (let fail = (\<lambda>e. returnSend c zero (Some (Sentinel e)) p) in
      if waits \<and> prDispatcher p \<and> inHandler then fail ErrSendWaitFromHandler
      else if cerr \<noteq> None then fail ErrContextCancelled
      else (let i = nat (route (prRouter p) (cmdAggregateID cmd));
                env = \<lparr>enCmd = cmd, enChan = ch, enWaitHandlers = waits\<rparr>
            in if ctxDone then fail ErrContextCancelled
               else case offer env (prShards p ! i) of
                      Some s \<Rightarrow> setCall c (SendPending i env) (setShard i s p)
                    | None \<Rightarrow> fail ErrQueueFull))"

text \<open>The second \<open>select\<close> of \<open>sendAndWait\<close>, and \<open>awaitHandlers\<close> in two steps around \<open>Wait\<close>.\<close>

definition awaitHandlers :: "nat \<Rightarrow> 't command_result \<Rightarrow> 't processor \<Rightarrow> 't processor" where
  "awaitHandlers c r p =
     (if crErr r \<noteq> None \<or> crWait r = None then returnSend c (crEvent r) (crErr r) p
      else setCall c (SendAwaits r) p)"

definition handlersWaited :: "nat \<Rightarrow> 't command_result \<Rightarrow> goerr option \<Rightarrow> 't processor \<Rightarrow> 't processor" where
  "handlersWaited c r err p =
     (case err of
        Some e \<Rightarrow>
          if errorsIs e ErrContextCancelled
          then returnSend c (crEvent r) (Some (Sentinel ErrContextCancelled)) p
          else returnSend c (crEvent r) (Some e) p
      | None \<Rightarrow> returnSend c (crEvent r) None p)"

definition receiveResult :: "nat \<Rightarrow> nat \<Rightarrow> 't envelope \<Rightarrow> 't processor \<Rightarrow> 't processor option" where
  "receiveResult c i env p =
     (let s = prShards p ! i in
      case ssChans s (enChan env) of
        None \<Rightarrow> None
      | Some r \<Rightarrow>
          Some (awaitHandlers c r (setShard i (s\<lparr>ssChans := (ssChans s)(enChan env := None)\<rparr>) p)))"

text \<open>\<open>Forget\<close>.\<close>

definition startForget :: "nat \<Rightarrow> string \<Rightarrow> 't processor \<Rightarrow> 't processor" where
  "startForget c agg p =
     (if prShuttingDown p then setCall c (ErrReturned (Some (Sentinel ErrShuttingDown))) p
      else setCall c (ForgetEntered agg) (p\<lparr>prForgets := prForgets p + 1\<rparr>))"

definition returnForget :: "nat \<Rightarrow> goerr option \<Rightarrow> 't processor \<Rightarrow> 't processor" where
  "returnForget c err p = setCall c (ErrReturned err) (p\<lparr>prForgets := prForgets p - 1\<rparr>)"

definition checkForget :: "nat \<Rightarrow> goerr option \<Rightarrow> string \<Rightarrow> 't processor \<Rightarrow> 't processor" where
  "checkForget c cerr agg p =
     (if cerr \<noteq> None then returnForget c (Some (Sentinel ErrContextCancelled)) p
      else setCall c (ForgetRunning agg) p)"

text \<open>\<open>Shutdown\<close>: \<open>beginShutdown\<close>, the phases of \<open>runShutdown\<close>, \<open>endShutdown\<close>.\<close>

definition beginShutdown :: "'t processor \<Rightarrow> bool \<times> 't processor" where
  "beginShutdown p =
     (if prShutdown p = ShuttingDownNow \<or> prShutdown p = ShutDown then (False, p)
      else (True, p\<lparr>prShutdown := ShuttingDownNow, prShuttingDown := True\<rparr>))"

definition startShutdown :: "nat \<Rightarrow> 't processor \<Rightarrow> 't processor" where
  "startShutdown c p =
     (case beginShutdown p of
        (True, p') \<Rightarrow> setCall c (InShutdown PhInterrupt) p'
      | (False, p') \<Rightarrow> setCall c (ErrReturned (Some (Sentinel ErrAlreadyShuttingDown))) p')"

definition endShutdown :: "goerr option \<Rightarrow> 't processor \<Rightarrow> 't processor" where
  "endShutdown err p = p\<lparr>prShutdown := (if err \<noteq> None then ShutdownFailed else ShutDown)\<rparr>"

text \<open>
  A wait ends when what it waits for is done, or with the error of a done context; closing
  the dispatcher and the bus ends with whatever they return.
\<close>

definition waitFor :: "nat \<Rightarrow> bool \<Rightarrow> goerr option \<Rightarrow> phase \<Rightarrow> 't processor \<Rightarrow> 't processor option" where
  "waitFor c ready err nextPhase p =
     (case err of
        Some e \<Rightarrow> Some (setCall c (InShutdown (PhEnd (Some e))) p)
      | None \<Rightarrow> if ready then Some (setCall c (InShutdown nextPhase) p) else None)"

text \<open>\<open>Drain\<close>, shard by shard for the signal.\<close>

fun drainStep :: "nat \<Rightarrow> goerr option \<Rightarrow> phase \<Rightarrow> 't processor \<Rightarrow> 't processor option" where
  "drainStep c err (PhSignal k) p =
     (if k < length (prShards p)
      then Some (setCall c (InShutdown (PhSignal (Suc k)))
             (setShard k ((prShards p ! k)\<lparr>ssShard := signalStop (ssShard (prShards p ! k))\<rparr>) p))
      else Some (setCall c (InShutdown PhDispatchers) p))"
| "drainStep c err PhDispatchers p = waitFor c (dispatchersDone (prShards p)) err PhWorkers p"
| "drainStep c err PhWorkers p = waitFor c (workersDone (prShards p)) err PhForgets p"
| "drainStep c err ph p = None"

fun shutdownStep :: "nat \<Rightarrow> goerr option \<Rightarrow> phase \<Rightarrow> 't processor \<Rightarrow> 't processor option" where
  "shutdownStep c err PhInterrupt p =
     Some (setCall c (InShutdown PhSends) (if prDispatcher p then p\<lparr>prInterrupted := True\<rparr> else p))"
| "shutdownStep c err PhSends p = waitFor c (prSends p = 0) err (PhSignal 0) p"
| "shutdownStep c err (PhSignal k) p = drainStep c err (PhSignal k) p"
| "shutdownStep c err PhDispatchers p = drainStep c err PhDispatchers p"
| "shutdownStep c err PhWorkers p = drainStep c err PhWorkers p"
| "shutdownStep c err PhForgets p = waitFor c (prForgets p = 0) err PhCloseDispatcher p"
| "shutdownStep c err PhCloseDispatcher p =
     (if \<not> prDispatcher p then Some (setCall c (InShutdown PhCloseBus) p)
      else waitFor c True err PhCloseBus (if err = None then p\<lparr>prDispatcherClosed := True\<rparr> else p))"
| "shutdownStep c err PhCloseBus p =
     (if \<not> prBus p then Some (setCall c (InShutdown (PhEnd None)) p)
      else waitFor c True err (PhEnd None) (if err = None then p\<lparr>prBusClosed := True\<rparr> else p))"
| "shutdownStep c err (PhEnd r) p = Some (setCall c (ErrReturned r) (endShutdown r p))"

section \<open>Every interleaving\<close>

text \<open>
  One action per step; a step of a call needs the call to be there, a new call an unused
  number, and the channel \<open>make\<close> returns is not one of before.
\<close>

datatype 't proc_action =
    StartSend nat "'t command" bool
  | TrySend nat bool "goerr option" nat bool
  | ReceiveResult nat
  | SendCtxDone nat
  | HandlersWaited nat "goerr option"
  | StartForget nat string
  | CheckForget nat "goerr option"
  | ForgetReturns nat "goerr option"
  | StartShutdown nat
  | ShutdownStep nat "goerr option"
  | ShardStep nat "'t shard_action"

definition fresh :: "nat \<Rightarrow> 't processor \<Rightarrow> ('t processor \<Rightarrow> 't processor) \<Rightarrow> 't processor option" where
  "fresh c p f = (case prCalls p c of None \<Rightarrow> Some (f p) | Some _ \<Rightarrow> None)"

fun procAct :: "'t event \<Rightarrow> 't proc_action \<Rightarrow> 't processor \<Rightarrow> 't processor option" where
  "procAct zero (StartSend c cmd waits) p = fresh c p (startSend zero c cmd waits)"
| "procAct zero (TrySend c inHandler cerr ch ctxDone) p =
     (case prCalls p c of
        Some (SendEntered cmd waits) \<Rightarrow>
          if list_all (\<lambda>s. ch \<notin> set (ssAccepted s)) (prShards p)
          then Some (trySend zero c inHandler cerr ch ctxDone cmd waits p) else None
      | _ \<Rightarrow> None)"
| "procAct zero (ReceiveResult c) p =
     (case prCalls p c of Some (SendPending i env) \<Rightarrow> receiveResult c i env p | _ \<Rightarrow> None)"
| "procAct zero (SendCtxDone c) p =
     (case prCalls p c of
        Some (SendPending i env) \<Rightarrow> Some (returnSend c zero (Some (Sentinel ErrContextCancelled)) p)
      | _ \<Rightarrow> None)"
| "procAct zero (HandlersWaited c err) p =
     (case prCalls p c of Some (SendAwaits r) \<Rightarrow> Some (handlersWaited c r err p) | _ \<Rightarrow> None)"
| "procAct zero (StartForget c agg) p = fresh c p (startForget c agg)"
| "procAct zero (CheckForget c cerr) p =
     (case prCalls p c of Some (ForgetEntered agg) \<Rightarrow> Some (checkForget c cerr agg p) | _ \<Rightarrow> None)"
| "procAct zero (ForgetReturns c err) p =
     (case prCalls p c of Some (ForgetRunning agg) \<Rightarrow> Some (returnForget c err p) | _ \<Rightarrow> None)"
| "procAct zero (StartShutdown c) p = fresh c p (startShutdown c)"
| "procAct zero (ShutdownStep c err) p =
     (case prCalls p c of Some (InShutdown ph) \<Rightarrow> shutdownStep c err ph p | _ \<Rightarrow> None)"
| "procAct zero (ShardStep i a) p =
     (if i < length (prShards p) \<and> internal a
      then map_option (\<lambda>s. setShard i s p) (shardAct zero a (prShards p ! i)) else None)"

inductive procReachable ::
  "'t event \<Rightarrow> nat \<Rightarrow> nat \<Rightarrow> nat \<Rightarrow> bool \<Rightarrow> bool \<Rightarrow> 't processor \<Rightarrow> bool"
  for zero shards depth workers hasDispatcher hasBus where
  start: "procReachable zero shards depth workers hasDispatcher hasBus
    (startProcessor shards depth workers hasDispatcher hasBus)"
| act: "procReachable zero shards depth workers hasDispatcher hasBus p \<Longrightarrow>
    procAct zero a p = Some p' \<Longrightarrow> procReachable zero shards depth workers hasDispatcher hasBus p'"

fun procRun :: "'t event \<Rightarrow> 't proc_action list \<Rightarrow> 't processor \<Rightarrow> 't processor option" where
  "procRun zero [] p = Some p"
| "procRun zero (a # as) p = Option.bind (procAct zero a p) (procRun zero as)"

lemma procRun_reachable:
  "procReachable zero k d n hsD hsB p \<Longrightarrow> procRun zero as p = Some p' \<Longrightarrow> procReachable zero k d n hsD hsB p'"
  by (induction as arbitrary: p) (auto simp: bind_eq_Some_conv intro: procReachable.act)

end
