(* ===== verification/Processor_Correct.thy ===== *)
theory Processor_Correct
  imports Processor
begin

text \<open>
  What holds in every state of a processor: the wait groups count the calls in flight, one
  \<open>Shutdown\<close> runs at a time, and each phase of it finds done what the phases before it waited
  for, whatever the other goroutines do in between. So no command reaches a shard that was
  told to stop, and a sender never waits for a result nobody will produce.
\<close>

section \<open>Counting calls\<close>

fun inSend :: "'t proc_call \<Rightarrow> bool" where
  "inSend (SendEntered cmd waits) = True"
| "inSend (SendPending i env) = True"
| "inSend (SendAwaits r) = True"
| "inSend st = False"

fun inForget :: "'t proc_call \<Rightarrow> bool" where
  "inForget (ForgetEntered agg) = True"
| "inForget (ForgetRunning agg) = True"
| "inForget st = False"

fun inShut :: "'t proc_call \<Rightarrow> bool" where
  "inShut (InShutdown ph) = True"
| "inShut st = False"

definition theCalls :: "('t proc_call \<Rightarrow> bool) \<Rightarrow> (nat \<rightharpoonup> 't proc_call) \<Rightarrow> nat set" where
  "theCalls P m = {c. \<exists>st. m c = Some st \<and> P st}"

definition was :: "('t proc_call \<Rightarrow> bool) \<Rightarrow> 't proc_call option \<Rightarrow> bool" where
  "was P r = (case r of None \<Rightarrow> False | Some st \<Rightarrow> P st)"

lemma was_simps [simp]: "was P None = False" "was P (Some st) = P st"
  by (simp_all add: was_def)

lemma finite_theCalls: "finite (dom m) \<Longrightarrow> finite (theCalls P m)"
  by (rule finite_subset[of _ "dom m"]) (auto simp: theCalls_def)

lemma card_theCalls_update:
  assumes "finite (dom m)"
  shows "card (theCalls P (m(c \<mapsto> st))) + of_bool (was P (m c)) = card (theCalls P m) + of_bool (P st)"
proof -
  have fin: "finite (theCalls P m - {c})" using finite_theCalls[OF assms] by simp
  have new: "theCalls P (m(c \<mapsto> st)) = (theCalls P m - {c}) \<union> (if P st then {c} else {})"
    by (auto simp: theCalls_def)
  have "card (theCalls P m - {c}) + of_bool (c \<in> theCalls P m) = card (theCalls P m)"
    using card.remove[OF finite_theCalls[OF assms, of P], of c] by (cases "c \<in> theCalls P m") simp_all
  moreover have "c \<in> theCalls P m \<longleftrightarrow> was P (m c)" by (auto simp: theCalls_def was_def split: option.splits)
  ultimately show ?thesis using fin by (auto simp: new insert_absorb)
qed

definition callsInv :: "'t processor \<Rightarrow> bool" where
  "callsInv p \<longleftrightarrow>
     finite (dom (prCalls p))
     \<and> prSends p = int (card (theCalls inSend (prCalls p)))
     \<and> prForgets p = int (card (theCalls inForget (prCalls p)))
     \<and> card (theCalls inShut (prCalls p)) = of_bool (prShutdown p = ShuttingDownNow)
     \<and> (prShuttingDown p \<longleftrightarrow> prShutdown p \<noteq> NotShutDown)"

lemma callsInv_set:
  assumes inv: "callsInv p" and calls: "prCalls p' = (prCalls p)(c \<mapsto> st)"
    and sends: "prSends p' + of_bool (was inSend (prCalls p c)) = prSends p + of_bool (inSend st)"
    and forgets: "prForgets p' + of_bool (was inForget (prCalls p c)) = prForgets p + of_bool (inForget st)"
    and shut: "of_bool (prShutdown p' = ShuttingDownNow) + of_bool (was inShut (prCalls p c))
      = of_bool (prShutdown p = ShuttingDownNow) + (of_bool (inShut st) :: nat)"
    and flag: "prShuttingDown p' \<longleftrightarrow> prShutdown p' \<noteq> NotShutDown"
  shows "callsInv p'"
proof -
  have fin: "finite (dom (prCalls p))" using inv by (simp add: callsInv_def)
  note upd = card_theCalls_update[OF fin, of _ c st]
  have "int (card (theCalls inSend (prCalls p'))) + of_bool (was inSend (prCalls p c))
      = prSends p + of_bool (inSend st)"
    using upd[of inSend] inv unfolding calls callsInv_def by (metis of_nat_add of_nat_of_bool)
  moreover have "int (card (theCalls inForget (prCalls p'))) + of_bool (was inForget (prCalls p c))
      = prForgets p + of_bool (inForget st)"
    using upd[of inForget] inv unfolding calls callsInv_def by (metis of_nat_add of_nat_of_bool)
  moreover have "card (theCalls inShut (prCalls p')) = of_bool (prShutdown p' = ShuttingDownNow)"
    using upd[of inShut] inv shut unfolding calls callsInv_def by linarith
  ultimately show ?thesis using fin sends forgets flag unfolding callsInv_def calls by simp
qed

lemma callsInv_same:
  assumes "callsInv p" "prCalls p' = prCalls p" "prSends p' = prSends p" "prForgets p' = prForgets p"
    "prShutdown p' = prShutdown p" "prShuttingDown p' = prShuttingDown p"
  shows "callsInv p'"
  using assms by (simp add: callsInv_def)

lemma no_sends:
  assumes "callsInv p" "prSends p = 0" "prCalls p c = Some st"
  shows "\<not> inSend st"
proof
  assume "inSend st"
  then have "c \<in> theCalls inSend (prCalls p)" using assms(3) by (auto simp: theCalls_def)
  moreover have "finite (theCalls inSend (prCalls p))" "card (theCalls inSend (prCalls p)) = 0"
    using assms(1,2) finite_theCalls by (auto simp: callsInv_def)
  ultimately show False by auto
qed

lemma no_forgets:
  assumes "callsInv p" "prForgets p = 0" "prCalls p c = Some st"
  shows "\<not> inForget st"
proof
  assume "inForget st"
  then have "c \<in> theCalls inForget (prCalls p)" using assms(3) by (auto simp: theCalls_def)
  moreover have "finite (theCalls inForget (prCalls p))" "card (theCalls inForget (prCalls p)) = 0"
    using assms(1,2) finite_theCalls by (auto simp: callsInv_def)
  ultimately show False by auto
qed

lemma shutdown_call_unique:
  assumes inv: "callsInv p" and c: "prCalls p c = Some (InShutdown ph)"
  shows "prShutdown p = ShuttingDownNow" "prCalls p c' = Some (InShutdown ph') \<Longrightarrow> c' = c"
proof -
  have fin: "finite (theCalls inShut (prCalls p))" using inv finite_theCalls by (auto simp: callsInv_def)
  have mem: "c \<in> theCalls inShut (prCalls p)" using c by (simp add: theCalls_def)
  then have card: "card (theCalls inShut (prCalls p)) = 1"
    using inv fin by (cases "prShutdown p = ShuttingDownNow") (auto simp: callsInv_def)
  then show "prShutdown p = ShuttingDownNow"
    using inv by (cases "prShutdown p = ShuttingDownNow") (auto simp: callsInv_def)
  show "c' = c" if "prCalls p c' = Some (InShutdown ph')"
  proof -
    have "c' \<in> theCalls inShut (prCalls p)" using that by (simp add: theCalls_def)
    with mem card show ?thesis by (metis card_1_singletonE singletonD)
  qed
qed

section \<open>Phases\<close>

text \<open>No send is in flight and none can start.\<close>

definition quiet :: "'t processor \<Rightarrow> bool" where
  "quiet p \<longleftrightarrow> prShuttingDown p \<and> prSends p = 0"

definition allStopping :: "'t pool \<Rightarrow> bool" where
  "allStopping ss \<longleftrightarrow> list_all (\<lambda>s. shStopping (ssShard s)) ss"

definition stopped :: "'t processor \<Rightarrow> bool" where
  "stopped p \<longleftrightarrow> quiet p \<and> allStopping (prShards p)"

definition drained :: "'t processor \<Rightarrow> bool" where
  "drained p \<longleftrightarrow> stopped p \<and> dispatchersDone (prShards p) \<and> workersDone (prShards p)"

definition idle :: "'t processor \<Rightarrow> bool" where
  "idle p \<longleftrightarrow> drained p \<and> prForgets p = 0"

text \<open>What holds from the moment a shutdown enters a phase.\<close>

fun past :: "phase \<Rightarrow> 't processor \<Rightarrow> bool" where
  "past PhInterrupt p \<longleftrightarrow> True"
| "past PhSends p \<longleftrightarrow> True"
| "past (PhSignal k) p \<longleftrightarrow> quiet p \<and> allStopping (take k (prShards p))"
| "past PhDispatchers p \<longleftrightarrow> stopped p"
| "past PhWorkers p \<longleftrightarrow> stopped p \<and> dispatchersDone (prShards p)"
| "past PhForgets p \<longleftrightarrow> drained p"
| "past PhCloseDispatcher p \<longleftrightarrow> idle p"
| "past PhCloseBus p \<longleftrightarrow> idle p \<and> (prDispatcher p \<longrightarrow> prDispatcherClosed p)"
| "past (PhEnd (Some e)) p \<longleftrightarrow> True"
| "past (PhEnd None) p \<longleftrightarrow>
     idle p \<and> (prDispatcher p \<longrightarrow> prDispatcherClosed p) \<and> (prBus p \<longrightarrow> prBusClosed p)"

text \<open>How a shard, and then a processor, moves on.\<close>

definition shardAdvances :: "'t shard_system \<Rightarrow> 't shard_system \<Rightarrow> bool" where
  "shardAdvances s s' \<longleftrightarrow>
     (shStopping (ssShard s) \<longrightarrow> shStopping (ssShard s'))
     \<and> (ssDispatcher s = Returned \<longrightarrow> ssDispatcher s' = Returned)
     \<and> (set (ssWorkers s) \<subseteq> {Exited} \<longrightarrow> set (ssWorkers s') \<subseteq> {Exited})"

lemma shardAdvances_refl [simp]: "shardAdvances s s"
  by (simp add: shardAdvances_def)

definition advances :: "'t processor \<Rightarrow> 't processor \<Rightarrow> bool" where
  "advances p p' \<longleftrightarrow>
     list_all2 shardAdvances (prShards p) (prShards p')
     \<and> prDispatcher p' = prDispatcher p \<and> prBus p' = prBus p
     \<and> (prDispatcherClosed p \<longrightarrow> prDispatcherClosed p') \<and> (prBusClosed p \<longrightarrow> prBusClosed p')
     \<and> (quiet p \<longrightarrow> quiet p') \<and> (prShuttingDown p \<longrightarrow> prForgets p = 0 \<longrightarrow> prForgets p' = 0)"

lemma list_all2_advances:
  assumes "list_all2 shardAdvances xs ys"
  shows "allStopping (take k xs) \<Longrightarrow> allStopping (take k ys)"
    and "dispatchersDone xs \<Longrightarrow> dispatchersDone ys"
    and "workersDone xs \<Longrightarrow> workersDone ys"
  using assms
  by (auto simp: allStopping_def dispatchersDone_def workersDone_def list_all_length list_all2_conv_all_nth
      shardAdvances_def)

lemma past_mono:
  assumes adv: "advances p p'" and was: "past ph p"
  shows "past ph p'"
proof -
  have all: "list_all2 shardAdvances (prShards p) (prShards p')" and q: "quiet p \<longrightarrow> quiet p'"
    using adv by (simp_all add: advances_def)
  note l = list_all2_advances[OF all]
  have stop: "allStopping (prShards p) \<Longrightarrow> allStopping (prShards p')"
    using l(1)[of "length (prShards p)"] list_all2_lengthD[OF all] by simp
  have st: "stopped p \<Longrightarrow> stopped p'" using stop q by (simp add: stopped_def)
  have dr: "drained p \<Longrightarrow> drained p'" using st l(2,3) by (simp add: drained_def)
  have id: "idle p \<Longrightarrow> idle p'"
    using dr adv by (auto simp: idle_def drained_def stopped_def advances_def quiet_def)
  show ?thesis
  proof (cases ph)
    case (PhSignal k)
    then show ?thesis using was q l(1)[of k] by simp
  next
    case (PhEnd r)
    then show ?thesis using was id adv by (cases r) (auto simp: advances_def)
  next
    case PhCloseBus
    then show ?thesis using was id adv by (auto simp: advances_def)
  qed (use was st l(2) dr id in simp_all)
qed

definition phaseInv :: "'t processor \<Rightarrow> bool" where
  "phaseInv p \<longleftrightarrow>
     (\<forall>c ph. prCalls p c = Some (InShutdown ph) \<longrightarrow> past ph p)
     \<and> (prShutdown p = ShutDown \<longrightarrow> past (PhEnd None) p)
     \<and> (prDispatcherClosed p \<longrightarrow> past PhCloseDispatcher p)
     \<and> (prBusClosed p \<longrightarrow> past PhCloseBus p)
     \<and> (\<forall>s \<in> set (prShards p). shStopping (ssShard s) \<longrightarrow> quiet p)"

text \<open>A step that sets no phase of a shutdown and stops no shard.\<close>

lemma phaseInv_advance:
  assumes inv: "phaseInv p" and adv: "advances p p'"
    and calls: "\<And>c ph. prCalls p' c = Some (InShutdown ph) \<Longrightarrow> prCalls p c = Some (InShutdown ph) \<or> past ph p'"
    and shut: "prShutdown p' = ShutDown \<Longrightarrow> prShutdown p = ShutDown \<or> past (PhEnd None) p'"
    and closed: "prDispatcherClosed p' \<Longrightarrow> prDispatcherClosed p \<or> past PhCloseDispatcher p'"
    and bus: "prBusClosed p' \<Longrightarrow> prBusClosed p \<or> past PhCloseBus p'"
    and stop: "\<And>i. i < length (prShards p') \<Longrightarrow> shStopping (ssShard (prShards p' ! i)) \<Longrightarrow>
      shStopping (ssShard (prShards p ! i)) \<or> quiet p'"
  shows "phaseInv p'"
proof -
  note mono = past_mono[OF adv]
  have len: "length (prShards p') = length (prShards p)" and q: "quiet p \<longrightarrow> quiet p'"
    using adv by (auto simp: advances_def dest: list_all2_lengthD)
  have "quiet p'" if s: "s \<in> set (prShards p')" "shStopping (ssShard s)" for s
  proof -
    obtain i where i: "i < length (prShards p')" "s = prShards p' ! i"
      using s(1) by (auto simp: in_set_conv_nth)
    then show ?thesis
      using stop[OF i(1)] s(2) len q inv nth_mem[of i "prShards p"] by (auto simp: phaseInv_def)
  qed
  moreover have "past ph p'" if "prCalls p' c = Some (InShutdown ph)" for c ph
    using calls[OF that] mono[of ph] inv by (auto simp: phaseInv_def)
  moreover have "prShutdown p' = ShutDown \<longrightarrow> past (PhEnd None) p'"
    using shut mono[of "PhEnd None"] inv by (auto simp: phaseInv_def simp del: past.simps)
  moreover have "prDispatcherClosed p' \<longrightarrow> past PhCloseDispatcher p'"
    using closed mono[of PhCloseDispatcher] inv by (auto simp: phaseInv_def simp del: past.simps)
  moreover have "prBusClosed p' \<longrightarrow> past PhCloseBus p'"
    using bus mono[of PhCloseBus] inv by (auto simp: phaseInv_def simp del: past.simps)
  ultimately show ?thesis unfolding phaseInv_def by blast
qed

section \<open>Shards and senders\<close>

definition shardFine :: "nat \<Rightarrow> nat \<Rightarrow> 't shard_system \<Rightarrow> bool" where
  "shardFine d n s \<longleftrightarrow> shardInv d n s \<and> (ssDispatcher s = Returned \<longrightarrow> shCommands (ssShard s) = [])"

definition shardsInv :: "nat \<Rightarrow> nat \<Rightarrow> nat \<Rightarrow> 't processor \<Rightarrow> bool" where
  "shardsInv k d n p \<longleftrightarrow>
     length (prShards p) = k \<and> prRouter p = \<lparr>roShards = int k\<rparr> \<and> list_all (shardFine d n) (prShards p)"

text \<open>
  A sender that waits does so for a command its shard accepted, with a result channel of its
  own, which holds the result from the moment it is sent.
\<close>

definition pendingInv :: "'t processor \<Rightarrow> bool" where
  "pendingInv p \<longleftrightarrow>
     (\<forall>c i env. prCalls p c = Some (SendPending i env) \<longrightarrow>
        i < length (prShards p) \<and> enChan env \<in> set (ssAccepted (prShards p ! i))
        \<and> deliverable (prShards p ! i) (enChan env))
     \<and> (\<forall>c c' i i' env env'. prCalls p c = Some (SendPending i env) \<longrightarrow>
          prCalls p c' = Some (SendPending i' env') \<longrightarrow> enChan env = enChan env' \<longrightarrow> c = c')"

lemma shardsInv_nth: "shardsInv k d n p \<Longrightarrow> i < length (prShards p) \<Longrightarrow> shardFine d n (prShards p ! i)"
  by (simp add: shardsInv_def list_all_length)

lemma shardsInv_setShard:
  assumes "shardsInv k d n p" "shardFine d n s"
  shows "shardsInv k d n (setShard i s p)"
  using assms set_update_subset_insert[of "prShards p" i s]
  by (auto simp: shardsInv_def setShard_def list_all_iff)

lemma advances_internal:
  assumes inv: "shardInv d n s" and a: "internal a" "shardAct zero a s = Some s'"
  shows "shardAdvances s s'"
proof -
  have stop: "shStopping (ssShard s') = shStopping (ssShard s)"
    using keeps_internal[OF assms] by (simp add: keeps_def)
  have ret: "ssDispatcher s' = Returned" if "ssDispatcher s = Returned"
    using a that by (cases a)
      (auto simp: dispatcherStep_def Let_def workerStep_def workerTake_def workerClaim_def serveNext_def claim_def
        executeJob_def split: if_splits shard_worker.splits list.splits prod.splits option.splits)
  note dead = exited_no_step[of s]
  have work: "set (ssWorkers s') \<subseteq> {Exited}" if "set (ssWorkers s) \<subseteq> {Exited}"
    using a that dead[OF that] by (cases a)
      (auto simp: dispatcherStep_def Let_def failEnvelope_def closeJobs_def
        split: if_splits shard_dispatcher.splits list.splits option.splits)
  show ?thesis using stop ret work by (simp add: shardAdvances_def)
qed

lemma shardFine_internal:
  assumes "shardFine d n s" "internal a" "shardAct zero a s = Some s'"
  shows "shardFine d n s'"
  using assms shardInv_act keeps_internal[of d n s a zero s'] by (auto simp: shardFine_def keeps_def)

lemma advances_setShard:
  assumes "i < length (prShards p)" "shardAdvances (prShards p ! i) s"
    and "prShards p' = (prShards p)[i := s]" "prDispatcher p' = prDispatcher p" "prBus p' = prBus p"
      "prDispatcherClosed p' = prDispatcherClosed p" "prBusClosed p' = prBusClosed p"
      "quiet p \<Longrightarrow> quiet p'" "prShuttingDown p \<Longrightarrow> prForgets p = 0 \<Longrightarrow> prForgets p' = 0"
  shows "advances p p'"
  using assms by (auto simp: advances_def list_all2_conv_all_nth nth_list_update)

lemma advances_same:
  assumes "prShards p' = prShards p" "prDispatcher p' = prDispatcher p" "prBus p' = prBus p"
    "prDispatcherClosed p \<Longrightarrow> prDispatcherClosed p'" "prBusClosed p \<Longrightarrow> prBusClosed p'"
    "quiet p \<Longrightarrow> quiet p'" "prShuttingDown p \<Longrightarrow> prForgets p = 0 \<Longrightarrow> prForgets p' = 0"
  shows "advances p p'"
  using assms by (auto simp: advances_def list_all2_conv_all_nth)

definition procInv :: "nat \<Rightarrow> nat \<Rightarrow> nat \<Rightarrow> 't processor \<Rightarrow> bool" where
  "procInv k d n p \<longleftrightarrow> callsInv p \<and> phaseInv p \<and> shardsInv k d n p \<and> pendingInv p"

lemma procInvI:
  "callsInv p \<Longrightarrow> phaseInv p \<Longrightarrow> shardsInv k d n p \<Longrightarrow> pendingInv p \<Longrightarrow> procInv k d n p"
  by (simp add: procInv_def)

lemma procInvD:
  assumes "procInv k d n p"
  shows "callsInv p" "phaseInv p" "shardsInv k d n p" "pendingInv p"
  using assms by (simp_all add: procInv_def)

lemma procInv_start: "procInv k d n (startProcessor k d n hsD hsB)"
proof -
  have "shardFine d n s" if s: "s \<in> set (newPool k d n)" for s :: "'a shard_system"
  proof -
    obtain i where "s = startShard i d n" using s by (auto simp: newPool_def)
    then show ?thesis using shardInv_start by (auto simp: shardFine_def startShard_def)
  qed
  then have "shardsInv k d n (startProcessor k d n hsD hsB :: 'a processor)"
    by (auto simp: shardsInv_def startProcessor_def newPool_def list_all_iff)
  moreover have "phaseInv (startProcessor k d n hsD hsB :: 'a processor)"
    by (auto simp: phaseInv_def startProcessor_def newPool_def startShard_def newShard_def)
  ultimately show ?thesis
    by (simp add: procInv_def callsInv_def pendingInv_def startProcessor_def theCalls_def)
qed

section \<open>Every step keeps it\<close>

lemmas proc_defs = startSend_def beginSend_def returnSend_def setCall_def setShard_def startForget_def
  returnForget_def checkForget_def startShutdown_def beginShutdown_def endShutdown_def awaitHandlers_def
  handlersWaited_def waitFor_def

text \<open>A pending call is only touched by its own steps.\<close>

lemma pendingInv_frame:
  assumes inv: "pendingInv p" and calls: "prCalls p' = (prCalls p)(c \<mapsto> st)"
    and st: "\<And>i env. st \<noteq> SendPending i env" and shards: "prShards p' = prShards p"
  shows "pendingInv p'"
  using inv st unfolding pendingInv_def calls shards by (auto split: if_splits)

lemma shardsInv_frame:
  assumes "shardsInv k d n p" "prShards p' = prShards p" "prRouter p' = prRouter p"
  shows "shardsInv k d n p'"
  using assms by (simp add: shardsInv_def)

text \<open>
  A step of one call that leaves the shards alone: what it must show is how it counts, and
  what it claims when it enters a phase.
\<close>

lemma procInv_call:
  assumes inv: "procInv k d n p" and calls: "prCalls p' = (prCalls p)(c \<mapsto> st)"
    and cinv: "callsInv p'" and adv: "advances p p'"
    and same: "prShards p' = prShards p" "prRouter p' = prRouter p"
    and st: "\<And>i env. st \<noteq> SendPending i env"
    and enter: "\<And>ph. st = InShutdown ph \<Longrightarrow> past ph p'"
    and shut: "prShutdown p' = ShutDown \<Longrightarrow> prShutdown p = ShutDown \<or> past (PhEnd None) p'"
    and closed: "prDispatcherClosed p' \<Longrightarrow> prDispatcherClosed p \<or> past PhCloseDispatcher p'"
    and bus: "prBusClosed p' \<Longrightarrow> prBusClosed p \<or> past PhCloseBus p'"
  shows "procInv k d n p'"
proof (rule procInvI[OF cinv])
  show "shardsInv k d n p'" using shardsInv_frame[OF procInvD(3)[OF inv] same] .
  show "pendingInv p'" using pendingInv_frame[OF procInvD(4)[OF inv] calls st same(1)] .
  show "phaseInv p'"
  proof (rule phaseInv_advance[OF procInvD(2)[OF inv] adv _ shut closed bus])
    show "prCalls p c' = Some (InShutdown ph) \<or> past ph p'" if "prCalls p' c' = Some (InShutdown ph)" for c' ph
      using that enter unfolding calls by (auto split: if_splits simp del: past.simps)
  qed (simp_all add: same)
qed

lemma procInv_startSend:
  assumes inv: "procInv k d n p" and c: "prCalls p c = None"
  shows "procInv k d n (startSend zero c cmd waits p)" (is "procInv k d n ?p")
proof -
  let ?st = "if prShuttingDown p then SendReturned zero (Some (Sentinel ErrShuttingDown)) else SendEntered cmd waits"
  have calls: "prCalls ?p = (prCalls p)(c \<mapsto> ?st)" by (simp add: proc_defs)
  have flag: "prShuttingDown p \<longleftrightarrow> prShutdown p \<noteq> NotShutDown"
    using procInvD(1)[OF inv] by (simp add: callsInv_def)
  show ?thesis
  proof (rule procInv_call[OF inv calls])
    show "callsInv ?p"
      by (rule callsInv_set[OF procInvD(1)[OF inv] calls]) (use c flag in \<open>simp_all add: proc_defs\<close>)
    show "advances p ?p" by (rule advances_same) (simp_all add: proc_defs quiet_def)
  qed (auto simp: proc_defs simp del: past.simps split: if_splits)
qed

lemma procInv_startForget:
  assumes inv: "procInv k d n p" and c: "prCalls p c = None"
  shows "procInv k d n (startForget c agg p)" (is "procInv k d n ?p")
proof -
  let ?st = "if prShuttingDown p then ErrReturned (Some (Sentinel ErrShuttingDown)) else ForgetEntered agg"
  have calls: "prCalls ?p = (prCalls p)(c \<mapsto> ?st)" by (simp add: proc_defs)
  have flag: "prShuttingDown p \<longleftrightarrow> prShutdown p \<noteq> NotShutDown"
    using procInvD(1)[OF inv] by (simp add: callsInv_def)
  show ?thesis
  proof (rule procInv_call[OF inv calls])
    show "callsInv ?p"
      by (rule callsInv_set[OF procInvD(1)[OF inv] calls]) (use c flag in \<open>simp_all add: proc_defs\<close>)
    show "advances p ?p" by (rule advances_same) (simp_all add: proc_defs quiet_def)
  qed (auto simp: proc_defs simp del: past.simps split: if_splits)
qed

text \<open>The return of a send, and of a forget.\<close>

lemma procInv_returnSend:
  assumes inv: "procInv k d n p" and c: "prCalls p c = Some st" "inSend st"
  shows "procInv k d n (returnSend c ev err p)" (is "procInv k d n ?p")
proof -
  have calls: "prCalls ?p = (prCalls p)(c \<mapsto> SendReturned ev err)" by (simp add: proc_defs)
  have flag: "prShuttingDown p \<longleftrightarrow> prShutdown p \<noteq> NotShutDown"
    using procInvD(1)[OF inv] by (simp add: callsInv_def)
  have nq: "\<not> quiet p" using no_sends[OF procInvD(1)[OF inv] _ c(1)] c(2) by (auto simp: quiet_def)
  have other: "\<not> inForget st" "\<not> inShut st" using c(2) by (cases st; simp)+
  show ?thesis
  proof (rule procInv_call[OF inv calls])
    show "callsInv ?p"
      by (rule callsInv_set[OF procInvD(1)[OF inv] calls]) (use c flag other in \<open>simp_all add: proc_defs\<close>)
    show "advances p ?p" by (rule advances_same) (use nq in \<open>simp_all add: proc_defs\<close>)
  qed (simp_all add: proc_defs)
qed

lemma procInv_returnForget:
  assumes inv: "procInv k d n p" and c: "prCalls p c = Some st" "inForget st"
  shows "procInv k d n (returnForget c err p)" (is "procInv k d n ?p")
proof -
  have calls: "prCalls ?p = (prCalls p)(c \<mapsto> ErrReturned err)" by (simp add: proc_defs)
  have flag: "prShuttingDown p \<longleftrightarrow> prShutdown p \<noteq> NotShutDown"
    using procInvD(1)[OF inv] by (simp add: callsInv_def)
  have some: "prForgets p \<noteq> 0" using no_forgets[OF procInvD(1)[OF inv] _ c(1)] c(2) by auto
  have other: "\<not> inSend st" "\<not> inShut st" using c(2) by (cases st; simp)+
  show ?thesis
  proof (rule procInv_call[OF inv calls])
    show "callsInv ?p"
      by (rule callsInv_set[OF procInvD(1)[OF inv] calls]) (use c flag other in \<open>simp_all add: proc_defs\<close>)
    show "advances p ?p" by (rule advances_same) (use some in \<open>simp_all add: proc_defs quiet_def\<close>)
  qed (simp_all add: proc_defs)
qed

text \<open>A send or a forget that moves on without returning.\<close>

lemma procInv_goOn:
  assumes inv: "procInv k d n p" and c: "prCalls p c = Some st"
    and same: "inSend st' = inSend st" "inForget st' = inForget st" "\<not> inShut st" "\<not> inShut st'"
    and np: "\<And>i env. st' \<noteq> SendPending i env"
  shows "procInv k d n (setCall c st' p)" (is "procInv k d n ?p")
proof -
  have calls: "prCalls ?p = (prCalls p)(c \<mapsto> st')" by (simp add: setCall_def)
  have flag: "prShuttingDown p \<longleftrightarrow> prShutdown p \<noteq> NotShutDown"
    using procInvD(1)[OF inv] by (simp add: callsInv_def)
  show ?thesis
  proof (rule procInv_call[OF inv calls])
    show "callsInv ?p"
      by (rule callsInv_set[OF procInvD(1)[OF inv] calls]) (use c flag same in \<open>simp_all add: setCall_def\<close>)
    show "advances p ?p" by (rule advances_same) (simp_all add: setCall_def quiet_def)
    show "past ph ?p" if "st' = InShutdown ph" for ph using that same by simp
  qed (use np in \<open>simp_all add: setCall_def\<close>)
qed

text \<open>A step of a shard alone.\<close>

lemma procInv_shard:
  assumes inv: "procInv k d n p" and i: "i < length (prShards p)"
    and fine: "shardFine d n s" and adv: "shardAdvances (prShards p ! i) s"
    and stop: "shStopping (ssShard s) \<Longrightarrow> shStopping (ssShard (prShards p ! i)) \<or> quiet p"
    and acc: "set (ssAccepted (prShards p ! i)) \<subseteq> set (ssAccepted s)"
    and del: "\<And>c env. prCalls p c = Some (SendPending i env) \<Longrightarrow> deliverable s (enChan env)"
  shows "procInv k d n (setShard i s p)" (is "procInv k d n ?p")
proof (rule procInvI)
  show "callsInv ?p" by (rule callsInv_same[OF procInvD(1)[OF inv]]) (simp_all add: setShard_def)
  show "shardsInv k d n ?p" by (rule shardsInv_setShard[OF procInvD(3)[OF inv] fine])
  have adv': "advances p ?p"
    by (rule advances_setShard[OF i adv]) (simp_all add: setShard_def quiet_def)
  show "phaseInv ?p"
  proof (rule phaseInv_advance[OF procInvD(2)[OF inv] adv'])
    show "shStopping (ssShard (prShards p ! j)) \<or> quiet ?p"
      if "j < length (prShards ?p)" "shStopping (ssShard (prShards ?p ! j))" for j
      using that stop i by (cases "j = i") (auto simp: setShard_def quiet_def)
  qed (simp_all add: setShard_def)
  show "pendingInv ?p"
    using procInvD(4)[OF inv] acc del i unfolding pendingInv_def
    by (auto simp: setShard_def nth_list_update)
qed

lemma procInv_shardStep:
  assumes inv: "procInv k d n p" and i: "i < length (prShards p)" and a: "internal a"
    and r: "shardAct zero a (prShards p ! i) = Some s"
  shows "procInv k d n (setShard i s p)"
proof (rule procInv_shard[OF inv i])
  have fine: "shardFine d n (prShards p ! i)" using shardsInv_nth[OF procInvD(3)[OF inv] i] .
  then have si: "shardInv d n (prShards p ! i)" by (simp add: shardFine_def)
  show "shardFine d n s" using shardFine_internal[OF fine a r] .
  show "shardAdvances (prShards p ! i) s" using advances_internal[OF si a r] .
  show "shStopping (ssShard s) \<Longrightarrow> shStopping (ssShard (prShards p ! i)) \<or> quiet p"
    using keeps_internal[OF si a r] by (simp add: keeps_def)
  show "set (ssAccepted (prShards p ! i)) \<subseteq> set (ssAccepted s)"
    using keeps_internal[OF si a r] by (simp add: keeps_def)
  show "deliverable s (enChan env)" if "prCalls p c = Some (SendPending i env)" for c env
    using deliverable_internal[OF a r] procInvD(4)[OF inv] that by (auto simp: pendingInv_def)
qed

text \<open>A result is received by the one sender that waits for it.\<close>

lemma procInv_emptied:
  assumes inv: "procInv k d n p" and i: "i < length (prShards p)"
    and mine: "\<And>c env. prCalls p c = Some (SendPending i env) \<Longrightarrow> enChan env \<noteq> ch"
  shows "procInv k d n (setShard i ((prShards p ! i)\<lparr>ssChans := (ssChans (prShards p ! i))(ch := None)\<rparr>) p)"
proof (rule procInv_shard[OF inv i])
  let ?s = "(prShards p ! i)\<lparr>ssChans := (ssChans (prShards p ! i))(ch := None)\<rparr>"
  show "shardFine d n ?s"
    using shardsInv_nth[OF procInvD(3)[OF inv] i] shardInv_receive by (auto simp: shardFine_def)
  show "deliverable ?s (enChan env)" if "prCalls p c = Some (SendPending i env)" for c env
    using mine[OF that] procInvD(4)[OF inv] that by (auto simp: pendingInv_def deliverable_def)
qed (simp_all add: shardAdvances_def)

lemma procInv_awaitHandlers:
  assumes inv: "procInv k d n p" and c: "prCalls p c = Some (SendPending i env)"
  shows "procInv k d n (awaitHandlers c r p)"
  using procInv_returnSend[OF inv c] procInv_goOn[OF inv c, of "SendAwaits r"] by (simp add: awaitHandlers_def)

lemma awaitHandlers_setShard:
  "awaitHandlers c r (setShard i s p) = setShard i s (awaitHandlers c r p)"
  by (simp add: proc_defs)

lemma awaitHandlers_calls:
  "\<exists>st. prCalls (awaitHandlers c r p) = (prCalls p)(c \<mapsto> st) \<and> (\<forall>i env. st \<noteq> SendPending i env)"
  "prShards (awaitHandlers c r p) = prShards p"
  by (auto simp: proc_defs)

lemma procInv_receiveResult:
  assumes inv: "procInv k d n p" and c: "prCalls p c = Some (SendPending i env)"
    and r: "receiveResult c i env p = Some p'"
  shows "procInv k d n p'"
proof -
  have pend: "pendingInv p" using procInvD(4)[OF inv] .
  obtain res where p': "p' = setShard i ((prShards p ! i)\<lparr>ssChans := (ssChans (prShards p ! i))(enChan env := None)\<rparr>)
      (awaitHandlers c res p)"
    using r by (auto simp: receiveResult_def Let_def awaitHandlers_setShard split: option.splits)
  have i: "i < length (prShards p)" using pend c by (simp add: pendingInv_def)
  obtain st where st: "prCalls (awaitHandlers c res p) = (prCalls p)(c \<mapsto> st)"
    "\<forall>i env. st \<noteq> SendPending i env" using awaitHandlers_calls(1) by blast
  have "enChan env' \<noteq> enChan env"
    if "prCalls (awaitHandlers c res p) c' = Some (SendPending i env')" for c' env'
  proof -
    have "c' \<noteq> c" "prCalls p c' = Some (SendPending i env')"
      using that st by (auto split: if_splits)
    then show ?thesis using pend c unfolding pendingInv_def by blast
  qed
  then show ?thesis
    using procInv_emptied[OF procInv_awaitHandlers[OF inv c, of res], of i "enChan env"] i
    unfolding p' by (simp add: awaitHandlers_calls(2))
qed

text \<open>A command reaches a shard only while the shard takes commands.\<close>

lemma sender_shard_open:
  assumes inv: "procInv k d n p" and c: "prCalls p c = Some st" "inSend st" and i: "i < length (prShards p)"
  shows "\<not> shStopping (ssShard (prShards p ! i)) \<and> ssDispatcher (prShards p ! i) \<noteq> Returned"
proof -
  have "\<not> quiet p" using no_sends[OF procInvD(1)[OF inv] _ c(1)] c(2) by (auto simp: quiet_def)
  then have "\<not> shStopping (ssShard (prShards p ! i))"
    using procInvD(2)[OF inv] nth_mem[OF i] by (auto simp: phaseInv_def)
  then show ?thesis
    using shardsInv_nth[OF procInvD(3)[OF inv] i] by (auto simp: shardFine_def shardInv_def gatesOk_def)
qed

lemma procInv_accepted:
  assumes inv: "procInv k d n p" and c: "prCalls p c = Some (SendEntered cmd waits)"
    and i: "i < length (prShards p)" and r: "offer env (prShards p ! i) = Some s"
    and new: "list_all (\<lambda>s. enChan env \<notin> set (ssAccepted s)) (prShards p)"
  shows "procInv k d n (setCall c (SendPending i env) (setShard i s p))" (is "procInv k d n ?p")
proof (rule procInvI)
  note fine = shardsInv_nth[OF procInvD(3)[OF inv] i]
  have "inSend (SendEntered cmd waits)" by simp
  note opened = sender_shard_open[OF inv c this i]
  have s: "ssDispatcher s = ssDispatcher (prShards p ! i)" "ssWorkers s = ssWorkers (prShards p ! i)"
    "shStopping (ssShard s) = shStopping (ssShard (prShards p ! i))"
    "ssAccepted s = ssAccepted (prShards p ! i) @ [enChan env]" "deliverable s = deliverable (prShards p ! i)"
    using r by (auto simp: offer_def deliverable_def fun_eq_iff split: if_splits)
  have fine': "shardFine d n s"
    using shardInv_offer[OF _ r] fine opened s(1) by (auto simp: shardFine_def)
  have calls: "prCalls ?p = (prCalls p)(c \<mapsto> SendPending i env)" by (simp add: proc_defs)
  show "callsInv ?p"
    by (rule callsInv_set[OF procInvD(1)[OF inv] calls])
      (use c procInvD(1)[OF inv] in \<open>simp_all add: proc_defs callsInv_def\<close>)
  show "shardsInv k d n ?p"
    using shardsInv_setShard[OF procInvD(3)[OF inv] fine', of i] by (rule shardsInv_frame) (simp_all add: setCall_def)
  have adv: "advances p ?p"
    by (rule advances_setShard[OF i, of s]) (simp_all add: proc_defs quiet_def shardAdvances_def s)
  show "phaseInv ?p"
    by (rule phaseInv_advance[OF procInvD(2)[OF inv] adv])
      (use i in \<open>auto simp: proc_defs nth_list_update s split: if_splits\<close>)
  have out: "enChan env' \<noteq> enChan env" if "prCalls p c' = Some (SendPending j env')" for c' j env'
    using that procInvD(4)[OF inv] new nth_mem[of j "prShards p"] by (fastforce simp: pendingInv_def list_all_iff)
  have "mset (ssAccepted (prShards p ! i)) = image_mset enChan (inFlight (prShards p ! i)) + mset (answered (prShards p ! i))"
    using fine by (simp add: shardFine_def shardInv_def flowOk_def)
  then have "set (answered (prShards p ! i)) \<subseteq> set (ssAccepted (prShards p ! i))"
    by (metis mset_subset_eq_add_right set_mset_mono set_mset_mset)
  then have del: "deliverable s (enChan env)"
    using new i by (auto simp: s(5) deliverable_def list_all_length)
  show "pendingInv ?p"
    using procInvD(4)[OF inv] out i del unfolding pendingInv_def calls
    by (auto simp: proc_defs nth_list_update s split: if_splits) blast
qed

lemma procInv_trySend:
  assumes inv: "procInv k d n p" and k: "0 < k" "int k < 2 ^ 63"
    and c: "prCalls p c = Some (SendEntered cmd waits)"
    and new: "list_all (\<lambda>s. ch \<notin> set (ssAccepted s)) (prShards p)"
  shows "procInv k d n (trySend zero c inHandler cerr ch ctxDone cmd waits p)"
proof -
  have ret: "procInv k d n (returnSend c ev err p)" for ev err
    using procInv_returnSend[OF inv c] by simp
  let ?i = "nat (route (prRouter p) (cmdAggregateID cmd))"
  have i: "?i < length (prShards p)"
    using procInvD(3)[OF inv] route_range[of "int k" "cmdAggregateID cmd"] k
    by (simp add: shardsInv_def nat_less_iff)
  show ?thesis
    using ret procInv_accepted[OF inv c i] new by (auto simp: trySend_def Let_def split: option.splits)
qed

lemma procInv_handlersWaited:
  assumes inv: "procInv k d n p" and c: "prCalls p c = Some (SendAwaits r)"
  shows "procInv k d n (handlersWaited c r err p)"
  using procInv_returnSend[OF inv c] by (simp add: handlersWaited_def split: option.splits)

lemma procInv_checkForget:
  assumes inv: "procInv k d n p" and c: "prCalls p c = Some (ForgetEntered agg)"
  shows "procInv k d n (checkForget c cerr agg p)"
  using procInv_returnForget[OF inv c] procInv_goOn[OF inv c, of "ForgetRunning agg"]
  by (simp add: checkForget_def)

section \<open>Shutdown\<close>

lemma procInv_startShutdown:
  assumes inv: "procInv k d n p" and c: "prCalls p c = None"
  shows "procInv k d n (startShutdown c p)" (is "procInv k d n ?p")
proof -
  let ?busy = "prShutdown p = ShuttingDownNow \<or> prShutdown p = ShutDown"
  let ?st = "if ?busy then ErrReturned (Some (Sentinel ErrAlreadyShuttingDown)) else InShutdown PhInterrupt"
  have calls: "prCalls ?p = (prCalls p)(c \<mapsto> ?st)" by (simp add: proc_defs)
  have flag: "prShuttingDown p \<longleftrightarrow> prShutdown p \<noteq> NotShutDown"
    using procInvD(1)[OF inv] by (simp add: callsInv_def)
  show ?thesis
  proof (rule procInv_call[OF inv calls])
    show "callsInv ?p"
      by (rule callsInv_set[OF procInvD(1)[OF inv] calls])
        (use c flag in \<open>auto simp: proc_defs split: if_splits\<close>)
    show "advances p ?p" by (rule advances_same) (simp_all add: proc_defs quiet_def)
  qed (auto simp: proc_defs split: if_splits)
qed

text \<open>A shutdown that enters its next phase, having changed at most what it closed.\<close>

lemma procInv_phase:
  assumes inv: "procInv k d n p" and c: "prCalls p c = Some (InShutdown ph)"
    and p': "prCalls p' = (prCalls p)(c \<mapsto> InShutdown ph')" "prShards p' = prShards p" "prRouter p' = prRouter p"
      "prSends p' = prSends p" "prForgets p' = prForgets p" "prShutdown p' = prShutdown p"
      "prShuttingDown p' = prShuttingDown p" "prDispatcher p' = prDispatcher p" "prBus p' = prBus p"
    and grow: "prDispatcherClosed p \<Longrightarrow> prDispatcherClosed p'" "prBusClosed p \<Longrightarrow> prBusClosed p'"
    and enter: "past ph' p'"
    and closed: "prDispatcherClosed p' \<Longrightarrow> prDispatcherClosed p \<or> past PhCloseDispatcher p'"
    and bus: "prBusClosed p' \<Longrightarrow> prBusClosed p \<or> past PhCloseBus p'"
  shows "procInv k d n p'"
proof (rule procInv_call[OF inv p'(1) _ _ p'(2,3) _ _ _ closed bus])
  show "callsInv p'"
    by (rule callsInv_set[OF procInvD(1)[OF inv] p'(1)])
      (use c p' procInvD(1)[OF inv] in \<open>simp_all add: callsInv_def\<close>)
  show "advances p p'" by (rule advances_same) (use p' grow in \<open>simp_all add: quiet_def\<close>)
qed (use p' enter in auto)

lemma past_setCall [simp]: "past ph (setCall c st p) = past ph p"
proof (cases ph)
  case (PhEnd r)
  then show ?thesis by (cases r) (simp_all add: setCall_def idle_def drained_def stopped_def quiet_def)
qed (simp_all add: setCall_def idle_def drained_def stopped_def quiet_def)

lemma procInv_waitFor:
  assumes inv: "procInv k d n p" and c: "prCalls p c = Some (InShutdown ph)"
    and r: "waitFor c ready err ph' p = Some p'" and enter: "ready \<Longrightarrow> past ph' p"
  shows "procInv k d n p'"
proof -
  obtain ph'' where p': "p' = setCall c (InShutdown ph'') p" "past ph'' p"
    using r enter by (auto simp: waitFor_def split: option.splits if_splits)
  show ?thesis
    by (rule procInv_phase[OF inv c, where ph' = ph'']) (use p' in \<open>simp_all add: setCall_def\<close>,
      use p' past_setCall[of ph'' c "InShutdown ph''" p] in \<open>simp add: setCall_def\<close>)
qed

lemma phase_past:
  assumes "procInv k d n p" "prCalls p c = Some (InShutdown ph)"
  shows "past ph p"
  using procInvD(2)[OF assms(1)] assms(2) by (auto simp: phaseInv_def simp del: past.simps)

lemma shutdown_flag:
  assumes "procInv k d n p" "prCalls p c = Some (InShutdown ph)"
  shows "prShuttingDown p"
  using shutdown_call_unique(1)[OF procInvD(1)[OF assms(1)] assms(2)] procInvD(1)[OF assms(1)]
  by (simp add: callsInv_def)

lemma procInv_signal:
  assumes inv: "procInv k d n p" and c: "prCalls p c = Some (InShutdown (PhSignal j))"
    and j: "j < length (prShards p)"
  shows "procInv k d n (setCall c (InShutdown (PhSignal (Suc j)))
    (setShard j ((prShards p ! j)\<lparr>ssShard := signalStop (ssShard (prShards p ! j))\<rparr>) p))"
    (is "procInv k d n (setCall c ?st ?p)")
proof -
  let ?s = "(prShards p ! j)\<lparr>ssShard := signalStop (ssShard (prShards p ! j))\<rparr>"
  have was: "quiet p" "allStopping (take j (prShards p))" using phase_past[OF inv c] by simp_all
  have fine: "shardFine d n (prShards p ! j)" using shardsInv_nth[OF procInvD(3)[OF inv] j] .
  have on: "shStopping (ssShard ?s)" "shCommands (ssShard ?s) = shCommands (ssShard (prShards p ! j))"
    using fine by (auto simp: shardFine_def shardInv_def gatesOk_def signalStop_def)
  have p1: "procInv k d n ?p"
  proof (rule procInv_shard[OF inv j])
    show "shardFine d n ?s" using fine shardInv_stop on(2) by (auto simp: shardFine_def)
    show "shardAdvances (prShards p ! j) ?s" using on by (simp add: shardAdvances_def)
    show "deliverable ?s (enChan env)" if "prCalls p c' = Some (SendPending j env)" for c' env
      using that procInvD(4)[OF inv] by (simp add: pendingInv_def)
  qed (use was in simp_all)
  have "allStopping (take (Suc j) (prShards ?p))"
    using was(2) j on(1)
    by (auto simp: setShard_def allStopping_def list_all_length nth_list_update less_Suc_eq)
  then have "past (PhSignal (Suc j)) ?p" using was(1) by (simp add: setShard_def quiet_def)
  moreover have "prCalls ?p c = Some (InShutdown (PhSignal j))" using c by (simp add: setShard_def)
  ultimately show ?thesis
    using procInv_waitFor[OF p1, of c "PhSignal j" True None "PhSignal (Suc j)"] by (simp add: waitFor_def)
qed

lemma procInv_close:
  assumes inv: "procInv k d n p" and c: "prCalls p c = Some (InShutdown ph)"
    and close: "ph = PhCloseDispatcher \<and> p1 = p\<lparr>prDispatcherClosed := True\<rparr> \<and> ph' = PhCloseBus
      \<or> ph = PhCloseBus \<and> p1 = p\<lparr>prBusClosed := True\<rparr> \<and> ph' = PhEnd None"
  shows "procInv k d n (setCall c (InShutdown ph') p1)" (is "procInv k d n ?p")
proof -
  have was: "past ph p" using phase_past[OF inv c] .
  have id: "idle (setCall c st (p\<lparr>prDispatcherClosed := b\<rparr>)) = idle p"
    "idle (setCall c st (p\<lparr>prBusClosed := b\<rparr>)) = idle p" for b st
    by (simp_all add: setCall_def idle_def drained_def stopped_def quiet_def)
  show ?thesis
    by (rule procInv_phase[OF inv c, where ph' = ph'])
      (use was close id in \<open>auto simp: setCall_def\<close>)
qed

lemma procInv_end:
  assumes inv: "procInv k d n p" and c: "prCalls p c = Some (InShutdown (PhEnd r))"
  shows "procInv k d n (setCall c (ErrReturned r) (endShutdown r p))" (is "procInv k d n ?p")
proof -
  have was: "past (PhEnd r) p" using phase_past[OF inv c] .
  have now: "prShutdown p = ShuttingDownNow" using shutdown_call_unique(1)[OF procInvD(1)[OF inv] c] .
  have calls: "prCalls ?p = (prCalls p)(c \<mapsto> ErrReturned r)" by (simp add: proc_defs)
  have adv: "advances p ?p" by (rule advances_same) (simp_all add: proc_defs quiet_def)
  show ?thesis
  proof (rule procInv_call[OF inv calls _ adv])
    show "callsInv ?p"
      by (rule callsInv_set[OF procInvD(1)[OF inv] calls])
        (use c now shutdown_flag[OF inv c] in \<open>simp_all add: proc_defs\<close>)
    show "prShutdown p = ShutDown \<or> past (PhEnd None) ?p" if "prShutdown ?p = ShutDown"
      using that was past_mono[OF adv, of "PhEnd None"] by (simp add: proc_defs split: if_splits)
  qed (simp_all add: proc_defs)
qed

lemma procInv_shutdownStep:
  assumes inv: "procInv k d n p" and c: "prCalls p c = Some (InShutdown ph)"
    and r: "shutdownStep c err ph p = Some p'"
  shows "procInv k d n p'"
proof -
  have was: "past ph p" using phase_past[OF inv c] .
  have flag: "prShuttingDown p" using shutdown_flag[OF inv c] .
  have step: "procInv k d n (setCall c (InShutdown ph') p)" if "past ph' p" for ph'
    using procInv_waitFor[OF inv c, of True None ph'] that by (simp add: waitFor_def)
  note wait = procInv_waitFor[OF inv c]
  show ?thesis
  proof (cases ph)
    case PhInterrupt
    then have "p' = setCall c (InShutdown PhSends) (if prDispatcher p then p\<lparr>prInterrupted := True\<rparr> else p)"
      using r by simp
    then show ?thesis
      by (intro procInv_phase[OF inv c, where ph' = PhSends])
        (auto simp: setCall_def split: if_splits)
  next
    case PhSends
    then show ?thesis using r wait[of "prSends p = 0"] flag by (simp add: quiet_def allStopping_def)
  next
    case (PhSignal j)
    then show ?thesis
      using r procInv_signal[OF inv, of c j] c step[of PhDispatchers] was
      by (auto simp: stopped_def split: if_splits)
  next
    case PhDispatchers
    then show ?thesis using r wait[of "dispatchersDone (prShards p)"] was by simp
  next
    case PhWorkers
    then show ?thesis using r wait[of "workersDone (prShards p)"] was by (simp add: drained_def)
  next
    case PhForgets
    then show ?thesis using r wait[of "prForgets p = 0"] was by (simp add: idle_def)
  next
    case PhCloseDispatcher
    then show ?thesis
      using r was step[of PhCloseBus] step[of "PhEnd err"] procInv_close[OF inv c, of "p\<lparr>prDispatcherClosed := True\<rparr>" PhCloseBus]
      by (cases err) (auto simp: waitFor_def split: if_splits)
  next
    case PhCloseBus
    then show ?thesis
      using r was step[of "PhEnd None"] step[of "PhEnd err"] procInv_close[OF inv c, of "p\<lparr>prBusClosed := True\<rparr>" "PhEnd None"]
      by (cases err) (auto simp: waitFor_def split: if_splits)
  next
    case (PhEnd e)
    then show ?thesis using r procInv_end[OF inv, of c e] c by simp
  qed
qed

lemma procInv_act:
  assumes inv: "procInv k d n p" and k: "0 < k" "int k < 2 ^ 63" and r: "procAct zero a p = Some p'"
  shows "procInv k d n p'"
  using r procInv_startSend[OF inv] procInv_trySend[OF inv k] procInv_receiveResult[OF inv]
    procInv_returnSend[OF inv] procInv_handlersWaited[OF inv] procInv_startForget[OF inv]
    procInv_checkForget[OF inv] procInv_returnForget[OF inv] procInv_startShutdown[OF inv]
    procInv_shutdownStep[OF inv] procInv_shardStep[OF inv]
  by (cases a) (force simp: fresh_def split: option.splits proc_call.splits if_splits)+

lemma procReachable_inv:
  "procReachable zero k d n hsD hsB p \<Longrightarrow> 0 < k \<Longrightarrow> int k < 2 ^ 63 \<Longrightarrow> procInv k d n p"
  by (induction rule: procReachable.induct) (auto intro: procInv_start procInv_act)

end
