(* ===== verification/Shard_Properties.thy ===== *)
theory Shard_Properties
  imports Shard_Correct
begin

text \<open>
  The properties of the router and of a shard: an aggregate is routed inside the range of
  shards, every accepted command is answered exactly once, one worker at a time runs an
  aggregate, and a stopped shard finishes with everything answered.
\<close>

section \<open>Concrete runs\<close>

definition quietCmd :: "string \<Rightarrow> unit command" where
  "quietCmd agg = \<lparr>cmdAggregateID = agg, cmdEventName = ''E'', cmdShouldSnapshot = False,
     cmdValidate = (\<lambda>_. None), cmdEmitEvent = (\<lambda>_. ()), cmdCommandID = None\<rparr>"

definition envelopeOn :: "string \<Rightarrow> nat \<Rightarrow> unit envelope" where
  "envelopeOn agg ch = \<lparr>enCmd = quietCmd agg, enChan = ch, enWaitHandlers = False\<rparr>"

definition noEvent :: "unit event" where
  "noEvent = \<lparr>evID = '''', evAggregateID = '''', evEventName = '''', evVersion = 0, evSchemaVersion = 0,
     evOccurredAt = '''', evAggregate = (), evPreviousAggregate = ()\<rparr>"

lemmas shard_eval = startShard_def newShard_def offer_def dispatcherStep_def dispatchJob_def
  workerStep_def workerTake_def workerClaim_def serveNext_def claim_def claimSection_def nextJob_def
  executeJob_def sendResult_def setWorker_def signalStop_def envelopeOn_def quietCmd_def Let_def

text \<open>Two commands for one aggregate, picked by two workers, of which the second claims first.\<close>

definition twoPicked :: "unit shard_action list" where
  "twoPicked = [Offer (envelopeOn ''a'' 1), Offer (envelopeOn ''a'' 2), DispatchTake, DispatchPut,
     DispatchTake, DispatchPut, WorkerTake 0, WorkerTake 1, WorkerClaim 1, WorkerClaim 0]"

definition sharedAggregate :: "unit shard_system" where
  "sharedAggregate = the (shardRun noEvent twoPicked (startShard 0 2 2))"

lemma sharedAggregate_runs: "shardRun noEvent twoPicked (startShard 0 2 2) = Some sharedAggregate"
  by (simp add: sharedAggregate_def twoPicked_def shard_eval)

lemma sharedAggregate_reachable: "shardReachable noEvent 2 2 sharedAggregate"
  using shardRun_reachable[OF shardReachable.start sharedAggregate_runs] .

lemma sharedAggregate_workers:
  "ssWorkers sharedAggregate = [Ranging, Executing ''a'' (envelopeOn ''a'' 2)]"
  by (simp add: sharedAggregate_def twoPicked_def shard_eval numeral_2_eq_2)

section \<open>Routing\<close>

text \<open>Every aggregate is routed to a shard that exists. For a positive number of shards the
  FNV-1a hash of any aggregate id, reduced modulo that number, is an index into the pool; the
  same id always gives the same index.\<close>

theorem route_in_range:
  assumes "newRouter n = Ok r" "0 < n" "n < 2 ^ 63"
  shows "0 \<le> route r agg \<and> route r agg < n"
proof -
  have "r = \<lparr>roShards = n\<rparr>" using assms(1,2) by (simp add: newRouter_def)
  then show ?thesis using route_range[OF assms(2,3)] by simp
qed

theorem route_in_range_witness:
  "0 \<le> route \<lparr>roShards = 8\<rparr> ''ORD-001'' \<and> route \<lparr>roShards = 8\<rparr> ''ORD-001'' < 8"
  by (rule route_in_range[of 8]) (simp_all add: newRouter_def)

section \<open>A shard\<close>

text \<open>C26: no accepted command is lost or answered twice. In every reachable state of a shard
  the accepted commands are exactly the answered ones and the ones waiting in a queue, in a
  mailbox or in a goroutine's hands, each once; and no goroutine sends on or closes a closed
  channel.\<close>

theorem shard_answers_once:
  assumes "shardReachable zero depth workers s"
  shows "distinct (ssAccepted s)
     \<and> mset (ssAccepted s) = image_mset enChan (inFlight s) + mset (answered s)
     \<and> \<not> shPanicked (ssShard s)"
  using shardReachable_inv[OF assms] by (simp add: shardInv_def flowOk_def gatesOk_def)

theorem shard_answers_once_witness:
  "mset (ssAccepted sharedAggregate) =
     image_mset enChan (inFlight sharedAggregate) + mset (answered sharedAggregate)"
  using shard_answers_once[OF sharedAggregate_reachable] by simp

text \<open>C27: one aggregate occupies at most one worker of its shard. Two workers that run, or are
  between two commands of, the same aggregate are the same worker; the aggregates being run
  are exactly those with a mailbox; and a mailbox never outgrows the limit.\<close>

theorem shard_runs_serially:
  assumes "shardReachable zero depth workers s"
  shows "(\<forall>w w' agg. w < length (ssWorkers s) \<longrightarrow> w' < length (ssWorkers s) \<longrightarrow>
            runsOf (ssWorkers s ! w) = Some agg \<longrightarrow> runsOf (ssWorkers s ! w') = Some agg \<longrightarrow> w = w')
     \<and> dom (shMailboxes (ssShard s)) = {agg. \<exists>st. st \<in> set (ssWorkers s) \<and> runsOf st = Some agg}
     \<and> (\<forall>agg box. shMailboxes (ssShard s) agg = Some box \<longrightarrow> length box \<le> max depth workers)"
proof (intro conjI allI impI)
  note inv = shardReachable_inv[OF assms]
  note own = shardInvD(2)[OF inv]
  note runs = ownersOkD(1,2)[OF own]
  show "w = w'" if w: "w < length (ssWorkers s)" "w' < length (ssWorkers s)"
    and r: "runsOf (ssWorkers s ! w) = Some agg" "runsOf (ssWorkers s ! w') = Some agg" for w w' agg
  proof (rule ccontr)
    assume "w \<noteq> w'"
    then have "gather runsOf ((ssWorkers s)[w := Exited]) + {#agg#} = gather runsOf (ssWorkers s)"
      "agg \<in># gather runsOf ((ssWorkers s)[w := Exited])"
      using gather_update[OF w(1), of runsOf Exited] r w
        gather_nth[of w' "(ssWorkers s)[w := Exited]" runsOf agg] by simp_all
    then have "1 < count (gather runsOf (ssWorkers s)) agg"
      by (metis add_less_cancel_right count_greater_zero_iff count_single count_union plus_nat.add_0)
    moreover have "count (gather runsOf (ssWorkers s)) agg \<le> 1" using runs by (simp add: count_mset_set')
    ultimately show False by simp
  qed
  show "dom (shMailboxes (ssShard s)) = {agg. \<exists>st. st \<in> set (ssWorkers s) \<and> runsOf st = Some agg}"
  proof -
    have "dom (shMailboxes (ssShard s)) = set_mset (gather runsOf (ssWorkers s))" using runs by simp
    then show ?thesis by (auto simp: in_gather)
  qed
  show "length box \<le> max depth workers" if "shMailboxes (ssShard s) agg = Some box" for agg box
    using ownersOkD(3)[OF own that] shardInvD(4)[OF inv] by (simp add: sizesOk_def)
qed

theorem shard_runs_serially_witness:
  "dom (shMailboxes (ssShard sharedAggregate)) = {''a''}"
  unfolding shard_runs_serially[OF sharedAggregate_reachable, THEN conjunct2, THEN conjunct1]
    sharedAggregate_workers by auto

text \<open>C28: a stopped shard drains. Once it has been told to stop and takes no new command, its
  goroutines take a bounded number of further steps, whatever the interleaving; and when none
  of them can step the dispatcher and every worker have returned and every command the shard
  ever accepted has been answered.\<close>

theorem shard_drains:
  assumes "shardReachable zero depth workers s" "0 < workers" "shStopping (ssShard s)"
    and "ssDispatcher s = Returned \<Longrightarrow> shCommands (ssShard s) = []"
    and "list_all internal as" "shardRun zero as s = Some s'"
  shows "length as \<le> work s
     \<and> (stuck zero s' \<longrightarrow> finished s' \<and> mset (answered s') = mset (ssAccepted s))"
proof (intro conjI impI)
  note r = run_internal[OF shardReachable_inv[OF assms(1)] assms(5,6)]
  show "length as \<le> work s" using r by simp
  assume st: "stuck zero s'"
  have inv: "shardInv depth workers s'" and k: "keeps s s'" using r by simp_all
  show "finished s'" using stuck_finished[OF inv assms(2) _ st] k assms(3) by (simp add: keeps_def)
  show "mset (answered s') = mset (ssAccepted s)"
    using stuck_answers[OF inv assms(2) st] k assms(4) by (simp add: keeps_def)
qed

text \<open>The two commands above, the shard told to stop with both of them inside.\<close>

definition stopRun :: "unit shard_action list" where
  "stopRun = [DispatchStop, FailOne, WorkerExecute 1 None (noEvent, None, None), WorkerNext 1,
     WorkerExecute 1 None (noEvent, None, None), WorkerNext 1, WorkerTake 0, WorkerTake 1]"

definition stoppedSystem :: "unit shard_system" where
  "stoppedSystem = the (shardRun noEvent (twoPicked @ [StopSignal]) (startShard 0 2 2))"

lemma stoppedSystem_runs:
  "shardRun noEvent (twoPicked @ [StopSignal]) (startShard 0 2 2) = Some stoppedSystem"
  by (simp add: stoppedSystem_def twoPicked_def shard_eval)

lemma stopRun_runs:
  "\<exists>s'. shardRun noEvent stopRun stoppedSystem = Some s' \<and> answered s' = [2, 1]
     \<and> ssAccepted stoppedSystem = [1, 2]"
  by (simp add: stopRun_def stoppedSystem_def twoPicked_def shard_eval numeral_2_eq_2 closeJobs_def)

theorem shard_drains_witness: "length stopRun \<le> work stoppedSystem"
proof -
  obtain s' where "shardRun noEvent stopRun stoppedSystem = Some s'" using stopRun_runs by blast
  moreover have "shardReachable noEvent 2 2 stoppedSystem"
    using shardRun_reachable[OF shardReachable.start stoppedSystem_runs] .
  moreover have "shStopping (ssShard stoppedSystem)" "ssDispatcher stoppedSystem \<noteq> Returned"
    "list_all internal stopRun"
    by (simp_all add: stoppedSystem_def twoPicked_def shard_eval stopRun_def)
  ultimately show ?thesis using shard_drains[of noEvent 2 2 stoppedSystem stopRun s'] by simp
qed

text \<open>
  The order of the answers above: a shard with two workers may execute two commands of one
  aggregate in the other order than it accepted them, as a worker's receive and its claim are
  two steps.
\<close>

theorem commands_may_overtake:
  "\<exists>as s. shardRun noEvent as (startShard 0 2 2) = Some s
     \<and> ssAccepted s = [1, 2] \<and> answered s = [2, 1]"
proof -
  let ?as = "twoPicked @ [WorkerExecute 1 None (noEvent, None, None), WorkerNext 1,
     WorkerExecute 1 None (noEvent, None, None)]"
  have "\<exists>s. shardRun noEvent ?as (startShard 0 2 2) = Some s
     \<and> ssAccepted s = [1, 2] \<and> answered s = [2, 1]"
    by (simp add: twoPicked_def shard_eval numeral_2_eq_2)
  then show ?thesis by (rule exI)
qed

end
