(* ===== verification/Processor_Properties.thy ===== *)
theory Processor_Properties
  imports Processor_Correct Shard_Properties
begin

text \<open>
  The properties of the processor: what \<open>New\<close> builds is usable, a sender
  is always answered, and a shutdown that returns nil leaves nothing running and nothing
  unanswered.
\<close>

section \<open>Configuration\<close>

definition configOk :: "('tx, 't, 'v) processor_config \<Rightarrow> bool" where
  "configOk cfg \<longleftrightarrow>
     0 < pfShards cfg \<and> 0 < pfWorkersPerShard cfg \<and> 0 < cfRetryInitial (pfDispatcher cfg)
     \<and> 0 < cfRetryMax (pfDispatcher cfg) \<and> 0 < cfMaxAttempts (pfDispatcher cfg)"

lemma configOk_applyOpt: "configOk cfg \<Longrightarrow> configOk (applyOpt opt cfg)"
  by (cases opt) (auto simp: configOk_def onDispatcher_def positiveOr_def)

lemma configOk_fold: "configOk cfg \<Longrightarrow> configOk (fold applyOpt opts cfg)"
  by (induction opts arbitrary: cfg) (auto intro: configOk_applyOpt)

lemma configOk_configure: "configOk (configure opts) \<and> 0 < pfQueueDepth (configure opts)"
proof -
  have "configOk (defaultConfig :: ('a, 'b, 'c) processor_config)"
    by (simp add: configOk_def defaultConfig_def defaultRetryInitial_def defaultRetryMax_def defaultMaxAttempts_def)
  then have "configOk (fold applyOpt opts defaultConfig)" by (rule configOk_fold)
  then show ?thesis by (auto simp: configure_def Let_def configOk_def)
qed

text \<open>A dispatcher that can be called: an interface value that is not nil, and whose dynamic value is
  not nil either, for the kinds that have a nil.\<close>

definition usable :: "'v iface \<Rightarrow> bool" where
  "usable d \<longleftrightarrow> (\<exists>k null v. d = Iface k null v \<and>
     (k \<in> {KPointer, KMap, KFunc, KSlice, KChan, KInterface} \<longrightarrow> \<not> null))"

lemma isNil_usable: "isNil d \<longleftrightarrow> \<not> usable d"
proof (cases d)
  case (Iface k null v)
  then show ?thesis by (cases k) (auto simp: usable_def)
qed (simp add: usable_def)

definition processorOk :: "'v iface option \<Rightarrow> bool \<Rightarrow> 't processor \<Rightarrow> bool" where
  "processorOk d needed p \<longleftrightarrow>
     prShards p \<noteq> []
     \<and> list_all (\<lambda>s. ssWorkers s \<noteq> [] \<and> 0 < shCommandCap (ssShard s) \<and> 0 < shJobCap (ssShard s)) (prShards p)
     \<and> (case d of None \<Rightarrow> \<not> needed | Some v \<Rightarrow> needed \<and> usable v)"

text \<open>What the factory in use makes of the configuration it is given, and the sizes \<open>make\<close> accepts.\<close>

definition produced :: "('t, 'v) dispatcher_factory \<Rightarrow> bool \<Rightarrow> ('tx, 't, 'v) processor_config \<Rightarrow> 'v iface outcome" where
  "produced dflt bus cfg =
     (case pfFactory cfg of Some f \<Rightarrow> f | None \<Rightarrow> dflt)
       ((pfDispatcher cfg)\<lparr>cfBus := bus, cfOnPublishError := pfPublishErrorHandler cfg\<rparr>)"

definition sizesOk :: "('tx, 't, 'v) processor_config \<Rightarrow> bool" where
  "sizesOk cfg \<longleftrightarrow> 8 * pfShards cfg \<le> 2 ^ 48 \<and> 8 * max (pfWorkersPerShard cfg) (pfQueueDepth cfg) \<le> 2 ^ 48 - 96"

lemma allocatePool_sizes:
  assumes "configOk cfg" "0 < pfQueueDepth cfg"
  shows "allocatePool (pfShards cfg) (pfQueueDepth cfg) (pfWorkersPerShard cfg) = Ok () \<longleftrightarrow> sizesOk cfg"
    and "allocatePool (pfShards cfg) (pfQueueDepth cfg) (pfWorkersPerShard cfg) \<noteq> Fail e"
  using assms
  by (auto simp: allocatePool_def makeSlice_def makeBuffered_def maxAlloc_def sizesOk_def configOk_def)

lemma newProcessor_ok:
  assumes "newProcessor dflt bus opts = Ok (d, p)"
  shows "processorOk d (pfFactory (configure opts) \<noteq> None \<or> bus) p"
  unfolding processorOk_def
proof (intro conjI)
  note ok = configOk_configure[of opts]
  have d: "chooseDispatcher dflt (configure opts) bus = Ok d"
    and p: "p = startProcessor (nat (pfShards (configure opts))) (nat (pfQueueDepth (configure opts)))
      (nat (pfWorkersPerShard (configure opts))) (d \<noteq> None) bus"
    using assms by (auto simp: newProcessor_def Let_def bindO_eq_Ok)
  have n: "0 < nat (pfShards (configure opts))" "0 < nat (pfWorkersPerShard (configure opts))"
    "0 < nat (pfQueueDepth (configure opts))" using ok by (auto simp: configOk_def)
  show "prShards p \<noteq> []" using n(1) by (simp add: p startProcessor_def newPool_def)
  show "list_all (\<lambda>s. ssWorkers s \<noteq> [] \<and> 0 < shCommandCap (ssShard s) \<and> 0 < shJobCap (ssShard s)) (prShards p)"
    using n by (auto simp: p startProcessor_def newPool_def startShard_def newShard_def list_all_iff)
  show "case d of None \<Rightarrow> \<not> (pfFactory (configure opts) \<noteq> None \<or> bus)
      | Some v \<Rightarrow> (pfFactory (configure opts) \<noteq> None \<or> bus) \<and> usable v"
    using d by (auto simp: chooseDispatcher_def Let_def isNil_usable split: if_splits outcome.splits)
qed

text \<open>C30: what \<open>New\<close> builds is usable, and it fails for known reasons only. Whatever the options, the
  delivery settings handed to the dispatcher factory are positive. \<open>New\<close> panics only when the
  factory does, or when a size is more than \<open>make\<close> can allocate; it returns an error only when the
  factory returned one, or a dispatcher that is nil. Otherwise there is at least one shard, each with at
  least one worker and room in its queues, and the dispatcher is absent exactly when there is neither a
  factory nor a bus, and is otherwise one that is not nil inside its interface either.\<close>

theorem new_processor_valid:
  "configOk (configure opts)
   \<and> (let cfg = configure opts; needed = (pfFactory cfg \<noteq> None \<or> bus); made = produced dflt bus cfg in
      case newProcessor dflt bus opts of
        Panic m \<Rightarrow> needed \<and> made = Panic m \<or> \<not> sizesOk cfg
      | Fail e \<Rightarrow> needed \<and> (case made of Ok d \<Rightarrow> \<not> usable d | Fail e' \<Rightarrow> True | Panic m \<Rightarrow> False)
      | Ok (d, p) \<Rightarrow> sizesOk cfg \<and> processorOk d needed p \<and> (\<forall>v. d = Some v \<longrightarrow> made = Ok v))"
proof -
  let ?cfg = "configure opts :: ('a, 'b, 'c) processor_config"
  note ok = configOk_configure[of opts]
  have r: "newRouter (pfShards ?cfg) = Ok \<lparr>roShards = pfShards ?cfg\<rparr>"
    using ok by (simp add: newRouter_def configOk_def)
  have c: "case chooseDispatcher dflt ?cfg bus of
        Panic m \<Rightarrow> (pfFactory ?cfg \<noteq> None \<or> bus) \<and> produced dflt bus ?cfg = Panic m
      | Fail e \<Rightarrow> (pfFactory ?cfg \<noteq> None \<or> bus) \<and>
          (case produced dflt bus ?cfg of Ok d \<Rightarrow> \<not> usable d | Fail e' \<Rightarrow> True | Panic m \<Rightarrow> False)
      | Ok d \<Rightarrow> (\<forall>v. d = Some v \<longrightarrow> produced dflt bus ?cfg = Ok v)"
    by (auto simp: chooseDispatcher_def produced_def Let_def isNil_usable split: option.splits outcome.splits)
  show ?thesis
    using c ok r newProcessor_ok[of dflt bus opts] allocatePool_sizes[of ?cfg]
    by (cases "chooseDispatcher dflt ?cfg bus";
        cases "allocatePool (pfShards ?cfg) (pfQueueDepth ?cfg) (pfWorkersPerShard ?cfg)")
      (auto simp: newProcessor_def Let_def split: outcome.splits)
qed

text \<open>A processor with the in-memory dispatcher, with a non-positive option that is ignored.\<close>

definition smallOpts :: "(unit, unit, (unit, unit disp) dispatcher_ops \<times> unit disp) processor_opt list" where
  "smallOpts = [OptShards 1, OptShards (-3), OptWorkersPerShard 1, OptQueueDepth 1]"

theorem new_processor_valid_witness:
  "\<exists>d p. newProcessor defaultDispatcher True smallOpts = Ok (Some d, p)
     \<and> processorOk (Some d) True p \<and> length (prShards p) = 1"
proof -
  let ?d = "Iface KPointer False (memDispatcher :: (unit, unit disp) dispatcher_ops, newDispatcher :: unit disp)"
  let ?p = "startProcessor 1 1 1 True True :: unit processor"
  have r: "newProcessor defaultDispatcher True smallOpts = Ok (Some ?d, ?p)"
    by (simp add: newProcessor_def smallOpts_def configure_def chooseDispatcher_def defaultDispatcher_def
        defaultConfig_def newRouter_def allocatePool_def makeSlice_def makeBuffered_def maxAlloc_def Let_def)
  have "processorOk (Some ?d) True ?p"
    using new_processor_valid[where opts = smallOpts and dflt = defaultDispatcher and bus = True] unfolding r by (simp add: Let_def)
  moreover have "length (prShards ?p) = 1" by (simp add: startProcessor_def newPool_def)
  ultimately show ?thesis by (intro exI conjI) (rule r)
qed

section \<open>Senders\<close>

text \<open>C25: a sender never waits for a result nobody will produce. In every reachable state in
  which the shards' goroutines cannot step, the result of every \<open>Send\<close> and \<open>SendWait\<close> that is
  waiting is in its channel, whether or not a shutdown has begun.\<close>

theorem send_never_hangs:
  assumes "procReachable zero shards depth workers hsD hsB p"
    and "0 < shards" "int shards < 2 ^ 63" "0 < workers"
    and "list_all (stuck zero) (prShards p)" "prCalls p c = Some (SendPending i env)"
  shows "procAct zero (ReceiveResult c) p \<noteq> None"
proof -
  note inv = procReachable_inv[OF assms(1-3)]
  have i: "i < length (prShards p)" "enChan env \<in> set (ssAccepted (prShards p ! i))"
    "deliverable (prShards p ! i) (enChan env)"
    using procInvD(4)[OF inv] assms(6) by (auto simp: pendingInv_def)
  have fine: "shardFine depth workers (prShards p ! i)" using shardsInv_nth[OF procInvD(3)[OF inv] i(1)] .
  have "stuck zero (prShards p ! i)" using assms(5) i(1) by (simp add: list_all_length)
  then have "mset (answered (prShards p ! i)) = mset (ssAccepted (prShards p ! i))"
    using stuck_answers[OF _ assms(4)] fine by (auto simp: shardFine_def)
  then have "enChan env \<in> set (answered (prShards p ! i))" using i(2) by (metis set_mset_mset)
  then show ?thesis
    using i(3) assms(6) by (auto simp: deliverable_def receiveResult_def Let_def)
qed

section \<open>Shutdown\<close>

text \<open>What is left of a pool that has drained.\<close>

definition poolDone :: "'t processor \<Rightarrow> bool" where
  "poolDone p \<longleftrightarrow> list_all (\<lambda>s. finished s \<and> mset (answered s) = mset (ssAccepted s)) (prShards p)"

lemma idle_poolDone:
  assumes inv: "procInv k d n p" and n: "0 < n" and id: "idle p"
  shows "poolDone p"
proof -
  have "finished s \<and> mset (answered s) = mset (ssAccepted s)" if s: "s \<in> set (prShards p)" for s
  proof -
    have fine: "shardFine d n s" using procInvD(3)[OF inv] s by (simp add: shardsInv_def list_all_iff)
    have fin: "finished s"
      using id s by (simp add: idle_def drained_def dispatchersDone_def workersDone_def finished_def list_all_iff)
    show ?thesis
      using fin fine stuck_answers[OF _ n finished_stuck[OF fin]] by (auto simp: shardFine_def)
  qed
  then show ?thesis by (simp add: poolDone_def list_all_iff)
qed

lemma shut_down_quiet:
  assumes "procReachable zero shards depth workers hsD hsB p"
    and "0 < shards" "int shards < 2 ^ 63" "0 < workers" "prShutdown p = ShutDown"
  shows "prSends p = 0 \<and> prForgets p = 0 \<and> poolDone p
    \<and> (prDispatcher p \<longrightarrow> prDispatcherClosed p) \<and> (prBus p \<longrightarrow> prBusClosed p)"
proof -
  note inv = procReachable_inv[OF assms(1-3)]
  have "idle p \<Longrightarrow> prSends p = 0 \<and> prForgets p = 0 \<and> poolDone p"
    using idle_poolDone[OF inv assms(4)] by (simp add: idle_def drained_def stopped_def quiet_def)
  then show ?thesis using procInvD(2)[OF inv] assms(5) unfolding phaseInv_def by auto
qed

text \<open>C24: a shutdown that returned nil left nothing behind, and it took things down in order.
  Once the processor is shut down no send or forget is in flight, every shard's goroutines
  have returned with every accepted command answered, and the dispatcher and the bus are
  closed. On the way, no shard is told to stop while a send is in flight or may start, the
  dispatcher is closed only after the pool has drained and the forgets have returned, and the
  bus only after the dispatcher.\<close>

theorem shutdown_complete:
  assumes "procReachable zero shards depth workers hsD hsB p"
    and "0 < shards" "int shards < 2 ^ 63" "0 < workers"
  shows "(prShutdown p = ShutDown \<longrightarrow>
            prSends p = 0 \<and> prForgets p = 0 \<and> poolDone p
            \<and> (prDispatcher p \<longrightarrow> prDispatcherClosed p) \<and> (prBus p \<longrightarrow> prBusClosed p))
     \<and> (prDispatcherClosed p \<longrightarrow> poolDone p \<and> prForgets p = 0)
     \<and> (prBusClosed p \<longrightarrow> poolDone p \<and> (prDispatcher p \<longrightarrow> prDispatcherClosed p))
     \<and> (\<forall>s \<in> set (prShards p). shStopping (ssShard s) \<longrightarrow> prSends p = 0 \<and> prShuttingDown p)"
proof -
  note inv = procReachable_inv[OF assms(1-3)]
  have ph: "phaseInv p" using procInvD(2)[OF inv] .
  have id: "idle p \<Longrightarrow> prSends p = 0 \<and> prForgets p = 0 \<and> poolDone p"
    using idle_poolDone[OF inv assms(4)] by (simp add: idle_def drained_def stopped_def quiet_def)
  show ?thesis using ph id unfolding phaseInv_def quiet_def by auto
qed

text \<open>
  A processor of one shard with one worker: a send is answered, then a shutdown runs to its
  end.
\<close>

definition oneSend :: "unit proc_action list" where
  "oneSend = [StartSend 1 (quietCmd ''a'') False, TrySend 1 False None 7 False,
     ShardStep 0 DispatchTake, ShardStep 0 DispatchPut, ShardStep 0 (WorkerTake 0),
     ShardStep 0 (WorkerClaim 0), ShardStep 0 (WorkerExecute 0 None (noEvent, None, None)),
     ShardStep 0 (WorkerNext 0)]"

lemma route_one [simp]: "route \<lparr>roShards = 1\<rparr> agg = 0"
  using route_range[of 1 agg] by simp

lemmas proc_eval = startProcessor_def newPool_def trySend_def receiveResult_def fresh_def proc_defs shard_eval

definition answeredSend :: "unit processor" where
  "answeredSend = the (procRun noEvent oneSend (startProcessor 1 1 1 True True))"

lemma answeredSend_runs:
  "procRun noEvent oneSend (startProcessor 1 1 1 True True) = Some answeredSend"
  by (simp add: answeredSend_def oneSend_def proc_eval)

lemma answeredSend_reachable: "procReachable noEvent 1 1 1 True True answeredSend"
  using procRun_reachable[OF procReachable.start answeredSend_runs] .

text \<open>A shard with nothing to do waits.\<close>

lemma waiting_stuck:
  assumes "shCommands (ssShard s) = []" "ssDispatcher s = AtSelect" "\<not> shStopping (ssShard s)"
    "shJobs (ssShard s) = []" "\<not> shJobsClosed (ssShard s)" "ssWorkers s = [Ranging]"
  shows "stuck zero s"
proof -
  have "shardAct zero a s = None" if "internal a" for a
    using that assms by (cases a) (auto simp: dispatcherStep_def workerStep_def workerTake_def Let_def)
  then show ?thesis by (simp add: stuck_def)
qed

theorem send_never_hangs_witness: "procAct noEvent (ReceiveResult 1) answeredSend \<noteq> None"
proof (rule send_never_hangs[OF answeredSend_reachable])
  show "prCalls answeredSend 1 = Some (SendPending 0 \<lparr>enCmd = quietCmd ''a'', enChan = 7, enWaitHandlers = False\<rparr>)"
    by (simp add: answeredSend_def oneSend_def proc_eval)
  have "list_all (\<lambda>s. shCommands (ssShard s) = [] \<and> ssDispatcher s = AtSelect \<and> \<not> shStopping (ssShard s)
      \<and> shJobs (ssShard s) = [] \<and> \<not> shJobsClosed (ssShard s) \<and> ssWorkers s = [Ranging]) (prShards answeredSend)"
    by (simp add: answeredSend_def oneSend_def proc_eval)
  then show "list_all (stuck noEvent) (prShards answeredSend)"
    by (rule list.pred_mono_strong) (simp add: waiting_stuck)
qed simp_all

definition oneShutdown :: "unit proc_action list" where
  "oneShutdown = [ReceiveResult 1, StartShutdown 2, ShutdownStep 2 None, ShutdownStep 2 None,
     ShutdownStep 2 None, ShutdownStep 2 None, ShardStep 0 DispatchStop, ShardStep 0 FailOne,
     ShutdownStep 2 None, ShardStep 0 (WorkerTake 0), ShutdownStep 2 None, ShutdownStep 2 None,
     ShutdownStep 2 None, ShutdownStep 2 None, ShutdownStep 2 None]"

definition shutProcessor :: "unit processor" where
  "shutProcessor = the (procRun noEvent oneShutdown answeredSend)"

lemma shutProcessor_runs: "procRun noEvent oneShutdown answeredSend = Some shutProcessor"
  by (simp add: shutProcessor_def answeredSend_def oneSend_def oneShutdown_def proc_eval closeJobs_def
      dispatchersDone_def workersDone_def)

lemma shutProcessor_state: "prShutdown shutProcessor = ShutDown"
  by (simp add: shutProcessor_def answeredSend_def oneSend_def oneShutdown_def proc_eval closeJobs_def
      dispatchersDone_def workersDone_def)

theorem shutdown_complete_witness: "poolDone shutProcessor \<and> prSends shutProcessor = 0"
proof -
  have "procReachable noEvent 1 1 1 True True shutProcessor"
    using procRun_reachable[OF answeredSend_reachable shutProcessor_runs] .
  from shutdown_complete[OF this] shutProcessor_state show ?thesis by simp
qed

end
