(* ===== verification/Bus_Exec.thy ===== *)
theory Bus_Exec
  imports Event_Store
begin

text \<open>
  \<^verbatim>\<open>internal/bus/exec/exec.go\<close> with \<^verbatim>\<open>models/subscription.go\<close>: one goroutine running one live
  subscriber's handler for one event, with its timeout, its fallback and the callbacks that
  report panics and timeouts. What the goroutine does is the log of the calls it makes, up to
  the \<open>Done\<close> of its wait group, and the log of what a handler it no longer waits for does
  afterwards.
\<close>

section \<open>Handlers and jobs\<close>

text \<open>
  How one call of a handler goes: whether it panics, whether it outlives its timeout, and, if it
  does, how much of its end still comes before the timeout is reported. A handler is told the
  instant it is called at, as its calls differ.
\<close>

record handler_run =
  hrPanic :: "string option"
  hrOutlives :: bool
  hrBefore :: nat

type_synonym 't projection_handler = "nat \<Rightarrow> ctx \<Rightarrow> 't event \<Rightarrow> handler_run"

record 't subscription_config =
  scFallback :: "'t projection_handler option"
  scTimeout :: int

text \<open>The options, applied in order to the zero configuration.\<close>

datatype 't subscription_opt =
    WithFallback "'t projection_handler option"
  | WithHandlerTimeout int

fun applySubOpt :: "'t subscription_opt \<Rightarrow> 't subscription_config \<Rightarrow> 't subscription_config" where
  "applySubOpt (WithFallback h) cfg = cfg\<lparr>scFallback := h\<rparr>"
| "applySubOpt (WithHandlerTimeout d) cfg = cfg\<lparr>scTimeout := d\<rparr>"

definition subConfig :: "'t subscription_opt list \<Rightarrow> 't subscription_config" where
  "subConfig opts = fold applySubOpt opts \<lparr>scFallback = None, scTimeout = 0\<rparr>"

text \<open>\<open>hjOnPanic\<close> and \<open>hjOnTimeout\<close>: whether the bus has callbacks of its own.\<close>

record 't handler_job =
  hjHandler :: "'t projection_handler"
  hjFallback :: "'t projection_handler option"
  hjTimeout :: int
  hjEvent :: "'t event"
  hjCtx :: ctx
  hjOnPanic :: bool
  hjOnTimeout :: bool
  hjWaitAfterTimeout :: bool

datatype which = Primary | Fallback

text \<open>The reports say whether they went to the bus's callback or to stderr.\<close>

datatype exec_event =
    Starts which
  | Ends which "string option"
  | PanicReported bool string
  | TimeoutReported bool int
  | WgDone

section \<open>Running a handler\<close>

text \<open>
  The callbacks given to \<open>executeWithTimeout\<close>; a callback that panics is recovered, so whatever
  it does is only its report.
\<close>

definition panicCallback :: "'t handler_job \<Rightarrow> string \<Rightarrow> exec_event list" where
  "panicCallback j v = [PanicReported (hjOnPanic j) v]"

definition timeoutCallback :: "'t handler_job \<Rightarrow> exec_event list" where
  "timeoutCallback j = [TimeoutReported (hjOnTimeout j) (hjTimeout j)]"

definition reportHandlerPanic :: "(string \<Rightarrow> exec_event list) option \<Rightarrow> string option \<Rightarrow> exec_event list" where
  "reportHandlerPanic onPanic recovered =
     (case (recovered, onPanic) of (Some v, Some f) \<Rightarrow> f v | _ \<Rightarrow> [])"

text \<open>\<open>runGuarded\<close> after its call: the end of the handler, then the report of its panic.\<close>

definition runGuarded :: "which \<Rightarrow> (string \<Rightarrow> exec_event list) option \<Rightarrow> handler_run \<Rightarrow> exec_event list" where
  "runGuarded w onPanic r = Ends w (hrPanic r) # reportHandlerPanic onPanic (hrPanic r)"

text \<open>
  After the timer: the report of the timeout and, if asked to, the wait for the handler. The
  second component is what happens after the return.
\<close>

definition afterTimeout ::
  "exec_event list option \<Rightarrow> bool \<Rightarrow> nat \<Rightarrow> exec_event list \<Rightarrow> exec_event list \<times> exec_event list" where
  "afterTimeout onTimeout waitAfterTimeout n ending =
     (let report = take n ending @ (case onTimeout of None \<Rightarrow> [] | Some l \<Rightarrow> l)
      in if waitAfterTimeout then (report @ drop n ending, []) else (report, drop n ending))"

text \<open>The panic that reaches the caller, what happened before the return, and what after it.\<close>

definition executeWithTimeout ::
  "which \<Rightarrow> ctx \<Rightarrow> 't projection_handler \<Rightarrow> nat \<Rightarrow> 't event \<Rightarrow> int \<Rightarrow> (string \<Rightarrow> exec_event list) option
     \<Rightarrow> exec_event list option \<Rightarrow> bool \<Rightarrow> string option \<times> exec_event list \<times> exec_event list" where
  "executeWithTimeout w c handler k ev timeout onPanic onTimeout waitAfterTimeout =
     (let r = handler k c ev in
      if timeout = 0 then (hrPanic r, [Starts w, Ends w (hrPanic r)], [])
      else (let ending = runGuarded w onPanic r in
            if \<not> hrOutlives r then (None, Starts w # ending, [])
            else (let (before, later) = afterTimeout onTimeout waitAfterTimeout (hrBefore r) ending
                  in (None, Starts w # before, later))))"

definition runFallback :: "'t handler_job \<Rightarrow> 't projection_handler \<Rightarrow> nat \<Rightarrow> exec_event list \<times> exec_event list" where
  "runFallback j f k =
     (case executeWithTimeout Fallback (hjCtx j) f k (hjEvent j) (hjTimeout j) (Some (panicCallback j))
             (Some (timeoutCallback j)) (hjWaitAfterTimeout j) of
        (recovered, before, later) \<Rightarrow>
          (before @ (case recovered of None \<Rightarrow> [] | Some v \<Rightarrow> panicCallback j v), later))"

definition fallBackOnPanic :: "'t handler_job \<Rightarrow> string option \<Rightarrow> nat \<Rightarrow> exec_event list \<times> exec_event list" where
  "fallBackOnPanic j recovered k =
     (case recovered of
        None \<Rightarrow> ([], [])
      | Some v \<Rightarrow>
          (case hjFallback j of
             None \<Rightarrow> (panicCallback j v, [])
           | Some f \<Rightarrow> (let (before, later) = runFallback j f k in (panicCallback j v @ before, later))))"

text \<open>The handler is called at instant \<open>k\<close>, a fallback at instant \<open>k'\<close>.\<close>

definition executeHandler :: "'t handler_job \<Rightarrow> nat \<Rightarrow> nat \<Rightarrow> exec_event list \<times> exec_event list" where
  "executeHandler j k k' =
     (case executeWithTimeout Primary (hjCtx j) (hjHandler j) k (hjEvent j) (hjTimeout j) (Some (panicCallback j))
             (Some (timeoutCallback j)) (hjWaitAfterTimeout j) of
        (recovered, before, later) \<Rightarrow>
          (let (before', later') = fallBackOnPanic j recovered k'
           in (before @ before' @ [WgDone], later @ later')))"

section \<open>What is observed\<close>

definition panicsOf :: "exec_event list \<Rightarrow> string list" where
  "panicsOf l = List.map_filter (\<lambda>e. case e of Ends w p \<Rightarrow> p | _ \<Rightarrow> None) l"

definition panicReports :: "exec_event list \<Rightarrow> string list" where
  "panicReports l = List.map_filter (\<lambda>e. case e of PanicReported b v \<Rightarrow> Some v | _ \<Rightarrow> None) l"

definition timeoutReports :: "exec_event list \<Rightarrow> nat" where
  "timeoutReports l = length (filter (\<lambda>e. case e of TimeoutReported b d \<Rightarrow> True | _ \<Rightarrow> False) l)"

lemmas observe_defs = panicsOf_def panicReports_def timeoutReports_def

lemmas exec_defs = executeHandler_def executeWithTimeout_def fallBackOnPanic_def runFallback_def
  afterTimeout_def runGuarded_def reportHandlerPanic_def panicCallback_def timeoutCallback_def

lemma take_pair: "take n [a, b] = (if n = 0 then [] else if n = 1 then [a] else [a, b])"
  "drop n [a, b] = (if n = 0 then [a, b] else if n = 1 then [b] else [])"
  by (cases n; cases "n - 1"; simp)+

lemma take_single: "take n [a] = (if n = 0 then [] else [a])" "drop n [a] = (if n = 0 then [a] else [])"
  by (cases n; simp)+

text \<open>Whether the handler panicked, timed out, or was replaced by its fallback.\<close>

definition primaryRun :: "'t handler_job \<Rightarrow> nat \<Rightarrow> handler_run" where
  "primaryRun j k = hjHandler j k (hjCtx j) (hjEvent j)"


text \<open>A handler that panics, with a fallback, on a job that is waited for.\<close>

definition panickingJob :: "int \<Rightarrow> int handler_job" where
  "panickingJob timeout =
     \<lparr>hjHandler = (\<lambda>k c e. \<lparr>hrPanic = Some ''boom'', hrOutlives = False, hrBefore = 0\<rparr>),
      hjFallback = Some (\<lambda>k c e. \<lparr>hrPanic = None, hrOutlives = False, hrBefore = 0\<rparr>),
      hjTimeout = timeout,
      hjEvent = \<lparr>evID = ''1'', evAggregateID = ''a'', evEventName = ''n'', evVersion = 1, evSchemaVersion = 1,
                 evOccurredAt = '''', evAggregate = 0, evPreviousAggregate = 0\<rparr>,
      hjCtx = background, hjOnPanic = False, hjOnTimeout = False, hjWaitAfterTimeout = True\<rparr>"


text \<open>
  With a timeout the panic is recovered and reported in the handler's own goroutine, and the fallback
  is not called, although \<^verbatim>\<open>models/subscription.go\<close> promises it whenever the handler panics.
\<close>

lemma fallback_without_timeout_only: "hjTimeout j \<noteq> 0 \<Longrightarrow> Starts Fallback \<notin> set (fst (executeHandler j k k') @ snd (executeHandler j k k'))"
  by (auto simp: exec_defs Let_def dest!: in_set_takeD in_set_dropD split: option.splits if_splits)

end
