(* ===== verification/Regexp.thy ===== *)
theory Regexp
  imports Prelude
begin

text \<open>
  What the library uses of Go's \<open>regexp\<close> package and of \<open>strings\<close>: \<open>QuoteMeta\<close>, \<open>SplitN\<close>,
  \<open>Join\<close>, and \<open>Compile\<close> with \<open>MatchString\<close>. Users pass arbitrary regular expressions, so the
  engine itself is an argument of the operations; the documented meaning of the constructs the
  library writes itself (literals, escapes, \<open>.*\<close>, \<open>[^.]+\<close>, \<open>^\<close> and \<open>$\<close>, in ASCII) is given by a
  parser and a matcher for that fragment, which an engine has to agree with.
\<close>

section \<open>Engines\<close>

text \<open>\<open>regexp.Compile\<close>: an error, or the \<open>MatchString\<close> of what was compiled.\<close>

type_synonym compiler = "string \<Rightarrow> goerr + (string \<Rightarrow> bool)"

definition metachars :: string where
  "metachars = CHR 0x5C # ''.+*?()|[]{}^$''"

definition quoteMeta :: "string \<Rightarrow> string" where
  "quoteMeta s = concat (map (\<lambda>c. if c \<in> set metachars then [CHR 0x5C, c] else [c]) s)"

section \<open>The fragment\<close>

datatype re_item = RLit char | RAnyStar | RNotDotPlus | RBegin | REnd

fun parseRe :: "string \<Rightarrow> re_item list option" where
  "parseRe [] = Some []"
| "parseRe (c # cs) =
     (if c = CHR 0x5C then
        (case cs of
           d # ds \<Rightarrow> if d \<in> set metachars then map_option (Cons (RLit d)) (parseRe ds) else None
         | [] \<Rightarrow> None)
      else if c = CHR ''^'' then map_option (Cons RBegin) (parseRe cs)
      else if c = CHR ''$'' then map_option (Cons REnd) (parseRe cs)
      else if c = CHR ''.'' \<and> take 1 cs = ''*'' then map_option (Cons RAnyStar) (parseRe (drop 1 cs))
      else if c = CHR ''['' \<and> take 4 cs = ''^.]+'' then map_option (Cons RNotDotPlus) (parseRe (drop 4 cs))
      else if c \<in> set metachars then None
      else map_option (Cons (RLit c)) (parseRe cs))"

text \<open>Matching from a position, which may be the start of the text, and searching from it.\<close>

function matchHere :: "re_item list \<Rightarrow> bool \<Rightarrow> string \<Rightarrow> bool" where
  "matchHere [] start s = True"
| "matchHere (RLit c # r) start s =
     (case s of [] \<Rightarrow> False | d # s' \<Rightarrow> d = c \<and> matchHere r False s')"
| "matchHere (RAnyStar # r) start s =
     (matchHere r start s
       \<or> (case s of [] \<Rightarrow> False | d # s' \<Rightarrow> d \<noteq> CHR ''\<newline>'' \<and> matchHere (RAnyStar # r) False s'))"
| "matchHere (RNotDotPlus # r) start s =
     (case s of [] \<Rightarrow> False
      | d # s' \<Rightarrow> d \<noteq> CHR ''.'' \<and> (matchHere r False s' \<or> matchHere (RNotDotPlus # r) False s'))"
| "matchHere (RBegin # r) start s = (start \<and> matchHere r start s)"
| "matchHere (REnd # r) start s = (s = [] \<and> matchHere r start s)"
  by pat_completeness auto
termination
  by (relation "measures [\<lambda>(r, _, s). length s, \<lambda>(r, _, s). length r]") auto

fun searchFrom :: "re_item list \<Rightarrow> bool \<Rightarrow> string \<Rightarrow> bool" where
  "searchFrom r start [] = matchHere r start []"
| "searchFrom r start (c # s) = (matchHere r start (c # s) \<or> searchFrom r False s)"

definition ascii :: "string \<Rightarrow> bool" where
  "ascii s \<longleftrightarrow> list_all (\<lambda>c. of_char c < (128 :: nat)) s"

text \<open>An engine that has the documented meaning on the fragment, and one that knows nothing else.\<close>

definition regexpDocumented :: "compiler \<Rightarrow> bool" where
  "regexpDocumented compile \<longleftrightarrow>
     (\<forall>p items. ascii p \<and> parseRe p = Some items \<longrightarrow>
        (\<exists>m. compile p = Inr m \<and> (\<forall>s. ascii s \<longrightarrow> m s = searchFrom items True s)))"

definition fragmentCompile :: compiler where
  "fragmentCompile p =
     (case parseRe p of
        None \<Rightarrow> Inl (OtherErr ''error parsing regexp'')
      | Some items \<Rightarrow> Inr (searchFrom items True))"

lemma fragmentCompile_documented: "regexpDocumented fragmentCompile"
  by (simp add: regexpDocumented_def fragmentCompile_def)

section \<open>Strings\<close>

text \<open>\<open>strings.SplitN(s, ".", n)\<close> and \<open>strings.Join\<close>.\<close>

fun splitN :: "nat \<Rightarrow> string \<Rightarrow> string list" where
  "splitN 0 s = []"
| "splitN (Suc 0) s = [s]"
| "splitN (Suc (Suc n)) s =
     (if CHR ''.'' \<in> set s
      then takeWhile (\<lambda>c. c \<noteq> CHR ''.'') s # splitN (Suc n) (tl (dropWhile (\<lambda>c. c \<noteq> CHR ''.'') s))
      else [s])"

fun joinWith :: "string \<Rightarrow> string list \<Rightarrow> string" where
  "joinWith sep [] = []"
| "joinWith sep [p] = p"
| "joinWith sep (p # ps) = p @ sep @ joinWith sep ps"

section \<open>Facts\<close>

lemma ascii_simps [simp]:
  "ascii []" "ascii (c # s) \<longleftrightarrow> of_char c < (128 :: nat) \<and> ascii s"
  "ascii (s @ t) \<longleftrightarrow> ascii s \<and> ascii t"
  by (simp_all add: ascii_def)

lemma quoteMeta_simps [simp]:
  "quoteMeta [] = []"
  "quoteMeta (c # s) = (if c \<in> set metachars then [CHR 0x5C, c] else [c]) @ quoteMeta s"
  by (simp_all add: quoteMeta_def)

lemma set_metachars:
  "set metachars = {CHR 0x5C, CHR ''.'', CHR ''+'', CHR ''*'', CHR ''?'', CHR ''('', CHR '')'', CHR ''|'', CHR ''['',
     CHR '']'', CHR ''{'', CHR ''}'', CHR ''^'', CHR ''$''}"
  by (auto simp: metachars_def)

lemma ascii_quoteMeta [simp]: "ascii (quoteMeta s) = ascii s"
  by (induction s) auto

lemma quoteMeta_length: "length s \<le> length (quoteMeta s)"
  by (induction s) auto

text \<open>A string is its own quotation exactly when it has no metacharacter.\<close>

lemma quoteMeta_id: "quoteMeta s = s \<longleftrightarrow> set s \<inter> set metachars = {}"
proof (induction s)
  case (Cons c s)
  have "[CHR 0x5C, c] @ quoteMeta s \<noteq> c # s"
    using quoteMeta_length[of s] by (metis append_Cons append_Nil length_Cons not_less_eq_eq order_refl list.inject)
  then show ?case using Cons by auto
qed simp

lemma parse_quoteMeta:
  "parseRe (quoteMeta s @ rest) = map_option (\<lambda>r. map RLit s @ r) (parseRe rest)"
  by (induction s) (auto simp: set_metachars option.map_comp option.map_ident comp_def)

lemma match_literal:
  "matchHere (map RLit l @ r) start s \<longleftrightarrow> (\<exists>s'. s = l @ s' \<and> matchHere r (start \<and> l = []) s')"
  by (induction l arbitrary: start s) (auto split: list.splits)

lemma match_notDotPlus:
  "matchHere (RNotDotPlus # r) start s \<longleftrightarrow>
     (\<exists>w s'. s = w @ s' \<and> w \<noteq> [] \<and> CHR ''.'' \<notin> set w \<and> matchHere r False s')"
proof (induction s arbitrary: start)
  case (Cons d s)
  have "(\<exists>w s'. d # s = w @ s' \<and> w \<noteq> [] \<and> CHR ''.'' \<notin> set w \<and> matchHere r False s') \<longleftrightarrow>
      d \<noteq> CHR ''.'' \<and> (\<exists>w s'. s = w @ s' \<and> CHR ''.'' \<notin> set w \<and> matchHere r False s')"
    (is "?L \<longleftrightarrow> ?R")
  proof
    assume ?L
    then obtain w s' where "d # s = w @ s'" "w \<noteq> []" "CHR ''.'' \<notin> set w" "matchHere r False s'" by blast
    then show ?R by (cases w) auto
  next
    assume ?R
    then obtain w s' where "d \<noteq> CHR ''.''" "s = w @ s'" "CHR ''.'' \<notin> set w" "matchHere r False s'" by blast
    then show ?L by (intro exI[of _ "d # w"] exI[of _ s']) simp
  qed
  moreover have "(\<exists>w s'. s = w @ s' \<and> CHR ''.'' \<notin> set w \<and> matchHere r False s') \<longleftrightarrow>
      matchHere r False s \<or> matchHere (RNotDotPlus # r) False s"
    unfolding Cons.IH by (metis append_Nil empty_iff list.set(1))
  ultimately show ?case unfolding matchHere.simps(4)[of r start] by simp
qed simp

lemma match_anyStar_end: "matchHere [RAnyStar, REnd] start s \<longleftrightarrow> CHR ''\<newline>'' \<notin> set s"
  by (induction s arbitrary: start) auto

lemma search_anchored: "searchFrom (RBegin # r) True s = matchHere r True s"
proof -
  have "\<not> searchFrom (RBegin # r) False t" for t by (induction t) auto
  then show ?thesis by (cases s) auto
qed

lemma search_literal: "searchFrom (map RLit l) start s \<longleftrightarrow> (\<exists>u v. s = u @ l @ v)"
  using match_literal[of l "[]"]
  by (induction s arbitrary: start) (auto simp: Cons_eq_append_conv)

end
