(* ===== verification/Bus.thy ===== *)
theory Bus
  imports Bus_Exec Regexp
begin

text \<open>
  \<^verbatim>\<open>internal/bus/channel_bus.go\<close> with \<^verbatim>\<open>internal/bus/utils\<close> and \<^verbatim>\<open>internal/bus/models\<close>: the
  in-process bus of live subscribers. Its calls run on any number of goroutines; each atomic
  load, critical section and \<open>go\<close> statement is one step. The regular expression engine is the
  argument \<open>compile\<close>.
\<close>

section \<open>Subscriptions and their index\<close>

text \<open>The source shares subscriptions by pointer; \<open>sbAddr\<close> is the pointer.\<close>

record 't subscription =
  sbAddr :: nat
  sbPattern :: string
  sbHandler :: "'t projection_handler"
  sbFallback :: "'t projection_handler option"
  sbTimeout :: int

record 't publish_index =
  ixExactSubs :: "string \<rightharpoonup> 't subscription list"
  ixRegexSubs :: "'t subscription list"

definition isExactPattern :: "string \<Rightarrow> bool" where
  "isExactPattern p \<longleftrightarrow> quoteMeta p = p"

text \<open>Reading a missing key gives a nil slice.\<close>

definition exactOf :: "'t publish_index \<Rightarrow> string \<Rightarrow> 't subscription list" where
  "exactOf idx name = (case ixExactSubs idx name of None \<Rightarrow> [] | Some l \<Rightarrow> l)"

definition indexWith :: "'t publish_index \<Rightarrow> 't subscription \<Rightarrow> 't publish_index" where
  "indexWith old sub =
     (if \<not> isExactPattern (sbPattern sub) then old\<lparr>ixRegexSubs := ixRegexSubs old @ [sub]\<rparr>
      else old\<lparr>ixExactSubs := (ixExactSubs old)(sbPattern sub \<mapsto> exactOf old (sbPattern sub) @ [sub])\<rparr>)"

definition withoutSub :: "'t subscription list \<Rightarrow> 't subscription \<Rightarrow> 't subscription list" where
  "withoutSub subs sub = filter (\<lambda>s. sbAddr s \<noteq> sbAddr sub) subs"

definition indexWithout :: "'t publish_index \<Rightarrow> 't subscription \<Rightarrow> 't publish_index" where
  "indexWithout old sub =
     (if \<not> isExactPattern (sbPattern sub) then old\<lparr>ixRegexSubs := withoutSub (ixRegexSubs old) sub\<rparr>
      else (let newSlice = withoutSub (exactOf old (sbPattern sub)) sub;
                newExact = (ixExactSubs old)(sbPattern sub := None)
            in old\<lparr>ixExactSubs :=
                 (if length newSlice > 0 then newExact(sbPattern sub \<mapsto> newSlice) else newExact)\<rparr>))"

section \<open>The bus\<close>

record 't channel_bus =
  cbSubMu :: "nat option"
  cbSubscriptions :: "string \<rightharpoonup> 't subscription"
  cbIdx :: "'t publish_index"
  cbClosed :: bool
  cbInFlight :: int
  cbCompiledPatterns :: "string \<rightharpoonup> (string \<Rightarrow> bool)"
  cbPatternErrors :: "string \<rightharpoonup> goerr"
  cbOnPanic :: bool
  cbOnTimeout :: bool

datatype bus_opt = WithBusPanicHandler bool | WithBusTimeoutHandler bool

fun applyBusOpt :: "bus_opt \<Rightarrow> 't channel_bus \<Rightarrow> 't channel_bus" where
  "applyBusOpt (WithBusPanicHandler f) b = b\<lparr>cbOnPanic := f\<rparr>"
| "applyBusOpt (WithBusTimeoutHandler f) b = b\<lparr>cbOnTimeout := f\<rparr>"

definition emptyIndex :: "'t publish_index" where
  "emptyIndex = \<lparr>ixExactSubs = Map.empty, ixRegexSubs = []\<rparr>"

definition newChannelBus :: "bus_opt list \<Rightarrow> 't channel_bus" where
  "newChannelBus opts = fold applyBusOpt opts
     \<lparr>cbSubMu = None, cbSubscriptions = Map.empty, cbIdx = emptyIndex, cbClosed = False, cbInFlight = 0,
      cbCompiledPatterns = Map.empty, cbPatternErrors = Map.empty, cbOnPanic = False, cbOnTimeout = False\<rparr>"

text \<open>
  \<open>Subscribe\<close> after its checks, with the id \<open>NewID\<close> drew and the address of the new
  subscription, and \<open>Unsubscribe\<close>. Both hold \<open>subMu\<close>.
\<close>

definition insertSub ::
  "string \<Rightarrow> nat \<Rightarrow> string \<Rightarrow> 't projection_handler \<Rightarrow> 't subscription_config \<Rightarrow> 't channel_bus \<Rightarrow> 't channel_bus" where
  "insertSub subID addr pattern handler cfg b =
     (let sub = \<lparr>sbAddr = addr, sbPattern = pattern, sbHandler = handler, sbFallback = scFallback cfg,
                 sbTimeout = scTimeout cfg\<rparr>
      in b\<lparr>cbSubscriptions := (cbSubscriptions b)(subID \<mapsto> sub), cbIdx := indexWith (cbIdx b) sub\<rparr>)"

definition unsubscribe :: "string \<Rightarrow> 't channel_bus \<Rightarrow> 't channel_bus" where
  "unsubscribe i b =
     (case cbSubscriptions b i of
        None \<Rightarrow> b
      | Some sub \<Rightarrow>
          b\<lparr>cbSubscriptions := (cbSubscriptions b)(i := None), cbIdx := indexWithout (cbIdx b) sub\<rparr>)"

text \<open>
  \<open>getCompiledPattern\<close> in its two critical sections around \<open>regexp.Compile\<close>: the lookup, and
  the store of what was compiled, which gives way to a pattern another call stored meanwhile.
\<close>

definition lookupPattern :: "string \<Rightarrow> 't channel_bus \<Rightarrow> (goerr + (string \<Rightarrow> bool)) option" where
  "lookupPattern p b =
     (case cbCompiledPatterns b p of
        Some m \<Rightarrow> Some (Inr m)
      | None \<Rightarrow> (case cbPatternErrors b p of Some e \<Rightarrow> Some (Inl e) | None \<Rightarrow> None))"

definition storePattern ::
  "string \<Rightarrow> goerr + (string \<Rightarrow> bool) \<Rightarrow> 't channel_bus \<Rightarrow> (goerr + (string \<Rightarrow> bool)) \<times> 't channel_bus" where
  "storePattern p r b =
     (case r of
        Inl e \<Rightarrow> (Inl e, b\<lparr>cbPatternErrors := (cbPatternErrors b)(p \<mapsto> e)\<rparr>)
      | Inr m \<Rightarrow>
          (case cbCompiledPatterns b p of
             Some existing \<Rightarrow> (Inr existing, b)
           | None \<Rightarrow> (Inr m, b\<lparr>cbCompiledPatterns := (cbCompiledPatterns b)(p \<mapsto> m)\<rparr>)))"

definition matchesRegex :: "goerr + (string \<Rightarrow> bool) \<Rightarrow> string \<Rightarrow> bool" where
  "matchesRegex r name = (case r of Inl e \<Rightarrow> False | Inr m \<Rightarrow> m name)"

definition makeJob :: "'t subscription \<Rightarrow> 't event \<Rightarrow> ctx \<Rightarrow> bool \<Rightarrow> bool \<Rightarrow> 't handler_job" where
  "makeJob sub ev c onPanic onTimeout =
     \<lparr>hjHandler = sbHandler sub, hjFallback = sbFallback sub, hjTimeout = sbTimeout sub, hjEvent = ev,
      hjCtx = c, hjOnPanic = onPanic, hjOnTimeout = onTimeout, hjWaitAfterTimeout = False\<rparr>"

text \<open>The job of \<open>Publish\<close>, or of \<open>PublishSync\<close>, which waits for a handler that timed out.\<close>

definition jobFor :: "bool \<Rightarrow> 't event \<Rightarrow> ctx \<Rightarrow> 't channel_bus \<Rightarrow> 't subscription \<Rightarrow> 't handler_job" where
  "jobFor sync ev c b sub =
     (let job = makeJob sub ev c (cbOnPanic b) (cbOnTimeout b)
      in if sync then job\<lparr>hjWaitAfterTimeout := True\<rparr> else job)"

section \<open>Calls and goroutines\<close>

text \<open>
  Where a call is. A \<open>Subscribe\<close> has passed its argument checks, or holds \<open>subMu\<close> and found
  the bus open. A publish (\<open>PublishSync\<close> when the flag is set) has loaded an index and walks
  its regular expressions, perhaps compiling the first of them, or starts its goroutines, or
  waits for them.
\<close>

datatype 't bus_call =
    SubEntered string "'t projection_handler" "'t subscription_config"
  | SubChecked string "'t projection_handler" "'t subscription_config"
  | PubMatching bool "'t event" ctx "'t publish_index" "'t subscription list" "'t subscription list"
  | PubCompiling bool "'t event" ctx "'t publish_index" "'t subscription list" "'t subscription list"
  | PubSpawning bool
  | PubWaiting
  | BusClosing
  | SubReturned string "goerr option"
  | UnsubReturned
  | PubReturned "goerr option"
  | CloseReturned "goerr option"

text \<open>A goroutine a publish counted in its wait group, perhaps not started yet.\<close>

record 't goroutine =
  goOwner :: nat
  goSync :: bool
  goSub :: "'t subscription"
  goJob :: "'t handler_job"
  goStarted :: bool

text \<open>The wait groups of the \<open>PublishSync\<close> calls are \<open>bsLocalWg\<close>.\<close>

record 't bus_system =
  bsBus :: "'t channel_bus"
  bsCalls :: "nat \<rightharpoonup> 't bus_call"
  bsGoroutines :: "'t goroutine list"
  bsLocalWg :: "nat \<Rightarrow> int"
  bsNext :: nat

definition startBus :: "bus_opt list \<Rightarrow> 't bus_system" where
  "startBus opts = \<lparr>bsBus = newChannelBus opts, bsCalls = Map.empty, bsGoroutines = [], bsLocalWg = (\<lambda>_. 0), bsNext = 0\<rparr>"

definition setBusCall :: "nat \<Rightarrow> 't bus_call \<Rightarrow> 't bus_system \<Rightarrow> 't bus_system" where
  "setBusCall c st s = s\<lparr>bsCalls := (bsCalls s)(c \<mapsto> st)\<rparr>"

definition setBus :: "'t channel_bus \<Rightarrow> 't bus_system \<Rightarrow> 't bus_system" where
  "setBus b s = s\<lparr>bsBus := b\<rparr>"

definition startSubscribe ::
  "nat \<Rightarrow> string \<Rightarrow> 't projection_handler option \<Rightarrow> 't subscription_opt list \<Rightarrow> 't bus_system \<Rightarrow> 't bus_system" where
  "startSubscribe c pattern handler opts s =
     (if pattern = [] then setBusCall c (SubReturned [] (Some (Sentinel ErrEmptyPattern))) s
      else case handler of
             None \<Rightarrow> setBusCall c (SubReturned [] (Some (Sentinel ErrNilHandler))) s
           | Some h \<Rightarrow> setBusCall c (SubEntered pattern h (subConfig opts)) s)"

definition checkSubscribe :: "nat \<Rightarrow> string \<Rightarrow> 't projection_handler \<Rightarrow> 't subscription_config \<Rightarrow> 't bus_system \<Rightarrow> 't bus_system option" where
  "checkSubscribe c pattern h cfg s =
     (if cbSubMu (bsBus s) \<noteq> None then None
      else if cbClosed (bsBus s) then Some (setBusCall c (SubReturned [] (Some (Sentinel ErrBusClosed))) s)
      else Some (setBusCall c (SubChecked pattern h cfg) (setBus ((bsBus s)\<lparr>cbSubMu := Some c\<rparr>) s)))"

text \<open>The id \<open>NewID\<close> draws is not one in use.\<close>

definition finishSubscribe ::
  "nat \<Rightarrow> string \<Rightarrow> string \<Rightarrow> 't projection_handler \<Rightarrow> 't subscription_config \<Rightarrow> 't bus_system \<Rightarrow> 't bus_system option" where
  "finishSubscribe c subID pattern h cfg s =
     (if cbSubscriptions (bsBus s) subID \<noteq> None then None
      else Some (setBusCall c (SubReturned subID None)
             (setBus ((insertSub subID (bsNext s) pattern h cfg (bsBus s))\<lparr>cbSubMu := None\<rparr>) s)\<lparr>bsNext := Suc (bsNext s)\<rparr>))"

definition doUnsubscribe :: "nat \<Rightarrow> string \<Rightarrow> 't bus_system \<Rightarrow> 't bus_system option" where
  "doUnsubscribe c i s =
     (if cbSubMu (bsBus s) \<noteq> None then None
      else Some (setBusCall c UnsubReturned (setBus (unsubscribe i (bsBus s)) s)))"

text \<open>A publish up to the load of the index, given what \<open>ctx.Err\<close> answered.\<close>

definition startPublish :: "nat \<Rightarrow> bool \<Rightarrow> goerr option \<Rightarrow> ctx \<Rightarrow> 't event \<Rightarrow> 't bus_system \<Rightarrow> 't bus_system" where
  "startPublish c sync cerr cx ev s =
     (case cerr of
        Some e \<Rightarrow> setBusCall c (PubReturned (Some e)) s
      | None \<Rightarrow>
          (let idx = cbIdx (bsBus s)
           in setBusCall c (PubMatching sync ev cx idx (ixRegexSubs idx) []) s))"

definition matchedNext ::
  "nat \<Rightarrow> bool \<Rightarrow> 't event \<Rightarrow> ctx \<Rightarrow> 't publish_index \<Rightarrow> 't subscription \<Rightarrow> 't subscription list \<Rightarrow> 't subscription list
     \<Rightarrow> goerr + (string \<Rightarrow> bool) \<Rightarrow> 't bus_system \<Rightarrow> 't bus_system" where
  "matchedNext c sync ev cx idx sub rest matched r s =
     setBusCall c (PubMatching sync ev cx idx rest
       (if matchesRegex r (evEventName ev) then matched @ [sub] else matched)) s"

text \<open>
  The closed check together with the \<open>Add\<close> on the wait group, under \<open>publishMu\<close>: from here on
  the goroutines are counted.
\<close>

definition admitPublish ::
  "nat \<Rightarrow> bool \<Rightarrow> 't event \<Rightarrow> ctx \<Rightarrow> 't publish_index \<Rightarrow> 't subscription list \<Rightarrow> 't bus_system \<Rightarrow> 't bus_system" where
  "admitPublish c sync ev cx idx regexMatches s =
     (let b = bsBus s;
          subs = exactOf idx (evEventName ev) @ regexMatches;
          total = int (length subs)
      in if cbClosed b then setBusCall c (PubReturned (Some (Sentinel ErrBusClosed))) s
         else setBusCall c (PubSpawning sync)
                (s\<lparr>bsBus := (if sync then b else b\<lparr>cbInFlight := cbInFlight b + total\<rparr>),
                   bsLocalWg := (if sync then (bsLocalWg s)(c := total) else bsLocalWg s),
                   bsGoroutines := bsGoroutines s @
                     map (\<lambda>sub. \<lparr>goOwner = c, goSync = sync, goSub = sub, goJob = jobFor sync ev cx b sub,
                                 goStarted = False\<rparr>) subs\<rparr>))"

text \<open>The \<open>go\<close> statements, in order.\<close>

fun spawnFirst :: "nat \<Rightarrow> 't goroutine list \<Rightarrow> 't goroutine list option" where
  "spawnFirst c [] = None"
| "spawnFirst c (g # gs) =
     (if goOwner g = c \<and> \<not> goStarted g then Some (g\<lparr>goStarted := True\<rparr> # gs)
      else map_option (Cons g) (spawnFirst c gs))"

definition spawnNext :: "nat \<Rightarrow> bool \<Rightarrow> 't bus_system \<Rightarrow> 't bus_system" where
  "spawnNext c sync s =
     (case spawnFirst c (bsGoroutines s) of
        Some gs \<Rightarrow> s\<lparr>bsGoroutines := gs\<rparr>
      | None \<Rightarrow> setBusCall c (if sync then PubWaiting else PubReturned None) s)"

text \<open>
  \<open>ExecuteHandler\<close> of the \<open>n\<close>-th goroutine returns: its \<open>Done\<close>. On the path of \<open>Publish\<close>, which does
  not wait after a timeout, the handler itself may still be running then (\<open>Bus_Exec\<close> has what it still does).
\<close>

definition handlerDone :: "nat \<Rightarrow> 't bus_system \<Rightarrow> 't bus_system option" where
  "handlerDone n s =
     (if n < length (bsGoroutines s) \<and> goStarted (bsGoroutines s ! n)
      then (let g = bsGoroutines s ! n;
                s' = s\<lparr>bsGoroutines := take n (bsGoroutines s) @ drop (Suc n) (bsGoroutines s)\<rparr>
            in Some (if goSync g then s'\<lparr>bsLocalWg := (bsLocalWg s)(goOwner g := bsLocalWg s (goOwner g) - 1)\<rparr>
                     else setBus ((bsBus s)\<lparr>cbInFlight := cbInFlight (bsBus s) - 1\<rparr>) s'))
      else None)"

section \<open>Every interleaving\<close>

datatype 't bus_action =
    StartSubscribe nat string "'t projection_handler option" "'t subscription_opt list"
  | CheckSubscribe nat
  | FinishSubscribe nat string
  | Unsubscribe nat string
  | StartPublish nat bool "goerr option" ctx "'t event"
  | MatchNext nat
  | Compiled nat
  | AdmitPublish nat
  | SpawnNext nat
  | HandlerDone nat
  | SyncDone nat
  | StartClose nat
  | CloseReturns nat "goerr option"

definition freshCall :: "nat \<Rightarrow> 't bus_system \<Rightarrow> bool" where
  "freshCall c s \<longleftrightarrow> bsCalls s c = None"

fun busAct :: "compiler \<Rightarrow> 't bus_action \<Rightarrow> 't bus_system \<Rightarrow> 't bus_system option" where
  "busAct compile (StartSubscribe c pattern handler opts) s =
     (if freshCall c s then Some (startSubscribe c pattern handler opts s) else None)"
| "busAct compile (CheckSubscribe c) s =
     (case bsCalls s c of Some (SubEntered pattern h cfg) \<Rightarrow> checkSubscribe c pattern h cfg s | _ \<Rightarrow> None)"
| "busAct compile (FinishSubscribe c subID) s =
     (case bsCalls s c of Some (SubChecked pattern h cfg) \<Rightarrow> finishSubscribe c subID pattern h cfg s | _ \<Rightarrow> None)"
| "busAct compile (Unsubscribe c i) s = (if freshCall c s then doUnsubscribe c i s else None)"
| "busAct compile (StartPublish c sync cerr cx ev) s =
     (if freshCall c s then Some (startPublish c sync cerr cx ev s) else None)"
| "busAct compile (MatchNext c) s =
     (case bsCalls s c of
        Some (PubMatching sync ev cx idx (sub # rest) matched) \<Rightarrow>
          Some (case lookupPattern (sbPattern sub) (bsBus s) of
                  Some r \<Rightarrow> matchedNext c sync ev cx idx sub rest matched r s
                | None \<Rightarrow> setBusCall c (PubCompiling sync ev cx idx (sub # rest) matched) s)
      | _ \<Rightarrow> None)"
| "busAct compile (Compiled c) s =
     (case bsCalls s c of
        Some (PubCompiling sync ev cx idx (sub # rest) matched) \<Rightarrow>
          (case storePattern (sbPattern sub) (compile (sbPattern sub)) (bsBus s) of
             (r, b) \<Rightarrow> Some (matchedNext c sync ev cx idx sub rest matched r (setBus b s)))
      | _ \<Rightarrow> None)"
| "busAct compile (AdmitPublish c) s =
     (case bsCalls s c of
        Some (PubMatching sync ev cx idx [] matched) \<Rightarrow> Some (admitPublish c sync ev cx idx matched s)
      | _ \<Rightarrow> None)"
| "busAct compile (SpawnNext c) s =
     (case bsCalls s c of Some (PubSpawning sync) \<Rightarrow> Some (spawnNext c sync s) | _ \<Rightarrow> None)"
| "busAct compile (HandlerDone n) s = handlerDone n s"
| "busAct compile (SyncDone c) s =
     (case bsCalls s c of
        Some PubWaiting \<Rightarrow> if bsLocalWg s c = 0 then Some (setBusCall c (PubReturned None) s) else None
      | _ \<Rightarrow> None)"
| "busAct compile (StartClose c) s =
     (if freshCall c s then Some (setBusCall c BusClosing (setBus ((bsBus s)\<lparr>cbClosed := True\<rparr>) s)) else None)"
| "busAct compile (CloseReturns c err) s =
     (case bsCalls s c of
        Some BusClosing \<Rightarrow>
          if err = None \<and> cbInFlight (bsBus s) \<noteq> 0 then None
          else Some (setBusCall c (CloseReturned err) s)
      | _ \<Rightarrow> None)"

inductive busReachable :: "compiler \<Rightarrow> bus_opt list \<Rightarrow> 't bus_system \<Rightarrow> bool" for compile opts where
  start: "busReachable compile opts (startBus opts)"
| act: "busReachable compile opts s \<Longrightarrow> busAct compile a s = Some s' \<Longrightarrow> busReachable compile opts s'"

fun busRun :: "compiler \<Rightarrow> 't bus_action list \<Rightarrow> 't bus_system \<Rightarrow> 't bus_system option" where
  "busRun compile [] s = Some s"
| "busRun compile (a # as) s = Option.bind (busAct compile a s) (busRun compile as)"

lemma busRun_reachable:
  "busReachable compile opts s \<Longrightarrow> busRun compile as s = Some s' \<Longrightarrow> busReachable compile opts s'"
  by (induction as arbitrary: s) (auto simp: bind_eq_Some_conv intro: busReachable.act)

end
