(* ===== verification/Bus_Correct.thy ===== *)
theory Bus_Correct
  imports Bus
begin

text \<open>
  The theory of the bus: the contract of the subscription index, and the invariant of every
  interleaving of its calls. The index holds exactly the registered subscriptions, the pattern
  cache agrees with the engine, and the wait groups count exactly the goroutines.
\<close>

section \<open>The subscription index\<close>

text \<open>
  What the bus relies on: an index holds a set of subscriptions, operations build a new index
  that holds one more or one less, and a lookup finds the relevant ones, each once.
\<close>

locale subscription_index =
  fixes empty :: 'i
    and add :: "'i \<Rightarrow> 's \<Rightarrow> 'i"
    and del :: "'i \<Rightarrow> 's \<Rightarrow> 'i"
    and find :: "'i \<Rightarrow> string \<Rightarrow> 's list"
    and holds :: "'i \<Rightarrow> 's set \<Rightarrow> bool"
    and fresh :: "'s \<Rightarrow> 's set \<Rightarrow> bool"
    and relevant :: "'s \<Rightarrow> string \<Rightarrow> bool"
  assumes holds_empty: "holds empty {}"
    and holds_add: "holds i S \<Longrightarrow> fresh x S \<Longrightarrow> holds (add i x) (insert x S)"
    and holds_del: "holds i S \<Longrightarrow> x \<in> S \<Longrightarrow> holds (del i x) (S - {x})"
    and find_relevant: "holds i S \<Longrightarrow> set (find i name) = {x \<in> S. relevant x name}"
    and find_once: "holds i S \<Longrightarrow> distinct (find i name)"
begin

text \<open>An index built before a change still answers from the set it was built for.\<close>

lemma find_stable: "holds i S \<Longrightarrow> fresh x S \<Longrightarrow> relevant x name \<Longrightarrow> x \<notin> S \<Longrightarrow>
    x \<in> set (find (add i x) name) \<and> x \<notin> set (find i name)"
  using holds_add find_relevant by blast

text \<open>Subscribing and unsubscribing leaves what was found before.\<close>

lemma find_add_del:
  assumes "holds i S" "fresh x S" "x \<notin> S"
  shows "set (find (del (add i x) x) name) = set (find i name)"
proof -
  have "holds (del (add i x) x) (insert x S - {x})" by (rule holds_del[OF holds_add[OF assms(1,2)] insertI1])
  then show ?thesis using find_relevant assms by fastforce
qed

end

text \<open>The reference meaning of a pattern: an exact name, or an unanchored regular expression.\<close>

definition patternMatches :: "compiler \<Rightarrow> string \<Rightarrow> string \<Rightarrow> bool" where
  "patternMatches compile p name = (if isExactPattern p then name = p else matchesRegex (compile p) name)"

definition indexHolds :: "'t publish_index \<Rightarrow> 't subscription set \<Rightarrow> bool" where
  "indexHolds idx S \<longleftrightarrow> inj_on sbAddr S
     \<and> (\<forall>p. distinct (map sbAddr (exactOf idx p)) \<and> set (exactOf idx p) = {x \<in> S. sbPattern x = p \<and> isExactPattern p})
     \<and> distinct (map sbAddr (ixRegexSubs idx)) \<and> set (ixRegexSubs idx) = {x \<in> S. \<not> isExactPattern (sbPattern x)}"

definition indexFind :: "compiler \<Rightarrow> 't publish_index \<Rightarrow> string \<Rightarrow> 't subscription list" where
  "indexFind compile idx name =
     exactOf idx name @ filter (\<lambda>x. matchesRegex (compile (sbPattern x)) name) (ixRegexSubs idx)"

definition freshAddr :: "'t subscription \<Rightarrow> 't subscription set \<Rightarrow> bool" where
  "freshAddr x S \<longleftrightarrow> sbAddr x \<notin> sbAddr ` S"

lemma indexHolds_with:
  assumes "indexHolds idx S" "freshAddr x S"
  shows "indexHolds (indexWith idx x) (insert x S)"
proof -
  note ih = assms(1)[unfolded indexHolds_def]
  have new: "distinct (map sbAddr (l @ [x]))" if "set l \<subseteq> S" "distinct (map sbAddr l)" for l
    using assms(2) that by (auto simp: freshAddr_def)
  have eo: "exactOf (indexWith idx x) p =
      (if isExactPattern (sbPattern x) \<and> p = sbPattern x then exactOf idx p @ [x] else exactOf idx p)" for p
    by (simp add: indexWith_def exactOf_def)
  have er: "ixRegexSubs (indexWith idx x) =
      (if isExactPattern (sbPattern x) then ixRegexSubs idx else ixRegexSubs idx @ [x])"
    by (simp add: indexWith_def)
  have "inj_on sbAddr (insert x S)" using ih assms(2) by (auto simp: freshAddr_def)
  moreover have "distinct (map sbAddr (exactOf (indexWith idx x) p))" for p
    unfolding eo using ih new[of "exactOf idx p"] by auto
  moreover have "distinct (map sbAddr (ixRegexSubs (indexWith idx x)))"
    unfolding er using ih new[of "ixRegexSubs idx"] by auto
  moreover have "set (exactOf (indexWith idx x) p) = {y \<in> insert x S. sbPattern y = p \<and> isExactPattern p}" for p
    unfolding eo using ih by auto
  moreover have "set (ixRegexSubs (indexWith idx x)) = {y \<in> insert x S. \<not> isExactPattern (sbPattern y)}"
    unfolding er using ih by auto
  ultimately show ?thesis unfolding indexHolds_def by simp
qed

lemma withoutSub_set:
  "inj_on sbAddr S \<Longrightarrow> x \<in> S \<Longrightarrow> set l \<subseteq> S \<Longrightarrow> set (withoutSub l x) = set l - {x}"
  by (auto simp: withoutSub_def inj_on_def)

lemma distinct_withoutSub: "distinct (map sbAddr l) \<Longrightarrow> distinct (map sbAddr (withoutSub l x))"
  by (simp add: withoutSub_def distinct_map_filter)

lemma indexHolds_without:
  assumes "indexHolds idx S" "x \<in> S"
  shows "indexHolds (indexWithout idx x) (S - {x})"
proof -
  have inj: "inj_on sbAddr S" and ex: "set (exactOf idx p) = {y \<in> S. sbPattern y = p \<and> isExactPattern p}"
    "distinct (map sbAddr (exactOf idx p))" and rx: "set (ixRegexSubs idx) = {y \<in> S. \<not> isExactPattern (sbPattern y)}"
    "distinct (map sbAddr (ixRegexSubs idx))" for p
    using assms(1) by (auto simp: indexHolds_def)
  have ws: "set (withoutSub (exactOf idx p) x) = set (exactOf idx p) - {x}"
    "set (withoutSub (ixRegexSubs idx) x) = set (ixRegexSubs idx) - {x}" for p
    using withoutSub_set[OF inj assms(2)] ex rx by auto
  have eo: "exactOf (indexWithout idx x) p =
      (if isExactPattern (sbPattern x) \<and> p = sbPattern x then withoutSub (exactOf idx p) x else exactOf idx p)" for p
    by (auto simp: indexWithout_def exactOf_def Let_def split: option.splits)
  have er: "ixRegexSubs (indexWithout idx x) =
      (if isExactPattern (sbPattern x) then ixRegexSubs idx else withoutSub (ixRegexSubs idx) x)"
    by (simp add: indexWithout_def Let_def)
  have "inj_on sbAddr (S - {x})" using inj by (rule inj_on_diff)
  then show ?thesis
    unfolding indexHolds_def eo er
    using ws ex rx distinct_withoutSub[OF ex(2)] distinct_withoutSub[OF rx(2)] by auto
qed

lemma indexFind_set: "indexHolds idx S \<Longrightarrow> set (indexFind compile idx name) = {x \<in> S. patternMatches compile (sbPattern x) name}"
  by (auto simp: indexHolds_def indexFind_def patternMatches_def)

lemma indexFind_distinct:
  assumes "indexHolds idx S"
  shows "distinct (indexFind compile idx name)"
proof -
  have "distinct (exactOf idx name)" "distinct (ixRegexSubs idx)"
    using assms by (auto simp: indexHolds_def distinct_map)
  moreover have "set (exactOf idx name) \<inter> set (ixRegexSubs idx) = {}" using assms by (auto simp: indexHolds_def)
  ultimately show ?thesis by (auto simp: indexFind_def)
qed

interpretation ix: subscription_index emptyIndex indexWith indexWithout "indexFind compile" indexHolds freshAddr
  "\<lambda>x name. patternMatches compile (sbPattern x) name"
  for compile
proof unfold_locales
  show "indexHolds emptyIndex {}" by (simp add: indexHolds_def emptyIndex_def exactOf_def)
qed (simp_all add: indexHolds_with indexHolds_without indexFind_set indexFind_distinct)

section \<open>The invariants\<close>

text \<open>The index and the table of subscriptions agree; addresses are not reused.\<close>

definition subsInv :: "'t bus_system \<Rightarrow> bool" where
  "subsInv s \<longleftrightarrow>
     indexHolds (cbIdx (bsBus s)) (ran (cbSubscriptions (bsBus s)))
   \<and> inj_on (cbSubscriptions (bsBus s)) (dom (cbSubscriptions (bsBus s)))
   \<and> (\<forall>x \<in> ran (cbSubscriptions (bsBus s)). sbAddr x < bsNext s)"

text \<open>The cache holds what the engine answers.\<close>

definition cacheInv :: "compiler \<Rightarrow> 't bus_system \<Rightarrow> bool" where
  "cacheInv compile s \<longleftrightarrow>
     (\<forall>p m. cbCompiledPatterns (bsBus s) p = Some m \<longrightarrow> compile p = Inr m)
   \<and> (\<forall>p e. cbPatternErrors (bsBus s) p = Some e \<longrightarrow> compile p = Inl e)"

text \<open>A publish that is matching has taken the matching ones of those it walked.\<close>

definition walked :: "compiler \<Rightarrow> 't event \<Rightarrow> 't publish_index \<Rightarrow> 't subscription list \<Rightarrow> 't subscription list \<Rightarrow> bool" where
  "walked compile ev idx rest matched \<longleftrightarrow>
     (\<exists>front. ixRegexSubs idx = front @ rest
        \<and> matched = filter (\<lambda>x. matchesRegex (compile (sbPattern x)) (evEventName ev)) front)"

definition matchInv :: "compiler \<Rightarrow> 't bus_system \<Rightarrow> bool" where
  "matchInv compile s \<longleftrightarrow>
     (\<forall>c sync ev cx idx rest matched.
        bsCalls s c = Some (PubMatching sync ev cx idx rest matched)
          \<or> bsCalls s c = Some (PubCompiling sync ev cx idx rest matched) \<longrightarrow> walked compile ev idx rest matched)"

text \<open>The wait groups count the goroutines, and a goroutine belongs to a publish.\<close>

fun ownsGoroutine :: "bool \<Rightarrow> bool \<Rightarrow> 't bus_call option \<Rightarrow> bool" where
  "ownsGoroutine sync started (Some (PubSpawning sync')) = (sync' = sync)"
| "ownsGoroutine sync started (Some PubWaiting) = (sync \<and> started)"
| "ownsGoroutine sync started (Some (PubReturned None)) = (\<not> sync \<and> started)"
| "ownsGoroutine sync started _ = False"

definition asyncCount :: "'t goroutine list \<Rightarrow> nat" where
  "asyncCount gs = length (filter (\<lambda>g. \<not> goSync g) gs)"

definition syncCount :: "nat \<Rightarrow> 't goroutine list \<Rightarrow> nat" where
  "syncCount c gs = length (filter (\<lambda>g. goSync g \<and> goOwner g = c) gs)"

definition countInv :: "'t bus_system \<Rightarrow> bool" where
  "countInv s \<longleftrightarrow>
     cbInFlight (bsBus s) = int (asyncCount (bsGoroutines s))
   \<and> (\<forall>c. bsLocalWg s c = int (syncCount c (bsGoroutines s)))
   \<and> (\<forall>g \<in> set (bsGoroutines s). ownsGoroutine (goSync g) (goStarted g) (bsCalls s (goOwner g)))"

text \<open>A closed bus stays closed, and one whose \<open>Close\<close> returned nil has nothing in flight.\<close>

definition closeInv :: "'t bus_system \<Rightarrow> bool" where
  "closeInv s \<longleftrightarrow>
     (\<forall>c err. bsCalls s c = Some BusClosing \<or> bsCalls s c = Some (CloseReturned err) \<longrightarrow> cbClosed (bsBus s))
   \<and> (\<forall>c. bsCalls s c = Some (CloseReturned None) \<longrightarrow> cbInFlight (bsBus s) = 0)"

section \<open>Preservation\<close>

lemmas call_defs = setBusCall_def setBus_def startSubscribe_def checkSubscribe_def finishSubscribe_def
  doUnsubscribe_def startPublish_def matchedNext_def admitPublish_def spawnNext_def handlerDone_def
  freshCall_def

lemmas act_splits = if_splits option.splits bus_call.splits list.splits prod.splits

lemma ran_remove: "inj_on m (dom m) \<Longrightarrow> m i = Some x \<Longrightarrow> ran (m(i := None)) = ran m - {x}"
  by (auto simp: ran_def inj_on_def dom_def) (metis option.inject)

lemma insertSub_inv:
  assumes "subsInv s" "cbSubscriptions (bsBus s) subID = None"
    and "bsBus s' = (insertSub subID (bsNext s) p h cfg (bsBus s))\<lparr>cbSubMu := mu\<rparr>" "bsNext s' = Suc (bsNext s)"
  shows "subsInv s'"
proof -
  let ?m = "cbSubscriptions (bsBus s)"
  define x where "x = \<lparr>sbAddr = bsNext s, sbPattern = p, sbHandler = h, sbFallback = scFallback cfg, sbTimeout = scTimeout cfg\<rparr>"
  have addr: "sbAddr x = bsNext s" by (simp add: x_def)
  have new: "cbSubscriptions (bsBus s') = ?m(subID \<mapsto> x)" "cbIdx (bsBus s') = indexWith (cbIdx (bsBus s)) x"
    using assms(3) by (simp_all add: insertSub_def x_def Let_def)
  have old: "indexHolds (cbIdx (bsBus s)) (ran ?m)" "inj_on ?m (dom ?m)" "\<forall>y \<in> ran ?m. sbAddr y < bsNext s"
    using assms(1) by (simp_all add: subsInv_def)
  have fr: "freshAddr x (ran ?m)" using old(3) by (auto simp: freshAddr_def addr)
  have "x \<notin> ran ?m" using old(3) addr by auto
  then have "inj_on (?m(subID \<mapsto> x)) (dom (?m(subID \<mapsto> x)))"
    using old(2) assms(2) by (auto simp: inj_on_def ran_def dom_def)
  moreover have "ran (?m(subID \<mapsto> x)) = insert x (ran ?m)" using assms(2) by (rule ran_map_upd)
  ultimately show ?thesis
    using ix.holds_add[OF old(1) fr] old(3) by (auto simp: subsInv_def new assms(4) addr)
qed

lemma unsubscribe_inv:
  assumes "subsInv s" "bsBus s' = unsubscribe i (bsBus s)" "bsNext s' = bsNext s"
  shows "subsInv s'"
proof (cases "cbSubscriptions (bsBus s) i")
  case None
  then show ?thesis using assms by (simp add: subsInv_def unsubscribe_def)
next
  case (Some x)
  let ?m = "cbSubscriptions (bsBus s)"
  have old: "indexHolds (cbIdx (bsBus s)) (ran ?m)" "inj_on ?m (dom ?m)" "\<forall>y \<in> ran ?m. sbAddr y < bsNext s"
    using assms(1) by (simp_all add: subsInv_def)
  have "x \<in> ran ?m" using Some by (auto simp: ran_def)
  moreover have "inj_on (?m(i := None)) (dom (?m(i := None)))" using old(2) by (auto simp: inj_on_def)
  ultimately show ?thesis
    using ix.holds_del[OF old(1)] old Some assms(2,3) ran_remove[OF old(2) Some]
    by (simp add: subsInv_def unsubscribe_def)
qed

lemma subs_kept:
  assumes "busAct compile a s = Some s'" "\<forall>c i. a \<noteq> FinishSubscribe c i \<and> a \<noteq> Unsubscribe c i"
  shows "cbSubscriptions (bsBus s') = cbSubscriptions (bsBus s) \<and> cbIdx (bsBus s') = cbIdx (bsBus s) \<and> bsNext s' = bsNext s"
  using assms
  by (cases a) (auto simp: call_defs storePattern_def Let_def split: act_splits sum.splits)

lemma subsInv_act:
  assumes "subsInv s" "busAct compile a s = Some s'"
  shows "subsInv s'"
proof -
  consider c i where "a = FinishSubscribe c i" | c i where "a = Unsubscribe c i"
    | "\<forall>c i. a \<noteq> FinishSubscribe c i \<and> a \<noteq> Unsubscribe c i" by blast
  then show ?thesis
  proof cases
    case (1 c i)
    then show ?thesis
      using assms(2) by (auto simp: call_defs split: act_splits intro!: insertSub_inv[OF assms(1), of i])
  next
    case (2 c i)
    then show ?thesis
      using assms(2) by (auto simp: call_defs split: act_splits intro!: unsubscribe_inv[OF assms(1), of _ i])
  next
    case 3
    then show ?thesis using subs_kept[OF assms(2)] assms(1) by (simp add: subsInv_def)
  qed
qed

lemma cacheInv_act:
  assumes "cacheInv compile s" "busAct compile a s = Some s'"
  shows "cacheInv compile s'"
  using assms
  by (cases a) (auto simp: call_defs cacheInv_def storePattern_def insertSub_def unsubscribe_def Let_def split: act_splits sum.splits)

lemma walked_step:
  assumes "walked compile ev idx (x # rest) matched" "matchesRegex r = matchesRegex (compile (sbPattern x))"
  shows "walked compile ev idx rest (if matchesRegex r (evEventName ev) then matched @ [x] else matched)"
proof -
  obtain front where "ixRegexSubs idx = front @ x # rest"
    "matched = filter (\<lambda>x. matchesRegex (compile (sbPattern x)) (evEventName ev)) front"
    using assms(1) unfolding walked_def by blast
  then show ?thesis using assms(2) unfolding walked_def by (intro exI[of _ "front @ [x]"]) simp
qed

text \<open>Where a matching publish comes from.\<close>

lemma matching_origin:
  assumes "busAct compile a s = Some s'" "bsCalls s' c = Some (PubMatching sync ev cx idx rest matched)"
  shows "bsCalls s c = bsCalls s' c
     \<or> a = StartPublish c sync None cx ev \<and> idx = cbIdx (bsBus s) \<and> rest = ixRegexSubs idx \<and> matched = []
     \<or> (\<exists>x m r. matched = (if matchesRegex r (evEventName ev) then m @ [x] else m)
          \<and> (bsCalls s c = Some (PubMatching sync ev cx idx (x # rest) m) \<and> lookupPattern (sbPattern x) (bsBus s) = Some r
            \<or> bsCalls s c = Some (PubCompiling sync ev cx idx (x # rest) m)
                \<and> r = fst (storePattern (sbPattern x) (compile (sbPattern x)) (bsBus s))))"
proof (cases "bsCalls s c = bsCalls s' c")
  case False
  show ?thesis
  proof (cases a)
    case (MatchNext c')
    then show ?thesis using assms False
      by (auto simp: setBusCall_def matchedNext_def split: option.splits bus_call.splits list.splits if_splits) metis+
  next
    case (Compiled c')
    then show ?thesis using assms False
      by (auto simp: setBusCall_def setBus_def matchedNext_def split: option.splits bus_call.splits list.splits if_splits prod.splits)
        (metis fst_conv)+
  qed (use assms False in \<open>auto simp: call_defs Let_def split: act_splits\<close>)
qed simp

lemma compiling_origin:
  assumes "busAct compile a s = Some s'" "bsCalls s' c = Some (PubCompiling sync ev cx idx rest matched)"
  shows "bsCalls s c = bsCalls s' c \<or> bsCalls s c = Some (PubMatching sync ev cx idx rest matched)"
  using assms by (cases a) (auto simp: call_defs Let_def split: act_splits)

lemma matchInv_act:
  assumes "matchInv compile s" "cacheInv compile s" "busAct compile a s = Some s'"
  shows "matchInv compile s'"
proof -
  have keep: "walked compile ev idx rest matched" if "bsCalls s c = Some (PubMatching sync ev cx idx rest matched)
      \<or> bsCalls s c = Some (PubCompiling sync ev cx idx rest matched)" for c sync ev cx idx rest matched
    using assms(1) that unfolding matchInv_def by blast
  have cached: "matchesRegex r = matchesRegex (compile p)"
    if "lookupPattern p (bsBus s) = Some r \<or> r = fst (storePattern p (compile p) (bsBus s))" for p r
    using assms(2) that by (auto simp: lookupPattern_def storePattern_def cacheInv_def split: option.splits sum.splits)
  have init: "walked compile ev idx (ixRegexSubs idx) []" for ev idx unfolding walked_def by (intro exI[of _ "[]"]) simp
  have "walked compile ev idx rest matched" if m: "bsCalls s' c = Some (PubMatching sync ev cx idx rest matched)"
    for c sync ev cx idx rest matched
    using matching_origin[OF assms(3) m]
  proof (elim disjE exE conjE)
    fix x l r
    assume l: "matched = (if matchesRegex r (evEventName ev) then l @ [x] else l)"
      and "bsCalls s c = Some (PubMatching sync ev cx idx (x # rest) l)" "lookupPattern (sbPattern x) (bsBus s) = Some r"
    then show ?thesis unfolding l by (blast intro: walked_step keep cached)
  next
    fix x l r
    assume l: "matched = (if matchesRegex r (evEventName ev) then l @ [x] else l)"
      and "bsCalls s c = Some (PubCompiling sync ev cx idx (x # rest) l)"
        "r = fst (storePattern (sbPattern x) (compile (sbPattern x)) (bsBus s))"
    then show ?thesis unfolding l by (blast intro: walked_step keep cached)
  qed (use m keep[OF disjI1] init in auto)
  then show ?thesis
    using compiling_origin[OF assms(3)] keep unfolding matchInv_def by (metis (no_types, lifting))
qed

text \<open>The counts under the changes to the list of goroutines.\<close>

lemma counts_append [simp]:
  "asyncCount (gs @ hs) = asyncCount gs + asyncCount hs" "syncCount c (gs @ hs) = syncCount c gs + syncCount c hs"
  by (simp_all add: asyncCount_def syncCount_def)

lemma spawnFirst_counts:
  "spawnFirst c gs = Some gs' \<Longrightarrow> asyncCount gs' = asyncCount gs \<and> syncCount d gs' = syncCount d gs"
  by (induction gs arbitrary: gs') (auto simp: asyncCount_def syncCount_def split: if_splits)

lemma spawnFirst_members:
  "spawnFirst c gs = Some gs' \<Longrightarrow> g \<in> set gs' \<Longrightarrow> g \<in> set gs \<or> (\<exists>h \<in> set gs. goOwner h = c \<and> g = h\<lparr>goStarted := True\<rparr>)"
  by (induction gs arbitrary: gs') (auto split: if_splits)

lemma spawnFirst_None: "spawnFirst c gs = None \<Longrightarrow> g \<in> set gs \<Longrightarrow> goOwner g = c \<Longrightarrow> goStarted g"
  by (induction gs) (auto split: if_splits)

lemma counts_remove:
  assumes "n < length gs"
  shows "asyncCount gs = asyncCount (take n gs @ drop (Suc n) gs) + (if goSync (gs ! n) then 0 else 1)"
    "syncCount c gs = syncCount c (take n gs @ drop (Suc n) gs) + (if goSync (gs ! n) \<and> goOwner (gs ! n) = c then 1 else 0)"
proof -
  have "asyncCount gs = asyncCount (take n gs @ gs ! n # drop (Suc n) gs)"
    "syncCount c gs = syncCount c (take n gs @ gs ! n # drop (Suc n) gs)"
    using id_take_nth_drop[OF assms] by simp_all
  then show "asyncCount gs = asyncCount (take n gs @ drop (Suc n) gs) + (if goSync (gs ! n) then 0 else 1)"
    "syncCount c gs = syncCount c (take n gs @ drop (Suc n) gs) + (if goSync (gs ! n) \<and> goOwner (gs ! n) = c then 1 else 0)"
    by (simp_all add: asyncCount_def syncCount_def)
qed

text \<open>A call without goroutines may move anywhere.\<close>

lemma countInv_call:
  assumes "countInv s" "bsGoroutines s' = bsGoroutines s" "bsLocalWg s' = bsLocalWg s"
    and "cbInFlight (bsBus s') = cbInFlight (bsBus s)" "bsCalls s' = (bsCalls s)(c \<mapsto> st)"
    and "\<And>y b. ownsGoroutine y b (bsCalls s c) \<Longrightarrow> \<exists>g \<in> set (bsGoroutines s). goOwner g = c \<and> goSync g = y \<and> goStarted g = b
           \<Longrightarrow> ownsGoroutine y b (Some st)"
  shows "countInv s'"
  using assms unfolding countInv_def by (auto simp: fun_upd_def)

lemma countInv_idle:
  assumes "countInv s" "bsGoroutines s' = bsGoroutines s" "bsLocalWg s' = bsLocalWg s"
    and "cbInFlight (bsBus s') = cbInFlight (bsBus s)" "bsCalls s' = (bsCalls s)(c \<mapsto> st)"
    and "\<And>y b. \<not> ownsGoroutine y b (bsCalls s c)"
  shows "countInv s'"
  using assms by (intro countInv_call[OF assms(1-5)]) auto

lemma countInv_admit:
  assumes "countInv s" "bsCalls s c = Some (PubMatching sync ev cx idx [] matched)"
  shows "countInv (admitPublish c sync ev cx idx matched s)"
proof (cases "cbClosed (bsBus s)")
  case True
  then show ?thesis
    using assms by (auto intro!: countInv_call[OF assms(1)] simp: admitPublish_def Let_def setBusCall_def)
next
  case False
  define subs where "subs = exactOf idx (evEventName ev) @ matched"
  define new where "new = map (\<lambda>sub. \<lparr>goOwner = c, goSync = sync, goSub = sub, goJob = jobFor sync ev cx (bsBus s) sub, goStarted = False\<rparr>) subs"
  have none: "goOwner g \<noteq> c" if "g \<in> set (bsGoroutines s)" for g
    using assms that unfolding countInv_def by (cases "goOwner g = c") auto
  have zero: "syncCount c (bsGoroutines s) = 0" using none by (auto simp: syncCount_def filter_empty_conv)
  have counts: "asyncCount new = (if sync then 0 else length subs)"
      "syncCount d new = (if sync \<and> d = c then length subs else 0)" for d
    by (auto simp: new_def asyncCount_def syncCount_def filter_map comp_def)
  have eq: "admitPublish c sync ev cx idx matched s = setBusCall c (PubSpawning sync)
      (s\<lparr>bsBus := (if sync then bsBus s else (bsBus s)\<lparr>cbInFlight := cbInFlight (bsBus s) + int (length subs)\<rparr>),
         bsLocalWg := (if sync then (bsLocalWg s)(c := int (length subs)) else bsLocalWg s),
         bsGoroutines := bsGoroutines s @ new\<rparr>)"
    using False by (simp add: admitPublish_def Let_def subs_def new_def)
  have "ownsGoroutine (goSync g) (goStarted g) (Some (PubSpawning sync)) \<and> goOwner g = c" if "g \<in> set new" for g
    using that by (auto simp: new_def)
  then show ?thesis
    using assms(1) none zero counts unfolding eq countInv_def setBusCall_def by auto
qed

lemma countInv_spawn:
  assumes "countInv s" "bsCalls s c = Some (PubSpawning sync)"
  shows "countInv (spawnNext c sync s)"
proof (cases "spawnFirst c (bsGoroutines s)")
  case None
  have "goStarted g \<and> goSync g = sync" if "g \<in> set (bsGoroutines s)" "goOwner g = c" for g
    using assms that spawnFirst_None[OF None] unfolding countInv_def by force
  then show ?thesis
    using assms None
    by (cases sync) (auto intro!: countInv_call[OF assms(1), where c = c] simp: spawnNext_def setBusCall_def)
next
  case (Some gs)
  have own: "ownsGoroutine (goSync g) (goStarted g) (bsCalls s (goOwner g))" if "g \<in> set (bsGoroutines s)" for g
    using assms(1) that by (auto simp: countInv_def)
  have "ownsGoroutine (goSync g) (goStarted g) (bsCalls s (goOwner g))" if "g \<in> set gs" for g
    using spawnFirst_members[OF Some that] own assms(2) by fastforce
  then show ?thesis
    using assms(1) Some spawnFirst_counts[OF Some] by (simp add: spawnNext_def countInv_def)
qed

lemma countInv_done:
  assumes "countInv s" "handlerDone n s = Some s'"
  shows "countInv s'"
proof -
  have n: "n < length (bsGoroutines s)" using assms(2) by (auto simp: handlerDone_def split: if_splits)
  have sub: "set (take n (bsGoroutines s) @ drop (Suc n) (bsGoroutines s)) \<subseteq> set (bsGoroutines s)"
    by (auto dest: in_set_takeD in_set_dropD)
  let ?g = "bsGoroutines s ! n" and ?gs = "take n (bsGoroutines s) @ drop (Suc n) (bsGoroutines s)"
  have new: "bsGoroutines s' = ?gs" "bsCalls s' = bsCalls s"
    "cbInFlight (bsBus s') = cbInFlight (bsBus s) - (if goSync ?g then 0 else 1)"
    "bsLocalWg s' c = bsLocalWg s c - (if goSync ?g \<and> goOwner ?g = c then 1 else 0)" for c
    using assms(2) by (auto simp: handlerDone_def setBus_def Let_def split: if_splits)
  have old: "cbInFlight (bsBus s) = int (asyncCount (bsGoroutines s))" "bsLocalWg s c = int (syncCount c (bsGoroutines s))"
    "\<forall>g \<in> set (bsGoroutines s). ownsGoroutine (goSync g) (goStarted g) (bsCalls s (goOwner g))" for c
    using assms(1) by (simp_all add: countInv_def)
  have "bsLocalWg s' c = int (syncCount c ?gs)" for c unfolding new old counts_remove(2)[OF n, of c] by simp
  moreover have "cbInFlight (bsBus s') = int (asyncCount ?gs)" unfolding new old counts_remove(1)[OF n] by simp
  ultimately show ?thesis using old(3) sub unfolding countInv_def new by blast
qed

lemma countInv_act:
  assumes "countInv s" "busAct compile a s = Some s'"
  shows "countInv s'"
proof (cases a)
  case (AdmitPublish c)
  then show ?thesis using assms countInv_admit by (auto split: option.splits bus_call.splits list.splits)
next
  case (SpawnNext c)
  then show ?thesis using assms countInv_spawn by (auto split: option.splits bus_call.splits)
next
  case (HandlerDone n)
  then show ?thesis using assms countInv_done by auto
next
  case (SyncDone c)
  then have c: "bsCalls s c = Some PubWaiting" "bsLocalWg s c = 0" "s' = setBusCall c (PubReturned None) s"
    using assms(2) by (auto split: option.splits bus_call.splits if_splits)
  have "\<not> goSync g" if "g \<in> set (bsGoroutines s)" "goOwner g = c" for g
    using assms(1) c(2) that by (auto simp: countInv_def syncCount_def filter_empty_conv)
  then have "\<not> y" if "\<exists>g \<in> set (bsGoroutines s). goOwner g = c \<and> goSync g = y \<and> goStarted g = b" for y b
    using that by blast
  then show ?thesis
    using c by (intro countInv_call[OF assms(1), where c = c and st = "PubReturned None"]) (auto simp: setBusCall_def)
qed (use assms(2) in \<open>auto intro!: countInv_idle[OF assms(1)] simp: call_defs storePattern_def insertSub_def
       unsubscribe_def Let_def split: act_splits sum.splits\<close>)

lemma closed_kept: "busAct compile a s = Some s' \<Longrightarrow> cbClosed (bsBus s) \<Longrightarrow> cbClosed (bsBus s')"
  by (cases a) (auto simp: call_defs storePattern_def insertSub_def unsubscribe_def Let_def split: act_splits sum.splits)

lemma closed_counts:
  "busAct compile a s = Some s' \<Longrightarrow> cbClosed (bsBus s) \<Longrightarrow> cbInFlight (bsBus s') \<le> cbInFlight (bsBus s)"
  by (cases a) (auto simp: call_defs storePattern_def insertSub_def unsubscribe_def Let_def split: act_splits sum.splits)

lemma close_origin:
  "busAct compile a s = Some s' \<Longrightarrow> bsCalls s' c = Some BusClosing \<Longrightarrow> bsCalls s c = Some BusClosing \<or> cbClosed (bsBus s')"
  "busAct compile a s = Some s' \<Longrightarrow> bsCalls s' c = Some (CloseReturned err) \<Longrightarrow>
     bsCalls s c = Some (CloseReturned err) \<or> bsCalls s c = Some BusClosing \<and> (err = None \<longrightarrow> cbInFlight (bsBus s') = 0)"
  by (cases a; auto simp: call_defs Let_def split: act_splits)+

lemma closeInv_act:
  assumes "closeInv s" "countInv s'" "busAct compile a s = Some s'"
  shows "closeInv s'"
proof -
  have pos: "0 \<le> cbInFlight (bsBus s')" using assms(2) by (simp add: countInv_def)
  have "cbClosed (bsBus s')" if "bsCalls s' c = Some BusClosing \<or> bsCalls s' c = Some (CloseReturned err)" for c err
    using that assms(1) close_origin[OF assms(3)] closed_kept[OF assms(3)] unfolding closeInv_def by metis
  moreover have "cbInFlight (bsBus s') = 0" if "bsCalls s' c = Some (CloseReturned None)" for c
    using close_origin(2)[OF assms(3) that] assms(1) closed_counts[OF assms(3)] pos unfolding closeInv_def
    by (metis order_antisym)
  ultimately show ?thesis unfolding closeInv_def by blast
qed

section \<open>Every reachable state\<close>

definition busInv :: "compiler \<Rightarrow> 't bus_system \<Rightarrow> bool" where
  "busInv compile s \<longleftrightarrow> subsInv s \<and> cacheInv compile s \<and> matchInv compile s \<and> countInv s \<and> closeInv s"

lemma applyBusOpts_fields:
  "cbSubscriptions (fold applyBusOpt opts b) = cbSubscriptions b" "cbIdx (fold applyBusOpt opts b) = cbIdx b"
  "cbInFlight (fold applyBusOpt opts b) = cbInFlight b" "cbCompiledPatterns (fold applyBusOpt opts b) = cbCompiledPatterns b"
  "cbPatternErrors (fold applyBusOpt opts b) = cbPatternErrors b" "cbSubMu (fold applyBusOpt opts b) = cbSubMu b"
  "cbClosed (fold applyBusOpt opts b) = cbClosed b"
proof -
  have keep: "fold applyBusOpt opts b = b\<lparr>cbOnPanic := cbOnPanic (fold applyBusOpt opts b), cbOnTimeout := cbOnTimeout (fold applyBusOpt opts b)\<rparr>" for b :: "'z channel_bus"
  proof (induction opts arbitrary: b)
    case (Cons q opts)
    show ?case by (subst fold_simps, subst Cons) (cases q; simp)
  qed simp
  show "cbSubscriptions (fold applyBusOpt opts b) = cbSubscriptions b" by (subst keep) simp
  show "cbIdx (fold applyBusOpt opts b) = cbIdx b" by (subst keep) simp
  show "cbInFlight (fold applyBusOpt opts b) = cbInFlight b" by (subst keep) simp
  show "cbCompiledPatterns (fold applyBusOpt opts b) = cbCompiledPatterns b" by (subst keep) simp
  show "cbPatternErrors (fold applyBusOpt opts b) = cbPatternErrors b" by (subst keep) simp
  show "cbSubMu (fold applyBusOpt opts b) = cbSubMu b" by (subst keep) simp
  show "cbClosed (fold applyBusOpt opts b) = cbClosed b" by (subst keep) simp
qed

lemma newChannelBus_fields [simp]:
  "cbSubscriptions (newChannelBus opts) = Map.empty" "cbIdx (newChannelBus opts) = emptyIndex"
  "cbInFlight (newChannelBus opts) = 0" "cbCompiledPatterns (newChannelBus opts) = Map.empty"
  "cbPatternErrors (newChannelBus opts) = Map.empty" "cbSubMu (newChannelBus opts) = None"
  "cbClosed (newChannelBus opts) = False"
  by (simp_all add: newChannelBus_def applyBusOpts_fields)

lemma busReachable_inv:
  assumes "busReachable compile opts s"
  shows "busInv compile s"
  using assms
proof induction
  case start
  show ?case
    using ix.holds_empty
    by (simp add: busInv_def subsInv_def cacheInv_def matchInv_def countInv_def closeInv_def startBus_def
        asyncCount_def syncCount_def)
next
  case (act s a s')
  then show ?case
    unfolding busInv_def using subsInv_act cacheInv_act matchInv_act countInv_act closeInv_act by metis
qed

end
