(* ===== verification/Bus_Properties.thy ===== *)
theory Bus_Properties
  imports Bus_Correct
begin

text \<open>
  The properties of the bus: a publish runs the handlers of exactly the subscriptions that were
  registered when it looked and whose pattern matches, and a closed bus is quiet.
\<close>

section \<open>Publishing\<close>

lemma call_kept: "busAct compile a s = Some s' \<Longrightarrow> bsCalls s c \<noteq> None \<Longrightarrow> bsCalls s' c \<noteq> None"
  by (cases a) (auto simp: call_defs Let_def split: act_splits)

text \<open>A publish keeps the event and the index it started with.\<close>

definition publishes :: "nat \<Rightarrow> bool \<Rightarrow> 't event \<Rightarrow> ctx \<Rightarrow> 't publish_index \<Rightarrow> 't bus_system \<Rightarrow> bool" where
  "publishes c sync ev cx idx s \<longleftrightarrow> bsCalls s c \<noteq> None
     \<and> (\<forall>sync' ev' cx' idx' rest matched.
          bsCalls s c = Some (PubMatching sync' ev' cx' idx' rest matched)
            \<or> bsCalls s c = Some (PubCompiling sync' ev' cx' idx' rest matched) \<longrightarrow>
          sync' = sync \<and> ev' = ev \<and> cx' = cx \<and> idx' = idx)"

lemma publishes_act:
  assumes "publishes c sync ev cx idx s" "busAct compile a s = Some s'"
  shows "publishes c sync ev cx idx s'"
proof -
  have busy: "bsCalls s c \<noteq> None" and same: "\<And>sync' ev' cx' idx' rest matched.
      bsCalls s c = Some (PubMatching sync' ev' cx' idx' rest matched)
        \<or> bsCalls s c = Some (PubCompiling sync' ev' cx' idx' rest matched) \<Longrightarrow>
      sync' = sync \<and> ev' = ev \<and> cx' = cx \<and> idx' = idx"
    using assms(1) unfolding publishes_def by blast+
  have old: "\<exists>rest m. bsCalls s c = Some (PubMatching sync' ev' cx' idx' rest m)
      \<or> bsCalls s c = Some (PubCompiling sync' ev' cx' idx' rest m)"
    if "bsCalls s' c = Some (PubMatching sync' ev' cx' idx' rest' m') \<or> bsCalls s' c = Some (PubCompiling sync' ev' cx' idx' rest' m')"
    for sync' ev' cx' idx' rest' m'
    using that
  proof
    assume m: "bsCalls s' c = Some (PubMatching sync' ev' cx' idx' rest' m')"
    have "a \<noteq> StartPublish c sync' None cx' ev'" using assms(2) busy by (auto simp: freshCall_def)
    then show ?thesis using matching_origin[OF assms(2) m] m by metis
  next
    assume m: "bsCalls s' c = Some (PubCompiling sync' ev' cx' idx' rest' m')"
    then show ?thesis using compiling_origin[OF assms(2) m] by metis
  qed
  show ?thesis
    unfolding publishes_def using call_kept[OF assms(2) busy] old same by blast
qed

lemma publishes_run:
  "publishes c sync ev cx idx s \<Longrightarrow> busRun compile as s = Some s' \<Longrightarrow> publishes c sync ev cx idx s'"
  by (induction as arbitrary: s) (auto simp: bind_eq_Some_conv intro: publishes_act)

text \<open>C34: a publish reaches its subscribers. Whatever other calls do while it matches and compiles
  patterns, once it is admitted it has counted one goroutine for each subscription that was
  registered when it started and whose pattern matches the event name, each exactly once, and no
  other; a bus that was closed meanwhile refuses it and nothing is counted.\<close>

theorem publish_reaches_subscribers:
  assumes "busReachable compile opts s0" "busAct compile (StartPublish c sync None cx ev) s0 = Some s1"
    and "busRun compile as s1 = Some s2" "busAct compile (AdmitPublish c) s2 = Some s3"
  shows "if cbClosed (bsBus s2)
     then bsCalls s3 c = Some (PubReturned (Some (Sentinel ErrBusClosed))) \<and> bsGoroutines s3 = bsGoroutines s2
     else \<exists>subs. distinct subs
       \<and> set subs = {x \<in> ran (cbSubscriptions (bsBus s0)). patternMatches compile (sbPattern x) (evEventName ev)}
       \<and> bsGoroutines s3 = bsGoroutines s2 @
           map (\<lambda>x. \<lparr>goOwner = c, goSync = sync, goSub = x, goJob = jobFor sync ev cx (bsBus s2) x, goStarted = False\<rparr>) subs"
proof -
  let ?idx = "cbIdx (bsBus s0)"
  have "s1 = startPublish c sync None cx ev s0" using assms(2) by (simp split: if_splits)
  then have "publishes c sync ev cx ?idx s1" by (simp add: publishes_def startPublish_def setBusCall_def Let_def)
  then have p: "publishes c sync ev cx ?idx s2" using publishes_run assms(3) by blast
  obtain sync' ev' cx' idx' matched where c: "bsCalls s2 c = Some (PubMatching sync' ev' cx' idx' [] matched)"
    using assms(4) by (auto split: option.splits bus_call.splits list.splits)
  then have eq: "sync' = sync" "ev' = ev" "cx' = cx" "idx' = ?idx" using p unfolding publishes_def by blast+
  have s3: "s3 = admitPublish c sync ev cx ?idx matched s2" using assms(4) c eq by simp
  have "busReachable compile opts s2"
    using busRun_reachable[OF busReachable.act[OF assms(1,2)] assms(3)] .
  then have "walked compile ev ?idx [] matched"
    using busReachable_inv c eq unfolding busInv_def matchInv_def by blast
  then have found: "exactOf ?idx (evEventName ev) @ matched = indexFind compile ?idx (evEventName ev)"
    by (auto simp: walked_def indexFind_def)
  have "indexHolds ?idx (ran (cbSubscriptions (bsBus s0)))"
    using busReachable_inv[OF assms(1)] by (simp add: busInv_def subsInv_def)
  then have "set (indexFind compile ?idx (evEventName ev)) =
      {x \<in> ran (cbSubscriptions (bsBus s0)). patternMatches compile (sbPattern x) (evEventName ev)}"
    "distinct (indexFind compile ?idx (evEventName ev))"
    by (rule ix.find_relevant, rule ix.find_once)
  then show ?thesis
    unfolding s3 admitPublish_def Let_def found by (auto simp: setBusCall_def)
qed

text \<open>A bus with one subscription to an exact name and one to every order event.\<close>

definition quietHandler :: "int projection_handler" where
  "quietHandler k c e = \<lparr>hrPanic = None, hrOutlives = False, hrBefore = 0\<rparr>"

definition orderEvent :: "int event" where
  "orderEvent = \<lparr>evID = ''1'', evAggregateID = ''a'', evEventName = ''order.placed'', evVersion = 1, evSchemaVersion = 1,
                 evOccurredAt = '''', evAggregate = 0, evPreviousAggregate = 0\<rparr>"

definition subscribeRun :: "int bus_action list" where
  "subscribeRun =
     [StartSubscribe 0 ''^order'' (Some quietHandler) [], CheckSubscribe 0, FinishSubscribe 0 ''s0'',
      StartSubscribe 1 ''other'' (Some quietHandler) [], CheckSubscribe 1, FinishSubscribe 1 ''s1'']"

lemmas run_simps = subscribeRun_def startBus_def call_defs insertSub_def indexWith_def exactOf_def emptyIndex_def
  isExactPattern_def quoteMeta_def set_metachars lookupPattern_def storePattern_def fragmentCompile_def
  matchesRegex_def orderEvent_def Let_def

definition regexSub :: "int subscription" where
  "regexSub = \<lparr>sbAddr = 0, sbPattern = ''^order'', sbHandler = quietHandler, sbFallback = None, sbTimeout = 0\<rparr>"

theorem publish_reaches_subscribers_witness:
  "\<exists>s0 s1 s2 s3. busRun fragmentCompile subscribeRun (startBus []) = Some s0
     \<and> busAct fragmentCompile (StartPublish 2 False None background orderEvent) s0 = Some s1
     \<and> busRun fragmentCompile [MatchNext 2, Compiled 2] s1 = Some s2
     \<and> busAct fragmentCompile (AdmitPublish 2) s2 = Some s3
     \<and> length (bsGoroutines s3) = 1 \<and> map goSub (bsGoroutines s3) = [regexSub]"
proof -
  obtain s0 :: "int bus_system" where s0: "busRun fragmentCompile subscribeRun (startBus []) = Some s0"
    and table: "cbSubscriptions (bsBus s0) = [''s0'' \<mapsto> regexSub, ''s1'' \<mapsto> regexSub\<lparr>sbAddr := 1, sbPattern := ''other''\<rparr>]"
    and open0: "\<not> cbClosed (bsBus s0)" "bsGoroutines s0 = []" "bsCalls s0 2 = None"
    "ixRegexSubs (cbIdx (bsBus s0)) = [regexSub]" "cbCompiledPatterns (bsBus s0) = Map.empty" "cbPatternErrors (bsBus s0) = Map.empty"
    by (auto simp: run_simps regexSub_def subConfig_def split: if_splits)
  have subs: "ran (cbSubscriptions (bsBus s0)) = {regexSub, regexSub\<lparr>sbAddr := 1, sbPattern := ''other''\<rparr>}"
    unfolding table by (auto simp: ran_map_upd)
  have reach: "busReachable fragmentCompile [] s0" by (rule busRun_reachable[OF busReachable.start s0])
  obtain s1 where s1: "busAct fragmentCompile (StartPublish 2 False None background orderEvent) s0 = Some s1"
    and s1_eq: "s1 = startPublish 2 False None background orderEvent s0"
    using open0 by (simp add: freshCall_def)
  obtain f where f: "fragmentCompile (sbPattern regexSub) = Inr f" by (simp add: fragmentCompile_def regexSub_def set_metachars)
  obtain s2 where s2: "busRun fragmentCompile [MatchNext 2, Compiled 2] s1 = Some s2" "\<not> cbClosed (bsBus s2)" "bsGoroutines s2 = []"
    and c2: "\<exists>m. bsCalls s2 2 = Some (PubMatching False orderEvent background (cbIdx (bsBus s0)) [] m)"
    using open0 unfolding s1_eq by (simp add: call_defs Let_def lookupPattern_def storePattern_def f)
  obtain s3 where s3: "busAct fragmentCompile (AdmitPublish 2) s2 = Some s3" using c2 by auto
  have m: "patternMatches fragmentCompile ''^order'' (evEventName orderEvent)"
    "\<not> patternMatches fragmentCompile ''other'' (evEventName orderEvent)"
    by (simp_all add: patternMatches_def isExactPattern_def quoteMeta_def set_metachars matchesRegex_def fragmentCompile_def orderEvent_def)
  have "{x \<in> ran (cbSubscriptions (bsBus s0)). patternMatches fragmentCompile (sbPattern x) (evEventName orderEvent)} = {regexSub}"
    using m unfolding subs by (auto simp: regexSub_def)
  then have "bsGoroutines s3 \<noteq> [] \<and> length (bsGoroutines s3) = 1 \<and> map goSub (bsGoroutines s3) = [regexSub]"
    using publish_reaches_subscribers[OF reach s1 s2(1) s3] s2(2,3)
    by (auto simp: comp_def dest!: distinct_card[symmetric]) (metis length_Suc_conv list.set(1) list.set_intros(1) length_0_conv singletonD)+
  then show ?thesis
    using s0 s1 s2(1) s3
    by (intro exI[of _ s0] exI[of _ s1] exI[of _ s2] exI[of _ s3]) (simp del: busRun.simps busAct.simps)
qed

section \<open>Closing\<close>

text \<open>C35: the wait groups are exact. In every reachable state the counter \<open>Close\<close> waits on is the number
  of goroutines \<open>Publish\<close> counted whose \<open>ExecuteHandler\<close> has not returned, started or not, and never
  negative. Once a \<open>Close\<close> has returned nil there are none of them, and the bus refuses every later
  publish, so there will be none; once a \<open>PublishSync\<close> has returned, \<open>ExecuteHandler\<close> has returned for
  every handler of its event. (\<open>Close\<close> does not count the goroutines of \<open>PublishSync\<close>, and on
  \<open>Publish\<close> a handler that outlived its timeout may run on after its \<open>ExecuteHandler\<close>.)\<close>

theorem bus_close_quiesces:
  assumes "busReachable compile opts s"
  shows "cbInFlight (bsBus s) = int (asyncCount (bsGoroutines s))
     \<and> (\<forall>c. bsCalls s c = Some (CloseReturned None) \<longrightarrow> cbClosed (bsBus s) \<and> asyncCount (bsGoroutines s) = 0)
     \<and> (\<forall>c err. bsCalls s c = Some (PubReturned err) \<longrightarrow> syncCount c (bsGoroutines s) = 0)"
proof -
  have inv: "countInv s" "closeInv s" using busReachable_inv[OF assms] by (simp_all add: busInv_def)
  have "syncCount c (bsGoroutines s) = 0" if "bsCalls s c = Some (PubReturned err)" for c err
  proof -
    have "\<not> (goSync g \<and> goOwner g = c)" if "g \<in> set (bsGoroutines s)" for g
      using inv(1) that \<open>bsCalls s c = Some (PubReturned err)\<close> unfolding countInv_def
      by (cases err) (auto dest!: bspec[of _ _ g])
    then show ?thesis by (auto simp: syncCount_def filter_empty_conv)
  qed
  then show ?thesis using inv unfolding countInv_def closeInv_def by auto
qed

text \<open>A handler is running when \<open>Close\<close> is called; \<open>Close\<close> returns after it.\<close>

definition closingRun :: "int bus_action list" where
  "closingRun = subscribeRun @ [StartPublish 2 False None background orderEvent, MatchNext 2, Compiled 2, AdmitPublish 2,
     SpawnNext 2, SpawnNext 2, StartClose 3]"

definition closeReturned :: "int bus_system option \<Rightarrow> bool" where
  "closeReturned r = (case r of
       None \<Rightarrow> False
     | Some s \<Rightarrow> (case bsCalls s 3 of Some (CloseReturned None) \<Rightarrow> True | _ \<Rightarrow> False))"

theorem bus_close_quiesces_witness:
  "\<exists>s1 s2 :: int bus_system. busRun fragmentCompile closingRun (startBus []) = Some s1
     \<and> cbInFlight (bsBus s1) = 1 \<and> asyncCount (bsGoroutines s1) = 1
     \<and> busRun fragmentCompile (closingRun @ [HandlerDone 0, CloseReturns 3 None]) (startBus []) = Some s2
     \<and> cbClosed (bsBus s2) \<and> asyncCount (bsGoroutines s2) = 0"
proof -
  let ?r1 = "busRun fragmentCompile closingRun (startBus [])"
  let ?r2 = "busRun fragmentCompile (closingRun @ [HandlerDone 0, CloseReturns 3 None]) (startBus [])"
  have "\<not> Option.is_none ?r1" "asyncCount (bsGoroutines (the ?r1)) = 1" by (code_simp, code_simp)
  then obtain s1 where s1: "?r1 = Some s1" "asyncCount (bsGoroutines s1) = 1" by (cases ?r1) auto
  have "closeReturned ?r2" by code_simp
  then obtain s2 where s2: "?r2 = Some s2" "bsCalls s2 3 = Some (CloseReturned None)"
    by (cases ?r2) (auto simp: closeReturned_def split: option.splits bus_call.splits)
  have "busReachable fragmentCompile [] s1" "busReachable fragmentCompile [] s2"
    using busRun_reachable[OF busReachable.start] s1(1) s2(1) by blast+
  then show ?thesis using bus_close_quiesces[of fragmentCompile "[]"] s1 s2 by (metis of_nat_1)
qed

end
