(* ===== verification/Listener.thy ===== *)
theory Listener
  imports Event_Store
begin

text \<open>
  The \<open>listener\<close> of \<^verbatim>\<open>asynx.go\<close>: the channel \<open>Listen\<close> returns, fed by handler calls of the bus,
  read by its consumer, and given up by \<open>unsubscribe\<close> or by itself after \<open>count\<close> events. Every
  atomic access, channel operation and critical section of \<open>sendMu\<close> is one step; a send on a
  closed channel and a second close, which panic in Go, are counted in \<open>lnCrashes\<close>.
\<close>

section \<open>State and calls\<close>

record 't listener =
  lnCount :: int
  lnCap :: nat
  lnCh :: "'t event list"
  lnChClosed :: bool
  lnDone :: bool
  lnReady :: bool
  lnReceived :: int
  lnClosed :: bool
  lnSendMu :: "nat option"
  lnDelivered :: int
  lnChClosedFlag :: bool
  lnSubID :: string
  lnTaken :: "'t event list"
  lnUnsubscribed :: "string list"
  lnAuto :: nat
  lnCrashes :: nat

definition newListener :: "int \<Rightarrow> 't listener" where
  "newListener count =
     (let capacity = (if count \<le> 0 then 16 else count)
      in \<lparr>lnCount = count, lnCap = nat capacity, lnCh = [], lnChClosed = False, lnDone = False, lnReady = False,
          lnReceived = 0, lnClosed = False, lnSendMu = None, lnDelivered = 0, lnChClosedFlag = False, lnSubID = [],
          lnTaken = [], lnUnsubscribed = [], lnAuto = 0, lnCrashes = 0\<rparr>)"

text \<open>
  Where a call is: a handler call of the bus that passed its first check, in bounded mode has
  been counted, holds \<open>sendMu\<close>, has found the listener open under it, has sent the last event
  and has marked the listener closed; an \<open>unsubscribe\<close> that won the swap, closed \<open>done\<close>, left
  the bus, and waits for \<open>sendMu\<close>.
\<close>

datatype 't listen_call =
    HUnbounded "'t event"
  | HBounded "'t event"
  | HCounted "'t event"
  | HLocked "'t event"
  | HSending "'t event"
  | HLast
  | HMarked
  | UWon
  | UDone
  | ULeft
  | ListenReturned

record 't listen_system =
  lsL :: "'t listener"
  lsCalls :: "nat \<rightharpoonup> 't listen_call"

definition startListen :: "int \<Rightarrow> 't listen_system" where
  "startListen count = \<lparr>lsL = newListener count, lsCalls = Map.empty\<rparr>"

definition setListenCall :: "nat \<Rightarrow> 't listen_call \<Rightarrow> 't listen_system \<Rightarrow> 't listen_system" where
  "setListenCall h st s = s\<lparr>lsCalls := (lsCalls s)(h \<mapsto> st)\<rparr>"

definition onL :: "('t listener \<Rightarrow> 't listener) \<Rightarrow> 't listen_system \<Rightarrow> 't listen_system" where
  "onL f s = s\<lparr>lsL := f (lsL s)\<rparr>"

section \<open>Operations\<close>

text \<open>\<open>close\<close> and a send, which is enabled when the buffer has room.\<close>

definition closeCh :: "'t listener \<Rightarrow> 't listener" where
  "closeCh l = (if lnChClosed l then l\<lparr>lnCrashes := Suc (lnCrashes l)\<rparr> else l\<lparr>lnChClosed := True\<rparr>)"

definition closeChLocked :: "'t listener \<Rightarrow> 't listener" where
  "closeChLocked l = (if lnChClosedFlag l then l else closeCh (l\<lparr>lnChClosedFlag := True\<rparr>))"

definition closeDone :: "'t listener \<Rightarrow> 't listener" where
  "closeDone l = (if lnDone l then l\<lparr>lnCrashes := Suc (lnCrashes l)\<rparr> else l\<lparr>lnDone := True\<rparr>)"

definition closeReady :: "'t listener \<Rightarrow> 't listener" where
  "closeReady l = (if lnReady l then l\<lparr>lnCrashes := Suc (lnCrashes l)\<rparr> else l\<lparr>lnReady := True\<rparr>)"

definition sendCh :: "'t event \<Rightarrow> 't listener \<Rightarrow> 't listener option" where
  "sendCh evt l =
     (if lnChClosed l then Some (l\<lparr>lnCrashes := Suc (lnCrashes l)\<rparr>)
      else if length (lnCh l) < lnCap l then Some (l\<lparr>lnCh := lnCh l @ [evt]\<rparr>) else None)"

definition handle :: "nat \<Rightarrow> 't event \<Rightarrow> 't listen_system \<Rightarrow> 't listen_system" where
  "handle h evt s =
     (if lnClosed (lsL s) then setListenCall h ListenReturned s
      else if lnCount (lsL s) \<le> 0 then setListenCall h (HUnbounded evt) s
      else setListenCall h (HBounded evt) s)"

text \<open>The two arms of the \<open>select\<close> of \<open>sendUnbounded\<close>.\<close>

definition sendUnbounded :: "nat \<Rightarrow> bool \<Rightarrow> 't event \<Rightarrow> 't listen_system \<Rightarrow> 't listen_system option" where
  "sendUnbounded h takeDone evt s =
     (if takeDone then (if lnDone (lsL s) then Some (setListenCall h ListenReturned s) else None)
      else map_option (\<lambda>l. setListenCall h ListenReturned (s\<lparr>lsL := l\<rparr>)) (sendCh evt (lsL s)))"

definition sendBounded :: "nat \<Rightarrow> 't event \<Rightarrow> 't listen_system \<Rightarrow> 't listen_system" where
  "sendBounded h evt s =
     (let n = i64 (lnReceived (lsL s) + 1);
          s' = onL (\<lambda>l. l\<lparr>lnReceived := n\<rparr>) s
      in if n \<le> lnCount (lsL s) then setListenCall h (HCounted evt) s' else setListenCall h ListenReturned s')"

definition unlockMu :: "'t listen_system \<Rightarrow> 't listen_system" where
  "unlockMu s = onL (\<lambda>l. l\<lparr>lnSendMu := None\<rparr>) s"

text \<open>
  \<open>deliver\<close> with \<open>sendMu\<close> held: the check; the send, which counts the event and tells whether it
  was the last; marking the listener closed; closing the channel. The goroutine that leaves the
  bus afterwards is counted in \<open>lnAuto\<close>.
\<close>

definition deliverCheck :: "nat \<Rightarrow> 't event \<Rightarrow> 't listen_system \<Rightarrow> 't listen_system" where
  "deliverCheck h evt s =
     (if lnClosed (lsL s) then setListenCall h ListenReturned (unlockMu s) else setListenCall h (HSending evt) s)"

definition deliverSend :: "nat \<Rightarrow> 't event \<Rightarrow> 't listen_system \<Rightarrow> 't listen_system option" where
  "deliverSend h evt s =
     (case sendCh evt (lsL s) of
        None \<Rightarrow> None
      | Some l \<Rightarrow>
          (let n = i64 (lnDelivered l + 1);
               s' = s\<lparr>lsL := l\<lparr>lnDelivered := n\<rparr>\<rparr>
           in Some (if n = lnCount l then setListenCall h HLast s' else setListenCall h ListenReturned (unlockMu s'))))"

definition deliverMark :: "nat \<Rightarrow> 't listen_system \<Rightarrow> 't listen_system" where
  "deliverMark h s = setListenCall h HMarked (onL (\<lambda>l. l\<lparr>lnClosed := True\<rparr>) s)"

definition deliverClose :: "nat \<Rightarrow> 't listen_system \<Rightarrow> 't listen_system" where
  "deliverClose h s =
     setListenCall h ListenReturned (unlockMu (onL (\<lambda>l. (closeChLocked l)\<lparr>lnAuto := Suc (lnAuto l)\<rparr>) s))"

definition leaveBus :: "'t listener \<Rightarrow> 't listener" where
  "leaveBus l = l\<lparr>lnUnsubscribed := lnUnsubscribed l @ [lnSubID l]\<rparr>"

definition unsubscribeWhenPublished :: "'t listen_system \<Rightarrow> 't listen_system option" where
  "unsubscribeWhenPublished s =
     (if 0 < lnAuto (lsL s) \<and> lnReady (lsL s)
      then Some (onL (\<lambda>l. leaveBus (l\<lparr>lnAuto := lnAuto l - 1\<rparr>)) s) else None)"

definition publishSubscription :: "string \<Rightarrow> 't listen_system \<Rightarrow> 't listen_system" where
  "publishSubscription i s = onL (\<lambda>l. closeReady (l\<lparr>lnSubID := i\<rparr>)) s"

text \<open>\<open>unsubscribe\<close>: the swap, closing \<open>done\<close>, leaving the bus, closing the channel.\<close>

definition unsubSwap :: "nat \<Rightarrow> 't listen_system \<Rightarrow> 't listen_system" where
  "unsubSwap u s =
     (if lnClosed (lsL s) then setListenCall u ListenReturned s
      else setListenCall u UWon (onL (\<lambda>l. l\<lparr>lnClosed := True\<rparr>) s))"

definition unsubLeave :: "nat \<Rightarrow> 't listen_system \<Rightarrow> 't listen_system" where
  "unsubLeave u s =
     (let s' = onL leaveBus s
      in if lnCount (lsL s) > 0 then setListenCall u ULeft s' else setListenCall u ListenReturned s')"

section \<open>Every interleaving\<close>

datatype 't listen_action =
    Handle nat "'t event"
  | HandlerStep nat bool
  | AutoUnsubscribe
  | PublishSubscription string
  | StartUnsubscribe nat
  | UnsubscribeStep nat
  | Take

text \<open>
  The mutex is taken only when free. \<open>Listen\<close> publishes the subscription once, and hands out
  \<open>unsubscribe\<close> after that. \<open>Take\<close> is the consumer's receive of a buffered event.
\<close>

definition lockedBy :: "nat \<Rightarrow> 't listen_call \<Rightarrow> 't listen_system \<Rightarrow> 't listen_system option" where
  "lockedBy h st s =
     (case lnSendMu (lsL s) of
        None \<Rightarrow> Some (setListenCall h st (onL (\<lambda>l. l\<lparr>lnSendMu := Some h\<rparr>) s))
      | Some _ \<Rightarrow> None)"

fun handlerStep :: "nat \<Rightarrow> bool \<Rightarrow> 't listen_call \<Rightarrow> 't listen_system \<Rightarrow> 't listen_system option" where
  "handlerStep h arm (HUnbounded evt) s = sendUnbounded h arm evt s"
| "handlerStep h arm (HBounded evt) s = Some (sendBounded h evt s)"
| "handlerStep h arm (HCounted evt) s = lockedBy h (HLocked evt) s"
| "handlerStep h arm (HLocked evt) s = Some (deliverCheck h evt s)"
| "handlerStep h arm (HSending evt) s = deliverSend h evt s"
| "handlerStep h arm HLast s = Some (deliverMark h s)"
| "handlerStep h arm HMarked s = Some (deliverClose h s)"
| "handlerStep h arm _ s = None"

fun unsubscribeStep :: "nat \<Rightarrow> 't listen_call \<Rightarrow> 't listen_system \<Rightarrow> 't listen_system option" where
  "unsubscribeStep u UWon s = Some (setListenCall u UDone (onL closeDone s))"
| "unsubscribeStep u UDone s = Some (unsubLeave u s)"
| "unsubscribeStep u ULeft s =
     (case lnSendMu (lsL s) of
        None \<Rightarrow> Some (setListenCall u ListenReturned (onL closeChLocked s))
      | Some _ \<Rightarrow> None)"
| "unsubscribeStep u _ s = None"

fun listenAct :: "'t listen_action \<Rightarrow> 't listen_system \<Rightarrow> 't listen_system option" where
  "listenAct (Handle h evt) s = (if lsCalls s h = None then Some (handle h evt s) else None)"
| "listenAct (HandlerStep h arm) s = (case lsCalls s h of Some st \<Rightarrow> handlerStep h arm st s | None \<Rightarrow> None)"
| "listenAct AutoUnsubscribe s = unsubscribeWhenPublished s"
| "listenAct (PublishSubscription i) s =
     (if lnReady (lsL s) \<or> lnSendMu (lsL s) \<noteq> None then None else Some (publishSubscription i s))"
| "listenAct (StartUnsubscribe u) s =
     (if lnReady (lsL s) \<and> lsCalls s u = None then Some (unsubSwap u s) else None)"
| "listenAct (UnsubscribeStep u) s = (case lsCalls s u of Some st \<Rightarrow> unsubscribeStep u st s | None \<Rightarrow> None)"
| "listenAct Take s =
     (case lnCh (lsL s) of
        [] \<Rightarrow> None
      | e # es \<Rightarrow> Some (onL (\<lambda>l. l\<lparr>lnCh := es, lnTaken := lnTaken l @ [e]\<rparr>) s))"

inductive listenReachable :: "int \<Rightarrow> 't listen_system \<Rightarrow> bool" for count where
  start: "listenReachable count (startListen count)"
| act: "listenReachable count s \<Longrightarrow> listenAct a s = Some s' \<Longrightarrow> listenReachable count s'"

fun listenRun :: "'t listen_action list \<Rightarrow> 't listen_system \<Rightarrow> 't listen_system option" where
  "listenRun [] s = Some s"
| "listenRun (a # as) s = Option.bind (listenAct a s) (listenRun as)"

lemma listenRun_reachable:
  "listenReachable count s \<Longrightarrow> listenRun as s = Some s' \<Longrightarrow> listenReachable count s'"
  by (induction as arbitrary: s) (auto simp: bind_eq_Some_conv intro: listenReachable.act)

end
