(* ===== verification/Listener_Correct.thy ===== *)
theory Listener_Correct
  imports Listener
begin

text \<open>
  The invariant of a listener in every interleaving of handler calls, its consumer and
  \<open>unsubscribe\<close>, and what it guarantees: no send on a closed channel, no channel closed twice, no
  send that blocks, at most \<open>count\<close> events.
\<close>

section \<open>The invariant\<close>

fun listenOk :: "'t listener \<Rightarrow> nat \<Rightarrow> 't listen_call \<Rightarrow> bool" where
  "listenOk l h (HUnbounded e) \<longleftrightarrow> lnCount l \<le> 0"
| "listenOk l h (HBounded e) \<longleftrightarrow> 0 < lnCount l"
| "listenOk l h (HCounted e) \<longleftrightarrow> 0 < lnCount l"
| "listenOk l h (HLocked e) \<longleftrightarrow> 0 < lnCount l \<and> lnSendMu l = Some h"
| "listenOk l h (HSending e) \<longleftrightarrow> 0 < lnCount l \<and> lnSendMu l = Some h \<and> lnDelivered l < lnCount l \<and> \<not> lnChClosed l"
| "listenOk l h HLast \<longleftrightarrow> 0 < lnCount l \<and> lnSendMu l = Some h \<and> lnDelivered l = lnCount l"
| "listenOk l h HMarked \<longleftrightarrow> 0 < lnCount l \<and> lnSendMu l = Some h \<and> lnDelivered l = lnCount l \<and> lnClosed l"
| "listenOk l h UWon \<longleftrightarrow> lnClosed l \<and> \<not> lnDone l \<and> lnReady l"
| "listenOk l h UDone \<longleftrightarrow> lnClosed l \<and> lnDone l \<and> lnReady l"
| "listenOk l h ULeft \<longleftrightarrow> 0 < lnCount l \<and> lnClosed l \<and> lnDone l"
| "listenOk l h ListenReturned \<longleftrightarrow> True"

definition fieldsOk :: "int \<Rightarrow> 't listener \<Rightarrow> bool" where
  "fieldsOk count l \<longleftrightarrow> lnCount l = count \<and> lnCap l = nat (if count \<le> 0 then 16 else count)
     \<and> lnCrashes l = 0 \<and> lnChClosedFlag l = lnChClosed l
     \<and> (lnChClosed l \<longrightarrow> 0 < count \<and> lnClosed l \<and> (lnDelivered l = count \<or> lnDone l))
     \<and> (lnDone l \<longrightarrow> lnClosed l \<and> lnReady l)
     \<and> (0 < count \<longrightarrow> lnDelivered l = int (length (lnTaken l) + length (lnCh l)) \<and> lnDelivered l \<le> count)
     \<and> length (lnCh l) \<le> lnCap l
     \<and> set (lnUnsubscribed l) \<subseteq> {lnSubID l} \<and> (lnUnsubscribed l \<noteq> [] \<longrightarrow> lnReady l)"

text \<open>One \<open>unsubscribe\<close> wins the swap; a full listener is closed, or about to be.\<close>

definition listenInv :: "int \<Rightarrow> 't listen_system \<Rightarrow> bool" where
  "listenInv count s \<longleftrightarrow> fieldsOk count (lsL s)
     \<and> (\<forall>h st. lsCalls s h = Some st \<longrightarrow> listenOk (lsL s) h st)
     \<and> (\<forall>h. lnSendMu (lsL s) = Some h \<longrightarrow> lsCalls s h \<noteq> None)
     \<and> (\<forall>u v. lsCalls s u = Some UWon \<longrightarrow> lsCalls s v = Some UWon \<longrightarrow> u = v)
     \<and> (0 < count \<and> lnDelivered (lsL s) = count \<longrightarrow>
          lnClosed (lsL s) \<or> (\<exists>h. lsCalls s h = Some HLast))"

lemma listenInv_start: "listenInv count (startListen count)"
  by (auto simp: listenInv_def startListen_def newListener_def fieldsOk_def Let_def)

section \<open>Preservation\<close>

lemmas listen_defs = setListenCall_def onL_def handle_def sendUnbounded_def sendBounded_def unlockMu_def
  deliverCheck_def deliverMark_def deliverClose_def closeChLocked_def closeCh_def closeDone_def closeReady_def
  leaveBus_def unsubscribeWhenPublished_def publishSubscription_def unsubSwap_def unsubLeave_def lockedBy_def

text \<open>
  A step that moves one call: the fields stay sound, the other calls do, and so does the new
  state of the moved one.
\<close>

lemma listenInvI:
  assumes "listenInv count s" "lsCalls s' = (lsCalls s)(h \<mapsto> st)" "fieldsOk count (lsL s')"
    and "\<And>g st'. g \<noteq> h \<Longrightarrow> lsCalls s g = Some st' \<Longrightarrow> listenOk (lsL s) g st' \<Longrightarrow> listenOk (lsL s') g st'"
    and "listenOk (lsL s') h st"
    and "lnSendMu (lsL s') = lnSendMu (lsL s) \<or> lnSendMu (lsL s') = None \<or> lnSendMu (lsL s') = Some h"
    and "st = UWon \<Longrightarrow> \<not> lnClosed (lsL s)"
    and "0 < count \<Longrightarrow> lnDelivered (lsL s') = count \<Longrightarrow>
           lnClosed (lsL s') \<or> st = HLast \<or> (\<exists>g. g \<noteq> h \<and> lsCalls s g = Some HLast)"
  shows "listenInv count s'"
proof -
  have ok: "listenOk (lsL s) g st'" if "lsCalls s g = Some st'" for g st' using assms(1) that by (simp add: listenInv_def)
  have "\<not> (st = UWon \<and> lsCalls s g = Some UWon)" for g using assms(7) ok[of g UWon] by auto
  moreover have "lsCalls s u = Some UWon \<Longrightarrow> lsCalls s v = Some UWon \<Longrightarrow> u = v" for u v
    using assms(1) unfolding listenInv_def by blast
  ultimately have "u = v" if "lsCalls s' u = Some UWon" "lsCalls s' v = Some UWon" for u v
    using that unfolding assms(2) by (auto split: if_splits)
  moreover have "lsCalls s' g \<noteq> None" if "lnSendMu (lsL s') = Some g" for g
    using that assms(1,6) unfolding listenInv_def assms(2) by (auto split: if_splits)
  moreover have "listenOk (lsL s') g st'" if "lsCalls s' g = Some st'" for g st'
    using that assms(4,5) ok unfolding assms(2) by (auto split: if_splits)
  moreover have "lnClosed (lsL s') \<or> (\<exists>g. lsCalls s' g = Some HLast)" if "0 < count" "lnDelivered (lsL s') = count"
    using assms(8)[OF that] unfolding assms(2) by auto
  ultimately show ?thesis using assms(3) unfolding listenInv_def by blast
qed

text \<open>The lock excludes the other calls from the states that need it.\<close>

lemma holder_alone:
  "listenOk l g st \<Longrightarrow> lnSendMu l = Some h \<or> lnSendMu l = None \<Longrightarrow> g \<noteq> h \<Longrightarrow>
     (\<forall>e. st \<noteq> HLocked e \<and> st \<noteq> HSending e) \<and> st \<noteq> HLast \<and> st \<noteq> HMarked"
  by (cases st) auto

text \<open>A call that moves and changes no field.\<close>

lemma listenInv_move:
  assumes "listenInv count s" "listenOk (lsL s) h st" "st \<noteq> UWon" "lsCalls s h \<noteq> Some HLast"
  shows "listenInv count (setListenCall h st s)"
  using assms(1)
proof (rule listenInvI[where h = h and st = st])
  show "lnClosed (lsL (setListenCall h st s)) \<or> st = HLast \<or> (\<exists>g. g \<noteq> h \<and> lsCalls s g = Some HLast)"
    if "0 < count" "lnDelivered (lsL (setListenCall h st s)) = count"
    using assms(1,4) that unfolding listenInv_def setListenCall_def by auto
qed (use assms in \<open>auto simp: setListenCall_def listenInv_def\<close>)

lemma inv_call: "listenInv count s \<Longrightarrow> lsCalls s h = Some st \<Longrightarrow> listenOk (lsL s) h st"
  by (simp add: listenInv_def)

lemma inv_fields: "listenInv count s \<Longrightarrow> fieldsOk count (lsL s)"
  by (simp add: listenInv_def)

lemma inv_full_other:
  "listenInv count s \<Longrightarrow> 0 < count \<Longrightarrow> lnDelivered (lsL s) = count \<Longrightarrow> lsCalls s h \<noteq> Some HLast \<Longrightarrow>
     lnClosed (lsL s) \<or> (\<exists>g. g \<noteq> h \<and> lsCalls s g = Some HLast)"
  unfolding listenInv_def by metis

lemma inv_full:
  "listenInv count s \<Longrightarrow> 0 < count \<Longrightarrow> lnDelivered (lsL s) = count \<Longrightarrow> lnClosed (lsL s) \<or> (\<exists>g. lsCalls s g = Some HLast)"
  by (simp add: listenInv_def)

lemma inv_won: "listenInv count s \<Longrightarrow> lsCalls s u = Some UWon \<Longrightarrow> lsCalls s v = Some UWon \<Longrightarrow> u = v"
  by (simp add: listenInv_def)

text \<open>A step that moves no call.\<close>

lemma listenInv_frame:
  assumes "listenInv count s" "lsCalls s' = lsCalls s" "fieldsOk count (lsL s')"
    and "\<And>g st. listenOk (lsL s) g st \<Longrightarrow> listenOk (lsL s') g st"
    and "lnSendMu (lsL s') = lnSendMu (lsL s)" "lnDelivered (lsL s') = lnDelivered (lsL s)" "lnClosed (lsL s') = lnClosed (lsL s)"
  shows "listenInv count s'"
  using assms unfolding listenInv_def by simp

lemma handle_inv:
  assumes "listenInv count s" "lsCalls s h = None"
  shows "listenInv count (handle h evt s)"
  using assms by (auto simp: handle_def intro!: listenInv_move)

lemma sendBounded_inv:
  assumes "listenInv count s" "lsCalls s h = Some (HBounded evt)"
  shows "listenInv count (sendBounded h evt s)"
proof -
  have frame: "listenOk (l\<lparr>lnReceived := n\<rparr>) g st = listenOk l g st" for l g n st by (cases st) simp_all
  have "listenInv count (onL (\<lambda>l. l\<lparr>lnReceived := n\<rparr>) s)" for n
    using assms(1) by (auto simp: listenInv_def onL_def fieldsOk_def frame)
  then show ?thesis
    using inv_call[OF assms] assms(2) by (auto simp: sendBounded_def Let_def onL_def intro!: listenInv_move)
qed

lemma sendUnbounded_inv:
  assumes "listenInv count s" "lsCalls s h = Some (HUnbounded evt)" "sendUnbounded h arm evt s = Some s'"
  shows "listenInv count s'"
proof -
  have c: "lnCount (lsL s) \<le> 0" using inv_call[OF assms(1,2)] by simp
  then have open': "\<not> lnChClosed (lsL s)" using inv_fields[OF assms(1)] by (auto simp: fieldsOk_def)
  have frame: "listenOk (l\<lparr>lnCh := es\<rparr>) g st = listenOk l g st" for l g es st by (cases st) simp_all
  have "listenInv count (s\<lparr>lsL := (lsL s)\<lparr>lnCh := lnCh (lsL s) @ [evt]\<rparr>\<rparr>)" if "length (lnCh (lsL s)) < lnCap (lsL s)"
    using assms(1) c that by (auto simp: listenInv_def fieldsOk_def frame)
  then show ?thesis
    using assms open' by (auto simp: sendUnbounded_def sendCh_def split: if_splits intro!: listenInv_move)
qed

lemma lock_inv:
  assumes "listenInv count s" "lsCalls s h = Some (HCounted evt)" "lockedBy h (HLocked evt) s = Some s'"
  shows "listenInv count s'"
proof -
  have mu: "lnSendMu (lsL s) = None" "s' = setListenCall h (HLocked evt) (onL (\<lambda>l. l\<lparr>lnSendMu := Some h\<rparr>) s)"
    using assms(3) by (auto simp: lockedBy_def split: option.splits)
  have others: "listenOk ((lsL s)\<lparr>lnSendMu := Some h\<rparr>) g st" if "listenOk (lsL s) g st" "g \<noteq> h" for g st
    using that mu(1) by (cases st) auto
  show ?thesis
    using assms(1)
  proof (rule listenInvI[where h = h and st = "HLocked evt"])
    show "lnClosed (lsL s') \<or> HLocked evt = HLast \<or> (\<exists>g. g \<noteq> h \<and> lsCalls s g = Some HLast)"
      if "0 < count" "lnDelivered (lsL s') = count"
      using inv_full_other[OF assms(1), of h] that assms(2) by (simp add: mu(2) setListenCall_def onL_def)
  qed (use inv_fields[OF assms(1)] inv_call[OF assms(1,2)] others in \<open>auto simp: mu setListenCall_def onL_def fieldsOk_def\<close>)
qed

lemma unlock_inv:
  assumes "listenInv count s" "lnSendMu (lsL s) = Some h" "lsCalls s h \<noteq> Some HLast"
  shows "listenInv count (setListenCall h ListenReturned (unlockMu s))"
proof -
  have others: "listenOk ((lsL s)\<lparr>lnSendMu := None\<rparr>) g st" if "listenOk (lsL s) g st" "g \<noteq> h" for g st
    using that assms(2) by (cases st) auto
  show ?thesis
    using assms(1)
  proof (rule listenInvI[where h = h and st = ListenReturned])
    let ?s = "setListenCall h ListenReturned (unlockMu s)"
    show "lnClosed (lsL ?s) \<or> ListenReturned = HLast \<or> (\<exists>g. g \<noteq> h \<and> lsCalls s g = Some HLast)"
      if "0 < count" "lnDelivered (lsL ?s) = count"
      using inv_full_other[OF assms(1), of h] that assms(3) by (simp add: setListenCall_def unlockMu_def onL_def)
  qed (use inv_fields[OF assms(1)] others in \<open>auto simp: setListenCall_def unlockMu_def onL_def fieldsOk_def\<close>)
qed

lemma deliverCheck_inv:
  assumes "listenInv count s" "lsCalls s h = Some (HLocked evt)"
  shows "listenInv count (deliverCheck h evt s)"
proof -
  have mu: "lnSendMu (lsL s) = Some h" "0 < lnCount (lsL s)" using inv_call[OF assms] by simp_all
  have "listenOk (lsL s) h (HSending evt)" if "\<not> lnClosed (lsL s)"
  proof -
    have "lsCalls s g \<noteq> Some HLast" for g
      using inv_call[OF assms(1), of g HLast] assms(2) mu(1) by auto
    then have "lnDelivered (lsL s) \<noteq> lnCount (lsL s)"
      using inv_full[OF assms(1)] mu(2) that inv_fields[OF assms(1)] by (auto simp: fieldsOk_def)
    then show ?thesis using mu that inv_fields[OF assms(1)] by (auto simp: fieldsOk_def)
  qed
  then show ?thesis
    using assms mu by (auto simp: deliverCheck_def intro!: listenInv_move unlock_inv)
qed

lemma deliverSend_inv:
  assumes "listenInv count s" "lsCalls s h = Some (HSending evt)" "count \<le> maxInt64" "deliverSend h evt s = Some s'"
  shows "listenInv count s'"
proof -
  have h: "lnSendMu (lsL s) = Some h" "0 < lnCount (lsL s)" "lnDelivered (lsL s) < lnCount (lsL s)" "\<not> lnChClosed (lsL s)"
    using inv_call[OF assms(1,2)] by simp_all
  note f = inv_fields[OF assms(1)]
  let ?n = "lnDelivered (lsL s) + 1"
  have n: "i64 ?n = ?n" "0 \<le> lnDelivered (lsL s)" using f h(2,3) assms(3) by (auto simp: fieldsOk_def intro!: i64_id)
  let ?l = "(lsL s)\<lparr>lnCh := lnCh (lsL s) @ [evt], lnDelivered := ?n\<rparr>"
  have s': "length (lnCh (lsL s)) < lnCap (lsL s)" "s' = (if ?n = count then setListenCall h HLast (s\<lparr>lsL := ?l\<rparr>)
      else setListenCall h ListenReturned (unlockMu (s\<lparr>lsL := ?l\<rparr>)))"
    using assms(4) h(4) n f by (auto simp: deliverSend_def sendCh_def Let_def fieldsOk_def split: if_splits)
  have fields: "fieldsOk count ?l" using f h s'(1) by (auto simp: fieldsOk_def)
  have alone: "listenOk (lsL s) g st \<Longrightarrow> g \<noteq> h \<Longrightarrow> listenOk ?l g st \<and> listenOk (?l\<lparr>lnSendMu := None\<rparr>) g st" for g st
    using h(1) by (cases st) auto
  have cnt: "lnCount (lsL s) = count" using f by (simp add: fieldsOk_def)
  have free: "fieldsOk count (?l\<lparr>lnSendMu := None\<rparr>)" using fields by (auto simp: fieldsOk_def)
  show ?thesis
  proof (cases "?n = count")
    case True
    show ?thesis
      by (rule listenInvI[OF assms(1), where h = h and st = HLast])
        (use True fields alone h cnt in \<open>simp_all add: s'(2) setListenCall_def\<close>)
  next
    case False
    show ?thesis
      by (rule listenInvI[OF assms(1), where h = h and st = ListenReturned])
        (use False free alone h cnt in \<open>simp_all add: s'(2) setListenCall_def unlockMu_def onL_def\<close>)
  qed
qed

lemma deliverMark_inv:
  assumes "listenInv count s" "lsCalls s h = Some HLast"
  shows "listenInv count (deliverMark h s)"
proof -
  have frame: "listenOk l g st \<Longrightarrow> listenOk (l\<lparr>lnClosed := True\<rparr>) g st" for l g st by (cases st) simp_all
  show ?thesis
    by (rule listenInvI[OF assms(1), where h = h and st = HMarked])
      (use inv_call[OF assms] inv_fields[OF assms(1)] frame in \<open>auto simp: deliverMark_def setListenCall_def onL_def fieldsOk_def\<close>)
qed

text \<open>Closing the channel under the lock.\<close>

lemma closeCh_fields:
  assumes "fieldsOk count l" "0 < count" "lnClosed l" "lnDelivered l = count \<or> lnDone l"
  shows "fieldsOk count (closeChLocked l)"
  using assms by (auto simp: fieldsOk_def closeChLocked_def closeCh_def)

lemma closeCh_other:
  "listenOk l g st \<Longrightarrow> \<forall>e. st \<noteq> HSending e \<Longrightarrow> listenOk (closeChLocked l) g st"
  by (cases st) (auto simp: closeChLocked_def closeCh_def)

lemma closeChLocked_simps [simp]:
  "lnSendMu (closeChLocked l) = lnSendMu l" "lnClosed (closeChLocked l) = lnClosed l"
  "lnDelivered (closeChLocked l) = lnDelivered l" "lnAuto (closeChLocked l) = lnAuto l"
  by (simp_all add: closeChLocked_def closeCh_def)

lemma deliverClose_inv:
  assumes "listenInv count s" "lsCalls s h = Some HMarked"
  shows "listenInv count (deliverClose h s)"
proof -
  have h: "0 < lnCount (lsL s)" "lnSendMu (lsL s) = Some h" "lnDelivered (lsL s) = lnCount (lsL s)" "lnClosed (lsL s)"
    using inv_call[OF assms] by simp_all
  have cnt: "lnCount (lsL s) = count" using inv_fields[OF assms(1)] by (simp add: fieldsOk_def)
  let ?l = "(closeChLocked (lsL s))\<lparr>lnAuto := Suc (lnAuto (lsL s)), lnSendMu := None\<rparr>"
  have fields: "fieldsOk count ?l" using closeCh_fields[OF inv_fields[OF assms(1)]] h cnt by (simp add: fieldsOk_def)
  have frame: "listenOk ?l g st" if "listenOk (lsL s) g st" "g \<noteq> h" for g st
  proof -
    have "listenOk (closeChLocked (lsL s)) g st" using closeCh_other that holder_alone[OF that(1) _ that(2)] h(2) by blast
    then show ?thesis using holder_alone[OF that(1) _ that(2)] h(2) by (cases st) auto
  qed
  show ?thesis
    by (rule listenInvI[OF assms(1), where h = h and st = ListenReturned])
      (use h fields frame in \<open>auto simp: deliverClose_def setListenCall_def onL_def unlockMu_def\<close>)
qed

lemma auto_inv:
  assumes "listenInv count s" "unsubscribeWhenPublished s = Some s'"
  shows "listenInv count s'"
proof -
  have frame: "listenOk (l\<lparr>lnAuto := a, lnUnsubscribed := us\<rparr>) g st = listenOk l g st" for l g a us st by (cases st) simp_all
  show ?thesis
    using assms(2) inv_fields[OF assms(1)]
    by (intro listenInv_frame[OF assms(1)])
      (auto simp: unsubscribeWhenPublished_def onL_def leaveBus_def fieldsOk_def frame split: if_splits)
qed

lemma publish_inv:
  assumes "listenInv count s" "\<not> lnReady (lsL s)"
  shows "listenInv count (publishSubscription i s)"
proof -
  have frame: "listenOk l g st \<Longrightarrow> listenOk (l\<lparr>lnSubID := i, lnReady := True\<rparr>) g st" for l g st by (cases st) simp_all
  show ?thesis
    by (rule listenInv_frame[OF assms(1)])
      (use assms(2) frame inv_fields[OF assms(1)] in \<open>auto simp: publishSubscription_def onL_def closeReady_def fieldsOk_def\<close>)
qed

lemma swap_inv:
  assumes "listenInv count s" "lsCalls s u = None" "lnReady (lsL s)"
  shows "listenInv count (unsubSwap u s)"
proof (cases "lnClosed (lsL s)")
  case True
  then show ?thesis using assms by (auto simp: unsubSwap_def intro!: listenInv_move)
next
  case False
  have frame: "listenOk l g st \<Longrightarrow> listenOk (l\<lparr>lnClosed := True\<rparr>) g st" for l g st by (cases st) simp_all
  show ?thesis
    by (rule listenInvI[OF assms(1), where h = u and st = UWon])
      (use False assms(3) inv_fields[OF assms(1)] frame in \<open>auto simp: unsubSwap_def setListenCall_def onL_def fieldsOk_def\<close>)
qed

lemma unsubscribeStep_inv:
  assumes "listenInv count s" "lsCalls s u = Some st" "unsubscribeStep u st s = Some s'"
  shows "listenInv count s'"
proof (cases st)
  case UWon
  have u: "lnClosed (lsL s)" "\<not> lnDone (lsL s)" "lnReady (lsL s)" using inv_call[OF assms(1,2)] UWon by simp_all
  have frame: "listenOk ((lsL s)\<lparr>lnDone := True\<rparr>) g st'" if "listenOk (lsL s) g st'" "lsCalls s g = Some st'" "g \<noteq> u" for g st'
    using that inv_won[OF assms(1), of u g] assms(2) UWon by (cases st') auto
  have s': "s' = s\<lparr>lsL := (lsL s)\<lparr>lnDone := True\<rparr>, lsCalls := (lsCalls s)(u \<mapsto> UDone)\<rparr>"
    using assms(3) UWon u by (simp add: setListenCall_def onL_def closeDone_def)
  have fields: "fieldsOk count ((lsL s)\<lparr>lnDone := True\<rparr>)" using u inv_fields[OF assms(1)] by (auto simp: fieldsOk_def)
  show ?thesis
    by (rule listenInvI[OF assms(1), where h = u and st = UDone]) (use u frame fields in \<open>simp_all add: s'\<close>)
next
  case UDone
  have u: "lnClosed (lsL s)" "lnDone (lsL s)" "lnReady (lsL s)" using inv_call[OF assms(1,2)] UDone by simp_all
  have frame: "listenOk (leaveBus l) g st' = listenOk l g st'" for l g st' by (cases st') (simp_all add: leaveBus_def)
  have "listenInv count (onL leaveBus s)"
    by (rule listenInv_frame[OF assms(1)])
      (use u frame inv_fields[OF assms(1)] in \<open>auto simp: onL_def fieldsOk_def leaveBus_def\<close>)
  moreover have "lnClosed (leaveBus l) = lnClosed l" "lnDone (leaveBus l) = lnDone l" "lnCount (leaveBus l) = lnCount l" for l :: "'a listener"
    by (simp_all add: leaveBus_def)
  ultimately show ?thesis
    using assms UDone u by (auto simp: unsubLeave_def Let_def onL_def intro!: listenInv_move)
next
  case ULeft
  have u: "0 < lnCount (lsL s)" "lnClosed (lsL s)" "lnDone (lsL s)" using inv_call[OF assms(1,2)] ULeft by simp_all
  have mu: "lnSendMu (lsL s) = None" "s' = setListenCall u ListenReturned (onL closeChLocked s)"
    using assms(3) ULeft by (auto split: option.splits)
  have frame: "listenOk (closeChLocked (lsL s)) g st'" if "listenOk (lsL s) g st'" for g st'
    using closeCh_other[OF that] that mu(1) by (cases st') auto
  have "lnCount (lsL s) = count" using inv_fields[OF assms(1)] by (simp add: fieldsOk_def)
  then have "fieldsOk count (closeChLocked (lsL s))" using closeCh_fields[OF inv_fields[OF assms(1)]] u by simp
  then show ?thesis
    by (intro listenInvI[OF assms(1), where h = u and st = ListenReturned])
      (use u frame in \<open>auto simp: mu setListenCall_def onL_def\<close>)
qed (use assms(3) in auto)

lemma take_inv:
  assumes "listenInv count s" "listenAct Take s = Some s'"
  shows "listenInv count s'"
proof -
  have frame: "listenOk (l\<lparr>lnCh := es, lnTaken := ts\<rparr>) g st = listenOk l g st" for l g es ts st by (cases st) simp_all
  obtain x es where s': "lnCh (lsL s) = x # es" "s' = s\<lparr>lsL := (lsL s)\<lparr>lnCh := es, lnTaken := lnTaken (lsL s) @ [x]\<rparr>\<rparr>"
    using assms(2) by (auto simp: onL_def split: list.splits)
  have fields: "fieldsOk count ((lsL s)\<lparr>lnCh := es, lnTaken := lnTaken (lsL s) @ [x]\<rparr>)"
    using s'(1) inv_fields[OF assms(1)] by (auto simp: fieldsOk_def)
  show ?thesis
    by (rule listenInv_frame[OF assms(1)]) (use fields in \<open>simp_all add: s'(2) frame\<close>)
qed

lemma listenReachable_inv:
  assumes "listenReachable count s" "count \<le> maxInt64"
  shows "listenInv count s"
  using assms
proof (induction rule: listenReachable.induct)
  case start
  show ?case by (rule listenInv_start)
next
  case (act s a s')
  note inv = act.IH[OF act.prems]
  show ?case
  proof (cases a)
    case (HandlerStep h arm)
    then obtain st where st: "lsCalls s h = Some st" "handlerStep h arm st s = Some s'"
      using act.hyps(2) by (auto split: option.splits)
    then show ?thesis
      using inv act.prems sendUnbounded_inv sendBounded_inv lock_inv deliverCheck_inv deliverSend_inv deliverMark_inv deliverClose_inv
      by (cases st) auto
  qed (use act.hyps(2) inv handle_inv auto_inv publish_inv swap_inv unsubscribeStep_inv take_inv in
      \<open>auto split: option.splits if_splits\<close>)
qed

section \<open>What a listener guarantees\<close>

text \<open>C36: a listener is safe in every interleaving. Nothing is sent on a closed channel and no
  channel is closed twice. With a bound, at most \<open>count\<close> events are sent, a handler that holds the
  mutex never waits for room in the channel, and the channel is closed only after the last of them
  or by \<open>unsubscribe\<close>; without a bound it is never closed. The bus is only asked to drop the
  listener's own subscription, after \<open>Listen\<close> has learned its id.\<close>

theorem listener_safe:
  assumes "listenReachable count s" "count \<le> maxInt64"
  shows "lnCrashes (lsL s) = 0
     \<and> (0 < count \<longrightarrow> int (length (lnTaken (lsL s) @ lnCh (lsL s))) \<le> count)
     \<and> (\<forall>h evt. lsCalls s h = Some (HSending evt) \<longrightarrow> listenAct (HandlerStep h False) s \<noteq> None)
     \<and> (lnChClosed (lsL s) \<longrightarrow> 0 < count \<and> (int (length (lnTaken (lsL s) @ lnCh (lsL s))) = count \<or> lnDone (lsL s)))
     \<and> set (lnUnsubscribed (lsL s)) \<subseteq> {lnSubID (lsL s)} \<and> (lnUnsubscribed (lsL s) \<noteq> [] \<longrightarrow> lnReady (lsL s))"
proof -
  note inv = listenReachable_inv[OF assms]
  note f = inv_fields[OF inv, unfolded fieldsOk_def]
  have "listenAct (HandlerStep h False) s \<noteq> None" if "lsCalls s h = Some (HSending evt)" for h evt
  proof -
    have "0 < lnCount (lsL s)" "lnDelivered (lsL s) < lnCount (lsL s)" using inv_call[OF inv that] by simp_all
    then have "length (lnCh (lsL s)) < lnCap (lsL s)" using f by auto
    then show ?thesis using that by (simp add: deliverSend_def sendCh_def Let_def)
  qed
  then show ?thesis using f by auto
qed

text \<open>A listener for one event that receives two: the second is dropped, the channel closed.\<close>

definition listenEvent :: "int \<Rightarrow> int event" where
  "listenEvent v = \<lparr>evID = ''1'', evAggregateID = ''a'', evEventName = ''n'', evVersion = v, evSchemaVersion = 1,
                     evOccurredAt = [], evAggregate = 0, evPreviousAggregate = 0\<rparr>"

definition oneEventRun :: "int listen_action list" where
  "oneEventRun = [Handle 0 (listenEvent 1), Handle 1 (listenEvent 2), HandlerStep 0 False, HandlerStep 1 False,
     HandlerStep 0 False, HandlerStep 0 False, HandlerStep 0 False, HandlerStep 0 False, HandlerStep 0 False,
     PublishSubscription ''id'', AutoUnsubscribe, StartUnsubscribe 2]"

theorem listener_safe_witness:
  "\<exists>s. listenRun oneEventRun (startListen 1) = Some s \<and> lnChClosed (lsL s) \<and> lnCh (lsL s) = [listenEvent 1]
     \<and> int (length (lnTaken (lsL s) @ lnCh (lsL s))) \<le> 1 \<and> lnCrashes (lsL s) = 0"
proof -
  obtain s where s: "listenRun oneEventRun (startListen 1) = Some s" "lnChClosed (lsL s)" "lnCh (lsL s) = [listenEvent 1]"
    by (simp add: oneEventRun_def startListen_def newListener_def listen_defs deliverSend_def sendCh_def i64_def Let_def)
  have "listenReachable 1 s" by (rule listenRun_reachable[OF listenReachable.start s(1)])
  then have "lnCrashes (lsL s) = 0 \<and> int (length (lnTaken (lsL s) @ lnCh (lsL s))) \<le> 1"
    using listener_safe[of 1 s] by (simp add: maxInt64_def)
  then show ?thesis using s by blast
qed

end
