(* ===== verification/Topic.thy ===== *)
theory Topic
  imports Regexp
begin

text \<open>
  \<^verbatim>\<open>topic.go\<close>: the conversion of a dotted event pattern with wildcards into an anchored regular
  expression, and its meaning in terms of segments.
\<close>

definition segmentPattern :: "string \<Rightarrow> bool \<Rightarrow> string" where
  "segmentPattern segment isLast =
     (if segment \<noteq> ''*'' then quoteMeta segment else if isLast then ''.*'' else ''[^.]+'')"

definition topic :: "string \<Rightarrow> string" where
  "topic pattern =
     (let parts = splitN 3 pattern;
          parts' = map (\<lambda>(i, p). segmentPattern p (i = length parts - 1)) (enumerate 0 parts)
      in ''^'' @ joinWith [CHR 0x5C, CHR ''.''] parts' @ ''$'')"

section \<open>Its meaning\<close>

text \<open>
  The event name has as many segments as the pattern (the last takes the remaining dots). A
  literal segment is itself; a wildcard in the middle is any non-empty segment, at the end any
  text of one line.
\<close>

definition segmentMatches :: "string \<Rightarrow> bool \<Rightarrow> string \<Rightarrow> bool" where
  "segmentMatches segment isLast w \<longleftrightarrow>
     (if segment \<noteq> ''*'' then w = segment
      else if isLast then CHR ''\<newline>'' \<notin> set w
      else w \<noteq> [] \<and> CHR ''.'' \<notin> set w)"

fun segmentsMatch :: "string list \<Rightarrow> string list \<Rightarrow> bool" where
  "segmentsMatch [p] [w] = segmentMatches p True w"
| "segmentsMatch (p # q # ps) (w # ws) = (segmentMatches p False w \<and> segmentsMatch (q # ps) ws)"
| "segmentsMatch _ _ = False"

definition topicMatches :: "string \<Rightarrow> string \<Rightarrow> bool" where
  "topicMatches pattern name =
     (let ps = splitN 3 pattern in segmentsMatch ps (splitN (length ps) name))"

section \<open>The regular expression\<close>

definition segmentItems :: "string \<Rightarrow> bool \<Rightarrow> re_item list" where
  "segmentItems segment isLast =
     (if segment \<noteq> ''*'' then map RLit segment else if isLast then [RAnyStar] else [RNotDotPlus])"

fun topicItems :: "string list \<Rightarrow> re_item list" where
  "topicItems [] = [REnd]"
| "topicItems [p] = segmentItems p True @ [REnd]"
| "topicItems (p # ps) = segmentItems p False @ RLit (CHR ''.'') # topicItems ps"

fun segmentPatterns :: "string list \<Rightarrow> string list" where
  "segmentPatterns [] = []"
| "segmentPatterns [p] = [segmentPattern p True]"
| "segmentPatterns (p # ps) = segmentPattern p False # segmentPatterns ps"

lemma segmentPatterns_eq:
  "map (\<lambda>(i, p). segmentPattern p (i = n + length ps - 1)) (enumerate n ps) = segmentPatterns ps"
proof (induction ps arbitrary: n rule: segmentPatterns.induct)
  case (3 p q ps)
  show ?case using 3[of "Suc n"] by simp
qed simp_all

lemma parse_segment:
  "parseRe (segmentPattern p l @ rest) = map_option (\<lambda>r. segmentItems p l @ r) (parseRe rest)"
  by (auto simp: segmentPattern_def segmentItems_def parse_quoteMeta numeral_eq_Suc intro: option.map_cong)

lemma parse_topic:
  "parseRe (joinWith [CHR 0x5C, CHR ''.''] (segmentPatterns ps) @ ''$'') = Some (topicItems ps)"
proof (induction ps rule: topicItems.induct)
  case (3 p q ps)
  have "segmentPatterns (q # ps) \<noteq> []" by (cases ps) simp_all
  then obtain x xs where x: "segmentPatterns (q # ps) = x # xs" by (cases "segmentPatterns (q # ps)") auto
  show ?case using 3 unfolding segmentPatterns.simps x by (simp add: parse_segment set_metachars)
qed (simp_all add: parse_segment)

lemma topic_eq: "topic p = ''^'' @ joinWith [CHR 0x5C, CHR ''.''] (segmentPatterns (splitN 3 p)) @ ''$''"
  using segmentPatterns_eq[of 0 "splitN 3 p"] by (simp add: topic_def Let_def)

text \<open>The topic's own text has metacharacters, so the bus treats it as a regular expression.\<close>

lemma topic_meta: "quoteMeta (topic p) \<noteq> topic p"
  unfolding quoteMeta_id by (auto simp: topic_eq set_metachars)

lemma ascii_splitN: "ascii s \<Longrightarrow> list_all ascii (splitN n s)"
proof (induction n s rule: splitN.induct)
  case (3 n s)
  have "ascii (takeWhile P s) \<and> ascii (dropWhile P s)" for P
    using "3.prems" ascii_simps(3)[of "takeWhile P s" "dropWhile P s"] by simp
  moreover have "ascii t \<Longrightarrow> ascii (tl t)" for t by (cases t) simp_all
  ultimately have "ascii (takeWhile P s)" "ascii (tl (dropWhile P s))" for P by blast+
  then show ?case using 3 by simp
qed simp_all

lemma ascii_topic: "ascii p \<Longrightarrow> ascii (topic p)"
proof -
  have "list_all ascii ps \<Longrightarrow> ascii (joinWith [CHR 0x5C, CHR ''.''] (segmentPatterns ps))" for ps
  proof (induction ps rule: segmentPatterns.induct)
    case (3 p q ps)
    have "segmentPatterns (q # ps) \<noteq> []" by (cases ps) simp_all
    then show ?case using 3 by (cases "segmentPatterns (q # ps)") (auto simp: segmentPattern_def)
  qed (auto simp: segmentPattern_def)
  then show "ascii p \<Longrightarrow> ascii (topic p)" using ascii_splitN[of p 3] by (simp add: topic_eq)
qed

section \<open>Matching\<close>

text \<open>The first dot divides a string in one way.\<close>

lemma first_dot:
  "(\<exists>w s'. s = w @ CHR ''.'' # s' \<and> CHR ''.'' \<notin> set w \<and> P w \<and> Q s') \<longleftrightarrow>
     CHR ''.'' \<in> set s \<and> P (takeWhile (\<lambda>c. c \<noteq> CHR ''.'') s) \<and> Q (tl (dropWhile (\<lambda>c. c \<noteq> CHR ''.'') s))"
  (is "?L \<longleftrightarrow> ?R")
proof
  assume ?L
  then obtain w s' where w: "s = w @ CHR ''.'' # s'" "CHR ''.'' \<notin> set w" "P w" "Q s'" by blast
  have "takeWhile (\<lambda>c. c \<noteq> CHR ''.'') s = w" "dropWhile (\<lambda>c. c \<noteq> CHR ''.'') s = CHR ''.'' # s'"
    using w(2) unfolding w(1) by (induction w) auto
  then show ?R using w by simp
next
  assume ?R
  let ?w = "takeWhile (\<lambda>c. c \<noteq> CHR ''.'') s" and ?d = "dropWhile (\<lambda>c. c \<noteq> CHR ''.'') s"
  have "?d \<noteq> []" using \<open>?R\<close> by (auto simp: dropWhile_eq_Nil_conv)
  then have "?d = CHR ''.'' # tl ?d" using hd_dropWhile[OF \<open>?d \<noteq> []\<close>] by (cases ?d) auto
  then have "s = ?w @ CHR ''.'' # tl ?d" using takeWhile_dropWhile_id[of "\<lambda>c. c \<noteq> CHR ''.''" s] by metis
  moreover have "CHR ''.'' \<notin> set ?w" by (auto dest: set_takeWhileD)
  ultimately show ?L using \<open>?R\<close> by blast
qed

lemma match_segment:
  assumes "CHR ''.'' \<notin> set p"
  shows "matchHere (segmentItems p False @ RLit (CHR ''.'') # r) start s \<longleftrightarrow>
     (\<exists>w s'. s = w @ CHR ''.'' # s' \<and> CHR ''.'' \<notin> set w \<and> segmentMatches p False w \<and> matchHere r False s')"
proof -
  have lit: "matchHere (RLit (CHR ''.'') # r) b s' \<longleftrightarrow> (\<exists>t. s' = CHR ''.'' # t \<and> matchHere r False t)" for b s'
    by (cases s') auto
  show ?thesis
    using assms unfolding segmentItems_def
    by (auto simp: match_notDotPlus match_literal lit segmentMatches_def simp del: matchHere.simps(2,4))
qed

lemma match_topic:
  assumes "ps \<noteq> []" "\<forall>p \<in> set (butlast ps). CHR ''.'' \<notin> set p"
  shows "matchHere (topicItems ps) start s = segmentsMatch ps (splitN (length ps) s)"
  using assms
proof (induction ps arbitrary: start s rule: topicItems.induct)
  case (2 p)
  show ?case
    using match_anyStar_end[of start s] match_literal[of p "[REnd]" start s]
    by (auto simp: segmentItems_def segmentMatches_def simp del: matchHere.simps(3))
next
  case (3 p q ps)
  then have p: "CHR ''.'' \<notin> set p" by simp
  show ?case
    unfolding topicItems.simps match_segment[OF p] using 3 first_dot[of s "segmentMatches p False"
      "\<lambda>t. segmentsMatch (q # ps) (splitN (length (q # ps)) t)"] by (cases ps) simp_all
qed simp

lemma splitN_dots: "0 < n \<Longrightarrow> splitN n s \<noteq> [] \<and> (\<forall>p \<in> set (butlast (splitN n s)). CHR ''.'' \<notin> set p)"
  by (induction n s rule: splitN.induct) (auto dest: set_takeWhileD)

section \<open>Correctness\<close>

lemma topic_compiles:
  assumes "regexpDocumented compile" "ascii pattern" "ascii name"
  shows "\<exists>m. compile (topic pattern) = Inr m \<and> m name = topicMatches pattern name"
proof -
  have "parseRe (topic pattern) = Some (RBegin # topicItems (splitN 3 pattern))"
    unfolding topic_eq by (simp add: parse_topic)
  then obtain m where m: "compile (topic pattern) = Inr m"
      "m name = searchFrom (RBegin # topicItems (splitN 3 pattern)) True name"
    using assms ascii_topic unfolding regexpDocumented_def by blast
  have "m name = topicMatches pattern name"
    unfolding m(2) search_anchored topicMatches_def Let_def
    using match_topic splitN_dots[of 3 pattern] by simp
  then show ?thesis using m(1) by blast
qed

text \<open>C39: the regular expression \<open>Topic\<close> builds compiles, is never taken for an exact name, and
  matches an event name exactly when the name has the pattern's segments: literal segments are
  equal, a wildcard in the middle stands for one non-empty segment and at the end for the rest of
  the name, dots included, on one line.\<close>

theorem topic_matches_segments:
  assumes "regexpDocumented compile" "ascii pattern" "ascii name"
  shows "\<exists>m. compile (topic pattern) = Inr m \<and> m name = topicMatches pattern name
     \<and> quoteMeta (topic pattern) \<noteq> topic pattern"
  using topic_compiles[OF assms] topic_meta by blast

theorem topic_matches_segments_witness:
  "\<exists>m. fragmentCompile (topic ''order.*.*'') = Inr m \<and> m ''order.created.a.b'' = True"
proof -
  have "topicMatches ''order.*.*'' ''order.created.a.b''" by code_simp
  moreover have "ascii ''order.*.*''" "ascii ''order.created.a.b''" by code_simp+
  ultimately show ?thesis using topic_matches_segments[OF fragmentCompile_documented] by blast
qed

end
