(* ===== verification/Builder.thy ===== *)
theory Builder
  imports Processor Recovery Bus_Correct Topic
begin

text \<open>
  \<^verbatim>\<open>builder.go\<close> with \<^verbatim>\<open>sharding_opts.go\<close>, \<^verbatim>\<open>sync_projection_def.go\<close>, \<^verbatim>\<open>subscriber_def.go\<close> and
  \<^verbatim>\<open>models/bus.go\<close>: the options of an instance, the compilation of its patterns, and \<open>Build\<close>,
  which assembles event store, bus, dispatcher and processor and recovers pending deliveries.
\<close>

section \<open>The bus of an instance\<close>

text \<open>
  \<open>models.Bus\<close> as the builder and the facade use it; a call that draws an id is given it. Of
  the channel bus the operations are the calls of \<open>Bus\<close> run without interruption.
\<close>

record ('t, 'b) bus_ops =
  buSubscribe :: "string \<Rightarrow> string \<Rightarrow> 't projection_handler option \<Rightarrow> 't subscription_opt list \<Rightarrow> 'b \<Rightarrow> string outcome \<times> 'b"
  buUnsubscribe :: "string \<Rightarrow> 'b \<Rightarrow> 'b"
  buClose :: "goerr option \<Rightarrow> 'b \<Rightarrow> goerr option \<times> 'b"

definition channelSubscribe ::
  "string \<Rightarrow> nat \<Rightarrow> string \<Rightarrow> 't projection_handler option \<Rightarrow> 't subscription_opt list \<Rightarrow> 't channel_bus \<Rightarrow> string outcome \<times> 't channel_bus" where
  "channelSubscribe subID addr pattern handler opts b =
     (if pattern = [] then (Fail (Sentinel ErrEmptyPattern), b)
      else case handler of
             None \<Rightarrow> (Fail (Sentinel ErrNilHandler), b)
           | Some h \<Rightarrow>
               if cbClosed b then (Fail (Sentinel ErrBusClosed), b)
               else (Ok subID, insertSub subID addr pattern h (subConfig opts) b))"

type_synonym ('t, 'b) active_bus = "'b + 't channel_bus \<times> nat"

definition subscribeOn ::
  "('t, 'b) bus_ops \<Rightarrow> string \<Rightarrow> string \<Rightarrow> 't projection_handler option \<Rightarrow> 't subscription_opt list
     \<Rightarrow> ('t, 'b) active_bus \<Rightarrow> string outcome \<times> ('t, 'b) active_bus" where
  "subscribeOn B subID pattern handler opts bus =
     (case bus of
        Inl b \<Rightarrow> (case buSubscribe B subID pattern handler opts b of (r, b') \<Rightarrow> (r, Inl b'))
      | Inr (b, n) \<Rightarrow> (case channelSubscribe subID n pattern handler opts b of (r, b') \<Rightarrow> (r, Inr (b', Suc n))))"

definition unsubscribeOn :: "('t, 'b) bus_ops \<Rightarrow> string \<Rightarrow> ('t, 'b) active_bus \<Rightarrow> ('t, 'b) active_bus" where
  "unsubscribeOn B subID bus =
     (case bus of Inl b \<Rightarrow> Inl (buUnsubscribe B subID b) | Inr (b, n) \<Rightarrow> Inr (unsubscribe subID b, n))"

text \<open>\<open>OnForget\<close> of the facade: its pattern escapes the dots of the event name.\<close>

definition onForgetPattern :: string where
  "onForgetPattern =
     ''asynx'' @ [CHR 0x5C] @ ''.aggregate'' @ [CHR 0x5C] @ ''.forget''"

definition onForget ::
  "('t, 'b) bus_ops \<Rightarrow> string \<Rightarrow> 't projection_handler option \<Rightarrow> ('t, 'b) active_bus \<Rightarrow> string outcome \<times> ('t, 'b) active_bus" where
  "onForget B subID fn bus = subscribeOn B subID onForgetPattern fn [] bus"

section \<open>Options\<close>

record sharding_opts =
  soShards :: int
  soQueueDepth :: int
  soWorkersPerShard :: int

type_synonym ('tx, 't) projection_fn = "ctx \<Rightarrow> 't event \<Rightarrow> 'tx \<Rightarrow> goerr option \<times> 'tx"

record ('tx, 't) sync_projection_def =
  pdPattern :: string
  pdFn :: "('tx, 't) projection_fn option"

text \<open>\<open>sdSlow\<close> belongs to the handler: the instants at which it outlives its timeout.\<close>

record 't subscriber_def =
  sdPattern :: string
  sdHandler :: "(nat \<Rightarrow> ctx \<Rightarrow> 't event \<Rightarrow> handler_result) option"
  sdSlow :: "nat \<Rightarrow> bool"
  sdOpts :: "'t subscription_opt list"

record ('tx, 's, 'p, 't, 'v, 'b) builder =
  blEventStore :: "('tx, 's) store_ops option"
  blSnapshotStore :: "'p snapshot_ops option"
  blBus :: "'b option"
  blShardingOpts :: sharding_opts
  blSchemaVersion :: int
  blUpcasters :: "int \<Rightarrow> upcaster option"
  blPanicHandler :: bool
  blCorruptionHook :: bool
  blPublishErrorHandler :: bool
  blForgetHandlers :: "'t projection_handler option list"
  blSyncProjections :: "('tx, 't) sync_projection_def list"
  blSubscribers :: "'t subscriber_def list"
  blSnapshotErrHandler :: bool
  blDeliveryErrHandler :: bool
  blRetryInitial :: int
  blRetryMax :: int
  blMaxAttempts :: int
  blDeadLetter :: "(ctx \<Rightarrow> 't event \<Rightarrow> goerr option \<Rightarrow> handler_result) option"
  blDispatcherFactory :: "('t, 'v) dispatcher_factory option"

definition newBuilder :: "('tx, 's, 'p, 't, 'v, 'b) builder" where
  "newBuilder =
     \<lparr>blEventStore = None, blSnapshotStore = None, blBus = None,
      blShardingOpts = \<lparr>soShards = 8, soQueueDepth = 0, soWorkersPerShard = 0\<rparr>, blSchemaVersion = 1,
      blUpcasters = (\<lambda>_. None), blPanicHandler = False, blCorruptionHook = False, blPublishErrorHandler = False,
      blForgetHandlers = [], blSyncProjections = [], blSubscribers = [], blSnapshotErrHandler = False,
      blDeliveryErrHandler = False, blRetryInitial = 0, blRetryMax = 0, blMaxAttempts = 0, blDeadLetter = None,
      blDispatcherFactory = None\<rparr>"

definition withEventStore :: "('tx, 's) store_ops option \<Rightarrow> ('tx, 's, 'p, 't, 'v, 'b) builder \<Rightarrow> ('tx, 's, 'p, 't, 'v, 'b) builder" where
  "withEventStore s b = b\<lparr>blEventStore := s\<rparr>"

definition withSnapshotStore :: "'p snapshot_ops option \<Rightarrow> ('tx, 's, 'p, 't, 'v, 'b) builder \<Rightarrow> ('tx, 's, 'p, 't, 'v, 'b) builder" where
  "withSnapshotStore s b = b\<lparr>blSnapshotStore := s\<rparr>"

definition withBus :: "'b option \<Rightarrow> ('tx, 's, 'p, 't, 'v, 'b) builder \<Rightarrow> ('tx, 's, 'p, 't, 'v, 'b) builder" where
  "withBus bus b = b\<lparr>blBus := bus\<rparr>"

definition withShardingOpts :: "sharding_opts \<Rightarrow> ('tx, 's, 'p, 't, 'v, 'b) builder \<Rightarrow> ('tx, 's, 'p, 't, 'v, 'b) builder" where
  "withShardingOpts opts b = b\<lparr>blShardingOpts := opts\<rparr>"

definition withSchemaVersion :: "int \<Rightarrow> ('tx, 's, 'p, 't, 'v, 'b) builder \<Rightarrow> ('tx, 's, 'p, 't, 'v, 'b) builder" where
  "withSchemaVersion v b = b\<lparr>blSchemaVersion := v\<rparr>"

definition withUpcaster :: "int \<Rightarrow> upcaster \<Rightarrow> ('tx, 's, 'p, 't, 'v, 'b) builder \<Rightarrow> ('tx, 's, 'p, 't, 'v, 'b) builder" where
  "withUpcaster fromVersion fn b = b\<lparr>blUpcasters := (blUpcasters b)(fromVersion := Some fn)\<rparr>"

definition withPanicHandler :: "bool \<Rightarrow> ('tx, 's, 'p, 't, 'v, 'b) builder \<Rightarrow> ('tx, 's, 'p, 't, 'v, 'b) builder" where
  "withPanicHandler fn b = b\<lparr>blPanicHandler := fn\<rparr>"

definition withCorruptionHook :: "bool \<Rightarrow> ('tx, 's, 'p, 't, 'v, 'b) builder \<Rightarrow> ('tx, 's, 'p, 't, 'v, 'b) builder" where
  "withCorruptionHook fn b = b\<lparr>blCorruptionHook := fn\<rparr>"

definition withPublishErrorHandler :: "bool \<Rightarrow> ('tx, 's, 'p, 't, 'v, 'b) builder \<Rightarrow> ('tx, 's, 'p, 't, 'v, 'b) builder" where
  "withPublishErrorHandler fn b = b\<lparr>blPublishErrorHandler := fn\<rparr>"

definition withForgetHandler :: "'t projection_handler option \<Rightarrow> ('tx, 's, 'p, 't, 'v, 'b) builder \<Rightarrow> ('tx, 's, 'p, 't, 'v, 'b) builder" where
  "withForgetHandler fn b = b\<lparr>blForgetHandlers := blForgetHandlers b @ [fn]\<rparr>"

definition withSyncProjection ::
  "string \<Rightarrow> ('tx, 't) projection_fn option \<Rightarrow> ('tx, 's, 'p, 't, 'v, 'b) builder \<Rightarrow> ('tx, 's, 'p, 't, 'v, 'b) builder" where
  "withSyncProjection pattern fn b =
     b\<lparr>blSyncProjections := blSyncProjections b @ [\<lparr>pdPattern = pattern, pdFn = fn\<rparr>]\<rparr>"

definition withSubscriber ::
  "string \<Rightarrow> (nat \<Rightarrow> ctx \<Rightarrow> 't event \<Rightarrow> handler_result) option \<Rightarrow> (nat \<Rightarrow> bool) \<Rightarrow> 't subscription_opt list
     \<Rightarrow> ('tx, 's, 'p, 't, 'v, 'b) builder \<Rightarrow> ('tx, 's, 'p, 't, 'v, 'b) builder" where
  "withSubscriber pattern handler slow opts b =
     b\<lparr>blSubscribers := blSubscribers b @ [\<lparr>sdPattern = pattern, sdHandler = handler, sdSlow = slow, sdOpts = opts\<rparr>]\<rparr>"

definition withDeliveryErrorHandler :: "bool \<Rightarrow> ('tx, 's, 'p, 't, 'v, 'b) builder \<Rightarrow> ('tx, 's, 'p, 't, 'v, 'b) builder" where
  "withDeliveryErrorHandler fn b = b\<lparr>blDeliveryErrHandler := fn\<rparr>"

definition withDeliveryRetry :: "int \<Rightarrow> int \<Rightarrow> ('tx, 's, 'p, 't, 'v, 'b) builder \<Rightarrow> ('tx, 's, 'p, 't, 'v, 'b) builder" where
  "withDeliveryRetry initial mx b = b\<lparr>blRetryInitial := initial, blRetryMax := mx\<rparr>"

definition withDeliveryMaxAttempts :: "int \<Rightarrow> ('tx, 's, 'p, 't, 'v, 'b) builder \<Rightarrow> ('tx, 's, 'p, 't, 'v, 'b) builder" where
  "withDeliveryMaxAttempts n b = b\<lparr>blMaxAttempts := n\<rparr>"

definition withDeadLetterHandler ::
  "(ctx \<Rightarrow> 't event \<Rightarrow> goerr option \<Rightarrow> handler_result) option \<Rightarrow> ('tx, 's, 'p, 't, 'v, 'b) builder \<Rightarrow> ('tx, 's, 'p, 't, 'v, 'b) builder" where
  "withDeadLetterHandler fn b = b\<lparr>blDeadLetter := fn\<rparr>"

definition withSnapshotErrorHandler :: "bool \<Rightarrow> ('tx, 's, 'p, 't, 'v, 'b) builder \<Rightarrow> ('tx, 's, 'p, 't, 'v, 'b) builder" where
  "withSnapshotErrorHandler fn b = b\<lparr>blSnapshotErrHandler := fn\<rparr>"

definition withDispatcher :: "('t, 'v) dispatcher_factory option \<Rightarrow> ('tx, 's, 'p, 't, 'v, 'b) builder \<Rightarrow> ('tx, 's, 'p, 't, 'v, 'b) builder" where
  "withDispatcher factory b = b\<lparr>blDispatcherFactory := factory\<rparr>"

section \<open>Compiling patterns\<close>

text \<open>
  \<open>%q\<close> of a pattern (a byte above ASCII stands for itself, as in printable text).
\<close>

definition hexDigit :: "nat \<Rightarrow> char" where
  "hexDigit n = char_of (if n < 10 then 48 + n else 87 + n)"

definition quoteChar :: "char \<Rightarrow> string" where
  "quoteChar c =
     (let n = of_char c :: nat; esc = (\<lambda>d. [CHR 0x5C, d]) in
      if n = 34 \<or> n = 92 then esc c
      else if n = 7 then esc CHR ''a'' else if n = 8 then esc CHR ''b'' else if n = 9 then esc CHR ''t''
      else if n = 10 then esc CHR ''n'' else if n = 11 then esc CHR ''v'' else if n = 12 then esc CHR ''f''
      else if n = 13 then esc CHR ''r''
      else if n < 32 \<or> n = 127 then esc CHR ''x'' @ [hexDigit (n div 16), hexDigit (n mod 16)]
      else [c])"

definition quoteGo :: "string \<Rightarrow> string" where
  "quoteGo s = CHR 0x22 # concat (map quoteChar s) @ [CHR 0x22]"

definition matcher :: "compiler \<Rightarrow> string \<Rightarrow> goerr + (string \<Rightarrow> bool)" where
  "matcher compile pattern =
     (if isExactPattern pattern then Inr (\<lambda>name. name = pattern)
      else case compile pattern of
             Inl e \<Rightarrow> Inl (Errorf [Lit ''asynx: invalid pattern '', Lit (quoteGo pattern), Lit '': '', Wrap e])
           | Inr m \<Rightarrow> Inr m)"

definition compileSyncProjection :: "compiler \<Rightarrow> ('tx, 't) sync_projection_def \<Rightarrow> goerr + ('tx, 't) sync_projection" where
  "compileSyncProjection compile def =
     (if pdPattern def = [] then Inl (Sentinel ErrEmptyPattern)
      else case pdFn def of
             None \<Rightarrow> Inl (Sentinel ErrNilHandler)
           | Some fn \<Rightarrow>
               (case matcher compile (pdPattern def) of
                  Inl e \<Rightarrow> Inl e
                | Inr match \<Rightarrow> Inr \<lparr>spMatch = match, spFn = fn\<rparr>))"

fun compileSyncProjections :: "compiler \<Rightarrow> ('tx, 't) sync_projection_def list \<Rightarrow> goerr + ('tx, 't) sync_projection list" where
  "compileSyncProjections compile [] = Inr []"
| "compileSyncProjections compile (def # defs) =
     (case compileSyncProjection compile def of
        Inl e \<Rightarrow> Inl e
      | Inr sp \<Rightarrow> (case compileSyncProjections compile defs of Inl e \<Rightarrow> Inl e | Inr sps \<Rightarrow> Inr (sp # sps)))"

definition compileSubscriber :: "compiler \<Rightarrow> nat \<Rightarrow> 't subscriber_def \<Rightarrow> goerr + 't durable_sub" where
  "compileSubscriber compile index def =
     (if sdPattern def = [] then Inl (Sentinel ErrEmptyPattern)
      else case sdHandler def of
             None \<Rightarrow> Inl (Sentinel ErrNilHandler)
           | Some handler \<Rightarrow>
               (let cfg = subConfig (sdOpts def) in
                if scFallback cfg \<noteq> None then Inl (Sentinel ErrFallbackUnsupported)
                else case matcher compile (sdPattern def) of
                       Inl e \<Rightarrow> Inl e
                     | Inr m \<Rightarrow>
                         Inr \<lparr>dsName = sdPattern def @ ''#'' @ showInt (int index + 1), dsMatch = m, dsHandler = handler,
                              dsTimeout = scTimeout cfg, dsSlow = sdSlow def\<rparr>))"

fun compileSubscribers :: "compiler \<Rightarrow> nat \<Rightarrow> 't subscriber_def list \<Rightarrow> goerr + 't durable_sub list" where
  "compileSubscribers compile i [] = Inr []"
| "compileSubscribers compile i (def # defs) =
     (case compileSubscriber compile i def of
        Inl e \<Rightarrow> Inl e
      | Inr sub \<Rightarrow> (case compileSubscribers compile (Suc i) defs of Inl e \<Rightarrow> Inl e | Inr subs \<Rightarrow> Inr (sub # subs)))"

definition wantedBy :: "'t durable_sub list \<Rightarrow> string \<Rightarrow> bool" where
  "wantedBy subs name = list_ex (\<lambda>sub. dsMatch sub name) subs"

text \<open>The subscribers, and the predicate of the events one of them wants: nil without any.\<close>

definition compileDurable ::
  "compiler \<Rightarrow> 't subscriber_def list \<Rightarrow> goerr + 't durable_sub list \<times> (string \<Rightarrow> bool) option" where
  "compileDurable compile defs =
     (if length defs = 0 then Inr ([], None)
      else case compileSubscribers compile 0 defs of
             Inl e \<Rightarrow> Inl e
           | Inr subs \<Rightarrow> Inr (subs, Some (wantedBy subs)))"

section \<open>The processor's options\<close>

definition durableOpts ::
  "('tx, 's, 'p, 't, 'v, 'b) builder \<Rightarrow> 't durable_sub list \<Rightarrow> (string \<Rightarrow> bool) option \<Rightarrow> ('tx, 't, 'v) processor_opt list" where
  "durableOpts b subs match =
     (case match of
        None \<Rightarrow> []
      | Some m \<Rightarrow>
          [OptDurableDelivery (Some m), OptDurableSubscribers subs]
          @ (if blDeliveryErrHandler b then [OptDeliveryErrorHandler True] else [])
          @ (if blPanicHandler b then [OptDeliveryPanicHandler True] else [])
          @ [OptDeliveryRetry (blRetryInitial b) (blRetryMax b)]
          @ (if blMaxAttempts b > 0 then [OptDeliveryMaxAttempts (blMaxAttempts b)] else [])
          @ (if blDeadLetter b \<noteq> None then [OptDeadLetterHandler (blDeadLetter b)] else []))"

definition processorOpts :: "compiler \<Rightarrow> ('tx, 's, 'p, 't, 'v, 'b) builder \<Rightarrow> goerr + ('tx, 't, 'v) processor_opt list" where
  "processorOpts compile b =
     (case compileSyncProjections compile (blSyncProjections b) of
        Inl e \<Rightarrow> Inl e
      | Inr syncs \<Rightarrow>
          (case compileDurable compile (blSubscribers b) of
             Inl e \<Rightarrow> Inl e
           | Inr (subs, match) \<Rightarrow>
               Inr ([OptShards (soShards (blShardingOpts b)), OptQueueDepth (soQueueDepth (blShardingOpts b)),
                     OptWorkersPerShard (soWorkersPerShard (blShardingOpts b))]
                    @ (if length syncs > 0 then [OptSyncProjections syncs] else [])
                    @ durableOpts b subs match
                    @ (if blSnapshotErrHandler b then [OptSnapshotErrorHandler True] else [])
                    @ (if blPublishErrorHandler b then [OptPublishErrorHandler True] else [])
                    @ (if blDispatcherFactory b \<noteq> None then [OptDispatcherFactory (blDispatcherFactory b)] else []))))"

definition activeBus :: "('tx, 's, 'p, 't, 'v, 'b) builder \<Rightarrow> ('t, 'b) active_bus" where
  "activeBus b =
     (case blBus b of
        Some bus \<Rightarrow> Inl bus
      | None \<Rightarrow> Inr (newChannelBus (if blPanicHandler b then [WithBusPanicHandler True] else []), 0))"

section \<open>Build\<close>

type_synonym ('t, 'd) plugged = "('t, 'd) dispatcher_ops \<times> 'd"

record ('tx, 's, 'p, 't, 'd) asynx_impl =
  axProc :: "'t processor"
  axExecutor :: "('tx, 's, 'p, 't, 'd) executor"
  axEs :: "('tx, 's, 'p, 't) es"

text \<open>
  What \<open>Build\<close> leaves behind: its outcome, the bus, whether it called \<open>Close\<close> on an abandoned one, the
  state of executor and dispatcher, and the processor as it is when \<open>Build\<close> returns, if there is one.
\<close>

record ('tx, 's, 'p, 't, 'd, 'b) build_result =
  brOutcome :: "('tx, 's, 'p, 't, 'd) asynx_impl outcome"
  brBus :: "('t, 'b) active_bus"
  brState :: "('s, 'p, 't, 'd) recovery_state option"
  brBusClosed :: bool
  brProc :: "'t processor option"

fun ifaceOps :: "('t, 'd) plugged iface option \<Rightarrow> ('t, 'd) plugged option" where
  "ifaceOps (Some (Iface k n v)) = Some v"
| "ifaceOps _ = None"

text \<open>\<open>exec.New\<close> and \<open>GuardAutoSnapshots\<close> as \<open>processor.New\<close> calls them; \<open>free\<close> is \<open>WithLockIfFree\<close>.\<close>

definition executorFor ::
  "('tx, 's, 'p, 't) es \<Rightarrow> (string \<Rightarrow> bool) \<Rightarrow> ('tx, 't, ('t, 'd) plugged) processor_opt list \<Rightarrow> ('t, 'd) plugged iface option
     \<Rightarrow> ('tx, 's, 'p, 't, 'd) executor" where
  "executorFor es free opts d =
     newExecutor (guardAutoSnapshots free es) (map_option fst (ifaceOps d)) (pfExecutorOpts (configure opts))"

fun onForgetAll ::
  "('t, 'b) bus_ops \<Rightarrow> (nat \<Rightarrow> string) \<Rightarrow> nat \<Rightarrow> 't projection_handler option list \<Rightarrow> ('t, 'b) active_bus \<Rightarrow> unit outcome \<times> ('t, 'b) active_bus" where
  "onForgetAll B ids k [] bus = (Ok (), bus)"
| "onForgetAll B ids k (fn # fns) bus =
     (case onForget B (ids k) fn bus of
        (Ok _, bus') \<Rightarrow> onForgetAll B ids (Suc k) fns bus'
      | (Fail e, bus') \<Rightarrow> (Fail e, bus')
      | (Panic p, bus') \<Rightarrow> (Panic p, bus'))"

text \<open>
  \<open>finish\<close>: the forget handlers, then the recovery when there are durable subscribers, of at
  most 63 reads of the log. \<open>None\<close> is a recovery that needs more.
\<close>

definition recoveryBatch :: int where
  "recoveryBatch = 100"

definition finish ::
  "('t, 'b) bus_ops \<Rightarrow> (nat \<Rightarrow> string) \<Rightarrow> (nat \<Rightarrow> 's) \<Rightarrow> ('s, 'p, 't, 'd) meanwhile \<Rightarrow> ('tx, 's, 'p, 't, 'v, 'b) builder
     \<Rightarrow> ('tx, 's, 'p, 't, 'd) executor \<Rightarrow> ('t, 'b) active_bus \<Rightarrow> ('s, 'p, 't, 'd) recovery_state
     \<Rightarrow> (unit outcome \<times> ('t, 'b) active_bus \<times> ('s, 'p, 't, 'd) recovery_state) option" where
  "finish B ids states mw b x bus st =
     (case onForgetAll B ids 0 (blForgetHandlers b) bus of
        (Fail e, bus') \<Rightarrow> Some (Fail e, bus', st)
      | (Panic p, bus') \<Rightarrow> Some (Panic p, bus', st)
      | (Ok _, bus') \<Rightarrow>
          if length (blSubscribers b) = 0 then Some (Ok (), bus', st)
          else case recoverProc 63 x (blPublishErrorHandler b) background states mw recoveryBatch st of
                 None \<Rightarrow> None
               | Some (Ok None, st') \<Rightarrow> Some (Ok (), bus', st')
               | Some (Ok (Some e), st') \<Rightarrow> Some (Fail e, bus', st')
               | Some (Fail e, st') \<Rightarrow> Some (Fail e, bus', st')
               | Some (Panic p, st') \<Rightarrow> Some (Panic p, bus', st'))"

definition refused :: "goerr \<Rightarrow> ('t, 'b) active_bus \<Rightarrow> bool \<Rightarrow> ('tx, 's, 'p, 't, 'd, 'b) build_result" where
  "refused e bus closed =
     \<lparr>brOutcome = Fail e, brBus = bus, brState = None, brBusClosed = closed, brProc = None\<rparr>"

text \<open>
  \<open>shutdownUnlessBuilt\<close>: \<open>Shutdown\<close> with a context of 30 seconds, its error dropped. While the call runs it
  interleaves with the goroutines of the shards, as \<open>acts\<close> has it; nobody else has the instance. Whatever
  the call still waits for at the deadline, the context ends: it returns after at most one step for each
  shard that is to be signalled and a few more.
\<close>

definition failedBuildShutdown :: int where
  "failedBuildShutdown = 30 * 10 ^ 9"

fun abandonedStep :: "'t event \<Rightarrow> 't proc_action \<Rightarrow> 't processor \<Rightarrow> 't processor" where
  "abandonedStep zero (ShutdownStep c err) p =
     (if c = 0 then case procAct zero (ShutdownStep 0 err) p of Some p' \<Rightarrow> p' | None \<Rightarrow> p else p)"
| "abandonedStep zero (ShardStep i a) p = (case procAct zero (ShardStep i a) p of Some p' \<Rightarrow> p' | None \<Rightarrow> p)"
| "abandonedStep zero _ p = p"

fun expire :: "nat \<Rightarrow> 't event \<Rightarrow> 't processor \<Rightarrow> 't processor" where
  "expire 0 zero p = p"
| "expire (Suc k) zero p =
     (case procAct zero (ShutdownStep 0 (Some (Sentinel CtxDeadlineExceeded))) p of
        None \<Rightarrow> p
      | Some p' \<Rightarrow> expire k zero p')"

definition shutdownUnlessBuilt :: "'t event \<Rightarrow> 't proc_action list \<Rightarrow> bool \<Rightarrow> 't processor \<Rightarrow> 't processor" where
  "shutdownUnlessBuilt zero acts built p =
     (if built then p
      else expire (length (prShards p) + 6) zero (fold (abandonedStep zero) acts (startShutdown 0 p)))"

text \<open>
  \<open>Build\<close>. The deferred \<open>shutdownUnlessBuilt\<close> also runs when \<open>finish\<close> panics.
\<close>

definition build ::
  "compiler \<Rightarrow> ('t, ('t, 'd) plugged) dispatcher_factory \<Rightarrow> ('t, 'b) bus_ops \<Rightarrow> 't codec \<Rightarrow> 't \<Rightarrow> (string \<Rightarrow> bool)
     \<Rightarrow> (nat \<Rightarrow> string) \<Rightarrow> ('s, 'p) db \<Rightarrow> (nat \<Rightarrow> 's) \<Rightarrow> ('s, 'p, 't, 'd) meanwhile \<Rightarrow> 't proc_action list
     \<Rightarrow> ('tx, 's, 'p, 't, ('t, 'd) plugged, 'b) builder \<Rightarrow> ('tx, 's, 'p, 't, 'd, 'b) build_result option" where
  "build compile dflt B cd zero free ids db states mw acts b =
     (let bus = activeBus b in
      case blEventStore b of
        None \<Rightarrow> Some (refused (Sentinel ErrMissingEventStore) bus False)
      | Some S \<Rightarrow>
     (case blSnapshotStore b of
        None \<Rightarrow> Some (refused (Sentinel ErrMissingSnapshotStore) bus False)
      | Some P \<Rightarrow>
     (let es = esNew S P cd (blUpcasters b) (blSchemaVersion b) zero (blCorruptionHook b) in
      case processorOpts compile b of
        Inl e \<Rightarrow> Some (refused e bus False)
      | Inr opts \<Rightarrow>
     (case newProcessor dflt True opts of
        Fail e \<Rightarrow> Some (refused e bus True)
      | Panic p \<Rightarrow>
          Some \<lparr>brOutcome = Panic p, brBus = bus, brState = None, brBusClosed = False, brProc = None\<rparr>
      | Ok (d, proc) \<Rightarrow>
     (case ifaceOps d of
        None \<Rightarrow> None
      | Some (D, d0) \<Rightarrow>
     (let x = executorFor es free opts d;
          st = \<lparr>xDb = db, xDisp = d0, xForgetting = {}, xSnapshotErrors = [], rvReports = []\<rparr>
      in case finish B ids states mw b x bus st of
           None \<Rightarrow> None
         | Some (r, bus', st') \<Rightarrow>
             Some \<lparr>brOutcome = bindO r (\<lambda>_. Ok \<lparr>axProc = proc, axExecutor = x, axEs = xEs x\<rparr>),
                   brBus = bus', brState = Some st', brBusClosed = False,
                   brProc = Some (shutdownUnlessBuilt (zeroEvent es) acts (isOk r) proc)\<rparr>))))))"

end
