(* ===== verification/Builder_Properties.thy ===== *)
theory Builder_Properties
  imports Builder Processor_Properties
begin

text \<open>
  What \<open>Build\<close> guarantees: it validates everything before anything runs, what it assembles does
  what was configured, and a failed build abandons what it had started. Also the meaning of the pattern
  under which forget handlers are registered.
\<close>

section \<open>Subscribing without interruption\<close>

text \<open>The builder's view of \<open>Subscribe\<close> is the call of the bus when nothing comes between.\<close>

lemma channelSubscribe_run:
  assumes "bsCalls s c = None" "cbSubMu (bsBus s) = None" "cbSubscriptions (bsBus s) subID = None"
    and "channelSubscribe subID (bsNext s) pattern (Some h) opts (bsBus s) = (Ok i, b')"
  shows "\<exists>s'. busRun compile [StartSubscribe c pattern (Some h) opts, CheckSubscribe c, FinishSubscribe c subID] s = Some s'
     \<and> bsCalls s' c = Some (SubReturned i None) \<and> bsBus s' = b'"
proof -
  have open': "pattern \<noteq> []" "\<not> cbClosed (bsBus s)" "i = subID" "b' = insertSub subID (bsNext s) pattern h (subConfig opts) (bsBus s)"
    using assms(4) by (auto simp: channelSubscribe_def split: if_splits)
  have "insertSub subID n pattern h cfg (b\<lparr>cbSubMu := Some c\<rparr>)\<lparr>cbSubMu := None\<rparr> = (insertSub subID n pattern h cfg b)\<lparr>cbSubMu := None\<rparr>"
    "cbSubMu (insertSub subID n pattern h cfg b) = cbSubMu b" for n cfg and b :: "'a channel_bus"
    by (simp_all add: insertSub_def Let_def)
  then show ?thesis
    using assms open' by (simp add: call_defs)
qed

section \<open>The forget handlers\<close>

text \<open>A forget handler is called for the deletion marker, and for every other event whose name
  contains the marker's name: the pattern escapes its dots and is therefore a regular expression,
  which the bus does not anchor.\<close>

lemma forget_handlers_match:
  assumes "regexpDocumented compile" "ascii name"
  shows "patternMatches compile onForgetPattern name \<longleftrightarrow> (\<exists>u v. name = u @ forgetEventName @ v)"
proof -
  have q: "onForgetPattern = quoteMeta forgetEventName"
    by (simp add: onForgetPattern_def forgetEventName_def quoteMeta_def set_metachars)
  have "parseRe onForgetPattern = Some (map RLit forgetEventName)"
    using parse_quoteMeta[of forgetEventName "[]"] by (simp add: q)
  moreover have "ascii onForgetPattern" unfolding onForgetPattern_def by code_simp
  ultimately obtain m where "compile onForgetPattern = Inr m" "m name = searchFrom (map RLit forgetEventName) True name"
    using assms unfolding regexpDocumented_def by blast
  moreover have "\<not> isExactPattern onForgetPattern"
    unfolding isExactPattern_def quoteMeta_id by (auto simp: onForgetPattern_def set_metachars)
  ultimately show ?thesis by (simp add: patternMatches_def matchesRegex_def search_literal)
qed

lemma forget_handlers_match_witness:
  "patternMatches fragmentCompile onForgetPattern forgetEventName
   \<and> patternMatches fragmentCompile onForgetPattern ''my.asynx.aggregate.forgetful''
   \<and> \<not> patternMatches fragmentCompile onForgetPattern ''asynxxaggregate.forget''"
proof -
  have a: "ascii forgetEventName" "ascii ''my.asynx.aggregate.forgetful''" "ascii ''asynxxaggregate.forget''"
    unfolding forgetEventName_def by code_simp+
  have "\<not> patternMatches fragmentCompile onForgetPattern ''asynxxaggregate.forget''" by code_simp
  moreover have "forgetEventName = [] @ forgetEventName @ []" by simp
  moreover have "''my.asynx.aggregate.forgetful'' = ''my.'' @ forgetEventName @ ''ful''" by (simp add: forgetEventName_def)
  ultimately show ?thesis
    using a forget_handlers_match[OF fragmentCompile_documented] by metis
qed

section \<open>Valid configurations\<close>

text \<open>What the documentation asks of a definition.\<close>

definition validPattern :: "compiler \<Rightarrow> string \<Rightarrow> bool" where
  "validPattern compile p \<longleftrightarrow> p \<noteq> [] \<and> (isExactPattern p \<or> \<not> isl (compile p))"

definition validSync :: "compiler \<Rightarrow> ('tx, 't) sync_projection_def \<Rightarrow> bool" where
  "validSync compile def \<longleftrightarrow> validPattern compile (pdPattern def) \<and> pdFn def \<noteq> None"

definition validSubscriber :: "compiler \<Rightarrow> 't subscriber_def \<Rightarrow> bool" where
  "validSubscriber compile def \<longleftrightarrow>
     validPattern compile (sdPattern def) \<and> sdHandler def \<noteq> None \<and> scFallback (subConfig (sdOpts def)) = None"

text \<open>A compiled matcher is the rule of the bus.\<close>

lemma matcher_mirrors_bus: "matcher compile p = Inr m \<Longrightarrow> m = patternMatches compile p"
  by (auto simp: matcher_def patternMatches_def matchesRegex_def fun_eq_iff split: if_splits sum.splits)

lemma matcher_ok: "p \<noteq> [] \<Longrightarrow> (\<exists>m. matcher compile p = Inr m) \<longleftrightarrow> validPattern compile p"
  by (auto simp: matcher_def validPattern_def split: sum.splits)

lemma compileSync_Inr:
  "compileSyncProjection compile def = Inr sp \<Longrightarrow> validSync compile def \<and> spMatch sp = patternMatches compile (pdPattern def)
     \<and> pdFn def = Some (spFn sp)"
  using matcher_ok[of "pdPattern def" compile] matcher_mirrors_bus[of compile "pdPattern def"]
  by (auto simp: compileSyncProjection_def validSync_def split: if_splits option.splits sum.splits)

lemma compileSync_ok: "(\<exists>sp. compileSyncProjection compile def = Inr sp) \<longleftrightarrow> validSync compile def"
  using matcher_ok[of "pdPattern def" compile]
  by (auto simp: compileSyncProjection_def validSync_def validPattern_def split: if_splits option.splits sum.splits)

lemma compileSyncs_Inr:
  "compileSyncProjections compile defs = Inr sps \<Longrightarrow>
     list_all (validSync compile) defs \<and> map spMatch sps = map (\<lambda>d. patternMatches compile (pdPattern d)) defs
     \<and> map (Some \<circ> spFn) sps = map pdFn defs"
  by (induction defs arbitrary: sps) (auto split: sum.splits dest: compileSync_Inr)

lemma compileSyncs_ok: "(\<exists>sps. compileSyncProjections compile defs = Inr sps) \<longleftrightarrow> list_all (validSync compile) defs"
proof (induction defs)
  case (Cons def defs)
  show ?case using Cons compileSync_ok[of compile def] by (auto split: sum.splits)
qed simp

lemma compileSubscriber_Inr:
  "compileSubscriber compile i def = Inr sub \<Longrightarrow>
     validSubscriber compile def \<and> dsMatch sub = patternMatches compile (sdPattern def)"
  using matcher_ok[of "sdPattern def" compile] matcher_mirrors_bus[of compile "sdPattern def"]
  by (auto simp: compileSubscriber_def validSubscriber_def Let_def split: if_splits option.splits sum.splits)

lemma compileSubscriber_ok: "(\<exists>sub. compileSubscriber compile i def = Inr sub) \<longleftrightarrow> validSubscriber compile def"
  using matcher_ok[of "sdPattern def" compile]
  by (auto simp: compileSubscriber_def validSubscriber_def validPattern_def Let_def split: if_splits option.splits sum.splits)

lemma compileSubscribers_Inr:
  "compileSubscribers compile i defs = Inr subs \<Longrightarrow>
     list_all (validSubscriber compile) defs \<and> map dsMatch subs = map (\<lambda>d. patternMatches compile (sdPattern d)) defs"
  by (induction defs arbitrary: i subs) (auto split: sum.splits dest: compileSubscriber_Inr)

lemma compileSubscribers_ok:
  "(\<exists>subs. compileSubscribers compile i defs = Inr subs) \<longleftrightarrow> list_all (validSubscriber compile) defs"
proof (induction defs arbitrary: i)
  case (Cons def defs)
  show ?case using Cons[of "Suc i"] compileSubscriber_ok[of compile i def] by (auto split: sum.splits)
qed simp

text \<open>The events some durable subscriber wants.\<close>

definition durableEvents :: "compiler \<Rightarrow> 't subscriber_def list \<Rightarrow> (string \<Rightarrow> bool) option" where
  "durableEvents compile defs =
     (if defs = [] then None else Some (\<lambda>name. list_ex (\<lambda>d. patternMatches compile (sdPattern d) name) defs))"

lemma compileDurable_Inr:
  assumes "compileDurable compile defs = Inr (subs, match)"
  shows "list_all (validSubscriber compile) defs \<and> match = durableEvents compile defs"
proof (cases defs)
  case Nil
  then show ?thesis using assms by (simp add: compileDurable_def durableEvents_def)
next
  case (Cons d ds)
  then have c: "compileSubscribers compile 0 defs = Inr subs" "match = Some (wantedBy subs)"
    using assms by (auto simp: compileDurable_def simp del: compileSubscribers.simps split: sum.splits)
  note sub = compileSubscribers_Inr[OF c(1)]
  have "wantedBy subs name = list_ex (\<lambda>f. f name) (map dsMatch subs)" for name
    by (simp add: wantedBy_def list_ex_iff)
  then have "wantedBy subs = (\<lambda>name. list_ex (\<lambda>d. patternMatches compile (sdPattern d) name) defs)"
    using sub by (simp add: fun_eq_iff list_ex_iff)
  then show ?thesis using sub c(2) Cons by (simp add: durableEvents_def)
qed

lemma compileDurable_ok: "(\<exists>r. compileDurable compile defs = Inr r) \<longleftrightarrow> list_all (validSubscriber compile) defs"
  using compileSubscribers_ok[of compile 0 defs]
  by (cases defs) (auto simp: compileDurable_def simp del: compileSubscribers.simps split: sum.splits)

section \<open>The options of the executor\<close>

fun execOptOf :: "('tx, 't, 'v) processor_opt \<Rightarrow> ('tx, 't) exec_opt option" where
  "execOptOf (OptSyncProjections ps) = Some (WithSyncProjections ps)"
| "execOptOf (OptDurableDelivery m) = Some (WithDurableDelivery m)"
| "execOptOf (OptSnapshotErrorHandler h) = Some (WithSnapshotErrorHandler h)"
| "execOptOf _ = None"

lemma applyOpt_exec:
  "pfExecutorOpts (applyOpt q cfg) = pfExecutorOpts cfg @ (case execOptOf q of None \<Rightarrow> [] | Some x \<Rightarrow> [x])"
  by (cases q) (simp_all add: onDispatcher_def)

lemma configure_exec: "pfExecutorOpts (configure opts) = List.map_filter execOptOf opts"
proof -
  have "pfExecutorOpts (fold applyOpt opts cfg) = pfExecutorOpts cfg @ List.map_filter execOptOf opts" for cfg :: "('a, 'b, 'c) processor_config"
    by (induction opts arbitrary: cfg) (auto simp: applyOpt_exec map_filter_simps split: option.splits)
  then show ?thesis by (simp add: configure_def Let_def defaultConfig_def)
qed

text \<open>What the executor of a builder's options does: the sync projections and the durable events.\<close>

lemma executor_of_opts:
  assumes "processorOpts compile b = Inr opts"
  shows "list_all (validSync compile) (blSyncProjections b)" "list_all (validSubscriber compile) (blSubscribers b)"
    "map spMatch (xSyncs (executorFor es free opts d)) = map (\<lambda>q. patternMatches compile (pdPattern q)) (blSyncProjections b)"
    "map (Some \<circ> spFn) (xSyncs (executorFor es free opts d)) = map pdFn (blSyncProjections b)"
    "xDurableMatch (executorFor es free opts d) = durableEvents compile (blSubscribers b)"
    "xOnSnapshotError (executorFor es free opts d) = blSnapshotErrHandler b"
proof -
  obtain syncs subs match where c: "compileSyncProjections compile (blSyncProjections b) = Inr syncs"
    "compileDurable compile (blSubscribers b) = Inr (subs, match)"
    using assms by (auto simp: processorOpts_def split: sum.splits prod.splits)
  note sy = compileSyncs_Inr[OF c(1)] and du = compileDurable_Inr[OF c(2)]
  have opts: "List.map_filter execOptOf opts =
      (if syncs = [] then [] else [WithSyncProjections syncs])
      @ (case match of None \<Rightarrow> [] | Some m \<Rightarrow> [WithDurableDelivery (Some m)])
      @ (if blSnapshotErrHandler b then [WithSnapshotErrorHandler True] else [])"
    using assms c by (auto simp: processorOpts_def durableOpts_def map_filter_simps split: option.splits)
  have x: "xSyncs (executorFor es free opts d) = syncs" "xDurableMatch (executorFor es free opts d) = match"
    "xOnSnapshotError (executorFor es free opts d) = blSnapshotErrHandler b"
    by (auto simp: executorFor_def newExecutor_def configure_exec opts split: option.splits)
  show "list_all (validSync compile) (blSyncProjections b)" "list_all (validSubscriber compile) (blSubscribers b)"
    "map spMatch (xSyncs (executorFor es free opts d)) = map (\<lambda>q. patternMatches compile (pdPattern q)) (blSyncProjections b)"
    "map (Some \<circ> spFn) (xSyncs (executorFor es free opts d)) = map pdFn (blSyncProjections b)"
    "xDurableMatch (executorFor es free opts d) = durableEvents compile (blSubscribers b)"
    "xOnSnapshotError (executorFor es free opts d) = blSnapshotErrHandler b"
    unfolding x using sy du by simp_all
qed

lemma processorOpts_ok:
  "(\<exists>opts. processorOpts compile b = Inr opts) \<longleftrightarrow>
     list_all (validSync compile) (blSyncProjections b) \<and> list_all (validSubscriber compile) (blSubscribers b)"
  using compileSyncs_ok[of compile "blSyncProjections b"] compileDurable_ok[of compile "blSubscribers b"]
  by (auto simp: processorOpts_def split: sum.splits)

section \<open>Build\<close>

text \<open>A log whose reads stay short is scanned within the fuel.\<close>

lemma scanFrom_ends:
  assumes "\<And>l k ps. stPendingDeliveries S c l (states k) = Ok ps \<Longrightarrow> int (length ps) < 2 ^ 62"
    and "0 < limit" "2 ^ 62 \<le> limit * 2 ^ n"
  shows "scanFrom (Suc n) S c states k limit seen visit x \<noteq> None"
  using assms(2,3)
proof (induction n arbitrary: k limit seen x)
  case 0
  show ?case using assms(1)[of limit k] 0 by (auto split: outcome.splits prod.splits option.splits)
next
  case (Suc n)
  have rec: "scanFrom (Suc n) S c states (Suc k) (i64 (limit * 2)) seen' visit x' \<noteq> None"
    if "stPendingDeliveries S c limit (states k) = Ok ps" "\<not> int (length ps) < limit" for ps seen' x'
  proof -
    have "limit < 2 ^ 62" using assms(1)[OF that(1)] that(2) by linarith
    then have "i64 (limit * 2) = limit * 2" using Suc.prems(1) by (intro i64_id) (auto simp: maxInt64_def)
    then show ?thesis using Suc.IH[of "limit * 2"] Suc.prems by (simp add: mult.assoc)
  qed
  show ?case
    unfolding scanFrom.simps(2)[of "Suc n"] using rec
    by (auto simp del: scanFrom.simps split: outcome.split prod.split option.split if_split)
qed

lemma recover_ends:
  assumes "\<And>l k ps. stPendingDeliveries (esStore (xEs x)) c l (states k) = Ok ps \<Longrightarrow> int (length ps) < 2 ^ 62"
  shows "recoverProc 63 x handler c states mw recoveryBatch st \<noteq> None"
proof -
  have "scanFrom (Suc 62) (esStore (xEs x)) c states 0 100 {} (addDelivery (\<lambda>_. True)) noBacklogs \<noteq> None"
    using assms by (rule scanFrom_ends) simp_all
  then show ?thesis
    by (auto simp: recoverProc_def recoveryBatch_def pendingByAggregate_def scanPending_def
        simp del: scanFrom.simps split: option.splits outcome.splits prod.splits)
qed

lemma newProcessor_dispatcher:
  assumes "newProcessor dflt True opts = Ok (d, proc)"
  shows "\<exists>v. ifaceOps d = Some v"
proof -
  obtain i where "d = Some i" "\<not> isNil i"
    using assms by (auto simp: newProcessor_def chooseDispatcher_def Let_def bindO_eq_Ok
        split: if_splits option.splits prod.splits outcome.splits)
  then show ?thesis by (cases i) auto
qed

lemma applyExecOpts_es: "xEs (fold applyExecOpt qs x) = xEs x"
proof (induction qs arbitrary: x)
  case (Cons q qs)
  show ?case using Cons[of "applyExecOpt q x"] by (cases q) simp_all
qed simp

lemma executorFor_es: "xEs (executorFor es free opts d) = guardAutoSnapshots free es"
  by (simp add: executorFor_def newExecutor_def applyExecOpts_es)

section \<open>A build that is abandoned\<close>

text \<open>While the shutdown of an abandoned processor runs, and when it has returned.\<close>

definition winding :: "'t processor \<Rightarrow> bool" where
  "winding p \<longleftrightarrow> prBus p \<and> prShuttingDown p \<and>
     (case prCalls p 0 of
        Some (InShutdown ph) \<Rightarrow> prShutdown p = ShuttingDownNow
      | Some (ErrReturned err) \<Rightarrow> prShutdown p = (if err \<noteq> None then ShutdownFailed else ShutDown)
      | _ \<Rightarrow> False)"

lemma winding_shutdownStep:
  assumes "winding p" "prCalls p 0 = Some (InShutdown ph)" "shutdownStep 0 err ph p = Some p'"
  shows "winding p' \<and> length (prShards p') = length (prShards p)"
  using assms
  by (cases ph) (auto simp: winding_def waitFor_def setCall_def setShard_def endShutdown_def split: option.splits if_splits)

lemma winding_start: "prBus p \<Longrightarrow> prShutdown p = NotShutDown \<Longrightarrow> winding (startShutdown 0 p)"
  by (simp add: winding_def startShutdown_def beginShutdown_def setCall_def)

lemma winding_shutdownAct:
  "winding p \<Longrightarrow> procAct zero (ShutdownStep 0 err) p = Some p' \<Longrightarrow> winding p' \<and> length (prShards p') = length (prShards p)"
  using winding_shutdownStep[of p _ err p'] by (auto split: option.splits proc_call.splits)

lemma winding_abandonedStep:
  assumes "winding p" shows "winding (abandonedStep zero a p) \<and> length (prShards (abandonedStep zero a p)) = length (prShards p)"
proof (cases a)
  case (ShutdownStep c err)
  then show ?thesis using assms winding_shutdownAct[OF assms, of zero err] by (auto split: option.split simp del: procAct.simps)
next
  case (ShardStep i b)
  have "winding (setShard i s p) = winding p" for s
    by (simp add: winding_def setShard_def split: option.split proc_call.split)
  then show ?thesis using assms ShardStep by (auto simp: setShard_def split: option.split)
qed (use assms in auto)

lemma winding_abandonedSteps:
  "winding p \<Longrightarrow> winding (fold (abandonedStep zero) acts p) \<and> length (prShards (fold (abandonedStep zero) acts p)) = length (prShards p)"
proof (induction acts arbitrary: p)
  case (Cons a acts)
  then show ?case using winding_abandonedStep[OF Cons.prems, of zero a] by simp
qed simp

text \<open>How many steps the call still takes once its context has ended.\<close>

fun stepsLeft :: "nat \<Rightarrow> phase \<Rightarrow> nat" where
  "stepsLeft n PhInterrupt = 3"
| "stepsLeft n (PhSignal k) = n - k + 3"
| "stepsLeft n PhCloseDispatcher = 3"
| "stepsLeft n (PhEnd r) = 1"
| "stepsLeft n _ = 2"

lemma expired_step:
  assumes "prCalls p 0 = Some (InShutdown ph)"
  shows "\<exists>p'. shutdownStep 0 (Some e) ph p = Some p' \<and> (case prCalls p' 0 of
      Some (InShutdown ph') \<Rightarrow> stepsLeft (length (prShards p')) ph' < stepsLeft (length (prShards p)) ph
    | Some (ErrReturned err) \<Rightarrow> True | _ \<Rightarrow> False)"
  by (cases ph) (auto simp: waitFor_def setCall_def setShard_def endShutdown_def)

lemma expire_returns:
  assumes "winding p" "\<And>ph. prCalls p 0 = Some (InShutdown ph) \<Longrightarrow> stepsLeft (length (prShards p)) ph \<le> k"
  shows "winding (expire k zero p) \<and> (\<exists>err. prCalls (expire k zero p) 0 = Some (ErrReturned err))"
  using assms
proof (induction k arbitrary: p)
  case 0
  have "prCalls p 0 \<noteq> Some (InShutdown ph)" for ph using 0(2)[of ph] by (cases ph) auto
  then show ?case using 0(1) by (auto simp: winding_def split: option.splits proc_call.splits)
next
  case (Suc k)
  show ?case
  proof (cases "\<exists>ph. prCalls p 0 = Some (InShutdown ph)")
    case True
    then obtain ph where ph: "prCalls p 0 = Some (InShutdown ph)" by blast
    obtain p' where p': "shutdownStep 0 (Some (Sentinel CtxDeadlineExceeded)) ph p = Some p'"
      "case prCalls p' 0 of Some (InShutdown ph') \<Rightarrow> stepsLeft (length (prShards p')) ph' < stepsLeft (length (prShards p)) ph
        | Some (ErrReturned err) \<Rightarrow> True | _ \<Rightarrow> False"
      using expired_step[OF ph] by blast
    have "winding (expire k zero p') \<and> (\<exists>err. prCalls (expire k zero p') 0 = Some (ErrReturned err))"
      using winding_shutdownStep[OF Suc.prems(1) ph p'(1)] p'(2) Suc.prems(2)[OF ph] by (intro Suc.IH) auto
    then show ?thesis using ph p'(1) by simp
  next
    case False
    then obtain err where "prCalls p 0 = Some (ErrReturned err)"
      using Suc.prems(1) by (auto simp: winding_def split: option.splits proc_call.splits)
    then show ?thesis using Suc.prems(1) by simp
  qed
qed

lemma reachable_abandonedSteps:
  "procReachable zero k d n hsD hsB p \<Longrightarrow> procReachable zero k d n hsD hsB (fold (abandonedStep zero) acts p)"
proof (induction acts arbitrary: p)
  case (Cons a acts)
  have "procReachable zero k d n hsD hsB (abandonedStep zero a p)"
    using Cons.prems by (cases a) (auto split: option.split intro: procReachable.act simp del: procAct.simps)
  then show ?case using Cons.IH by simp
qed simp

lemma reachable_expire: "procReachable zero k d n hsD hsB p \<Longrightarrow> procReachable zero k d n hsD hsB (expire f zero p)"
  by (induction f arbitrary: p) (auto split: option.split intro: procReachable.act simp del: procAct.simps)

text \<open>
  A processor that is abandoned: its shutdown has returned and it takes no command. If the shutdown
  returned nil, nothing of it is left: every goroutine has ended with every command answered, and
  dispatcher and bus are closed.
\<close>

definition abandoned :: "'t processor \<Rightarrow> bool" where
  "abandoned p \<longleftrightarrow> fst (beginSend p) = False \<and>
     (\<exists>err. prCalls p 0 = Some (ErrReturned err) \<and>
        (if err = None then prSends p = 0 \<and> prForgets p = 0 \<and> poolDone p \<and> (prDispatcher p \<longrightarrow> prDispatcherClosed p) \<and> prBusClosed p
         else prShutdown p = ShutdownFailed))"

lemma shutdown_abandons:
  fixes zero :: "'t event"
  assumes "0 < k" "int k < 2 ^ 63" "0 < n"
  shows "abandoned (shutdownUnlessBuilt zero acts False (startProcessor k d n hsD True))"
proof -
  let ?p = "startProcessor k d n hsD True :: 't processor"
  let ?mid = "fold (abandonedStep zero) acts (startShutdown 0 ?p)"
  let ?fin = "expire (length (prShards ?p) + 6) zero ?mid"
  have len: "length (prShards (startShutdown 0 ?p)) = length (prShards ?p)"
    by (simp add: startShutdown_def beginShutdown_def setCall_def startProcessor_def)
  have "procAct zero (StartShutdown 0) ?p = Some (startShutdown 0 ?p)" by (simp add: fresh_def startProcessor_def)
  then have "procReachable zero k d n hsD True (startShutdown 0 ?p)"
    by (rule procReachable.act[OF procReachable.start])
  then have r: "procReachable zero k d n hsD True ?fin" by (intro reachable_expire reachable_abandonedSteps)
  have w1: "winding ?mid" "length (prShards ?mid) = length (prShards ?p)"
    using winding_abandonedSteps[OF winding_start, of ?p zero acts] len by (simp_all add: startProcessor_def)
  have "stepsLeft m ph \<le> m + 6" for m ph by (cases ph) auto
  then obtain err where e: "winding ?fin" "prCalls ?fin 0 = Some (ErrReturned err)"
    using expire_returns[OF w1(1), of "length (prShards ?p) + 6" zero] w1(2) by metis
  show ?thesis
    using e shut_down_quiet[OF r assms]
    by (auto simp: abandoned_def shutdownUnlessBuilt_def winding_def beginSend_def)
qed

lemma newProcessor_abandons:
  assumes "newProcessor dflt True opts = Ok (d, proc)"
  shows "abandoned (shutdownUnlessBuilt zero acts False proc)"
proof -
  let ?cfg = "configure opts"
  note ok = configOk_configure[of opts]
  have "allocatePool (pfShards ?cfg) (pfQueueDepth ?cfg) (pfWorkersPerShard ?cfg) = Ok ()"
    and p: "proc = startProcessor (nat (pfShards ?cfg)) (nat (pfQueueDepth ?cfg)) (nat (pfWorkersPerShard ?cfg)) (d \<noteq> None) True"
    using assms by (auto simp: newProcessor_def Let_def bindO_eq_Ok)
  then have "8 * pfShards ?cfg \<le> 2 ^ 48" by (auto simp: allocatePool_def makeSlice_def maxAlloc_def bindO_eq_Ok split: if_splits)
  then show ?thesis using ok unfolding p by (intro shutdown_abandons) (auto simp: configOk_def)
qed

section \<open>The whole of Build\<close>

text \<open>C37: \<open>Build\<close> returns, and what it returns is sound. An instance it returns was given both stores,
  and every projection and durable subscriber is valid; its sync projections run for exactly the
  events their patterns match, the delivery log records exactly the events some durable
  subscriber's pattern matches (none without durable subscribers), by the rule of the bus. A
  configuration with a missing store or an invalid definition is refused before a processor exists.
  A build that fails or panics later, while the goroutines of its shards run as they will, has called
  \<open>Shutdown\<close>, and that call has returned within its bound: the abandoned processor takes no command, and
  unless that shutdown was itself cut short nothing of it runs any more.\<close>

theorem build_sound:
  fixes b :: "('tx, 's, 'p, 't, ('t, 'd) plugged, 'b) builder"
  assumes "\<And>S l k ps. blEventStore b = Some S \<Longrightarrow> stPendingDeliveries S background l (states k) = Ok ps \<Longrightarrow> int (length ps) < 2 ^ 62"
  shows "\<exists>r. build compile dflt B cd zero free ids db states mw acts b = Some r
     \<and> (let valid = (blEventStore b \<noteq> None \<and> blSnapshotStore b \<noteq> None
              \<and> list_all (validSync compile) (blSyncProjections b) \<and> list_all (validSubscriber compile) (blSubscribers b))
        in (\<not> valid \<longrightarrow> (\<exists>e. brOutcome r = Fail e) \<and> brState r = None)
         \<and> (case brOutcome r of
              Ok ax \<Rightarrow> valid \<and> brProc r = Some (axProc ax) \<and> \<not> brBusClosed r
                \<and> map spMatch (xSyncs (axExecutor ax)) = map (\<lambda>q. patternMatches compile (pdPattern q)) (blSyncProjections b)
                \<and> xDurableMatch (axExecutor ax) = durableEvents compile (blSubscribers b)
            | _ \<Rightarrow> pred_option abandoned (brProc r) \<and> (brState r \<noteq> None \<longrightarrow> brProc r \<noteq> None)))"
proof -
  have fin: "finish B ids states mw b x bus st \<noteq> None" if "\<exists>S. blEventStore b = Some S \<and> esStore (xEs x) = S" for x bus st
  proof -
    have "recoverProc 63 x (blPublishErrorHandler b) background states mw recoveryBatch st \<noteq> None"
      using that assms by (intro recover_ends) auto
    then show ?thesis by (auto simp: finish_def split: prod.splits outcome.splits option.splits)
  qed
  show ?thesis
  proof (cases "blEventStore b = None \<or> blSnapshotStore b = None \<or> (\<exists>e. processorOpts compile b = Inl e)")
    case True
    then show ?thesis
      using processorOpts_ok[of compile b]
      by (auto simp: build_def refused_def Let_def split: option.splits sum.splits)
  next
    case False
    then obtain S P opts where c: "blEventStore b = Some S" "blSnapshotStore b = Some P" "processorOpts compile b = Inr opts"
      by (metis not_Some_eq sum.exhaust)
    let ?es = "esNew S P cd (blUpcasters b) (blSchemaVersion b) zero (blCorruptionHook b)"
    have store: "esStore (xEs (executorFor ?es free opts d)) = S" for d :: "('t, 'd) plugged iface option"
      by (simp add: executorFor_es guardAutoSnapshots_def esNew_def)
    note ok = executor_of_opts(1,2)[OF c(3)]
    show ?thesis
    proof (cases "newProcessor dflt True opts")
      case (Ok dp)
      then obtain d proc D d0 where p: "newProcessor dflt True opts = Ok (d, proc)" "ifaceOps d = Some (D, d0)"
        using newProcessor_dispatcher by (metis surj_pair)
      let ?x = "executorFor ?es free opts d"
      let ?st = "\<lparr>xDb = db, xDisp = d0, xForgetting = {}, xSnapshotErrors = [], rvReports = []\<rparr>"
      obtain r bus' st' where f: "finish B ids states mw b ?x (activeBus b) ?st = Some (r, bus', st')"
        using fin[of ?x] store c(1) by (metis not_Some_eq surj_pair)
      have "build compile dflt B cd zero free ids db states mw acts b =
          Some \<lparr>brOutcome = bindO r (\<lambda>_. Ok \<lparr>axProc = proc, axExecutor = ?x, axEs = xEs ?x\<rparr>), brBus = bus', brState = Some st',
                brBusClosed = False, brProc = Some (shutdownUnlessBuilt (zeroEvent ?es) acts (isOk r) proc)\<rparr>"
        using c p f by (simp add: build_def Let_def)
      then show ?thesis
        using ok c executor_of_opts(3,5)[OF c(3), of ?es free d] newProcessor_abandons[OF p(1), of "zeroEvent ?es" acts]
        by (cases r) (simp_all add: Let_def shutdownUnlessBuilt_def)
    qed (use c ok in \<open>simp_all add: build_def refused_def Let_def\<close>)
  qed
qed

text \<open>An instance over the in-memory stores with one durable subscriber.\<close>

definition smallBuilder :: "(memory_tx, memory, snapshot_memory, int, (int, int disp) plugged, unit) builder" where
  "smallBuilder = withSubscriber ''added'' (Some (\<lambda>k c e. HReturn None)) (\<lambda>_. False) []
     (withSnapshotStore (Some snapshotMemory) (withEventStore (Some memoryStore) newBuilder))"

definition noBus :: "(int, unit) bus_ops" where
  "noBus = \<lparr>buSubscribe = (\<lambda>i p h qs b. (Ok i, b)), buUnsubscribe = (\<lambda>i b. b), buClose = (\<lambda>e b. (e, b))\<rparr>"

definition nothingElse :: "(memory, snapshot_memory, int, int disp) meanwhile" where
  "nothingElse = \<lparr>mwOthers = (\<lambda>agg st. st), mwCtxErr = (\<lambda>agg. None)\<rparr>"

definition noCodec :: "int codec" where
  "noCodec = \<lparr>marshalT = (\<lambda>n. Ok (JInt n)), unmarshalT = (\<lambda>j. Ok 0), compareT = (\<lambda>x y. Ok (JArr [])), applyPatch = (\<lambda>p j. Ok j)\<rparr>"

definition freshDb :: "(memory, snapshot_memory) db" where
  "freshDb = \<lparr>dbStore = newMemory, dbSnaps = newSnapshots, dbCorrupt = []\<rparr>"

definition smallBuild :: "(memory_tx, memory, snapshot_memory, int, int disp, unit) build_result option" where
  "smallBuild = build fragmentCompile defaultDispatcher noBus noCodec 0 (\<lambda>_. True) (\<lambda>k. ''id'') freshDb (\<lambda>k. newMemory)
     nothingElse [] smallBuilder"

lemma empty_log: "stPendingDeliveries memoryStore background l newMemory = Ok ps \<Longrightarrow> ps = []"
  by (auto simp: memPendingDeliveries_def newMemory_def Let_def split: if_splits)

lemma smallBuilder_simps [simp]:
  "blEventStore smallBuilder = Some memoryStore" "blSnapshotStore smallBuilder = Some snapshotMemory"
  "blForgetHandlers smallBuilder = []" "blSyncProjections smallBuilder = []" "blDispatcherFactory smallBuilder = None"
  "length (blSubscribers smallBuilder) = 1" "blPublishErrorHandler smallBuilder = False"
  by (simp_all add: smallBuilder_def withSubscriber_def withSnapshotStore_def withEventStore_def newBuilder_def)

lemma recover_empty:
  assumes "esStore (xEs x) = memoryStore"
  shows "recoverProc 63 x h background (\<lambda>k. newMemory) mw recoveryBatch st = Some (Ok None, st)"
proof -
  have "stPendingDeliveries memoryStore background 100 newMemory = Ok []"
    by (simp add: memPendingDeliveries_def newMemory_def)
  then have "scanFrom (Suc 62) memoryStore background (\<lambda>k. newMemory) 0 100 {} (addDelivery (\<lambda>_. True)) noBacklogs = Some (Ok (), noBacklogs)"
    unfolding scanFrom.simps by (simp add: visitUnseen_def del: scanFrom.simps)
  then show ?thesis
    by (auto simp: recoverProc_def recoveryBatch_def pendingByAggregate_def scanPending_def assms noBacklogs_def split: option.split)
qed

lemma smallBuild_ok: "\<exists>r ax. smallBuild = Some r \<and> brOutcome r = Ok ax"
proof -
  have "matcher fragmentCompile ''added'' = Inr (\<lambda>name. name = ''added'')"
    by (simp add: matcher_def isExactPattern_def quoteMeta_def set_metachars)
  then obtain opts subs where p: "processorOpts fragmentCompile smallBuilder = Inr opts"
    "opts = [OptShards 8, OptQueueDepth 0, OptWorkersPerShard 0, OptDurableDelivery (Some (wantedBy subs)),
       OptDurableSubscribers subs, OptDeliveryRetry 0 0]"
    by (auto simp: processorOpts_def smallBuilder_def withSubscriber_def withSnapshotStore_def withEventStore_def newBuilder_def
        compileDurable_def compileSubscriber_def subConfig_def durableOpts_def Let_def)
  then obtain proc where np: "newProcessor defaultDispatcher True opts = Ok (Some (Iface KPointer False (memDispatcher, newDispatcher)), proc)"
    by (auto simp: newProcessor_def configure_def chooseDispatcher_def defaultDispatcher_def onDispatcher_def defaultConfig_def
        newRouter_def allocatePool_def makeSlice_def makeBuffered_def maxAlloc_def Let_def)
  have store: "esStore (xEs (executorFor (esNew memoryStore P cd ups v z hook) free opts d)) = memoryStore" for P cd ups v z hook free d
    by (simp add: executorFor_es guardAutoSnapshots_def esNew_def)
  show ?thesis
    unfolding smallBuild_def build_def using p(1) np by (simp add: Let_def finish_def recover_empty[OF store])
qed

theorem build_sound_witness:
  "\<exists>r ax. smallBuild = Some r \<and> brOutcome r = Ok ax
     \<and> xDurableMatch (axExecutor ax) = durableEvents fragmentCompile (blSubscribers smallBuilder)"
proof -
  have short: "int (length ps) < 2 ^ 62"
    if "blEventStore smallBuilder = Some S" "stPendingDeliveries S background l newMemory = Ok ps" for S l ps
    using empty_log[of l ps] that by simp
  obtain r ax where r: "smallBuild = Some r" "brOutcome r = Ok ax" using smallBuild_ok by blast
  then show ?thesis
    using build_sound[of smallBuilder "\<lambda>k. newMemory" fragmentCompile defaultDispatcher noBus noCodec 0
        "\<lambda>_. True" "\<lambda>k. ''id''" freshDb nothingElse "[]", OF short] unfolding smallBuild_def by (auto simp: Let_def)
qed

end
