(* ===== verification/Asynx.thy ===== *)
theory Asynx
  imports Builder Listener_Correct
begin

text \<open>
  \<^verbatim>\<open>asynx.go\<close>: the public facade. Its methods pass their arguments to the processor, the event
  store and the bus of the instance; \<open>Listen\<close> and \<open>SubscribeWait\<close> put a listener in between.
\<close>

section \<open>Commands and deliveries\<close>

definition axSend :: "('tx, 's, 'p, 't, 'd) asynx_impl \<Rightarrow> nat \<Rightarrow> 't command \<Rightarrow> 't processor \<Rightarrow> 't processor" where
  "axSend i c cmd p = startSend (zeroEvent (axEs i)) c cmd False p"

definition axSendWait :: "('tx, 's, 'p, 't, 'd) asynx_impl \<Rightarrow> nat \<Rightarrow> 't command \<Rightarrow> 't processor \<Rightarrow> 't processor" where
  "axSendWait i c cmd p = startSend (zeroEvent (axEs i)) c cmd True p"

definition axForget :: "nat \<Rightarrow> string \<Rightarrow> 't processor \<Rightarrow> 't processor" where
  "axForget c agg p = startForget c agg p"

definition axShutdown :: "nat \<Rightarrow> 't processor \<Rightarrow> 't processor" where
  "axShutdown c p = startShutdown c p"

definition pausedAggregates :: "('tx, 's, 'p, 't, 'd) asynx_impl \<Rightarrow> 'd \<Rightarrow> string list" where
  "pausedAggregates i d = paused (axExecutor i) d"

definition inspectDelivery :: "('tx, 's, 'p, 't, 'd) asynx_impl \<Rightarrow> string \<Rightarrow> 'd \<Rightarrow> delivery_status" where
  "inspectDelivery i agg d = inspect (axExecutor i) agg d"

definition resumeDeliveries ::
  "('tx, 's, 'p, 't, 'd) asynx_impl \<Rightarrow> ctx \<Rightarrow> (nat \<Rightarrow> 's) \<Rightarrow> ('s, 'p, 't, 'd) meanwhile \<Rightarrow> (string \<Rightarrow> goerr option)
     \<Rightarrow> ('s, 'p, 't, 'd) recovery_state \<Rightarrow> (goerr option outcome \<times> ('s, 'p, 't, 'd) recovery_state) option" where
  "resumeDeliveries i c states mw lockErrs st = resume 63 (axExecutor i) c states mw lockErrs recoveryBatch st"

section \<open>Reading\<close>

definition axGet :: "('tx, 's, 'p, 't, 'd) asynx_impl \<Rightarrow> ctx \<Rightarrow> string \<Rightarrow> ('s, 'p) db \<Rightarrow> 't outcome \<times> ('s, 'p) db" where
  "axGet i c agg d = readerGet (axEs i) c agg d"

definition axExists :: "('tx, 's, 'p, 't, 'd) asynx_impl \<Rightarrow> ctx \<Rightarrow> string \<Rightarrow> 's \<Rightarrow> bool outcome" where
  "axExists i c agg s = readerExists (axEs i) c agg s"

definition axPreload :: "('tx, 's, 'p, 't, 'd) asynx_impl \<Rightarrow> ctx \<Rightarrow> string \<Rightarrow> ('s, 'p) db \<Rightarrow> unit outcome \<times> ('s, 'p) db" where
  "axPreload i c agg d = readerPreload (axEs i) c agg d"

definition axReplay ::
  "('tx, 's, 'p, 't, 'd) asynx_impl \<Rightarrow> ctx \<Rightarrow> string \<Rightarrow> int \<Rightarrow> int \<Rightarrow> ('t event \<Rightarrow> 'x \<Rightarrow> 'x) \<Rightarrow> 's \<Rightarrow> 'x \<Rightarrow> unit outcome \<times> 'x" where
  "axReplay i c agg fromV toV fn s x = replay (axEs i) c agg fromV toV fn s x"

section \<open>Live subscriptions\<close>

definition axSubscribe ::
  "('t, 'b) bus_ops \<Rightarrow> string \<Rightarrow> string \<Rightarrow> 't projection_handler option \<Rightarrow> 't subscription_opt list
     \<Rightarrow> ('t, 'b) active_bus \<Rightarrow> string outcome \<times> ('t, 'b) active_bus" where
  "axSubscribe B subID pattern handler opts bus = subscribeOn B subID pattern handler opts bus"

definition axUnsubscribe :: "('t, 'b) bus_ops \<Rightarrow> string \<Rightarrow> ('t, 'b) active_bus \<Rightarrow> ('t, 'b) active_bus" where
  "axUnsubscribe B subID bus = unsubscribeOn B subID bus"

text \<open>
  \<open>Listen\<close> with nothing in between: the listener, subscribed under the topic of the pattern with
  the handler \<open>handleFn\<close>, and its id published. What may come between is in \<open>Listener\<close>.
\<close>

definition listen ::
  "('t, 'b) bus_ops \<Rightarrow> string \<Rightarrow> string \<Rightarrow> int \<Rightarrow> 't projection_handler \<Rightarrow> ('t, 'b) active_bus
     \<Rightarrow> 't listen_system outcome \<times> ('t, 'b) active_bus" where
  "listen B subID pattern cnt handleFn bus =
     (if pattern = [] then (Fail (Sentinel ErrEmptyPattern), bus)
      else case subscribeOn B subID (topic pattern) (Some handleFn) [] bus of
             (Ok i, bus') \<Rightarrow> (Ok (publishSubscription i (startListen cnt)), bus')
           | (Fail e, bus') \<Rightarrow> (Fail e, bus')
           | (Panic p, bus') \<Rightarrow> (Panic p, bus'))"

text \<open>
  The \<open>select\<close> of \<open>SubscribeWait\<close>: the arm of a done context, or the receive, which blocks on an
  empty open channel and gives the zero event on an empty closed one.
\<close>

definition waitSelect :: "'t event \<Rightarrow> goerr option \<Rightarrow> 't listen_system \<Rightarrow> ('t event \<times> goerr option) option" where
  "waitSelect zero ctxDone s =
     (case ctxDone of
        Some e \<Rightarrow> Some (zero, Some e)
      | None \<Rightarrow>
          (case lnCh (lsL s) of
             evt # es \<Rightarrow> Some (evt, None)
           | [] \<Rightarrow> if lnChClosed (lsL s) then Some (zero, None) else None))"

section \<open>Properties\<close>

text \<open>\<open>Listen\<close> subscribes to its topic. It fails only on an empty pattern or a closed bus; else it
  registers one subscription of its own, which receives an event exactly when the event's name
  has the segments of the pattern, and the listener knows its id.\<close>

theorem listen_selects_topic:
  assumes "regexpDocumented compile" "ascii pattern" "ascii name"
  shows "case listen B i pattern cnt h (Inr (b, n)) of
       (Ok l, bus') \<Rightarrow>
         pattern \<noteq> [] \<and> \<not> cbClosed b \<and> lnSubID (lsL l) = i \<and> lnReady (lsL l)
       \<and> (\<exists>b' sub. bus' = Inr (b', Suc n) \<and> cbSubscriptions b' = (cbSubscriptions b)(i \<mapsto> sub)
            \<and> cbIdx b' = indexWith (cbIdx b) sub \<and> sbHandler sub = h
            \<and> patternMatches compile (sbPattern sub) name = topicMatches pattern name)
     | (Fail e, bus') \<Rightarrow>
         e = Sentinel ErrEmptyPattern \<and> pattern = [] \<or> e = Sentinel ErrBusClosed \<and> cbClosed b
     | (Panic p, bus') \<Rightarrow> False"
proof -
  have "topic pattern \<noteq> []" by (simp add: topic_eq)
  moreover have "patternMatches compile (topic pattern) name = topicMatches pattern name"
    using topic_compiles[OF assms] topic_meta[of pattern]
    by (auto simp: patternMatches_def isExactPattern_def matchesRegex_def)
  ultimately show ?thesis
    by (auto simp: listen_def subscribeOn_def channelSubscribe_def insertSub_def publishSubscription_def onL_def
        closeReady_def startListen_def newListener_def Let_def)
qed

definition noOps :: "(int, unit) bus_ops" where
  "noOps = \<lparr>buSubscribe = (\<lambda>i p h qs b. (Ok i, b)), buUnsubscribe = (\<lambda>i b. b), buClose = (\<lambda>e b. (e, b))\<rparr>"

definition idle :: "int projection_handler" where
  "idle k c e = \<lparr>hrPanic = None, hrOutlives = False, hrBefore = 0\<rparr>"

theorem listen_selects_topic_witness:
  "\<exists>l b' sub. listen noOps ''id'' ''order.*'' 1 idle (Inr (newChannelBus [], 0)) = (Ok l, Inr (b', 1))
     \<and> lnSubID (lsL l) = ''id'' \<and> cbSubscriptions b' = [''id'' \<mapsto> sub]
     \<and> patternMatches fragmentCompile (sbPattern sub) ''order.placed''"
proof -
  have a: "ascii ''order.*''" "ascii ''order.placed''" "topicMatches ''order.*'' ''order.placed''" by code_simp+
  obtain l bus' where l: "listen noOps ''id'' ''order.*'' 1 idle (Inr (newChannelBus [], 0)) = (Ok l, bus')"
    by (simp add: listen_def subscribeOn_def channelSubscribe_def topic_eq)
  show ?thesis
    using listen_selects_topic[OF fragmentCompile_documented a(1,2), where B = noOps and i = "''id''" and cnt = 1 and h = idle
        and b = "newChannelBus []" and n = 0] a(3)
    unfolding l by auto
qed

text \<open>\<open>SubscribeWait\<close> never mistakes a closed channel for an event. While the caller has neither
  received nor unsubscribed, whatever handlers do, a receive that does not block yields an event
  a handler sent.\<close>

theorem subscribe_wait_real:
  assumes "listenReachable 1 s" "lnTaken (lsL s) = []" "\<not> lnDone (lsL s)" "waitSelect zero None s = Some (evt, err)"
  shows "lnCh (lsL s) = [evt] \<and> err = None"
proof -
  have f: "fieldsOk 1 (lsL s)" using inv_fields[OF listenReachable_inv[OF assms(1)]] by (simp add: maxInt64_def)
  show ?thesis
    using assms f by (auto simp: waitSelect_def fieldsOk_def split: list.splits if_splits)
qed

definition waitEvent :: "int event" where
  "waitEvent = listenEvent 7"

theorem subscribe_wait_real_witness:
  "\<exists>s. listenRun [Handle 0 waitEvent, HandlerStep 0 False, HandlerStep 0 False, HandlerStep 0 False, HandlerStep 0 False]
        (startListen 1) = Some s \<and> waitSelect (listenEvent 0) None s = Some (waitEvent, None) \<and> lnCh (lsL s) = [waitEvent]"
proof -
  obtain s where s: "listenRun [Handle 0 waitEvent, HandlerStep 0 False, HandlerStep 0 False, HandlerStep 0 False, HandlerStep 0 False]
        (startListen 1) = Some s" "lnTaken (lsL s) = []" "\<not> lnDone (lsL s)" "waitSelect (listenEvent 0) None s = Some (waitEvent, None)"
    by (simp add: startListen_def newListener_def listen_defs deliverSend_def sendCh_def i64_def Let_def waitSelect_def)
  have "listenReachable 1 s" by (rule listenRun_reachable[OF listenReachable.start s(1)])
  then show ?thesis using subscribe_wait_real[OF _ s(2,3,4)] s by blast
qed

end
