(* ===== verification/Order_Example.thy ===== *)
theory Order_Example
  imports Exec_Properties "HOL-Library.Multiset"
begin

text \<open>
  \<^verbatim>\<open>example\<close>: the order domain the repository ships as its example, with its three commands and
  two projections, run by the executor. It shows how the guarantees of the executor carry over
  to an application: what the commands' \<open>Validate\<close> methods keep of a history holds for ever.
\<close>

section \<open>The domain\<close>

text \<open>A \<open>float64\<close> is its IEEE 754 bits; of its operations the commands only ask \<open>x <= 0\<close>.\<close>

type_synonym float64 = "64 word"

definition isNaN :: "float64 \<Rightarrow> bool" where
  "isNaN x \<longleftrightarrow> take_bit 11 (drop_bit 52 x) = 0x7FF \<and> take_bit 52 x \<noteq> 0"

definition atMostZero :: "float64 \<Rightarrow> bool" where
  "atMostZero x \<longleftrightarrow> \<not> isNaN x \<and> (bit x 63 \<or> x = 0)"

definition OrderPending :: string where "OrderPending = ''Pending''"
definition OrderConfirmed :: string where "OrderConfirmed = ''Confirmed''"
definition OrderShipped :: string where "OrderShipped = ''Shipped''"

record order =
  orID :: string
  orStatus :: string
  orTotal :: float64
  orItems :: int
  orShipTo :: string

definition zeroOrder :: order where
  "zeroOrder = \<lparr>orID = '''', orStatus = '''', orTotal = 0, orItems = 0, orShipTo = ''''\<rparr>"

section \<open>The commands\<close>

record create_order_cmd =
  coID :: string
  coTotal :: float64
  coItems :: int
  coShipTo :: string

definition createValidate :: "create_order_cmd \<Rightarrow> order option \<Rightarrow> goerr option" where
  "createValidate c cur =
     (if atMostZero (coTotal c) then Some (Sentinel ErrValidation)
      else if coItems c \<le> 0 then Some (Sentinel ErrValidation)
      else if cur \<noteq> None then Some (Sentinel ErrValidation)
      else None)"

definition createOrderCmd :: "create_order_cmd \<Rightarrow> order command" where
  "createOrderCmd c =
     \<lparr>cmdAggregateID = coID c, cmdEventName = ''OrderCreated'', cmdShouldSnapshot = False,
      cmdValidate = createValidate c,
      cmdEmitEvent = (\<lambda>cur. \<lparr>orID = coID c, orStatus = OrderPending, orTotal = coTotal c,
                               orItems = coItems c, orShipTo = coShipTo c\<rparr>),
      cmdCommandID = None\<rparr>"

text \<open>
  \<open>EmitEvent\<close> of the other two dereferences its argument. It is called only after \<open>Validate\<close> has
  accepted the same argument, which is then not nil; the zero order stands for the panic.
\<close>

definition advance :: "string \<Rightarrow> order option \<Rightarrow> order" where
  "advance status cur = (case cur of None \<Rightarrow> zeroOrder | Some r \<Rightarrow> r\<lparr>orStatus := status\<rparr>)"

definition requireStatus :: "string \<Rightarrow> order option \<Rightarrow> goerr option" where
  "requireStatus status cur =
     (case cur of
        None \<Rightarrow> Some (Sentinel ErrValidation)
      | Some r \<Rightarrow> if orStatus r \<noteq> status then Some (Sentinel ErrValidation) else None)"

definition confirmOrderCmd :: "string \<Rightarrow> order command" where
  "confirmOrderCmd i =
     \<lparr>cmdAggregateID = i, cmdEventName = ''OrderConfirmed'', cmdShouldSnapshot = False,
      cmdValidate = requireStatus OrderPending, cmdEmitEvent = advance OrderConfirmed, cmdCommandID = None\<rparr>"

definition shipOrderCmd :: "string \<Rightarrow> order command" where
  "shipOrderCmd i =
     \<lparr>cmdAggregateID = i, cmdEventName = ''OrderShipped'', cmdShouldSnapshot = True,
      cmdValidate = requireStatus OrderConfirmed, cmdEmitEvent = advance OrderShipped, cmdCommandID = None\<rparr>"

definition orderCommand :: "order command \<Rightarrow> bool" where
  "orderCommand cmd \<longleftrightarrow> (\<exists>c. cmd = createOrderCmd c) \<or> (\<exists>i. cmd = confirmOrderCmd i) \<or> (\<exists>i. cmd = shipOrderCmd i)"

text \<open>The panic is out of reach: what the two commands validate is an order.\<close>

lemma requireStatus_some: "requireStatus s cur = None \<longleftrightarrow> (\<exists>r. cur = Some r \<and> orStatus r = s)"
  by (auto simp: requireStatus_def split: option.splits if_splits)

section \<open>The projections\<close>

definition reporterLine :: "order event \<Rightarrow> string" where
  "reporterLine ev =
     ''[EVENT] '' @ evEventName ev @ '' - Order '' @ orID (evAggregate ev) @ '': '' @
     orStatus (evPreviousAggregate ev) @ '' '' @ [CHR 0xE2, CHR 0x86, CHR 0x92] @ '' '' @
     orStatus (evAggregate ev) @ [CHR 0x0A]"

record order_notifier =
  onOutbox :: "string list"

definition notice :: "order event \<Rightarrow> string option" where
  "notice ev =
     (let i = orID (evAggregate ev) in
      if evEventName ev = ''OrderCreated''
        then Some ([CHR 0xF0, CHR 0x9F, CHR 0x93, CHR 0xA7] @ '' Confirmation email sent for order '' @ i)
      else if evEventName ev = ''OrderConfirmed''
        then Some ([CHR 0xF0, CHR 0x9F, CHR 0x8E, CHR 0x89] @ '' Order '' @ i @ '' confirmed! Warehouse notified.'')
      else if evEventName ev = ''OrderShipped''
        then Some ([CHR 0xF0, CHR 0x9F, CHR 0x93, CHR 0xA6] @ '' Order '' @ i @ '' shipped! Customer notified.'')
      else None)"

definition notifierHandle :: "order event \<Rightarrow> order_notifier \<Rightarrow> order_notifier" where
  "notifierHandle ev n = (case notice ev of None \<Rightarrow> n | Some m \<Rightarrow> n\<lparr>onOutbox := onOutbox n @ [m]\<rparr>)"

definition getOutbox :: "order_notifier \<Rightarrow> string list" where
  "getOutbox n = onOutbox n"

lemma notifier_outbox: "getOutbox (fold notifierHandle evs n) = getOutbox n @ List.map_filter notice evs"
  by (induction evs arbitrary: n) (auto simp: getOutbox_def notifierHandle_def map_filter_simps split: option.splits)

text \<open>Handlers run concurrently, one after the other under the mutex: no notice is lost or sent twice.\<close>

lemma notifier_any_order:
  "mset evs = mset evs' \<Longrightarrow> mset (getOutbox (fold notifierHandle evs n)) = mset (getOutbox (fold notifierHandle evs' n))"
  by (simp add: notifier_outbox map_filter_def)

section \<open>The life of an order\<close>

text \<open>
  The history of an order is the start of: created with a total and items, confirmed, shipped.
  Nothing but the status ever changes.
\<close>

definition orderLife :: "order \<Rightarrow> order list" where
  "orderLife r = [r, r\<lparr>orStatus := OrderConfirmed\<rparr>, r\<lparr>orStatus := OrderShipped\<rparr>]"

definition orderHistory :: "string \<Rightarrow> order list \<Rightarrow> bool" where
  "orderHistory agg hs \<longleftrightarrow> hs = [] \<or>
     (let r = hd hs in
      hs = take (length hs) (orderLife r) \<and> orID r = agg \<and> orStatus r = OrderPending \<and>
      \<not> atMostZero (orTotal r) \<and> 0 < orItems r)"

lemma orderLife_length: "length (orderLife r) = 3"
  by (simp add: orderLife_def)

lemma status_distinct [simp]:
  "OrderPending \<noteq> OrderConfirmed" "OrderPending \<noteq> OrderShipped" "OrderConfirmed \<noteq> OrderShipped"
  "OrderConfirmed \<noteq> OrderPending" "OrderShipped \<noteq> OrderPending" "OrderShipped \<noteq> OrderConfirmed"
  by (simp_all add: OrderPending_def OrderConfirmed_def OrderShipped_def)

lemma takes_orderLife:
  "hs \<noteq> [] \<and> hs = take (length hs) (orderLife r) \<longleftrightarrow>
     hs \<in> {[r], [r, r\<lparr>orStatus := OrderConfirmed\<rparr>], orderLife r}"
proof
  assume hs: "hs \<noteq> [] \<and> hs = take (length hs) (orderLife r)"
  then have "length hs \<le> 3" by (metis length_take min.cobounded1 orderLife_length)
  moreover have "length hs \<noteq> 0" using hs by simp
  ultimately have "length hs = 1 \<or> length hs = 2 \<or> length hs = 3" by linarith
  then have "hs = take 1 (orderLife r) \<or> hs = take 2 (orderLife r) \<or> hs = take 3 (orderLife r)" using hs by metis
  then show "hs \<in> {[r], [r, r\<lparr>orStatus := OrderConfirmed\<rparr>], orderLife r}" by (simp add: orderLife_def)
qed (auto simp: orderLife_def)

text \<open>The history as its three stages, with the current state of each.\<close>

lemma orderHistory_stages:
  "orderHistory agg hs \<longleftrightarrow> hs = [] \<or>
     (\<exists>r. orID r = agg \<and> orStatus r = OrderPending \<and> \<not> atMostZero (orTotal r) \<and> 0 < orItems r \<and>
        hs \<in> {[r], [r, r\<lparr>orStatus := OrderConfirmed\<rparr>], orderLife r})"
proof -
  have "hd hs = r" if "hs \<in> {[r], [r, r\<lparr>orStatus := OrderConfirmed\<rparr>], orderLife r}" for r
    using that by (auto simp: orderLife_def)
  then show ?thesis
    using takes_orderLife[of hs] unfolding orderHistory_def Let_def by metis
qed

lemma order_commands_keep: "orderCommand cmd \<Longrightarrow> keepsDomain orderHistory cmd"
  unfolding keepsDomain_def orderCommand_def orderHistory_stages
  by (auto simp: createOrderCmd_def confirmOrderCmd_def shipOrderCmd_def createValidate_def requireStatus_some
      currentOf_def advance_def orderLife_def split: if_splits)

section \<open>The example's run\<close>

text \<open>
  What \<^verbatim>\<open>example/main.go\<close> sends: it creates three orders, confirms and ships them, and prints one
  line for each. \<open>send\<close> and \<open>waitPublish\<close> are the methods of the instance, as their caller sees them.
\<close>

definition orders :: "string list" where
  "orders = [''ORD-001'', ''ORD-002'', ''ORD-003'']"

definition sampleOrder :: "string \<Rightarrow> create_order_cmd" where
  "sampleOrder i = \<lparr>coID = i, coTotal = 0x4058FF5C28F5C28F, coItems = 2, coShipTo = ''123 Main St''\<rparr>"

fun sendEach ::
  "(order command \<Rightarrow> 's \<Rightarrow> goerr option \<times> 's) \<Rightarrow> string \<Rightarrow> string \<Rightarrow> (string \<Rightarrow> order command) \<Rightarrow> string list \<Rightarrow> 's
     \<Rightarrow> string list \<times> 's" where
  "sendEach send verb past cmd [] s = ([], s)"
| "sendEach send verb past cmd (i # is) s =
     (case send (cmd i) s of
        (err, s') \<Rightarrow>
          (let line = (case err of
                 Some e \<Rightarrow> [CHR 0xE2, CHR 0x9D, CHR 0x8C] @ '' Failed to '' @ verb @ '' order '' @ i @ '': '' @ errText e
               | None \<Rightarrow> [CHR 0xE2, CHR 0x9C, CHR 0x93] @ '' Order '' @ i @ '' '' @ past)
           in case sendEach send verb past cmd is s' of (out, s'') \<Rightarrow> ((line @ [CHR 0x0A]) # out, s'')))"

definition exampleSends ::
  "(order command \<Rightarrow> 's \<Rightarrow> goerr option \<times> 's) \<Rightarrow> ('s \<Rightarrow> 's) \<Rightarrow> 's \<Rightarrow> string list \<times> 's" where
  "exampleSends send waitPublish s =
     (let (out1, s1) = sendEach send ''create'' ''created'' (\<lambda>i. createOrderCmd (sampleOrder i)) orders s;
          (out2, s2) = sendEach send ''confirm'' ''confirmed'' confirmOrderCmd orders (waitPublish s1);
          (out3, s3) = sendEach send ''ship'' ''shipped'' shipOrderCmd orders (waitPublish s2)
      in (out1 @ [[CHR 0x0A]] @ out2 @ [[CHR 0x0A]] @ out3 @ [[CHR 0x0A]], waitPublish s3))"

text \<open>A failed command does not stop the loop: every command is sent, in this order.\<close>

definition exampleCommands :: "order command list" where
  "exampleCommands =
     map (\<lambda>i. createOrderCmd (sampleOrder i)) orders @ map confirmOrderCmd orders @ map shipOrderCmd orders"

lemma sendEach_state: "snd (sendEach send verb past cmd is s) = fold (\<lambda>c s. snd (send c s)) (map cmd is) s"
  by (induction "is" arbitrary: s) (simp_all add: Let_def split: prod.splits, metis snd_conv)

lemma exampleSends_state: "snd (exampleSends send (\<lambda>s. s) s) = fold (\<lambda>c s. snd (send c s)) exampleCommands s"
proof -
  have "snd (exampleSends send (\<lambda>s. s) s) =
      snd (sendEach send ''ship'' ''shipped'' shipOrderCmd orders
        (snd (sendEach send ''confirm'' ''confirmed'' confirmOrderCmd orders
          (snd (sendEach send ''create'' ''created'' (\<lambda>i. createOrderCmd (sampleOrder i)) orders s)))))"
    by (simp add: exampleSends_def Let_def split: prod.splits)
  then show ?thesis by (simp add: sendEach_state exampleCommands_def)
qed

text \<open>
  A codec to run them with: the members of the struct's tags, the total by its bits, and a
  difference that replaces the root.
\<close>

definition marshalOrder :: "order \<Rightarrow> json" where
  "marshalOrder r =
     JObj [(''id'', JStr (orID r)), (''status'', JStr (orStatus r)), (''total'', JInt (uint (orTotal r))),
           (''items'', JInt (orItems r)), (''ship_to'', JStr (orShipTo r))]"

definition orderCodec :: "order codec" where
  "orderCodec =
     \<lparr>marshalT = (\<lambda>r. Ok (marshalOrder r)),
      unmarshalT = (\<lambda>j. case j of
           JObj [(_, JStr i), (_, JStr s), (_, JInt t), (_, JInt n), (_, JStr a)] \<Rightarrow>
             Ok \<lparr>orID = i, orStatus = s, orTotal = word_of_int t, orItems = n, orShipTo = a\<rparr>
         | _ \<Rightarrow> jsonErr ''cannot unmarshal''),
      compareT = (\<lambda>a b. Ok (JArr (if a = b then [] else
         [JObj [(''op'', JStr ''replace''), (''path'', JStr ''''), (''value'', marshalOrder b)]]))),
      applyPatch = applyPatch counterCodec\<rparr>"

lemma orderCodec_ok: "codecOk orderCodec"
  by (auto simp: codecOk_def orderCodec_def marshalOrder_def noPatch_def counterCodec_def)

definition orderExec :: "(memory_tx, memory, snapshot_memory, order, unit) executor" where
  "orderExec = newExecutor (memES orderCodec (\<lambda>_. None) 1 zeroOrder False None) None []"

definition orderState :: "(memory, snapshot_memory, order, unit) exec_state" where
  "orderState = \<lparr>xDb = emptyDb, xDisp = (), xForgetting = {}, xSnapshotErrors = []\<rparr>"

text \<open>What the example sends for its second order.\<close>

definition orderCalls :: "order call list" where
  "orderCalls = map (\<lambda>cmd. \<lparr>clLock = None, clCtx = background, clNewID = ''e'', clNow = someTime, clCmd = cmd\<rparr>)
     (filter (\<lambda>cmd. cmdAggregateID cmd = ''ORD-002'') exampleCommands)"

lemma orderExec_withMemory: "withMemory orderExec = orderExec"
  by (simp add: withMemory_def orderExec_def newExecutor_def memES_def esNew_def)

lemma orderExec_configured: "configured orderExec"
  by (simp add: configured_def orderExec_def newExecutor_def memES_def esNew_def orderCodec_ok i64_def projectionsSafe_def)

lemma orderCalls_length:
  "length (streamOf (dbStore (xDb (executeAll orderExec orderCalls orderState))) (streamName ''ORD-002'')) = 3"
  by code_simp

text \<open>C11: an application's rules hold for ever. Start from a store whose orders have sound
  histories, and send any sequence of the example's commands for any orders, whatever locks,
  contexts and ids they come with. Then every history has only grown, and that of every order is
  still the start of one life: created once, under its own id, with a total that is not zero or
  less and at least one item; then confirmed once; then shipped once; with nothing but the status changed.\<close>

theorem order_lifecycle:
  assumes "configured x" "\<forall>cl \<in> set cls. timeOk (clNow cl) \<and> orderCommand (clCmd cl)"
    and "histories (withMemory x) st H" "\<forall>agg. orderHistory agg (H agg)" "roomFor (length cls) H"
  shows "\<exists>H'. histories (withMemory x) (executeAll (withMemory x) cls st) H' \<and>
    (\<forall>agg. (\<exists>later. H' agg = H agg @ later) \<and> orderHistory agg (H' agg))"
proof -
  have "\<exists>H'. mex.grows x st (executeAll (withMemory x) cls st) H H' \<and> (\<forall>a. orderHistory a (H' a))
      \<and> (\<forall>a. length (H' a) \<le> length (H a) + length cls)"
    by (rule mex.executeAll_domain)
      (use assms order_commands_keep in \<open>auto simp: configured_def mex_bridge roomFor_def\<close>)
  then show ?thesis by (auto simp: mex.grows_def mex_bridge)
qed

theorem order_lifecycle_witness:
  "\<exists>H' r. histories orderExec (executeAll orderExec orderCalls orderState) H' \<and>
     H' ''ORD-002'' = orderLife r \<and> orID r = ''ORD-002'' \<and> orStatus r = OrderPending"
proof -
  have "\<forall>cl \<in> set orderCalls. timeOk (clNow cl) \<and> orderCommand (clCmd cl)"
    by (auto simp: orderCalls_def timeOk_someTime exampleCommands_def orderCommand_def)
  moreover have "histories orderExec orderState (\<lambda>_. [])" by (simp add: histories_def orderState_def emptyDb_holds)
  moreover have "roomFor (length orderCalls) (\<lambda>_. [] :: order list)"
    by (rule roomFor_empty) (simp add: orderCalls_def exampleCommands_def orders_def)
  moreover have "\<forall>agg. orderHistory agg []" by (simp add: orderHistory_def)
  ultimately obtain H' where H': "histories orderExec (executeAll orderExec orderCalls orderState) H'" "\<forall>agg. orderHistory agg (H' agg)"
    using order_lifecycle[OF orderExec_configured, of orderCalls orderState "\<lambda>_. []"] unfolding orderExec_withMemory by blast
  have "dbHolds (xEs orderExec) (xDb (executeAll orderExec orderCalls orderState)) ''ORD-002'' (H' ''ORD-002'')"
    using H'(1) by (simp add: histories_def)
  then have "length (H' ''ORD-002'') = 3"
    using orderCalls_length by (simp add: dbHolds_def represents_def Let_def memView_def)
  then obtain r where "orID r = ''ORD-002''" "orStatus r = OrderPending" "H' ''ORD-002'' = orderLife r"
    using H'(2)[rule_format, of "''ORD-002''"] by (auto simp: orderHistory_stages)
  then show ?thesis using H'(1) by blast
qed

end
