(* ===== verification/Spec2Isabelle.thy ===== *)
theory Spec2Isabelle
  imports Node_Properties Storetest_Correct Event_Store_Properties Exec_Properties Delivery_Properties Keyed_Lock Processor_Properties Recovery_Properties
    Bus_Properties Listener_Correct Builder_Properties Asynx Order_Example
begin

text \<open>
  \<^bold>\<open>asynx\<close>: a verification library for an event-sourcing engine written in Go.

  \<^bold>\<open>The program.\<close> A client sends \<^emph>\<open>commands\<close> to aggregates. A command is loaded against the current
  state of its aggregate, validated, and committed as an \<^emph>\<open>event\<close> together with its receipt and its
  entry in the delivery log, in one transaction of the store. The committed event is then handed to
  the dispatcher, which publishes it to live subscribers and delivers it to durable ones, in order
  per aggregate, with retries; a delivery that cannot be completed parks its aggregate until it is
  resumed. \<open>Forget\<close> erases an aggregate after its deletion marker has been delivered. A
  builder wires the parts together and recovers what a previous run left undelivered; a facade
  offers commands, reads, live subscriptions and listeners.

  \<^bold>\<open>The theories.\<close>
  \<^item> \<open>Prelude\<close>: Go errors (\<^verbatim>\<open>models/errors.go\<close>) with \<open>errors.Is\<close> and their texts, outcomes (value, error
    or panic), contexts, int64 arithmetic, durations, sorted insertion, shared lemmas.
  \<^item> \<open>Json\<close>: the stored form of events and snapshots (\<^verbatim>\<open>internal/eventstore/models\<close>); the patch
    libraries are the parameters of a \<open>codec\<close>.
  \<^item> \<open>Store_Interface\<close>: \<^verbatim>\<open>models/store.go\<close> and \<^verbatim>\<open>models/snapshot_store.go\<close> as records of operations,
    the abstract contents of a store, and the contracts every backend owes its clients, as locales.
  \<^item> \<open>Memory_Store\<close>: \<^verbatim>\<open>store/memory.go\<close> and \<^verbatim>\<open>store/snapshot_memory.go\<close>, interpreting the contracts.
  \<^item> \<open>Storetest\<close>, \<open>Storetest_Correct\<close>: \<^verbatim>\<open>store/storetest/storetest.go\<close>, the suite the library gives to authors of
    stores, and that every store that keeps the contract passes it.
  \<^item> \<open>Event_Store\<close>, \<open>Event_Store_Correct\<close>, \<open>Event_Store_Properties\<close>: \<^verbatim>\<open>internal/eventstore\<close> (reader,
    writer, replayer, facade) over any store that satisfies the contract.
  \<^item> \<open>Dispatcher_Interface\<close>: \<^verbatim>\<open>models/dispatcher.go\<close> as a record of operations.
  \<^item> \<open>Exec\<close>, \<open>Exec_Correct\<close>, \<open>Exec_Properties\<close>: \<^verbatim>\<open>internal/processor/exec\<close>, the command pipeline,
    idempotency and \<open>Forget\<close>, over any store and any dispatcher.
  \<^item> \<open>Registry\<close>, \<open>Registry_Correct\<close>: \<^verbatim>\<open>internal/bus/dispatcher\<close> with its \<^verbatim>\<open>aggregates\<close>, \<^verbatim>\<open>jobs\<close> and
    \<^verbatim>\<open>tracker\<close>: each critical section as a function on one state, and the invariant they keep.
  \<^item> \<open>Delivery\<close>, \<open>Delivery_Correct\<close>, \<open>Delivery_Log\<close>, \<open>Delivery_Order\<close>, \<open>Delivery_Park\<close>: \<^verbatim>\<open>delivery\<close>, \<^verbatim>\<open>reporter\<close>
    and \<^verbatim>\<open>workers\<close>: a worker's run over a job, interleaved with any operations of other goroutines; the log
    it writes, and what a failed run leaves behind (the locale \<open>failed_run\<close>, for closed channels and for parks).
  \<^item> \<open>Dispatcher_System\<close>: the whole dispatcher as a step relation of clients and workers, with its
    invariant by induction over reachability.
  \<^item> \<open>Dispatcher_Properties\<close>, \<open>Delivery_Properties\<close>: what the dispatcher guarantees.
  \<^item> \<open>Keyed_Lock\<close>: \<^verbatim>\<open>internal/processor/exec/keyedlock.go\<close>, its critical sections and channel
    operations as steps.
  \<^item> \<open>Shard\<close>, \<open>Shard_Correct\<close>, \<open>Shard_Properties\<close>: \<^verbatim>\<open>internal/processor/pool\<close> and \<^verbatim>\<open>queue\<close>: the FNV
    router, a shard's dispatching goroutine and its workers.
  \<^item> \<open>Processor\<close>, \<open>Processor_Correct\<close>, \<open>Processor_Properties\<close>: \<^verbatim>\<open>internal/processor/processor.go\<close>:
    options, the choice of the dispatcher, what \<open>make\<close> refuses to allocate, and the life of \<open>Send\<close>, \<open>SendWait\<close>, \<open>Forget\<close> and \<open>Shutdown\<close> calls.
  \<^item> \<open>Recovery\<close>, \<open>Recovery_Correct\<close>, \<open>Recovery_Properties\<close>: \<^verbatim>\<open>processor_recovery.go\<close>: the scan of the
    delivery log, redelivery, \<open>Recover\<close> and \<open>Resume\<close>.
  \<^item> \<open>Regexp\<close>: the fragment of Go's regular expressions the program writes itself, with \<open>QuoteMeta\<close>; the
    engine is the parameter \<open>compile\<close> of the definitions that use one.
  \<^item> \<open>Topic\<close>: \<^verbatim>\<open>topic.go\<close>. \<open>Bus_Exec\<close>: \<^verbatim>\<open>internal/bus/exec/exec.go\<close>, one handler's run.
  \<^item> \<open>Bus\<close>, \<open>Bus_Correct\<close>, \<open>Bus_Properties\<close>: \<^verbatim>\<open>internal/bus/channel_bus.go\<close>, \<^verbatim>\<open>utils\<close> and \<^verbatim>\<open>models\<close>: calls
    and handler goroutines as steps between the bus's mutexes, the published index copied on write.
  \<^item> \<open>Listener\<close>, \<open>Listener_Correct\<close>: the listener of \<^verbatim>\<open>asynx.go\<close>, its atomics, mutex and channels as steps.
  \<^item> \<open>Builder\<close>, \<open>Builder_Properties\<close>: \<^verbatim>\<open>builder.go\<close>, every option and \<open>Build\<close> with its failure
    paths, the bounded \<open>Shutdown\<close> of a processor that a failed build has started among them.
  \<^item> \<open>Asynx\<close>: \<^verbatim>\<open>asynx.go\<close>, every method of the facade over the components it calls.
  \<^item> \<open>Node\<close>: a whole node, composed of the executor, the store, the dispatcher with its workers, and the
    recovery. The components' own operations are its steps, and so is a crash, after which a new process
    starts on what the store holds. A worker's run is one step at the instant of its acknowledgement:
    before it the run changes memory only, so what other goroutines do to the dispatcher meanwhile is in the
    run's environment, and a command that commits during it is a step of its own (\<open>commit\<close>). The
    environment may enqueue only what the executor and the recovery enqueue (\<open>requestOk\<close>): stored events
    under their own keys; the theories below show that both do.
  \<^item> \<open>Node_Jobs\<close> (a job keeps its event and its key for life), \<open>Node_Stream\<close> (the events a stream records),
    \<open>Node_Correct\<close> and \<open>Node_Run\<close> (the invariant \<open>nodeOk\<close>, kept by every step), \<open>Node_Restart\<close> (recovery on a
    quiet dispatcher), \<open>Node_Properties\<close> (what the components guarantee together).
  \<^item> \<open>Order_Example\<close>: \<^verbatim>\<open>example\<close>, the order domain with its commands and projections, run by the executor.

  \<^bold>\<open>What is shown.\<close> Of the store: transactions refine the abstract contents, all or nothing; the
  contract, with the promise to serve live contexts, is enough for the conformance suite, and the in-memory
  stores pass it in every order of its races. Of the
  event store: reading returns exactly the committed history, with no snapshot, one that does not decode or
  one the library wrote; writing extends it by one event, and replay hands that event out as it was returned.
  Of the executor: an accepted command commits event, receipt and delivery together, a repeated command id is
  answered from its receipt, before and after a \<open>Forget\<close>, a rejection is final, \<open>Forget\<close> erases history,
  snapshot and deliveries and keeps receipts, and one that fails has done nothing or keeps its tombstone,
  parked. Of the dispatcher: FIFO order per aggregate, the park
  state table, refusals while parked, acknowledgement only after delivery, bounded retries, no stranded
  job and no channel closed twice in any interleaving, and that an undelivered event parks its aggregate and
  blocks its successors; a deletion marker is never dead-lettered and is acknowledged only once every durable
  subscriber has taken it.
  Of the lock, the pool and the processor: mutual exclusion, no waiter left behind, one worker per
  aggregate, every accepted command answered, a shutdown that drains. Of recovery: the scan ends and
  finds every pending delivery once, redelivery is exact and a failure is contained. Of the bus: a
  publication reaches exactly the subscriptions that match, a handler's panic never escapes, and \<open>Close\<close>
  returns only after every goroutine \<open>Publish\<close> counted. Of listeners: no send on a closed channel, no double close, no block under the mutex. Of
  the builder and facade: \<open>Build\<close> returns a sound instance or has shut down what it started, as far as its
  deadline allowed, patterns mean the
  same to durable and live subscribers, and a topic selects exactly the names of its segments. Of a
  node: a durable event is never lost, in any order of commands, worker runs, redeliveries, Forgets and
  crashes it is pending, handled or dead-lettered; and a restart with nothing else running queues exactly
  the pending events in order. Of an application: whatever its \<open>Validate\<close> methods keep of a history holds
  after any sequence of commands, shown on the life of the example's orders.

  \<^bold>\<open>Bounds and fuel.\<close> Versions are int64 with wrap-around written out; generations are 64-bit words.
  The retry loop terminates by its attempt counter. \<open>drain\<close> takes fuel: producers may keep a queue
  filled for ever. The recovery scan takes fuel 63: its limit doubles at every read and a log holds fewer
  than \<open>2^62\<close> entries, which is shown to be enough. Steps of concurrent components need none: a run is any
  sequence of steps, and what is proved of it is proved of every reachable state.

  \<^bold>\<open>Not modelled.\<close> Real time (a \<open>select\<close> takes any ready channel), random ids (an input of the
  operations), the JSON text syntax, the patch libraries and the regular-expression engine
  (parameters), the hooks for tests (\<open>WaitPublish\<close>, \<open>WaitForHandlers\<close>, \<open>SetOnSendPending\<close>), the test
  doubles of \<^verbatim>\<open>internal/mocks\<close>, and of the example's \<^verbatim>\<open>main.go\<close> the wiring and the printing of the results:
  no part of the library's behaviour. Panics of a command's methods and of sync projections, which their
  contract forbids; errors set to nil on the in-memory stores' test hooks. \<open>Build\<close> and \<open>New\<close> are modelled with
  the panics of a dispatcher factory and of \<open>make\<close>. Interface declarations and methods that only pass their arguments on
  to another package have no definition of their own: the operation they name is the one modelled. In \<open>Node\<close> the pool, the live bus and the listeners are left out: they
  neither write the store nor acknowledge a delivery.
\<close>

end
